(* ===== verification/Constants.thy ===== *)
theory Constants
  imports Main
begin

text \<open>
  The character codes of \<^verbatim>\<open>lib_js/internal/constants.js\<close>.  A character of a JavaScript
  string is a UTF-16 code unit, modelled as a natural number, so every constant is the
  number the source gives it.  They are abbreviations: the simplifier sees the numerals.
\<close>

abbreviation (input) CHAR_UPPERCASE_A :: nat where
  "CHAR_UPPERCASE_A \<equiv> 65"

abbreviation (input) CHAR_LOWERCASE_A :: nat where
  "CHAR_LOWERCASE_A \<equiv> 97"

abbreviation (input) CHAR_UPPERCASE_Z :: nat where
  "CHAR_UPPERCASE_Z \<equiv> 90"

abbreviation (input) CHAR_LOWERCASE_Z :: nat where
  "CHAR_LOWERCASE_Z \<equiv> 122"

abbreviation (input) CHAR_DOT :: nat where
  "CHAR_DOT \<equiv> 46"

abbreviation (input) CHAR_FORWARD_SLASH :: nat where
  "CHAR_FORWARD_SLASH \<equiv> 47"

abbreviation (input) CHAR_BACKWARD_SLASH :: nat where
  "CHAR_BACKWARD_SLASH \<equiv> 92"

abbreviation (input) CHAR_VERTICAL_LINE :: nat where
  "CHAR_VERTICAL_LINE \<equiv> 124"

abbreviation (input) CHAR_COLON :: nat where
  "CHAR_COLON \<equiv> 58"

abbreviation (input) CHAR_QUESTION_MARK :: nat where
  "CHAR_QUESTION_MARK \<equiv> 63"

abbreviation (input) CHAR_UNDERSCORE :: nat where
  "CHAR_UNDERSCORE \<equiv> 95"

abbreviation (input) CHAR_LINE_FEED :: nat where
  "CHAR_LINE_FEED \<equiv> 10"

abbreviation (input) CHAR_CARRIAGE_RETURN :: nat where
  "CHAR_CARRIAGE_RETURN \<equiv> 13"

abbreviation (input) CHAR_TAB :: nat where
  "CHAR_TAB \<equiv> 9"

abbreviation (input) CHAR_FORM_FEED :: nat where
  "CHAR_FORM_FEED \<equiv> 12"

abbreviation (input) CHAR_EXCLAMATION_MARK :: nat where
  "CHAR_EXCLAMATION_MARK \<equiv> 33"

abbreviation (input) CHAR_HASH :: nat where
  "CHAR_HASH \<equiv> 35"

abbreviation (input) CHAR_SPACE :: nat where
  "CHAR_SPACE \<equiv> 32"

abbreviation (input) CHAR_NO_BREAK_SPACE :: nat where
  "CHAR_NO_BREAK_SPACE \<equiv> 160"

abbreviation (input) CHAR_ZERO_WIDTH_NOBREAK_SPACE :: nat where
  "CHAR_ZERO_WIDTH_NOBREAK_SPACE \<equiv> 65279"

abbreviation (input) CHAR_LEFT_SQUARE_BRACKET :: nat where
  "CHAR_LEFT_SQUARE_BRACKET \<equiv> 91"

abbreviation (input) CHAR_RIGHT_SQUARE_BRACKET :: nat where
  "CHAR_RIGHT_SQUARE_BRACKET \<equiv> 93"

abbreviation (input) CHAR_LEFT_ANGLE_BRACKET :: nat where
  "CHAR_LEFT_ANGLE_BRACKET \<equiv> 60"

abbreviation (input) CHAR_RIGHT_ANGLE_BRACKET :: nat where
  "CHAR_RIGHT_ANGLE_BRACKET \<equiv> 62"

abbreviation (input) CHAR_LEFT_CURLY_BRACKET :: nat where
  "CHAR_LEFT_CURLY_BRACKET \<equiv> 123"

abbreviation (input) CHAR_RIGHT_CURLY_BRACKET :: nat where
  "CHAR_RIGHT_CURLY_BRACKET \<equiv> 125"

abbreviation (input) CHAR_HYPHEN_MINUS :: nat where
  "CHAR_HYPHEN_MINUS \<equiv> 45"

abbreviation (input) CHAR_PLUS :: nat where
  "CHAR_PLUS \<equiv> 43"

abbreviation (input) CHAR_DOUBLE_QUOTE :: nat where
  "CHAR_DOUBLE_QUOTE \<equiv> 34"

abbreviation (input) CHAR_SINGLE_QUOTE :: nat where
  "CHAR_SINGLE_QUOTE \<equiv> 39"

abbreviation (input) CHAR_PERCENT :: nat where
  "CHAR_PERCENT \<equiv> 37"

abbreviation (input) CHAR_SEMICOLON :: nat where
  "CHAR_SEMICOLON \<equiv> 59"

abbreviation (input) CHAR_CIRCUMFLEX_ACCENT :: nat where
  "CHAR_CIRCUMFLEX_ACCENT \<equiv> 94"

abbreviation (input) CHAR_GRAVE_ACCENT :: nat where
  "CHAR_GRAVE_ACCENT \<equiv> 96"

abbreviation (input) CHAR_AT :: nat where
  "CHAR_AT \<equiv> 64"

abbreviation (input) CHAR_AMPERSAND :: nat where
  "CHAR_AMPERSAND \<equiv> 38"

abbreviation (input) CHAR_EQUAL :: nat where
  "CHAR_EQUAL \<equiv> 61"

abbreviation (input) CHAR_0 :: nat where
  "CHAR_0 \<equiv> 48"

abbreviation (input) CHAR_9 :: nat where
  "CHAR_9 \<equiv> 57"

end
