(* ===== verification/Js_Prelude.thy ===== *)
theory Js_Prelude
  imports Main "HOL-Library.Sublist" Constants
begin

text \<open>
  The part of JavaScript the components share: strings as lists of UTF-16 code units with the
  methods the sources call on them, dynamically typed arguments, exceptions as values of a sum
  type, and the list lemmas (splitting a string at separators and joining the pieces again)
  that the proofs of the path, query string and URL components use.
\<close>

section \<open>Automation\<close>

named_theorems js_simps "evaluation of the JavaScript string primitives"
named_theorems loop_simps "unfolding of one step of a scanning loop"

section \<open>Strings\<close>

type_synonym jsstr = "nat list"

text \<open>A literal of the source, written as an Isabelle string.\<close>

definition js :: "string \<Rightarrow> jsstr" where
  "js s = map of_char s"

lemma js_Nil [simp]: "js [] = []"
  by (simp add: js_def)

lemma js_Cons [simp]: "js (c # s) = of_char c # js s"
  by (simp add: js_def)

text \<open>
  \<^verbatim>\<open>s.charCodeAt(i)\<close>: out of range the result is NaN, which is equal to nothing and fails every
  comparison; it is \<open>None\<close> here.
\<close>

definition charCodeAt :: "jsstr \<Rightarrow> nat \<Rightarrow> nat option" where
  "charCodeAt s i = (if i < length s then Some (s ! i) else None)"

text \<open>\<^verbatim>\<open>s.slice(a, b)\<close> for non-negative arguments, and \<^verbatim>\<open>s.slice(a)\<close>.\<close>

definition slice :: "jsstr \<Rightarrow> nat \<Rightarrow> nat \<Rightarrow> jsstr" where
  "slice s a b = take (b - a) (drop a s)"

definition sliceFrom :: "jsstr \<Rightarrow> nat \<Rightarrow> jsstr" where
  "sliceFrom s a = drop a s"

text \<open>\<^verbatim>\<open>s.lastIndexOf(c)\<close> for a one-character string, -1 when there is none.\<close>

fun lastIndexOf :: "jsstr \<Rightarrow> nat \<Rightarrow> int" where
  "lastIndexOf [] c = -1"
| "lastIndexOf (x # xs) c =
     (let k = lastIndexOf xs c in if k \<noteq> -1 then k + 1 else if x = c then 0 else -1)"

text \<open>
  \<^verbatim>\<open>s.toLowerCase()\<close> is the engine's Unicode case mapping; the operations that call it take it as
  an argument.  This is its restriction to the letters A to Z, used in the concrete instances and
  where the source has checked that the string is ASCII.
\<close>

definition lowerCode :: "nat \<Rightarrow> nat" where
  "lowerCode c = (if CHAR_UPPERCASE_A \<le> c \<and> c \<le> CHAR_UPPERCASE_Z then c + 32 else c)"

definition toLowerCase :: "jsstr \<Rightarrow> jsstr" where
  "toLowerCase s = map lowerCode s"

lemma slice_empty [simp]: "b \<le> a \<Longrightarrow> slice s a b = []"
  by (simp add: slice_def)

lemma slice_0 [simp]: "slice s 0 b = take b s"
  by (simp add: slice_def)

lemma length_slice: "length (slice s a b) = min b (length s) - a"
  by (auto simp: slice_def)

lemma slice_Suc:
  assumes "a \<le> i" "i < length s"
  shows "slice s a (Suc i) = slice s a i @ [s ! i]"
proof -
  have "Suc i - a = Suc (i - a)" using assms by simp
  then show ?thesis
    using assms by (simp add: slice_def take_Suc_conv_app_nth)
qed

lemma slice_append_mid:
  "slice (u @ v @ w) (length u) (length u + length v) = v"
  by (simp add: slice_def)

lemma slice_append_tail: "slice (u @ v) (length u) (length u + length v) = v"
  by (simp add: slice_def)

lemma take_length_slice [simp]: "slice s a (length s) = drop a s"
  by (simp add: slice_def)

lemma charCodeAt_Some [simp]: "i < length s \<Longrightarrow> charCodeAt s i = Some (s ! i)"
  by (simp add: charCodeAt_def)

lemma charCodeAt_None [simp]: "length s \<le> i \<Longrightarrow> charCodeAt s i = None"
  by (simp add: charCodeAt_def)

lemma lastIndexOf_absent: "c \<notin> set s \<Longrightarrow> lastIndexOf s c = -1"
  by (induction s) auto

lemma lastIndexOf_ge: "lastIndexOf s c \<ge> -1"
  by (induction s) (auto simp: Let_def)

lemma lastIndexOf_snoc:
  "lastIndexOf (s @ [x]) c = (if x = c then int (length s) else lastIndexOf s c)"
proof (induction s)
  case (Cons y s)
  then show ?case using lastIndexOf_ge[of s c] by (simp add: Let_def)
qed simp

lemma lastIndexOf_append:
  "c \<notin> set v \<Longrightarrow> lastIndexOf (u @ c # v) c = int (length u)"
  by (induction u) (auto simp: lastIndexOf_absent Let_def)

lemma toLowerCase_append [simp]: "toLowerCase (s @ t) = toLowerCase s @ toLowerCase t"
  by (simp add: toLowerCase_def)

lemma length_toLowerCase [simp]: "length (toLowerCase s) = length s"
  by (simp add: toLowerCase_def)

lemma lowerCode_idem [simp]: "lowerCode (lowerCode c) = lowerCode c"
  by (simp add: lowerCode_def)

lemma toLowerCase_idem [simp]: "toLowerCase (toLowerCase s) = toLowerCase s"
  by (simp add: toLowerCase_def comp_def)

text \<open>\<^verbatim>\<open>\s\<close>: white space and line ends of ECMAScript.\<close>

definition isSpaceClass :: "nat \<Rightarrow> bool" where
  "isSpaceClass c \<longleftrightarrow>
     (9 \<le> c \<and> c \<le> 13) \<or> (0x2000 \<le> c \<and> c \<le> 0x200a) \<or>
     c \<in> {0x20, 0xa0, 0x1680, 0x2028, 0x2029, 0x202f, 0x205f, 0x3000, 0xfeff}"

text \<open>\<^verbatim>\<open>'' + v\<close> of an integer (below 10^21, where the decimal form is used).\<close>

fun nat_to_js :: "nat \<Rightarrow> jsstr" where
  "nat_to_js n = (if n < 10 then [48 + n] else nat_to_js (n div 10) @ [48 + n mod 10])"

declare nat_to_js.simps [simp del]

definition int_to_js :: "int \<Rightarrow> jsstr" where
  "int_to_js i = (if i < 0 then CHAR_HYPHEN_MINUS # nat_to_js (nat (- i)) else nat_to_js (nat i))"

section \<open>Loops\<close>

text \<open>
  \<^verbatim>\<open>for (i = k - 1; i >= lim; --i) body\<close>, where the body returns the new state and whether it
  left the loop with \<^verbatim>\<open>break\<close>.
\<close>

fun for_down :: "(nat \<Rightarrow> 's \<Rightarrow> 's \<times> bool) \<Rightarrow> nat \<Rightarrow> nat \<Rightarrow> 's \<Rightarrow> 's" where
  "for_down body lim k s =
     (if k \<le> lim then s
      else (case body (k - 1) s of
              (s', stop) \<Rightarrow> if stop then s' else for_down body lim (k - 1) s'))"

declare for_down.simps [simp del]

lemma for_down_done [simp]: "k \<le> lim \<Longrightarrow> for_down body lim k s = s"
  by (simp add: for_down.simps)

lemma for_down_Suc:
  "lim \<le> k \<Longrightarrow> for_down body lim (Suc k) s =
     (case body k s of (s', stop) \<Rightarrow> if stop then s' else for_down body lim k s')"
  by (simp add: for_down.simps[of body lim "Suc k" s] split: prod.split)

text \<open>A stretch of indices on which the body neither changes the state nor stops.\<close>

lemma for_down_skip:
  assumes "lim \<le> m" "m \<le> k" "\<And>i. m \<le> i \<Longrightarrow> i < k \<Longrightarrow> body i s = (s, False)"
  shows "for_down body lim k s = for_down body lim m s"
  using assms(2,3)
proof (induction k)
  case (Suc k)
  show ?case
  proof (cases "m = Suc k")
    case False
    with Suc show ?thesis using assms(1) by (simp add: for_down_Suc)
  qed simp
qed simp

text \<open>\<^verbatim>\<open>for (; j < s.length; ++j) if (!P(s[j])) break\<close>: the index where the scan stops.\<close>

function scanWhile :: "(nat \<Rightarrow> bool) \<Rightarrow> jsstr \<Rightarrow> nat \<Rightarrow> nat" where
  "scanWhile P s j = (if j < length s \<and> P (s ! j) then scanWhile P s (Suc j) else j)"
  by pat_completeness auto
termination
  by (relation "measure (\<lambda>(P, s, j). length s - j)") auto

declare scanWhile.simps [simp del]

lemma scanWhile_stop: "\<not> (j < length s \<and> P (s ! j)) \<Longrightarrow> scanWhile P s j = j"
  by (subst scanWhile.simps) auto

lemma scanWhile_ge: "j \<le> scanWhile P s j"
proof (induction P s j rule: scanWhile.induct)
  case (1 P s j)
  then show ?case by (subst scanWhile.simps) auto
qed

lemma scanWhile_le: "j \<le> length s \<Longrightarrow> scanWhile P s j \<le> length s"
proof (induction P s j rule: scanWhile.induct)
  case (1 P s j)
  then show ?case by (subst scanWhile.simps) auto
qed

lemma scanWhile_holds: "j \<le> i \<Longrightarrow> i < scanWhile P s j \<Longrightarrow> P (s ! i)"
proof (induction P s j rule: scanWhile.induct)
  case (1 P s j)
  then show ?case
    by (cases "j < length s \<and> P (s ! j)"; cases "i = j")
      (auto simp: scanWhile.simps[of P s j])
qed

lemma scanWhile_stops: "scanWhile P s j < length s \<Longrightarrow> \<not> P (s ! scanWhile P s j)"
proof (induction P s j rule: scanWhile.induct)
  case (1 P s j)
  then show ?case
    by (cases "j < length s \<and> P (s ! j)") (auto simp: scanWhile.simps[of P s j])
qed

section \<open>Values and exceptions\<close>

text \<open>
  An argument of a public function can have any JavaScript type.  Strings carry their contents;
  objects and functions are references (numbers); a number is an integer, an infinity or
  the value NaN.
\<close>

datatype jsnum = Fin int | PosInf | NegInf | NotANumber

datatype jsval =
    JUndef
  | JNull
  | JBool bool
  | JNum jsnum
  | JStr jsstr
  | JObj nat
  | JFun nat

text \<open>The contents of a list of arguments that are all strings.\<close>

fun all_strings :: "jsval list \<Rightarrow> jsstr list option" where
  "all_strings [] = Some []"
| "all_strings (JStr s # vs) = map_option (\<lambda>r. s # r) (all_strings vs)"
| "all_strings (v # vs) = None"

lemma all_strings_Some: "all_strings vs = Some ps \<Longrightarrow> vs = map JStr ps"
  by (induction vs arbitrary: ps rule: all_strings.induct) auto

text \<open>The exceptions the modelled code throws.\<close>

datatype jserr =
    ERR_INVALID_ARG_TYPE jsstr
  | ERR_INVALID_URI
  | ReferenceError jsstr
  | ERR_OUT_OF_RANGE jsstr
  | ERR_UNHANDLED_ERROR jsval
  | TypeError
  | URIError
  | ThrowValue jsval

text \<open>Running one computation after another: an exception stops the sequence.\<close>

fun ebind :: "jserr + 'a \<Rightarrow> ('a \<Rightarrow> jserr + 'b) \<Rightarrow> jserr + 'b" where
  "ebind (Inl e) f = Inl e"
| "ebind (Inr x) f = f x"

lemma ebind_Inr_iff: "ebind m f = Inr y \<longleftrightarrow> (\<exists>x. m = Inr x \<and> f x = Inr y)"
  by (cases m) auto

lemma ebind_split:
  "P (ebind m f) \<longleftrightarrow> (\<forall>e. m = Inl e \<longrightarrow> P (Inl e)) \<and> (\<forall>x. m = Inr x \<longrightarrow> P (f x))"
  by (cases m) auto

section \<open>Splitting and joining\<close>

text \<open>
  The pieces of a string between the characters satisfying \<open>P\<close>: \<^verbatim>\<open>s.split(c)\<close> for
  \<open>P = (\<lambda>x. x = c)\<close>, and the abstract view of a path as its segments.
\<close>

fun splitOn :: "(nat \<Rightarrow> bool) \<Rightarrow> jsstr \<Rightarrow> jsstr list" where
  "splitOn P [] = [[]]"
| "splitOn P (c # cs) =
     (if P c then [] # splitOn P cs
      else (case splitOn P cs of [] \<Rightarrow> [[c]] | h # t \<Rightarrow> (c # h) # t))"

text \<open>\<^verbatim>\<open>pieces.join(c)\<close> for a one-character separator.\<close>

fun joinOn :: "nat \<Rightarrow> jsstr list \<Rightarrow> jsstr" where
  "joinOn c [] = []"
| "joinOn c [x] = x"
| "joinOn c (x # y # r) = x @ c # joinOn c (y # r)"

lemma splitOn_nonempty [simp]: "splitOn P s \<noteq> []"
  by (cases s) (auto split: list.splits)

lemma joinOn_Cons: "r \<noteq> [] \<Longrightarrow> joinOn c (x # r) = x @ c # joinOn c r"
  by (cases r) auto

lemma joinOn_append:
  "xs \<noteq> [] \<Longrightarrow> ys \<noteq> [] \<Longrightarrow> joinOn c (xs @ ys) = joinOn c xs @ c # joinOn c ys"
  by (induction c xs rule: joinOn.induct) (auto simp: joinOn_Cons)

lemma joinOn_snoc:
  "joinOn c (xs @ [x]) = (if xs = [] then x else joinOn c xs @ c # x)"
  by (simp add: joinOn_append)

lemma joinOn_eq_Nil: "joinOn c xs = [] \<longleftrightarrow> xs = [] \<or> xs = [[]]"
  by (induction c xs rule: joinOn.induct) auto

lemma splitOn_free: "\<forall>c\<in>set s. \<not> P c \<Longrightarrow> splitOn P s = [s]"
  by (induction s) auto

lemma splitOn_append_sep:
  "P c \<Longrightarrow> splitOn P (s @ c # t) = splitOn P s @ splitOn P t"
proof (induction s)
  case (Cons a s)
  show ?case
  proof (cases "splitOn P s")
    case Nil
    then show ?thesis by simp
  next
    case (Cons h r)
    with Cons.IH Cons.prems show ?thesis by simp
  qed
qed simp

lemma splitOn_snoc_free:
  "\<not> P c \<Longrightarrow> splitOn P (s @ [c]) = butlast (splitOn P s) @ [last (splitOn P s) @ [c]]"
proof (induction s)
  case (Cons a s)
  obtain h r where hr: "splitOn P s = h # r" by (cases "splitOn P s") auto
  show ?case using Cons hr by (cases r) auto
qed simp

lemma splitOn_pieces_free: "x \<in> set (splitOn P s) \<Longrightarrow> \<forall>c\<in>set x. \<not> P c"
proof (induction s arbitrary: x)
  case (Cons a s)
  obtain h r where "splitOn P s = h # r" by (cases "splitOn P s") auto
  with Cons.IH[of h] Cons.IH Cons.prems show ?case by (auto split: if_splits)
qed simp

lemma splitOn_joinOn:
  assumes "xs \<noteq> []" "P c" "\<forall>x\<in>set xs. \<forall>d\<in>set x. \<not> P d"
  shows "splitOn P (joinOn c xs) = xs"
  using assms
  by (induction c xs rule: joinOn.induct) (auto simp: splitOn_free splitOn_append_sep)

lemma joinOn_splitOn: "joinOn c (splitOn (\<lambda>x. x = c) s) = s"
proof (induction s)
  case (Cons a s)
  obtain h r where "splitOn (\<lambda>x. x = c) s = h # r" by (cases "splitOn (\<lambda>x. x = c) s") auto
  with Cons show ?case by (cases r) auto
qed simp

lemma all_drop_nth:
  assumes "\<forall>c\<in>set (drop lim s). P c" "lim \<le> i" "i < length s"
  shows "P (s ! i)"
proof -
  have "s ! i = drop lim s ! (i - lim)" "i - lim < length (drop lim s)" using assms by auto
  then show ?thesis using assms(1) nth_mem by metis
qed

text \<open>Every string is a stem without its last run of characters satisfying \<open>P\<close>.\<close>

lemma split_suffix:
  obtains a b where "s = a @ b" "\<forall>c\<in>set b. P c" "a = [] \<or> \<not> P (last a)"
proof -
  let ?b = "rev (takeWhile P (rev s))" and ?a = "rev (dropWhile P (rev s))"
  have "s = ?a @ ?b"
    by (metis rev_append rev_rev_ident takeWhile_dropWhile_id)
  moreover have "\<forall>c\<in>set ?b. P c" by (auto dest: set_takeWhileD)
  moreover have "?a = [] \<or> \<not> P (last ?a)"
    by (metis hd_dropWhile last_rev rev_is_Nil_conv)
  ultimately show thesis by (rule that)
qed

text \<open>Two lists split at the end of their longest common prefix.\<close>

lemma common_prefix:
  obtains u x y where "a = u @ x" "b = u @ y" "x = [] \<or> y = [] \<or> hd x \<noteq> hd y"
proof -
  have "\<exists>u x y. a = u @ x \<and> b = u @ y \<and> (x = [] \<or> y = [] \<or> hd x \<noteq> hd y)"
  proof (induction a arbitrary: b)
    case (Cons c a)
    show ?case
    proof (cases b)
      case Nil
      then show ?thesis by simp
    next
      case b: (Cons d b')
      show ?thesis
      proof (cases "c = d")
        case True
        from Cons.IH[of b'] obtain u x y where
          "a = u @ x" "b' = u @ y" "x = [] \<or> y = [] \<or> hd x \<noteq> hd y" by blast
        then have "c # a = (c # u) @ x \<and> b = (c # u) @ y \<and> (x = [] \<or> y = [] \<or> hd x \<noteq> hd y)"
          using b True by simp
        then show ?thesis by blast
      next
        case False
        then have "c # a = [] @ c # a \<and> b = [] @ b \<and> (c # a = [] \<or> b = [] \<or> hd (c # a) \<noteq> hd b)"
          using b by simp
        then show ?thesis by blast
      qed
    qed
  qed simp
  then show thesis using that by blast
qed

end
