(* ===== verification/Path_Common.thy ===== *)
theory Path_Common
  imports Js_Prelude
begin

text \<open>
  The helpers at the head of \<^verbatim>\<open>lib_js/path.js\<close>: the argument check, the separator predicates,
  \<^verbatim>\<open>normalizeString\<close> (the scanner both flavours of the module use to resolve the dot segments)
  and \<^verbatim>\<open>_format\<close>.  The abstract view of a path is its list of segments; the locale
  \<open>path_flavour\<close> states what the scanner needs of a separator predicate and proves, once for
  both flavours, that the scanner computes the segment-wise resolution.
\<close>

section \<open>The code\<close>

definition assertPath :: "jsval \<Rightarrow> jserr + jsstr" where
  "assertPath path =
     (case path of JStr s \<Rightarrow> Inr s | _ \<Rightarrow> Inl (ERR_INVALID_ARG_TYPE (js ''path'')))"

definition isPathSeparator :: "nat \<Rightarrow> bool" where
  "isPathSeparator code \<longleftrightarrow> code = CHAR_FORWARD_SLASH \<or> code = CHAR_BACKWARD_SLASH"

definition isPosixPathSeparator :: "nat \<Rightarrow> bool" where
  "isPosixPathSeparator code \<longleftrightarrow> code = CHAR_FORWARD_SLASH"

definition isWindowsDeviceRoot :: "nat \<Rightarrow> bool" where
  "isWindowsDeviceRoot code \<longleftrightarrow>
     CHAR_UPPERCASE_A \<le> code \<and> code \<le> CHAR_UPPERCASE_Z \<or>
     CHAR_LOWERCASE_A \<le> code \<and> code \<le> CHAR_LOWERCASE_Z"

text \<open>
  The local variables of \<^verbatim>\<open>normalizeString\<close>: \<open>lastSlash\<close> and \<open>dots\<close> use -1 as the source does.
\<close>

record norm_state =
  nres :: jsstr
  lastSegmentLength :: nat
  lastSlash :: int
  dots :: int

definition norm_init :: norm_state where
  "norm_init = \<lparr>nres = [], lastSegmentLength = 0, lastSlash = -1, dots = 0\<rparr>"

text \<open>The tail of the \<^verbatim>\<open>..\<close> branch: keep the segment where climbing above the start is allowed.\<close>

definition norm_above :: "bool \<Rightarrow> nat \<Rightarrow> norm_state \<Rightarrow> norm_state" where
  "norm_above allowAboveRoot separator st =
     (if allowAboveRoot then
        st\<lparr>nres := (if length (nres st) > 0 then nres st @ [separator, CHAR_DOT, CHAR_DOT]
                    else [CHAR_DOT, CHAR_DOT]),
           lastSegmentLength := 2\<rparr>
      else st)"

text \<open>The \<^verbatim>\<open>..\<close> branch: drop the last segment of the result, unless it is \<^verbatim>\<open>..\<close> itself.\<close>

definition norm_dotdot :: "bool \<Rightarrow> nat \<Rightarrow> norm_state \<Rightarrow> norm_state" where
  "norm_dotdot allowAboveRoot separator st =
     (let r = nres st in
      if length r < 2 \<or> lastSegmentLength st \<noteq> 2 \<or>
         charCodeAt r (length r - 1) \<noteq> Some CHAR_DOT \<or>
         charCodeAt r (length r - 2) \<noteq> Some CHAR_DOT
      then
        (if length r > 2 then
           (let lastSlashIndex = lastIndexOf r separator in
            if lastSlashIndex \<noteq> int (length r) - 1 then
              (if lastSlashIndex = -1 then st\<lparr>nres := [], lastSegmentLength := 0\<rparr>
               else
                 (let r' = slice r 0 (nat lastSlashIndex)
                  in st\<lparr>nres := r',
                        lastSegmentLength :=
                          nat (int (length r') - 1 - lastIndexOf r' separator)\<rparr>))
            else norm_above allowAboveRoot separator st)
         else if length r = 2 \<or> length r = 1 then st\<lparr>nres := [], lastSegmentLength := 0\<rparr>
         else norm_above allowAboveRoot separator st)
      else norm_above allowAboveRoot separator st)"

text \<open>An ordinary segment \<^verbatim>\<open>path.slice(lastSlash + 1, i)\<close> is appended.\<close>

definition norm_push :: "jsstr \<Rightarrow> nat \<Rightarrow> nat \<Rightarrow> norm_state \<Rightarrow> norm_state" where
  "norm_push path separator i st =
     (let seg = slice path (nat (lastSlash st + 1)) i
      in st\<lparr>nres := (if length (nres st) > 0 then nres st @ [separator] @ seg else seg),
            lastSegmentLength := nat (int i - lastSlash st - 1)\<rparr>)"

text \<open>The loop body for the character \<open>code\<close> at index \<open>i\<close>.\<close>

definition norm_step ::
  "jsstr \<Rightarrow> bool \<Rightarrow> nat \<Rightarrow> (nat \<Rightarrow> bool) \<Rightarrow> nat \<Rightarrow> nat \<Rightarrow> norm_state \<Rightarrow> norm_state"
where
  "norm_step path allowAboveRoot separator isSep code i st =
     (if isSep code then
        (let st' =
           (if lastSlash st = int i - 1 \<or> dots st = 1 then st
            else if lastSlash st \<noteq> int i - 1 \<and> dots st = 2 then
              norm_dotdot allowAboveRoot separator st
            else norm_push path separator i st)
         in st'\<lparr>lastSlash := int i, dots := 0\<rparr>)
      else if code = CHAR_DOT \<and> dots st \<noteq> -1 then st\<lparr>dots := dots st + 1\<rparr>
      else st\<lparr>dots := -1\<rparr>)"

text \<open>
  The loop over \<open>i = 0, \<dots>, path.length\<close>.  The variable \<open>code\<close> keeps the last character read, so
  at \<open>i = path.length\<close> the loop ends at once when the path ended in a separator, and otherwise
  runs its body once more on an appended forward slash.
\<close>

function norm_loop ::
  "jsstr \<Rightarrow> bool \<Rightarrow> nat \<Rightarrow> (nat \<Rightarrow> bool) \<Rightarrow> nat option \<Rightarrow> nat \<Rightarrow> norm_state \<Rightarrow> norm_state"
where
  "norm_loop path allowAboveRoot separator isSep code i st =
     (if i < length path then
        norm_loop path allowAboveRoot separator isSep (Some (path ! i)) (Suc i)
          (norm_step path allowAboveRoot separator isSep (path ! i) i st)
      else if i = length path then
        (case code of
           Some c \<Rightarrow>
             if isSep c then st
             else norm_step path allowAboveRoot separator isSep CHAR_FORWARD_SLASH i st
         | None \<Rightarrow> norm_step path allowAboveRoot separator isSep CHAR_FORWARD_SLASH i st)
      else st)"
  by pat_completeness auto
termination
  by (relation "measure (\<lambda>(path, a, s, p, code, i, st). length path - i)") auto

declare norm_loop.simps [simp del]

lemma norm_loop_end:
  "isSep c \<Longrightarrow> norm_loop path allow separator isSep (Some c) (length path) st = st"
  by (subst norm_loop.simps) simp

definition normalizeString :: "jsstr \<Rightarrow> bool \<Rightarrow> nat \<Rightarrow> (nat \<Rightarrow> bool) \<Rightarrow> jsstr" where
  "normalizeString path allowAboveRoot separator isSep =
     nres (norm_loop path allowAboveRoot separator isSep None 0 norm_init)"

text \<open>A path object as \<^verbatim>\<open>parse\<close> returns and \<^verbatim>\<open>format\<close> takes it; an absent property is \<open>None\<close>.\<close>

record path_object =
  po_root :: "jsstr option"
  po_dir :: "jsstr option"
  po_base :: "jsstr option"
  po_ext :: "jsstr option"
  po_name :: "jsstr option"

text \<open>\<^verbatim>\<open>x || y\<close> on string properties: undefined and the empty string are falsy.\<close>

definition str_or :: "jsstr option \<Rightarrow> jsstr option \<Rightarrow> jsstr option" where
  "str_or a b = (case a of None \<Rightarrow> b | Some s \<Rightarrow> if s = [] then b else a)"

definition path_format :: "jsstr \<Rightarrow> path_object \<Rightarrow> jsstr" where
  "path_format sep po =
     (let dir = str_or (po_dir po) (po_root po);
          base = (case str_or (po_base po) None of
                    Some b \<Rightarrow> b
                  | None \<Rightarrow> the (str_or (po_name po) (Some [])) @ the (str_or (po_ext po) (Some [])))
      in case str_or dir None of
           None \<Rightarrow> base
         | Some d \<Rightarrow> if dir = po_root po then d @ base else d @ sep @ base)"

section \<open>The abstract view: resolving a list of segments\<close>

text \<open>
  A path is the list of its segments.  Resolving it drops the empty segments and the single
  dots; a double dot takes away the segment before it, or stays where there is none to take
  away and climbing above the start is allowed.
\<close>

definition push_seg :: "bool \<Rightarrow> jsstr list \<Rightarrow> jsstr \<Rightarrow> jsstr list" where
  "push_seg allow st seg =
     (if seg = [] \<or> seg = [CHAR_DOT] then st
      else if seg = [CHAR_DOT, CHAR_DOT] then
        (if st \<noteq> [] \<and> last st \<noteq> [CHAR_DOT, CHAR_DOT] then butlast st
         else if allow then st @ [[CHAR_DOT, CHAR_DOT]]
         else st)
      else st @ [seg])"

definition resolve_segs :: "bool \<Rightarrow> jsstr list \<Rightarrow> jsstr list" where
  "resolve_segs allow segs = foldl (push_seg allow) [] segs"

definition norm_spec :: "jsstr \<Rightarrow> bool \<Rightarrow> nat \<Rightarrow> (nat \<Rightarrow> bool) \<Rightarrow> jsstr" where
  "norm_spec path allow separator isSep =
     joinOn separator (resolve_segs allow (splitOn isSep path))"

text \<open>Resolved segment lists: ordinary segments, after leading double dots where allowed.\<close>

fun normal_segs :: "bool \<Rightarrow> jsstr list \<Rightarrow> bool" where
  "normal_segs allow [] = True"
| "normal_segs allow (x # xs) =
     (x \<noteq> [] \<and> x \<noteq> [CHAR_DOT] \<and>
      (if x = [CHAR_DOT, CHAR_DOT] then allow \<and> normal_segs allow xs
       else normal_segs False xs))"

lemma normal_segs_mono: "normal_segs False xs \<Longrightarrow> normal_segs allow xs"
  by (cases xs) (auto split: if_splits)

lemma normal_segs_False_iff:
  "normal_segs False xs \<longleftrightarrow>
     (\<forall>x\<in>set xs. x \<noteq> [] \<and> x \<noteq> [CHAR_DOT] \<and> x \<noteq> [CHAR_DOT, CHAR_DOT])"
  by (induction xs) auto

lemma normal_segs_nonempty: "normal_segs allow xs \<Longrightarrow> x \<in> set xs \<Longrightarrow> x \<noteq> []"
  by (induction xs arbitrary: allow) (auto split: if_splits)

lemma normal_segs_butlast: "normal_segs allow xs \<Longrightarrow> normal_segs allow (butlast xs)"
  by (induction xs arbitrary: allow) (auto split: if_splits)

lemma normal_segs_snoc:
  assumes "normal_segs allow xs" "x \<noteq> []" "x \<noteq> [CHAR_DOT]" "x \<noteq> [CHAR_DOT, CHAR_DOT]"
  shows "normal_segs allow (xs @ [x])"
  using assms by (induction xs arbitrary: allow) (auto split: if_splits)

lemma normal_segs_snoc_dotdot:
  assumes "normal_segs True xs" "xs = [] \<or> last xs = [CHAR_DOT, CHAR_DOT]"
  shows "normal_segs True (xs @ [[CHAR_DOT, CHAR_DOT]])"
  using assms
proof (induction xs)
  case (Cons x xs)
  then show ?case
    by (cases "xs = []") (auto simp: normal_segs_False_iff split: if_splits)
qed simp

lemma push_seg_normal:
  assumes "normal_segs allow st" shows "normal_segs allow (push_seg allow st seg)"
  using assms
  by (auto simp: push_seg_def normal_segs_butlast normal_segs_snoc
      intro: normal_segs_snoc_dotdot)

lemma resolve_segs_snoc [simp]:
  "resolve_segs allow (xs @ [x]) = push_seg allow (resolve_segs allow xs) x"
  by (simp add: resolve_segs_def)

lemma resolve_segs_Nil [simp]: "resolve_segs allow [] = []"
  by (simp add: resolve_segs_def)

lemma resolve_segs_normal: "normal_segs allow (resolve_segs allow xs)"
  by (induction xs rule: rev_induct) (auto simp: push_seg_normal)

lemma resolve_segs_set: "set (resolve_segs allow xs) \<subseteq> set xs"
proof (induction xs rule: rev_induct)
  case (snoc x xs)
  then show ?case by (auto simp: push_seg_def dest!: in_set_butlastD)
qed simp

lemma push_normal:
  assumes "normal_segs allow (st @ [x])"
  shows "push_seg allow st x = st @ [x]"
  using assms
proof (induction st arbitrary: allow)
  case Nil
  then show ?case by (auto simp: push_seg_def split: if_splits)
next
  case (Cons y st)
  show ?case
  proof (cases "y = [CHAR_DOT, CHAR_DOT]")
    case True
    with Cons.prems have "allow" "normal_segs allow (st @ [x])" by auto
    with Cons.IH[of allow] True show ?thesis
      by (cases "st = []") (auto simp: push_seg_def split: if_splits)
  next
    case False
    with Cons.prems have "normal_segs False (st @ [x])" by auto
    then show ?thesis by (auto simp: push_seg_def normal_segs_False_iff)
  qed
qed

lemma normal_segs_prefix: "normal_segs allow (xs @ ys) \<Longrightarrow> normal_segs allow xs"
  by (induction xs arbitrary: allow) (auto split: if_splits)

text \<open>A resolved list is its own resolution.\<close>

lemma resolve_normal: "normal_segs allow xs \<Longrightarrow> resolve_segs allow xs = xs"
proof (induction xs rule: rev_induct)
  case (snoc x xs)
  from snoc.prems have "normal_segs allow xs" by (rule normal_segs_prefix)
  with snoc show ?case by (simp add: push_normal)
qed simp

lemma resolve_segs_idem: "resolve_segs allow (resolve_segs allow xs) = resolve_segs allow xs"
  by (rule resolve_normal[OF resolve_segs_normal])

lemma resolve_segs_append:
  "resolve_segs allow (xs @ ys) = foldl (push_seg allow) (resolve_segs allow xs) ys"
  by (simp add: resolve_segs_def)

lemma push_seg_skip [simp]: "push_seg allow st [] = st"
  by (simp add: push_seg_def)

lemma push_seg_subset: "set (push_seg allow st x) \<subseteq> set st \<union> {x, [CHAR_DOT, CHAR_DOT]}"
proof (cases st rule: rev_cases)
  case (snoc ys y)
  then show ?thesis by (simp add: push_seg_def) blast
qed (auto simp: push_seg_def)

lemma push_free:
  assumes "\<forall>x\<in>set st. \<forall>c\<in>set x. \<not> P c" "\<forall>x\<in>set xs. \<forall>c\<in>set x. \<not> P c" "\<not> P CHAR_DOT"
  shows "\<forall>x\<in>set (foldl (push_seg allow) st xs). \<forall>c\<in>set x. \<not> P c"
  using assms
proof (induction xs arbitrary: st)
  case (Cons x xs)
  have "\<forall>y\<in>set (push_seg allow st x). \<forall>c\<in>set y. \<not> P c"
  proof
    fix y
    assume "y \<in> set (push_seg allow st x)"
    with push_seg_subset have "y \<in> set st \<or> y = x \<or> y = [CHAR_DOT, CHAR_DOT]" by blast
    then show "\<forall>c\<in>set y. \<not> P c"
    proof (elim disjE)
      assume "y \<in> set st" then show ?thesis using Cons.prems(1) by blast
    next
      assume "y = x" then show ?thesis using Cons.prems(2) by simp
    next
      assume "y = [CHAR_DOT, CHAR_DOT]" then show ?thesis using Cons.prems(3) by simp
    qed
  qed
  then show ?case using Cons.IH[of "push_seg allow st x"] Cons.prems(2,3) by simp
qed simp

section \<open>The scanner computes the resolution\<close>

definition dot_count :: "jsstr \<Rightarrow> int" where
  "dot_count cur = (if \<forall>c\<in>set cur. c = CHAR_DOT then int (length cur) else -1)"

lemma dot_count_Nil [simp]: "dot_count [] = 0"
  by (simp add: dot_count_def)

lemma dot_count_snoc:
  "dot_count (cur @ [c]) = (if c = CHAR_DOT \<and> dot_count cur \<noteq> -1 then dot_count cur + 1 else -1)"
  by (auto simp: dot_count_def)

lemma dot_count_1: "dot_count cur = 1 \<longleftrightarrow> cur = [CHAR_DOT]"
  by (cases cur) (auto simp: dot_count_def)

lemma dot_count_2: "dot_count cur = 2 \<longleftrightarrow> cur = [CHAR_DOT, CHAR_DOT]"
proof (cases cur)
  case (Cons a r)
  then show ?thesis by (cases r) (auto simp: dot_count_def)
qed (simp add: dot_count_def)

text \<open>
  The relation between the scanner's variables at index \<open>i\<close> and the abstract state: the
  segments resolved so far (\<open>st\<close>) and the characters of the segment being read (\<open>cur\<close>).
\<close>

definition norm_rel ::
  "(nat \<Rightarrow> bool) \<Rightarrow> nat \<Rightarrow> jsstr \<Rightarrow> nat \<Rightarrow> jsstr list \<Rightarrow> jsstr \<Rightarrow> norm_state \<Rightarrow> bool"
where
  "norm_rel isSep sep path i st cur s \<longleftrightarrow>
     nres s = joinOn sep st \<and>
     lastSegmentLength s = (if st = [] then 0 else length (last st)) \<and>
     lastSlash s = int i - 1 - int (length cur) \<and> length cur \<le> i \<and>
     slice path (i - length cur) i = cur \<and>
     dots s = dot_count cur \<and>
     (\<forall>c\<in>set cur. \<not> isSep c) \<and>
     (\<forall>x\<in>set st. x \<noteq> [] \<and> (\<forall>c\<in>set x. \<not> isSep c))"

locale path_flavour =
  fixes isSep :: "nat \<Rightarrow> bool" and sep :: nat
  assumes sep_isSep: "isSep sep"
    and slash_isSep: "isSep CHAR_FORWARD_SLASH"
    and dot_not_sep: "\<not> isSep CHAR_DOT"
begin

lemma norm_above_rel:
  assumes "nres s = joinOn sep st" "\<forall>x\<in>set st. x \<noteq> []"
    and "lastSegmentLength s = (if st = [] then 0 else length (last st))"
  shows "norm_above allow sep s =
     (let st' = (if allow then st @ [[CHAR_DOT, CHAR_DOT]] else st)
      in s\<lparr>nres := joinOn sep st',
           lastSegmentLength := (if st' = [] then 0 else length (last st'))\<rparr>)"
  using assms by (auto simp: norm_above_def Let_def joinOn_snoc joinOn_eq_Nil)

lemma norm_dotdot_rel:
  assumes r: "nres s = joinOn sep st"
    and l: "lastSegmentLength s = (if st = [] then 0 else length (last st))"
    and free: "\<forall>x\<in>set st. x \<noteq> [] \<and> (\<forall>c\<in>set x. \<not> isSep c)"
  shows "norm_dotdot allow sep s =
     (let st' = push_seg allow st [CHAR_DOT, CHAR_DOT]
      in s\<lparr>nres := joinOn sep st',
           lastSegmentLength := (if st' = [] then 0 else length (last st'))\<rparr>)"
proof (cases st rule: rev_cases)
  case Nil
  with r l show ?thesis
    by (simp add: norm_dotdot_def norm_above_def push_seg_def Let_def)
next
  case (snoc xs x)
  have x: "x \<noteq> []" "\<forall>c\<in>set x. \<not> isSep c" "sep \<notin> set x"
    using free snoc sep_isSep by auto
  show ?thesis
  proof (cases "x = [CHAR_DOT, CHAR_DOT]")
    case True
    let ?r = "joinOn sep (xs @ [x])"
    have "charCodeAt ?r (length ?r - 1) = Some CHAR_DOT"
      and "charCodeAt ?r (length ?r - 2) = Some CHAR_DOT" and "\<not> length ?r < 2"
      by (auto simp: True joinOn_snoc nth_append)
    then have "norm_dotdot allow sep s = norm_above allow sep s"
      using r l snoc True by (simp add: norm_dotdot_def Let_def)
    also have "\<dots> = (let st' = (if allow then st @ [[CHAR_DOT, CHAR_DOT]] else st)
      in s\<lparr>nres := joinOn sep st',
           lastSegmentLength := (if st' = [] then 0 else length (last st'))\<rparr>)"
      using r l free by (intro norm_above_rel) auto
    finally show ?thesis using snoc True by (simp add: push_seg_def)
  next
    case False
    have guard: "length (nres s) < 2 \<or> lastSegmentLength s \<noteq> 2 \<or>
        charCodeAt (nres s) (length (nres s) - 1) \<noteq> Some CHAR_DOT \<or>
        charCodeAt (nres s) (length (nres s) - 2) \<noteq> Some CHAR_DOT"
    proof (cases "length x = 2")
      case True
      then obtain a b where ab: "x = [a, b]"
        by (auto simp: numeral_2_eq_2 length_Suc_conv)
      with False r snoc show ?thesis by (auto simp: joinOn_snoc nth_append)
    qed (use l snoc in auto)
    have push: "push_seg allow st [CHAR_DOT, CHAR_DOT] = xs"
      using snoc False by (simp add: push_seg_def)
    show ?thesis
    proof (cases xs rule: rev_cases)
      case Nil
      then have res: "nres s = x" using r snoc by simp
      have "length x \<noteq> 0" using x by simp
      then have "length x > 2 \<or> length x = 2 \<or> length x = 1" by linarith
      moreover have "lastIndexOf x sep = -1" using x by (simp add: lastIndexOf_absent)
      ultimately show ?thesis
        using guard push res Nil x(1) by (elim disjE) (simp_all add: norm_dotdot_def Let_def)
    next
      case (snoc ys y)
      have y: "sep \<notin> set y" "y \<noteq> []" using free \<open>st = xs @ [x]\<close> snoc sep_isSep by auto
      have res: "nres s = joinOn sep xs @ sep # x"
        unfolding r \<open>st = xs @ [x]\<close> using snoc by (subst joinOn_snoc) simp
      have li: "lastIndexOf (nres s) sep = int (length (joinOn sep xs))"
        unfolding res by (rule lastIndexOf_append) (rule x)
      have ly: "nat (int (length (joinOn sep xs)) - 1 - lastIndexOf (joinOn sep xs) sep)
          = length y"
        using snoc y by (cases "ys = []")
          (auto simp: joinOn_snoc lastIndexOf_absent lastIndexOf_append)
      have "joinOn sep xs \<noteq> []" using snoc y by (auto simp: joinOn_eq_Nil)
      then have "length (nres s) > 2" using res x by (cases "joinOn sep xs"; cases x) auto
      moreover have "lastIndexOf (nres s) sep \<noteq> int (length (nres s)) - 1"
        using li res x by (cases x) auto
      ultimately have "norm_dotdot allow sep s =
          s\<lparr>nres := joinOn sep xs, lastSegmentLength := length y\<rparr>"
        using guard li ly by (simp add: norm_dotdot_def Let_def res)
      then show ?thesis using push snoc by (simp add: Let_def)
    qed
  qed
qed


lemma norm_step_char:
  assumes rel: "norm_rel isSep sep path i st cur s"
    and i: "i < length path" and c: "\<not> isSep (path ! i)"
  shows "norm_rel isSep sep path (Suc i) st (cur @ [path ! i])
           (norm_step path allow sep isSep (path ! i) i s)"
proof -
  have len: "length cur \<le> i" and sl: "slice path (i - length cur) i = cur"
    using rel by (auto simp: norm_rel_def)
  have "slice path (i - length cur) (Suc i) = cur @ [path ! i]"
    using slice_Suc[of "i - length cur" i path] i sl by simp
  with rel i c len show ?thesis
    by (auto simp: norm_rel_def norm_step_def dot_count_snoc)
qed

lemma norm_step_sep:
  assumes rel: "norm_rel isSep sep path i st cur s" and c: "isSep c"
  shows "norm_rel isSep sep path (Suc i) (push_seg allow st cur) []
           (norm_step path allow sep isSep c i s)"
proof -
  have r: "nres s = joinOn sep st"
    and l: "lastSegmentLength s = (if st = [] then 0 else length (last st))"
    and ls: "lastSlash s = int i - 1 - int (length cur)" and len: "length cur \<le> i"
    and sl: "slice path (i - length cur) i = cur" and d: "dots s = dot_count cur"
    and curfree: "\<forall>c\<in>set cur. \<not> isSep c"
    and free: "\<forall>x\<in>set st. x \<noteq> [] \<and> (\<forall>c\<in>set x. \<not> isSep c)"
    using rel by (auto simp: norm_rel_def)
  have free': "\<forall>x\<in>set (push_seg allow st cur). x \<noteq> [] \<and> (\<forall>c\<in>set x. \<not> isSep c)"
    using free curfree dot_not_sep by (auto simp: push_seg_def dest!: in_set_butlastD)
  consider (skip) "cur = [] \<or> cur = [CHAR_DOT]" | (up) "cur = [CHAR_DOT, CHAR_DOT]"
    | (push) "cur \<noteq> []" "cur \<noteq> [CHAR_DOT]" "cur \<noteq> [CHAR_DOT, CHAR_DOT]" by blast
  then show ?thesis
  proof cases
    case skip
    then show ?thesis
      using r l ls d c free by (auto simp: norm_rel_def norm_step_def push_seg_def dot_count_1)
  next
    case up
    have "norm_step path allow sep isSep c i s =
        (norm_dotdot allow sep s)\<lparr>lastSlash := int i, dots := 0\<rparr>"
      using up ls d c dot_count_1[of cur] dot_count_2[of cur] by (simp add: norm_step_def Let_def)
    then show ?thesis
      using norm_dotdot_rel[OF r l free, of allow] free' up
      by (simp add: norm_rel_def Let_def)
  next
    case push
    have "norm_step path allow sep isSep c i s =
        (norm_push path sep i s)\<lparr>lastSlash := int i, dots := 0\<rparr>"
      using push ls d c dot_count_1[of cur] dot_count_2[of cur]
      by (simp add: norm_step_def Let_def)
    moreover have "nat (lastSlash s + 1) = i - length cur" using ls len by simp
    moreover have "nat (int i - lastSlash s - 1) = length cur" using ls by simp
    moreover have "joinOn sep st = [] \<longleftrightarrow> st = []" using free by (auto simp: joinOn_eq_Nil)
    moreover have "push_seg allow st cur = st @ [cur]" using push by (simp add: push_seg_def)
    ultimately show ?thesis
      using free' r sl by (simp add: norm_rel_def norm_push_def joinOn_snoc Let_def)
  qed
qed

lemma norm_loop_rel:
  assumes "norm_rel isSep sep path i st cur s" and "i \<le> length path"
    and "code = (if i = 0 then None else Some (path ! (i - 1)))"
    and "\<forall>c. code = Some c \<and> isSep c \<longrightarrow> cur = []"
  shows "nres (norm_loop path allow sep isSep code i s) =
    joinOn sep (foldl (push_seg allow) st
      (case splitOn isSep (drop i path) of h # t \<Rightarrow> (cur @ h) # t))"
  using assms
proof (induction "length path - i" arbitrary: i st cur s code)
  case 0
  then have i: "i = length path" by simp
  have rel: "norm_rel isSep sep path (Suc i) (push_seg allow st cur) []
      (norm_step path allow sep isSep CHAR_FORWARD_SLASH i s)"
    using 0 slash_isSep by (intro norm_step_sep) auto
  have base: "nres s = joinOn sep st" using "0.prems"(1) by (simp add: norm_rel_def)
  show ?case
  proof (cases "\<exists>c. code = Some c \<and> isSep c")
    case True
    then have "norm_loop path allow sep isSep code i s = s" and "cur = []"
      using i "0.prems"(4) by (auto simp: norm_loop_end)
    then show ?thesis using i base by simp
  next
    case False
    then have "norm_loop path allow sep isSep code i s =
        norm_step path allow sep isSep CHAR_FORWARD_SLASH i s"
      using i by (subst norm_loop.simps) (simp split: option.splits)
    then show ?thesis using i rel by (simp add: norm_rel_def)
  qed
next
  case (Suc n)
  then have i: "i < length path" and drop: "drop i path = path ! i # drop (Suc i) path"
    by (auto simp: Cons_nth_drop_Suc)
  have unfold: "norm_loop path allow sep isSep code i s =
      norm_loop path allow sep isSep (Some (path ! i)) (Suc i)
        (norm_step path allow sep isSep (path ! i) i s)"
    using i by (subst norm_loop.simps) simp
  obtain h t where ht: "splitOn isSep (drop (Suc i) path) = h # t"
    by (cases "splitOn isSep (drop (Suc i) path)") auto
  show ?case
  proof (cases "isSep (path ! i)")
    case True
    from norm_step_sep[OF Suc.prems(1) True]
    have "norm_rel isSep sep path (Suc i) (push_seg allow st cur) []
        (norm_step path allow sep isSep (path ! i) i s)" .
    from Suc.hyps(1)[OF _ this, of "Some (path ! i)"] Suc.hyps(2) i show ?thesis
      by (simp add: unfold drop True ht)
  next
    case False
    from norm_step_char[OF Suc.prems(1) i False]
    have "norm_rel isSep sep path (Suc i) st (cur @ [path ! i])
        (norm_step path allow sep isSep (path ! i) i s)" .
    from Suc.hyps(1)[OF _ this, of "Some (path ! i)"] Suc.hyps(2) i False show ?thesis
      by (simp add: unfold drop ht)
  qed
qed

text \<open>The refinement: the character scanner implements the segment-wise resolution.\<close>

lemma normalizeString_refines:
  "normalizeString path allow sep isSep = norm_spec path allow sep isSep"
proof -
  have "norm_rel isSep sep path 0 [] [] norm_init"
    by (simp add: norm_rel_def norm_init_def)
  from norm_loop_rel[OF this, of None allow] show ?thesis
    by (cases "splitOn isSep path")
      (auto simp: normalizeString_def norm_spec_def resolve_segs_def)
qed

text \<open>What the segment view gives at once.\<close>


lemma split_join:
  assumes "\<forall>x\<in>set xs. \<forall>c\<in>set x. \<not> isSep c"
  shows "splitOn isSep (joinOn sep xs) = (if xs = [] then [[]] else xs)"
  using assms sep_isSep by (auto intro: splitOn_joinOn)

lemma segs_free: "x \<in> set (resolve_segs allow (splitOn isSep p)) \<Longrightarrow> \<forall>c\<in>set x. \<not> isSep c"
  using resolve_segs_set[of allow "splitOn isSep p"] splitOn_pieces_free[of x isSep p] by auto

lemma segs_nonempty: "x \<in> set (resolve_segs allow (splitOn isSep p)) \<Longrightarrow> x \<noteq> []"
  using normal_segs_nonempty[OF resolve_segs_normal] by auto

lemma norm_split:
  "splitOn isSep (norm_spec p allow sep isSep) =
     (if resolve_segs allow (splitOn isSep p) = [] then [[]]
      else resolve_segs allow (splitOn isSep p))"
  unfolding norm_spec_def using segs_free by (intro split_join) auto

text \<open>Normal forms are fixed points of the scanner.\<close>

lemma norm_idem:
  "norm_spec (norm_spec p allow sep isSep) allow sep isSep = norm_spec p allow sep isSep"
proof -
  have "resolve_segs allow (splitOn isSep (norm_spec p allow sep isSep)) =
      resolve_segs allow (splitOn isSep p)"
    using resolve_segs_idem[of allow "splitOn isSep p"]
    by (simp add: norm_split resolve_segs_def)
  then show ?thesis by (simp add: norm_spec_def)
qed

lemma norm_eq_Nil: "norm_spec p allow sep isSep = [] \<longleftrightarrow> resolve_segs allow (splitOn isSep p) = []"
  using segs_nonempty[of "[]" allow p] by (auto simp: norm_spec_def joinOn_eq_Nil)

lemma join_hd_free:
  assumes "\<forall>x\<in>set xs. x \<noteq> [] \<and> (\<forall>c\<in>set x. \<not> isSep c)" "xs \<noteq> []"
  shows "joinOn sep xs \<noteq> []" "\<not> isSep (hd (joinOn sep xs))" "\<not> isSep (last (joinOn sep xs))"
proof -
  have "joinOn sep xs \<noteq> [] \<and> \<not> isSep (hd (joinOn sep xs)) \<and> \<not> isSep (last (joinOn sep xs))"
    using assms
  proof (induction xs rule: induct_list012)
    case (2 x)
    then show ?case by auto
  next
    case (3 x y zs)
    then have "joinOn sep (y # zs) \<noteq> []" "\<not> isSep (last (joinOn sep (y # zs)))" by auto
    with 3 show ?case by auto
  qed simp
  then show "joinOn sep xs \<noteq> []" "\<not> isSep (hd (joinOn sep xs))" "\<not> isSep (last (joinOn sep xs))"
    by auto
qed

lemma norm_hd_last:
  assumes "norm_spec p allow sep isSep \<noteq> []"
  shows "\<not> isSep (hd (norm_spec p allow sep isSep))" "\<not> isSep (last (norm_spec p allow sep isSep))"
proof -
  let ?xs = "resolve_segs allow (splitOn isSep p)"
  have "\<forall>x\<in>set ?xs. x \<noteq> [] \<and> (\<forall>c\<in>set x. \<not> isSep c)" "?xs \<noteq> []"
    using assms segs_free segs_nonempty by (auto simp: norm_spec_def)
  then show "\<not> isSep (hd (norm_spec p allow sep isSep))"
    "\<not> isSep (last (norm_spec p allow sep isSep))"
    unfolding norm_spec_def by (rule join_hd_free)+
qed

text \<open>Separators at either end of a path make no difference to its segments.\<close>

lemma resolve_lead: "isSep c \<Longrightarrow>
  resolve_segs allow (splitOn isSep (c # p)) = resolve_segs allow (splitOn isSep p)"
  by (simp add: resolve_segs_def)

lemma resolve_trail: "isSep c \<Longrightarrow>
  resolve_segs allow (splitOn isSep (p @ [c])) = resolve_segs allow (splitOn isSep p)"
  using splitOn_append_sep[of isSep c p "[]"] by (simp add: resolve_segs_append)

lemma resolve_trails: "\<forall>c\<in>set t. isSep c \<Longrightarrow>
  resolve_segs allow (splitOn isSep (p @ t)) = resolve_segs allow (splitOn isSep p)"
proof (induction t rule: rev_induct)
  case (snoc c t)
  then show ?case using resolve_trail[of c allow "p @ t"] by simp
qed simp

lemma resolve_concat: "isSep c \<Longrightarrow>
  resolve_segs allow (splitOn isSep (p @ c # q)) =
    foldl (push_seg allow) (resolve_segs allow (splitOn isSep p)) (splitOn isSep q)"
  by (simp add: splitOn_append_sep resolve_segs_append)

text \<open>An absolute path never keeps a segment that climbs above the root.\<close>

lemma norm_no_dotdot:
  "[CHAR_DOT, CHAR_DOT] \<notin> set (splitOn isSep (norm_spec p False sep isSep))"
  using resolve_segs_normal[of False "splitOn isSep p"]
  by (auto simp: norm_split normal_segs_False_iff)

end

text \<open>Both separator predicates of the module meet the contract.\<close>

interpretation posix_fl: path_flavour isPosixPathSeparator CHAR_FORWARD_SLASH
  by unfold_locales (simp_all add: isPosixPathSeparator_def)

interpretation win32_fl: path_flavour isPathSeparator CHAR_BACKWARD_SLASH
  by unfold_locales (simp_all add: isPathSeparator_def)

text \<open>
  C1.  \<^verbatim>\<open>normalizeString\<close>, the character scanner with its three counters, computes the
  segment-wise resolution of the dot segments, for both flavours of separators.
\<close>

theorem normalizeString_correct:
  "normalizeString p allow CHAR_FORWARD_SLASH isPosixPathSeparator =
     joinOn CHAR_FORWARD_SLASH (resolve_segs allow (splitOn isPosixPathSeparator p)) \<and>
   normalizeString p allow CHAR_BACKWARD_SLASH isPathSeparator =
     joinOn CHAR_BACKWARD_SLASH (resolve_segs allow (splitOn isPathSeparator p))"
  using posix_fl.normalizeString_refines[of p allow] win32_fl.normalizeString_refines[of p allow]
  by (simp add: norm_spec_def)

end
