(* ===== verification/Path_Scan.thy ===== *)
theory Path_Scan
  imports Path_Common
begin

text \<open>
  The loops of \<^verbatim>\<open>dirname\<close>, \<^verbatim>\<open>basename\<close>, \<^verbatim>\<open>extname\<close> and \<^verbatim>\<open>parse\<close>, which run from the end of the
  path towards its start.  The source repeats each of them for POSIX and for Windows with
  another separator predicate and another lower bound, so both are arguments here.  The lemmas
  say what each loop computes for a path that ends in a component and a run of separators.
\<close>

section \<open>The loops\<close>

text \<open>\<^verbatim>\<open>dirname\<close>: the state is \<^verbatim>\<open>(matchedSlash, end)\<close>.\<close>

definition dirname_body ::
  "(nat \<Rightarrow> bool) \<Rightarrow> jsstr \<Rightarrow> nat \<Rightarrow> bool \<times> int \<Rightarrow> (bool \<times> int) \<times> bool"
where
  "dirname_body isSep path i st =
     (case st of (matchedSlash, endp) \<Rightarrow>
        if isSep (path ! i) then
          (if \<not> matchedSlash then ((matchedSlash, int i), True) else (st, False))
        else ((False, endp), False))"

definition dirname_end :: "(nat \<Rightarrow> bool) \<Rightarrow> jsstr \<Rightarrow> nat \<Rightarrow> int" where
  "dirname_end isSep path offset =
     snd (for_down (dirname_body isSep path) offset (length path) (True, -1))"

text \<open>\<^verbatim>\<open>basename\<close> without an extension: the state is \<^verbatim>\<open>(start, end, matchedSlash)\<close>.\<close>

definition base_body ::
  "(nat \<Rightarrow> bool) \<Rightarrow> jsstr \<Rightarrow> nat \<Rightarrow> nat \<times> int \<times> bool \<Rightarrow> (nat \<times> int \<times> bool) \<times> bool"
where
  "base_body isSep path i st =
     (case st of (start, endp, matchedSlash) \<Rightarrow>
        if isSep (path ! i) then
          (if \<not> matchedSlash then ((i + 1, endp, matchedSlash), True) else (st, False))
        else if endp = -1 then ((start, int i + 1, False), False)
        else (st, False))"

definition basename_plain :: "(nat \<Rightarrow> bool) \<Rightarrow> jsstr \<Rightarrow> nat \<Rightarrow> jsstr" where
  "basename_plain isSep path start =
     (case for_down (base_body isSep path) start (length path) (start, -1, True) of
        (start', endp, matchedSlash) \<Rightarrow>
          if endp = -1 then [] else slice path start' (nat endp))"

text \<open>\<^verbatim>\<open>basename\<close> with an extension to take away.\<close>

record base_state =
  bstart :: nat
  bend :: int
  bmatched :: bool
  extIdx :: int
  firstNonSlashEnd :: int

definition base_ext_body ::
  "(nat \<Rightarrow> bool) \<Rightarrow> jsstr \<Rightarrow> jsstr \<Rightarrow> nat \<Rightarrow> base_state \<Rightarrow> base_state \<times> bool"
where
  "base_ext_body isSep path ext i st =
     (let code = path ! i in
      if isSep code then
        (if \<not> bmatched st then (st\<lparr>bstart := i + 1\<rparr>, True) else (st, False))
      else
        (let st1 = (if firstNonSlashEnd st = -1
                    then st\<lparr>bmatched := False, firstNonSlashEnd := int i + 1\<rparr> else st);
             st2 = (if extIdx st1 \<ge> 0 then
                      (if code = ext ! nat (extIdx st1) then
                         (let st' = st1\<lparr>extIdx := extIdx st1 - 1\<rparr>
                          in if extIdx st' = -1 then st'\<lparr>bend := int i\<rparr> else st')
                       else st1\<lparr>extIdx := -1, bend := firstNonSlashEnd st1\<rparr>)
                    else st1)
         in (st2, False)))"

definition basename_ext :: "(nat \<Rightarrow> bool) \<Rightarrow> jsstr \<Rightarrow> jsstr \<Rightarrow> nat \<Rightarrow> jsstr" where
  "basename_ext isSep path ext start =
     (let st = for_down (base_ext_body isSep path ext) start (length path)
            \<lparr>bstart = start, bend = -1, bmatched = True,
             extIdx = int (length ext) - 1, firstNonSlashEnd = -1\<rparr>;
          endp = (if int (bstart st) = bend st then firstNonSlashEnd st
                  else if bend st = -1 then int (length path) else bend st)
      in slice path (bstart st) (nat endp))"

text \<open>\<^verbatim>\<open>extname\<close> and \<^verbatim>\<open>parse\<close>: where the last component and its extension begin and end.\<close>

record ext_state =
  startDot :: int
  startPart :: nat
  eend :: int
  ematched :: bool
  preDotState :: int

definition ext_body ::
  "(nat \<Rightarrow> bool) \<Rightarrow> jsstr \<Rightarrow> nat \<Rightarrow> ext_state \<Rightarrow> ext_state \<times> bool"
where
  "ext_body isSep path i st =
     (let code = path ! i in
      if isSep code then
        (if \<not> ematched st then (st\<lparr>startPart := i + 1\<rparr>, True) else (st, False))
      else
        (let st1 = (if eend st = -1 then st\<lparr>ematched := False, eend := int i + 1\<rparr> else st);
             st2 = (if code = CHAR_DOT then
                      (if startDot st1 = -1 then st1\<lparr>startDot := int i\<rparr>
                       else if preDotState st1 \<noteq> 1 then st1\<lparr>preDotState := 1\<rparr>
                       else st1)
                    else if startDot st1 \<noteq> -1 then st1\<lparr>preDotState := -1\<rparr>
                    else st1)
         in (st2, False)))"

definition ext_scan :: "(nat \<Rightarrow> bool) \<Rightarrow> jsstr \<Rightarrow> nat \<Rightarrow> nat \<Rightarrow> ext_state" where
  "ext_scan isSep path start part =
     for_down (ext_body isSep path) start (length path)
       \<lparr>startDot = -1, startPart = part, eend = -1, ematched = True, preDotState = 0\<rparr>"

text \<open>The test after the loop: there is no extension to cut off.\<close>

definition no_ext :: "ext_state \<Rightarrow> bool" where
  "no_ext st \<longleftrightarrow>
     startDot st = -1 \<or> eend st = -1 \<or> preDotState st = 0 \<or>
     (preDotState st = 1 \<and> startDot st = eend st - 1 \<and> startDot st = int (startPart st) + 1)"

section \<open>Paths that end in a component\<close>

text \<open>
  \<open>component isSep lim path pre seg tail\<close>: from index \<open>lim\<close> on, the last component of
  \<open>path\<close> is \<open>seg\<close>; \<open>tail\<close> are the separators after it.
\<close>

definition component ::
  "(nat \<Rightarrow> bool) \<Rightarrow> nat \<Rightarrow> jsstr \<Rightarrow> jsstr \<Rightarrow> jsstr \<Rightarrow> jsstr \<Rightarrow> bool"
where
  "component isSep lim path pre seg tail \<longleftrightarrow>
     path = pre @ seg @ tail \<and> seg \<noteq> [] \<and> (\<forall>c\<in>set seg. \<not> isSep c) \<and>
     (\<forall>c\<in>set tail. isSep c) \<and> lim \<le> length pre \<and>
     (lim < length pre \<longrightarrow> isSep (last pre))"

text \<open>Either the part from \<open>lim\<close> on has separators only, or it has a last component.\<close>

lemma component_cases:
  assumes "lim \<le> length path"
  obtains (seps) "\<forall>c\<in>set (drop lim path). isSep c"
  | (comp) pre seg tail where "component isSep lim path pre seg tail"
proof -
  obtain a tail where t: "drop lim path = a @ tail" "\<forall>c\<in>set tail. isSep c"
    "a = [] \<or> \<not> isSep (last a)" by (rule split_suffix)
  obtain p seg where s: "a = p @ seg" "\<forall>c\<in>set seg. \<not> isSep c" "p = [] \<or> \<not> \<not> isSep (last p)"
    by (rule split_suffix)
  show thesis
  proof (cases "a = []")
    case True
    with t show thesis by (intro seps) simp
  next
    case False
    have "seg \<noteq> []" using False t(3) s(1,3) by auto
    moreover have "path = (take lim path @ p) @ seg @ tail"
      using t(1) s(1) append_take_drop_id[of lim path] by simp
    ultimately have "component isSep lim path (take lim path @ p) seg tail"
      using s t assms by (auto simp: component_def)
    then show thesis by (rule comp)
  qed
qed

lemma component_nth_tail:
  assumes "component isSep lim path pre seg tail"
    and "length pre + length seg \<le> i" "i < length path"
  shows "isSep (path ! i)"
proof -
  have "path ! i = tail ! (i - length pre - length seg)" and "i - length pre - length seg < length tail"
    using assms by (auto simp: component_def nth_append)
  then show ?thesis using assms by (simp add: component_def)
qed

lemma component_nth_seg:
  assumes "component isSep lim path pre seg tail"
    and "length pre \<le> i" "i < length pre + length seg"
  shows "path ! i = seg ! (i - length pre)" "\<not> isSep (path ! i)"
proof -
  show "path ! i = seg ! (i - length pre)"
    using assms by (auto simp: component_def nth_append)
  moreover have "i - length pre < length seg" using assms by simp
  ultimately show "\<not> isSep (path ! i)"
    using assms by (simp add: component_def)
qed

lemma component_nth_pre:
  assumes "component isSep lim path pre seg tail" "lim < length pre"
  shows "isSep (path ! (length pre - 1))"
proof -
  have "pre \<noteq> []" using assms by auto
  then have "path ! (length pre - 1) = last pre"
    using assms by (simp add: component_def nth_append last_conv_nth)
  then show ?thesis using assms by (simp add: component_def)
qed

lemma component_lengths:
  assumes "component isSep lim path pre seg tail"
  shows "lim \<le> length pre" "length path = length pre + length seg + length tail" "0 < length seg"
  using assms by (auto simp: component_def)

lemma component_slices:
  assumes "component isSep lim path pre seg tail"
  shows "drop (length pre + length seg) path = tail" "drop (length pre) path = seg @ tail"
    "slice path (length pre) (length pre + length seg) = seg" "take (length pre) path = pre"
  using assms by (auto simp: component_def slice_append_mid)

lemma component_last:
  assumes "component isSep lim path pre seg tail"
  obtains m where "length pre + length seg = Suc m" "length pre \<le> m" "\<not> isSep (path ! m)"
    "path ! m = last seg" "lim \<le> m"
proof -
  note l = component_lengths[OF assms]
  let ?m = "length pre + (length seg - 1)"
  have m: "length pre + length seg = Suc ?m" using l by simp
  moreover have "seg ! (length seg - 1) = last seg" using l by (simp add: last_conv_nth)
  ultimately show thesis
    using that[of ?m] component_nth_seg[OF assms, of ?m] l by simp
qed

section \<open>What the loops compute\<close>

lemma dirname_end_component:
  assumes c: "component isSep lim path pre seg tail"
  shows "dirname_end isSep path lim = (if lim < length pre then int (length pre) - 1 else -1)"
proof -
  let ?b = "dirname_body isSep path"
  let ?m = "length pre + length seg"
  note l = component_lengths[OF c]
  obtain m where m: "?m = Suc m" "length pre \<le> m" "\<not> isSep (path ! m)" "path ! m = last seg"
    "lim \<le> m" by (rule component_last[OF c])
  have "for_down ?b lim (length path) (True, -1) = for_down ?b lim ?m (True, -1)"
    using l component_nth_tail[OF c] by (intro for_down_skip) (auto simp: dirname_body_def)
  also have "\<dots> = for_down ?b lim m (False, -1)"
    using m by (simp add: for_down_Suc dirname_body_def)
  also have "\<dots> = for_down ?b lim (length pre) (False, -1)"
    using l m component_nth_seg[OF c] by (intro for_down_skip) (auto simp: dirname_body_def)
  also have "\<dots> = (False, if lim < length pre then int (length pre) - 1 else -1)"
    using l component_nth_pre[OF c]
    by (cases "length pre") (auto simp: for_down_Suc dirname_body_def)
  finally show ?thesis by (simp add: dirname_end_def)
qed

lemma dirname_end_seps:
  assumes "lim \<le> length path" "\<forall>c\<in>set (drop lim path). isSep c"
  shows "dirname_end isSep path lim = -1"
proof -
  have "for_down (dirname_body isSep path) lim (length path) (True, -1) =
      for_down (dirname_body isSep path) lim lim (True, -1)"
    using assms all_drop_nth[OF assms(2)] by (intro for_down_skip) (auto simp: dirname_body_def)
  then show ?thesis by (simp add: dirname_end_def)
qed

lemma basename_plain_component:
  assumes c: "component isSep lim path pre seg tail"
  shows "basename_plain isSep path lim = seg"
proof -
  let ?b = "base_body isSep path"
  let ?m = "length pre + length seg"
  note l = component_lengths[OF c]
  obtain m where m: "?m = Suc m" "length pre \<le> m" "\<not> isSep (path ! m)" "path ! m = last seg"
    "lim \<le> m" by (rule component_last[OF c])
  have "for_down ?b lim (length path) (lim, -1, True) = for_down ?b lim ?m (lim, -1, True)"
    using l component_nth_tail[OF c] by (intro for_down_skip) (auto simp: base_body_def)
  also have "\<dots> = for_down ?b lim m (lim, int m + 1, False)"
    using m by (simp add: for_down_Suc base_body_def)
  also have "\<dots> = for_down ?b lim (length pre) (lim, int m + 1, False)"
    using l m component_nth_seg[OF c] by (intro for_down_skip) (auto simp: base_body_def)
  also have "\<dots> = (length pre, int m + 1, False)"
    using l component_nth_pre[OF c]
    by (cases "lim < length pre"; cases "length pre") (auto simp: for_down_Suc base_body_def)
  finally show ?thesis
    using l m component_slices[OF c] by (simp add: basename_plain_def nat_add_distrib)
qed

lemma basename_plain_seps:
  assumes "lim \<le> length path" "\<forall>c\<in>set (drop lim path). isSep c"
  shows "basename_plain isSep path lim = []"
proof -
  have "for_down (base_body isSep path) lim (length path) (lim, -1, True) =
      for_down (base_body isSep path) lim lim (lim, -1, True)"
    using assms all_drop_nth[OF assms(2)] by (intro for_down_skip) (auto simp: base_body_def)
  then show ?thesis by (simp add: basename_plain_def)
qed

text \<open>\<^verbatim>\<open>basename(path, ext)\<close>: how much of the component's end agrees with the extension.\<close>

definition ext_match_state ::
  "nat \<Rightarrow> nat \<Rightarrow> jsstr \<Rightarrow> nat \<Rightarrow> jsstr \<Rightarrow> base_state"
where
  "ext_match_state lim e ext off v =
     \<lparr>bstart = lim,
      bend = (if suffix ext v then int (off + length v - length ext)
              else if suffix v ext then -1 else int e),
      bmatched = False,
      extIdx = (if suffix ext v then -1
                else if suffix v ext then int (length ext) - 1 - int (length v) else -1),
      firstNonSlashEnd = int e\<rparr>"

lemma suffix_Cons_cases:
  assumes "suffix v ext" "\<not> suffix ext v" "v \<noteq> []"
  shows "suffix (c # v) ext \<longleftrightarrow> c = ext ! (length ext - 1 - length v)"
    "suffix ext (c # v) \<longleftrightarrow> ext = c # v" "length v < length ext"
proof -
  obtain w where w: "ext = w @ v" using assms(1) by (auto simp: suffix_def)
  then obtain w' d where d: "w = w' @ [d]" using assms(2) by (cases w rule: rev_cases) auto
  have nth: "ext ! (length ext - 1 - length v) = d" using w d by (simp add: nth_append)
  show "suffix (c # v) ext \<longleftrightarrow> c = ext ! (length ext - 1 - length v)"
    unfolding nth using w d by (auto simp: suffix_def)
  show "suffix ext (c # v) \<longleftrightarrow> ext = c # v" using assms by (auto simp: suffix_Cons)
  show "length v < length ext" using w d by simp
qed

lemma ext_match_step:
  assumes seg: "\<not> isSep (path ! off)" "path ! off = c" and ext: "ext \<noteq> []" and v: "v \<noteq> []"
    and e: "e = Suc off + length v"
  shows "base_ext_body isSep path ext off (ext_match_state lim e ext (Suc off) v) =
    (ext_match_state lim e ext off (c # v), False)"
proof -
  consider (full) "suffix ext v" | (part) "suffix v ext" "\<not> suffix ext v"
    | (none) "\<not> suffix v ext" "\<not> suffix ext v" by blast
  then show ?thesis
  proof cases
    case full
    then have "suffix ext (c # v)" "length ext \<le> length v" by (auto simp: suffix_Cons suffix_length_le)
    with full seg show ?thesis by (auto simp: base_ext_body_def ext_match_state_def)
  next
    case part
    note sc = suffix_Cons_cases(1,2)[OF part v, of c] suffix_Cons_cases(3)[OF part v]
    have idx: "nat (int (length ext) - 1 - int (length v)) = length ext - 1 - length v" by simp
    show ?thesis
    proof (cases "c = ext ! (length ext - 1 - length v)")
      case True
      show ?thesis
      proof (cases "ext = c # v")
        case eq: True
        have "suffix v (c # v)" "\<not> suffix (c # v) v" by (auto simp: suffix_Cons dest: suffix_length_le)
        then show ?thesis
          using seg unfolding eq by (simp add: base_ext_body_def ext_match_state_def)
      next
        case False
        have "suffix (c # v) ext" using sc(1) True by simp
        then have "length ext \<noteq> Suc (length v)"
          using False by (metis length_Cons suffix_order.antisym_conv suffix_length_suffix
              order_refl suffix_order.order_refl)
        then show ?thesis
          using part sc True seg False by (simp add: base_ext_body_def ext_match_state_def idx)
      qed
    next
      case False
      then have "ext \<noteq> c # v" by auto
      then show ?thesis
        using part sc False seg by (simp add: base_ext_body_def ext_match_state_def idx)
    qed
  next
    case none
    have "\<not> suffix ext (c # v)" using none by (auto simp: suffix_Cons)
    moreover have "\<not> suffix (c # v) ext"
      using none(1) by (meson suffix_ConsD)
    ultimately show ?thesis using none seg by (simp add: base_ext_body_def ext_match_state_def)
  qed
qed

lemma ext_match_first:
  assumes "\<not> isSep (path ! m)" "path ! m = c" "ext \<noteq> []"
  shows "base_ext_body isSep path ext m
      \<lparr>bstart = lim, bend = -1, bmatched = True, extIdx = int (length ext) - 1, firstNonSlashEnd = -1\<rparr> =
    (ext_match_state lim (Suc m) ext m [c], False)"
proof (cases ext rule: rev_cases)
  case (snoc w d)
  have sub: "suffix (w @ [d]) [c] \<longleftrightarrow> w = [] \<and> d = c"
    by (cases w) (auto simp: suffix_Cons)
  have idx: "nat (int (length ext) - 1) = length w" using snoc by simp
  show ?thesis
    using assms snoc sub idx
    by (cases "d = c"; cases "w = []") (auto simp: base_ext_body_def ext_match_state_def suffix_def)
qed (use assms in simp)

lemma ext_match_run:
  assumes c: "component isSep lim path pre seg tail" and ext: "ext \<noteq> []"
    and v: "v \<noteq> []" and seg: "u @ v = seg"
  shows "for_down (base_ext_body isSep path ext) lim (length pre + length u)
      (ext_match_state lim (length pre + length seg) ext (length pre + length u) v) =
    for_down (base_ext_body isSep path ext) lim (length pre)
      (ext_match_state lim (length pre + length seg) ext (length pre) seg)"
  using v seg
proof (induction u arbitrary: v rule: rev_induct)
  case (snoc a u)
  note l = component_lengths[OF c]
  let ?off = "length pre + length u"
  have len: "length seg = length u + Suc (length v)" using snoc.prems(2) by auto
  have a: "path ! ?off = a" "\<not> isSep (path ! ?off)"
    using component_nth_seg[OF c, of ?off] snoc.prems(2) len by (auto simp: nth_append)
  have "base_ext_body isSep path ext ?off
      (ext_match_state lim (length pre + length seg) ext (Suc ?off) v) =
    (ext_match_state lim (length pre + length seg) ext ?off (a # v), False)"
    using a ext snoc.prems(1) len by (intro ext_match_step) auto
  then have "for_down (base_ext_body isSep path ext) lim (Suc ?off)
      (ext_match_state lim (length pre + length seg) ext (Suc ?off) v) =
    for_down (base_ext_body isSep path ext) lim ?off
      (ext_match_state lim (length pre + length seg) ext ?off (a # v))"
    using l by (simp add: for_down_Suc)
  with snoc.IH[of "a # v"] snoc.prems show ?case by simp
qed simp

text \<open>
  The result: the extension is cut off when it is a proper suffix of the component; a component
  that is a proper suffix of the extension is returned with the separators that follow it.
\<close>

lemma basename_ext_component:
  assumes c: "component isSep lim path pre seg tail" and ext: "ext \<noteq> []"
  shows "basename_ext isSep path ext lim =
    (if suffix ext seg then (if ext = seg then seg else take (length seg - length ext) seg)
     else if suffix seg ext then seg @ tail
     else seg)"
proof -
  let ?b = "base_ext_body isSep path ext"
  let ?e = "length pre + length seg"
  let ?i = "\<lparr>bstart = lim, bend = -1, bmatched = True,
              extIdx = int (length ext) - 1, firstNonSlashEnd = -1\<rparr>"
  let ?f = "ext_match_state lim ?e ext (length pre) seg"
  note l = component_lengths[OF c]
  note sl = component_slices[OF c]
  obtain m where m: "?e = Suc m" "length pre \<le> m" "\<not> isSep (path ! m)" "path ! m = last seg"
    "lim \<le> m" by (rule component_last[OF c])
  have "for_down ?b lim (length path) ?i = for_down ?b lim ?e ?i"
    using l component_nth_tail[OF c]
    by (intro for_down_skip) (auto simp: base_ext_body_def)
  also have "\<dots> = for_down ?b lim m (ext_match_state lim ?e ext m [last seg])"
    using m ext by (simp add: for_down_Suc ext_match_first)
  also have "m = length pre + length (butlast seg)" using m l
    by (cases seg rule: rev_cases) auto
  also have "for_down ?b lim (length pre + length (butlast seg))
      (ext_match_state lim ?e ext (length pre + length (butlast seg)) [last seg]) =
    for_down ?b lim (length pre) ?f"
    using l by (intro ext_match_run[OF c ext]) auto
  also have "\<dots> = ?f\<lparr>bstart := length pre\<rparr>"
    using l component_nth_pre[OF c]
    by (cases "lim < length pre"; cases "length pre")
      (auto simp: for_down_Suc base_ext_body_def ext_match_state_def)
  finally have run: "for_down ?b lim (length path) ?i = ?f\<lparr>bstart := length pre\<rparr>" .
  consider (cut) "suffix ext seg" "ext \<noteq> seg" | (all) "ext = seg"
    | (part) "suffix seg ext" "\<not> suffix ext seg" | (none) "\<not> suffix seg ext" "\<not> suffix ext seg"
    by auto
  then show ?thesis
  proof cases
    case cut
    have "length ext < length seg"
      using cut by (auto simp: suffix_def)
    then have "slice path (length pre) (length pre + length seg - length ext) =
        take (length seg - length ext) seg"
      using sl(2) by (simp add: slice_def)
    moreover have "nat (int (length pre + length seg) - int (length ext)) =
        length pre + length seg - length ext" by simp
    ultimately show ?thesis
      using cut \<open>length ext < length seg\<close>
      by (simp add: basename_ext_def run ext_match_state_def Let_def)
  next
    case all
    then show ?thesis
      using sl(3) by (simp add: basename_ext_def run[unfolded all] ext_match_state_def Let_def nat_add_distrib)
  next
    case part
    then show ?thesis
      using sl(2) by (simp add: basename_ext_def run ext_match_state_def Let_def)
  next
    case none
    then show ?thesis
      using sl(3) l(3) by (simp add: basename_ext_def run ext_match_state_def Let_def nat_add_distrib)
  qed
qed

lemma basename_ext_seps:
  assumes "lim \<le> length path" "\<forall>c\<in>set (drop lim path). isSep c"
  shows "basename_ext isSep path ext lim = drop lim path"
proof -
  have "for_down (base_ext_body isSep path ext) lim (length path)
      \<lparr>bstart = lim, bend = -1, bmatched = True, extIdx = int (length ext) - 1, firstNonSlashEnd = -1\<rparr> =
    for_down (base_ext_body isSep path ext) lim lim
      \<lparr>bstart = lim, bend = -1, bmatched = True, extIdx = int (length ext) - 1, firstNonSlashEnd = -1\<rparr>"
    using assms all_drop_nth[OF assms(2)] by (intro for_down_skip) (auto simp: base_ext_body_def)
  then show ?thesis by (simp add: basename_ext_def)
qed

text \<open>\<^verbatim>\<open>extname\<close> and \<^verbatim>\<open>parse\<close>: the abstract extension of a component.\<close>

definition ext_of :: "jsstr \<Rightarrow> jsstr" where
  "ext_of seg =
     (let k = lastIndexOf seg CHAR_DOT
      in if k \<le> 0 \<or> seg = [CHAR_DOT, CHAR_DOT] then [] else drop (nat k) seg)"

definition stem_of :: "jsstr \<Rightarrow> jsstr" where
  "stem_of seg = take (length seg - length (ext_of seg)) seg"

definition ext_run_state :: "nat \<Rightarrow> nat \<Rightarrow> nat \<Rightarrow> jsstr \<Rightarrow> ext_state" where
  "ext_run_state part e off v =
     (let k = lastIndexOf v CHAR_DOT
      in \<lparr>startDot = (if k = -1 then -1 else int off + k), startPart = part, eend = int e,
          ematched = False,
          preDotState = (if k \<le> 0 then 0 else if hd v = CHAR_DOT then 1 else -1)\<rparr>)"

lemma ext_run_step:
  assumes "\<not> isSep (path ! off)" "path ! off = c"
  shows "ext_body isSep path off (ext_run_state part e (Suc off) v) =
    (ext_run_state part e off (c # v), False)"
  using assms lastIndexOf_ge[of v CHAR_DOT]
  by (auto simp: ext_body_def ext_run_state_def Let_def)

lemma ext_run_first:
  assumes "\<not> isSep (path ! m)" "path ! m = c"
  shows "ext_body isSep path m
      \<lparr>startDot = -1, startPart = part, eend = -1, ematched = True, preDotState = 0\<rparr> =
    (ext_run_state part (Suc m) m [c], False)"
  using assms by (auto simp: ext_body_def ext_run_state_def Let_def)

lemma ext_run:
  assumes c: "component isSep lim path pre seg tail" and seg: "u @ v = seg"
  shows "for_down (ext_body isSep path) lim (length pre + length u)
      (ext_run_state part e (length pre + length u) v) =
    for_down (ext_body isSep path) lim (length pre) (ext_run_state part e (length pre) seg)"
  using seg
proof (induction u arbitrary: v rule: rev_induct)
  case (snoc a u)
  let ?off = "length pre + length u"
  have len: "length seg = length u + Suc (length v)" using snoc.prems by auto
  have a: "path ! ?off = a" "\<not> isSep (path ! ?off)"
    using component_nth_seg[OF c, of ?off] snoc.prems len by (auto simp: nth_append)
  have "for_down (ext_body isSep path) lim (Suc ?off) (ext_run_state part e (Suc ?off) v) =
    for_down (ext_body isSep path) lim ?off (ext_run_state part e ?off (a # v))"
    using component_lengths[OF c] a by (simp add: for_down_Suc ext_run_step)
  with snoc.IH[of "a # v"] snoc.prems show ?case by simp
qed simp

lemma ext_scan_component:
  assumes c: "component isSep lim path pre seg tail"
  shows "ext_scan isSep path lim part =
    ext_run_state (if lim < length pre then length pre else part)
      (length pre + length seg) (length pre) seg"
proof -
  let ?b = "ext_body isSep path"
  let ?e = "length pre + length seg"
  let ?i = "\<lparr>startDot = -1, startPart = part, eend = -1, ematched = True, preDotState = 0\<rparr>"
  note l = component_lengths[OF c]
  obtain m where m: "?e = Suc m" "length pre \<le> m" "\<not> isSep (path ! m)" "path ! m = last seg"
    "lim \<le> m" by (rule component_last[OF c])
  have "for_down ?b lim (length path) ?i = for_down ?b lim ?e ?i"
    using l component_nth_tail[OF c] by (intro for_down_skip) (auto simp: ext_body_def)
  also have "\<dots> = for_down ?b lim m (ext_run_state part ?e m [last seg])"
    using m by (simp add: for_down_Suc ext_run_first)
  also have "m = length pre + length (butlast seg)" using m l
    by (cases seg rule: rev_cases) auto
  also have "for_down ?b lim (length pre + length (butlast seg))
      (ext_run_state part ?e (length pre + length (butlast seg)) [last seg]) =
    for_down ?b lim (length pre) (ext_run_state part ?e (length pre) seg)"
    using l by (intro ext_run[OF c]) auto
  also have "\<dots> = ext_run_state (if lim < length pre then length pre else part) ?e (length pre) seg"
    using l component_nth_pre[OF c]
    by (cases "lim < length pre"; cases "length pre")
      (auto simp: for_down_Suc ext_body_def ext_run_state_def Let_def)
  finally show ?thesis by (simp add: ext_scan_def)
qed

lemma ext_scan_seps:
  assumes "lim \<le> length path" "\<forall>c\<in>set (drop lim path). isSep c"
  shows "ext_scan isSep path lim part =
    \<lparr>startDot = -1, startPart = part, eend = -1, ematched = True, preDotState = 0\<rparr>"
  unfolding ext_scan_def
  using assms all_drop_nth[OF assms(2)]
  by (subst for_down_skip[of lim lim]) (auto simp: ext_body_def)

lemma lastIndexOf_lt: "lastIndexOf s c < int (length s) \<or> s = []"
  by (induction s) (auto simp: Let_def split: if_splits)

lemma lastIndexOf_nth: "lastIndexOf s c = int k \<Longrightarrow> k < length s \<and> s ! k = c"
proof (induction s arbitrary: k)
  case (Cons x xs)
  then show ?case
    using lastIndexOf_ge[of xs c] by (cases k) (auto simp: Let_def split: if_splits)
qed simp

text \<open>The test after the loop asks whether the component has an extension.\<close>

lemma no_ext_iff:
  assumes "seg \<noteq> []" "part = off"
  shows "no_ext (ext_run_state part (off + length seg) off seg) \<longleftrightarrow> ext_of seg = []"
proof -
  let ?k = "lastIndexOf seg CHAR_DOT"
  have lt: "?k < int (length seg)" using lastIndexOf_lt[of seg] assms by auto
  consider "?k \<le> 0" | (pos) "?k > 0" by linarith
  then show ?thesis
  proof cases
    case pos
    then obtain k where k: "?k = int k" "0 < k" using zero_less_imp_eq_int by force
    note nth = lastIndexOf_nth[OF k(1)]
    have "hd seg = CHAR_DOT \<and> int k = int (length seg) - 1 \<and> k = 1 \<longleftrightarrow>
        seg = [CHAR_DOT, CHAR_DOT]"
    proof
      assume *: "hd seg = CHAR_DOT \<and> int k = int (length seg) - 1 \<and> k = 1"
      then have "length seg = 2" by simp
      then obtain a b where "seg = [a, b]" by (auto simp: numeral_2_eq_2 length_Suc_conv)
      with * nth show "seg = [CHAR_DOT, CHAR_DOT]" by simp
    qed (use k in \<open>auto split: if_splits\<close>)
    then show ?thesis
      using k lt assms by (auto simp: no_ext_def ext_run_state_def ext_of_def Let_def)
  qed (auto simp: no_ext_def ext_run_state_def ext_of_def Let_def)
qed

end
