(* ===== verification/Path_Posix.thy ===== *)
theory Path_Posix
  imports Path_Scan
begin

text \<open>
  The POSIX flavour of \<^verbatim>\<open>lib_js/path.js\<close> (the object \<^verbatim>\<open>posix\<close>).  The current directory, which
  \<^verbatim>\<open>process.cwd()\<close> asks the native side for, is an argument of the operations that use it.
  Each operation is a function on strings, and the exported function of the same name
  checks its arguments first.
\<close>

section \<open>The code\<close>

text \<open>
  \<^verbatim>\<open>resolve\<close>: the arguments are taken from the last to the first (the list is reversed here),
  then the current directory, until the path is absolute.
\<close>

fun posix_resolve_loop ::
  "jsstr \<Rightarrow> jsval list \<Rightarrow> jsstr \<Rightarrow> bool \<Rightarrow> jserr + (jsstr \<times> bool)"
where
  "posix_resolve_loop cwd [] resolvedPath resolvedAbsolute =
     Inr (if resolvedAbsolute \<or> length cwd = 0 then (resolvedPath, resolvedAbsolute)
          else (cwd @ [CHAR_FORWARD_SLASH] @ resolvedPath,
                charCodeAt cwd 0 = Some CHAR_FORWARD_SLASH))"
| "posix_resolve_loop cwd (arg # rest) resolvedPath resolvedAbsolute =
     (if resolvedAbsolute then Inr (resolvedPath, resolvedAbsolute)
      else ebind (assertPath arg) (\<lambda>path.
        if length path = 0 then posix_resolve_loop cwd rest resolvedPath resolvedAbsolute
        else posix_resolve_loop cwd rest (path @ [CHAR_FORWARD_SLASH] @ resolvedPath)
               (charCodeAt path 0 = Some CHAR_FORWARD_SLASH)))"

definition posix_resolve_end :: "jsstr \<Rightarrow> bool \<Rightarrow> jsstr" where
  "posix_resolve_end resolvedPath resolvedAbsolute =
     (let p = normalizeString resolvedPath (\<not> resolvedAbsolute) CHAR_FORWARD_SLASH
                isPosixPathSeparator
      in if resolvedAbsolute then
           (if length p > 0 then [CHAR_FORWARD_SLASH] @ p else [CHAR_FORWARD_SLASH])
         else if length p > 0 then p
         else [CHAR_DOT])"

definition posix_resolve :: "jsstr \<Rightarrow> jsval list \<Rightarrow> jserr + jsstr" where
  "posix_resolve cwd args =
     ebind (posix_resolve_loop cwd (rev args) [] False)
       (\<lambda>(resolvedPath, resolvedAbsolute). Inr (posix_resolve_end resolvedPath resolvedAbsolute))"

definition posix_normalize_str :: "jsstr \<Rightarrow> jsstr" where
  "posix_normalize_str path =
     (if length path = 0 then [CHAR_DOT]
      else
        let isAbsolute = (charCodeAt path 0 = Some CHAR_FORWARD_SLASH);
            trailingSeparator = (charCodeAt path (length path - 1) = Some CHAR_FORWARD_SLASH);
            p1 = normalizeString path (\<not> isAbsolute) CHAR_FORWARD_SLASH isPosixPathSeparator;
            p2 = (if length p1 = 0 \<and> \<not> isAbsolute then [CHAR_DOT] else p1);
            p3 = (if length p2 > 0 \<and> trailingSeparator then p2 @ [CHAR_FORWARD_SLASH] else p2)
        in if isAbsolute then [CHAR_FORWARD_SLASH] @ p3 else p3)"

definition posix_normalize :: "jsval \<Rightarrow> jserr + jsstr" where
  "posix_normalize path = ebind (assertPath path) (\<lambda>p. Inr (posix_normalize_str p))"

definition posix_isAbsolute :: "jsval \<Rightarrow> jserr + bool" where
  "posix_isAbsolute path =
     ebind (assertPath path)
       (\<lambda>p. Inr (length p > 0 \<and> charCodeAt p 0 = Some CHAR_FORWARD_SLASH))"

text \<open>\<^verbatim>\<open>join\<close>: \<open>joined\<close> is undefined (\<open>None\<close>) until the first non-empty argument.\<close>

fun posix_join_loop :: "jsval list \<Rightarrow> jsstr option \<Rightarrow> jserr + jsstr option" where
  "posix_join_loop [] joined = Inr joined"
| "posix_join_loop (a # rest) joined =
     ebind (assertPath a) (\<lambda>arg.
       posix_join_loop rest
         (if length arg > 0 then
            (case joined of None \<Rightarrow> Some arg | Some j \<Rightarrow> Some (j @ [CHAR_FORWARD_SLASH] @ arg))
          else joined))"

definition posix_join :: "jsval list \<Rightarrow> jserr + jsstr" where
  "posix_join args =
     (if length args = 0 then Inr [CHAR_DOT]
      else ebind (posix_join_loop args None) (\<lambda>joined.
        case joined of None \<Rightarrow> Inr [CHAR_DOT] | Some j \<Rightarrow> Inr (posix_normalize_str j)))"

text \<open>
  \<^verbatim>\<open>relative\<close>: the comparison loop either returns the result itself (\<open>Inl\<close>) or ends with
  \<open>lastCommonSep\<close> (\<open>Inr\<close>); \<open>len\<close> is the variable \<^verbatim>\<open>length\<close> of the source.
\<close>

function posix_rel_loop ::
  "jsstr \<Rightarrow> jsstr \<Rightarrow> nat \<Rightarrow> nat \<Rightarrow> nat \<Rightarrow> nat \<Rightarrow> nat \<Rightarrow> nat \<Rightarrow> int \<Rightarrow> jsstr + int"
where
  "posix_rel_loop fromP toP fromStart toStart fromLen toLen len i lastCommonSep =
     (if i < len then
        (if fromP ! (fromStart + i) \<noteq> toP ! (toStart + i) then Inr lastCommonSep
         else posix_rel_loop fromP toP fromStart toStart fromLen toLen len (Suc i)
                (if fromP ! (fromStart + i) = CHAR_FORWARD_SLASH then int i else lastCommonSep))
      else if toLen > len then
        (if charCodeAt toP (toStart + i) = Some CHAR_FORWARD_SLASH
         then Inl (sliceFrom toP (toStart + i + 1))
         else if i = 0 then Inl (sliceFrom toP (toStart + i))
         else Inr lastCommonSep)
      else if fromLen > len then
        (if charCodeAt fromP (fromStart + i) = Some CHAR_FORWARD_SLASH then Inr (int i)
         else if i = 0 then Inr 0
         else Inr lastCommonSep)
      else Inr lastCommonSep)"
  by pat_completeness auto
termination
  by (relation "measure (\<lambda>(f, t, fs, ts, fl, tl, len, i, lcs). len - i)") auto

declare posix_rel_loop.simps [simp del]

text \<open>One \<^verbatim>\<open>..\<close> for every component of \<open>from\<close> after the common part.\<close>

function rel_up_loop :: "nat \<Rightarrow> jsstr \<Rightarrow> nat \<Rightarrow> nat \<Rightarrow> jsstr \<Rightarrow> jsstr" where
  "rel_up_loop sep fromP fromEnd i out =
     (if i \<le> fromEnd then
        rel_up_loop sep fromP fromEnd (Suc i)
          (if i = fromEnd \<or> charCodeAt fromP i = Some sep then
             (if length out = 0 then out @ [CHAR_DOT, CHAR_DOT]
              else out @ [sep, CHAR_DOT, CHAR_DOT])
           else out)
      else out)"
  by pat_completeness auto
termination
  by (relation "measure (\<lambda>(s, f, e, i, out). Suc e - i)") auto

declare rel_up_loop.simps [simp del]

definition posix_rel_end :: "jsstr \<Rightarrow> jsstr \<Rightarrow> nat \<Rightarrow> nat \<Rightarrow> int \<Rightarrow> jsstr" where
  "posix_rel_end fromP toP fromStart toStart lastCommonSep =
     (let out = rel_up_loop CHAR_FORWARD_SLASH fromP (length fromP)
                  (nat (int fromStart + lastCommonSep + 1)) [];
          start = nat (int toStart + lastCommonSep)
      in if length out > 0 then out @ sliceFrom toP start
         else sliceFrom toP
                (if charCodeAt toP start = Some CHAR_FORWARD_SLASH then start + 1 else start))"

text \<open>The comparison of the two resolved paths.\<close>

definition posix_relative_resolved :: "jsstr \<Rightarrow> jsstr \<Rightarrow> jsstr" where
  "posix_relative_resolved fromP toP =
     (if fromP = toP then []
      else
        let fromStart = scanWhile (\<lambda>c. c = CHAR_FORWARD_SLASH) fromP 1;
            fromLen = length fromP - fromStart;
            toStart = scanWhile (\<lambda>c. c = CHAR_FORWARD_SLASH) toP 1;
            toLen = length toP - toStart;
            len = (if fromLen < toLen then fromLen else toLen)
        in case posix_rel_loop fromP toP fromStart toStart fromLen toLen len 0 (-1) of
             Inl result \<Rightarrow> result
           | Inr lastCommonSep \<Rightarrow> posix_rel_end fromP toP fromStart toStart lastCommonSep)"

definition posix_relative :: "jsstr \<Rightarrow> jsval \<Rightarrow> jsval \<Rightarrow> jserr + jsstr" where
  "posix_relative cwd fromP toP =
     ebind (assertPath fromP) (\<lambda>f. ebind (assertPath toP) (\<lambda>t.
       if f = t then Inr []
       else ebind (posix_resolve cwd [JStr f]) (\<lambda>f'.
              ebind (posix_resolve cwd [JStr t]) (\<lambda>t'.
                Inr (posix_relative_resolved f' t')))))"

definition posix_toNamespacedPath :: "jsval \<Rightarrow> jsval" where
  "posix_toNamespacedPath path = path"

definition posix_dirname_str :: "jsstr \<Rightarrow> jsstr" where
  "posix_dirname_str path =
     (if length path = 0 then [CHAR_DOT]
      else
        let hasRoot = (charCodeAt path 0 = Some CHAR_FORWARD_SLASH);
            endp = dirname_end isPosixPathSeparator path 1
        in if endp = -1 then (if hasRoot then [CHAR_FORWARD_SLASH] else [CHAR_DOT])
           else if hasRoot \<and> endp = 1 then [CHAR_FORWARD_SLASH, CHAR_FORWARD_SLASH]
           else slice path 0 (nat endp))"

definition posix_dirname :: "jsval \<Rightarrow> jserr + jsstr" where
  "posix_dirname path = ebind (assertPath path) (\<lambda>p. Inr (posix_dirname_str p))"

text \<open>The second argument of \<^verbatim>\<open>basename\<close> may be undefined, and otherwise must be a string.\<close>

definition assertExt :: "jsval \<Rightarrow> jserr + jsstr option" where
  "assertExt ext =
     (case ext of JUndef \<Rightarrow> Inr None | JStr e \<Rightarrow> Inr (Some e)
      | _ \<Rightarrow> Inl (ERR_INVALID_ARG_TYPE (js ''ext'')))"

definition posix_basename_str :: "jsstr \<Rightarrow> jsstr option \<Rightarrow> jsstr" where
  "posix_basename_str path ext =
     (case ext of
        Some e \<Rightarrow>
          if length e > 0 \<and> length e \<le> length path then
            (if length e = length path \<and> e = path then []
             else basename_ext isPosixPathSeparator path e 0)
          else basename_plain isPosixPathSeparator path 0
      | None \<Rightarrow> basename_plain isPosixPathSeparator path 0)"

definition posix_basename :: "jsval \<Rightarrow> jsval \<Rightarrow> jserr + jsstr" where
  "posix_basename path ext =
     ebind (assertExt ext) (\<lambda>e. ebind (assertPath path) (\<lambda>p. Inr (posix_basename_str p e)))"

definition posix_extname_str :: "jsstr \<Rightarrow> jsstr" where
  "posix_extname_str path =
     (let st = ext_scan isPosixPathSeparator path 0 0
      in if no_ext st then [] else slice path (nat (startDot st)) (nat (eend st)))"

definition posix_extname :: "jsval \<Rightarrow> jserr + jsstr" where
  "posix_extname path = ebind (assertPath path) (\<lambda>p. Inr (posix_extname_str p))"

text \<open>\<^verbatim>\<open>format\<close> of an object (\<open>None\<close> stands for any value that is not an object).\<close>

definition posix_format :: "path_object option \<Rightarrow> jserr + jsstr" where
  "posix_format pathObject =
     (case pathObject of
        None \<Rightarrow> Inl (ERR_INVALID_ARG_TYPE (js ''pathObject''))
      | Some po \<Rightarrow> Inr (path_format [CHAR_FORWARD_SLASH] po))"

definition empty_path_object :: path_object where
  "empty_path_object =
     \<lparr>po_root = Some [], po_dir = Some [], po_base = Some [], po_ext = Some [], po_name = Some []\<rparr>"

definition posix_parse_str :: "jsstr \<Rightarrow> path_object" where
  "posix_parse_str path =
     (if length path = 0 then empty_path_object
      else
        let isAbsolute = (charCodeAt path 0 = Some CHAR_FORWARD_SLASH);
            start = (if isAbsolute then 1 else 0);
            ret0 = (if isAbsolute then empty_path_object\<lparr>po_root := Some [CHAR_FORWARD_SLASH]\<rparr>
                    else empty_path_object);
            st = ext_scan isPosixPathSeparator path start 0;
            part = (if startPart st = 0 \<and> isAbsolute then 1 else startPart st);
            ret1 =
              (if no_ext st then
                 (if eend st \<noteq> -1 then
                    ret0\<lparr>po_base := Some (slice path part (nat (eend st))),
                         po_name := Some (slice path part (nat (eend st)))\<rparr>
                  else ret0)
               else
                 ret0\<lparr>po_name := Some (slice path part (nat (startDot st))),
                      po_base := Some (slice path part (nat (eend st))),
                      po_ext := Some (slice path (nat (startDot st)) (nat (eend st)))\<rparr>)
        in if startPart st > 0 then ret1\<lparr>po_dir := Some (slice path 0 (startPart st - 1))\<rparr>
           else if isAbsolute then ret1\<lparr>po_dir := Some [CHAR_FORWARD_SLASH]\<rparr>
           else ret1)"

definition posix_parse :: "jsval \<Rightarrow> jserr + path_object" where
  "posix_parse path = ebind (assertPath path) (\<lambda>p. Inr (posix_parse_str p))"

section \<open>Segments of POSIX paths\<close>

abbreviation posix_segs :: "bool \<Rightarrow> jsstr \<Rightarrow> jsstr list" where
  "posix_segs allow p \<equiv> resolve_segs allow (splitOn isPosixPathSeparator p)"

lemma posix_normalizeString:
  "normalizeString p allow CHAR_FORWARD_SLASH isPosixPathSeparator =
     joinOn CHAR_FORWARD_SLASH (posix_segs allow p)"
  by (simp add: posix_fl.normalizeString_refines norm_spec_def)

lemma posix_join_eq_Nil [simp]:
  "joinOn CHAR_FORWARD_SLASH (posix_segs allow p) = [] \<longleftrightarrow> posix_segs allow p = []"
  using posix_fl.norm_eq_Nil[of p allow] by (simp add: norm_spec_def)

lemma charCodeAt_0: "charCodeAt p 0 = Some c \<longleftrightarrow> (\<exists>q. p = c # q)"
  by (cases p) (auto simp: charCodeAt_def)

lemma charCodeAt_last: "charCodeAt p (length p - 1) = Some c \<longleftrightarrow> p \<noteq> [] \<and> last p = c"
  by (cases p rule: rev_cases) (auto simp: charCodeAt_def)

text \<open>\<^verbatim>\<open>normalize\<close> in terms of the segments.\<close>

definition posix_normalize_spec :: "jsstr \<Rightarrow> jsstr" where
  "posix_normalize_spec p =
     (if p = [] then [CHAR_DOT]
      else
        let absolute = hd p = CHAR_FORWARD_SLASH;
            segs = posix_segs (\<not> absolute) p;
            body = (if segs = [] \<and> \<not> absolute then [CHAR_DOT] else joinOn CHAR_FORWARD_SLASH segs)
        in (if absolute then [CHAR_FORWARD_SLASH] else []) @ body @
           (if last p = CHAR_FORWARD_SLASH \<and> body \<noteq> [] then [CHAR_FORWARD_SLASH] else []))"

lemma posix_normalize_str_spec: "posix_normalize_str p = posix_normalize_spec p"
proof (cases "p = []")
  case False
  define a where "a \<longleftrightarrow> hd p = CHAR_FORWARD_SLASH"
  define b where "b \<longleftrightarrow> last p = CHAR_FORWARD_SLASH"
  define j where "j = joinOn CHAR_FORWARD_SLASH (posix_segs (\<not> a) p)"
  have a: "(charCodeAt p 0 = Some CHAR_FORWARD_SLASH) = a"
    using False unfolding a_def by (cases p) simp_all
  have b: "(charCodeAt p (length p - 1) = Some CHAR_FORWARD_SLASH) = b"
    using False unfolding b_def by (cases p rule: rev_cases) simp_all
  have j: "posix_segs (\<not> a) p = [] \<longleftrightarrow> j = []" by (simp add: j_def)
  show ?thesis
    using False
    unfolding posix_normalize_str_def posix_normalize_spec_def posix_normalizeString Let_def
      a b a_def[symmetric] b_def[symmetric] j j_def[symmetric]
    by (cases a; cases b; cases "j = []"; simp)
qed (simp add: posix_normalize_str_def posix_normalize_spec_def)

lemma posix_segs_Cons: "posix_segs allow (CHAR_FORWARD_SLASH # p) = posix_segs allow p"
  by (rule posix_fl.resolve_lead) (simp add: isPosixPathSeparator_def)

lemma posix_segs_snoc: "posix_segs allow (p @ [CHAR_FORWARD_SLASH]) = posix_segs allow p"
  by (rule posix_fl.resolve_trail) (simp add: isPosixPathSeparator_def)

lemma posix_segs_join:
  "posix_segs allow (joinOn CHAR_FORWARD_SLASH (posix_segs allow p)) = posix_segs allow p"
  using posix_fl.norm_split[of p allow] resolve_segs_idem[of allow]
  by (simp add: norm_spec_def resolve_segs_def)

lemma posix_join_hd_last:
  assumes "posix_segs allow p \<noteq> []"
  shows "hd (joinOn CHAR_FORWARD_SLASH (posix_segs allow p)) \<noteq> CHAR_FORWARD_SLASH"
    "last (joinOn CHAR_FORWARD_SLASH (posix_segs allow p)) \<noteq> CHAR_FORWARD_SLASH"
  using posix_fl.norm_hd_last[of p allow] assms
  by (auto simp: norm_spec_def isPosixPathSeparator_def)

lemma posix_normalize_spec_cases:
  assumes "p \<noteq> []"
  defines "a \<equiv> hd p = CHAR_FORWARD_SLASH"
  defines "t \<equiv> (if last p = CHAR_FORWARD_SLASH then [CHAR_FORWARD_SLASH] else [])"
  shows "posix_segs (\<not> a) p = [] \<Longrightarrow> a \<Longrightarrow> posix_normalize_spec p = [CHAR_FORWARD_SLASH]"
    "posix_segs (\<not> a) p = [] \<Longrightarrow> \<not> a \<Longrightarrow> posix_normalize_spec p = CHAR_DOT # t"
    "posix_segs (\<not> a) p \<noteq> [] \<Longrightarrow> posix_normalize_spec p =
       (if a then [CHAR_FORWARD_SLASH] else []) @ joinOn CHAR_FORWARD_SLASH (posix_segs (\<not> a) p) @ t"
  using assms(1) unfolding a_def t_def by (simp_all add: posix_normalize_spec_def Let_def)

lemma posix_normalize_spec_small:
  "posix_normalize_spec [CHAR_DOT] = [CHAR_DOT]"
  "posix_normalize_spec [CHAR_DOT, CHAR_FORWARD_SLASH] = [CHAR_DOT, CHAR_FORWARD_SLASH]"
  "posix_normalize_spec [CHAR_FORWARD_SLASH] = [CHAR_FORWARD_SLASH]"
  "posix_normalize_spec [] = [CHAR_DOT]"
  by (simp_all add: posix_normalize_spec_def resolve_segs_def push_seg_def isPosixPathSeparator_def)

lemma posix_normalize_spec_idem:
  "posix_normalize_spec (posix_normalize_spec p) = posix_normalize_spec p"
proof (cases "p = []")
  case True
  show ?thesis unfolding True by (simp add: posix_normalize_spec_small)
next
  case False
  define a where "a \<longleftrightarrow> hd p = CHAR_FORWARD_SLASH"
  define t where "t = (if last p = CHAR_FORWARD_SLASH then [CHAR_FORWARD_SLASH] else [])"
  define segs where "segs = posix_segs (\<not> a) p"
  note cs = posix_normalize_spec_cases[OF False, folded a_def t_def, folded segs_def]
  show ?thesis
  proof (cases "segs = []")
    case True
    then show ?thesis
      using cs(1,2) by (cases a) (auto simp: posix_normalize_spec_small t_def)
  next
    case segs: False
    let ?j = "joinOn CHAR_FORWARD_SLASH segs" and ?r = "if a then [CHAR_FORWARD_SLASH] else []"
    have j: "?j \<noteq> []" "hd ?j \<noteq> CHAR_FORWARD_SLASH" "last ?j \<noteq> CHAR_FORWARD_SLASH"
      using segs posix_join_hd_last[of "\<not> a" p] unfolding segs_def by auto
    note eq = cs(3)[OF segs]
    let ?n = "?r @ ?j @ t"
    have n: "?n \<noteq> []" "hd ?n = CHAR_FORWARD_SLASH \<longleftrightarrow> a"
      "last ?n = CHAR_FORWARD_SLASH \<longleftrightarrow> last p = CHAR_FORWARD_SLASH"
      using j by (auto simp: t_def)
    have s1: "posix_segs (\<not> a) ?j = segs" unfolding segs_def by (rule posix_segs_join)
    have s2: "posix_segs (\<not> a) (?j @ t) = segs"
      using s1 posix_segs_snoc[of "\<not> a" ?j] by (simp add: t_def)
    have s3: "posix_segs (\<not> a) ?n = segs"
      using s2 posix_segs_Cons[of "\<not> a" "?j @ t"] by (cases a) simp_all
    have "posix_normalize_spec ?n = ?n"
      using posix_normalize_spec_cases(3)[OF n(1), unfolded n(2,3), folded t_def] s3 segs by metis
    then show ?thesis unfolding eq .
  qed
qed


text \<open>\<^verbatim>\<open>resolve\<close> as a sequence of directory changes.\<close>

definition posix_cd :: "jsstr list \<Rightarrow> jsstr \<Rightarrow> jsstr list" where
  "posix_cd st p =
     foldl (push_seg False) (if p \<noteq> [] \<and> hd p = CHAR_FORWARD_SLASH then [] else st)
       (splitOn isPosixPathSeparator p)"

lemma posix_cd_Nil [simp]: "posix_cd st [] = st"
  by (simp add: posix_cd_def)

lemma posix_push_concat:
  "foldl (push_seg allow) st (splitOn isPosixPathSeparator (p @ CHAR_FORWARD_SLASH # q)) =
   foldl (push_seg allow) (foldl (push_seg allow) st (splitOn isPosixPathSeparator p))
     (splitOn isPosixPathSeparator q)"
  by (simp add: splitOn_append_sep isPosixPathSeparator_def)

lemma posix_resolve_loop_abs: "posix_resolve_loop cwd args r True = Inr (r, True)"
  by (cases args) simp_all

lemma posix_resolve_loop_cd:
  assumes "cwd = CHAR_FORWARD_SLASH # c"
  shows "\<exists>s. posix_resolve_loop cwd (map JStr rs) r False = Inr (s, True) \<and>
    posix_segs False s =
      foldl (push_seg False) (foldl posix_cd (posix_segs False cwd) (rev rs))
        (splitOn isPosixPathSeparator r)"
proof (induction rs arbitrary: r)
  case Nil
  have "posix_segs False (cwd @ CHAR_FORWARD_SLASH # r) =
      foldl (push_seg False) (posix_segs False cwd) (splitOn isPosixPathSeparator r)"
    by (rule posix_fl.resolve_concat) (simp add: isPosixPathSeparator_def)
  then show ?case using assms by simp
next
  case (Cons p rs)
  let ?st = "foldl posix_cd (posix_segs False cwd) (rev rs)"
  consider (empty) "p = []" | (abs) "p \<noteq> []" "hd p = CHAR_FORWARD_SLASH"
    | (rel) "p \<noteq> []" "hd p \<noteq> CHAR_FORWARD_SLASH" by blast
  then show ?case
  proof cases
    case empty
    then show ?thesis using Cons by (simp add: assertPath_def)
  next
    case abs
    then have "charCodeAt p 0 = Some CHAR_FORWARD_SLASH" by (cases p) simp_all
    then have loop: "posix_resolve_loop cwd (map JStr (p # rs)) r False =
        Inr (p @ CHAR_FORWARD_SLASH # r, True)"
      using abs by (simp add: assertPath_def posix_resolve_loop_abs)
    have "posix_segs False (p @ CHAR_FORWARD_SLASH # r) =
        foldl (push_seg False) (posix_cd ?st p) (splitOn isPosixPathSeparator r)"
      using abs by (simp add: resolve_segs_def posix_push_concat posix_cd_def)
    with loop show ?thesis by simp
  next
    case rel
    then have "charCodeAt p 0 \<noteq> Some CHAR_FORWARD_SLASH" by (cases p) simp_all
    then have "posix_resolve_loop cwd (map JStr (p # rs)) r False =
        posix_resolve_loop cwd (map JStr rs) (p @ CHAR_FORWARD_SLASH # r) False"
      using rel by (simp add: assertPath_def)
    with Cons.IH[of "p @ CHAR_FORWARD_SLASH # r"] rel show ?thesis
      by (simp add: posix_push_concat posix_cd_def)
  qed
qed

lemma posix_resolve_cd:
  "posix_resolve (CHAR_FORWARD_SLASH # c) (map JStr ps) =
     Inr (CHAR_FORWARD_SLASH #
       joinOn CHAR_FORWARD_SLASH (foldl posix_cd (posix_segs False c) ps))"
proof -
  obtain s where s: "posix_resolve_loop (CHAR_FORWARD_SLASH # c) (map JStr (rev ps)) [] False =
      Inr (s, True)"
    "posix_segs False s = foldl posix_cd (posix_segs False c) ps"
    using posix_resolve_loop_cd[OF refl, of c "rev ps" "[]"] by (auto simp: posix_segs_Cons simp del: splitOn.simps(2))
  have "posix_resolve_end s True = CHAR_FORWARD_SLASH # joinOn CHAR_FORWARD_SLASH (posix_segs False s)"
    by (simp add: posix_resolve_end_def posix_normalizeString Let_def)
  then show ?thesis using s by (simp add: posix_resolve_def rev_map)
qed

lemma posix_cd_normal:
  "normal_segs False st \<Longrightarrow> normal_segs False (foldl posix_cd st ps)"
proof (induction ps arbitrary: st)
  case (Cons p ps)
  have "normal_segs False (foldl (push_seg False) st' xs)" if "normal_segs False st'" for st' xs
    using that by (induction xs arbitrary: st') (auto intro: push_seg_normal)
  then have "normal_segs False (posix_cd st p)" using Cons.prems by (simp add: posix_cd_def)
  then show ?case using Cons.IH by simp
qed simp

lemma posix_cd_free:
  assumes "\<forall>x\<in>set st. \<forall>c\<in>set x. \<not> isPosixPathSeparator c"
  shows "\<forall>x\<in>set (foldl posix_cd st ps). \<forall>c\<in>set x. \<not> isPosixPathSeparator c"
  using assms
proof (induction ps arbitrary: st)
  case (Cons p ps)
  have "\<forall>x\<in>set (posix_cd st p). \<forall>c\<in>set x. \<not> isPosixPathSeparator c"
    unfolding posix_cd_def
  proof (rule push_free)
    show "\<forall>x\<in>set (splitOn isPosixPathSeparator p). \<forall>c\<in>set x. \<not> isPosixPathSeparator c"
      using splitOn_pieces_free by blast
  qed (use Cons.prems posix_fl.dot_not_sep in auto)
  then show ?case using Cons.IH by simp
qed simp

text \<open>\<^verbatim>\<open>join\<close> of strings.\<close>

lemma posix_join_loop_some:
  "posix_join_loop (map JStr ps) (Some j) =
     Inr (Some (foldl (\<lambda>j p. if p = [] then j else j @ CHAR_FORWARD_SLASH # p) j ps))"
  by (induction ps arbitrary: j) (simp_all add: assertPath_def)

lemma foldl_joinOn:
  "xs \<noteq> [] \<Longrightarrow> foldl (\<lambda>j p. if p = [] then j else j @ c # p) (joinOn c xs) ps =
     joinOn c (xs @ [p \<leftarrow> ps. p \<noteq> []])"
proof (induction ps arbitrary: xs)
  case (Cons p ps)
  then show ?case using Cons.IH[of "xs @ [p]"] by (simp add: joinOn_snoc)
qed simp

lemma posix_join_loop_strings:
  "posix_join_loop (map JStr ps) None =
     Inr (if [p \<leftarrow> ps. p \<noteq> []] = [] then None
          else Some (joinOn CHAR_FORWARD_SLASH [p \<leftarrow> ps. p \<noteq> []]))"
proof (induction ps)
  case (Cons p ps)
  then show ?case
    using foldl_joinOn[of "[p]" CHAR_FORWARD_SLASH ps]
    by (simp add: assertPath_def posix_join_loop_some)
qed simp

lemma posix_normalize_str_Nil: "posix_normalize_str [] = [CHAR_DOT]"
  by (simp add: posix_normalize_str_def)

lemma posix_join_strings:
  "posix_join (map JStr ps) =
     Inr (posix_normalize_str (joinOn CHAR_FORWARD_SLASH [p \<leftarrow> ps. p \<noteq> []]))"
proof (cases "ps = []")
  case False
  then show ?thesis
    by (cases "[p \<leftarrow> ps. p \<noteq> []] = []")
      (simp_all only: posix_join_def posix_join_loop_strings posix_normalize_str_Nil ebind.simps
        joinOn.simps length_map length_0_conv if_True if_False option.case refl simp_thms)
qed (simp add: posix_join_def posix_normalize_str_Nil)

lemma posix_join_loop_error:
  "all_strings args = None \<Longrightarrow> posix_join_loop args j = Inl (ERR_INVALID_ARG_TYPE (js ''path''))"
  by (induction args arbitrary: j rule: all_strings.induct) (simp_all add: assertPath_def)

section \<open>Properties\<close>

text \<open>
   \<^verbatim>\<open>normalize\<close> is idempotent: the normal form of a path is its own normal form (and an
  argument that is not a string is refused both times).
\<close>

theorem posix_normalize_idem:
  "ebind (posix_normalize v) (\<lambda>q. posix_normalize (JStr q)) = posix_normalize v"
proof (cases v)
  case (JStr p)
  then show ?thesis
    by (simp add: posix_normalize_def assertPath_def posix_normalize_str_spec posix_normalize_spec_idem)
qed (simp_all add: posix_normalize_def assertPath_def)

text \<open>
   \<^verbatim>\<open>resolve\<close> with an absolute current directory is a sequence of directory changes: each
  argument is followed from the directory reached so far, an absolute one from the root, and the
  result has no empty, single-dot or double-dot segment left.
\<close>

theorem posix_resolve_changes:
  "posix_resolve (CHAR_FORWARD_SLASH # c) (map JStr ps) =
     Inr (CHAR_FORWARD_SLASH #
       joinOn CHAR_FORWARD_SLASH (foldl posix_cd (posix_segs False c) ps)) \<and>
   set (foldl posix_cd (posix_segs False c) ps) \<inter> {[], [CHAR_DOT], [CHAR_DOT, CHAR_DOT]} = {}"
proof (rule conjI[OF posix_resolve_cd])
  have "normal_segs False (foldl posix_cd (posix_segs False c) ps)"
    by (intro posix_cd_normal resolve_segs_normal)
  then show "set (foldl posix_cd (posix_segs False c) ps) \<inter> {[], [CHAR_DOT], [CHAR_DOT, CHAR_DOT]} = {}"
    unfolding normal_segs_False_iff by blast
qed

text \<open>
   \<^verbatim>\<open>join\<close> normalises its non-empty arguments with a separator between them; it throws exactly
  when an argument is not a string.
\<close>

theorem posix_join_correct:
  "posix_join args =
     (case all_strings args of
        None \<Rightarrow> Inl (ERR_INVALID_ARG_TYPE (js ''path''))
      | Some ps \<Rightarrow> posix_normalize (JStr (joinOn CHAR_FORWARD_SLASH [p \<leftarrow> ps. p \<noteq> []])))"
proof (cases "all_strings args")
  case None
  moreover from this have "args \<noteq> []" by auto
  ultimately show ?thesis by (simp add: posix_join_def posix_join_loop_error)
next
  case (Some ps)
  then show ?thesis
    using posix_join_strings[of ps]
    unfolding all_strings_Some[OF Some] Some option.case posix_normalize_def assertPath_def jsval.case
    by simp
qed

end
