(* ===== verification/Path_Relative.thy ===== *)
theory Path_Relative
  imports Path_Posix
begin

text \<open>
  \<^verbatim>\<open>relative\<close> compares two resolved paths character by character and remembers the last common
  separator.  The lemmas lead to what the comparison means for the segment lists: one \<^verbatim>\<open>..\<close> for
  every segment of the first path after the longest common prefix, then the rest of the second.
\<close>

text \<open>Counting the components left of \<open>from\<close>.\<close>

abbreviation dotdots :: "nat \<Rightarrow> jsstr list" where
  "dotdots k \<equiv> replicate k [CHAR_DOT, CHAR_DOT]"

lemma dotdots_Suc: "joinOn sep (dotdots (Suc k)) =
    (if k = 0 then [CHAR_DOT, CHAR_DOT] else joinOn sep (dotdots k) @ [sep, CHAR_DOT, CHAR_DOT])"
  unfolding replicate_Suc replicate_app_Cons_same[of _ _ "[]", simplified, symmetric]
  by (subst joinOn_snoc) auto

lemma dotdots_eq_Nil: "joinOn sep (dotdots k) = [] \<longleftrightarrow> k = 0"
  by (cases k) (auto simp: joinOn_eq_Nil)

lemma rel_up_loop_count:
  "rel_up_loop sep (pre @ s) (length (pre @ s)) (length pre) (joinOn sep (dotdots k)) =
     joinOn sep (dotdots (k + length (splitOn (\<lambda>c. c = sep) s)))"
proof (induction s arbitrary: pre k)
  case Nil
  have "rel_up_loop sep pre (length pre) (Suc (length pre)) out = out" for out
    by (subst rel_up_loop.simps) simp
  then show ?case
    by (subst rel_up_loop.simps) (simp add: dotdots_Suc dotdots_eq_Nil del: replicate_Suc)
next
  case (Cons c s)
  obtain h t where ht: "splitOn (\<lambda>c. c = sep) s = h # t" by (cases "splitOn (\<lambda>c. c = sep) s") auto
  have IH: "rel_up_loop sep (pre @ c # s) (length (pre @ c # s)) (Suc (length pre))
      (joinOn sep (dotdots k)) = joinOn sep (dotdots (k + length (splitOn (\<lambda>c. c = sep) s)))" for k
    using Cons.IH[of "pre @ [c]" k] by simp
  have unf: "rel_up_loop sep (pre @ c # s) (length (pre @ c # s)) (length pre)
      (joinOn sep (dotdots k)) =
    rel_up_loop sep (pre @ c # s) (length (pre @ c # s)) (Suc (length pre))
      (joinOn sep (dotdots (if c = sep then Suc k else k)))"
    by (subst rel_up_loop.simps) (simp add: dotdots_Suc dotdots_eq_Nil del: replicate_Suc)
  show ?case unfolding unf IH by (simp add: ht)
qed

lemma rel_up_loop_join:
  assumes "G \<noteq> []" "\<forall>x\<in>set G. sep \<notin> set x"
  shows "rel_up_loop sep (pre @ joinOn sep G) (length pre + length (joinOn sep G)) (length pre) [] =
    joinOn sep (dotdots (length G))"
proof -
  have "splitOn (\<lambda>c. c = sep) (joinOn sep G) = G"
    using assms by (intro splitOn_joinOn) auto
  then show ?thesis using rel_up_loop_count[of sep pre "joinOn sep G" 0] by simp
qed

text \<open>The comparison loop over a common prefix remembers the last separator in it.\<close>

lemma posix_rel_loop_common:
  assumes "fromP = p @ a" "toP = q @ b" "len \<le> length a" "len \<le> length b"
    and "k \<le> len" "take k a = take k b"
  shows "posix_rel_loop fromP toP (length p) (length q) fl tlen len 0 (-1) =
    posix_rel_loop fromP toP (length p) (length q) fl tlen len k
      (lastIndexOf (take k a) CHAR_FORWARD_SLASH)"
  using assms(5,6)
proof (induction k)
  case (Suc k)
  then have k: "k < len" "k < length a" "k < length b" using assms by auto
  have eq: "a ! k = b ! k" "take k a = take k b"
    using Suc.prems k by (auto simp: take_Suc_conv_app_nth)
  have li: "lastIndexOf (take (Suc k) a) CHAR_FORWARD_SLASH =
      (if a ! k = CHAR_FORWARD_SLASH then int k else lastIndexOf (take k a) CHAR_FORWARD_SLASH)"
    using k by (simp add: take_Suc_conv_app_nth lastIndexOf_snoc)
  have "posix_rel_loop fromP toP (length p) (length q) fl tlen len k
      (lastIndexOf (take k a) CHAR_FORWARD_SLASH) =
    posix_rel_loop fromP toP (length p) (length q) fl tlen len (Suc k)
      (lastIndexOf (take (Suc k) a) CHAR_FORWARD_SLASH)"
    unfolding li using k eq
    by (subst posix_rel_loop.simps) (simp add: assms(1,2))
  then show ?case using Suc.IH eq(2) k by simp
qed simp

text \<open>Where the two strings differ, or one of them ends.\<close>

lemma posix_rel_loop_stop:
  assumes "fromP = p @ u @ x" "toP = q @ u @ y" "x = [] \<or> y = [] \<or> hd x \<noteq> hd y"
    and "len = min (length (u @ x)) (length (u @ y))"
  shows "posix_rel_loop fromP toP (length p) (length q) (length (u @ x)) (length (u @ y)) len 0 (-1) =
    (let l = lastIndexOf u CHAR_FORWARD_SLASH in
     if x \<noteq> [] \<and> y \<noteq> [] then Inr l
     else if y \<noteq> [] then
       (if hd y = CHAR_FORWARD_SLASH then Inl (tl y) else if u = [] then Inl y else Inr l)
     else if x \<noteq> [] then
       (if hd x = CHAR_FORWARD_SLASH then Inr (int (length u)) else if u = [] then Inr 0 else Inr l)
     else Inr l)"
proof -
  let ?k = "length u"
  have "posix_rel_loop fromP toP (length p) (length q) (length (u @ x)) (length (u @ y)) len 0 (-1) =
    posix_rel_loop fromP toP (length p) (length q) (length (u @ x)) (length (u @ y)) len ?k
      (lastIndexOf u CHAR_FORWARD_SLASH)"
    using posix_rel_loop_common[of fromP p "u @ x" toP q "u @ y" len ?k] assms by simp
  also have "\<dots> = (let l = lastIndexOf u CHAR_FORWARD_SLASH in
     if x \<noteq> [] \<and> y \<noteq> [] then Inr l
     else if y \<noteq> [] then
       (if hd y = CHAR_FORWARD_SLASH then Inl (tl y) else if u = [] then Inl y else Inr l)
     else if x \<noteq> [] then
       (if hd x = CHAR_FORWARD_SLASH then Inr (int ?k) else if u = [] then Inr 0 else Inr l)
     else Inr l)"
    using assms
    by (cases x; cases y; subst posix_rel_loop.simps)
      (simp_all add: Let_def charCodeAt_def nth_append sliceFrom_def)
  finally show ?thesis .
qed

text \<open>Absolute paths as segment lists, and the comparison of two of them.\<close>

definition plain_segs :: "jsstr list \<Rightarrow> bool" where
  "plain_segs xs \<longleftrightarrow> (\<forall>x\<in>set xs. x \<noteq> [] \<and> CHAR_FORWARD_SLASH \<notin> set x)"

lemma plain_segs_simps [simp]:
  "plain_segs []" "plain_segs (x # xs) \<longleftrightarrow> x \<noteq> [] \<and> CHAR_FORWARD_SLASH \<notin> set x \<and> plain_segs xs"
  "plain_segs (xs @ ys) \<longleftrightarrow> plain_segs xs \<and> plain_segs ys"
  by (auto simp: plain_segs_def)

abbreviation pjoin :: "jsstr list \<Rightarrow> jsstr" where
  "pjoin \<equiv> joinOn CHAR_FORWARD_SLASH"

lemma pjoin_Nil [simp]: "plain_segs xs \<Longrightarrow> pjoin xs = [] \<longleftrightarrow> xs = []"
  by (auto simp: joinOn_eq_Nil)

lemma pjoin_hd: "plain_segs xs \<Longrightarrow> xs \<noteq> [] \<Longrightarrow> hd (pjoin xs) \<noteq> CHAR_FORWARD_SLASH"
proof (cases xs)
  case (Cons x r)
  assume "plain_segs xs"
  with Cons show ?thesis by (cases x; cases r) auto
qed simp

definition prel :: "jsstr list \<Rightarrow> jsstr list \<Rightarrow> jsstr list" where
  "prel F T = (let m = length (longest_common_prefix F T)
               in dotdots (length F - m) @ drop m T)"

lemma prel_split:
  assumes "x = [] \<or> y = [] \<or> hd x \<noteq> hd y"
  shows "prel (M @ x) (M @ y) = dotdots (length x) @ y"
proof -
  have "longest_common_prefix (M @ x) (M @ y) = M"
    using assms by (induction M) (cases x; cases y; auto)+
  then show ?thesis by (simp add: prel_def)
qed

lemma pscan_start:
  assumes "plain_segs F"
  shows "scanWhile (\<lambda>c. c = CHAR_FORWARD_SLASH) (CHAR_FORWARD_SLASH # pjoin F) 1 = 1"
proof (cases F)
  case (Cons x r)
  then show ?thesis
    using assms pjoin_hd[OF assms] by (intro scanWhile_stop) (simp add: hd_conv_nth)
qed (simp add: scanWhile_stop)

lemma posix_rel_end_join:
  assumes "plain_segs G" "G \<noteq> []" "fromP = pre @ pjoin G" "int (length pre) = l + 2" "-1 \<le> l"
  shows "posix_rel_end fromP toP 1 1 l = pjoin (dotdots (length G)) @ drop (nat (1 + l)) toP"
proof -
  have "nat (int 1 + l + 1) = length pre" using assms by simp
  moreover have "pjoin (dotdots (length G)) \<noteq> []" using assms by (simp add: dotdots_eq_Nil)
  ultimately show ?thesis
    using rel_up_loop_join[of G CHAR_FORWARD_SLASH pre] assms
    by (simp add: posix_rel_end_def Let_def sliceFrom_def plain_segs_def)
qed

lemma posix_relative_resolved_unfold:
  assumes "plain_segs F" "plain_segs T" "F \<noteq> T" "pjoin F \<noteq> pjoin T"
    and "pjoin F = u @ x" "pjoin T = u @ y" "x = [] \<or> y = [] \<or> hd x \<noteq> hd y"
  defines "fromP \<equiv> CHAR_FORWARD_SLASH # pjoin F" and "toP \<equiv> CHAR_FORWARD_SLASH # pjoin T"
  shows "posix_relative_resolved fromP toP =
   (case
     (let l = lastIndexOf u CHAR_FORWARD_SLASH in
      if x \<noteq> [] \<and> y \<noteq> [] then Inr l
      else if y \<noteq> [] then
        (if hd y = CHAR_FORWARD_SLASH then Inl (tl y) else if u = [] then Inl y else Inr l)
      else if x \<noteq> [] then
        (if hd x = CHAR_FORWARD_SLASH then Inr (int (length u)) else if u = [] then Inr 0 else Inr l)
      else Inr l) of
      Inl result \<Rightarrow> result | Inr l \<Rightarrow> posix_rel_end fromP toP 1 1 l)"
proof -
  have f: "fromP = [CHAR_FORWARD_SLASH] @ u @ x" and t: "toP = [CHAR_FORWARD_SLASH] @ u @ y"
    using assms by simp_all
  have len: "(if length fromP - 1 < length toP - 1 then length fromP - 1 else length toP - 1) =
      min (length (u @ x)) (length (u @ y))"
    unfolding f t by (simp add: min_def)
  have st: "scanWhile (\<lambda>c. c = CHAR_FORWARD_SLASH) fromP 1 = length [CHAR_FORWARD_SLASH]"
    "scanWhile (\<lambda>c. c = CHAR_FORWARD_SLASH) toP 1 = length [CHAR_FORWARD_SLASH]"
    using pscan_start[OF assms(1)] pscan_start[OF assms(2)] unfolding fromP_def toP_def by simp_all
  have fl: "length fromP - length [CHAR_FORWARD_SLASH] = length (u @ x)"
    "length toP - length [CHAR_FORWARD_SLASH] = length (u @ y)"
    unfolding f t by simp_all
  have ne: "fromP \<noteq> toP" using assms by simp
  note stop = posix_rel_loop_stop[OF f t assms(7) refl]
  have "(if length (u @ x) < length (u @ y) then length (u @ x) else length (u @ y)) =
     min (length (u @ x)) (length (u @ y))" by (simp only: min_def) simp
  then show ?thesis
    unfolding posix_relative_resolved_def Let_def st fl
    using ne by (simp only: if_False stop Let_def) simp
qed


text \<open>
  The string of a list with the prefix \<open>M\<close>: the prefix, a separator unless it is empty, and the
  rest.
\<close>

definition plead :: "jsstr list \<Rightarrow> jsstr" where
  "plead M = (if M = [] then [] else pjoin M @ [CHAR_FORWARD_SLASH])"

lemma pjoin_lead: "G \<noteq> [] \<Longrightarrow> pjoin (M @ G) = plead M @ pjoin G"
  by (simp add: plead_def joinOn_append)

lemma plead_last: "CHAR_FORWARD_SLASH \<notin> set w \<Longrightarrow>
  lastIndexOf (plead M @ w) CHAR_FORWARD_SLASH = int (length (plead M)) - 1"
  by (simp add: plead_def lastIndexOf_absent lastIndexOf_append)

lemma plead_drop: "drop (length (plead M)) (CHAR_FORWARD_SLASH # plead M @ t) = CHAR_FORWARD_SLASH # t"
proof (cases "M = []")
  case False
  then have "CHAR_FORWARD_SLASH # plead M @ t = (CHAR_FORWARD_SLASH # pjoin M) @ CHAR_FORWARD_SLASH # t"
    "length (plead M) = length (CHAR_FORWARD_SLASH # pjoin M)"
    by (simp_all add: plead_def)
  then show ?thesis by (simp only: append_eq_conv_conj) simp
qed (simp add: plead_def)

lemma plead_end:
  assumes "plain_segs G" "G \<noteq> []"
  shows "posix_rel_end (CHAR_FORWARD_SLASH # plead M @ pjoin G) (CHAR_FORWARD_SLASH # plead M @ t)
      1 1 (int (length (plead M)) - 1) = pjoin (dotdots (length G)) @ CHAR_FORWARD_SLASH # t"
proof -
  have l: "nat (1 + (int (length (plead M)) - 1)) = length (plead M)" by simp
  have "posix_rel_end (CHAR_FORWARD_SLASH # plead M @ pjoin G) (CHAR_FORWARD_SLASH # plead M @ t)
      1 1 (int (length (plead M)) - 1) =
    pjoin (dotdots (length G)) @
      drop (nat (1 + (int (length (plead M)) - 1))) (CHAR_FORWARD_SLASH # plead M @ t)"
    by (rule posix_rel_end_join[OF assms, of _ "CHAR_FORWARD_SLASH # plead M"]) simp_all
  then show ?thesis unfolding l plead_drop .
qed

lemma pjoin_tail:
  assumes "G \<noteq> []"
  obtains r where "pjoin G = hd G @ r" "r = [] \<and> tl G = [] \<or> r \<noteq> [] \<and> hd r = CHAR_FORWARD_SLASH"
  using assms by (cases G; cases "tl G") (auto simp: joinOn_Cons)

text \<open>Both paths go on after the common components.\<close>

lemma posix_relative_both:
  assumes "plain_segs (M @ F)" "plain_segs (M @ T)" "F \<noteq> []" "T \<noteq> []" "hd F \<noteq> hd T"
  shows "posix_relative_resolved (CHAR_FORWARD_SLASH # pjoin (M @ F)) (CHAR_FORWARD_SLASH # pjoin (M @ T)) =
    pjoin (dotdots (length F)) @ CHAR_FORWARD_SLASH # pjoin T"
proof -
  obtain ra where ra: "pjoin F = hd F @ ra" "ra \<noteq> [] \<longrightarrow> hd ra = CHAR_FORWARD_SLASH"
    using pjoin_tail[OF assms(3)] by metis
  obtain rb where rb: "pjoin T = hd T @ rb" "rb \<noteq> [] \<longrightarrow> hd rb = CHAR_FORWARD_SLASH"
    using pjoin_tail[OF assms(4)] by metis
  obtain w f t where w: "hd F = w @ f" "hd T = w @ t" "f = [] \<or> t = [] \<or> hd f \<noteq> hd t"
    by (rule common_prefix)
  have free: "CHAR_FORWARD_SLASH \<notin> set (hd F)" "CHAR_FORWARD_SLASH \<notin> set (hd T)"
    "hd F \<noteq> []" "hd T \<noteq> []"
    using assms by (cases F; cases T; simp)+
  have nf: "f \<noteq> [] \<longrightarrow> hd f \<noteq> CHAR_FORWARD_SLASH" "t \<noteq> [] \<longrightarrow> hd t \<noteq> CHAR_FORWARD_SLASH"
    using free w by (auto dest!: hd_in_set)
  have wl: "lastIndexOf (plead M @ w) CHAR_FORWARD_SLASH = int (length (plead M)) - 1"
    using free w by (intro plead_last) simp
  let ?u = "plead M @ w" and ?x = "f @ ra" and ?y = "t @ rb"
  have F: "pjoin (M @ F) = ?u @ ?x" and T: "pjoin (M @ T) = ?u @ ?y"
    using assms ra rb w by (simp_all add: pjoin_lead)
  have ft: "f \<noteq> [] \<or> t \<noteq> []" using w assms(5) by auto
  have xy: "?x = [] \<or> ?y = [] \<or> hd ?x \<noteq> hd ?y"
    using ft w(3) nf ra(2) rb(2) by (cases f; cases t; cases ra; cases rb) auto
  have ne: "M @ F \<noteq> M @ T" "pjoin (M @ F) \<noteq> pjoin (M @ T)"
  proof -
    show "M @ F \<noteq> M @ T" using assms by auto
    show "pjoin (M @ F) \<noteq> pjoin (M @ T)"
      unfolding F T using ft xy ra(2) rb(2) nf by (cases f; cases t; cases ra; cases rb) auto
  qed
  have "?u \<noteq> []" if "?x = [] \<or> ?y = []" using that free w by auto
  moreover have "?y \<noteq> [] \<Longrightarrow> ?x = [] \<Longrightarrow> hd ?y \<noteq> CHAR_FORWARD_SLASH"
    using ft nf by (cases t) auto
  moreover have "?x \<noteq> [] \<Longrightarrow> ?y = [] \<Longrightarrow> hd ?x \<noteq> CHAR_FORWARD_SLASH"
    using ft nf by (cases f) auto
  ultimately have "posix_relative_resolved (CHAR_FORWARD_SLASH # pjoin (M @ F))
      (CHAR_FORWARD_SLASH # pjoin (M @ T)) =
    posix_rel_end (CHAR_FORWARD_SLASH # pjoin (M @ F)) (CHAR_FORWARD_SLASH # pjoin (M @ T)) 1 1
      (int (length (plead M)) - 1)"
    unfolding posix_relative_resolved_unfold[OF assms(1,2) ne F T xy] wl Let_def
    by (cases "plead M = []"; cases "w = []"; cases "?x = []"; cases "?y = []") simp_all
  moreover have "plain_segs F" using assms(1) by simp
  ultimately show ?thesis
    using plead_end[of F M "pjoin T"] assms(3,4) by (simp add: pjoin_lead)
qed

text \<open>One of the paths is a prefix of the other.\<close>

lemma posix_relative_down:
  assumes "plain_segs (M @ T)" "T \<noteq> []"
  shows "posix_relative_resolved (CHAR_FORWARD_SLASH # pjoin M) (CHAR_FORWARD_SLASH # pjoin (M @ T)) =
    pjoin T"
proof -
  let ?y = "if M = [] then pjoin T else CHAR_FORWARD_SLASH # pjoin T"
  have pl: "plain_segs M" "plain_segs T" using assms by simp_all
  have F: "pjoin M = pjoin M @ []" and T: "pjoin (M @ T) = pjoin M @ ?y"
    using assms by (simp_all add: joinOn_append)
  have y: "?y \<noteq> []" using pl assms by simp
  have ne: "M \<noteq> M @ T" "pjoin M \<noteq> pjoin (M @ T)" using y unfolding T using assms by auto
  have hd: "hd (pjoin T) \<noteq> CHAR_FORWARD_SLASH" using pl assms by (intro pjoin_hd)
  show ?thesis
    unfolding posix_relative_resolved_unfold[OF pl(1) assms(1) ne F T disjI1[OF refl]] Let_def
    using y hd by (cases "M = []") simp_all
qed

lemma posix_relative_up:
  assumes "plain_segs (M @ F)" "F \<noteq> []"
  shows "posix_relative_resolved (CHAR_FORWARD_SLASH # pjoin (M @ F)) (CHAR_FORWARD_SLASH # pjoin M) =
    pjoin (dotdots (length F))"
proof -
  let ?x = "if M = [] then pjoin F else CHAR_FORWARD_SLASH # pjoin F"
  have pl: "plain_segs M" "plain_segs F" using assms by simp_all
  have F: "pjoin (M @ F) = pjoin M @ ?x" and T: "pjoin M = pjoin M @ []"
    using assms by (simp_all add: joinOn_append)
  have x: "?x \<noteq> []" using pl assms by simp
  have ne: "M @ F \<noteq> M" "pjoin (M @ F) \<noteq> pjoin M" using x unfolding F using assms by auto
  have hd: "hd (pjoin F) \<noteq> CHAR_FORWARD_SLASH" using pl assms by (intro pjoin_hd)
  note unf = posix_relative_resolved_unfold[OF assms(1) pl(1) ne F T disjI2[OF disjI1[OF refl]]]
  show ?thesis
  proof (cases "M = []")
    case True
    obtain f fs where f: "F = f # fs" using assms by (cases F) auto
    then obtain c g where c: "f = c # g" using pl by (cases f) auto
    have g: "CHAR_FORWARD_SLASH \<notin> set g" "plain_segs fs" using pl f c by simp_all
    have "\<not> (c = CHAR_FORWARD_SLASH)" using pl f c by auto
    have "length (splitOn (\<lambda>c. c = CHAR_FORWARD_SLASH) (pjoin (g # fs))) = length F"
      using g f by (subst splitOn_joinOn) (auto simp: plain_segs_def)
    then have "rel_up_loop CHAR_FORWARD_SLASH (CHAR_FORWARD_SLASH # pjoin F)
        (length (CHAR_FORWARD_SLASH # pjoin F)) 2 [] = pjoin (dotdots (length F))"
      using rel_up_loop_count[of CHAR_FORWARD_SLASH "[CHAR_FORWARD_SLASH, c]" "pjoin (g # fs)" 0] f c
      by (cases fs) (simp_all add: numeral_2_eq_2)
    moreover have "pjoin (dotdots (length F)) \<noteq> []" using assms by (simp add: dotdots_eq_Nil)
    ultimately have "posix_rel_end (CHAR_FORWARD_SLASH # pjoin F) [CHAR_FORWARD_SLASH] 1 1 0 =
        pjoin (dotdots (length F))"
      by (simp add: posix_rel_end_def Let_def sliceFrom_def numeral_2_eq_2)
    then show ?thesis
      unfolding unf Let_def using True x hd by (simp add: lastIndexOf_absent)
  next
    case False
    have l: "nat (1 + int (length (pjoin M))) = length (CHAR_FORWARD_SLASH # pjoin M)" by simp
    have "posix_rel_end (CHAR_FORWARD_SLASH # pjoin (M @ F)) (CHAR_FORWARD_SLASH # pjoin M) 1 1
        (int (length (pjoin M))) =
      pjoin (dotdots (length F)) @ drop (nat (1 + int (length (pjoin M)))) (CHAR_FORWARD_SLASH # pjoin M)"
      using assms False
      by (intro posix_rel_end_join[OF pl(2), of _ "CHAR_FORWARD_SLASH # pjoin M @ [CHAR_FORWARD_SLASH]"])
        (simp_all add: joinOn_append)
    then show ?thesis
      unfolding unf Let_def l using False x by simp
  qed
qed

text \<open>The character comparison computes the relative segment list.\<close>

lemma posix_relative_resolved_segs:
  assumes "plain_segs F" "plain_segs T"
  shows "posix_relative_resolved (CHAR_FORWARD_SLASH # pjoin F) (CHAR_FORWARD_SLASH # pjoin T) =
    pjoin (prel F T)"
proof -
  obtain M f t where s: "F = M @ f" "T = M @ t" "f = [] \<or> t = [] \<or> hd f \<noteq> hd t"
    by (rule common_prefix)
  note rel = prel_split[OF s(3), of M, folded s(1,2)]
  consider (eq) "f = []" "t = []" | (down) "f = []" "t \<noteq> []" | (up) "f \<noteq> []" "t = []"
    | (both) "f \<noteq> []" "t \<noteq> []" "hd f \<noteq> hd t" using s(3) by blast
  then show ?thesis
  proof cases
    case eq
    then show ?thesis using rel s by (simp add: posix_relative_resolved_def)
  next
    case down
    then show ?thesis using rel s assms posix_relative_down[of M t] by simp
  next
    case up
    then show ?thesis using rel s assms posix_relative_up[of M f] by simp
  next
    case both
    have "pjoin (dotdots (length f) @ t) = pjoin (dotdots (length f)) @ CHAR_FORWARD_SLASH # pjoin t"
      using both by (intro joinOn_append) simp_all
    then show ?thesis using both rel s assms posix_relative_both[of M f t] by simp
  qed
qed

text \<open>Walking back up and down again.\<close>

lemma push_dotdots:
  assumes "normal_segs False (M @ x)"
  shows "foldl (push_seg False) (M @ x) (dotdots (length x)) = M"
  using assms
proof (induction x rule: rev_induct)
  case (snoc a x)
  have "a \<noteq> [CHAR_DOT, CHAR_DOT]" using snoc.prems by (simp add: normal_segs_False_iff)
  then have "push_seg False (M @ x @ [a]) [CHAR_DOT, CHAR_DOT] = M @ x"
    by (simp add: push_seg_def butlast_append)
  moreover have "normal_segs False (M @ x)" using snoc.prems by (simp add: normal_segs_False_iff)
  ultimately show ?case using snoc.IH by simp
qed simp

lemma push_normals:
  assumes "normal_segs False (M @ y)"
  shows "foldl (push_seg False) M y = M @ y"
  using assms
proof (induction y arbitrary: M)
  case (Cons a y)
  then have "push_seg False M a = M @ [a]" by (simp add: push_seg_def normal_segs_False_iff)
  then show ?case using Cons.IH[of "M @ [a]"] Cons.prems by simp
qed simp

lemma prel_correct:
  assumes "normal_segs False F" "normal_segs False T"
  shows "foldl (push_seg False) F (prel F T) = T"
proof -
  obtain M x y where s: "F = M @ x" "T = M @ y" "x = [] \<or> y = [] \<or> hd x \<noteq> hd y"
    by (rule common_prefix)
  then show ?thesis
    using assms prel_split[OF s(3), of M] by (simp add: push_dotdots push_normals)
qed

lemma prel_plain: "plain_segs T \<Longrightarrow> plain_segs (prel F T)"
  by (auto simp: prel_def plain_segs_def Let_def dest: in_set_dropD split: if_splits)

lemma posix_split_pjoin:
  "plain_segs xs \<Longrightarrow> xs \<noteq> [] \<Longrightarrow> splitOn isPosixPathSeparator (pjoin xs) = xs"
  by (rule splitOn_joinOn) (auto simp: plain_segs_def isPosixPathSeparator_def)

lemma posix_cd_pjoin:
  assumes "plain_segs xs"
  shows "posix_cd st (pjoin xs) = foldl (push_seg False) st xs"
proof (cases "xs = []")
  case False
  then show ?thesis
    using assms pjoin_hd[OF assms False] by (simp add: posix_cd_def posix_split_pjoin)
qed simp

lemma posix_cd_plain:
  "plain_segs (foldl posix_cd (posix_segs False c) ps)"
proof -
  have "\<forall>x\<in>set (posix_segs False c). \<forall>d\<in>set x. \<not> isPosixPathSeparator d"
    using posix_fl.segs_free by blast
  then have "\<forall>x\<in>set (foldl posix_cd (posix_segs False c) ps). \<forall>d\<in>set x. \<not> isPosixPathSeparator d"
    by (rule posix_cd_free)
  moreover have "normal_segs False (foldl posix_cd (posix_segs False c) ps)"
    by (intro posix_cd_normal resolve_segs_normal)
  ultimately show ?thesis
    by (auto simp: plain_segs_def isPosixPathSeparator_def normal_segs_False_iff)
qed

text \<open>C23.  Following the result of \<^verbatim>\<open>relative\<close> from its first argument leads to the second one.\<close>

theorem posix_relative_correct:
  "\<exists>r. posix_relative (CHAR_FORWARD_SLASH # c) (JStr f) (JStr t) = Inr r \<and>
       posix_resolve (CHAR_FORWARD_SLASH # c) [JStr f, JStr r] =
       posix_resolve (CHAR_FORWARD_SLASH # c) [JStr t]"
proof -
  let ?C = "posix_segs False c"
  have res: "posix_resolve (CHAR_FORWARD_SLASH # c) [JStr p] =
      Inr (CHAR_FORWARD_SLASH # pjoin (posix_cd ?C p))" for p
    using posix_resolve_cd[of c "[p]"] by simp
  have res2: "posix_resolve (CHAR_FORWARD_SLASH # c) [JStr p, JStr q] =
      Inr (CHAR_FORWARD_SLASH # pjoin (posix_cd (posix_cd ?C p) q))" for p q
    using posix_resolve_cd[of c "[p, q]"] by simp
  show ?thesis
  proof (cases "f = t")
    case True
    then show ?thesis using res res2 by (simp add: posix_relative_def assertPath_def)
  next
    case False
    let ?F = "posix_cd ?C f" and ?T = "posix_cd ?C t"
    have pl: "plain_segs ?F" "plain_segs ?T"
      using posix_cd_plain[of c "[f]"] posix_cd_plain[of c "[t]"] by simp_all
    have nm: "normal_segs False ?F" "normal_segs False ?T"
      using posix_cd_normal[of ?C "[f]"] posix_cd_normal[of ?C "[t]"]
      by (simp_all add: resolve_segs_normal)
    have "posix_relative (CHAR_FORWARD_SLASH # c) (JStr f) (JStr t) = Inr (pjoin (prel ?F ?T))"
      using False pl by (simp add: posix_relative_def assertPath_def res posix_relative_resolved_segs)
    moreover have "posix_cd ?F (pjoin (prel ?F ?T)) = ?T"
      using pl nm by (simp add: posix_cd_pjoin prel_plain prel_correct)
    ultimately show ?thesis by (simp add: res res2)
  qed
qed

end
