(* ===== verification/Path_Names.thy ===== *)
theory Path_Names
  imports Path_Posix
begin

text \<open>
  The operations of the POSIX flavour that look at the last component of a path: \<^verbatim>\<open>dirname\<close>,
  \<^verbatim>\<open>basename\<close>, \<^verbatim>\<open>extname\<close>, \<^verbatim>\<open>parse\<close> and \<^verbatim>\<open>format\<close>, and how their results fit together.
\<close>

section \<open>What the component is\<close>

lemma posix_sep_iff [simp]: "isPosixPathSeparator c \<longleftrightarrow> c = CHAR_FORWARD_SLASH"
  by (simp add: isPosixPathSeparator_def)

lemma charCodeAt_hd: "charCodeAt p 0 = Some c \<longleftrightarrow> p \<noteq> [] \<and> hd p = c"
  by (cases p) simp_all

lemma posix_basename_component:
  assumes "component isPosixPathSeparator 0 p pre seg tail"
  shows "posix_basename_str p None = seg"
  using basename_plain_component[OF assms] by (simp add: posix_basename_str_def)

lemma posix_extname_component:
  assumes c: "component isPosixPathSeparator 0 p pre seg tail"
  shows "posix_extname_str p = ext_of seg"
proof -
  let ?st = "ext_run_state (length pre) (length pre + length seg) (length pre) seg"
  have st: "ext_scan isPosixPathSeparator p 0 0 = ?st"
    using ext_scan_component[OF c, of 0] by (cases "pre = []") simp_all
  have seg: "seg \<noteq> []" using c by (simp add: component_def)
  note no = no_ext_iff[OF seg refl]
  show ?thesis
  proof (cases "ext_of seg = []")
    case True
    then show ?thesis using no by (simp add: posix_extname_str_def st Let_def)
  next
    case False
    then obtain k where k: "lastIndexOf seg CHAR_DOT = int k" "0 < k"
      "ext_of seg = drop k seg"
      by (auto simp: ext_of_def Let_def split: if_splits)
        (metis int_nat_eq less_le_not_le linorder_not_less nat_less_iff of_nat_0 zero_less_nat_eq)
    have "slice p (length pre + k) (length pre + length seg) = drop k seg"
      using component_slices(2)[OF c] lastIndexOf_nth[OF k(1)]
      by (simp add: slice_def add.commute[of "length pre"] flip: drop_drop)
    then show ?thesis
      using False no k
      by (simp add: posix_extname_str_def st Let_def ext_run_state_def nat_int_add)
  qed
qed

lemma posix_seps_names:
  assumes "\<forall>c\<in>set p. isPosixPathSeparator c"
  shows "posix_basename_str p None = []" "posix_extname_str p = []"
  using basename_plain_seps[of 0 p isPosixPathSeparator] ext_scan_seps[of 0 p isPosixPathSeparator 0] assms
  by (simp_all add: posix_basename_str_def posix_extname_str_def no_ext_def)

text \<open> \<^verbatim>\<open>extname\<close> is the extension of \<^verbatim>\<open>basename\<close>.\<close>

theorem posix_extname_spec: "posix_extname_str p = ext_of (posix_basename_str p None)"
proof -
  consider "\<forall>c\<in>set (drop 0 p). isPosixPathSeparator c"
    | pre seg tail where "component isPosixPathSeparator 0 p pre seg tail"
    by (rule component_cases[of 0 p isPosixPathSeparator]) auto
  then show ?thesis
  proof cases
    case 1
    then show ?thesis using posix_seps_names[of p] by (simp add: ext_of_def)
  qed (simp add: posix_basename_component posix_extname_component)
qed

text \<open>
   \<^verbatim>\<open>basename\<close>: the last segment; a given extension is taken away when it is a proper
  suffix of the segment, and a segment that is a proper suffix of the extension comes back with the
  separators after it.
\<close>

theorem posix_basename_spec:
  assumes "p = pre @ seg @ replicate k CHAR_FORWARD_SLASH"
    and "seg \<noteq> []" "CHAR_FORWARD_SLASH \<notin> set seg" "pre = [] \<or> last pre = CHAR_FORWARD_SLASH"
  shows "posix_basename_str p None = seg \<and>
    posix_basename_str p (Some e) =
      (if e = [] \<or> length p < length e then seg
       else if e = p then []
       else if e = seg then seg
       else if suffix e seg then take (length seg - length e) seg
       else if suffix seg e then seg @ replicate k CHAR_FORWARD_SLASH
       else seg)"
proof -
  have c: "component isPosixPathSeparator 0 p pre seg (replicate k CHAR_FORWARD_SLASH)"
    using assms by (auto simp: component_def)
  show ?thesis
    using posix_basename_component[OF c] basename_plain_component[OF c] basename_ext_component[OF c, of e]
    by (auto simp: posix_basename_str_def)
qed

lemma posix_basename_spec_witness:
  "posix_basename_str (js ''dir/js/'') (Some (js ''.js'')) = js ''js/'' \<and>
   posix_basename_str (js ''dir/a.js/'') (Some (js ''.js'')) = js ''a''"
  using posix_basename_spec[of "js ''dir/js/''" "js ''dir/''" "js ''js''" 1 "js ''.js''"]
    posix_basename_spec[of "js ''dir/a.js/''" "js ''dir/''" "js ''a.js''" 1 "js ''.js''"]
  by (simp add: suffix_def)

text \<open>Normalisation depends on the segments and on the separators at the two ends only.\<close>

lemma posix_normalize_cong:
  assumes "p \<noteq> []" "q \<noteq> []" "hd p = CHAR_FORWARD_SLASH \<longleftrightarrow> hd q = CHAR_FORWARD_SLASH"
    and "last p = CHAR_FORWARD_SLASH \<longleftrightarrow> last q = CHAR_FORWARD_SLASH"
    and "\<And>allow. posix_segs allow p = posix_segs allow q"
  shows "posix_normalize_str p = posix_normalize_str q"
  unfolding posix_normalize_str_spec posix_normalize_spec_def using assms
  by (simp only: if_False)

lemma posix_dirname_component:
  assumes c: "component isPosixPathSeparator 0 p pre seg tail"
  shows "posix_dirname_str p =
    (if length pre \<le> 1 then (if pre = [] then [CHAR_DOT] else pre)
     else if pre = [CHAR_FORWARD_SLASH, CHAR_FORWARD_SLASH] then pre
     else butlast pre)"
proof -
  have p: "p = pre @ seg @ tail" "seg \<noteq> []" "\<forall>c\<in>set seg. c \<noteq> CHAR_FORWARD_SLASH"
    "\<forall>c\<in>set tail. c = CHAR_FORWARD_SLASH" "pre = [] \<or> last pre = CHAR_FORWARD_SLASH"
    using c by (auto simp: component_def)
  then have ne: "p \<noteq> []" by simp
  have hs: "hd seg \<noteq> CHAR_FORWARD_SLASH" using p by simp
  show ?thesis
  proof (cases "pre = []")
    case True
    have "dirname_end isPosixPathSeparator p 1 = -1"
    proof (cases "tl seg = []")
      case one: True
      then have "drop 1 p = tail" using p True by (cases seg) auto
      then show ?thesis using p ne by (intro dirname_end_seps) (simp_all add: Suc_le_eq)
    next
      case False
      then have "component isPosixPathSeparator 1 p [hd seg] (tl seg) tail"
        using p True by (cases seg) (auto simp: component_def)
      then show ?thesis by (simp add: dirname_end_component)
    qed
    moreover have "charCodeAt p 0 \<noteq> Some CHAR_FORWARD_SLASH"
      unfolding charCodeAt_hd using True p hs by simp
    ultimately show ?thesis
      using True ne by (simp add: posix_dirname_str_def Let_def del: charCodeAt_Some)
  next
    case False
    then have "component isPosixPathSeparator 1 p pre seg tail"
      using p by (auto simp: component_def Suc_le_eq)
    note e = dirname_end_component[OF this]
    obtain a r where a: "pre = a # r" using False by (cases pre) auto
    have last: "last pre = CHAR_FORWARD_SLASH" using p False by simp
    show ?thesis
    proof (cases "r = []")
      case True
      then show ?thesis using a last e p by (simp add: posix_dirname_str_def charCodeAt_hd Let_def)
    next
      case False
      then obtain b r' where r: "r = b # r'" by (cases r) auto
      have sl: "take (length pre - 1) p = butlast pre"
        using p(1) by (simp add: butlast_conv_take)
      obtain n where n: "length pre = Suc n" "0 < n" using a r by simp
      have e': "dirname_end isPosixPathSeparator p 1 = int n" "take n p = butlast pre"
        using e n sl by simp_all
      have root: "charCodeAt p 0 = Some CHAR_FORWARD_SLASH \<longleftrightarrow> a = CHAR_FORWARD_SLASH"
        using p(1) a by simp
      have "pre = [CHAR_FORWARD_SLASH, CHAR_FORWARD_SLASH] \<longleftrightarrow> a = CHAR_FORWARD_SLASH \<and> n = 1"
        using a r last n by auto
      moreover have "pre \<noteq> []" using a by simp
      ultimately show ?thesis
        using ne e' n root by (auto simp: posix_dirname_str_def Let_def simp del: charCodeAt_Some)
    qed
  qed
qed

lemma component_unique:
  assumes "component isSep 0 p pre seg tail" "component isSep 0 p pre' seg' tail'"
  shows "pre = pre'" "seg = seg'"
proof -
  have e: "dirname_end isSep p 0 = int (length pre) - 1" "dirname_end isSep p 0 = int (length pre') - 1"
    using dirname_end_component[OF assms(1)] dirname_end_component[OF assms(2)] by (simp_all split: if_splits)
  then show "pre = pre'" using assms by (auto simp: component_def)
  show "seg = seg'"
    using basename_plain_component[OF assms(1)] basename_plain_component[OF assms(2)] by simp
qed

lemma component_trim:
  assumes "q \<noteq> []" "last q \<noteq> CHAR_FORWARD_SLASH"
  obtains pre seg where "q = pre @ seg"
    "\<And>k. component isPosixPathSeparator 0 (q @ replicate k CHAR_FORWARD_SLASH) pre seg
       (replicate k CHAR_FORWARD_SLASH)"
proof -
  obtain a b where ab: "q = a @ b" "\<forall>c\<in>set b. c \<noteq> CHAR_FORWARD_SLASH"
    "a = [] \<or> \<not> last a \<noteq> CHAR_FORWARD_SLASH"
    by (rule split_suffix[of q "\<lambda>c. c \<noteq> CHAR_FORWARD_SLASH"])
  then have "b \<noteq> []" using assms by auto
  then show thesis using that[of a b] ab by (auto simp: component_def)
qed

text \<open>
   \<^verbatim>\<open>dirname\<close> and \<^verbatim>\<open>basename\<close> take a path apart: joining the two gives the normalised path,
  whatever the number of separators at its end.
\<close>

theorem posix_dirname_basename_join:
  assumes "q \<noteq> []" "last q \<noteq> CHAR_FORWARD_SLASH"
    and p_def: "p = q @ replicate k CHAR_FORWARD_SLASH"
  shows "posix_join [JStr (posix_dirname_str p), JStr (posix_basename_str p None)] =
    posix_normalize (JStr q)"
proof -
  obtain pre seg where q: "q = pre @ seg"
    and c: "component isPosixPathSeparator 0 p pre seg (replicate k CHAR_FORWARD_SLASH)"
    unfolding p_def using component_trim[OF assms(1,2)] by metis
  have seg: "seg \<noteq> []" "last seg \<noteq> CHAR_FORWARD_SLASH" "hd seg \<noteq> CHAR_FORWARD_SLASH"
    using c by (auto simp: component_def)
  have pre: "pre = [] \<or> last pre = CHAR_FORWARD_SLASH" using c by (auto simp: component_def)
  let ?d = "posix_dirname_str p"
  note d = posix_dirname_component[OF c]
  have dne: "?d \<noteq> []"
    unfolding d by (cases pre rule: rev_cases) (auto simp: Suc_le_eq)
  have join: "posix_join [JStr ?d, JStr seg] = Inr (posix_normalize_str (?d @ CHAR_FORWARD_SLASH # seg))"
    using posix_join_strings[of "[?d, seg]"] dne seg by simp
  have "posix_normalize_str (?d @ CHAR_FORWARD_SLASH # seg) = posix_normalize_str q"
  proof (rule posix_normalize_cong)
    consider "pre = []" | "pre = [CHAR_FORWARD_SLASH]"
      | "pre = [CHAR_FORWARD_SLASH, CHAR_FORWARD_SLASH]"
      | (long) "length pre \<ge> 2" "pre \<noteq> [CHAR_FORWARD_SLASH, CHAR_FORWARD_SLASH]"
      using pre by (cases pre; cases "tl pre") auto
    then have "(hd (?d @ CHAR_FORWARD_SLASH # seg) = CHAR_FORWARD_SLASH \<longleftrightarrow>
        hd q = CHAR_FORWARD_SLASH) \<and>
      (\<forall>allow. posix_segs allow (?d @ CHAR_FORWARD_SLASH # seg) = posix_segs allow q)"
    proof cases
      case long
      then have "?d @ [CHAR_FORWARD_SLASH] = pre" unfolding d using pre
        by (cases pre rule: rev_cases) auto
      then have "?d @ CHAR_FORWARD_SLASH # seg = q" unfolding q by simp
      then show ?thesis by simp
    qed (use seg in \<open>simp_all add: d q resolve_segs_def push_seg_def\<close>)
    then show "hd (?d @ CHAR_FORWARD_SLASH # seg) = CHAR_FORWARD_SLASH \<longleftrightarrow> hd q = CHAR_FORWARD_SLASH"
      "\<And>allow. posix_segs allow (?d @ CHAR_FORWARD_SLASH # seg) = posix_segs allow q" by auto
  qed (use assms seg in auto)
  then show ?thesis
    by (simp add: posix_basename_component[OF c] join posix_normalize_def assertPath_def)
qed


lemma posix_dirname_basename_join_witness:
  "posix_join [JStr (posix_dirname_str (js ''/a/../b//'')), JStr (posix_basename_str (js ''/a/../b//'') None)] =
    posix_normalize (JStr (js ''/a/../b''))"
  by (rule posix_dirname_basename_join[of _ _ 2]) (simp_all add: numeral_2_eq_2)

section \<open>parse and format\<close>

lemma ext_of_cut:
  assumes "ext_of seg \<noteq> []"
  obtains k where "lastIndexOf seg CHAR_DOT = int k" "0 < k" "k < length seg"
    "ext_of seg = drop k seg" "stem_of seg = take k seg"
proof -
  let ?i = "lastIndexOf seg CHAR_DOT"
  have pos: "0 < ?i" "ext_of seg = drop (nat ?i) seg"
    using assms by (auto simp: ext_of_def Let_def split: if_splits)
  then have "?i = int (nat ?i)" by simp
  moreover from lastIndexOf_nth[OF this] have "nat ?i < length seg" by simp
  ultimately show thesis using that[of "nat ?i"] pos by (simp add: stem_of_def)
qed

text \<open>The extension and the name as the scan state gives them.\<close>

lemma ext_run_slices:
  assumes c: "component isSep lim p pre seg tail" and e: "ext_of seg \<noteq> []"
    and st: "st = ext_run_state part (length pre + length seg) (length pre) seg"
  shows "slice p (nat (startDot st)) (nat (eend st)) = ext_of seg"
    "slice p (length pre) (nat (startDot st)) = stem_of seg"
proof -
  obtain k where k: "lastIndexOf seg CHAR_DOT = int k" "0 < k" "k < length seg"
    "ext_of seg = drop k seg" "stem_of seg = take k seg"
    by (rule ext_of_cut[OF e])
  have sd: "nat (startDot st) = length pre + k" "nat (eend st) = length pre + length seg"
    using k by (simp_all add: st ext_run_state_def nat_add_distrib)
  have p: "p = pre @ seg @ tail" using c by (simp add: component_def)
  show "slice p (nat (startDot st)) (nat (eend st)) = ext_of seg"
    "slice p (length pre) (nat (startDot st)) = stem_of seg"
    unfolding sd k(4,5) p using k(3) by (simp_all add: slice_def)
qed

lemma no_ext_root:
  assumes "seg \<noteq> []"
  shows "no_ext (ext_run_state 0 (Suc (length seg)) 1 seg) \<longleftrightarrow>
    ext_of seg = [] \<and> seg \<noteq> [CHAR_DOT, CHAR_DOT]"
proof (cases "lastIndexOf seg CHAR_DOT \<le> 0")
  case True
  then have "seg \<noteq> [CHAR_DOT, CHAR_DOT]" by auto
  then show ?thesis using True by (auto simp: no_ext_def ext_run_state_def ext_of_def Let_def)
next
  case False
  then obtain k where "lastIndexOf seg CHAR_DOT = int k" "0 < k"
    using zero_less_imp_eq_int[of "lastIndexOf seg CHAR_DOT"] by auto
  moreover note lastIndexOf_nth[OF this(1)]
  ultimately show ?thesis
    by (auto simp: no_ext_def ext_run_state_def ext_of_def Let_def)
qed

lemma posix_parse_component:
  assumes c: "component isPosixPathSeparator 0 p pre seg tail"
  shows "posix_parse_str p =
    \<lparr>po_root = Some (if hd p = CHAR_FORWARD_SLASH then [CHAR_FORWARD_SLASH] else []),
     po_dir = Some (if 1 < length pre then butlast pre else pre),
     po_base = Some seg,
     po_ext = Some (if pre = [CHAR_FORWARD_SLASH] \<and> seg = [CHAR_DOT, CHAR_DOT] then [CHAR_DOT]
                    else ext_of seg),
     po_name = Some (if pre = [CHAR_FORWARD_SLASH] \<and> seg = [CHAR_DOT, CHAR_DOT] then [CHAR_DOT]
                    else stem_of seg)\<rparr>"
proof -
  have p: "p = pre @ seg @ tail" "seg \<noteq> []" "CHAR_FORWARD_SLASH \<notin> set seg"
    "pre = [] \<or> last pre = CHAR_FORWARD_SLASH"
    using c by (auto simp: component_def)
  have ne: "p \<noteq> []" using p by simp
  have hs: "hd seg \<noteq> CHAR_FORWARD_SLASH" using p by (cases seg) auto
  let ?abs = "hd p = CHAR_FORWARD_SLASH"
  have root: "charCodeAt p 0 = Some CHAR_FORWARD_SLASH \<longleftrightarrow> ?abs" using ne by (cases p) simp_all
  have abs1: "length pre = 1 \<Longrightarrow> ?abs \<and> pre = [CHAR_FORWARD_SLASH]"
    using p by (cases pre) auto
  have c': "component isPosixPathSeparator (if ?abs then 1 else 0) p pre seg tail"
    using c hs p(1,4) by (cases pre) (auto simp: component_def)
  have pre0: "pre = [] \<Longrightarrow> \<not> ?abs" using hs p by simp
  let ?part = "if (if ?abs then 1 else 0) < length pre then length pre else 0"
  define st where "st = ext_run_state ?part (length pre + length seg) (length pre) seg"
  have scan: "ext_scan isPosixPathSeparator p (if ?abs then 1 else 0) 0 = st"
    unfolding st_def by (rule ext_scan_component[OF c'])
  have part: "startPart st = (if 1 < length pre then length pre else 0)"
    using abs1 pre0 by (cases pre; cases "tl pre") (auto simp: st_def ext_run_state_def Let_def)
  have part': "(if startPart st = 0 \<and> ?abs then 1 else startPart st) = length pre"
    using part abs1 pre0 by (cases pre; cases "tl pre") auto
  have eend: "nat (eend st) = length pre + length seg" "eend st \<noteq> -1"
    by (simp_all add: st_def ext_run_state_def Let_def)
  have base: "slice p (length pre) (nat (eend st)) = seg"
    unfolding eend by (rule component_slices(3)[OF c])
  have dir: "take (length pre - 1) p = butlast pre" if "pre \<noteq> []"
    using p(1) that by (simp add: butlast_conv_take)
  have no: "no_ext st \<longleftrightarrow> ext_of seg = [] \<and> \<not> (pre = [CHAR_FORWARD_SLASH] \<and> seg = [CHAR_DOT, CHAR_DOT])"
  proof (cases "length pre = 1")
    case True
    then have "st = ext_run_state 0 (Suc (length seg)) 1 seg" using abs1 by (simp add: st_def)
    then show ?thesis using no_ext_root[OF p(2)] abs1[OF True] by simp
  next
    case False
    then have "?part = length pre" by (cases pre) auto
    then show ?thesis using no_ext_iff[OF p(2), of "?part" "length pre"] False by (auto simp: st_def)
  qed
  let ?sp = "pre = [CHAR_FORWARD_SLASH] \<and> seg = [CHAR_DOT, CHAR_DOT]"
  have sl: "slice p (nat (startDot st)) (nat (eend st)) = (if ?sp then [CHAR_DOT] else ext_of seg)"
    "slice p (length pre) (nat (startDot st)) = (if ?sp then [CHAR_DOT] else stem_of seg)"
    if n: "\<not> no_ext st"
  proof -
    have "slice p (nat (startDot st)) (nat (eend st)) = (if ?sp then [CHAR_DOT] else ext_of seg) \<and>
      slice p (length pre) (nat (startDot st)) = (if ?sp then [CHAR_DOT] else stem_of seg)"
    proof (cases ?sp)
      case True
      then have "startDot st = 2" "eend st = 3" by (simp_all add: st_def ext_run_state_def Let_def)
      then show ?thesis using True p(1) by (simp add: slice_def)
    next
      case False
      then have "ext_of seg \<noteq> []" using n no by simp
      from ext_run_slices[OF c this st_def] show ?thesis unfolding if_not_P[OF False] by blast
    qed
    then show "slice p (nat (startDot st)) (nat (eend st)) = (if ?sp then [CHAR_DOT] else ext_of seg)"
      "slice p (length pre) (nat (startDot st)) = (if ?sp then [CHAR_DOT] else stem_of seg)" by simp_all
  qed
  have stem: "ext_of seg = [] \<Longrightarrow> stem_of seg = seg" by (simp add: stem_of_def)
  have dir': "(if 0 < startPart st then q\<lparr>po_dir := Some (take (startPart st - 1) p)\<rparr>
        else if ?abs then q\<lparr>po_dir := Some [CHAR_FORWARD_SLASH]\<rparr> else q) =
      q\<lparr>po_dir := Some (if 1 < length pre then butlast pre else pre)\<rparr>"
    if "po_dir q = Some []" for q
  proof -
    consider "pre = []" | "length pre = 1" | "1 < length pre" by (cases pre) auto
    then show ?thesis
    proof cases
      case 1
      then show ?thesis using pre0 part that by simp
    next
      case 2
      then show ?thesis using abs1 part by simp
    next
      case 3
      then show ?thesis using dir part by (cases pre) simp_all
    qed
  qed
  let ?r = "if ?abs then empty_path_object\<lparr>po_root := Some [CHAR_FORWARD_SLASH]\<rparr> else empty_path_object"
  have r: "?r = empty_path_object\<lparr>po_root := Some (if ?abs then [CHAR_FORWARD_SLASH] else [])\<rparr>"
    by (simp add: empty_path_object_def)
  have d0: "po_dir empty_path_object = Some []" by (simp add: empty_path_object_def)
  show ?thesis
  proof (cases "no_ext st")
    case True
    have "posix_parse_str p = ?r\<lparr>po_base := Some seg, po_name := Some seg,
        po_dir := Some (if 1 < length pre then butlast pre else pre)\<rparr>"
      unfolding posix_parse_str_def root Let_def scan part' base slice_0 r
      using True ne eend(2) by (simp only: if_True if_False length_0_conv simp_thms) (subst dir'; simp add: d0)
    then show ?thesis
      using True no stem unfolding r by (simp add: empty_path_object_def)
  next
    case False
    have "posix_parse_str p = ?r\<lparr>po_name := Some (slice p (length pre) (nat (startDot st))),
        po_base := Some seg, po_ext := Some (slice p (nat (startDot st)) (nat (eend st))),
        po_dir := Some (if 1 < length pre then butlast pre else pre)\<rparr>"
      unfolding posix_parse_str_def root Let_def scan part' base slice_0 r
      using False ne by (simp only: if_True if_False length_0_conv simp_thms) (subst dir'; simp add: d0)
    then show ?thesis
      unfolding r sl[OF False] by (simp add: empty_path_object_def)
  qed
qed


lemma posix_parse_seps:
  assumes "p \<noteq> []" "\<forall>c\<in>set p. c = CHAR_FORWARD_SLASH"
  shows "posix_parse_str p =
    empty_path_object\<lparr>po_root := Some [CHAR_FORWARD_SLASH], po_dir := Some [CHAR_FORWARD_SLASH]\<rparr>"
proof -
  have root: "charCodeAt p 0 = Some CHAR_FORWARD_SLASH" using assms by (cases p) simp_all
  have scan: "ext_scan isPosixPathSeparator p 1 0 =
      \<lparr>startDot = -1, startPart = 0, eend = -1, ematched = True, preDotState = 0\<rparr>"
    using assms by (intro ext_scan_seps) (auto simp: Suc_le_eq dest: in_set_dropD)
  show ?thesis
    unfolding posix_parse_str_def root Let_def simp_thms if_True scan using assms
    by (simp add: no_ext_def)
qed

text \<open>Every path is empty, or separators only, or ends in a component.\<close>

lemma posix_path_cases:
  obtains (empty) "p = []" | (seps) "p \<noteq> []" "\<forall>c\<in>set p. c = CHAR_FORWARD_SLASH"
  | (comp) pre seg tail where "component isPosixPathSeparator 0 p pre seg tail"
proof (cases "p = []")
  case False
  show thesis
    by (rule component_cases[of 0 p isPosixPathSeparator]) (use seps False comp in auto)
qed (rule empty)

text \<open>
   \<^verbatim>\<open>parse\<close> agrees with \<^verbatim>\<open>basename\<close> and \<^verbatim>\<open>extname\<close>, and the name and the extension make up
  the base.  The one exception is the path \<^verbatim>\<open>/..\<close> (with any number of separators after it), whose
  extension \<^verbatim>\<open>parse\<close> gives as a dot where \<^verbatim>\<open>extname\<close> gives none.
\<close>

theorem posix_parse_agrees:
  "po_base (posix_parse_str p) = Some (posix_basename_str p None) \<and>
   the (po_name (posix_parse_str p)) @ the (po_ext (posix_parse_str p)) = posix_basename_str p None \<and>
   (po_ext (posix_parse_str p) = Some (posix_extname_str p) \<longleftrightarrow>
      \<not> (\<exists>k. p = js ''/..'' @ replicate k CHAR_FORWARD_SLASH))"
proof (cases rule: posix_path_cases[of p])
  case empty
  then show ?thesis
    using posix_seps_names[of p] by (simp add: posix_parse_str_def empty_path_object_def)
next
  case seps
  then have "\<not> (\<exists>k. p = js ''/..'' @ replicate k CHAR_FORWARD_SLASH)" by auto
  then show ?thesis
    using seps posix_seps_names[of p] by (simp add: posix_parse_seps empty_path_object_def)
next
  case (comp pre seg tail)
  have p: "p = pre @ seg @ tail" "\<forall>c\<in>set tail. c = CHAR_FORWARD_SLASH" "CHAR_FORWARD_SLASH \<notin> set seg"
    "seg \<noteq> []" "pre = [] \<or> last pre = CHAR_FORWARD_SLASH"
    using comp by (auto simp: component_def)
  have join: "stem_of seg @ ext_of seg = seg"
    by (cases "ext_of seg = []") (auto simp: stem_of_def elim!: ext_of_cut)
  have tail: "tail = replicate (length tail) CHAR_FORWARD_SLASH"
    using p(2) by (simp add: replicate_length_same)
  have dd: "ext_of [CHAR_DOT, CHAR_DOT] = []" by (simp add: ext_of_def)
  have "pre = [CHAR_FORWARD_SLASH] \<and> seg = [CHAR_DOT, CHAR_DOT] \<longleftrightarrow>
      (\<exists>k. p = js ''/..'' @ replicate k CHAR_FORWARD_SLASH)"
  proof
    assume "pre = [CHAR_FORWARD_SLASH] \<and> seg = [CHAR_DOT, CHAR_DOT]"
    then have "p = js ''/..'' @ replicate (length tail) CHAR_FORWARD_SLASH"
      using p(1) tail by simp
    then show "\<exists>k. p = js ''/..'' @ replicate k CHAR_FORWARD_SLASH" by blast
  next
    assume "\<exists>k. p = js ''/..'' @ replicate k CHAR_FORWARD_SLASH"
    then obtain k where k: "p = [CHAR_FORWARD_SLASH] @ [CHAR_DOT, CHAR_DOT] @ replicate k CHAR_FORWARD_SLASH"
      by auto
    then have "component isPosixPathSeparator 0 p [CHAR_FORWARD_SLASH] [CHAR_DOT, CHAR_DOT]
        (replicate k CHAR_FORWARD_SLASH)" by (simp add: component_def)
    from component_unique[OF comp this]
    show "pre = [CHAR_FORWARD_SLASH] \<and> seg = [CHAR_DOT, CHAR_DOT]" by simp
  qed
  moreover have "[CHAR_DOT] \<noteq> ext_of seg" if "seg = [CHAR_DOT, CHAR_DOT]" using that dd by simp
  ultimately show ?thesis
    using join
    unfolding posix_parse_component[OF comp] posix_basename_component[OF comp]
      posix_extname_component[OF comp]
    by (cases "pre = [CHAR_FORWARD_SLASH] \<and> seg = [CHAR_DOT, CHAR_DOT]") auto
qed

lemma path_format_full:
  "b \<noteq> [] \<Longrightarrow> path_format sep
     \<lparr>po_root = Some r, po_dir = Some d, po_base = Some b, po_ext = e, po_name = n\<rparr> =
   (if d = [] then r @ b else if d = r then d @ b else d @ sep @ b)"
  by (simp add: path_format_def str_or_def Let_def)

text \<open>
   \<^verbatim>\<open>format\<close> is a left inverse of \<^verbatim>\<open>parse\<close> on the paths without a trailing separator,
  except those of the form \<^verbatim>\<open>//name\<close>.
\<close>

theorem posix_format_parse:
  assumes "p = [] \<or> p = [CHAR_FORWARD_SLASH] \<or> last p \<noteq> CHAR_FORWARD_SLASH"
    and "\<forall>s. p = CHAR_FORWARD_SLASH # CHAR_FORWARD_SLASH # s \<longrightarrow> CHAR_FORWARD_SLASH \<in> set s"
  shows "posix_format (Some (posix_parse_str p)) = Inr p"
proof (cases rule: posix_path_cases[of p])
  case empty
  then show ?thesis
    by (simp add: posix_format_def posix_parse_str_def empty_path_object_def path_format_def str_or_def)
next
  case seps
  then have "last p = CHAR_FORWARD_SLASH" by simp
  then have "p = [CHAR_FORWARD_SLASH]" using assms(1) seps(1) by simp
  moreover note posix_parse_seps[OF seps]
  ultimately show ?thesis
    by (simp only: option.case) (simp add: posix_format_def empty_path_object_def path_format_def str_or_def)
next
  case (comp pre seg tail)
  then have p: "p = pre @ seg @ tail" "\<forall>c\<in>set tail. c = CHAR_FORWARD_SLASH" "CHAR_FORWARD_SLASH \<notin> set seg"
    "seg \<noteq> []" "pre = [] \<or> last pre = CHAR_FORWARD_SLASH"
    by (auto simp: component_def)
  have tail: "tail = []"
  proof (rule ccontr)
    assume "tail \<noteq> []"
    then have "last p = CHAR_FORWARD_SLASH" "p \<noteq> [CHAR_FORWARD_SLASH]" "p \<noteq> []"
      using p by (auto simp: append_eq_Cons_conv)
    then show False using assms(1) by simp
  qed
  have hs: "hd seg \<noteq> CHAR_FORWARD_SLASH" using p by (cases seg) auto
  show ?thesis
  proof (cases "length pre \<le> 1")
    case True
    then have "pre = [] \<or> pre = [CHAR_FORWARD_SLASH]" using p(5) by (cases pre) auto
    then show ?thesis
      unfolding posix_format_def posix_parse_component[OF comp] option.case path_format_full[OF p(4)]
      using p(1) tail hs p(4) by auto
  next
    case False
    then obtain a b r where pre: "pre = a # b # r" by (cases pre; cases "tl pre") auto
    have "pre \<noteq> [CHAR_FORWARD_SLASH, CHAR_FORWARD_SLASH]"
      using assms(2) p(1,3) tail by auto
    then have "butlast pre \<noteq> [CHAR_FORWARD_SLASH]"
      using p(5) pre by (cases r) auto
    moreover have "butlast pre @ [CHAR_FORWARD_SLASH] = pre"
      using p(5) pre append_butlast_last_id[of pre] by simp
    moreover have "butlast pre \<noteq> []" using pre by simp
    ultimately show ?thesis
      unfolding posix_format_def posix_parse_component[OF comp] option.case path_format_full[OF p(4)]
      using False p(1) tail by (auto simp flip: append.assoc)
  qed
qed

lemma posix_format_parse_witness:
  "posix_format (Some (posix_parse_str (js ''/usr//lib/x.js''))) = Inr (js ''/usr//lib/x.js'')"
  by (rule posix_format_parse) simp_all

end
