(* ===== verification/Path_Win32.thy ===== *)
theory Path_Win32
  imports Path_Names
begin

text \<open>
  The Windows flavour of \<^verbatim>\<open>lib_js/path.js\<close> (the object \<^verbatim>\<open>win32\<close>).  What the operations ask of the
  process and of the engine is a record: the current directory, the environment variables
  (\<^verbatim>\<open>process.env['=C:']\<close> keeps the directory of a drive) and \<^verbatim>\<open>toLowerCase\<close>.
\<close>

section \<open>The code\<close>

record process_env =
  env_cwd :: jsstr
  env_var :: "jsstr \<Rightarrow> jsstr option"
  env_lower :: "jsstr \<Rightarrow> jsstr"

definition sepAt :: "jsstr \<Rightarrow> nat \<Rightarrow> bool" where
  "sepAt path i = (case charCodeAt path i of Some c \<Rightarrow> isPathSeparator c | None \<Rightarrow> False)"

definition deviceLetterAt :: "jsstr \<Rightarrow> nat \<Rightarrow> bool" where
  "deviceLetterAt path i = (case charCodeAt path i of Some c \<Rightarrow> isWindowsDeviceRoot c | None \<Rightarrow> False)"

text \<open>
  The three loops that match a UNC root \<^verbatim>\<open>\\server\share\<close> from index 2 on; the result is
  \<open>firstPart\<close> and the variables \<open>last\<close> (here \<open>lst\<close>) and \<open>j\<close> where they stand after the third loop.
\<close>

definition unc_match :: "jsstr \<Rightarrow> (jsstr \<times> nat \<times> nat) option" where
  "unc_match path =
     (let j1 = scanWhile (\<lambda>c. \<not> isPathSeparator c) path 2
      in if j1 < length path \<and> j1 \<noteq> 2 then
           (let j2 = scanWhile isPathSeparator path j1
            in if j2 < length path \<and> j2 \<noteq> j1 then
                 Some (slice path 2 j1, j2, scanWhile (\<lambda>c. \<not> isPathSeparator c) path j2)
               else None)
         else None)"

text \<open>\<^verbatim>\<open>'\\\\' + firstPart + '\\' + share\<close>\<close>

definition unc_device :: "jsstr \<Rightarrow> jsstr \<Rightarrow> jsstr" where
  "unc_device firstPart share =
     [CHAR_BACKWARD_SLASH, CHAR_BACKWARD_SLASH] @ firstPart @ [CHAR_BACKWARD_SLASH] @ share"

text \<open>The root of an argument of \<^verbatim>\<open>resolve\<close>: device, end of the root, absolute.\<close>

definition win32_resolve_root :: "jsstr \<Rightarrow> jsstr \<times> nat \<times> bool" where
  "win32_resolve_root path =
     (if length path > 1 then
        (if sepAt path 0 then
           (if sepAt path 1 then
              (case unc_match path of
                 None \<Rightarrow> ([], 0, True)
               | Some (firstPart, lst, j) \<Rightarrow>
                   if j = length path then (unc_device firstPart (sliceFrom path lst), j, True)
                   else if j \<noteq> lst then (unc_device firstPart (slice path lst j), j, True)
                   else ([], 0, True))
            else ([], 1, True))
         else if deviceLetterAt path 0 \<and> charCodeAt path 1 = Some CHAR_COLON then
           (if length path > 2 \<and> sepAt path 2 then (slice path 0 2, 3, True)
            else (slice path 0 2, 2, False))
         else ([], 0, False))
      else if sepAt path 0 then ([], 1, True)
      else ([], 0, False))"

record win32_resolved =
  resolvedDevice :: jsstr
  resolvedTail :: jsstr
  resolvedAbs :: bool

text \<open>One path of the loop; the second result says whether the loop is left.\<close>

definition win32_resolve_step ::
  "(jsstr \<Rightarrow> jsstr) \<Rightarrow> jsstr \<Rightarrow> win32_resolved \<Rightarrow> win32_resolved \<times> bool"
where
  "win32_resolve_step lower path st =
     (if length path = 0 then (st, False)
      else (case win32_resolve_root path of (device, rootEnd, isAbs) \<Rightarrow>
        if length device > 0 \<and> length (resolvedDevice st) > 0 \<and>
           lower device \<noteq> lower (resolvedDevice st) then (st, False)
        else
          (let st1 = (if length (resolvedDevice st) = 0 \<and> length device > 0
                      then st\<lparr>resolvedDevice := device\<rparr> else st);
               st2 = (if \<not> resolvedAbs st1
                      then st1\<lparr>resolvedTail := sliceFrom path rootEnd @ [CHAR_BACKWARD_SLASH] @
                                 resolvedTail st1,
                               resolvedAbs := isAbs\<rparr>
                      else st1)
           in (st2, length (resolvedDevice st2) > 0 \<and> resolvedAbs st2))))"

text \<open>The path taken at index -1: the directory of the process, or of the drive resolved so far.\<close>

definition win32_cwd :: "process_env \<Rightarrow> jsstr \<Rightarrow> jsstr" where
  "win32_cwd env device =
     (if length device = 0 then env_cwd env
      else
        (let path = (case env_var env ([CHAR_EQUAL] @ device) of
                       Some p \<Rightarrow> if p = [] then env_cwd env else p
                     | None \<Rightarrow> env_cwd env)
         in if env_lower env (slice path 0 3) \<noteq> env_lower env device @ [CHAR_BACKWARD_SLASH]
            then device @ [CHAR_BACKWARD_SLASH] else path))"

fun win32_resolve_loop ::
  "process_env \<Rightarrow> jsval list \<Rightarrow> win32_resolved \<Rightarrow> jserr + win32_resolved"
where
  "win32_resolve_loop env [] st =
     Inr (fst (win32_resolve_step (env_lower env) (win32_cwd env (resolvedDevice st)) st))"
| "win32_resolve_loop env (arg # rest) st =
     ebind (assertPath arg) (\<lambda>path.
       case win32_resolve_step (env_lower env) path st of
         (st', stop) \<Rightarrow> if stop then Inr st' else win32_resolve_loop env rest st')"

definition win32_resolve_end :: "win32_resolved \<Rightarrow> jsstr" where
  "win32_resolve_end st =
     (let tail = normalizeString (resolvedTail st) (\<not> resolvedAbs st) CHAR_BACKWARD_SLASH
                   isPathSeparator;
          r = resolvedDevice st @ (if resolvedAbs st then [CHAR_BACKWARD_SLASH] else []) @ tail
      in if r = [] then [CHAR_DOT] else r)"

definition win32_resolve :: "process_env \<Rightarrow> jsval list \<Rightarrow> jserr + jsstr" where
  "win32_resolve env args =
     ebind (win32_resolve_loop env (rev args)
              \<lparr>resolvedDevice = [], resolvedTail = [], resolvedAbs = False\<rparr>)
       (\<lambda>st. Inr (win32_resolve_end st))"

text \<open>\<^verbatim>\<open>normalize\<close>: the root, or the result itself where the function returns early (\<open>Inl\<close>).\<close>

definition win32_normalize_root :: "jsstr \<Rightarrow> jsstr + (jsstr option \<times> nat \<times> bool)" where
  "win32_normalize_root path =
     (if length path > 1 then
        (if sepAt path 0 then
           (if sepAt path 1 then
              (case unc_match path of
                 None \<Rightarrow> Inr (None, 0, True)
               | Some (firstPart, lst, j) \<Rightarrow>
                   if j = length path
                   then Inl (unc_device firstPart (sliceFrom path lst) @ [CHAR_BACKWARD_SLASH])
                   else if j \<noteq> lst
                   then Inr (Some (unc_device firstPart (slice path lst j)), j, True)
                   else Inr (None, 0, True))
            else Inr (None, 1, True))
         else if deviceLetterAt path 0 \<and> charCodeAt path 1 = Some CHAR_COLON then
           (if length path > 2 \<and> sepAt path 2 then Inr (Some (slice path 0 2), 3, True)
            else Inr (Some (slice path 0 2), 2, False))
         else Inr (None, 0, False))
      else if sepAt path 0 then Inl [CHAR_BACKWARD_SLASH]
      else Inr (None, 0, False))"

definition win32_normalize_tail :: "jsstr \<Rightarrow> nat \<Rightarrow> bool \<Rightarrow> jsstr" where
  "win32_normalize_tail path rootEnd isAbs =
     (let tail1 = (if rootEnd < length path
                   then normalizeString (sliceFrom path rootEnd) (\<not> isAbs) CHAR_BACKWARD_SLASH
                          isPathSeparator
                   else []);
          tail2 = (if length tail1 = 0 \<and> \<not> isAbs then [CHAR_DOT] else tail1)
      in if length tail2 > 0 \<and> sepAt path (length path - 1)
         then tail2 @ [CHAR_BACKWARD_SLASH] else tail2)"

definition win32_normalize_str :: "jsstr \<Rightarrow> jsstr" where
  "win32_normalize_str path =
     (if length path = 0 then [CHAR_DOT]
      else (case win32_normalize_root path of
          Inl r \<Rightarrow> r
        | Inr (device, rootEnd, isAbs) \<Rightarrow>
            (let tail = win32_normalize_tail path rootEnd isAbs
             in case device of
                  None \<Rightarrow>
                    if isAbs then
                      (if length tail > 0 then [CHAR_BACKWARD_SLASH] @ tail
                       else [CHAR_BACKWARD_SLASH])
                    else if length tail > 0 then tail
                    else []
                | Some d \<Rightarrow>
                    if isAbs then
                      (if length tail > 0 then d @ [CHAR_BACKWARD_SLASH] @ tail
                       else d @ [CHAR_BACKWARD_SLASH])
                    else if length tail > 0 then d @ tail
                    else d)))"

definition win32_normalize :: "jsval \<Rightarrow> jserr + jsstr" where
  "win32_normalize path = ebind (assertPath path) (\<lambda>p. Inr (win32_normalize_str p))"

definition win32_isAbsolute_str :: "jsstr \<Rightarrow> bool" where
  "win32_isAbsolute_str path \<longleftrightarrow>
     (if length path = 0 then False
      else if sepAt path 0 then True
      else deviceLetterAt path 0 \<and> length path > 2 \<and> charCodeAt path 1 = Some CHAR_COLON \<and>
           sepAt path 2)"

definition win32_isAbsolute :: "jsval \<Rightarrow> jserr + bool" where
  "win32_isAbsolute path = ebind (assertPath path) (\<lambda>p. Inr (win32_isAbsolute_str p))"

text \<open>\<^verbatim>\<open>join\<close>: the state is \<^verbatim>\<open>(joined, firstPart)\<close>, \<open>None\<close> before the first non-empty argument.\<close>

fun win32_join_loop :: "jsval list \<Rightarrow> (jsstr \<times> jsstr) option \<Rightarrow> jserr + (jsstr \<times> jsstr) option" where
  "win32_join_loop [] acc = Inr acc"
| "win32_join_loop (a # rest) acc =
     ebind (assertPath a) (\<lambda>arg.
       win32_join_loop rest
         (if length arg > 0 then
            (case acc of None \<Rightarrow> Some (arg, arg)
             | Some (joined, firstPart) \<Rightarrow> Some (joined @ [CHAR_BACKWARD_SLASH] @ arg, firstPart))
          else acc))"

text \<open>The separators at the start of the first part: \<open>(needsReplace, slashCount)\<close>.\<close>

definition win32_join_slashes :: "jsstr \<Rightarrow> bool \<times> nat" where
  "win32_join_slashes firstPart =
     (if sepAt firstPart 0 then
        (if length firstPart > 1 \<and> sepAt firstPart 1 then
           (if length firstPart > 2 then
              (if sepAt firstPart 2 then (True, 3) else (False, 2))
            else (True, 2))
         else (True, 1))
      else (True, 0))"

definition win32_join_fix :: "jsstr \<Rightarrow> jsstr \<Rightarrow> jsstr" where
  "win32_join_fix joined firstPart =
     (case win32_join_slashes firstPart of (needsReplace, slashCount) \<Rightarrow>
        if needsReplace then
          (let k = scanWhile isPathSeparator joined slashCount
           in if k \<ge> 2 then [CHAR_BACKWARD_SLASH] @ sliceFrom joined k else joined)
        else joined)"

definition win32_join :: "jsval list \<Rightarrow> jserr + jsstr" where
  "win32_join args =
     (if length args = 0 then Inr [CHAR_DOT]
      else ebind (win32_join_loop args None) (\<lambda>acc.
        case acc of
          None \<Rightarrow> Inr [CHAR_DOT]
        | Some (joined, firstPart) \<Rightarrow> Inr (win32_normalize_str (win32_join_fix joined firstPart))))"

text \<open>
  \<^verbatim>\<open>relative\<close>: the loop over the lower-case paths returns a result (\<open>Inl\<close>) or ends with the
  variables \<open>i\<close> and \<open>lastCommonSep\<close>.
\<close>

fun trim_back :: "jsstr \<Rightarrow> nat \<Rightarrow> nat \<Rightarrow> nat" where
  "trim_back s start 0 = 0"
| "trim_back s start (Suc e) =
     (if e > start \<and> charCodeAt s e = Some CHAR_BACKWARD_SLASH then trim_back s start e else Suc e)"

function win32_rel_loop ::
  "jsstr \<Rightarrow> jsstr \<Rightarrow> jsstr \<Rightarrow> nat \<Rightarrow> nat \<Rightarrow> nat \<Rightarrow> nat \<Rightarrow> nat \<Rightarrow> nat \<Rightarrow> int \<Rightarrow> jsstr + (nat \<times> int)"
where
  "win32_rel_loop fromP toP toOrig fromStart toStart fromLen toLen len i lastCommonSep =
     (if i < len then
        (if charCodeAt fromP (fromStart + i) \<noteq> charCodeAt toP (toStart + i)
         then Inr (i, lastCommonSep)
         else win32_rel_loop fromP toP toOrig fromStart toStart fromLen toLen len (Suc i)
                (if charCodeAt fromP (fromStart + i) = Some CHAR_BACKWARD_SLASH then int i
                 else lastCommonSep))
      else if toLen > len \<and> charCodeAt toP (toStart + i) = Some CHAR_BACKWARD_SLASH
      then Inl (sliceFrom toOrig (toStart + i + 1))
      else if toLen > len \<and> i = 2 then Inl (sliceFrom toOrig (toStart + i))
      else if fromLen > len then
        (if charCodeAt fromP (fromStart + i) = Some CHAR_BACKWARD_SLASH then Inr (i, int i)
         else if i = 2 then Inr (i, 3)
         else Inr (i, lastCommonSep))
      else Inr (i, lastCommonSep))"
  by pat_completeness auto
termination
  by (relation "measure (\<lambda>(f, t, r, fs, ts, fl, tl, len, i, lcs). len - i)") auto

declare win32_rel_loop.simps [simp del]

definition win32_rel_end ::
  "jsstr \<Rightarrow> jsstr \<Rightarrow> nat \<Rightarrow> nat \<Rightarrow> nat \<Rightarrow> nat \<Rightarrow> nat \<Rightarrow> nat \<Rightarrow> int \<Rightarrow> jsstr"
where
  "win32_rel_end fromP toOrig fromStart fromEnd toStart toEnd len i lastCommonSep =
     (if i \<noteq> len \<and> lastCommonSep = -1 then toOrig
      else
        (let lcs = nat (if lastCommonSep = -1 then 0 else lastCommonSep);
             out = rel_up_loop CHAR_BACKWARD_SLASH fromP fromEnd (fromStart + lcs + 1) []
         in if length out > 0 then out @ slice toOrig (toStart + lcs) toEnd
            else slice toOrig
                   (if charCodeAt toOrig (toStart + lcs) = Some CHAR_BACKWARD_SLASH
                    then toStart + lcs + 1 else toStart + lcs) toEnd))"

definition win32_relative_resolved :: "(jsstr \<Rightarrow> jsstr) \<Rightarrow> jsstr \<Rightarrow> jsstr \<Rightarrow> jsstr" where
  "win32_relative_resolved lower fromOrig toOrig =
     (if fromOrig = toOrig then []
      else
        (let fromP = lower fromOrig; toP = lower toOrig
         in if fromP = toP then []
            else
              (let fromStart = scanWhile (\<lambda>c. c = CHAR_BACKWARD_SLASH) fromP 0;
                   fromEnd = trim_back fromP fromStart (length fromP);
                   fromLen = fromEnd - fromStart;
                   toStart = scanWhile (\<lambda>c. c = CHAR_BACKWARD_SLASH) toP 0;
                   toEnd = trim_back toP toStart (length toP);
                   toLen = toEnd - toStart;
                   len = (if fromLen < toLen then fromLen else toLen)
               in case win32_rel_loop fromP toP toOrig fromStart toStart fromLen toLen len 0 (-1) of
                    Inl result \<Rightarrow> result
                  | Inr (i, lastCommonSep) \<Rightarrow>
                      win32_rel_end fromP toOrig fromStart fromEnd toStart toEnd len i
                        lastCommonSep)))"

definition win32_relative :: "process_env \<Rightarrow> jsval \<Rightarrow> jsval \<Rightarrow> jserr + jsstr" where
  "win32_relative env fromP toP =
     ebind (assertPath fromP) (\<lambda>f. ebind (assertPath toP) (\<lambda>t.
       if f = t then Inr []
       else ebind (win32_resolve env [JStr f]) (\<lambda>fromOrig.
              ebind (win32_resolve env [JStr t]) (\<lambda>toOrig.
                Inr (win32_relative_resolved (env_lower env) fromOrig toOrig)))))"

text \<open>The prefix of a long path: two backslashes, a question mark and a backslash.\<close>

definition long_prefix :: jsstr where
  "long_prefix =
     [CHAR_BACKWARD_SLASH, CHAR_BACKWARD_SLASH, CHAR_QUESTION_MARK, CHAR_BACKWARD_SLASH]"

definition win32_namespaced :: "jsstr \<Rightarrow> jsstr \<Rightarrow> jsstr" where
  "win32_namespaced path resolvedPath =
     (if length resolvedPath \<ge> 3 then
        (if charCodeAt resolvedPath 0 = Some CHAR_BACKWARD_SLASH then
           (if charCodeAt resolvedPath 1 = Some CHAR_BACKWARD_SLASH \<and>
               charCodeAt resolvedPath 2 \<noteq> Some CHAR_QUESTION_MARK \<and>
               charCodeAt resolvedPath 2 \<noteq> Some CHAR_DOT
            then long_prefix @ js ''UNC'' @ [CHAR_BACKWARD_SLASH] @ sliceFrom resolvedPath 2
            else path)
         else if deviceLetterAt resolvedPath 0 \<and> charCodeAt resolvedPath 1 = Some CHAR_COLON \<and>
                 charCodeAt resolvedPath 2 = Some CHAR_BACKWARD_SLASH
         then long_prefix @ resolvedPath
         else path)
      else path)"

definition win32_toNamespacedPath :: "process_env \<Rightarrow> jsval \<Rightarrow> jserr + jsval" where
  "win32_toNamespacedPath env path =
     (case path of
        JStr p \<Rightarrow>
          if length p = 0 then Inr (JStr [])
          else ebind (win32_resolve env [path]) (\<lambda>r. Inr (JStr (win32_namespaced p r)))
      | _ \<Rightarrow> Inr path)"

text \<open>
  \<^verbatim>\<open>dirname\<close>: the root gives the whole path at once (\<open>Inl\<close>), or \<open>rootEnd\<close> (-1 without a root) and
  \<open>offset\<close>.
\<close>

definition win32_dirname_root :: "jsstr \<Rightarrow> jsstr + (int \<times> nat)" where
  "win32_dirname_root path =
     (if length path > 1 then
        (if sepAt path 0 then
           (if sepAt path 1 then
              (case unc_match path of
                 None \<Rightarrow> Inr (1, 1)
               | Some (firstPart, lst, j) \<Rightarrow>
                   if j = length path then Inl path
                   else if j \<noteq> lst then Inr (int j + 1, j + 1)
                   else Inr (1, 1))
            else Inr (1, 1))
         else if deviceLetterAt path 0 \<and> charCodeAt path 1 = Some CHAR_COLON then
           (if length path > 2 \<and> sepAt path 2 then Inr (3, 3) else Inr (2, 2))
         else Inr (-1, 0))
      else if sepAt path 0 then Inl path
      else Inr (-1, 0))"

definition win32_dirname_str :: "jsstr \<Rightarrow> jsstr" where
  "win32_dirname_str path =
     (if length path = 0 then [CHAR_DOT]
      else (case win32_dirname_root path of
          Inl r \<Rightarrow> r
        | Inr (rootEnd, offset) \<Rightarrow>
            (let endp = dirname_end isPathSeparator path offset
             in if endp = -1 then
                  (if rootEnd = -1 then [CHAR_DOT] else slice path 0 (nat rootEnd))
                else slice path 0 (nat endp))))"

definition win32_dirname :: "jsval \<Rightarrow> jserr + jsstr" where
  "win32_dirname path = ebind (assertPath path) (\<lambda>p. Inr (win32_dirname_str p))"

text \<open>\<^verbatim>\<open>basename\<close> and \<^verbatim>\<open>extname\<close> start after a drive letter.\<close>

definition win32_drive_start :: "jsstr \<Rightarrow> nat" where
  "win32_drive_start path =
     (if length path \<ge> 2 \<and> deviceLetterAt path 0 \<and> charCodeAt path 1 = Some CHAR_COLON
      then 2 else 0)"

definition win32_basename_str :: "jsstr \<Rightarrow> jsstr option \<Rightarrow> jsstr" where
  "win32_basename_str path ext =
     (let start = win32_drive_start path in
      case ext of
        Some e \<Rightarrow>
          if length e > 0 \<and> length e \<le> length path then
            (if length e = length path \<and> e = path then []
             else basename_ext isPathSeparator path e start)
          else basename_plain isPathSeparator path start
      | None \<Rightarrow> basename_plain isPathSeparator path start)"

definition win32_basename :: "jsval \<Rightarrow> jsval \<Rightarrow> jserr + jsstr" where
  "win32_basename path ext =
     ebind (assertExt ext) (\<lambda>e. ebind (assertPath path) (\<lambda>p. Inr (win32_basename_str p e)))"

definition win32_extname_str :: "jsstr \<Rightarrow> jsstr" where
  "win32_extname_str path =
     (let start = win32_drive_start path;
          st = ext_scan isPathSeparator path start start
      in if no_ext st then [] else slice path (nat (startDot st)) (nat (eend st)))"

definition win32_extname :: "jsval \<Rightarrow> jserr + jsstr" where
  "win32_extname path = ebind (assertPath path) (\<lambda>p. Inr (win32_extname_str p))"

definition win32_format :: "path_object option \<Rightarrow> jserr + jsstr" where
  "win32_format pathObject =
     (case pathObject of
        None \<Rightarrow> Inl (ERR_INVALID_ARG_TYPE (js ''pathObject''))
      | Some po \<Rightarrow> Inr (path_format [CHAR_BACKWARD_SLASH] po))"

text \<open>\<^verbatim>\<open>parse\<close>: the end of the root, \<open>None\<close> where the path is a root and nothing else.\<close>

definition win32_parse_root :: "jsstr \<Rightarrow> nat option" where
  "win32_parse_root path =
     (if length path > 1 then
        (if sepAt path 0 then
           (if sepAt path 1 then
              (case unc_match path of
                 None \<Rightarrow> Some 1
               | Some (firstPart, lst, j) \<Rightarrow>
                   if j = length path then Some j
                   else if j \<noteq> lst then Some (j + 1)
                   else Some 1)
            else Some 1)
         else if deviceLetterAt path 0 \<and> charCodeAt path 1 = Some CHAR_COLON then
           (if length path > 2 then
              (if sepAt path 2 then (if length path = 3 then None else Some 3) else Some 2)
            else None)
         else Some 0)
      else if sepAt path 0 then None
      else Some 0)"

definition win32_parse_str :: "jsstr \<Rightarrow> path_object" where
  "win32_parse_str path =
     (if length path = 0 then empty_path_object
      else (case win32_parse_root path of
          None \<Rightarrow> empty_path_object\<lparr>po_root := Some path, po_dir := Some path\<rparr>
        | Some rootEnd \<Rightarrow>
            (let root = (if rootEnd > 0 then slice path 0 rootEnd else []);
                 st = ext_scan isPathSeparator path rootEnd rootEnd;
                 ret = empty_path_object\<lparr>po_root := Some root\<rparr>;
                 ret1 =
                   (if no_ext st then
                      (if eend st \<noteq> -1 then
                         ret\<lparr>po_base := Some (slice path (startPart st) (nat (eend st))),
                             po_name := Some (slice path (startPart st) (nat (eend st)))\<rparr>
                       else ret)
                    else
                      ret\<lparr>po_name := Some (slice path (startPart st) (nat (startDot st))),
                          po_base := Some (slice path (startPart st) (nat (eend st))),
                          po_ext := Some (slice path (nat (startDot st)) (nat (eend st)))\<rparr>)
             in ret1\<lparr>po_dir := Some (if startPart st > 0 \<and> startPart st \<noteq> rootEnd
                                     then slice path 0 (startPart st - 1) else root)\<rparr>)))"

definition win32_parse :: "jsval \<Rightarrow> jserr + path_object" where
  "win32_parse path = ebind (assertPath path) (\<lambda>p. Inr (win32_parse_str p))"

end
