(* ===== verification/Path_Win32_Props.thy ===== *)
theory Path_Win32_Props
  imports Path_Win32
begin

text \<open>
  Properties of the Windows flavour of the path module: the last component and \<^verbatim>\<open>parse\<close>, the
  absolute result of \<^verbatim>\<open>resolve\<close>, and what \<^verbatim>\<open>normalize\<close> and \<^verbatim>\<open>join\<close> do with the root of a path.
\<close>

section \<open>The last component\<close>

lemma drive_start_le: "win32_drive_start p \<le> length p"
  by (simp add: win32_drive_start_def)

lemma win32_names_component:
  assumes c: "component isPathSeparator (win32_drive_start p) p pre seg tail"
  shows "win32_basename_str p None = seg" "win32_extname_str p = ext_of seg"
proof -
  show "win32_basename_str p None = seg"
    using basename_plain_component[OF c] by (simp add: win32_basename_str_def Let_def)
  have seg: "seg \<noteq> []" using c by (simp add: component_def)
  define st where "st = ext_run_state (length pre) (length pre + length seg) (length pre) seg"
  have scan: "ext_scan isPathSeparator p (win32_drive_start p) (win32_drive_start p) = st"
    using ext_scan_component[OF c, of "win32_drive_start p"] component_lengths(1)[OF c]
    by (cases "win32_drive_start p = length pre") (simp_all add: st_def)
  have no: "no_ext st \<longleftrightarrow> ext_of seg = []" unfolding st_def by (rule no_ext_iff[OF seg refl])
  show "win32_extname_str p = ext_of seg"
  proof (cases "ext_of seg = []")
    case True
    then show ?thesis using no by (simp add: win32_extname_str_def scan Let_def)
  next
    case False
    then show ?thesis
      using no ext_run_slices(1)[OF c False st_def] by (simp add: win32_extname_str_def scan Let_def)
  qed
qed

lemma win32_names_seps:
  assumes "\<forall>c\<in>set (drop (win32_drive_start p) p). isPathSeparator c"
  shows "win32_basename_str p None = []" "win32_extname_str p = []"
  using basename_plain_seps[OF drive_start_le assms] ext_scan_seps[OF drive_start_le assms]
  by (simp_all add: win32_basename_str_def win32_extname_str_def no_ext_def Let_def)

text \<open> Also on Windows \<^verbatim>\<open>extname\<close> is the extension of \<^verbatim>\<open>basename\<close>, drive letters included.\<close>

theorem win32_extname_spec: "win32_extname_str p = ext_of (win32_basename_str p None)"
proof -
  consider "\<forall>c\<in>set (drop (win32_drive_start p) p). isPathSeparator c"
    | pre seg tail where "component isPathSeparator (win32_drive_start p) p pre seg tail"
    by (rule component_cases[OF drive_start_le[of p], of isPathSeparator]) blast+
  then show ?thesis
  proof cases
    case 1
    show ?thesis unfolding win32_names_seps[OF 1] by (simp add: ext_of_def)
  qed (simp add: win32_names_component)
qed

section \<open>parse\<close>

lemma scanWhile_step: "j < length s \<Longrightarrow> P (s ! j) \<Longrightarrow> scanWhile P s j = scanWhile P s (Suc j)"
  by (subst scanWhile.simps) simp

lemma unc_match_bounds:
  assumes "unc_match p = Some (f, l, j)"
  shows "l < length p" "l \<le> j" "j \<le> length p" "2 < l" "\<not> isPathSeparator (p ! l)" "l < j"
proof -
  let ?j1 = "scanWhile (\<lambda>c. \<not> isPathSeparator c) p 2"
  let ?j2 = "scanWhile isPathSeparator p ?j1"
  have eq: "?j1 < length p" "?j1 \<noteq> 2" "?j2 < length p" "?j2 \<noteq> ?j1" "l = ?j2"
    "j = scanWhile (\<lambda>c. \<not> isPathSeparator c) p ?j2"
    using assms by (auto simp: unc_match_def Let_def split: if_splits)
  show "l < length p" "l \<le> j" "j \<le> length p"
    using eq scanWhile_ge[of ?j2 "\<lambda>c. \<not> isPathSeparator c" p] scanWhile_le[of ?j2 p] by auto
  show "2 < l" using eq scanWhile_ge[of 2 "\<lambda>c. \<not> isPathSeparator c" p] scanWhile_ge[of ?j1 isPathSeparator p]
    by linarith
  show ns: "\<not> isPathSeparator (p ! l)" using eq scanWhile_stops[of isPathSeparator p ?j1] by simp
  have "j = scanWhile (\<lambda>c. \<not> isPathSeparator c) p (Suc l)"
    using eq(3,5,6) ns scanWhile_step[of l p "\<lambda>c. \<not> isPathSeparator c"] by simp
  then have "Suc l \<le> j" using scanWhile_ge[of "Suc l" "\<lambda>c. \<not> isPathSeparator c" p] by simp
  then show "l < j" by simp
qed

lemma win32_parse_root_le: "win32_parse_root p = Some r \<Longrightarrow> r \<le> length p"
  using unc_match_bounds[of p]
  by (fastforce simp: win32_parse_root_def split: if_splits option.splits prod.splits)

lemma po_all_split:
  "(\<exists>mid tail. p = the (po_dir q) @ mid @ the (po_base q) @ tail \<and> length mid \<le> 1 \<and>
     (\<forall>c\<in>set (mid @ tail). isPathSeparator c)) \<Longrightarrow>
   the (po_name q) @ the (po_ext q) = the (po_base q) \<Longrightarrow>
   prefix (the (po_root q)) (the (po_dir q)) \<Longrightarrow>
   prefix (the (po_root q)) (the (po_dir q)) \<and>
   the (po_name q) @ the (po_ext q) = the (po_base q) \<and>
   (\<exists>mid tail. p = the (po_dir q) @ mid @ the (po_base q) @ tail \<and> length mid \<le> 1 \<and>
     (\<forall>c\<in>set (mid @ tail). isPathSeparator c))"
  by blast

text \<open>
   \<^verbatim>\<open>parse\<close> takes a Windows path apart without losing or adding a character: the path is the
  directory, at most one separator, the base and a run of separators; the root is a prefix of
  the directory; name and extension make up the base.
\<close>

theorem win32_parse_split:
  "prefix (the (po_root (win32_parse_str p))) (the (po_dir (win32_parse_str p))) \<and>
   the (po_name (win32_parse_str p)) @ the (po_ext (win32_parse_str p)) =
     the (po_base (win32_parse_str p)) \<and>
   (\<exists>mid tail. p = the (po_dir (win32_parse_str p)) @ mid @ the (po_base (win32_parse_str p)) @ tail \<and>
      length mid \<le> 1 \<and> (\<forall>c\<in>set (mid @ tail). isPathSeparator c))"
proof (cases "p = [] \<or> win32_parse_root p = None")
  case True
  then show ?thesis by (auto simp: win32_parse_str_def empty_path_object_def)
next
  case False
  then obtain r where ne: "p \<noteq> []" and r: "win32_parse_root p = Some r" by auto
  note le = win32_parse_root_le[OF r]
  have root: "(if r > 0 then slice p 0 r else []) = take r p" by simp
  consider (seps) "\<forall>c\<in>set (drop r p). isPathSeparator c"
    | (comp) pre seg tail where "component isPathSeparator r p pre seg tail"
    by (rule component_cases[OF le, of isPathSeparator]) blast+
  then show ?thesis
  proof cases
    case seps
    have "win32_parse_str p =
        empty_path_object\<lparr>po_root := Some (take r p), po_dir := Some (take r p)\<rparr>"
      using ne unfolding win32_parse_str_def r option.case Let_def root ext_scan_seps[OF le seps]
      by (simp add: no_ext_def)
    then have eq: "the (po_dir (win32_parse_str p)) = take r p" "the (po_base (win32_parse_str p)) = []"
      "the (po_root (win32_parse_str p)) = take r p" "the (po_name (win32_parse_str p)) = []"
      "the (po_ext (win32_parse_str p)) = []"
      by (simp_all add: empty_path_object_def)
    have "p = take r p @ [] @ [] @ drop r p" by simp
    then show ?thesis
      unfolding eq using seps by (intro conjI exI[of _ "[]"] exI[of _ "drop r p"]) simp_all
  next
    case comp
    have p: "p = pre @ seg @ tail" "seg \<noteq> []" "\<forall>c\<in>set tail. isPathSeparator c" "r \<le> length pre"
      "r < length pre \<longrightarrow> isPathSeparator (last pre)"
      using comp by (auto simp: component_def)
    define st where "st = ext_run_state (length pre) (length pre + length seg) (length pre) seg"
    have scan: "ext_scan isPathSeparator p r r = st"
      using ext_scan_component[OF comp, of r] p(4)
      by (cases "r = length pre") (simp_all add: st_def)
    have sp: "startPart st = length pre" "eend st \<noteq> -1" "nat (eend st) = length pre + length seg"
      by (simp_all add: st_def ext_run_state_def Let_def)
    have no: "no_ext st \<longleftrightarrow> ext_of seg = []" unfolding st_def by (rule no_ext_iff[OF p(2) refl])
    have base: "slice p (length pre) (length pre + length seg) = seg"
      by (rule component_slices(3)[OF comp])
    let ?dir = "if length pre > 0 \<and> length pre \<noteq> r then slice p 0 (length pre - 1) else take r p"
    have eq: "win32_parse_str p = \<lparr>po_root = Some (take r p), po_dir = Some ?dir,
        po_base = Some seg, po_ext = Some (ext_of seg), po_name = Some (stem_of seg)\<rparr>"
    proof (cases "ext_of seg = []")
      case True
      then have "stem_of seg = seg" by (simp add: stem_of_def)
      then show ?thesis
        using ne True no sp unfolding win32_parse_str_def r option.case Let_def root scan sp(1,3) base
        by (simp add: empty_path_object_def)
    next
      case False
      note sl = ext_run_slices[OF comp False st_def]
      show ?thesis
        using ne False no sl sp unfolding win32_parse_str_def r option.case Let_def root scan sp(1,3) base
        by (simp add: empty_path_object_def)
    qed
    have join: "stem_of seg @ ext_of seg = seg"
      by (cases "ext_of seg = []") (auto simp: stem_of_def elim!: ext_of_cut)
    show ?thesis
    proof (cases "length pre = r")
      case True
      then have "p = take r p @ [] @ seg @ tail" using p(1) by simp
      then show ?thesis
        unfolding eq using True join p(3)
        by (intro po_all_split exI[of _ "[]"] exI[of _ tail]) simp_all
    next
      case False
      then have "pre \<noteq> []" using p(4) by auto
      then have d: "?dir = butlast pre" "pre = butlast pre @ [last pre]"
        using False p(1) append_butlast_last_id[OF \<open>pre \<noteq> []\<close>]
        by (simp add: butlast_conv_take, metis)
      have "take r p = take r (butlast pre)"
        using False p(1,4) by (simp add: butlast_conv_take min_def)
      then have "prefix (take r p) ?dir" unfolding d(1) by (metis take_is_prefix)
      moreover have "p = ?dir @ [last pre] @ seg @ tail" unfolding d(1) using p(1) d(2) by simp
      moreover have "isPathSeparator (last pre)" using p(4,5) False by simp
      ultimately show ?thesis
        unfolding eq using join p(3)
        by (intro po_all_split exI[of _ "[last pre]"] exI[of _ tail]) simp_all
    qed
  qed
qed

lemma win32_parse_split_witness:
  "prefix (the (po_root (win32_parse_str (js ''C:/a//b.c/'')))) (the (po_dir (win32_parse_str (js ''C:/a//b.c/''))))"
  using win32_parse_split[of "js ''C:/a//b.c/''"] by blast

section \<open>resolve ends at an absolute path\<close>

abbreviation wjoin :: "jsstr list \<Rightarrow> jsstr" where
  "wjoin \<equiv> joinOn CHAR_BACKWARD_SLASH"

abbreviation win32_segs :: "bool \<Rightarrow> jsstr \<Rightarrow> jsstr list" where
  "win32_segs allow p \<equiv> resolve_segs allow (splitOn isPathSeparator p)"

lemma win32_normalizeString:
  "normalizeString p allow CHAR_BACKWARD_SLASH isPathSeparator = wjoin (win32_segs allow p)"
  by (simp add: win32_fl.normalizeString_refines norm_spec_def)

text \<open>A drive is a letter and a colon; a device is a drive or a UNC root.\<close>

definition drive :: "jsstr \<Rightarrow> bool" where
  "drive d \<longleftrightarrow> (\<exists>l. d = [l, CHAR_COLON] \<and> isWindowsDeviceRoot l)"

lemma letter_not_sep: "isWindowsDeviceRoot c \<Longrightarrow> \<not> isPathSeparator c"
  by (auto simp: isWindowsDeviceRoot_def isPathSeparator_def)

lemma sepAt_Cons [simp]: "sepAt (c # p) 0 = isPathSeparator c" "sepAt (c # p) (Suc i) = sepAt p i"
  by (simp_all add: sepAt_def charCodeAt_def)

lemma deviceLetterAt_Cons [simp]: "deviceLetterAt (c # p) 0 = isWindowsDeviceRoot c"
  by (simp add: deviceLetterAt_def)

lemma win32_resolve_root_cases:
  assumes "win32_resolve_root p = (dev, r, a)"
  shows "dev = [] \<or> drive dev \<or> (a \<and> hd dev = CHAR_BACKWARD_SLASH)"
proof -
  consider (short) "length p \<le> 1" | (sep) "1 < length p" "sepAt p 0"
    | (letter) c q where "p = c # CHAR_COLON # q" "isWindowsDeviceRoot c"
    | (plain) "1 < length p" "\<not> sepAt p 0" "\<not> (deviceLetterAt p 0 \<and> charCodeAt p 1 = Some CHAR_COLON)"
  proof (cases "1 < length p \<and> \<not> sepAt p 0 \<and> deviceLetterAt p 0 \<and> charCodeAt p 1 = Some CHAR_COLON")
    case True
    then obtain c d q where "p = c # d # q" by (cases p; cases "tl p") auto
    then show thesis using True letter by simp
  next
    case False
    then show thesis using short sep plain by linarith
  qed
  then show ?thesis
  proof cases
    case short
    then show ?thesis using assms by (auto simp: win32_resolve_root_def split: if_splits)
  next
    case sep
    then show ?thesis
      using assms by (auto simp: win32_resolve_root_def unc_device_def split: if_splits option.splits)
  next
    case letter
    then have "drive dev"
      using assms letter_not_sep[of c]
      by (auto simp: win32_resolve_root_def drive_def split: if_splits)
    then show ?thesis by simp
  next
    case plain
    then show ?thesis using assms by (auto simp: win32_resolve_root_def split: if_splits)
  qed
qed

text \<open>The invariant of the loop: a device that is not a drive comes with an absolute path.\<close>

definition resolved_ok :: "win32_resolved \<Rightarrow> bool" where
  "resolved_ok st \<longleftrightarrow>
     resolvedDevice st = [] \<or> drive (resolvedDevice st) \<or>
     (resolvedAbs st \<and> hd (resolvedDevice st) = CHAR_BACKWARD_SLASH)"

lemma win32_resolve_step_ok:
  assumes "resolved_ok st"
  shows "resolved_ok (fst (win32_resolve_step lower p st))"
    "snd (win32_resolve_step lower p st) \<Longrightarrow>
       resolvedDevice (fst (win32_resolve_step lower p st)) \<noteq> [] \<and>
       resolvedAbs (fst (win32_resolve_step lower p st))"
proof -
  obtain dev r a where root: "win32_resolve_root p = (dev, r, a)" by (metis prod_cases3)
  note cases = win32_resolve_root_cases[OF root]
  show "resolved_ok (fst (win32_resolve_step lower p st))"
    using assms cases
    by (auto simp: win32_resolve_step_def root resolved_ok_def Let_def drive_def)
  show "snd (win32_resolve_step lower p st) \<Longrightarrow>
       resolvedDevice (fst (win32_resolve_step lower p st)) \<noteq> [] \<and>
       resolvedAbs (fst (win32_resolve_step lower p st))"
    by (auto simp: win32_resolve_step_def root Let_def split: if_splits)
qed

lemma win32_drive_root:
  assumes "isWindowsDeviceRoot l"
  shows "win32_resolve_root (l # CHAR_COLON # CHAR_BACKWARD_SLASH # q) = ([l, CHAR_COLON], 3, True)"
  using assms letter_not_sep[OF assms]
  by (simp add: win32_resolve_root_def isPathSeparator_def slice_def numeral_3_eq_3 numeral_2_eq_2)

lemma toLowerCase_drive:
  assumes "toLowerCase p = toLowerCase [l, CHAR_COLON] @ [CHAR_BACKWARD_SLASH]" "isWindowsDeviceRoot l"
  obtains l' where "p = [l', CHAR_COLON, CHAR_BACKWARD_SLASH]" "isWindowsDeviceRoot l'"
    "lowerCode l' = lowerCode l"
proof -
  have len: "length p = 3" using assms(1) arg_cong[of _ _ length] by (force simp: toLowerCase_def)
  then obtain a b c where p: "p = [a, b, c]"
    by (auto simp: numeral_3_eq_3 length_Suc_conv)
  have "b = CHAR_COLON" "c = CHAR_BACKWARD_SLASH" "isWindowsDeviceRoot a" "lowerCode a = lowerCode l"
    using assms unfolding p toLowerCase_def
    by (auto simp: lowerCode_def isWindowsDeviceRoot_def split: if_splits)
  then show thesis using that[of a] p by simp
qed

text \<open>The path taken from the process makes the result absolute on some device.\<close>

lemma win32_cwd_step:
  assumes ok: "resolved_ok st" and low: "env_lower env = toLowerCase"
    and cwd: "env_cwd env = l # CHAR_COLON # CHAR_BACKWARD_SLASH # q" "isWindowsDeviceRoot l"
  defines "st' \<equiv> fst (win32_resolve_step (env_lower env) (win32_cwd env (resolvedDevice st)) st)"
  shows "resolvedDevice st' \<noteq> [] \<and> resolvedAbs st'"
proof -
  consider (none) "resolvedDevice st = []" | (abs) "resolvedDevice st \<noteq> []" "resolvedAbs st"
    | (drive) m where "resolvedDevice st = [m, CHAR_COLON]" "isWindowsDeviceRoot m" "\<not> resolvedAbs st"
    using ok by (auto simp: resolved_ok_def drive_def)
  then show ?thesis
  proof cases
    case none
    then show ?thesis
      using win32_drive_root[OF cwd(2), of q] cwd(1)
      by (simp add: st'_def win32_cwd_def win32_resolve_step_def Let_def)
  next
    case abs
    then show ?thesis
      by (simp add: st'_def win32_resolve_step_def Let_def split: prod.split)
  next
    case drive
    let ?p = "win32_cwd env (resolvedDevice st)"
    obtain m' q' where m': "?p = m' # CHAR_COLON # CHAR_BACKWARD_SLASH # q'"
      "isWindowsDeviceRoot m'" "lowerCode m' = lowerCode m"
    proof -
      define path where "path = (case env_var env ([CHAR_EQUAL] @ resolvedDevice st) of
          Some p \<Rightarrow> if p = [] then env_cwd env else p | None \<Rightarrow> env_cwd env)"
      have p: "?p = (if toLowerCase (slice path 0 3) \<noteq>
            toLowerCase [m, CHAR_COLON] @ [CHAR_BACKWARD_SLASH]
          then [m, CHAR_COLON, CHAR_BACKWARD_SLASH] else path)"
        unfolding win32_cwd_def Let_def path_def[symmetric] low using drive by simp
      show thesis
      proof (cases "toLowerCase (slice path 0 3) = toLowerCase [m, CHAR_COLON] @ [CHAR_BACKWARD_SLASH]")
        case True
        then obtain l' where l': "slice path 0 3 = [l', CHAR_COLON, CHAR_BACKWARD_SLASH]"
          "isWindowsDeviceRoot l'" "lowerCode l' = lowerCode m"
          using toLowerCase_drive drive(2) by metis
        have "path = l' # CHAR_COLON # CHAR_BACKWARD_SLASH # drop 3 path"
          using append_take_drop_id[of 3 path] l'(1) unfolding slice_0
          by (metis append_Cons append_Nil)
        then show thesis using that l' p True by metis
      next
        case False
        then show thesis using that[of m "[]"] p drive(2) by simp
      qed
    qed
    show ?thesis
      using drive m' win32_drive_root[OF m'(2), of q']
      by (simp add: st'_def win32_resolve_step_def Let_def low toLowerCase_def)
  qed
qed

lemma win32_resolve_loop_abs:
  assumes "resolved_ok st" "env_lower env = toLowerCase"
    and "env_cwd env = l # CHAR_COLON # CHAR_BACKWARD_SLASH # q" "isWindowsDeviceRoot l"
    and "win32_resolve_loop env args st = Inr st'"
  shows "resolved_ok st' \<and> resolvedDevice st' \<noteq> [] \<and> resolvedAbs st'"
  using assms(1,5)
proof (induction args arbitrary: st)
  case Nil
  then show ?case
    using win32_cwd_step[OF _ assms(2-4)] win32_resolve_step_ok(1) by auto
next
  case (Cons arg rest)
  then obtain p where p: "assertPath arg = Inr p"
    and r: "(case win32_resolve_step (env_lower env) p st of
         (s, stop) \<Rightarrow> if stop then Inr s else win32_resolve_loop env rest s) = Inr st'"
    by (auto simp: ebind_Inr_iff)
  show ?case
    using r win32_resolve_step_ok[OF Cons.prems(1), of "env_lower env" p] Cons.IH
    by (cases "win32_resolve_step (env_lower env) p st") (auto split: if_splits)
qed

text \<open>
   With a process directory on a drive, \<^verbatim>\<open>win32.resolve\<close> of any arguments is an absolute path:
  a device, a backslash and segments none of which is empty or made of dots.
\<close>

theorem win32_resolve_absolute:
  assumes "env_lower env = toLowerCase"
    and "env_cwd env = l # CHAR_COLON # CHAR_BACKWARD_SLASH # q" "isWindowsDeviceRoot l"
    and "win32_resolve env args = Inr r"
  shows "win32_isAbsolute_str r \<and>
    (\<exists>dev segs. r = dev @ CHAR_BACKWARD_SLASH # wjoin segs \<and> dev \<noteq> [] \<and>
       set segs \<inter> {[], [CHAR_DOT], [CHAR_DOT, CHAR_DOT]} = {})"
proof -
  obtain st where st: "win32_resolve_loop env (rev args)
      \<lparr>resolvedDevice = [], resolvedTail = [], resolvedAbs = False\<rparr> = Inr st"
    and r: "r = win32_resolve_end st"
    using assms(4) by (auto simp: win32_resolve_def ebind_Inr_iff)
  have ok: "resolved_ok st" "resolvedDevice st \<noteq> []" "resolvedAbs st"
    using win32_resolve_loop_abs[OF _ assms(1-3) st] by (auto simp: resolved_ok_def)
  let ?segs = "win32_segs False (resolvedTail st)"
  have eq: "r = resolvedDevice st @ CHAR_BACKWARD_SLASH # wjoin ?segs"
    using ok(3) by (simp add: r win32_resolve_end_def win32_normalizeString Let_def)
  have "win32_isAbsolute_str r"
  proof (cases "drive (resolvedDevice st)")
    case True
    then show ?thesis unfolding eq
      by (auto simp: drive_def win32_isAbsolute_str_def isPathSeparator_def numeral_2_eq_2)
  next
    case False
    then have "hd (resolvedDevice st) = CHAR_BACKWARD_SLASH" using ok by (simp add: resolved_ok_def)
    then show ?thesis unfolding eq using ok(2)
      by (cases "resolvedDevice st") (simp_all add: win32_isAbsolute_str_def isPathSeparator_def)
  qed
  moreover have "set ?segs \<inter> {[], [CHAR_DOT], [CHAR_DOT, CHAR_DOT]} = {}"
    using resolve_segs_normal[of False "splitOn isPathSeparator (resolvedTail st)"]
    unfolding normal_segs_False_iff by blast
  ultimately show ?thesis using eq ok(2) by blast
qed

lemma win32_resolve_absolute_witness:
  "win32_isAbsolute_str (js ''d:'' @ [CHAR_BACKWARD_SLASH] @ js ''b'')"
proof -
  let ?env = "\<lparr>env_cwd = js ''C:'' @ [CHAR_BACKWARD_SLASH] @ js ''w'', env_var = (\<lambda>_. None),
      env_lower = toLowerCase\<rparr>"
  have "win32_resolve ?env [JStr (js ''D:a''), JStr (js ''d:../b'')] =
      Inr (js ''d:'' @ [CHAR_BACKWARD_SLASH] @ js ''b'')"
    by code_simp
  from win32_resolve_absolute[OF _ _ _ this, of 67 "js ''w''"] show ?thesis
    by (simp add: isWindowsDeviceRoot_def)
qed

section \<open>normalize\<close>

lemma scanWhile_append:
  assumes "\<forall>c\<in>set v. P c" "w = [] \<or> \<not> P (hd w)"
  shows "scanWhile P (u @ v @ w) (length u) = length u + length v"
  using assms
proof (induction v arbitrary: u)
  case Nil
  then show ?case by (intro scanWhile_stop[THEN trans]) (auto simp: nth_append hd_conv_nth)
next
  case (Cons c v)
  have "scanWhile P (u @ (c # v) @ w) (length u) = scanWhile P (u @ (c # v) @ w) (Suc (length u))"
    using Cons.prems by (intro scanWhile_step) (auto simp: nth_append)
  also have "\<dots> = scanWhile P ((u @ [c]) @ v @ w) (length (u @ [c]))" by simp
  also have "\<dots> = length (u @ [c]) + length v" using Cons by (intro Cons.IH) auto
  finally show ?case by simp
qed

text \<open>A part of a UNC root: not empty, and without separators.\<close>

definition sepfree :: "jsstr \<Rightarrow> bool" where
  "sepfree s \<longleftrightarrow> s \<noteq> [] \<and> (\<forall>c\<in>set s. \<not> isPathSeparator c)"

lemma bslash_sep [simp]: "isPathSeparator CHAR_BACKWARD_SLASH"
  by (simp add: isPathSeparator_def)

lemma unc_match_device:
  assumes "sepfree f" "sepfree sh" "rest = [] \<or> isPathSeparator (hd rest)"
  shows "unc_match (unc_device f sh @ rest) = Some (f, length f + 3, length f + 3 + length sh)"
proof -
  let ?b = "[CHAR_BACKWARD_SLASH]"
  let ?p = "unc_device f sh @ rest" and ?P = "\<lambda>c. \<not> isPathSeparator c"
  have p1: "?p = (?b @ ?b) @ f @ (?b @ sh @ rest)" by (simp add: unc_device_def)
  have p2: "?p = (?b @ ?b @ f) @ ?b @ (sh @ rest)" by (simp add: unc_device_def)
  have p3: "?p = (?b @ ?b @ f @ ?b) @ sh @ rest" by (simp add: unc_device_def)
  have j1: "scanWhile ?P ?p 2 = length f + 2"
    unfolding p1 using scanWhile_append[of f ?P "?b @ sh @ rest" "?b @ ?b"] assms
    by (simp add: sepfree_def numeral_2_eq_2)
  have j2: "scanWhile isPathSeparator ?p (length f + 2) = length f + 3"
    unfolding p2 using scanWhile_append[of ?b isPathSeparator "sh @ rest" "?b @ ?b @ f"] assms
    by (simp add: sepfree_def numeral_2_eq_2 numeral_3_eq_3)
  have j3: "scanWhile ?P ?p (length f + 3) = length f + 3 + length sh"
    unfolding p3 using scanWhile_append[of sh ?P rest "?b @ ?b @ f @ ?b"] assms
    by (auto simp: sepfree_def numeral_3_eq_3)
  have "slice ?p 2 (length f + 2) = f" unfolding p1 by (simp add: slice_def)
  moreover have "length f + 3 < length ?p" "f \<noteq> []"
    using assms by (auto simp: unc_device_def sepfree_def)
  ultimately show ?thesis unfolding unc_match_def Let_def j1 j2 j3 by simp
qed

lemma unc_match_parts:
  assumes "unc_match p = Some (f, l, j)"
  shows "sepfree f" "sepfree (slice p l j)" "j < length p \<Longrightarrow> isPathSeparator (p ! j)"
proof -
  let ?P = "\<lambda>c. \<not> isPathSeparator c"
  let ?j1 = "scanWhile ?P p 2"
  have eq: "?j1 < length p" "?j1 \<noteq> 2" "f = slice p 2 ?j1" "j = scanWhile ?P p l"
    using assms by (auto simp: unc_match_def Let_def split: if_splits)
  note b = unc_match_bounds[OF assms]
  have ge: "2 < ?j1" using eq(2) scanWhile_ge[of 2 ?P p] by simp
  have free: "\<forall>c\<in>set (slice p a (scanWhile ?P p a)). ?P c" for a
  proof
    fix c
    assume "c \<in> set (slice p a (scanWhile ?P p a))"
    then obtain i where i: "i < length (slice p a (scanWhile ?P p a))"
      "c = slice p a (scanWhile ?P p a) ! i"
      unfolding in_set_conv_nth by blast
    then have "a + i < scanWhile ?P p a" "a + i < length p" by (simp_all add: length_slice)
    moreover from this have "c = p ! (a + i)" using i(2) by (simp add: slice_def)
    ultimately show "?P c" using scanWhile_holds[of a "a + i" ?P p] by simp
  qed
  have "length f \<noteq> 0" unfolding eq(3) length_slice using ge eq(1) by linarith
  then show "sepfree f" unfolding sepfree_def using free[of 2] eq(3) by blast
  have "length (slice p l j) \<noteq> 0" unfolding length_slice using b by linarith
  then show "sepfree (slice p l j)" unfolding sepfree_def using free[of l] eq(4) by blast
  show "j < length p \<Longrightarrow> isPathSeparator (p ! j)" using scanWhile_stops[of ?P p l] eq(4) by simp
qed

text \<open>The tail of a normal form.\<close>

definition norm_tail :: "bool \<Rightarrow> jsstr list \<Rightarrow> bool \<Rightarrow> jsstr" where
  "norm_tail isAbs segs trailing =
     (let t = (if segs = [] \<and> \<not> isAbs then [CHAR_DOT] else wjoin segs)
      in t @ (if t \<noteq> [] \<and> trailing then [CHAR_BACKWARD_SLASH] else []))"

lemma wjoin_eq_Nil: "wjoin (win32_segs allow x) = [] \<longleftrightarrow> win32_segs allow x = []"
  using win32_fl.norm_eq_Nil[of x allow] by (simp add: norm_spec_def)

lemma win32_normalize_tail_eq:
  assumes "p \<noteq> []"
  shows "win32_normalize_tail p r a = norm_tail a (win32_segs (\<not> a) (drop r p)) (isPathSeparator (last p))"
proof -
  have last: "sepAt p (length p - 1) = isPathSeparator (last p)"
    using assms by (simp add: sepAt_def last_conv_nth)
  have nil: "length p \<le> r \<Longrightarrow> win32_segs (\<not> a) (drop r p) = []"
    by (simp add: resolve_segs_def)
  show ?thesis
    using wjoin_eq_Nil[of "\<not> a" "drop r p"] nil
    unfolding win32_normalize_tail_def Let_def last win32_normalizeString sliceFrom_def norm_tail_def
    by (cases "r < length p"; cases "win32_segs (\<not> a) (drop r p) = []"; cases a) simp_all
qed

lemma wjoin_ends:
  assumes "win32_segs allow x \<noteq> []"
  shows "\<not> isPathSeparator (hd (wjoin (win32_segs allow x)))"
    "\<not> isPathSeparator (last (wjoin (win32_segs allow x)))"
  using win32_fl.norm_hd_last[of x allow] assms wjoin_eq_Nil[of allow x] by (simp_all add: norm_spec_def)

lemma dot_not_sep [simp]: "\<not> isPathSeparator CHAR_DOT"
  by (simp add: isPathSeparator_def)

lemma norm_tail_hd:
  assumes "norm_tail a (win32_segs (\<not> a) x) b \<noteq> []"
  shows "\<not> isPathSeparator (hd (norm_tail a (win32_segs (\<not> a) x) b))"
    "isPathSeparator (last (norm_tail a (win32_segs (\<not> a) x) b)) = b"
  using assms wjoin_ends[of "\<not> a" x] wjoin_eq_Nil[of "\<not> a" x]
  by (auto simp: norm_tail_def Let_def)

lemma win32_segs_snoc: "win32_segs allow (p @ [CHAR_BACKWARD_SLASH]) = win32_segs allow p"
  by (rule win32_fl.resolve_trail) simp

lemma win32_segs_wjoin: "win32_segs allow (wjoin (win32_segs allow x)) = win32_segs allow x"
  using win32_fl.norm_split[of x allow] resolve_segs_idem[of allow]
  by (simp add: norm_spec_def resolve_segs_def)

lemma win32_segs_tail: "win32_segs (\<not> a) (norm_tail a (win32_segs (\<not> a) x) b) = win32_segs (\<not> a) x"
proof -
  have dot: "win32_segs True [CHAR_DOT] = []"
    by (simp add: resolve_segs_def push_seg_def isPathSeparator_def)
  show ?thesis
    using dot win32_segs_snoc[of True "[CHAR_DOT]"] win32_segs_wjoin[of "\<not> a" x]
      win32_segs_snoc[of "\<not> a" "wjoin (win32_segs (\<not> a) x)"]
    by (cases a; cases "win32_segs (\<not> a) x = []"; cases b) (simp_all add: norm_tail_def Let_def wjoin_eq_Nil)
qed

text \<open>A normal tail is not changed, behind whatever root.\<close>

lemma norm_tail_stable:
  assumes "q = pr @ s @ norm_tail a (win32_segs (\<not> a) x) b" "q \<noteq> []" "s = [] \<or> s = [CHAR_BACKWARD_SLASH]"
  shows "win32_normalize_tail q (length pr) a = norm_tail a (win32_segs (\<not> a) x) b"
proof -
  let ?t = "norm_tail a (win32_segs (\<not> a) x) b"
  have "win32_segs (\<not> a) (s @ ?t) = win32_segs (\<not> a) x"
    using assms(3) win32_segs_tail[of a x b] win32_fl.resolve_lead[of CHAR_BACKWARD_SLASH "\<not> a" ?t]
    by (elim disjE) simp_all
  moreover have d: "drop (length pr) q = s @ ?t" using assms(1) by simp
  ultimately have "win32_normalize_tail q (length pr) a =
      norm_tail a (win32_segs (\<not> a) x) (isPathSeparator (last q))"
    unfolding win32_normalize_tail_eq[OF assms(2)] d by simp
  also have "\<dots> = ?t"
  proof (cases "?t = []")
    case True
    then have "norm_tail a (win32_segs (\<not> a) x) b' = []" for b'
      by (auto simp: norm_tail_def Let_def split: if_splits)
    with True show ?thesis by simp
  next
    case False
    then have "isPathSeparator (last q) = b" using norm_tail_hd(2)[OF False] assms(1) by simp
    then show ?thesis by simp
  qed
  finally show ?thesis .
qed

text \<open>The three forms of a normalised path with a root.\<close>

lemma win32_normalize_abs:
  assumes "t = norm_tail True (win32_segs False x) b"
  shows "win32_normalize_str (CHAR_BACKWARD_SLASH # t) = CHAR_BACKWARD_SLASH # t"
proof (cases "t = []")
  case True
  then show ?thesis by (simp add: win32_normalize_str_def win32_normalize_root_def)
next
  case False
  have "\<not> isPathSeparator (hd t)" using norm_tail_hd(1)[of True x b] False assms by simp
  then have "\<not> sepAt (CHAR_BACKWARD_SLASH # t) 1" using False by (cases t) simp_all
  then have root: "win32_normalize_root (CHAR_BACKWARD_SLASH # t) = Inr (None, 1, True)"
    using False by (cases t) (simp_all add: win32_normalize_root_def)
  have "win32_normalize_tail (CHAR_BACKWARD_SLASH # t) 1 True = t"
    using norm_tail_stable[of "CHAR_BACKWARD_SLASH # t" "[CHAR_BACKWARD_SLASH]" "[]" True x b] assms by simp
  then show ?thesis using False by (simp add: win32_normalize_str_def root Let_def)
qed

lemma win32_normalize_drive:
  assumes "isWindowsDeviceRoot l" "t = norm_tail a (win32_segs (\<not> a) x) b"
  defines "q \<equiv> l # CHAR_COLON # (if a then [CHAR_BACKWARD_SLASH] else []) @ t"
  shows "win32_normalize_str q = q"
proof -
  let ?s = "if a then [CHAR_BACKWARD_SLASH] else []"
  have ne: "\<not> a \<Longrightarrow> t \<noteq> []" unfolding assms(2) using wjoin_eq_Nil[of True x] by (auto simp: norm_tail_def Let_def)
  have hd: "t \<noteq> [] \<Longrightarrow> \<not> isPathSeparator (hd t)" using norm_tail_hd(1)[of a x b] assms(2) by simp
  have "\<not> sepAt q 0" "deviceLetterAt q 0" "charCodeAt q 1 = Some CHAR_COLON"
    using letter_not_sep[OF assms(1)] assms(1) by (simp_all add: q_def)
  moreover have "2 < length q \<and> sepAt q 2 \<longleftrightarrow> a"
    using ne hd by (cases a; cases t) (simp_all add: q_def numeral_2_eq_2)
  ultimately have root: "win32_normalize_root q =
      Inr (Some [l, CHAR_COLON], if a then 3 else 2, a)"
    by (simp add: win32_normalize_root_def) (simp add: q_def slice_def)
  have "win32_normalize_tail q (if a then 3 else 2) a = t"
    using norm_tail_stable[of q "[l, CHAR_COLON] @ ?s" "[]" a x b] assms(2)
    by (cases a) (simp_all add: q_def numeral_2_eq_2 numeral_3_eq_3)
  moreover have "q \<noteq> []" by (simp add: q_def)
  ultimately have "win32_normalize_str q = [l, CHAR_COLON] @ ?s @ t"
    using ne root by (cases a; cases "t = []") (simp_all add: win32_normalize_str_def Let_def)
  then show ?thesis by (simp add: q_def)
qed

lemma win32_normalize_unc:
  assumes "sepfree f" "sepfree sh" "t = norm_tail True (win32_segs False x) b"
  defines "q \<equiv> unc_device f sh @ CHAR_BACKWARD_SLASH # t"
  shows "win32_normalize_str q = q"
proof -
  let ?d = "unc_device f sh"
  have m: "unc_match q = Some (f, length f + 3, length f + 3 + length sh)"
    unfolding q_def using assms(1,2) by (intro unc_match_device) simp_all
  have len: "length ?d = length f + 3 + length sh" "sh \<noteq> []" "1 < length q" "length ?d < length q"
    using assms(2) by (auto simp: unc_device_def sepfree_def q_def)
  have sl: "slice q (length f + 3) (length f + 3 + length sh) = sh"
    by (simp add: q_def unc_device_def slice_def numeral_3_eq_3)
  have "sepAt q 0" "sepAt q 1" by (simp_all add: q_def unc_device_def)
  then have root: "win32_normalize_root q = Inr (Some ?d, length ?d, True)"
    using len unfolding win32_normalize_root_def m by (simp add: sl)
  have "win32_normalize_tail q (length ?d) True = t"
    using norm_tail_stable[of q ?d "[CHAR_BACKWARD_SLASH]" True x b] assms(3) by (simp add: q_def)
  moreover have "q \<noteq> []" by (simp add: q_def)
  ultimately have "win32_normalize_str q = ?d @ CHAR_BACKWARD_SLASH # t"
    using root by (cases "t = []") (simp_all add: win32_normalize_str_def Let_def)
  then show ?thesis by (simp add: q_def)
qed

text \<open>A path that starts with a separator or with a drive letter and a colon.\<close>

definition win32_rooted :: "jsstr \<Rightarrow> bool" where
  "win32_rooted p \<longleftrightarrow> sepAt p 0 \<or> (deviceLetterAt p 0 \<and> charCodeAt p 1 = Some CHAR_COLON)"

lemma win32_normalize_forms:
  assumes "win32_rooted p"
  obtains (abs) x b where
      "win32_normalize_str p = CHAR_BACKWARD_SLASH # norm_tail True (win32_segs False x) b"
  | (drive) l a x b where "isWindowsDeviceRoot l" "win32_normalize_str p =
      l # CHAR_COLON # (if a then [CHAR_BACKWARD_SLASH] else []) @ norm_tail a (win32_segs (\<not> a) x) b"
  | (unc) f sh x b where "sepfree f" "sepfree sh" "sepAt p 0" "sepAt p 1" "unc_match p \<noteq> None"
      "win32_normalize_str p =
      unc_device f sh @ CHAR_BACKWARD_SLASH # norm_tail True (win32_segs False x) b"
proof -
  have ne: "p \<noteq> []" using assms by (auto simp: win32_rooted_def sepAt_def deviceLetterAt_def charCodeAt_def)
  have nil: "norm_tail True (win32_segs False []) False = []"
    by (simp add: norm_tail_def resolve_segs_def)
  note tail = win32_normalize_tail_eq[OF ne]
  have abs_form: thesis if "win32_normalize_root p = Inr (None, r, True)" for r
    by (rule abs[of "drop r p" "isPathSeparator (last p)"])
      (use that ne in \<open>simp add: win32_normalize_str_def Let_def tail\<close>)
  consider (single) "length p = 1" "sepAt p 0" | (sep) "1 < length p" "sepAt p 0"
    | (letter) l q where "p = l # CHAR_COLON # q" "isWindowsDeviceRoot l"
  proof (cases "sepAt p 0")
    case True
    then show thesis using single sep ne by (cases p; cases "tl p") auto
  next
    case False
    then show thesis
      using assms letter unfolding win32_rooted_def by (cases p; cases "tl p") auto
  qed
  then show thesis
  proof cases
    case single
    then have "win32_normalize_str p = CHAR_BACKWARD_SLASH # norm_tail True (win32_segs False []) False"
      using ne unfolding nil by (simp add: win32_normalize_str_def win32_normalize_root_def)
    then show thesis by (rule abs)
  next
    case letter
    have ns: "\<not> isPathSeparator l" using letter by (simp add: letter_not_sep)
    have "win32_normalize_root p = Inr (Some [l, CHAR_COLON],
        if q \<noteq> [] \<and> sepAt q 0 then 3 else 2, q \<noteq> [] \<and> sepAt q 0)"
      using letter ns by (simp add: win32_normalize_root_def slice_def numeral_2_eq_2)
    then obtain a r where root: "win32_normalize_root p = Inr (Some [l, CHAR_COLON], r, a)" by blast
    show thesis
      by (rule drive[OF letter(2), of a "drop r p" "isPathSeparator (last p)"])
        (use ne in \<open>simp add: win32_normalize_str_def root Let_def tail\<close>)
  next
    case sep
    show thesis
    proof (cases "sepAt p 1 \<and> unc_match p \<noteq> None")
      case False
      then have "\<exists>r. win32_normalize_root p = Inr (None, r, True)"
        using sep by (cases "sepAt p 1"; cases "unc_match p") (simp_all add: win32_normalize_root_def)
      then show thesis using abs_form by blast
    next
      case True
      then obtain f l j where m: "unc_match p = Some (f, l, j)" by auto
      note pt = unc_match_parts[OF m] and bd = unc_match_bounds[OF m]
      show thesis
      proof (cases "j = length p")
        case True
        have "win32_normalize_str p = unc_device f (slice p l j) @
            CHAR_BACKWARD_SLASH # norm_tail True (win32_segs False []) False"
          unfolding nil using sep True m \<open>sepAt p 1 \<and> unc_match p \<noteq> None\<close> ne
          by (simp add: win32_normalize_str_def win32_normalize_root_def sliceFrom_def)
        then show thesis using unc[OF pt(1,2)] sep \<open>sepAt p 1 \<and> unc_match p \<noteq> None\<close> by blast
      next
        case False
        then have root: "win32_normalize_root p = Inr (Some (unc_device f (slice p l j)), j, True)"
          using sep m bd(6) \<open>sepAt p 1 \<and> unc_match p \<noteq> None\<close> by (simp add: win32_normalize_root_def)
        have "win32_normalize_str p = unc_device f (slice p l j) @
            CHAR_BACKWARD_SLASH # norm_tail True (win32_segs False (drop j p)) (isPathSeparator (last p))"
          using ne by (simp add: win32_normalize_str_def root Let_def tail)
        then show thesis using unc[OF pt(1,2)] sep \<open>sepAt p 1 \<and> unc_match p \<noteq> None\<close> by blast
      qed
    qed
  qed
qed

text \<open>
   \<^verbatim>\<open>win32.normalize\<close> is idempotent on the paths that start with a separator, a drive or a UNC
  root.
\<close>

theorem win32_normalize_idem:
  assumes "win32_rooted p"
  shows "win32_normalize_str (win32_normalize_str p) = win32_normalize_str p"
  by (rule win32_normalize_forms[OF assms])
    (simp_all add: win32_normalize_abs[OF refl] win32_normalize_drive[OF _ refl]
      win32_normalize_unc[OF _ _ refl])

lemma win32_normalize_idem_witness:
  "win32_normalize_str (win32_normalize_str (js ''//srv/share/a/../b/'')) =
     win32_normalize_str (js ''//srv/share/a/../b/'')"
  by (rule win32_normalize_idem) (simp add: win32_rooted_def isPathSeparator_def)

section \<open>join\<close>

text \<open>Two separators at the start, as a UNC path has them.\<close>

definition two_seps :: "jsstr \<Rightarrow> bool" where
  "two_seps p \<longleftrightarrow> sepAt p 0 \<and> sepAt p 1"

lemma two_seps_Cons:
  "t = [] \<or> \<not> isPathSeparator (hd t) \<Longrightarrow> \<not> two_seps (c # t)"
  by (cases t) (auto simp: two_seps_def sepAt_def charCodeAt_def)

lemma two_seps_hd: "p = [] \<or> \<not> isPathSeparator (hd p) \<Longrightarrow> \<not> two_seps p"
  by (cases p) (auto simp: two_seps_def sepAt_def charCodeAt_def)

lemma win32_normalize_plain:
  assumes "\<not> win32_rooted p" "p \<noteq> []"
  shows "win32_normalize_str p = norm_tail False (win32_segs True p) (isPathSeparator (last p))"
proof -
  have root: "win32_normalize_root p = Inr (None, 0, False)"
    using assms by (auto simp: win32_normalize_root_def win32_rooted_def)
  show ?thesis
    using assms(2) win32_normalize_tail_eq[OF assms(2), of 0 False]
    by (simp add: win32_normalize_str_def root Let_def)
qed

lemma win32_normalize_two_seps:
  assumes "\<not> two_seps p"
  shows "\<not> two_seps (win32_normalize_str p)"
proof -
  have hd: "norm_tail a (win32_segs (\<not> a) x) b = [] \<or>
      \<not> isPathSeparator (hd (norm_tail a (win32_segs (\<not> a) x) b))" for a x b
    using norm_tail_hd(1)[of a x b] by blast
  consider (empty) "p = []" | (plain) "p \<noteq> []" "\<not> win32_rooted p" | (rooted) "win32_rooted p" by blast
  then show ?thesis
  proof cases
    case empty
    then show ?thesis by (simp add: win32_normalize_str_def two_seps_hd)
  next
    case plain
    then show ?thesis
      using hd[of False] by (intro two_seps_hd) (simp add: win32_normalize_plain)
  next
    case rooted
    then show ?thesis
    proof (rule win32_normalize_forms)
      fix x b
      assume "win32_normalize_str p = CHAR_BACKWARD_SLASH # norm_tail True (win32_segs False x) b"
      then show ?thesis using hd[of True x b] by (simp add: two_seps_Cons)
    next
      fix l a x b
      assume "isWindowsDeviceRoot l" "win32_normalize_str p =
        l # CHAR_COLON # (if a then [CHAR_BACKWARD_SLASH] else []) @ norm_tail a (win32_segs (\<not> a) x) b"
      then show ?thesis using letter_not_sep[of l] by (intro two_seps_hd) simp
    next
      assume "sepAt p 0" "sepAt p 1"
      then show ?thesis using assms by (simp add: two_seps_def)
    qed
  qed
qed

lemma win32_join_loop_some:
  "win32_join_loop (map JStr ps) (Some (j, f)) =
     Inr (Some (foldl (\<lambda>j p. if p = [] then j else j @ CHAR_BACKWARD_SLASH # p) j ps, f))"
  by (induction ps arbitrary: j) (simp_all add: assertPath_def)

lemma win32_join_loop_strings:
  "win32_join_loop (map JStr ps) None =
     Inr (case [p \<leftarrow> ps. p \<noteq> []] of [] \<Rightarrow> None | f # fs \<Rightarrow> Some (wjoin (f # fs), f))"
proof (induction ps)
  case (Cons p ps)
  then show ?case
    using foldl_joinOn[of "[p]" CHAR_BACKWARD_SLASH ps]
    by (simp add: assertPath_def win32_join_loop_some)
qed simp

lemma win32_join_fix_two_seps:
  assumes "f \<noteq> []" "\<not> (two_seps f \<and> 2 < length f \<and> \<not> sepAt f 2)" "joined = f @ r"
  shows "\<not> two_seps (win32_join_fix joined f)"
proof -
  define n where "n = snd (win32_join_slashes f)"
  have "fst (win32_join_slashes f)"
    using assms(2) by (auto simp: win32_join_slashes_def two_seps_def)
  then have n: "win32_join_slashes f = (True, n)"
    unfolding n_def by (cases "win32_join_slashes f") simp
  have seps: "\<forall>i<n. sepAt f i"
    unfolding n_def
    by (auto simp: win32_join_slashes_def less_Suc_eq numeral_3_eq_3 numeral_2_eq_2)
  let ?k = "scanWhile isPathSeparator joined n"
  have in_f: "i < n \<Longrightarrow> i < length f" for i
    using seps by (auto simp: sepAt_def charCodeAt_def split: if_splits)
  have lead: "i < ?k \<Longrightarrow> isPathSeparator (joined ! i)" for i
  proof (cases "i < n")
    case True
    then show ?thesis using seps in_f[OF True] assms(3) by (auto simp: sepAt_def nth_append)
  next
    case False
    assume "i < ?k"
    then show ?thesis using False scanWhile_holds[of n i isPathSeparator joined] by simp
  qed
  have stop: "?k < length joined \<Longrightarrow> \<not> isPathSeparator (joined ! ?k)"
    by (rule scanWhile_stops)
  show ?thesis
  proof (cases "2 \<le> ?k")
    case True
    have "drop ?k joined = [] \<or> \<not> isPathSeparator (hd (drop ?k joined))"
      using stop by (cases "?k < length joined") (simp_all add: hd_drop_conv_nth)
    then have "\<not> two_seps (CHAR_BACKWARD_SLASH # drop ?k joined)" by (rule two_seps_Cons)
    then show ?thesis using True by (simp add: win32_join_fix_def n Let_def sliceFrom_def)
  next
    case False
    have "\<not> two_seps joined"
    proof
      assume "two_seps joined"
      then have two: "isPathSeparator (joined ! 0)" "isPathSeparator (joined ! 1)" "1 < length joined"
        by (auto simp: two_seps_def sepAt_def charCodeAt_def split: if_splits)
      have "?k = 0 \<or> ?k = 1" using False by auto
      then show False
      proof
        assume k: "?k = 0"
        have "0 < length joined" using two(3) by linarith
        from stop[unfolded k, OF this] two(1) show False ..
      next
        assume k: "?k = 1"
        from stop[unfolded k, OF two(3)] two(2) show False ..
      qed
    qed
    then show ?thesis using False by (simp add: win32_join_fix_def n Let_def)
  qed
qed

text \<open>
  C31.  \<^verbatim>\<open>win32.join\<close> does not make up a UNC path: unless its first non-empty argument starts with
  exactly two separators and something else, the result does not start with two separators.
\<close>

theorem win32_join_no_unc:
  assumes "all_strings args = Some ps" "[p \<leftarrow> ps. p \<noteq> []] = f # fs"
    and "\<not> (two_seps f \<and> 2 < length f \<and> \<not> sepAt f 2)"
  shows "\<exists>r. win32_join args = Inr r \<and> \<not> two_seps r"
proof -
  have args: "args = map JStr ps" by (rule all_strings_Some[OF assms(1)])
  have ne: "ps \<noteq> []" "f \<noteq> []" using assms(2) by (auto simp: filter_eq_Cons_iff)
  have "win32_join args = Inr (win32_normalize_str (win32_join_fix (wjoin (f # fs)) f))"
    using ne win32_join_loop_strings[of ps] unfolding args assms(2) win32_join_def by simp
  moreover obtain r where "wjoin (f # fs) = f @ r" by (cases fs) auto
  ultimately show ?thesis
    using win32_join_fix_two_seps[OF ne(2) assms(3)] win32_normalize_two_seps by blast
qed

lemma win32_join_no_unc_witness:
  "\<exists>r. win32_join [JStr (js ''//''), JStr (js ''srv''), JStr (js ''share'')] = Inr r \<and> \<not> two_seps r"
  using win32_join_no_unc[of "[JStr (js ''//''), JStr (js ''srv''), JStr (js ''share'')]"
      "[js ''//'', js ''srv'', js ''share'']" "js ''//''" "[js ''srv'', js ''share'']"]
  by (simp add: two_seps_def)

text \<open>
   \<^verbatim>\<open>win32.normalize\<close> can turn a relative path into an absolute one: a leading dot segment is
  dropped although the segment after it looks like a drive, so \<^verbatim>\<open>./C:/name\<close> becomes \<^verbatim>\<open>C:\name\<close>.
\<close>

theorem win32_normalize_drive_escape:
  assumes "isWindowsDeviceRoot l" "sepfree w" "w \<noteq> [CHAR_DOT]" "w \<noteq> [CHAR_DOT, CHAR_DOT]"
  defines "p \<equiv> [CHAR_DOT, CHAR_FORWARD_SLASH, l, CHAR_COLON, CHAR_FORWARD_SLASH] @ w"
  shows "\<not> win32_isAbsolute_str p \<and>
    win32_normalize_str p = [l, CHAR_COLON, CHAR_BACKWARD_SLASH] @ w \<and>
    win32_isAbsolute_str (win32_normalize_str p)"
proof -
  have l: "\<not> isPathSeparator l" "\<not> isPathSeparator CHAR_COLON" "\<not> isWindowsDeviceRoot CHAR_DOT"
    using letter_not_sep[OF assms(1)] by (simp_all add: isPathSeparator_def isWindowsDeviceRoot_def)
  have w: "w \<noteq> []" "splitOn isPathSeparator w = [w]" "\<not> isPathSeparator (last w)"
    using assms(2) by (simp_all add: sepfree_def splitOn_free)
  have plain: "\<not> win32_rooted p" "p \<noteq> []"
    using l by (simp_all add: p_def win32_rooted_def)
  have "splitOn isPathSeparator p = [[CHAR_DOT], [l, CHAR_COLON], w]"
    using l w(2) by (simp add: p_def isPathSeparator_def)
  then have "win32_segs True p = [[l, CHAR_COLON], w]"
    using w(1) assms(3,4) by (simp add: resolve_segs_def push_seg_def)
  then have norm: "win32_normalize_str p = [l, CHAR_COLON, CHAR_BACKWARD_SLASH] @ w"
    using w by (simp add: win32_normalize_plain[OF plain] norm_tail_def) (simp add: p_def)
  have "win32_isAbsolute_str ([l, CHAR_COLON, CHAR_BACKWARD_SLASH] @ w)"
    using w(1) assms(1) by (simp add: win32_isAbsolute_str_def numeral_2_eq_2)
  then show ?thesis using norm l by (simp add: win32_isAbsolute_str_def p_def)
qed

lemma win32_normalize_drive_escape_witness:
  "\<not> win32_isAbsolute_str (js ''./C:/x'') \<and>
   win32_isAbsolute_str (win32_normalize_str (js ''./C:/x''))"
  using win32_normalize_drive_escape[of 67 "js ''x''"]
  by (auto simp add: isWindowsDeviceRoot_def sepfree_def isPathSeparator_def)

end
