(* ===== verification/Querystring.thy ===== *)
theory Querystring
  imports Js_Prelude
begin

unbundle bit_operations_syntax

text \<open>
  \<^verbatim>\<open>lib_js/querystring.js\<close> and \<^verbatim>\<open>lib_js/internal/querystring.js\<close>: the percent-encoding loops, the
  lenient decoder, \<^verbatim>\<open>stringify\<close> and the one-pass \<^verbatim>\<open>parse\<close>.  \<^verbatim>\<open>decodeURIComponent\<close> is the function of
  ECMAScript; the native \<^verbatim>\<open>Buffer.toString\<close> and the contents of the memory \<^verbatim>\<open>Buffer.allocUnsafe\<close>
  returns are arguments.
\<close>

section \<open>Tables\<close>

definition hexDigit :: "nat \<Rightarrow> nat" where
  "hexDigit d = (if d < 10 then 48 + d else 55 + d)"

text \<open>\<^verbatim>\<open>'%' + ((i < 16 ? '0' : '') + i.toString(16)).toUpperCase()\<close>\<close>

definition hexTable :: "nat \<Rightarrow> jsstr" where
  "hexTable i = [CHAR_PERCENT, hexDigit (i div 16), hexDigit (i mod 16)]"

definition isHexTable :: "nat list" where
  "isHexTable = replicate 48 0 @ replicate 10 1 @ replicate 7 0 @ replicate 6 1 @
     replicate 26 0 @ replicate 6 1 @ replicate 153 0"

definition unhexTable :: "int list" where
  "unhexTable = replicate 48 (-1) @ [0, 1, 2, 3, 4, 5, 6, 7, 8, 9] @ replicate 7 (-1) @
     [10, 11, 12, 13, 14, 15] @ replicate 26 (-1) @ [10, 11, 12, 13, 14, 15] @ replicate 153 (-1)"

definition noEscape :: "nat list" where
  "noEscape = replicate 32 0 @
     [0, 1, 0, 0, 0, 0, 0, 1, 1, 1, 1, 0, 0, 1, 1, 0] @
     replicate 10 1 @ replicate 7 0 @ replicate 26 1 @ [0, 0, 0, 0, 1, 0] @ replicate 26 1 @
     [0, 0, 0, 1, 0]"

text \<open>\<^verbatim>\<open>!!isHexTable[c]\<close>, and \<^verbatim>\<open>unhexTable[c]\<close> where \<^verbatim>\<open>undefined\<close> fails the test \<^verbatim>\<open>>= 0\<close> like -1.\<close>

definition isHex :: "nat \<Rightarrow> bool" where
  "isHex c \<longleftrightarrow> c < length isHexTable \<and> isHexTable ! c = 1"

definition unhex :: "nat \<Rightarrow> int" where
  "unhex c = (if c < length unhexTable then unhexTable ! c else -1)"

section \<open>Encoding\<close>

text \<open>The bytes of a code unit below 0x80, of one below 0x800, of the others, of a pair.\<close>

definition enc2 :: "nat \<Rightarrow> jsstr" where
  "enc2 c = hexTable (0xC0 OR (drop_bit 6 c)) @ hexTable (0x80 OR (c AND 0x3F))"

definition enc3 :: "nat \<Rightarrow> jsstr" where
  "enc3 c = hexTable (0xE0 OR (drop_bit 12 c)) @ hexTable (0x80 OR ((drop_bit 6 c) AND 0x3F)) @
     hexTable (0x80 OR (c AND 0x3F))"

definition enc4 :: "nat \<Rightarrow> jsstr" where
  "enc4 c = hexTable (0xF0 OR (drop_bit 18 c)) @ hexTable (0x80 OR ((drop_bit 12 c) AND 0x3F)) @
     hexTable (0x80 OR ((drop_bit 6 c) AND 0x3F)) @ hexTable (0x80 OR (c AND 0x3F))"

definition surrogate_code :: "nat \<Rightarrow> nat \<Rightarrow> nat" where
  "surrogate_code c d = 0x10000 + ((push_bit 10 (c AND 0x3FF)) OR (d AND 0x3FF))"

text \<open>
  The loop of \<^verbatim>\<open>encodeStr\<close> and of \<^verbatim>\<open>escape\<close>: \<open>lastPos\<close> is the end of the part of the string that
  is already in \<open>out\<close>, \<open>malformed\<close> what it throws for a surrogate without its second half.
\<close>

function encode_loop :: "jserr \<Rightarrow> jsstr \<Rightarrow> nat list \<Rightarrow> nat \<Rightarrow> nat \<Rightarrow> jsstr \<Rightarrow> jserr + (nat \<times> jsstr)" where
  "encode_loop malformed str noEsc i lastPos out =
     (if i < length str then
        (let c = str ! i;
             out1 = (if lastPos < i then out @ slice str lastPos i else out)
         in if c < 0x80 then
              (if noEsc ! c = 1 then encode_loop malformed str noEsc (Suc i) lastPos out
               else encode_loop malformed str noEsc (Suc i) (i + 1) (out1 @ hexTable c))
            else if c < 0x800 then encode_loop malformed str noEsc (Suc i) (i + 1) (out1 @ enc2 c)
            else if c < 0xD800 \<or> c \<ge> 0xE000 then
              encode_loop malformed str noEsc (Suc i) (i + 1) (out1 @ enc3 c)
            else if i + 1 \<ge> length str then Inl malformed
            else encode_loop malformed str noEsc (Suc (Suc i)) (i + 2)
                   (out1 @ enc4 (surrogate_code c (str ! (i + 1)))))
      else Inr (lastPos, out))"
  by pat_completeness auto
termination
  by (relation "measure (\<lambda>(e, str, n, i, lp, out). length str - i)") auto

declare encode_loop.simps [simp del]

text \<open>
  In \<^verbatim>\<open>lib_js/internal/querystring.js\<close> the name \<^verbatim>\<open>ERR_INVALID_URI\<close> is not imported, so what is thrown is a
  ReferenceError.
\<close>

definition encodeStr :: "jsstr \<Rightarrow> nat list \<Rightarrow> jserr + jsstr" where
  "encodeStr str noEsc =
     (if length str = 0 then Inr []
      else ebind (encode_loop (ReferenceError (js ''ERR_INVALID_URI'')) str noEsc 0 0 []) (\<lambda>(lastPos, out).
        Inr (if lastPos = 0 then str
             else if lastPos < length str then out @ sliceFrom str lastPos
             else out)))"

text \<open>\<^verbatim>\<open>escape\<close> of a string runs the same loop with its own table.\<close>

definition qsEscape :: "jsstr \<Rightarrow> jserr + jsstr" where
  "qsEscape str =
     ebind (encode_loop ERR_INVALID_URI str noEscape 0 0 []) (\<lambda>(lastPos, out).
       Inr (if lastPos = 0 then str
            else if lastPos < length str then out @ sliceFrom str lastPos
            else out))"

section \<open>Decoding\<close>

text \<open>
  \<^verbatim>\<open>unescapeBuffer\<close>: the loop returns the bytes written and the flag \<open>hasHex\<close>.  A store into the
  buffer keeps the low eight bits.
\<close>

function unescape_loop :: "jsstr \<Rightarrow> bool \<Rightarrow> nat \<Rightarrow> nat list \<Rightarrow> bool \<Rightarrow> nat list \<times> bool" where
  "unescape_loop s decodeSpaces index out hasHex =
     (if index < length s then
        (let c = s ! index in
         if c = CHAR_PLUS \<and> decodeSpaces then
           unescape_loop s decodeSpaces (Suc index) (out @ [32]) hasHex
         else if c = CHAR_PERCENT \<and> int index < int (length s) - 2 then
           (let c1 = s ! (index + 1); hexHigh = unhex c1 in
            if \<not> hexHigh \<ge> 0 then
              unescape_loop s decodeSpaces (index + 2) (out @ [CHAR_PERCENT, c1 mod 256]) hasHex
            else
              (let c2 = s ! (index + 2); hexLow = unhex c2 in
               if \<not> hexLow \<ge> 0 then
                 unescape_loop s decodeSpaces (index + 3)
                   (out @ [CHAR_PERCENT, c1 mod 256, c2 mod 256]) hasHex
               else
                 unescape_loop s decodeSpaces (index + 3)
                   (out @ [nat (hexHigh * 16 + hexLow) mod 256]) True))
         else unescape_loop s decodeSpaces (Suc index) (out @ [c mod 256]) hasHex)
      else (out, hasHex))"
  by pat_completeness auto
termination
  by (relation "measure (\<lambda>(s, d, i, out, h). length s - i)") auto

declare unescape_loop.simps [simp del]

text \<open>
  The buffer has \<open>length s\<close> bytes of uninitialised memory (\<open>uninit\<close>); only when something was
  decoded is it cut to the bytes written.
\<close>

definition unescapeBuffer :: "(nat \<Rightarrow> nat) \<Rightarrow> jsstr \<Rightarrow> bool \<Rightarrow> nat list" where
  "unescapeBuffer uninit s decodeSpaces =
     (case unescape_loop s decodeSpaces 0 [] False of
        (out, hasHex) \<Rightarrow>
          if hasHex then out else out @ map uninit [length out ..< length s])"

text \<open>ECMAScript \<^verbatim>\<open>decodeURIComponent\<close>: a byte written as \<^verbatim>\<open>%XX\<close>.\<close>

fun percent_byte :: "jsstr \<Rightarrow> (nat \<times> jsstr) option" where
  "percent_byte (p # h # l # rest) =
     (if p = CHAR_PERCENT \<and> unhex h \<ge> 0 \<and> unhex l \<ge> 0
      then Some (nat (unhex h * 16 + unhex l), rest) else None)"
| "percent_byte s = None"

text \<open>The number of continuation bytes of a leading byte, and its bits.\<close>

definition utf8_lead :: "nat \<Rightarrow> (nat \<times> nat) option" where
  "utf8_lead b =
     (if 0xC0 \<le> b \<and> b < 0xE0 then Some (1, b - 0xC0)
      else if 0xE0 \<le> b \<and> b < 0xF0 then Some (2, b - 0xE0)
      else if 0xF0 \<le> b \<and> b < 0xF8 then Some (3, b - 0xF0)
      else None)"

fun utf8_cont :: "nat \<Rightarrow> nat \<Rightarrow> jsstr \<Rightarrow> (nat \<times> jsstr) option" where
  "utf8_cont 0 v s = Some (v, s)"
| "utf8_cont (Suc n) v s =
     (case percent_byte s of
        None \<Rightarrow> None
      | Some (b, rest) \<Rightarrow>
          if 0x80 \<le> b \<and> b < 0xC0 then utf8_cont n (v * 64 + (b - 0x80)) rest else None)"

text \<open>Overlong forms, surrogates and values above 0x10FFFF are not UTF-8.\<close>

definition utf8_valid :: "nat \<Rightarrow> nat \<Rightarrow> bool" where
  "utf8_valid n v \<longleftrightarrow>
     (n = 1 \<and> 0x80 \<le> v \<or> n = 2 \<and> 0x800 \<le> v \<and> \<not> (0xD800 \<le> v \<and> v < 0xE000) \<or>
      n = 3 \<and> 0x10000 \<le> v \<and> v < 0x110000)"

definition utf16 :: "nat \<Rightarrow> jsstr" where
  "utf16 v = (if v < 0x10000 then [v]
              else [0xD800 + (v - 0x10000) div 0x400, 0xDC00 + (v - 0x10000) mod 0x400])"

lemma percent_byte_length: "percent_byte s = Some (b, r) \<Longrightarrow> length r < length s"
  by (cases s rule: percent_byte.cases) (auto split: if_splits)

lemma utf8_cont_length: "utf8_cont n v s = Some (w, r) \<Longrightarrow> length r \<le> length s"
proof (induction n arbitrary: v s)
  case (Suc n)
  then show ?case
    using percent_byte_length[of s] by (fastforce split: option.splits prod.splits if_splits)
qed simp

text \<open>One unit of the decoder: what a percent sign and the bytes after it stand for.\<close>

definition decode_percent :: "jsstr \<Rightarrow> (jsstr \<times> jsstr) option" where
  "decode_percent s =
     (case percent_byte s of
        None \<Rightarrow> None
      | Some (b, rest) \<Rightarrow>
          if b < 0x80 then Some ([b], rest)
          else (case utf8_lead b of
                  None \<Rightarrow> None
                | Some (n, v) \<Rightarrow>
                    (case utf8_cont n v rest of
                       None \<Rightarrow> None
                     | Some (w, rest') \<Rightarrow> if utf8_valid n w then Some (utf16 w, rest') else None)))"

lemma decode_percent_length: "decode_percent s = Some (o1, r) \<Longrightarrow> length r < length s"
  using percent_byte_length[of s] utf8_cont_length
  by (fastforce simp: decode_percent_def split: option.splits prod.splits if_splits)

function decode_run :: "jsstr \<Rightarrow> jsstr option" where
  "decode_run [] = Some []"
| "decode_run (c # s) =
     (if c = CHAR_PERCENT then
        (case decode_percent (c # s) of
           None \<Rightarrow> None
         | Some (o1, rest) \<Rightarrow> map_option (\<lambda>r. o1 @ r) (decode_run rest))
      else map_option (\<lambda>r. c # r) (decode_run s))"
  by pat_completeness auto
termination
  by (relation "measure length") (auto dest: decode_percent_length)

definition decodeURIComponent :: "jsstr \<Rightarrow> jserr + jsstr" where
  "decodeURIComponent s = (case decode_run s of None \<Rightarrow> Inl URIError | Some r \<Rightarrow> Inr r)"

text \<open>The native parts: the conversion of bytes to a string and the memory of a fresh buffer.\<close>

record buffer_env =
  bufToString :: "nat list \<Rightarrow> jsstr"
  bufUninit :: "nat \<Rightarrow> nat"

definition qsUnescape :: "buffer_env \<Rightarrow> jsstr \<Rightarrow> bool \<Rightarrow> jsstr" where
  "qsUnescape env s decodeSpaces =
     (case decodeURIComponent s of
        Inr r \<Rightarrow> r
      | Inl _ \<Rightarrow> bufToString env (unescapeBuffer (bufUninit env) s decodeSpaces))"

text \<open>\<^verbatim>\<open>decodeStr\<close>: a decoder that throws is replaced by the lenient one.\<close>

definition decodeStr :: "buffer_env \<Rightarrow> jsstr \<Rightarrow> (jsstr \<Rightarrow> jserr + jsstr) \<Rightarrow> jsstr" where
  "decodeStr env s decoder =
     (case decoder s of Inr r \<Rightarrow> r | Inl _ \<Rightarrow> qsUnescape env s True)"

section \<open>stringify\<close>

definition stringifyPrimitive :: "jsval \<Rightarrow> jsstr" where
  "stringifyPrimitive v =
     (case v of
        JStr s \<Rightarrow> s
      | JNum (Fin i) \<Rightarrow> int_to_js i
      | JBool b \<Rightarrow> if b then js ''true'' else js ''false''
      | _ \<Rightarrow> [])"

text \<open>The properties of the object in the order of \<^verbatim>\<open>Object.keys\<close>: an array or another value.\<close>

datatype qvalue = QPrim jsval | QArray "jsval list"

type_synonym encoder = "jsstr \<Rightarrow> jserr + jsstr"

text \<open>The elements of an array, with \<open>sep\<close> between them (\<open>vlast\<close> is the index of the last one).\<close>

fun stringify_array :: "encoder \<Rightarrow> jsstr \<Rightarrow> jsstr \<Rightarrow> jsval list \<Rightarrow> jsstr \<Rightarrow> jserr + jsstr" where
  "stringify_array encode ks sep [] acc = Inr acc"
| "stringify_array encode ks sep (v # rest) acc =
     ebind (encode (stringifyPrimitive v)) (\<lambda>e.
       stringify_array encode ks sep rest
         (acc @ ks @ e @ (if rest = [] then [] else sep)))"

fun stringify_fields ::
  "encoder \<Rightarrow> jsstr \<Rightarrow> jsstr \<Rightarrow> (jsstr \<times> qvalue) list \<Rightarrow> jsstr \<Rightarrow> jserr + jsstr"
where
  "stringify_fields encode sep eq [] acc = Inr acc"
| "stringify_fields encode sep eq ((k, v) # rest) acc =
     ebind (encode (stringifyPrimitive (JStr k))) (\<lambda>ek.
       let ks = ek @ eq in
       case v of
         QArray vs \<Rightarrow>
           ebind (stringify_array encode ks sep vs acc) (\<lambda>f.
             stringify_fields encode sep eq rest
               (if vs \<noteq> [] \<and> rest \<noteq> [] then f @ sep else f))
       | QPrim p \<Rightarrow>
           ebind (encode (stringifyPrimitive p)) (\<lambda>e.
             stringify_fields encode sep eq rest
               (acc @ ks @ e @ (if rest \<noteq> [] then sep else []))))"

text \<open>\<^verbatim>\<open>x || d\<close> for an optional string argument.\<close>

definition or_default :: "jsstr option \<Rightarrow> jsstr \<Rightarrow> jsstr" where
  "or_default s d = (case s of None \<Rightarrow> d | Some x \<Rightarrow> if x = [] then d else x)"

text \<open>\<open>None\<close> for an argument that is no object; \<open>encode\<close> is \<^verbatim>\<open>options.encodeURIComponent\<close>.\<close>

definition stringify ::
  "(jsstr \<times> qvalue) list option \<Rightarrow> jsstr option \<Rightarrow> jsstr option \<Rightarrow> encoder option \<Rightarrow> jserr + jsstr"
where
  "stringify obj sep eq encode =
     (let sep' = or_default sep [CHAR_AMPERSAND];
          eq' = or_default eq [CHAR_EQUAL];
          enc = (case encode of None \<Rightarrow> qsEscape | Some f \<Rightarrow> f)
      in case obj of
           None \<Rightarrow> Inr []
         | Some acc \<Rightarrow> stringify_fields enc sep' eq' acc [])"

section \<open>parse\<close>

text \<open>The values \<^verbatim>\<open>parse\<close> stores: a string, or an array once a key occurs again.\<close>

datatype pvalue = PStr jsstr | PArr "jsstr list"

type_synonym pobject = "(jsstr \<times> pvalue) list"

text \<open>\<^verbatim>\<open>obj[key] = value\<close>, or the value appended to what is there.\<close>

fun obj_add :: "pobject \<Rightarrow> jsstr \<Rightarrow> jsstr \<Rightarrow> pobject" where
  "obj_add [] key val = [(key, PStr val)]"
| "obj_add ((k, v) # rest) key val =
     (if k = key then
        (k, case v of PArr vs \<Rightarrow> PArr (vs @ [val]) | PStr cur \<Rightarrow> PArr [cur, val]) # rest
      else (k, v) # obj_add rest key val)"

text \<open>The arguments that stay fixed, and the local variables.\<close>

record parse_conf =
  pc_qs :: jsstr
  sepCodes :: "nat list"
  eqCodes :: "nat list"
  pc_decode :: "jsstr \<Rightarrow> jserr + jsstr"
  customDecode :: bool
  pc_env :: buffer_env

record parse_state =
  pobj :: pobject
  pairs :: int
  lastPos :: nat
  sepIdx :: nat
  eqIdx :: nat
  pkey :: jsstr
  pval :: jsstr
  keyEncoded :: bool
  valEncoded :: bool
  encodeCheck :: nat

definition plusChar :: "parse_conf \<Rightarrow> jsstr" where
  "plusChar cf = (if customDecode cf then [CHAR_PERCENT, 50, 48] else [CHAR_SPACE])"

text \<open>Both parts are decoded where they need it, and stored.\<close>

definition parse_store :: "parse_conf \<Rightarrow> parse_state \<Rightarrow> pobject" where
  "parse_store cf st =
     (let key = (if length (pkey st) > 0 \<and> keyEncoded st
                 then decodeStr (pc_env cf) (pkey st) (pc_decode cf) else pkey st);
          val = (if length (pval st) > 0 \<and> valEncoded st
                 then decodeStr (pc_env cf) (pval st) (pc_decode cf) else pval st)
      in obj_add (pobj st) key val)"

text \<open>A complete pair separator ends at index \<open>i\<close>; \<open>Inl\<close> is an early return.\<close>

definition parse_pair :: "parse_conf \<Rightarrow> nat \<Rightarrow> parse_state \<Rightarrow> pobject + parse_state" where
  "parse_pair cf i st =
     (let endp = i + 1 - sepIdx st;
          key_open = eqIdx st < length (eqCodes cf)
      in if key_open \<and> \<not> lastPos st < endp \<and> length (pkey st) = 0 then
           (if pairs st - 1 = 0 then Inl (pobj st)
            else Inr (st\<lparr>pairs := pairs st - 1, lastPos := i + 1, sepIdx := 0, eqIdx := 0\<rparr>))
         else
           (let part = slice (pc_qs cf) (lastPos st) endp;
                st1 = (if key_open then
                         (if lastPos st < endp then st\<lparr>pkey := pkey st @ part\<rparr> else st)
                       else if lastPos st < endp then st\<lparr>pval := pval st @ part\<rparr>
                       else st);
                obj' = parse_store cf st1
            in if pairs st1 - 1 = 0 then Inl obj'
               else Inr (st1\<lparr>pobj := obj', pairs := pairs st1 - 1, keyEncoded := customDecode cf,
                             valEncoded := customDecode cf, pkey := [], pval := [],
                             encodeCheck := 0, lastPos := i + 1, sepIdx := 0, eqIdx := 0\<rparr>)))"

text \<open>The check for a valid encoded byte in the value.\<close>

definition parse_value_char :: "parse_conf \<Rightarrow> nat \<Rightarrow> nat \<Rightarrow> parse_state \<Rightarrow> parse_state" where
  "parse_value_char cf i code st =
     (if code = CHAR_PLUS then
        st\<lparr>pval := (if lastPos st < i then pval st @ slice (pc_qs cf) (lastPos st) i else pval st)
                    @ plusChar cf,
           lastPos := i + 1\<rparr>
      else if \<not> valEncoded st then
        (if code = CHAR_PERCENT then st\<lparr>encodeCheck := 1\<rparr>
         else if encodeCheck st > 0 then
           (if isHex code then
              st\<lparr>encodeCheck := encodeCheck st + 1,
                 valEncoded := (if encodeCheck st + 1 = 3 then True else valEncoded st)\<rparr>
            else st\<lparr>encodeCheck := 0\<rparr>)
         else st)
      else st)"

text \<open>A plus sign in the key, or else the character is treated like one of the value.\<close>

definition parse_key_plus :: "parse_conf \<Rightarrow> nat \<Rightarrow> nat \<Rightarrow> parse_state \<Rightarrow> parse_state" where
  "parse_key_plus cf i code st =
     (if code = CHAR_PLUS then
        st\<lparr>pkey := (if lastPos st < i then pkey st @ slice (pc_qs cf) (lastPos st) i else pkey st)
                    @ plusChar cf,
           lastPos := i + 1\<rparr>
      else parse_value_char cf i code st)"

text \<open>A character while the key/value separator has not been found.\<close>

definition parse_key_char :: "parse_conf \<Rightarrow> nat \<Rightarrow> nat \<Rightarrow> parse_state \<Rightarrow> parse_state" where
  "parse_key_char cf i code st =
     (if code = eqCodes cf ! eqIdx st then
        (let st1 = st\<lparr>eqIdx := eqIdx st + 1\<rparr>
         in if eqIdx st1 = length (eqCodes cf) then
              (let endp = i + 1 - eqIdx st1
               in st1\<lparr>pkey := (if lastPos st1 < endp
                               then pkey st1 @ slice (pc_qs cf) (lastPos st1) endp else pkey st1),
                      encodeCheck := 0, lastPos := i + 1\<rparr>)
            else st1)
      else
        (let st1 = st\<lparr>eqIdx := 0\<rparr>
         in if \<not> keyEncoded st1 then
              (if code = CHAR_PERCENT then st1\<lparr>encodeCheck := 1\<rparr>
               else if encodeCheck st1 > 0 then
                 (if isHex code then
                    st1\<lparr>encodeCheck := encodeCheck st1 + 1,
                        keyEncoded := (if encodeCheck st1 + 1 = 3 then True else keyEncoded st1)\<rparr>
                  else parse_key_plus cf i code (st1\<lparr>encodeCheck := 0\<rparr>))
               else parse_key_plus cf i code st1)
            else parse_key_plus cf i code st1))"

definition parse_step :: "parse_conf \<Rightarrow> nat \<Rightarrow> parse_state \<Rightarrow> pobject + parse_state" where
  "parse_step cf i st =
     (let code = pc_qs cf ! i in
      if code = sepCodes cf ! sepIdx st then
        (let st1 = st\<lparr>sepIdx := sepIdx st + 1\<rparr>
         in if sepIdx st1 = length (sepCodes cf) then parse_pair cf i st1 else Inr st1)
      else
        (let st1 = st\<lparr>sepIdx := 0\<rparr>
         in if eqIdx st1 < length (eqCodes cf) then Inr (parse_key_char cf i code st1)
            else Inr (parse_value_char cf i code st1)))"

text \<open>What is left when the string ends.\<close>

definition parse_finish :: "parse_conf \<Rightarrow> parse_state \<Rightarrow> pobject" where
  "parse_finish cf st =
     (if lastPos st < length (pc_qs cf) then
        parse_store cf
          (if eqIdx st < length (eqCodes cf) then
             st\<lparr>pkey := pkey st @ sliceFrom (pc_qs cf) (lastPos st)\<rparr>
           else if sepIdx st < length (sepCodes cf) then
             st\<lparr>pval := pval st @ sliceFrom (pc_qs cf) (lastPos st)\<rparr>
           else st)
      else if eqIdx st = 0 \<and> length (pkey st) = 0 then pobj st
      else parse_store cf st)"

function parse_run :: "parse_conf \<Rightarrow> nat \<Rightarrow> parse_state \<Rightarrow> pobject" where
  "parse_run cf i st =
     (if i < length (pc_qs cf) then
        (case parse_step cf i st of Inl obj \<Rightarrow> obj | Inr st' \<Rightarrow> parse_run cf (Suc i) st')
      else parse_finish cf st)"
  by pat_completeness auto
termination
  by (relation "measure (\<lambda>(cf, i, st). length (pc_qs cf) - i)") auto

declare parse_run.simps [simp del]

text \<open>\<open>maxKeys\<close> is \<open>None\<close> when the option is not a number; \<open>decode\<close> is a decoder of the caller.\<close>

definition parse_pairs :: "int option \<Rightarrow> int" where
  "parse_pairs maxKeys = (case maxKeys of None \<Rightarrow> 1000 | Some k \<Rightarrow> if k > 0 then k else -1)"

definition parse_start :: "bool \<Rightarrow> int option \<Rightarrow> parse_state" where
  "parse_start custom maxKeys =
     \<lparr>pobj = [], pairs = parse_pairs maxKeys, lastPos = 0, sepIdx = 0, eqIdx = 0, pkey = [],
      pval = [], keyEncoded = custom, valEncoded = custom, encodeCheck = 0\<rparr>"

definition qs_parse ::
  "buffer_env \<Rightarrow> jsval \<Rightarrow> jsstr option \<Rightarrow> jsstr option \<Rightarrow> int option \<Rightarrow> encoder option \<Rightarrow> pobject"
where
  "qs_parse env qs sep eq maxKeys decode =
     (case qs of
        JStr s \<Rightarrow>
          if length s = 0 then []
          else
            (let custom = (decode \<noteq> None)
             in parse_run
                  \<lparr>pc_qs = s, sepCodes = or_default sep [CHAR_AMPERSAND],
                   eqCodes = or_default eq [CHAR_EQUAL],
                   pc_decode = (case decode of Some f \<Rightarrow> f
                                | None \<Rightarrow> (\<lambda>t. Inr (qsUnescape env t False))),
                   customDecode = custom, pc_env = env\<rparr>
                  0 (parse_start custom maxKeys))
      | _ \<Rightarrow> [])"

end
