(* ===== verification/Querystring_Codec.thy ===== *)
theory Querystring_Codec
  imports Querystring
begin

text \<open>
  Properties of the encoder and the decoders of the query string module: the encoding loop against
  its unit-by-unit specification, the round trip through UTF-8 percent encoding, and the buffer
  the lenient decoder fills.
\<close>

section \<open>Bytes and their digits\<close>

lemma and_low_bits: "(c::nat) AND 0x3F = c mod 64" "c AND 0x3FF = c mod 1024"
proof -
  have "(0x3F::nat) = mask 6" "(0x3FF::nat) = mask 10" by (simp_all add: mask_eq_exp_minus_1)
  then show "c AND 0x3F = c mod 64" "c AND 0x3FF = c mod 1024"
    by (simp_all only: flip: take_bit_eq_mask) (simp_all add: take_bit_eq_mod)
qed

lemma or_shifted: "b < 2 ^ n \<Longrightarrow> (push_bit n a) OR b = a * 2 ^ n + (b::nat)"
proof -
  assume "b < 2 ^ n"
  then have "b = take_bit n b" by (simp add: take_bit_nat_eq_self)
  then have "push_bit n a AND b = 0"
    by (metis and_zero_eq bit.conj_disj_distrib take_bit_eq_mask push_bit_take_bit take_bit_and take_bit_push_bit and.assoc and.commute cancel_comm_monoid_add_class.diff_cancel diff_is_0_eq' nle_le push_bit_of_0 take_bit_0)
  then have "push_bit n a + b = push_bit n a OR b" by (rule disjunctive_add_eq_or)
  then show ?thesis by (simp add: push_bit_eq_mult)
qed

lemma or_lead:
  "x < 64 \<Longrightarrow> (0x80::nat) OR x = 128 + x" "x < 32 \<Longrightarrow> (0xC0::nat) OR x = 192 + x"
  "x < 16 \<Longrightarrow> (0xE0::nat) OR x = 224 + x" "x < 8 \<Longrightarrow> (0xF0::nat) OR x = 240 + x"
  using or_shifted[of x 6 2] or_shifted[of x 5 6] or_shifted[of x 4 14] or_shifted[of x 3 30]
  by (simp_all add: push_bit_eq_mult)

lemma drop_bits: "drop_bit 6 (c::nat) = c div 64" "drop_bit 12 c = c div 4096" "drop_bit 18 c = c div 262144"
  by (simp_all add: drop_bit_eq_div)

lemma unhex_hexDigit: "d < 16 \<Longrightarrow> unhex (hexDigit d) = int d"
proof -
  have "\<forall>d\<in>set [0..<16]. unhex (hexDigit d) = int d" by code_simp
  then show "d < 16 \<Longrightarrow> unhex (hexDigit d) = int d" by simp
qed

lemma percent_hexTable: "b < 256 \<Longrightarrow> percent_byte (hexTable b @ rest) = Some (b, rest)"
proof -
  assume b: "b < 256"
  have "int (b div 16) * 16 + int (b mod 16) = int b"
    by (metis div_mult_mod_eq of_nat_add of_nat_mult of_nat_numeral)
  then show ?thesis
    using b by (simp add: hexTable_def unhex_hexDigit less_mult_imp_div_less)
qed

section \<open>What the encoding loop computes\<close>

fun enc_spec :: "nat list \<Rightarrow> jsstr \<Rightarrow> jsstr option" where
  "enc_spec noEsc [] = Some []"
| "enc_spec noEsc (c # s) =
     (if c < 0x80 then
        map_option (\<lambda>r. (if noEsc ! c = 1 then [c] else hexTable c) @ r) (enc_spec noEsc s)
      else if c < 0x800 then map_option (\<lambda>r. enc2 c @ r) (enc_spec noEsc s)
      else if c < 0xD800 \<or> c \<ge> 0xE000 then map_option (\<lambda>r. enc3 c @ r) (enc_spec noEsc s)
      else (case s of
              [] \<Rightarrow> None
            | d # s' \<Rightarrow>
                map_option (\<lambda>r. enc4 (surrogate_code c d) @ r) (enc_spec noEsc s')))"

lemma encode_loop_spec:
  assumes "lp0 \<le> i" "i \<le> length str"
  shows "case enc_spec noEsc (drop i str) of
      None \<Rightarrow> encode_loop malformed str noEsc i lp0 out = Inl malformed
    | Some r \<Rightarrow> \<exists>lp out'. encode_loop malformed str noEsc i lp0 out = Inr (lp, out') \<and>
        out' @ drop lp str = out @ slice str lp0 i @ r \<and>
        (lp = 0 \<longrightarrow> lp0 = 0 \<and> out' = out) \<and> lp \<le> length str"
  using assms
proof (induction malformed str noEsc i lp0 out rule: encode_loop.induct)
  case (1 malformed str noEsc i lp0 out)
  show ?case
  proof (cases "i < length str")
    case False
    then have "encode_loop malformed str noEsc i lp0 out = Inr (lp0, out)"
      by (subst encode_loop.simps) simp
    then show ?thesis using False "1.prems" by (simp add: slice_def)
  next
    case True
    let ?c = "str ! i" and ?out = "if lp0 < i then out @ slice str lp0 i else out"
    have out: "?out = out @ slice str lp0 i" by simp
    have drop: "drop i str = ?c # drop (Suc i) str" using True by (simp add: Cons_nth_drop_Suc)
    note IH = "1.IH"[OF True refl refl]
    note unf = encode_loop.simps[of malformed str noEsc i lp0 out]
    have app: "slice str lp0 (Suc i) = slice str lp0 i @ [?c]"
      using True "1.prems" by (simp add: slice_Suc)
    consider (plain) "?c < 0x80" "noEsc ! ?c = 1" | (hex) "?c < 0x80" "noEsc ! ?c \<noteq> 1"
      | (two) "\<not> ?c < 0x80" "?c < 0x800"
      | (three) "\<not> ?c < 0x80" "\<not> ?c < 0x800" "?c < 0xD800 \<or> ?c \<ge> 0xE000"
      | (lone) "\<not> ?c < 0x80" "\<not> ?c < 0x800" "\<not> (?c < 0xD800 \<or> ?c \<ge> 0xE000)" "i + 1 \<ge> length str"
      | (pair) "\<not> ?c < 0x80" "\<not> ?c < 0x800" "\<not> (?c < 0xD800 \<or> ?c \<ge> 0xE000)" "i + 1 < length str"
      by linarith
    then show ?thesis
    proof cases
      case plain
      have "encode_loop malformed str noEsc i lp0 out = encode_loop malformed str noEsc (Suc i) lp0 out"
        unfolding unf using True plain by simp
      then show ?thesis
        using IH(1)[OF plain] True "1.prems" plain app
        by (auto simp: drop split: option.splits)
    next
      case hex
      have "encode_loop malformed str noEsc i lp0 out = encode_loop malformed str noEsc (Suc i) (i + 1) (?out @ hexTable ?c)"
        unfolding unf using True hex by (simp add: Let_def)
      then show ?thesis
        using IH(2)[OF hex] True "1.prems" hex unfolding out
        by (auto simp: drop split: option.splits)
    next
      case two
      have "encode_loop malformed str noEsc i lp0 out = encode_loop malformed str noEsc (Suc i) (i + 1) (?out @ enc2 ?c)"
        unfolding unf using True two by (simp add: Let_def)
      then show ?thesis
        using IH(3)[OF two] True "1.prems" two unfolding out
        by (auto simp: drop split: option.splits)
    next
      case three
      have "encode_loop malformed str noEsc i lp0 out = encode_loop malformed str noEsc (Suc i) (i + 1) (?out @ enc3 ?c)"
        unfolding unf using True three by (simp add: Let_def)
      then show ?thesis
        using IH(4)[OF three] True "1.prems" three unfolding out
        by (auto simp: drop split: option.splits)
    next
      case lone
      have "encode_loop malformed str noEsc i lp0 out = Inl malformed"
        unfolding unf using True lone by (simp add: Let_def)
      then show ?thesis using lone by (simp add: drop)
    next
      case pair
      have drop2: "drop (Suc i) str = str ! (i + 1) # drop (Suc (Suc i)) str"
        using pair by (simp add: Cons_nth_drop_Suc)
      have "encode_loop malformed str noEsc i lp0 out =
          encode_loop malformed str noEsc (Suc (Suc i)) (i + 2) (?out @ enc4 (surrogate_code ?c (str ! (i + 1))))"
        unfolding unf using True pair by (simp add: Let_def)
      then show ?thesis
        using IH(5)[OF pair(1-3)] True "1.prems" pair unfolding out
        by (auto simp: drop drop2 split: option.splits)
    qed
  qed
qed

lemma encode_result:
  "ebind (encode_loop malformed str noEsc 0 0 []) (\<lambda>(lp, out).
      Inr (if lp = 0 then str else if lp < length str then out @ sliceFrom str lp else out)) =
   (case enc_spec noEsc str of None \<Rightarrow> Inl malformed | Some r \<Rightarrow> Inr r)"
proof (cases "enc_spec noEsc str")
  case None
  then show ?thesis using encode_loop_spec[of 0 0 str malformed noEsc "[]"] by simp
next
  case (Some r)
  then obtain lp out where "encode_loop malformed str noEsc 0 0 [] = Inr (lp, out)" "out @ drop lp str = r"
    "lp = 0 \<longrightarrow> out = []" "lp \<le> length str"
    using encode_loop_spec[of 0 0 str malformed noEsc "[]"] by auto
  then show ?thesis using Some by (auto simp: sliceFrom_def)
qed

text \<open>
  C37.  The two encoding loops, which copy unescaped stretches of the string in one piece, produce
  the encoding unit by unit; they throw exactly on a surrogate at the end of the string, \<^verbatim>\<open>escape\<close> the
  URIError and \<^verbatim>\<open>encodeStr\<close>, whose file does not import the name of that error, a ReferenceError.
\<close>

theorem encode_correct:
  "encodeStr str noEsc =
     (case enc_spec noEsc str of None \<Rightarrow> Inl (ReferenceError (js ''ERR_INVALID_URI'')) | Some r \<Rightarrow> Inr r) \<and>
   qsEscape str = (case enc_spec noEscape str of None \<Rightarrow> Inl ERR_INVALID_URI | Some r \<Rightarrow> Inr r)"
  using encode_result[of "ReferenceError (js ''ERR_INVALID_URI'')" str noEsc] encode_result[of ERR_INVALID_URI str noEscape]
  by (simp add: encodeStr_def qsEscape_def)

section \<open>Decoding what was encoded\<close>

text \<open>Strings whose surrogates come in pairs.\<close>

fun wf_utf16 :: "jsstr \<Rightarrow> bool" where
  "wf_utf16 [] = True"
| "wf_utf16 (c # s) =
     (if c < 0xD800 \<or> c \<ge> 0xE000 then c < 0x10000 \<and> wf_utf16 s
      else c < 0xDC00 \<and> (case s of [] \<Rightarrow> False
             | d # s' \<Rightarrow> 0xDC00 \<le> d \<and> d < 0xE000 \<and> wf_utf16 s'))"

lemma enc2_bytes: "c < 0x800 \<Longrightarrow>
  enc2 c = hexTable (192 + c div 64) @ hexTable (128 + c mod 64)"
  by (simp add: enc2_def and_low_bits drop_bits or_lead less_mult_imp_div_less)

lemma enc3_bytes: "c < 0x10000 \<Longrightarrow>
  enc3 c = hexTable (224 + c div 4096) @ hexTable (128 + c div 64 mod 64) @ hexTable (128 + c mod 64)"
  by (simp add: enc3_def and_low_bits drop_bits or_lead less_mult_imp_div_less)

lemma enc4_bytes: "c < 0x200000 \<Longrightarrow>
  enc4 c = hexTable (240 + c div 262144) @ hexTable (128 + c div 4096 mod 64) @
    hexTable (128 + c div 64 mod 64) @ hexTable (128 + c mod 64)"
  by (simp add: enc4_def and_low_bits drop_bits or_lead less_mult_imp_div_less)

lemma surrogate_code_eq: "surrogate_code c d = 0x10000 + (c mod 1024) * 1024 + d mod 1024"
  using or_shifted[of "d mod 1024" 10 "c mod 1024"] by (simp add: surrogate_code_def and_low_bits)

lemma utf8_cont_step: "x < 64 \<Longrightarrow>
  utf8_cont (Suc n) v (hexTable (128 + x) @ rest) = utf8_cont n (v * 64 + x) rest"
  by (simp add: percent_hexTable)

lemma decode_enc1: "c < 0x80 \<Longrightarrow> decode_percent (hexTable c @ rest) = Some ([c], rest)"
  by (simp add: decode_percent_def percent_hexTable)

lemma decode_enc2:
  assumes "0x80 \<le> c" "c < 0x800"
  shows "decode_percent (enc2 c @ rest) = Some ([c], rest)"
proof -
  have lt: "c div 64 < 32" "c mod 64 < 64" using assms by (simp_all add: less_mult_imp_div_less)
  have "utf8_lead (192 + c div 64) = Some (Suc 0, c div 64)" using lt by (simp add: utf8_lead_def)
  then show ?thesis
    using lt assms utf8_cont_step[OF lt(2), of 0 "c div 64" rest]
    by (simp add: decode_percent_def enc2_bytes percent_hexTable utf8_valid_def utf16_def
        del: utf8_cont.simps(2))
qed

lemma decode_enc3:
  assumes "0x800 \<le> c" "c < 0x10000" "c < 0xD800 \<or> c \<ge> 0xE000"
  shows "decode_percent (enc3 c @ rest) = Some ([c], rest)"
proof -
  have lt: "c div 4096 < 16" "c div 64 mod 64 < 64" "c mod 64 < 64"
    using assms by (simp_all add: less_mult_imp_div_less)
  have lead: "utf8_lead (224 + c div 4096) = Some (Suc (Suc 0), c div 4096)"
    using lt by (simp add: utf8_lead_def)
  have "c div 4096 = c div 64 div 64" by (simp flip: div_mult2_eq)
  then have sum: "(c div 4096 * 64 + c div 64 mod 64) * 64 + c mod 64 = c"
    by (simp only: div_mult_mod_eq)
  have cont: "utf8_cont (Suc (Suc 0)) (c div 4096)
      (hexTable (128 + c div 64 mod 64) @ hexTable (128 + c mod 64) @ rest) = Some (c, rest)"
    using utf8_cont_step[OF lt(2), of "Suc 0"] utf8_cont_step[OF lt(3), of 0] sum
    by (simp del: utf8_cont.simps(2))
  have valid: "utf8_valid (Suc (Suc 0)) c" "utf16 c = [c]"
    using assms by (auto simp: utf8_valid_def utf16_def numeral_2_eq_2)
  show ?thesis
    using lt assms(2) lead cont valid
    by (simp add: decode_percent_def enc3_bytes percent_hexTable del: utf8_cont.simps(2))
qed

lemma decode_enc4:
  assumes "0xD800 \<le> c" "c < 0xDC00" "0xDC00 \<le> d" "d < 0xE000"
  shows "decode_percent (enc4 (surrogate_code c d) @ rest) = Some ([c, d], rest)"
proof -
  define v where "v = surrogate_code c d"
  have v: "v = 0x10000 + (c - 0xD800) * 1024 + (d - 0xDC00)"
  proof -
    obtain a b where "c = 54 * 1024 + a" "a < 1024" "d = 55 * 1024 + b" "b < 1024"
    proof
      show "c = 54 * 1024 + (c - 0xD800)" "c - 0xD800 < 1024" "d = 55 * 1024 + (d - 0xDC00)"
        "d - 0xDC00 < 1024" using assms by simp_all
    qed
    then have "c mod 1024 = a" "d mod 1024 = b" "c - 0xD800 = a" "d - 0xDC00 = b"
      by (metis mod_mult_self3 mod_less, metis mod_mult_self3 mod_less, simp_all)
    then show ?thesis unfolding v_def surrogate_code_eq by simp
  qed
  then have r: "0x10000 \<le> v" "v < 0x110000" using assms by linarith+
  then have lt: "v div 262144 < 8" "v div 4096 mod 64 < 64" "v div 64 mod 64 < 64" "v mod 64 < 64"
    by (simp_all add: less_mult_imp_div_less)
  have lead: "utf8_lead (240 + v div 262144) = Some (Suc (Suc (Suc 0)), v div 262144)"
    using lt by (simp add: utf8_lead_def)
  have d64: "v div 262144 = v div 4096 div 64" "v div 4096 = v div 64 div 64"
    by (simp_all flip: div_mult2_eq)
  have sum: "((v div 262144 * 64 + v div 4096 mod 64) * 64 + v div 64 mod 64) * 64 + v mod 64 = v"
    by (simp only: d64 div_mult_mod_eq)
  have cont: "utf8_cont (Suc (Suc (Suc 0))) (v div 262144)
      (hexTable (128 + v div 4096 mod 64) @ hexTable (128 + v div 64 mod 64) @ hexTable (128 + v mod 64) @ rest)
      = Some (v, rest)"
    using utf8_cont_step[OF lt(2), of "Suc (Suc 0)"] utf8_cont_step[OF lt(3), of "Suc 0"]
      utf8_cont_step[OF lt(4), of 0] sum
    by (simp del: utf8_cont.simps(2))
  have surr: "(v - 0x10000) div 1024 = c - 0xD800" "(v - 0x10000) mod 1024 = d - 0xDC00"
  proof -
    define a b where "a = c - 0xD800" and "b = d - 0xDC00"
    have "b < 1024" using assms by (simp add: b_def)
    moreover have "v - 0x10000 = a * 1024 + b" by (simp add: v a_def b_def)
    ultimately show "(v - 0x10000) div 1024 = c - 0xD800" "(v - 0x10000) mod 1024 = d - 0xDC00"
      unfolding a_def[symmetric] b_def[symmetric] by simp_all
  qed
  have "utf16 v = [c, d]"
    using r assms by (simp add: utf16_def surr)
  then show ?thesis
    using lt r lead cont unfolding v_def[symmetric]
    by (simp add: decode_percent_def enc4_bytes percent_hexTable utf8_valid_def
        del: utf8_cont.simps(2))
qed

lemma decode_run_unit:
  assumes "decode_percent (u @ r) = Some (o1, r)" "u \<noteq> []" "hd u = CHAR_PERCENT"
  shows "decode_run (u @ r) = map_option (\<lambda>x. o1 @ x) (decode_run r)"
  using assms by (cases u) simp_all

lemma hexTable_hd [simp]: "hexTable c \<noteq> []" "hd (hexTable c @ r) = CHAR_PERCENT"
  by (simp_all add: hexTable_def)

lemma enc_hd: "enc2 c \<noteq> []" "hd (enc2 c) = CHAR_PERCENT" "enc3 c \<noteq> []" "hd (enc3 c) = CHAR_PERCENT"
  "enc4 c \<noteq> []" "hd (enc4 c) = CHAR_PERCENT"
  by (simp_all add: enc2_def enc3_def enc4_def)

lemma noEscape_percent: "noEscape ! CHAR_PERCENT = 0"
  by code_simp

lemma decode_enc_spec:
  "wf_utf16 s \<Longrightarrow> enc_spec noEscape s = Some r \<Longrightarrow> decode_run r = Some s"
proof (induction s arbitrary: r rule: wf_utf16.induct)
  case (2 c s)
  have wf: "\<not> (c < 0xD800 \<or> c \<ge> 0xE000) \<Longrightarrow> \<exists>d s'. s = d # s' \<and> c < 0xDC00 \<and> 0xDC00 \<le> d \<and> d < 0xE000 \<and> wf_utf16 s'"
    using "2.prems"(1) by (cases s) auto
  consider (plain) "c < 0x80" "noEscape ! c = 1" | (hex) "c < 0x80" "noEscape ! c \<noteq> 1"
    | (two) "\<not> c < 0x80" "c < 0x800"
    | (three) "\<not> c < 0x80" "\<not> c < 0x800" "c < 0xD800 \<or> c \<ge> 0xE000"
    | (pair) "\<not> c < 0x80" "\<not> c < 0x800" "\<not> (c < 0xD800 \<or> c \<ge> 0xE000)"
    by linarith
  then show ?case
  proof cases
    case plain
    then obtain r' where r': "enc_spec noEscape s = Some r'" "r = c # r'" using "2.prems"(2) by auto
    have "c \<noteq> CHAR_PERCENT" using plain(2) noEscape_percent by auto
    moreover have "decode_run r' = Some s" using 2 plain r' by auto
    ultimately show ?thesis using r' by simp
  next
    case hex
    then obtain r' where r': "enc_spec noEscape s = Some r'" "r = hexTable c @ r'" using "2.prems"(2) by auto
    have "decode_run r' = Some s" using 2 hex r' by auto
    then show ?thesis
      using r' decode_run_unit[OF decode_enc1[OF hex(1)], of r'] hexTable_hd(2)[of c "[]"] by simp
  next
    case two
    then obtain r' where r': "enc_spec noEscape s = Some r'" "r = enc2 c @ r'" using "2.prems"(2) by auto
    have "decode_run r' = Some s" using 2 two r' by auto
    then show ?thesis using r' decode_run_unit[OF decode_enc2[of c r']] two enc_hd by simp
  next
    case three
    then obtain r' where r': "enc_spec noEscape s = Some r'" "r = enc3 c @ r'" using "2.prems"(2) by auto
    have "decode_run r' = Some s" "c < 0x10000" using 2 three r' by auto
    then show ?thesis using r' decode_run_unit[OF decode_enc3[of c r']] three enc_hd by simp
  next
    case pair
    then obtain d s' where d: "s = d # s'" "c < 0xDC00" "0xDC00 \<le> d" "d < 0xE000" "wf_utf16 s'"
      using wf by blast
    then obtain r' where r': "enc_spec noEscape s' = Some r'" "r = enc4 (surrogate_code c d) @ r'"
      using "2.prems"(2) pair by auto
    have "decode_run r' = Some s'" using "2.IH"(2)[OF pair(3) d(1,5)] r' by simp
    then show ?thesis using r' d pair decode_run_unit[OF decode_enc4[of c d r']] enc_hd by simp
  qed
qed simp

lemma enc_spec_wf: "wf_utf16 s \<Longrightarrow> \<exists>r. enc_spec noEsc s = Some r"
  by (induction s rule: wf_utf16.induct) (auto split: list.splits if_splits)

text \<open>
   \<^verbatim>\<open>unescape\<close> is a left inverse of \<^verbatim>\<open>escape\<close> on the strings whose surrogates come in pairs.
\<close>

theorem unescape_escape:
  assumes "wf_utf16 s"
  shows "\<exists>e. qsEscape s = Inr e \<and> qsUnescape env e decodeSpaces = s"
proof -
  obtain r where r: "enc_spec noEscape s = Some r" using enc_spec_wf[OF assms] by blast
  then have "decode_run r = Some s" by (rule decode_enc_spec[OF assms])
  then show ?thesis
    using r encode_result[of ERR_INVALID_URI s noEscape]
    by (simp add: qsEscape_def qsUnescape_def decodeURIComponent_def)
qed

lemma unescape_escape_witness:
  "\<exists>e. qsEscape (js ''a b&'' @ [0xE9, 0x20AC, 0xD83D, 0xDE00]) = Inr e \<and>
     qsUnescape \<lparr>bufToString = id, bufUninit = (\<lambda>_. 0)\<rparr> e False = js ''a b&'' @ [0xE9, 0x20AC, 0xD83D, 0xDE00]"
  by (rule unescape_escape) simp

section \<open>The lenient decoder\<close>

definition unesc_ok ::
  "jsstr \<Rightarrow> nat \<Rightarrow> nat list \<Rightarrow> bool \<Rightarrow> nat list \<Rightarrow> bool \<Rightarrow> bool"
where
  "unesc_ok s index out h out' h' \<longleftrightarrow>
     (\<not> h' \<longrightarrow> length out' + index = length out + length s) \<and>
     length out' + index \<le> length out + length s \<and> (h \<longrightarrow> h') \<and>
     (set out \<subseteq> {..<256} \<longrightarrow> set out' \<subseteq> {..<256})"

lemma unesc_ok_step:
  assumes "unesc_ok s (index + k) (out @ w) h1 out' h'" "length w \<le> k" "\<not> h1 \<longrightarrow> length w = k"
    "h \<longrightarrow> h1" "set w \<subseteq> {..<256}"
  shows "unesc_ok s index out h out' h'"
  using assms by (cases h1; cases h') (simp_all add: unesc_ok_def)

lemma unescape_loop_ok:
  "index \<le> length s \<Longrightarrow> unescape_loop s ds index out h = (out', h') \<Longrightarrow> unesc_ok s index out h out' h'"
proof (induction s ds index out h rule: unescape_loop.induct)
  case (1 s ds index out h)
  show ?case
  proof (cases "index < length s")
    case False
    then have "unescape_loop s ds index out h = (out, h)" by (subst unescape_loop.simps) simp
    then show ?thesis using False "1.prems" by (simp add: unesc_ok_def)
  next
    case True
    note unf = unescape_loop.simps[of s ds index out h]
    let ?c = "s ! index" and ?c1 = "s ! (index + 1)" and ?c2 = "s ! (index + 2)"
    let ?p = "?c = CHAR_PERCENT \<and> int index < int (length s) - 2"
    consider (plus) "?c = CHAR_PLUS \<and> ds"
      | (high) "\<not> (?c = CHAR_PLUS \<and> ds)" ?p "\<not> unhex ?c1 \<ge> 0"
      | (low) "\<not> (?c = CHAR_PLUS \<and> ds)" ?p "\<not> \<not> unhex ?c1 \<ge> 0" "\<not> unhex ?c2 \<ge> 0"
      | (hex) "\<not> (?c = CHAR_PLUS \<and> ds)" ?p "\<not> \<not> unhex ?c1 \<ge> 0" "\<not> \<not> unhex ?c2 \<ge> 0"
      | (other) "\<not> (?c = CHAR_PLUS \<and> ds)" "\<not> ?p" by blast
    then show ?thesis
    proof cases
      case plus
      have eq: "unescape_loop s ds index out h = unescape_loop s ds (Suc index) (out @ [32]) h"
        unfolding unf using True plus by (simp add: Let_def)
      have le: "Suc index \<le> length s" using True True by linarith
      show ?thesis
        by (rule unesc_ok_step[where k = 1, folded Suc_eq_plus1, OF "1.IH"(1)[OF True refl plus, OF le "1.prems"(2)[unfolded eq]]]) (auto simp: nat_less_iff)
    next
      case high
      have eq: "unescape_loop s ds index out h = unescape_loop s ds (index + 2) (out @ [CHAR_PERCENT, ?c1 mod 256]) h"
        unfolding unf using True high by (simp add: Let_def)
      have le: "index + 2 \<le> length s" using True high(2) by linarith
      show ?thesis
        by (rule unesc_ok_step[OF "1.IH"(2)[OF True refl high(1,2) refl refl high(3), OF le "1.prems"(2)[unfolded eq]]]) (auto simp: nat_less_iff)
    next
      case low
      have eq: "unescape_loop s ds index out h = unescape_loop s ds (index + 3) (out @ [CHAR_PERCENT, ?c1 mod 256, ?c2 mod 256]) h"
        unfolding unf using True low by (simp add: Let_def)
      have le: "index + 3 \<le> length s" using True low(2) by linarith
      show ?thesis
        by (rule unesc_ok_step[OF "1.IH"(3)[OF True refl low(1,2) refl refl low(3) refl refl low(4), OF le "1.prems"(2)[unfolded eq]]]) (auto simp: nat_less_iff)
    next
      case hex
      have eq: "unescape_loop s ds index out h = unescape_loop s ds (index + 3) (out @ [nat (unhex ?c1 * 16 + unhex ?c2) mod 256]) True"
        unfolding unf using True hex by (simp add: Let_def)
      have le: "index + 3 \<le> length s" using True hex(2) by linarith
      show ?thesis
        by (rule unesc_ok_step[OF "1.IH"(4)[OF True refl hex(1,2) refl refl hex(3) refl refl hex(4), OF le "1.prems"(2)[unfolded eq]]]) (auto simp: nat_less_iff)
    next
      case other
      have eq: "unescape_loop s ds index out h = unescape_loop s ds (Suc index) (out @ [?c mod 256]) h"
        unfolding unf Let_def if_P[OF True] if_not_P[OF other(1)] if_not_P[OF other(2)] ..
      have le: "Suc index \<le> length s" using True True by linarith
      show ?thesis
        by (rule unesc_ok_step[where k = 1, folded Suc_eq_plus1, OF "1.IH"(5)[OF True refl other, OF le "1.prems"(2)[unfolded eq]]]) (auto simp: nat_less_iff)
    qed
  qed
qed

text \<open>
   \<^verbatim>\<open>unescapeBuffer\<close> never shows uninitialised memory: its result does not depend on what the
  fresh buffer contained, is no longer than the string, and consists of bytes.
\<close>

theorem unescapeBuffer_initialised:
  "unescapeBuffer u1 s ds = unescapeBuffer u2 s ds \<and> length (unescapeBuffer u1 s ds) \<le> length s \<and>
   set (unescapeBuffer u1 s ds) \<subseteq> {..<256}"
proof -
  obtain out h where eq: "unescape_loop s ds 0 [] False = (out, h)" by fastforce
  have len: "\<not> h \<Longrightarrow> length out = length s" "length out \<le> length s" "set out \<subseteq> {..<256}"
    using unescape_loop_ok[OF _ eq] by (simp_all add: unesc_ok_def)
  have out: "unescapeBuffer u s ds = out" for u
    unfolding unescapeBuffer_def eq prod.case using len(1) by (cases h) simp_all
  show ?thesis unfolding out using len(2,3) by blast
qed

lemma unescapeBuffer_initialised_witness:
  "set (unescapeBuffer (\<lambda>_. 999) (js ''%4+%'') True) \<subseteq> {..<256}"
  using unescapeBuffer_initialised[of "\<lambda>_. 999"] by blast

end
