(* ===== verification/Querystring_Roundtrip.thy ===== *)
theory Querystring_Roundtrip
  imports Querystring_Codec
begin

text \<open>
  The one-pass \<^verbatim>\<open>parse\<close> on what \<^verbatim>\<open>stringify\<close> prints.  The lemmas follow the state of the loop over
  an encoded key, the equals sign, an encoded value and the ampersand, and then over all pairs.
\<close>

section \<open>Encoded strings\<close>

text \<open>What the encoder can produce: unreserved characters, and percent signs with two digits.\<close>

fun enc_ok :: "jsstr \<Rightarrow> bool" where
  "enc_ok [] = True"
| "enc_ok (c # s) =
     (if c = CHAR_PERCENT then (case s of h # l # s' \<Rightarrow> isHex h \<and> isHex l \<and> enc_ok s' | _ \<Rightarrow> False)
      else c \<noteq> CHAR_AMPERSAND \<and> c \<noteq> CHAR_EQUAL \<and> c \<noteq> CHAR_PLUS \<and> enc_ok s)"

lemma isHex_hexDigit: "d < 16 \<Longrightarrow> isHex (hexDigit d)"
proof -
  have "\<forall>d\<in>set [0..<16]. isHex (hexDigit d)" by code_simp
  then show "d < 16 \<Longrightarrow> isHex (hexDigit d)" by simp
qed

lemma isHex_plain: "isHex c \<Longrightarrow> c \<noteq> CHAR_PERCENT \<and> c \<noteq> CHAR_AMPERSAND \<and> c \<noteq> CHAR_EQUAL \<and> c \<noteq> CHAR_PLUS"
proof -
  have "\<not> isHex CHAR_PERCENT" "\<not> isHex CHAR_AMPERSAND" "\<not> isHex CHAR_EQUAL" "\<not> isHex CHAR_PLUS"
    by code_simp+
  then show "isHex c \<Longrightarrow> c \<noteq> CHAR_PERCENT \<and> c \<noteq> CHAR_AMPERSAND \<and> c \<noteq> CHAR_EQUAL \<and> c \<noteq> CHAR_PLUS"
    by auto
qed

lemma enc_ok_hexTable [simp]: "b < 256 \<Longrightarrow> enc_ok (hexTable b @ s) = enc_ok s"
  by (simp add: hexTable_def isHex_hexDigit less_mult_imp_div_less)

lemma noEscape_plain:
  assumes "noEscape ! c = 1"
  shows "c \<noteq> CHAR_PERCENT \<and> c \<noteq> CHAR_AMPERSAND \<and> c \<noteq> CHAR_EQUAL \<and> c \<noteq> CHAR_PLUS"
proof -
  have "noEscape ! CHAR_PERCENT = 0" "noEscape ! CHAR_AMPERSAND = 0" "noEscape ! CHAR_EQUAL = 0"
    "noEscape ! CHAR_PLUS = 0" by code_simp+
  then show ?thesis using assms by auto
qed

lemma enc_spec_ok: "wf_utf16 s \<Longrightarrow> enc_spec noEscape s = Some r \<Longrightarrow> enc_ok r"
proof (induction s arbitrary: r rule: wf_utf16.induct)
  case (2 c s)
  consider (ascii) "c < 0x80" | (two) "\<not> c < 0x80" "c < 0x800"
    | (three) "\<not> c < 0x80" "\<not> c < 0x800" "c < 0xD800 \<or> c \<ge> 0xE000"
    | (pair) "\<not> c < 0x80" "\<not> c < 0x800" "\<not> (c < 0xD800 \<or> c \<ge> 0xE000)"
    by linarith
  then show ?case
  proof cases
    case ascii
    then obtain r' where r': "enc_spec noEscape s = Some r'"
      "r = (if noEscape ! c = 1 then [c] else hexTable c) @ r'" using "2.prems"(2) by auto
    have "enc_ok r'" using 2 ascii r' by auto
    then show ?thesis using r' ascii noEscape_plain[of c] by (cases "noEscape ! c = 1") simp_all
  next
    case two
    then obtain r' where r': "enc_spec noEscape s = Some r'" "r = enc2 c @ r'" using "2.prems"(2) by auto
    have "enc_ok r'" using 2 two r' by auto
    moreover have "192 + c div 64 < 256" using two by (simp add: less_mult_imp_div_less)
    ultimately show ?thesis using r' two by (simp add: enc2_bytes)
  next
    case three
    then obtain r' where r': "enc_spec noEscape s = Some r'" "r = enc3 c @ r'" using "2.prems"(2) by auto
    have "enc_ok r'" "c < 0x10000" using 2 three r' by auto
    moreover from this have "c div 4096 < 16" by (simp add: less_mult_imp_div_less)
    moreover have "c div 64 mod 64 < 64" "c mod 64 < 64" by simp_all
    ultimately show ?thesis using r' by (simp add: enc3_bytes)
  next
    case pair
    then obtain d s' where d: "s = d # s'" "c < 0xDC00" "0xDC00 \<le> d" "d < 0xE000" "wf_utf16 s'"
      using "2.prems"(1) by (cases s) auto
    then obtain r' where r': "enc_spec noEscape s' = Some r'" "r = enc4 (surrogate_code c d) @ r'"
      using "2.prems"(2) pair by auto
    have "enc_ok r'" using "2.IH"(2)[OF pair(3) d(1,5)] r' by simp
    moreover have "surrogate_code c d < 0x110000"
    proof -
      have "c mod 1024 \<le> 1023" "d mod 1024 \<le> 1023" by simp_all
      then show ?thesis unfolding surrogate_code_eq by linarith
    qed
    moreover from this have "surrogate_code c d div 262144 < 8" by (simp add: less_mult_imp_div_less)
    moreover have "surrogate_code c d div 4096 mod 64 < 64" "surrogate_code c d div 64 mod 64 < 64"
      "surrogate_code c d mod 64 < 64" by simp_all
    ultimately show ?thesis using r' by (simp add: enc4_bytes)
  qed
qed simp

lemma decode_run_plain: "CHAR_PERCENT \<notin> set s \<Longrightarrow> decode_run s = Some s"
  by (induction s) auto

text \<open>An encoded string, and what it stands for.\<close>

definition encodes :: "jsstr \<Rightarrow> jsstr \<Rightarrow> bool" where
  "encodes e s \<longleftrightarrow> enc_ok e \<and> decode_run e = Some s"

lemma qsEscape_encodes:
  assumes "wf_utf16 s"
  obtains e where "qsEscape s = Inr e" "encodes e s"
proof -
  obtain r where r: "enc_spec noEscape s = Some r" using enc_spec_wf[OF assms] by blast
  have "qsEscape s = Inr r" using encode_result[of ERR_INVALID_URI s noEscape] r by (simp add: qsEscape_def)
  then show thesis
    using that[of r] r enc_spec_ok[OF assms r] decode_enc_spec[OF assms r] by (simp add: encodes_def)
qed

section \<open>One pair\<close>

text \<open>The configuration without options.\<close>

definition std_conf :: "buffer_env \<Rightarrow> jsstr \<Rightarrow> parse_conf" where
  "std_conf env s = \<lparr>pc_qs = s, sepCodes = [CHAR_AMPERSAND], eqCodes = [CHAR_EQUAL],
     pc_decode = (\<lambda>t. Inr (qsUnescape env t False)), customDecode = False, pc_env = env\<rparr>"

lemma std_conf_simps [simp]:
  "pc_qs (std_conf env s) = s" "sepCodes (std_conf env s) = [CHAR_AMPERSAND]"
  "eqCodes (std_conf env s) = [CHAR_EQUAL]" "customDecode (std_conf env s) = False"
  by (simp_all add: std_conf_def)

lemma parse_run_step:
  assumes "s = pre @ c # rest" "parse_step (std_conf env s) (length pre) st = Inr st'"
  shows "parse_run (std_conf env s) (length pre) st =
    parse_run (std_conf env s) (length (pre @ [c])) st'"
  using assms by (subst parse_run.simps) simp

text \<open>The states while a key and while a value is read.\<close>

definition kst :: "pobject \<Rightarrow> int \<Rightarrow> nat \<Rightarrow> bool \<Rightarrow> bool \<Rightarrow> nat \<Rightarrow> parse_state" where
  "kst obj n lp k v ec = \<lparr>pobj = obj, pairs = n, lastPos = lp, sepIdx = 0, eqIdx = 0, pkey = [],
     pval = [], keyEncoded = k, valEncoded = v, encodeCheck = ec\<rparr>"

definition vst :: "pobject \<Rightarrow> int \<Rightarrow> nat \<Rightarrow> jsstr \<Rightarrow> bool \<Rightarrow> bool \<Rightarrow> nat \<Rightarrow> parse_state" where
  "vst obj n lp key k v ec = \<lparr>pobj = obj, pairs = n, lastPos = lp, sepIdx = 0, eqIdx = 1, pkey = key,
     pval = [], keyEncoded = k, valEncoded = v, encodeCheck = ec\<rparr>"

lemma kst_fields [simp]:
  "sepIdx (kst obj n lp k v ec) = 0" "eqIdx (kst obj n lp k v ec) = 0"
  "keyEncoded (kst obj n lp k v ec) = k" "valEncoded (kst obj n lp k v ec) = v"
  "encodeCheck (kst obj n lp k v ec) = ec"
  "kst obj n lp k v ec\<lparr>sepIdx := 0\<rparr> = kst obj n lp k v ec"
  "kst obj n lp k v ec\<lparr>eqIdx := 0\<rparr> = kst obj n lp k v ec"
  "kst obj n lp k v ec\<lparr>encodeCheck := m\<rparr> = kst obj n lp k v m"
  "kst obj n lp k v ec\<lparr>keyEncoded := k'\<rparr> = kst obj n lp k' v ec"
  "kst obj n lp k v ec\<lparr>valEncoded := v'\<rparr> = kst obj n lp k v' ec"
  by (simp_all add: kst_def)

lemma vst_fields [simp]:
  "sepIdx (vst obj n lp key k v ec) = 0" "eqIdx (vst obj n lp key k v ec) = 1"
  "valEncoded (vst obj n lp key k v ec) = v" "encodeCheck (vst obj n lp key k v ec) = ec"
  "vst obj n lp key k v ec\<lparr>sepIdx := 0\<rparr> = vst obj n lp key k v ec"
  "vst obj n lp key k v ec\<lparr>encodeCheck := m\<rparr> = vst obj n lp key k v m"
  "vst obj n lp key k v ec\<lparr>valEncoded := v'\<rparr> = vst obj n lp key k v' ec"
  by (simp_all add: vst_def)

text \<open>One character of a key and of a value, which only change the flags.\<close>

definition ordinary :: "nat \<Rightarrow> bool" where
  "ordinary c \<longleftrightarrow> c \<noteq> CHAR_AMPERSAND \<and> c \<noteq> CHAR_EQUAL \<and> c \<noteq> CHAR_PLUS"

lemma key_step:
  assumes "s ! i = c" "ordinary c"
  shows "parse_step (std_conf env s) i (kst obj n lp k v ec) = Inr
    (if \<not> k \<and> c = CHAR_PERCENT then kst obj n lp k v 1
     else if \<not> k \<and> ec > 0 \<and> isHex c then kst obj n lp (Suc ec = 3) v (Suc ec)
     else parse_value_char (std_conf env s) i c (kst obj n lp k v (if k then ec else 0)))"
  using assms
  by (cases k; cases "ec = 0")
    (auto simp: parse_step_def parse_key_char_def parse_key_plus_def ordinary_def Let_def)

lemma value_char:
  assumes "ordinary c"
  shows "parse_value_char (std_conf env s) i c (kst obj n lp k v ec) = (
      if v then kst obj n lp k v ec else if c = CHAR_PERCENT then kst obj n lp k v 1
      else if ec = 0 then kst obj n lp k v ec
      else if isHex c then kst obj n lp k (Suc ec = 3) (Suc ec) else kst obj n lp k v 0)"
    "parse_value_char (std_conf env s) i c (vst obj n lp key k v ec) = (
      if v then vst obj n lp key k v ec else if c = CHAR_PERCENT then vst obj n lp key k v 1
      else if ec = 0 then vst obj n lp key k v ec
      else if isHex c then vst obj n lp key k (Suc ec = 3) (Suc ec) else vst obj n lp key k v 0)"
  using assms by (cases v; cases "ec = 0"; auto simp: parse_value_char_def ordinary_def)+

lemma value_step:
  assumes "s ! i = c" "ordinary c"
  shows "parse_step (std_conf env s) i (vst obj n lp key k v ec) =
    Inr (parse_value_char (std_conf env s) i c (vst obj n lp key k v ec))"
  using assms by (auto simp: parse_step_def ordinary_def Let_def)

text \<open>Running over an encoded key: when it has a percent sign, the flag is set at its end.\<close>

lemma run_key_encoded:
  "\<forall>c\<in>set e. ordinary c \<Longrightarrow> s = pre @ e @ rest \<Longrightarrow>
   \<exists>v' ec'. parse_run (std_conf env s) (length pre) (kst obj n lp True v ec) =
     parse_run (std_conf env s) (length (pre @ e)) (kst obj n lp True v' ec')"
proof (induction e arbitrary: pre v ec)
  case (Cons c e)
  have c: "s ! length pre = c" "ordinary c" using Cons.prems by auto
  obtain v' ec' where st: "parse_step (std_conf env s) (length pre) (kst obj n lp True v ec) =
      Inr (kst obj n lp True v' ec')"
    using key_step[OF c, of env obj n lp True v ec] value_char(1)[OF c(2), of env s "length pre" obj n lp True v ec]
    by (simp split: if_splits)
  have "s = pre @ c # e @ rest" using Cons.prems by simp
  from parse_run_step[OF this st] Cons.IH[of "pre @ [c]" v' ec'] Cons.prems show ?case by simp
qed auto

lemma enc_ok_ordinary: "enc_ok e \<Longrightarrow> \<forall>c\<in>set e. ordinary c"
proof (induction e rule: enc_ok.induct)
  case (2 c s)
  then show ?case
    using isHex_plain by (auto simp: ordinary_def split: if_splits list.splits)
qed simp

lemma run_key:
  "enc_ok e \<Longrightarrow> s = pre @ e @ rest \<Longrightarrow>
   \<exists>k' v' ec'. parse_run (std_conf env s) (length pre) (kst obj n lp False v 0) =
     parse_run (std_conf env s) (length (pre @ e)) (kst obj n lp k' v' ec') \<and>
     (k' \<or> CHAR_PERCENT \<notin> set e)"
proof (induction e arbitrary: pre v rule: enc_ok.induct)
  case (2 c e)
  show ?case
  proof (cases "c = CHAR_PERCENT")
    case False
    then have c: "s ! length pre = c" "ordinary c" using "2.prems" by (auto simp: ordinary_def)
    have st: "parse_step (std_conf env s) (length pre) (kst obj n lp False v 0) = Inr (kst obj n lp False v 0)"
      using False key_step[OF c, of env obj n lp False v 0] value_char(1)[OF c(2), of env s "length pre" obj n lp False v 0]
      by simp
    have s: "s = pre @ c # e @ rest" using "2.prems" by simp
    have "enc_ok e" using "2.prems"(1) False by simp
    then show ?thesis
      using parse_run_step[OF s st] "2.IH"(2)[OF False, of "pre @ [c]" v] s False by auto
  next
    case True
    then obtain h l e' where e: "e = h # l # e'" "isHex h" "isHex l" "enc_ok e'"
      using "2.prems"(1) by (auto split: list.splits)
    have hl: "ordinary h" "h \<noteq> CHAR_PERCENT" "ordinary l" "l \<noteq> CHAR_PERCENT" "ordinary CHAR_PERCENT"
      using e isHex_plain by (auto simp: ordinary_def)
    have s: "s = pre @ c # h # l # e' @ rest" "s = (pre @ [c]) @ h # l # e' @ rest"
      "s = (pre @ [c, h]) @ l # e' @ rest" "s = (pre @ [c, h, l]) @ e' @ rest"
      using "2.prems"(2) e by simp_all
    have n: "s ! length pre = CHAR_PERCENT" "s ! length (pre @ [c]) = h" "s ! length (pre @ [c, h]) = l"
      using True by (simp add: s(1), (subst s(2), simp only: nth_append_length),
        (subst s(3), simp only: nth_append_length))
    have "parse_step (std_conf env s) (length pre) (kst obj n lp False v 0) = Inr (kst obj n lp False v 1)"
      using key_step[OF n(1) hl(5), of env obj n lp False v 0] by simp
    note r1 = parse_run_step[OF s(1) this]
    have "parse_step (std_conf env s) (length (pre @ [c])) (kst obj n lp False v 1) = Inr (kst obj n lp False v 2)"
      using key_step[OF n(2) hl(1), of env obj n lp False v 1] hl e by (simp add: numeral_2_eq_2)
    note r2 = parse_run_step[OF s(2) this]
    have "parse_step (std_conf env s) (length (pre @ [c, h])) (kst obj n lp False v 2) = Inr (kst obj n lp True v 3)"
      using key_step[OF n(3) hl(3), of env obj n lp False v 2] hl e by (simp add: numeral_2_eq_2 numeral_3_eq_3)
    note r3 = parse_run_step[OF s(3) this]
    obtain v' ec' where "parse_run (std_conf env s) (length (pre @ [c, h, l])) (kst obj n lp True v 3) =
        parse_run (std_conf env s) (length ((pre @ [c, h, l]) @ e')) (kst obj n lp True v' ec')"
      using run_key_encoded[OF enc_ok_ordinary[OF e(4)] s(4)] by blast
    then have "parse_run (std_conf env s) (length pre) (kst obj n lp False v 0) =
        parse_run (std_conf env s) (length (pre @ c # e)) (kst obj n lp True v' ec')"
      using r1 r2 r3 e by simp
    then show ?thesis by blast
  qed
qed auto

lemma run_value_encoded:
  "\<forall>c\<in>set e. ordinary c \<Longrightarrow> s = pre @ e @ rest \<Longrightarrow>
   parse_run (std_conf env s) (length pre) (vst obj n lp key k True ec) =
     parse_run (std_conf env s) (length (pre @ e)) (vst obj n lp key k True ec)"
proof (induction e arbitrary: pre)
  case (Cons c e)
  have c: "s ! length pre = c" "ordinary c" using Cons.prems by auto
  have st: "parse_step (std_conf env s) (length pre) (vst obj n lp key k True ec) =
      Inr (vst obj n lp key k True ec)"
    using value_step[OF c] value_char(2)[OF c(2)] by simp
  have "s = pre @ c # e @ rest" using Cons.prems by simp
  from parse_run_step[OF this st] Cons.IH[of "pre @ [c]"] Cons.prems show ?case by simp
qed simp

lemma run_value:
  "enc_ok e \<Longrightarrow> s = pre @ e @ rest \<Longrightarrow>
   \<exists>v' ec'. parse_run (std_conf env s) (length pre) (vst obj n lp key k v 0) =
     parse_run (std_conf env s) (length (pre @ e)) (vst obj n lp key k v' ec') \<and>
     (v' \<or> CHAR_PERCENT \<notin> set e)"
proof (cases v)
  case True
  assume e: "enc_ok e" "s = pre @ e @ rest"
  have "v = True" using True by simp
  have "parse_run (std_conf env s) (length pre) (vst obj n lp key k v 0) =
      parse_run (std_conf env s) (length (pre @ e)) (vst obj n lp key k v 0)"
    unfolding \<open>v = True\<close> by (rule run_value_encoded[OF enc_ok_ordinary[OF e(1)] e(2)])
  then show ?thesis using True by blast
next
  case False
  then have "v = False" by simp
  show "enc_ok e \<Longrightarrow> s = pre @ e @ rest \<Longrightarrow> ?thesis"
    unfolding \<open>v = False\<close>
  proof (induction e arbitrary: pre rule: enc_ok.induct)
    case (2 c e)
    show ?case
    proof (cases "c = CHAR_PERCENT")
      case False
      then have c: "s ! length pre = c" "ordinary c" using "2.prems" by (auto simp: ordinary_def)
      have st: "parse_step (std_conf env s) (length pre) (vst obj n lp key k False 0) = Inr (vst obj n lp key k False 0)"
        using False value_step[OF c] value_char(2)[OF c(2)] by simp
      have s: "s = pre @ c # e @ rest" using "2.prems" by simp
      have "enc_ok e" using "2.prems"(1) False by simp
      then obtain v' ec' where "parse_run (std_conf env s) (length (pre @ [c])) (vst obj n lp key k False 0) =
          parse_run (std_conf env s) (length ((pre @ [c]) @ e)) (vst obj n lp key k v' ec')"
        "v' \<or> CHAR_PERCENT \<notin> set e"
        using "2.IH"(2)[OF False, of "pre @ [c]"] s by auto
      then have "parse_run (std_conf env s) (length pre) (vst obj n lp key k False 0) =
          parse_run (std_conf env s) (length (pre @ c # e)) (vst obj n lp key k v' ec')"
        "v' \<or> CHAR_PERCENT \<notin> set (c # e)"
        using parse_run_step[OF s st] False by simp_all
      then show ?thesis by blast
    next
      case True
      then obtain h l e' where e: "e = h # l # e'" "isHex h" "isHex l" "enc_ok e'"
        using "2.prems"(1) by (auto split: list.splits)
      have hl: "ordinary h" "h \<noteq> CHAR_PERCENT" "ordinary l" "l \<noteq> CHAR_PERCENT" "ordinary CHAR_PERCENT"
        using e isHex_plain by (auto simp: ordinary_def)
      have s: "s = pre @ c # h # l # e' @ rest" "s = (pre @ [c]) @ h # l # e' @ rest"
        "s = (pre @ [c, h]) @ l # e' @ rest" "s = (pre @ [c, h, l]) @ e' @ rest"
        using "2.prems"(2) e by simp_all
      have n: "s ! length pre = CHAR_PERCENT" "s ! length (pre @ [c]) = h" "s ! length (pre @ [c, h]) = l"
        using True by (simp add: s(1), (subst s(2), simp only: nth_append_length),
          (subst s(3), simp only: nth_append_length))
      have "parse_step (std_conf env s) (length pre) (vst obj n lp key k False 0) = Inr (vst obj n lp key k False 1)"
        using value_step[OF n(1) hl(5)] value_char(2)[OF hl(5)] by simp
      note r1 = parse_run_step[OF s(1) this]
      have "parse_step (std_conf env s) (length (pre @ [c])) (vst obj n lp key k False 1) = Inr (vst obj n lp key k False 2)"
        using value_step[OF n(2) hl(1)] value_char(2)[OF hl(1)] hl e by (simp add: numeral_2_eq_2)
      note r2 = parse_run_step[OF s(2) this]
      have "parse_step (std_conf env s) (length (pre @ [c, h])) (vst obj n lp key k False 2) = Inr (vst obj n lp key k True 3)"
        using value_step[OF n(3) hl(3)] value_char(2)[OF hl(3)] hl e by (simp add: numeral_2_eq_2 numeral_3_eq_3)
      note r3 = parse_run_step[OF s(3) this]
      have "parse_run (std_conf env s) (length (pre @ [c, h, l])) (vst obj n lp key k True 3) =
          parse_run (std_conf env s) (length ((pre @ [c, h, l]) @ e')) (vst obj n lp key k True 3)"
        by (rule run_value_encoded[OF enc_ok_ordinary[OF e(4)] s(4)])
      then have "parse_run (std_conf env s) (length pre) (vst obj n lp key k False 0) =
          parse_run (std_conf env s) (length (pre @ c # e)) (vst obj n lp key k True 3)"
        using r1 r2 r3 e by simp
      then show ?thesis by blast
    qed
  qed auto
qed

section \<open>All pairs\<close>

lemma equals_step:
  assumes "s = pre @ ek @ CHAR_EQUAL # rest"
  shows "parse_step (std_conf env s) (length (pre @ ek)) (kst obj n (length pre) k v ec) =
    Inr (vst obj n (length (pre @ ek @ [CHAR_EQUAL])) ek k v 0)"
proof -
  have c: "s ! length (pre @ ek) = CHAR_EQUAL" using assms by (simp add: nth_append)
  have sl: "slice s (length pre) (length pre + length ek) = ek" using assms by (simp add: slice_append_mid)
  have "parse_key_char (std_conf env s) (length (pre @ ek)) CHAR_EQUAL (kst obj n (length pre) k v ec) =
      vst obj n (length (pre @ ek @ [CHAR_EQUAL])) ek k v 0"
    using sl by (auto simp: parse_key_char_def Let_def kst_def vst_def)
  then show ?thesis using c by (simp add: parse_step_def Let_def)
qed

lemma decodeStr_std:
  "encodes e t \<Longrightarrow> k \<or> CHAR_PERCENT \<notin> set e \<Longrightarrow>
   (if length e > 0 \<and> k then decodeStr env e (\<lambda>t. Inr (qsUnescape env t False)) else e) = t"
  using decode_run_plain[of e]
  by (cases "e = []") (auto simp: encodes_def decodeStr_def qsUnescape_def decodeURIComponent_def)

lemma store_pair:
  assumes "encodes ek key" "k \<or> CHAR_PERCENT \<notin> set ek" "encodes ev val" "v \<or> CHAR_PERCENT \<notin> set ev"
  shows "parse_store (std_conf env s) ((vst obj n lp ek k v ec)\<lparr>pval := ev\<rparr>) = obj_add obj key val"
proof -
  have "parse_store (std_conf env s) ((vst obj n lp ek k v ec)\<lparr>pval := ev\<rparr>) =
    obj_add obj (if length ek > 0 \<and> k then decodeStr env ek (\<lambda>t. Inr (qsUnescape env t False)) else ek)
      (if length ev > 0 \<and> v then decodeStr env ev (\<lambda>t. Inr (qsUnescape env t False)) else ev)"
    by (simp add: parse_store_def vst_def Let_def std_conf_def split del: if_split cong: if_cong)
  then show ?thesis
    unfolding decodeStr_std[OF assms(1,2)] decodeStr_std[OF assms(3,4)] .
qed

lemma parse_store_sepIdx: "parse_store cf (st\<lparr>sepIdx := m\<rparr>) = parse_store cf st"
  by (simp add: parse_store_def)

lemma amp_step:
  assumes "s = pre @ ev @ CHAR_AMPERSAND # rest"
    and "encodes ek key" "k \<or> CHAR_PERCENT \<notin> set ek" "encodes ev val" "v \<or> CHAR_PERCENT \<notin> set ev"
    and "n \<noteq> 1"
  shows "parse_step (std_conf env s) (length (pre @ ev)) (vst obj n (length pre) ek k v ec) =
    Inr (kst (obj_add obj key val) (n - 1) (length (pre @ ev @ [CHAR_AMPERSAND])) False False 0)"
proof -
  have c: "s ! length (pre @ ev) = CHAR_AMPERSAND" using assms by (simp add: nth_append)
  have sl: "slice s (length pre) (length pre + length ev) = ev" using assms by (simp add: slice_append_mid)
  let ?st = "(vst obj n (length pre) ek k v ec)\<lparr>sepIdx := 1\<rparr>"
  let ?st1 = "if length pre < length pre + length ev then ?st\<lparr>pval := pval ?st @ ev\<rparr> else ?st"
  have st1: "?st1 = (vst obj n (length pre) ek k v ec)\<lparr>sepIdx := 1, pval := ev\<rparr>"
    by (cases "ev = []") (simp_all add: vst_def)
  have store: "parse_store (std_conf env s) ((vst obj n (length pre) ek k v ec)\<lparr>sepIdx := 1, pval := ev\<rparr>) =
      obj_add obj key val"
    using store_pair[OF assms(2-5), of env s obj n "length pre" ec]
      parse_store_sepIdx[where st = "(vst obj n (length pre) ek k v ec)\<lparr>pval := ev\<rparr>" and m = 1]
    by (simp add: vst_def)
  have "parse_pair (std_conf env s) (length (pre @ ev)) ?st =
      Inr (kst (obj_add obj key val) (n - 1) (length (pre @ ev @ [CHAR_AMPERSAND])) False False 0)"
    using assms(6) store st1 sl
    by (cases "ev = []") (simp_all add: parse_pair_def Let_def vst_def kst_def)
  then show ?thesis using c by (simp add: parse_step_def Let_def)
qed

lemma finish_pair:
  assumes "s = pre @ ev"
    and "encodes ek key" "k \<or> CHAR_PERCENT \<notin> set ek" "encodes ev val" "v \<or> CHAR_PERCENT \<notin> set ev"
  shows "parse_run (std_conf env s) (length (pre @ ev)) (vst obj n (length pre) ek k v ec) =
    obj_add obj key val"
proof -
  have "parse_run (std_conf env s) (length (pre @ ev)) (vst obj n (length pre) ek k v ec) =
      parse_finish (std_conf env s) (vst obj n (length pre) ek k v ec)"
    using assms(1) by (subst parse_run.simps) simp
  also have "\<dots> = parse_store (std_conf env s) ((vst obj n (length pre) ek k v ec)\<lparr>pval := ev\<rparr>)"
    using assms(1) by (cases "ev = []") (simp_all add: parse_finish_def vst_def sliceFrom_def)
  finally show ?thesis using store_pair[OF assms(2-5)] by simp
qed

text \<open>A pair of encoded strings, with what they stand for.\<close>

type_synonym enc_pair = "(jsstr \<times> jsstr) \<times> (jsstr \<times> jsstr)"

definition pair_ok :: "enc_pair \<Rightarrow> bool" where
  "pair_ok p \<longleftrightarrow> encodes (fst (fst p)) (fst (snd p)) \<and> encodes (snd (fst p)) (snd (snd p))"

definition pair_text :: "enc_pair \<Rightarrow> jsstr" where
  "pair_text p = fst (fst p) @ CHAR_EQUAL # snd (fst p)"

definition add_all :: "pobject \<Rightarrow> (jsstr \<times> jsstr) list \<Rightarrow> pobject" where
  "add_all obj kvs = foldl (\<lambda>o1 (k, v). obj_add o1 k v) obj kvs"

lemma run_to_value:
  assumes "pair_ok p" "s = pre @ pair_text p @ rest"
  obtains k v ec where "k \<or> CHAR_PERCENT \<notin> set (fst (fst p))" "v \<or> CHAR_PERCENT \<notin> set (snd (fst p))"
    "parse_run (std_conf env s) (length pre) (kst obj n (length pre) False False 0) =
     parse_run (std_conf env s) (length (pre @ pair_text p))
       (vst obj n (length (pre @ fst (fst p) @ [CHAR_EQUAL])) (fst (fst p)) k v ec)"
proof -
  obtain ek ev key val where p: "p = ((ek, ev), (key, val))" by (cases p) auto
  have ok: "enc_ok ek" "enc_ok ev" using assms(1) by (auto simp: p pair_ok_def encodes_def)
  have s: "s = pre @ ek @ CHAR_EQUAL # ev @ rest" "s = (pre @ ek) @ CHAR_EQUAL # (ev @ rest)"
    "s = (pre @ ek @ [CHAR_EQUAL]) @ ev @ rest"
    using assms(2) by (simp_all add: p pair_text_def)
  obtain k v ec where key: "parse_run (std_conf env s) (length pre) (kst obj n (length pre) False False 0) =
      parse_run (std_conf env s) (length (pre @ ek)) (kst obj n (length pre) k v ec)"
    "k \<or> CHAR_PERCENT \<notin> set ek"
    using run_key[OF ok(1) s(1)] by blast
  have eq: "parse_run (std_conf env s) (length (pre @ ek)) (kst obj n (length pre) k v ec) =
      parse_run (std_conf env s) (length ((pre @ ek) @ [CHAR_EQUAL]))
        (vst obj n (length (pre @ ek @ [CHAR_EQUAL])) ek k v 0)"
    by (rule parse_run_step[OF s(2) equals_step[OF s(1)]])
  obtain v' ec' where val: "parse_run (std_conf env s) (length (pre @ ek @ [CHAR_EQUAL]))
        (vst obj n (length (pre @ ek @ [CHAR_EQUAL])) ek k v 0) =
      parse_run (std_conf env s) (length ((pre @ ek @ [CHAR_EQUAL]) @ ev))
        (vst obj n (length (pre @ ek @ [CHAR_EQUAL])) ek k v' ec')"
    "v' \<or> CHAR_PERCENT \<notin> set ev"
    using run_value[OF ok(2) s(3)] by blast
  show thesis
    using that[of k v' ec'] key eq val by (simp add: p pair_text_def)
qed

lemma run_pairs:
  "ps \<noteq> [] \<Longrightarrow> \<forall>p\<in>set ps. pair_ok p \<Longrightarrow> int (length ps) \<le> n \<Longrightarrow>
   s = pre @ joinOn CHAR_AMPERSAND (map pair_text ps) \<Longrightarrow>
   parse_run (std_conf env s) (length pre) (kst obj n (length pre) False False 0) =
     add_all obj (map snd ps)"
proof (induction ps arbitrary: pre obj n)
  case (Cons p ps)
  obtain ek ev key val where p: "p = ((ek, ev), (key, val))" by (cases p) auto
  have ok: "encodes ek key" "encodes ev val" using Cons.prems(2) by (auto simp: p pair_ok_def)
  show ?case
  proof (cases "ps = []")
    case True
    then have s: "s = pre @ pair_text p @ []" "s = (pre @ ek @ [CHAR_EQUAL]) @ ev"
      using Cons.prems(4) by (simp_all add: p pair_text_def)
    have "pair_ok p" using Cons.prems(2) by simp
    from run_to_value[OF this s(1), of env obj n] obtain k v ec where
      kv: "k \<or> CHAR_PERCENT \<notin> set ek" "v \<or> CHAR_PERCENT \<notin> set ev" and
      run: "parse_run (std_conf env s) (length pre) (kst obj n (length pre) False False 0) =
        parse_run (std_conf env s) (length (pre @ pair_text p))
          (vst obj n (length (pre @ ek @ [CHAR_EQUAL])) ek k v ec)"
      by (auto simp: p)
    have "parse_run (std_conf env s) (length ((pre @ ek @ [CHAR_EQUAL]) @ ev))
        (vst obj n (length (pre @ ek @ [CHAR_EQUAL])) ek k v ec) = obj_add obj key val"
      by (rule finish_pair[OF s(2) ok(1) kv(1) ok(2) kv(2)])
    then show ?thesis using run True by (simp add: p pair_text_def add_all_def)
  next
    case False
    let ?rest = "joinOn CHAR_AMPERSAND (map pair_text ps)"
    have s: "s = pre @ pair_text p @ (CHAR_AMPERSAND # ?rest)"
      "s = (pre @ ek @ [CHAR_EQUAL]) @ ev @ CHAR_AMPERSAND # ?rest"
      "s = ((pre @ ek @ [CHAR_EQUAL]) @ ev) @ CHAR_AMPERSAND # ?rest"
      "s = (((pre @ ek @ [CHAR_EQUAL]) @ ev) @ [CHAR_AMPERSAND]) @ ?rest"
    proof -
      have "joinOn CHAR_AMPERSAND (map pair_text (p # ps)) = pair_text p @ CHAR_AMPERSAND # ?rest"
        using False by (simp add: joinOn_Cons)
      moreover have "pair_text p = ek @ [CHAR_EQUAL] @ ev" by (simp add: p pair_text_def)
      ultimately show "s = pre @ pair_text p @ (CHAR_AMPERSAND # ?rest)"
        "s = (pre @ ek @ [CHAR_EQUAL]) @ ev @ CHAR_AMPERSAND # ?rest"
        "s = ((pre @ ek @ [CHAR_EQUAL]) @ ev) @ CHAR_AMPERSAND # ?rest"
        "s = (((pre @ ek @ [CHAR_EQUAL]) @ ev) @ [CHAR_AMPERSAND]) @ ?rest"
        using Cons.prems(4) by simp_all
    qed
    have "pair_ok p" using Cons.prems(2) by simp
    from run_to_value[OF this s(1), of env obj n] obtain k v ec where
      kv: "k \<or> CHAR_PERCENT \<notin> set ek" "v \<or> CHAR_PERCENT \<notin> set ev" and
      run: "parse_run (std_conf env s) (length pre) (kst obj n (length pre) False False 0) =
        parse_run (std_conf env s) (length (pre @ pair_text p))
          (vst obj n (length (pre @ ek @ [CHAR_EQUAL])) ek k v ec)"
      by (auto simp: p)
    have n: "n \<noteq> 1" "int (length ps) \<le> n - 1" using Cons.prems(3) False by (cases ps; simp)+
    note amp = parse_run_step[OF s(3) amp_step[OF s(2) ok(1) kv(1) ok(2) kv(2) n(1)], of env obj ec]
    have "parse_run (std_conf env s) (length (((pre @ ek @ [CHAR_EQUAL]) @ ev) @ [CHAR_AMPERSAND]))
        (kst (obj_add obj key val) (n - 1)
          (length (((pre @ ek @ [CHAR_EQUAL]) @ ev) @ [CHAR_AMPERSAND])) False False 0) =
        add_all (obj_add obj key val) (map snd ps)"
      using Cons.IH[OF False _ n(2) s(4)] Cons.prems(2) by simp
    then show ?thesis using run amp by (simp add: p pair_text_def add_all_def)
  qed
qed simp

section \<open>The round trip\<close>

text \<open>The objects \<^verbatim>\<open>parse\<close> can return, as arguments of \<^verbatim>\<open>stringify\<close>.\<close>

fun pvals :: "pvalue \<Rightarrow> jsstr list" where
  "pvals (PStr s) = [s]"
| "pvals (PArr vs) = vs"

fun to_qvalue :: "pvalue \<Rightarrow> qvalue" where
  "to_qvalue (PStr s) = QPrim (JStr s)"
| "to_qvalue (PArr vs) = QArray (map JStr vs)"

definition flat :: "pobject \<Rightarrow> (jsstr \<times> jsstr) list" where
  "flat obj = concat (map (\<lambda>(k, v). map (Pair k) (pvals v)) obj)"

text \<open>An array has two elements at least, and every string is well-formed UTF-16.\<close>

definition pvalue_ok :: "pvalue \<Rightarrow> bool" where
  "pvalue_ok v \<longleftrightarrow> (\<forall>s\<in>set (pvals v). wf_utf16 s) \<and> (case v of PStr _ \<Rightarrow> True | PArr vs \<Rightarrow> 2 \<le> length vs)"

definition pobject_ok :: "pobject \<Rightarrow> bool" where
  "pobject_ok obj \<longleftrightarrow> distinct (map fst obj) \<and> (\<forall>(k, v)\<in>set obj. wf_utf16 k \<and> pvalue_ok v)"

lemma obj_add_new: "k \<notin> fst ` set o1 \<Longrightarrow> obj_add o1 k x = o1 @ [(k, PStr x)]"
  by (induction o1 k x rule: obj_add.induct) auto

lemma obj_add_old: "k \<notin> fst ` set o1 \<Longrightarrow> obj_add (o1 @ [(k, v)]) k x =
    o1 @ [(k, case v of PArr vs \<Rightarrow> PArr (vs @ [x]) | PStr cur \<Rightarrow> PArr [cur, x])]"
  by (induction o1 k x rule: obj_add.induct) auto

lemma add_all_array:
  "k \<notin> fst ` set o1 \<Longrightarrow> add_all (o1 @ [(k, PArr vs)]) (map (Pair k) ws) = o1 @ [(k, PArr (vs @ ws))]"
  by (induction ws arbitrary: vs) (simp_all add: add_all_def obj_add_old)

lemma add_all_value:
  assumes "k \<notin> fst ` set o1" "pvalue_ok v"
  shows "add_all o1 (map (Pair k) (pvals v)) = o1 @ [(k, v)]"
proof (cases v)
  case (PStr s)
  then show ?thesis using assms(1) by (simp add: add_all_def obj_add_new)
next
  case (PArr vs)
  then obtain a b ws where vs: "vs = a # b # ws"
    using assms(2) by (cases vs; cases "tl vs") (auto simp: pvalue_ok_def)
  have "add_all o1 (map (Pair k) vs) = add_all (o1 @ [(k, PArr [a, b])]) (map (Pair k) ws)"
    using assms(1) by (simp add: add_all_def vs obj_add_new obj_add_old)
  then show ?thesis using add_all_array[OF assms(1)] PArr vs by simp
qed

lemma add_all_append: "add_all o1 (xs @ ys) = add_all (add_all o1 xs) ys"
  by (simp add: add_all_def)

lemma add_all_flat:
  "pobject_ok (o1 @ obj) \<Longrightarrow> add_all o1 (flat obj) = o1 @ obj"
proof (induction obj arbitrary: o1)
  case Nil
  then show ?case by (simp add: flat_def add_all_def)
next
  case (Cons kv obj)
  obtain k v where kv: "kv = (k, v)" by (cases kv)
  have "k \<notin> fst ` set o1" "pvalue_ok v" using Cons.prems by (auto simp: pobject_ok_def kv)
  then have "add_all o1 (map (Pair k) (pvals v)) = o1 @ [(k, v)]" by (rule add_all_value)
  moreover have "flat (kv # obj) = map (Pair k) (pvals v) @ flat obj" by (simp add: flat_def kv)
  ultimately show ?case using Cons.IH[of "o1 @ [(k, v)]"] Cons.prems by (simp add: add_all_append kv)
qed

lemma stringify_array_pairs:
  assumes "\<forall>x\<in>set vs. wf_utf16 x" "encodes ek k" "vs \<noteq> []"
  shows "\<exists>ps. map snd ps = map (Pair k) vs \<and> (\<forall>p\<in>set ps. pair_ok p) \<and>
    stringify_array qsEscape (ek @ [CHAR_EQUAL]) [CHAR_AMPERSAND] (map JStr vs) acc =
      Inr (acc @ joinOn CHAR_AMPERSAND (map pair_text ps))"
  using assms(1,3)
proof (induction vs arbitrary: acc)
  case (Cons x vs)
  obtain e where e: "qsEscape x = Inr e" "encodes e x" using qsEscape_encodes Cons.prems by auto
  let ?p = "((ek, e), (k, x))"
  have p: "pair_ok ?p" "pair_text ?p = ek @ [CHAR_EQUAL] @ e"
    using e assms(2) by (simp_all add: pair_ok_def pair_text_def)
  show ?case
  proof (cases "vs = []")
    case True
    then show ?thesis
      using e p by (intro exI[of _ "[?p]"]) (simp add: stringifyPrimitive_def)
  next
    case False
    obtain ps where ps: "map snd ps = map (Pair k) vs" "\<forall>p\<in>set ps. pair_ok p"
      "stringify_array qsEscape (ek @ [CHAR_EQUAL]) [CHAR_AMPERSAND] (map JStr vs)
         (acc @ pair_text ?p @ [CHAR_AMPERSAND]) =
       Inr ((acc @ pair_text ?p @ [CHAR_AMPERSAND]) @ joinOn CHAR_AMPERSAND (map pair_text ps))"
      using Cons.IH[of "acc @ pair_text ?p @ [CHAR_AMPERSAND]"] Cons.prems(1) False by auto
    have "ps \<noteq> []" using ps(1) False by auto
    then have "joinOn CHAR_AMPERSAND (map pair_text (?p # ps)) =
        pair_text ?p @ CHAR_AMPERSAND # joinOn CHAR_AMPERSAND (map pair_text ps)"
      by (simp add: joinOn_Cons)
    then show ?thesis
      using e p ps False
      by (intro exI[of _ "?p # ps"]) (simp add: stringifyPrimitive_def)
  qed
qed simp

lemma stringify_value_pairs:
  assumes "pvalue_ok v" "encodes ek k" "qsEscape k = Inr ek"
  shows "\<exists>ps. map snd ps = map (Pair k) (pvals v) \<and> (\<forall>p\<in>set ps. pair_ok p) \<and> ps \<noteq> [] \<and>
    stringify_fields qsEscape [CHAR_AMPERSAND] [CHAR_EQUAL] ((k, to_qvalue v) # rest) acc =
      stringify_fields qsEscape [CHAR_AMPERSAND] [CHAR_EQUAL] rest
        (acc @ joinOn CHAR_AMPERSAND (map pair_text ps) @ (if rest = [] then [] else [CHAR_AMPERSAND]))"
proof (cases v)
  case (PStr s)
  then obtain e where e: "qsEscape s = Inr e" "encodes e s"
    using qsEscape_encodes assms(1) by (auto simp: pvalue_ok_def)
  let ?p = "((ek, e), (k, s))"
  have "pair_ok ?p" "pair_text ?p = ek @ [CHAR_EQUAL] @ e"
    using e assms(2) by (simp_all add: pair_ok_def pair_text_def)
  then show ?thesis
    using PStr e assms(3) by (intro exI[of _ "[?p]"]) (simp add: stringifyPrimitive_def)
next
  case (PArr vs)
  then have vs: "vs \<noteq> []" "\<forall>x\<in>set vs. wf_utf16 x" using assms(1) by (auto simp: pvalue_ok_def)
  obtain ps where ps: "map snd ps = map (Pair k) vs" "\<forall>p\<in>set ps. pair_ok p"
    "stringify_array qsEscape (ek @ [CHAR_EQUAL]) [CHAR_AMPERSAND] (map JStr vs) acc =
      Inr (acc @ joinOn CHAR_AMPERSAND (map pair_text ps))"
    using stringify_array_pairs[OF vs(2) assms(2) vs(1), of acc] by blast
  have "ps \<noteq> []" using ps(1) vs(1) by auto
  then show ?thesis
    using PArr ps vs assms(3) by (intro exI[of _ ps]) (simp add: stringifyPrimitive_def)
qed

lemma stringify_fields_pairs:
  "\<forall>(k, v)\<in>set obj. wf_utf16 k \<and> pvalue_ok v \<Longrightarrow>
   \<exists>ps. map snd ps = flat obj \<and> (\<forall>p\<in>set ps. pair_ok p) \<and> (ps = [] \<longleftrightarrow> obj = []) \<and>
    stringify_fields qsEscape [CHAR_AMPERSAND] [CHAR_EQUAL] (map (\<lambda>(k, v). (k, to_qvalue v)) obj) acc =
      Inr (acc @ joinOn CHAR_AMPERSAND (map pair_text ps))"
proof (induction obj arbitrary: acc)
  case Nil
  then show ?case by (intro exI[of _ "[]"]) (simp add: flat_def)
next
  case (Cons kv obj)
  obtain k v where kv: "kv = (k, v)" by (cases kv)
  obtain ek where ek: "qsEscape k = Inr ek" "encodes ek k" using qsEscape_encodes Cons.prems by (auto simp: kv)
  let ?rest = "map (\<lambda>(k, v). (k, to_qvalue v)) obj"
  have "pvalue_ok v" using Cons.prems by (simp add: kv)
  from stringify_value_pairs[OF this ek(2,1), of ?rest acc] obtain ps where
    ps: "map snd ps = map (Pair k) (pvals v)" "\<forall>p\<in>set ps. pair_ok p" "ps \<noteq> []"
    and eq: "stringify_fields qsEscape [CHAR_AMPERSAND] [CHAR_EQUAL] ((k, to_qvalue v) # ?rest) acc =
      stringify_fields qsEscape [CHAR_AMPERSAND] [CHAR_EQUAL] ?rest
        (acc @ joinOn CHAR_AMPERSAND (map pair_text ps) @ (if ?rest = [] then [] else [CHAR_AMPERSAND]))"
    by blast
  let ?acc = "acc @ joinOn CHAR_AMPERSAND (map pair_text ps) @ (if ?rest = [] then [] else [CHAR_AMPERSAND])"
  obtain qs where qs: "map snd qs = flat obj" "\<forall>p\<in>set qs. pair_ok p" "qs = [] \<longleftrightarrow> obj = []"
    "stringify_fields qsEscape [CHAR_AMPERSAND] [CHAR_EQUAL] ?rest ?acc =
       Inr (?acc @ joinOn CHAR_AMPERSAND (map pair_text qs))"
    using Cons.IH[of ?acc] Cons.prems by auto
  have "?acc @ joinOn CHAR_AMPERSAND (map pair_text qs) =
      acc @ joinOn CHAR_AMPERSAND (map pair_text (ps @ qs))"
    using ps(3) qs(3) by (cases "obj = []") (simp_all add: joinOn_append)
  then show ?case
    using ps qs eq by (intro exI[of _ "ps @ qs"]) (auto simp: kv flat_def)
qed

text \<open>
  C25.  \<^verbatim>\<open>parse\<close> gives back the object \<^verbatim>\<open>stringify\<close> printed with the default separators, when its keys are
  distinct, every value is a string or an array of at least two strings, all keys and strings are
  well-formed UTF-16, and it has at most 1000 pairs, the limit of \<^verbatim>\<open>parse\<close>.  Other values do not come back:
  a number comes back as its digits and an array of one element as that element.
\<close>

theorem parse_stringify:
  assumes "pobject_ok obj" "length (flat obj) \<le> 1000"
  shows "\<exists>q. stringify (Some (map (\<lambda>(k, v). (k, to_qvalue v)) obj)) None None None = Inr q \<and>
    qs_parse env (JStr q) None None None None = obj"
proof -
  obtain ps where ps: "map snd ps = flat obj" "\<forall>p\<in>set ps. pair_ok p" "ps = [] \<longleftrightarrow> obj = []"
    "stringify_fields qsEscape [CHAR_AMPERSAND] [CHAR_EQUAL] (map (\<lambda>(k, v). (k, to_qvalue v)) obj) [] =
      Inr ([] @ joinOn CHAR_AMPERSAND (map pair_text ps))"
    using stringify_fields_pairs[of obj "[]"] assms(1) by (auto simp: pobject_ok_def)
  let ?q = "joinOn CHAR_AMPERSAND (map pair_text ps)"
  have str: "stringify (Some (map (\<lambda>(k, v). (k, to_qvalue v)) obj)) None None None = Inr ?q"
    using ps(4) by (simp add: stringify_def or_default_def)
  have "qs_parse env (JStr ?q) None None None None = obj"
  proof (cases "obj = []")
    case True
    then show ?thesis using ps(3) by (simp add: qs_parse_def)
  next
    case False
    then have ne: "ps \<noteq> []" using ps(3) by simp
    then have "?q \<noteq> []" by (cases ps; cases "tl ps") (simp_all add: pair_text_def)
    then have "qs_parse env (JStr ?q) None None None None =
        parse_run (std_conf env ?q) 0 (kst [] 1000 0 False False 0)"
      by (simp add: qs_parse_def std_conf_def parse_start_def parse_pairs_def or_default_def kst_def)
    also have "\<dots> = add_all [] (map snd ps)"
      using run_pairs[OF ne ps(2), of 1000 ?q "[]" env "[]"] assms(2) arg_cong[OF ps(1), of length]
      by simp
    finally show ?thesis using add_all_flat[of "[]" obj] assms(1) ps(1) by simp
  qed
  with str show ?thesis by blast
qed

lemma parse_stringify_witness:
  "\<exists>q. stringify (Some [(js ''a b'', QArray [JStr [0x20AC], JStr []]), ([], QPrim (JStr (js ''x&y'')))])
        None None None = Inr q \<and>
    qs_parse \<lparr>bufToString = id, bufUninit = (\<lambda>_. 0)\<rparr> (JStr q) None None None None =
      [(js ''a b'', PArr [[0x20AC], []]), ([], PStr (js ''x&y''))]"
  using parse_stringify[of "[(js ''a b'', PArr [[0x20AC], []]), ([], PStr (js ''x&y''))]"
      "\<lparr>bufToString = id, bufUninit = (\<lambda>_. 0)\<rparr>"]
  by (simp add: pobject_ok_def pvalue_ok_def flat_def)

end
