(* ===== verification/Util_Core.thy ===== *)
theory Util_Core
  imports Js_Prelude
begin

text \<open>Helpers of \<^verbatim>\<open>lib_js/internal/util.js\<close> on arrays, and the order of an object's properties.\<close>

text \<open>
  \<^verbatim>\<open>spliceOne\<close> shifts the elements after the index one place to the left and drops the last one.
  On an empty array \<^verbatim>\<open>pop\<close> does nothing.
\<close>

function splice_loop :: "'a list \<Rightarrow> nat \<Rightarrow> 'a list" where
  "splice_loop xs index =
     (if index + 1 < length xs then splice_loop (xs[index := xs ! (index + 1)]) (index + 1) else xs)"
  by pat_completeness auto
termination
  by (relation "measure (\<lambda>(xs, index). length xs - index)") auto

declare splice_loop.simps [simp del]

definition spliceOne :: "'a list \<Rightarrow> nat \<Rightarrow> 'a list" where
  "spliceOne xs index = butlast (splice_loop xs index)"

lemma splice_loop_eq:
  "index < length xs \<Longrightarrow> splice_loop xs index = take index xs @ drop (Suc index) xs @ [last xs]"
proof (induction xs index rule: splice_loop.induct)
  case (1 xs index)
  show ?case
  proof (cases "index + 1 < length xs")
    case True
    let ?ys = "xs[index := xs ! (index + 1)]"
    have "splice_loop xs index = splice_loop ?ys (index + 1)"
      using True by (subst splice_loop.simps) simp
    also have "\<dots> = take (index + 1) ?ys @ drop (Suc (index + 1)) ?ys @ [last ?ys]"
      using 1 True by simp
    also have "take (index + 1) ?ys = take index xs @ [xs ! (index + 1)]"
      using True by (simp add: take_Suc_conv_app_nth)
    also have "last ?ys = last xs" using True by (subst last_list_update) auto
    also have "drop (Suc (index + 1)) ?ys = drop (Suc (index + 1)) xs" by simp
    finally show ?thesis
      using True Cons_nth_drop_Suc[of "Suc index" xs] by simp
  next
    case False
    then have "splice_loop xs index = xs" by (subst splice_loop.simps) simp
    moreover have "index = length xs - 1" "xs \<noteq> []" using False 1 by auto
    moreover have "take (length xs - 1) xs @ [last xs] = xs"
      using \<open>xs \<noteq> []\<close> append_butlast_last_id[of xs] butlast_conv_take[of xs] by simp
    ultimately show ?thesis by simp
  qed
qed

lemma spliceOne_eq: "index < length xs \<Longrightarrow> spliceOne xs index = take index xs @ drop (Suc index) xs"
  by (simp add: spliceOne_def splice_loop_eq butlast_append)

section \<open>Property order\<close>

text \<open>
  The order of \<^verbatim>\<open>Object.keys\<close> and \<^verbatim>\<open>Reflect.ownKeys\<close>: the array indices in ascending order, then the
  other names in the order they were created.
\<close>

definition index_value :: "jsstr \<Rightarrow> nat" where
  "index_value s = foldl (\<lambda>n c. 10 * n + (c - 48)) 0 s"

definition is_index :: "jsstr \<Rightarrow> bool" where
  "is_index s \<longleftrightarrow>
     s \<noteq> [] \<and> list_all (\<lambda>c. 48 \<le> c \<and> c \<le> 57) s \<and> (hd s \<noteq> 48 \<or> length s = 1) \<and>
     index_value s < 2 ^ 32 - 1"

definition own_keys :: "(jsstr \<times> 'v) list \<Rightarrow> jsstr list" where
  "own_keys ps =
     (let ks = map fst ps
      in sort_key index_value (filter is_index ks) @ filter (\<lambda>k. \<not> is_index k) ks)"

text \<open>The properties of an object in that order.\<close>

definition own_entries :: "(jsstr \<times> 'v) list \<Rightarrow> (jsstr \<times> 'v) list" where
  "own_entries ps = map (\<lambda>k. (k, the (map_of ps k))) (own_keys ps)"

lemma set_own_keys [simp]: "set (own_keys ps) = dom (map_of ps)"
  by (auto simp: own_keys_def Let_def dom_map_of_conv_image_fst)

lemma distinct_own_keys: "distinct (map fst ps) \<Longrightarrow> distinct (own_keys ps)"
  by (auto simp: own_keys_def Let_def)

end
