(* ===== verification/Js_Effects.thy ===== *)
theory Js_Effects
  imports Js_Prelude
begin

text \<open>
  Stateful code that may throw and may call back into user code: a call maps a state to a result
  and a new state, \<open>None\<close> stands for a run that is not over within the fuel.  The event emitter and
  the streams build their methods from these combinators.
\<close>

type_synonym 's outcome = "((jserr + bool) \<times> 's) option"

definition and_then :: "'s outcome \<Rightarrow> (bool \<Rightarrow> 's \<Rightarrow> 's outcome) \<Rightarrow> 's outcome" where
  "and_then r f =
     (case r of
        None \<Rightarrow> None
      | Some (Inl e, st) \<Rightarrow> Some (Inl e, st)
      | Some (Inr b, st) \<Rightarrow> f b st)"

definition return_to :: "bool \<Rightarrow> 's \<Rightarrow> 's outcome" where
  "return_to b st = Some (Inr b, st)"

definition throw :: "jserr \<Rightarrow> 's \<Rightarrow> 's outcome" where
  "throw e st = Some (Inl e, st)"

text \<open>
  The rule for invariants: an invariant that holds after the first part and that the second part
  keeps holds at the end, also when the first part throws.
\<close>

lemma and_then_keeps:
  assumes "and_then m f = Some (r, st')"
    "\<And>r1 st1. m = Some (r1, st1) \<Longrightarrow> I st1"
    "\<And>b st1. m = Some (Inr b, st1) \<Longrightarrow> f b st1 = Some (r, st') \<Longrightarrow> I st1 \<Longrightarrow> I st'"
  shows "I st'"
  using assms by (auto simp: and_then_def split: option.splits sum.splits prod.splits)

lemma and_then_Some_iff:
  "and_then m f = Some x \<longleftrightarrow>
     (\<exists>e st. m = Some (Inl e, st) \<and> x = (Inl e, st)) \<or> (\<exists>b st. m = Some (Inr b, st) \<and> f b st = Some x)"
  by (auto simp: and_then_def split: option.splits sum.splits prod.splits)

lemma and_then_le:
  assumes "and_then m f = Some x" "\<And>y. m = Some y \<Longrightarrow> m' = Some y"
    "\<And>b st. f b st = Some x \<Longrightarrow> f' b st = Some x"
  shows "and_then m' f' = Some x"
  using assms by (fastforce simp: and_then_Some_iff)

lemma and_then_simps:
  "and_then (Some (Inr b, st)) f = f b st"
  "and_then (Some (Inl e, st)) f = Some (Inl e, st)"
  "and_then (return_to b st) f = f b st"
  "and_then (throw e st) f = throw e st"
  by (simp_all add: and_then_def return_to_def throw_def)

text \<open>A call that ends returns, and its state satisfies \<open>P\<close>; a call that ends, also by throwing, does.\<close>

definition returns :: "'s outcome \<Rightarrow> ('s \<Rightarrow> bool) \<Rightarrow> bool" where
  "returns m P \<longleftrightarrow> (\<forall>r st. m = Some (r, st) \<longrightarrow> (\<exists>b. r = Inr b) \<and> P st)"

definition always :: "'s outcome \<Rightarrow> ('s \<Rightarrow> bool) \<Rightarrow> bool" where
  "always m P \<longleftrightarrow> (\<forall>r st. m = Some (r, st) \<longrightarrow> P st)"

lemma returns_and_then:
  assumes "returns m P" "\<And>b st. P st \<Longrightarrow> returns (f b st) Q"
  shows "returns (and_then m f) Q"
  using assms by (fastforce simp: returns_def and_then_Some_iff)

lemma returns_return_to: "returns (return_to b st) P = P st"
  by (simp add: returns_def return_to_def)

lemma returns_mono: "returns m P \<Longrightarrow> (\<And>st. P st \<Longrightarrow> Q st) \<Longrightarrow> returns m Q"
  by (auto simp: returns_def)

lemma always_and_then:
  assumes "always m P" "\<And>b st. P st \<Longrightarrow> always (f b st) P"
  shows "always (and_then m f) P"
  using assms by (fastforce simp: always_def and_then_Some_iff)

lemma returns_always:
  assumes "returns m P" "\<And>b st. P st \<Longrightarrow> always (f b st) Q"
  shows "always (and_then m f) Q"
  using assms by (fastforce simp: returns_def always_def and_then_Some_iff)

lemma always_simps [simp]:
  "always (return_to b st) P = P st" "always (throw e st) P = P st"
  by (simp_all add: always_def return_to_def throw_def)

lemma always_returns: "returns m P \<Longrightarrow> always m P"
  by (auto simp: returns_def always_def)

end
