(* ===== verification/Events.thy ===== *)
theory Events
  imports Util_Core Js_Effects
begin

text \<open>
  \<^verbatim>\<open>lib_js/events.js\<close>: the event emitter.  A function is a reference; a once-wrapper is a function
  whose state the emitter's model keeps.  The arrays of listeners are objects with an identity,
  because \<^verbatim>\<open>removeAllListeners\<close> goes on reading an array while handlers change it.  What a handler
  does is a parameter: a list of calls of the emitter's methods, or a throw.  Every method that
  can run a handler takes the function that runs the next call; \<open>exec\<close> ties the knot with fuel.
\<close>

section \<open>State\<close>

record wrapper =
  w_fired :: bool
  w_type :: jsstr
  w_listener :: nat

text \<open>An entry of \<^verbatim>\<open>_events\<close>: a function, or (a reference to) an array of functions.\<close>

datatype entry = Single nat | Many nat

record emitter =
  ev_events :: "(jsstr \<times> entry) list option"
  ev_count :: int
  ev_max :: "jsnum option"
  ev_arrays :: "nat \<Rightarrow> nat list"
  ev_next_array :: nat
  ev_wrappers :: "nat \<Rightarrow> wrapper option"
  ev_next_fn :: nat
  ev_fired :: "nat list"

text \<open>\<open>ev_fired\<close> is a ghost: the once-wrappers that called their listener, the last one first.\<close>

text \<open>\<^verbatim>\<open>events[type] = v\<close> and \<^verbatim>\<open>delete events[type]\<close> on a property list.\<close>

fun prop_set :: "(jsstr \<times> 'v) list \<Rightarrow> jsstr \<Rightarrow> 'v \<Rightarrow> (jsstr \<times> 'v) list" where
  "prop_set [] k v = [(k, v)]"
| "prop_set ((k', v') # r) k v = (if k' = k then (k', v) # r else (k', v') # prop_set r k v)"

definition prop_delete :: "(jsstr \<times> 'v) list \<Rightarrow> jsstr \<Rightarrow> (jsstr \<times> 'v) list" where
  "prop_delete ps k = filter (\<lambda>(k', _). k' \<noteq> k) ps"

text \<open>The methods a handler calls, and the calls in between (\<open>exec\<close> runs them).\<close>

datatype cmd =
    CAdd jsstr jsval bool
  | COnce jsstr jsval bool
  | CRemove jsstr jsval
  | CRemoveAll "jsstr option"
  | CEmit jsstr "jsval list"
  | CSetMax jsval
  | CThrow jsval

datatype call =
    Emit jsstr "jsval list"
  | Apply nat "jsval list"
  | ApplyAll "nat list" "jsval list"
  | AddListener jsstr jsval bool
  | Once jsstr jsval bool
  | RemoveListener jsstr jsval
  | RemoveAll "jsstr option"
  | RemoveKeys "jsstr list"
  | RemoveEach jsstr nat nat
  | Run "cmd list"

text \<open>What the handlers do, and which values are instances of \<^verbatim>\<open>Error\<close>.\<close>

record hooks =
  behaviour :: "nat \<Rightarrow> jsval list \<Rightarrow> emitter \<Rightarrow> cmd list"
  isError :: "jsval \<Rightarrow> bool"

text \<open>A method returns a value or throws, and changes the emitter.\<close>

type_synonym ev_result = "emitter outcome"
type_synonym runner = "call \<Rightarrow> emitter \<Rightarrow> ev_result"

section \<open>The emitter's methods\<close>

text \<open>\<^verbatim>\<open>f.listener\<close>, and \<^verbatim>\<open>f.listener || f\<close>.\<close>

definition listenerOf :: "emitter \<Rightarrow> nat \<Rightarrow> nat option" where
  "listenerOf st f = map_option w_listener (ev_wrappers st f)"

definition unwrapFn :: "emitter \<Rightarrow> nat \<Rightarrow> nat" where
  "unwrapFn st f = (case listenerOf st f of Some l \<Rightarrow> l | None \<Rightarrow> f)"

definition ev_get :: "emitter \<Rightarrow> jsstr \<Rightarrow> entry option" where
  "ev_get st type = (case ev_events st of None \<Rightarrow> None | Some evs \<Rightarrow> map_of evs type)"

definition ev_put :: "jsstr \<Rightarrow> entry \<Rightarrow> emitter \<Rightarrow> emitter" where
  "ev_put type e st = st\<lparr>ev_events := map_option (\<lambda>evs. prop_set evs type e) (ev_events st)\<rparr>"

definition ev_init :: "emitter \<Rightarrow> emitter" where
  "ev_init st =
     (let st1 = (if ev_events st = None then st\<lparr>ev_events := Some [], ev_count := 0\<rparr> else st)
      in st1\<lparr>ev_max := (if ev_max st1 \<in> {Some (Fin 0), Some NotANumber} then None else ev_max st1)\<rparr>)"

definition valid_max :: "jsval \<Rightarrow> jsnum option" where
  "valid_max v =
     (case v of
        JNum (Fin i) \<Rightarrow> if i < 0 then None else Some (Fin i)
      | JNum PosInf \<Rightarrow> Some PosInf
      | _ \<Rightarrow> None)"

definition setMaxListeners :: "jsval \<Rightarrow> emitter \<Rightarrow> ev_result" where
  "setMaxListeners n st =
     (case valid_max n of
        None \<Rightarrow> throw (ERR_OUT_OF_RANGE (js ''n'')) st
      | Some m \<Rightarrow> return_to True (st\<lparr>ev_max := Some m\<rparr>))"

definition set_defaultMaxListeners :: "jsval \<Rightarrow> jserr + jsnum" where
  "set_defaultMaxListeners arg =
     (case valid_max arg of
        None \<Rightarrow> Inl (ERR_OUT_OF_RANGE (js ''defaultMaxListeners''))
      | Some m \<Rightarrow> Inr m)"

definition getMaxListeners :: "jsnum \<Rightarrow> emitter \<Rightarrow> jsnum" where
  "getMaxListeners defaultMax st = (case ev_max st of None \<Rightarrow> defaultMax | Some m \<Rightarrow> m)"

text \<open>\<^verbatim>\<open>emit\<close>.\<close>

definition unhandled :: "hooks \<Rightarrow> jsval list \<Rightarrow> jserr" where
  "unhandled h args =
     (let er = (case args of [] \<Rightarrow> JUndef | a # _ \<Rightarrow> a)
      in if isError h er then ThrowValue er else ERR_UNHANDLED_ERROR er)"

definition arrayClone :: "nat list \<Rightarrow> nat list" where
  "arrayClone arr = map (\<lambda>i. arr ! i) [0..<length arr]"

definition emit :: "hooks \<Rightarrow> runner \<Rightarrow> jsstr \<Rightarrow> jsval list \<Rightarrow> emitter \<Rightarrow> ev_result" where
  "emit h rec type args st =
     (let isErr = (type = js ''error'') in
      if ev_events st = None \<and> \<not> isErr then return_to False st
      else
        (let doError = isErr \<and> ev_get st (js ''error'') = None in
         if doError then throw (unhandled h args) st
         else
           (case ev_get st type of
              None \<Rightarrow> return_to False st
            | Some (Single f) \<Rightarrow> and_then (rec (Apply f args) st) (\<lambda>_. return_to True)
            | Some (Many a) \<Rightarrow>
                and_then (rec (ApplyAll (arrayClone (ev_arrays st a)) args) st)
                  (\<lambda>_. return_to True))))"

definition apply_all :: "runner \<Rightarrow> nat list \<Rightarrow> jsval list \<Rightarrow> emitter \<Rightarrow> ev_result" where
  "apply_all rec fs args st =
     (case fs of
        [] \<Rightarrow> return_to True st
      | f # rest \<Rightarrow> and_then (rec (Apply f args) st) (\<lambda>_. rec (ApplyAll rest args)))"

text \<open>The call of a function: the body of a once-wrapper, or what the handler does.\<close>

definition onceWrapper :: "runner \<Rightarrow> nat \<Rightarrow> wrapper \<Rightarrow> jsval list \<Rightarrow> emitter \<Rightarrow> ev_result" where
  "onceWrapper rec self w args st =
     (if \<not> w_fired w then
        and_then (rec (RemoveListener (w_type w) (JFun self)) st) (\<lambda>_ st1.
          rec (Apply (w_listener w) args)
            (st1\<lparr>ev_wrappers := (ev_wrappers st1)
                   (self := map_option (\<lambda>w. w\<lparr>w_fired := True\<rparr>) (ev_wrappers st1 self)),
                 ev_fired := self # ev_fired st1\<rparr>))
      else return_to True st)"

definition apply_fn :: "hooks \<Rightarrow> runner \<Rightarrow> nat \<Rightarrow> jsval list \<Rightarrow> emitter \<Rightarrow> ev_result" where
  "apply_fn h rec f args st =
     (case ev_wrappers st f of
        Some w \<Rightarrow> onceWrapper rec f w args st
      | None \<Rightarrow> rec (Run (behaviour h f args st)) st)"

text \<open>\<^verbatim>\<open>_addListener\<close>: the part after the \<^verbatim>\<open>newListener\<close> event.\<close>

definition attach :: "jsstr \<Rightarrow> nat \<Rightarrow> bool \<Rightarrow> emitter \<Rightarrow> emitter" where
  "attach type f prepend st =
     (case ev_get st type of
        None \<Rightarrow> (ev_put type (Single f) st)\<lparr>ev_count := ev_count st + 1\<rparr>
      | Some (Single g) \<Rightarrow>
          (let a = ev_next_array st
           in (ev_put type (Many a) st)
                \<lparr>ev_arrays := (ev_arrays st)(a := if prepend then [f, g] else [g, f]),
                 ev_next_array := a + 1\<rparr>)
      | Some (Many a) \<Rightarrow>
          st\<lparr>ev_arrays := (ev_arrays st)(a := if prepend then f # ev_arrays st a
                                              else ev_arrays st a @ [f])\<rparr>)"

definition addListener :: "runner \<Rightarrow> jsstr \<Rightarrow> jsval \<Rightarrow> bool \<Rightarrow> emitter \<Rightarrow> ev_result" where
  "addListener rec type listener prepend st =
     (case listener of
        JFun f \<Rightarrow>
          if ev_events st = None then
            return_to True (attach type f prepend (st\<lparr>ev_events := Some [], ev_count := 0\<rparr>))
          else if ev_get st (js ''newListener'') \<noteq> None then
            and_then (rec (Emit (js ''newListener'') [JStr type, JFun (unwrapFn st f)]) st)
              (\<lambda>_ st'. if ev_events st' = None then throw TypeError st'
                       else return_to True (attach type f prepend st'))
          else return_to True (attach type f prepend st)
      | _ \<Rightarrow> throw (ERR_INVALID_ARG_TYPE (js ''listener'')) st)"

text \<open>\<^verbatim>\<open>once\<close> and \<^verbatim>\<open>prependOnceListener\<close>: a fresh wrapper is added.\<close>

definition once :: "runner \<Rightarrow> jsstr \<Rightarrow> jsval \<Rightarrow> bool \<Rightarrow> emitter \<Rightarrow> ev_result" where
  "once rec type listener prepend st =
     (case listener of
        JFun f \<Rightarrow>
          (let self = ev_next_fn st
           in rec (AddListener type (JFun self) prepend)
                (st\<lparr>ev_wrappers := (ev_wrappers st)
                      (self \<mapsto> \<lparr>w_fired = False, w_type = type, w_listener = f\<rparr>),
                    ev_next_fn := self + 1\<rparr>))
      | _ \<Rightarrow> throw (ERR_INVALID_ARG_TYPE (js ''listener'')) st)"

text \<open>\<^verbatim>\<open>for (i = list.length - 1; i >= 0; i--)\<close>: the last position of the listener.\<close>

fun listener_position :: "emitter \<Rightarrow> nat list \<Rightarrow> nat \<Rightarrow> nat \<Rightarrow> nat option" where
  "listener_position st xs f 0 = None"
| "listener_position st xs f (Suc i) =
     (if xs ! i = f \<or> listenerOf st (xs ! i) = Some f then Some i
      else listener_position st xs f i)"

text \<open>The removal from an array, and the \<^verbatim>\<open>removeListener\<close> event after a removal.\<close>

definition remove_at :: "jsstr \<Rightarrow> nat \<Rightarrow> nat \<Rightarrow> emitter \<Rightarrow> emitter" where
  "remove_at type a position st =
     (let xs = ev_arrays st a;
          xs' = (if position = 0 then tl xs else spliceOne xs position);
          st1 = st\<lparr>ev_arrays := (ev_arrays st)(a := xs')\<rparr>
      in if length xs' = 1 then ev_put type (Single (xs' ! 0)) st1 else st1)"

definition emit_removed :: "runner \<Rightarrow> jsstr \<Rightarrow> nat \<Rightarrow> emitter \<Rightarrow> ev_result" where
  "emit_removed rec type f st =
     (if ev_get st (js ''removeListener'') \<noteq> None then
        and_then (rec (Emit (js ''removeListener'') [JStr type, JFun f]) st) (\<lambda>_. return_to True)
      else return_to True st)"

definition removeListener :: "runner \<Rightarrow> jsstr \<Rightarrow> jsval \<Rightarrow> emitter \<Rightarrow> ev_result" where
  "removeListener rec type listener st =
     (case listener of
        JFun f \<Rightarrow>
          (case ev_get st type of
             None \<Rightarrow> return_to True st
           | Some (Single g) \<Rightarrow>
               if g = f \<or> listenerOf st g = Some f then
                 (let st1 = st\<lparr>ev_count := ev_count st - 1\<rparr> in
                  if ev_count st1 = 0 then return_to True (st1\<lparr>ev_events := Some []\<rparr>)
                  else
                    emit_removed rec type (case listenerOf st g of Some l \<Rightarrow> l | None \<Rightarrow> f)
                      (st1\<lparr>ev_events := map_option (\<lambda>evs. prop_delete evs type) (ev_events st1)\<rparr>))
               else return_to True st
           | Some (Many a) \<Rightarrow>
               (case listener_position st (ev_arrays st a) f (length (ev_arrays st a)) of
                  None \<Rightarrow> return_to True st
                | Some position \<Rightarrow>
                    emit_removed rec type
                      (case listenerOf st (ev_arrays st a ! position) of Some l \<Rightarrow> l | None \<Rightarrow> f)
                      (remove_at type a position st)))
      | _ \<Rightarrow> throw (ERR_INVALID_ARG_TYPE (js ''listener'')) st)"

text \<open>\<^verbatim>\<open>removeAllListeners\<close>; the loops run one iteration and call themselves again.\<close>

definition removeAllListeners :: "runner \<Rightarrow> jsstr option \<Rightarrow> emitter \<Rightarrow> ev_result" where
  "removeAllListeners rec arg st =
     (case ev_events st of
        None \<Rightarrow> return_to True st
      | Some evs \<Rightarrow>
          if map_of evs (js ''removeListener'') = None then
            (case arg of
               None \<Rightarrow> return_to True (st\<lparr>ev_events := Some [], ev_count := 0\<rparr>)
             | Some type \<Rightarrow>
                 if map_of evs type \<noteq> None then
                   (let st1 = st\<lparr>ev_count := ev_count st - 1\<rparr>
                    in if ev_count st1 = 0 then return_to True (st1\<lparr>ev_events := Some []\<rparr>)
                       else return_to True (st1\<lparr>ev_events := Some (prop_delete evs type)\<rparr>))
                 else return_to True st)
          else
            (case arg of
               None \<Rightarrow> rec (RemoveKeys (own_keys evs)) st
             | Some type \<Rightarrow>
                 (case map_of evs type of
                    Some (Single f) \<Rightarrow> rec (RemoveListener type (JFun f)) st
                  | Some (Many a) \<Rightarrow> rec (RemoveEach type a (length (ev_arrays st a))) st
                  | None \<Rightarrow> return_to True st)))"

definition remove_keys :: "runner \<Rightarrow> jsstr list \<Rightarrow> emitter \<Rightarrow> ev_result" where
  "remove_keys rec keys st =
     (case keys of
        [] \<Rightarrow>
          and_then (rec (RemoveAll (Some (js ''removeListener''))) st)
            (\<lambda>_ st'. return_to True (st'\<lparr>ev_events := Some [], ev_count := 0\<rparr>))
      | key # rest \<Rightarrow>
          if key = js ''removeListener'' then rec (RemoveKeys rest) st
          else and_then (rec (RemoveAll (Some key)) st) (\<lambda>_. rec (RemoveKeys rest)))"

text \<open>\<^verbatim>\<open>listeners[i]\<close> is read from the array as it is now; out of range it is undefined.\<close>

definition remove_each :: "runner \<Rightarrow> jsstr \<Rightarrow> nat \<Rightarrow> nat \<Rightarrow> emitter \<Rightarrow> ev_result" where
  "remove_each rec type a i st =
     (case i of
        0 \<Rightarrow> return_to True st
      | Suc j \<Rightarrow>
          and_then
            (rec (RemoveListener type
               (if j < length (ev_arrays st a) then JFun (ev_arrays st a ! j) else JUndef)) st)
            (\<lambda>_. rec (RemoveEach type a j)))"

text \<open>A handler's calls, one after the other.\<close>

definition run_cmds :: "runner \<Rightarrow> cmd list \<Rightarrow> emitter \<Rightarrow> ev_result" where
  "run_cmds rec cmds st =
     (case cmds of
        [] \<Rightarrow> return_to True st
      | c # rest \<Rightarrow>
          and_then
            (case c of
               CAdd type f prepend \<Rightarrow> rec (AddListener type f prepend) st
             | COnce type f prepend \<Rightarrow> rec (Once type f prepend) st
             | CRemove type f \<Rightarrow> rec (RemoveListener type f) st
             | CRemoveAll arg \<Rightarrow> rec (RemoveAll arg) st
             | CEmit type args \<Rightarrow> rec (Emit type args) st
             | CSetMax n \<Rightarrow> setMaxListeners n st
             | CThrow v \<Rightarrow> throw (ThrowValue v) st)
            (\<lambda>_. rec (Run rest)))"

definition step :: "hooks \<Rightarrow> runner \<Rightarrow> runner" where
  "step h rec c =
     (case c of
        Emit type args \<Rightarrow> emit h rec type args
      | Apply f args \<Rightarrow> apply_fn h rec f args
      | ApplyAll fs args \<Rightarrow> apply_all rec fs args
      | AddListener type f prepend \<Rightarrow> addListener rec type f prepend
      | Once type f prepend \<Rightarrow> once rec type f prepend
      | RemoveListener type f \<Rightarrow> removeListener rec type f
      | RemoveAll arg \<Rightarrow> removeAllListeners rec arg
      | RemoveKeys keys \<Rightarrow> remove_keys rec keys
      | RemoveEach type a i \<Rightarrow> remove_each rec type a i
      | Run cmds \<Rightarrow> run_cmds rec cmds)"

fun exec :: "hooks \<Rightarrow> nat \<Rightarrow> runner" where
  "exec h 0 = (\<lambda>c st. None)"
| "exec h (Suc n) = step h (exec h n)"

section \<open>Queries\<close>

definition entry_fns :: "emitter \<Rightarrow> entry option \<Rightarrow> nat list" where
  "entry_fns st e = (case e of None \<Rightarrow> [] | Some (Single f) \<Rightarrow> [f] | Some (Many a) \<Rightarrow> ev_arrays st a)"

definition unwrapListeners :: "emitter \<Rightarrow> nat list \<Rightarrow> nat list" where
  "unwrapListeners st arr = map (unwrapFn st) arr"

definition listeners_of :: "emitter \<Rightarrow> jsstr \<Rightarrow> bool \<Rightarrow> nat list" where
  "listeners_of st type unwrap =
     (case ev_get st type of
        None \<Rightarrow> []
      | Some (Single f) \<Rightarrow> if unwrap then [unwrapFn st f] else [f]
      | Some (Many a) \<Rightarrow>
          if unwrap then unwrapListeners st (ev_arrays st a) else arrayClone (ev_arrays st a))"

definition listeners :: "emitter \<Rightarrow> jsstr \<Rightarrow> nat list" where
  "listeners st type = listeners_of st type True"

definition rawListeners :: "emitter \<Rightarrow> jsstr \<Rightarrow> nat list" where
  "rawListeners st type = listeners_of st type False"

definition listenerCount :: "emitter \<Rightarrow> jsstr \<Rightarrow> nat" where
  "listenerCount st type =
     (case ev_get st type of
        None \<Rightarrow> 0 | Some (Single f) \<Rightarrow> 1 | Some (Many a) \<Rightarrow> length (ev_arrays st a))"

definition eventNames :: "emitter \<Rightarrow> jsstr list" where
  "eventNames st =
     (if ev_count st > 0 then (case ev_events st of Some evs \<Rightarrow> own_keys evs | None \<Rightarrow> []) else [])"

text \<open>
  The emitter \<^verbatim>\<open>new EventEmitter()\<close> makes; the functions below \<open>nf\<close> are the ones that exist already.
\<close>

definition new_emitter :: "nat \<Rightarrow> emitter" where
  "new_emitter nf = ev_init \<lparr>ev_events = None, ev_count = 0, ev_max = None, ev_arrays = (\<lambda>_. []),
     ev_next_array = 0, ev_wrappers = (\<lambda>_. None), ev_next_fn = nf, ev_fired = []\<rparr>"

section \<open>Stack traces\<close>

text \<open>\<^verbatim>\<open>longestSeqContainedIn\<close>: the loops over the length and the two offsets.\<close>

definition seq_offsets :: "jsstr list \<Rightarrow> jsstr list \<Rightarrow> nat \<Rightarrow> (nat \<times> nat \<times> nat) list" where
  "seq_offsets a b len =
     [(len, i, j). i \<leftarrow> [0..<length a - len], j \<leftarrow> [0..<length b - len],
                   list_all (\<lambda>k. a ! (i + k) = b ! (j + k)) [0..<len]]"

definition longestSeqContainedIn :: "jsstr list \<Rightarrow> jsstr list \<Rightarrow> nat \<times> nat \<times> nat" where
  "longestSeqContainedIn a b =
     (case concat (map (seq_offsets a b) (rev [3..<Suc (length a)])) of
        [] \<Rightarrow> (0, 0, 0) | r # _ \<Rightarrow> r)"

text \<open>
  \<^verbatim>\<open>enhanceStackTrace\<close> on the two stack strings: the new \<^verbatim>\<open>err.stack\<close>.  \<^verbatim>\<open>slice(1)\<close> drops the first
  line, \<^verbatim>\<open>splice(off + 1, len - 1, marker)\<close> puts one line in the place of the shared ones.
\<close>

definition enhanceStackTrace :: "jsstr \<Rightarrow> jsstr \<Rightarrow> jsstr" where
  "enhanceStackTrace err_stack own_stack =
     (let errStack = tl (splitOn (\<lambda>c. c = 10) err_stack);
          ownStack = tl (splitOn (\<lambda>c. c = 10) own_stack);
          lines = (case longestSeqContainedIn ownStack errStack of
                     (len, off, _) \<Rightarrow>
                       if len > 0
                       then take (off + 1) ownStack
                            @ [js ''    [... lines matching original stack trace ...]'']
                            @ drop (off + len) ownStack
                       else ownStack)
      in err_stack @ [10] @ js ''Emitted '' @ [39] @ js ''error'' @ [39] @ js '' event at:'' @ [10]
           @ joinOn 10 lines)"

end
