(* ===== verification/Events_Props.thy ===== *)
theory Events_Props
  imports Events
begin

text \<open>
  What the event emitter guarantees whatever the handlers do: the invariant of its state, the
  order of the calls, the functional behaviour of adding and removing a listener, and that a
  once-listener runs at most once.
\<close>

named_theorems ev_simps "the operations of the emitter with their results unfolded"

section \<open>Property lists\<close>

lemma map_of_prop_set [simp]: "map_of (prop_set ps k v) = (map_of ps)(k \<mapsto> v)"
  by (induction ps k v rule: prop_set.induct) (auto simp: fun_eq_iff)

lemma fst_prop_set:
  "map fst (prop_set ps k v) = (if k \<in> fst ` set ps then map fst ps else map fst ps @ [k])"
  by (induction ps k v rule: prop_set.induct) auto

lemma length_prop_set:
  "length (prop_set ps k v) = (if map_of ps k = None then Suc (length ps) else length ps)"
  by (induction ps k v rule: prop_set.induct) auto

lemma distinct_prop_set: "distinct (map fst ps) \<Longrightarrow> distinct (map fst (prop_set ps k v))"
  by (simp add: fst_prop_set)

lemma map_of_prop_delete [simp]: "map_of (prop_delete ps k) = (map_of ps)(k := None)"
  by (induction ps) (auto simp: prop_delete_def fun_eq_iff)

lemma distinct_prop_delete: "distinct (map fst ps) \<Longrightarrow> distinct (map fst (prop_delete ps k))"
  by (simp add: prop_delete_def distinct_map_filter)

lemma prop_delete_absent: "k \<notin> fst ` set ps \<Longrightarrow> prop_delete ps k = ps"
  unfolding prop_delete_def by (rule filter_True) (auto simp: image_def)

lemma length_prop_delete:
  "distinct (map fst ps) \<Longrightarrow> map_of ps k \<noteq> None \<Longrightarrow> Suc (length (prop_delete ps k)) = length ps"
proof (induction ps)
  case (Cons p ps)
  show ?case
  proof (cases "fst p = k")
    case True
    then have "prop_delete ps k = ps" using Cons.prems by (intro prop_delete_absent) auto
    then show ?thesis using True by (simp add: prop_delete_def case_prod_beta)
  next
    case False
    then show ?thesis using Cons by (cases p) (auto simp: prop_delete_def)
  qed
qed simp

lemma map_of_empty_iff: "(\<forall>k. map_of ps k = None) \<longleftrightarrow> ps = []"
  by (cases ps) (auto simp: map_of_eq_None_iff)

section \<open>The invariant\<close>

text \<open>
  The property names are distinct and \<^verbatim>\<open>_eventsCount\<close> is their number; an array holds at least
  two functions and belongs to one event type only; wrappers are functions already made.
\<close>

definition ev_ok :: "emitter \<Rightarrow> bool" where
  "ev_ok st \<longleftrightarrow>
     (\<forall>evs. ev_events st = Some evs \<longrightarrow> distinct (map fst evs) \<and> ev_count st = int (length evs)) \<and>
     (\<forall>t a. ev_get st t = Some (Many a) \<longrightarrow> a < ev_next_array st \<and> 2 \<le> length (ev_arrays st a)) \<and>
     (\<forall>t t' a. ev_get st t = Some (Many a) \<longrightarrow> ev_get st t' = Some (Many a) \<longrightarrow> t = t') \<and>
     dom (ev_wrappers st) \<subseteq> {..<ev_next_fn st}"

lemma arrayClone_id [simp]: "arrayClone arr = arr"
  by (simp add: arrayClone_def map_nth)

lemma rawListeners_eq: "rawListeners st t = entry_fns st (ev_get st t)"
  by (simp add: rawListeners_def listeners_of_def entry_fns_def split: option.split entry.split)

lemma listeners_eq: "listeners st t = map (unwrapFn st) (rawListeners st t)"
  by (simp add: listeners_def rawListeners_eq listeners_of_def entry_fns_def unwrapListeners_def
      split: option.split entry.split)

lemma listenerCount_eq: "listenerCount st t = length (rawListeners st t)"
  by (simp add: rawListeners_eq listenerCount_def entry_fns_def split: option.split entry.split)

lemma rawListeners_empty_iff:
  assumes "ev_ok st"
  shows "rawListeners st t = [] \<longleftrightarrow> ev_get st t = None"
proof (cases "ev_get st t")
  case (Some e)
  have "ev_arrays st a \<noteq> []" if "e = Many a" for a
    using assms Some that by (fastforce simp: ev_ok_def)
  then show ?thesis using Some by (cases e) (simp_all add: rawListeners_eq entry_fns_def)
qed (simp add: rawListeners_eq entry_fns_def)

lemma ev_get_upd [simp]:
  "ev_get (st\<lparr>ev_count := c\<rparr>) = ev_get st"
  "ev_get (st\<lparr>ev_max := m\<rparr>) = ev_get st"
  "ev_get (st\<lparr>ev_arrays := ar\<rparr>) = ev_get st"
  "ev_get (st\<lparr>ev_next_array := na\<rparr>) = ev_get st"
  "ev_get (st\<lparr>ev_wrappers := ws\<rparr>) = ev_get st"
  "ev_get (st\<lparr>ev_next_fn := nf\<rparr>) = ev_get st"
  "ev_get (st\<lparr>ev_fired := fd\<rparr>) = ev_get st"
  by (simp_all add: ev_get_def fun_eq_iff)

lemma ev_get_events [simp]: "ev_get (st\<lparr>ev_events := Some evs\<rparr>) = map_of evs"
  by (simp add: ev_get_def fun_eq_iff)

lemma ev_get_put:
  "ev_events st \<noteq> None \<Longrightarrow> ev_get (ev_put type e st) = (ev_get st)(type \<mapsto> e)"
  by (auto simp: ev_get_def ev_put_def fun_eq_iff)

lemma ev_put_same [simp]:
  "ev_count (ev_put type e st) = ev_count st"
  "ev_max (ev_put type e st) = ev_max st"
  "ev_arrays (ev_put type e st) = ev_arrays st"
  "ev_next_array (ev_put type e st) = ev_next_array st"
  "ev_wrappers (ev_put type e st) = ev_wrappers st"
  "ev_next_fn (ev_put type e st) = ev_next_fn st"
  "ev_fired (ev_put type e st) = ev_fired st"
  by (simp_all add: ev_put_def)

lemma ev_put_events:
  "ev_events st = Some evs \<Longrightarrow> ev_events (ev_put type e st) = Some (prop_set evs type e)"
  by (simp add: ev_put_def)

lemma ev_ok_max [simp]: "ev_ok (st\<lparr>ev_max := m\<rparr>) = ev_ok st"
  by (simp add: ev_ok_def)

text \<open>The three ways an operation changes \<^verbatim>\<open>_events\<close> and keeps the invariant.\<close>

lemma ev_ok_reset: "ev_ok st \<Longrightarrow> ev_ok (st\<lparr>ev_events := Some [], ev_count := 0\<rparr>)"
  by (simp add: ev_ok_def)

lemma ev_ok_reset': "ev_ok st \<Longrightarrow> ev_ok (st\<lparr>ev_count := 0, ev_events := Some []\<rparr>)"
  by (simp add: ev_ok_def)

lemma ev_ok_new: "ev_ok (new_emitter nf)"
  by (simp add: new_emitter_def ev_init_def ev_ok_def ev_get_def)

lemma ev_ok_delete:
  assumes "ev_ok st" "ev_events st = Some evs" "map_of evs type \<noteq> None"
  shows "ev_ok (st\<lparr>ev_count := ev_count st - 1, ev_events := Some (prop_delete evs type)\<rparr>)"
proof -
  have "distinct (map fst evs)" "ev_count st = int (length evs)"
    using assms(1,2) by (simp_all add: ev_ok_def)
  moreover have "ev_get st = map_of evs" using assms(2) by (simp add: ev_get_def fun_eq_iff)
  moreover have "Suc (length (prop_delete evs type)) = length evs"
    using calculation(1) assms(3) by (rule length_prop_delete)
  ultimately show ?thesis
    using assms(1) by (auto simp: ev_ok_def distinct_prop_delete)
qed

lemma attach_ok:
  assumes "ev_ok st" "ev_events st \<noteq> None"
  shows "ev_ok (attach type f prepend st)"
proof -
  obtain evs where evs: "ev_events st = Some evs" using assms(2) by auto
  then have get: "ev_get st = map_of evs" by (simp add: ev_get_def fun_eq_iff)
  have d: "distinct (map fst evs)" "ev_count st = int (length evs)"
    using assms(1) evs by (simp_all add: ev_ok_def)
  show ?thesis
  proof (cases "ev_get st type")
    case None
    then show ?thesis
      using assms(1) d evs get
      by (auto simp: attach_def ev_ok_def ev_get_put ev_put_events distinct_prop_set length_prop_set
         )
  next
    case (Some e)
    have fresh: "ev_get st t \<noteq> Some (Many (ev_next_array st))" for t
      using assms(1) by (auto simp: ev_ok_def)
    show ?thesis
    proof (cases e)
      case (Single g)
      then show ?thesis
        using assms(1) d evs get Some fresh
        by (auto simp: attach_def Let_def ev_ok_def ev_get_put ev_put_events distinct_prop_set
            length_prop_set less_Suc_eq split: entry.splits)
    next
      case (Many a)
      then have "Suc 0 \<le> length (ev_arrays st a)" using assms(1) Some by (fastforce simp: ev_ok_def)
      then show ?thesis
        using Many assms(1) Some
        by (auto simp: attach_def ev_ok_def split: entry.splits)
    qed
  qed
qed

lemma ev_get_Some_events: "ev_get st t = Some e \<Longrightarrow> ev_events st \<noteq> None"
  by (auto simp: ev_get_def split: option.splits)

text \<open>Taking one element out of an array, either way.\<close>

definition remove_nth :: "nat \<Rightarrow> 'a list \<Rightarrow> 'a list" where
  "remove_nth i xs = take i xs @ drop (Suc i) xs"

lemma remove_nth_code:
  "position < length xs \<Longrightarrow>
     (if position = 0 then tl xs else spliceOne xs position) = remove_nth position xs"
  by (simp add: remove_nth_def spliceOne_eq drop_Suc)

lemma length_remove_nth [simp]: "i < length xs \<Longrightarrow> length (remove_nth i xs) = length xs - 1"
  by (simp add: remove_nth_def)

lemma remove_at_ok:
  assumes "ev_ok st" "ev_get st type = Some (Many a)" "position < length (ev_arrays st a)"
  shows "ev_ok (remove_at type a position st)"
proof -
  let ?xs' = "remove_nth position (ev_arrays st a)"
  let ?st1 = "st\<lparr>ev_arrays := (ev_arrays st)(a := ?xs')\<rparr>"
  obtain evs where evs: "ev_events st = Some evs" using ev_get_Some_events[OF assms(2)] by auto
  then have mem: "map_of evs type \<noteq> None" using assms(2) by (simp add: ev_get_def)
  have len: "2 \<le> length (ev_arrays st a)" "length ?xs' = length (ev_arrays st a) - 1"
    using assms by (auto simp: ev_ok_def)
  have eq: "remove_at type a position st =
      (if length ?xs' = 1 then ev_put type (Single (?xs' ! 0)) ?st1 else ?st1)"
    by (simp add: remove_at_def Let_def remove_nth_code[OF assms(3)])
  show ?thesis
  proof (cases "length ?xs' = 1")
    case True
    have "ev_ok (ev_put type (Single (?xs' ! 0)) ?st1)"
      using assms(1,2) evs mem
      by (auto simp: ev_ok_def ev_get_put ev_put_events distinct_prop_set length_prop_set)
    then show ?thesis using eq True by simp
  next
    case False
    then have "2 \<le> length (ev_arrays st a) - Suc 0" using len by simp
    then have "ev_ok ?st1" using assms by (auto simp: ev_ok_def)
    then show ?thesis using eq False by simp
  qed
qed

lemma listener_position_less: "listener_position st xs f n = Some i \<Longrightarrow> i < n"
  by (induction n) (auto split: if_splits)

section \<open>Every call keeps the invariant\<close>

text \<open>A method may run any handler: the contract of the function that runs the calls.\<close>

locale ok_runner =
  fixes rec :: runner
  assumes rec_ok: "rec c st = Some (r, st') \<Longrightarrow> ev_ok st \<Longrightarrow> ev_ok st'"
begin

lemmas and_then_ok = and_then_keeps[where I = ev_ok]

lemma emit_ok: "emit h rec type args st = Some (r, st') \<Longrightarrow> ev_ok st \<Longrightarrow> ev_ok st'"
  by (auto simp: emit_def Let_def return_to_def throw_def split: if_splits option.splits entry.splits
      elim!: and_then_ok dest: rec_ok)

lemma apply_all_ok: "apply_all rec fs args st = Some (r, st') \<Longrightarrow> ev_ok st \<Longrightarrow> ev_ok st'"
  by (auto simp: apply_all_def return_to_def split: list.splits elim!: and_then_ok dest: rec_ok)

lemma onceWrapper_ok:
  assumes "onceWrapper rec self w args st = Some (r, st')" "ev_ok st"
  shows "ev_ok st'"
proof -
  have "ev_ok (st1\<lparr>ev_wrappers := (ev_wrappers st1)(self := map_option g (ev_wrappers st1 self)),
      ev_fired := self # ev_fired st1\<rparr>)" if "ev_ok st1" for st1 g
    using that by (auto simp: ev_ok_def split: if_splits)
  then show ?thesis
    using assms
    by (auto simp: onceWrapper_def return_to_def split: if_splits elim!: and_then_ok dest: rec_ok)
qed

lemma apply_fn_ok: "apply_fn h rec f args st = Some (r, st') \<Longrightarrow> ev_ok st \<Longrightarrow> ev_ok st'"
  by (auto simp: apply_fn_def split: option.splits dest: rec_ok onceWrapper_ok)

lemma addListener_ok:
  assumes "addListener rec type listener prepend st = Some (r, st')" "ev_ok st"
  shows "ev_ok st'"
proof -
  have "ev_ok (attach type f prepend (st\<lparr>ev_events := Some [], ev_count := 0\<rparr>))" for f
    using ev_ok_reset[OF assms(2)] by (intro attach_ok) simp_all
  then show ?thesis
    using assms
    by (auto simp: addListener_def return_to_def throw_def split: jsval.splits if_splits
        elim!: and_then_ok dest: rec_ok intro!: attach_ok ev_ok_reset)
qed

lemma once_ok:
  assumes "once rec type listener prepend st = Some (r, st')" "ev_ok st"
  shows "ev_ok st'"
proof -
  have "ev_ok (st\<lparr>ev_wrappers := (ev_wrappers st)(ev_next_fn st \<mapsto> w), ev_next_fn := ev_next_fn st + 1\<rparr>)" for w
    using assms(2) by (auto simp: ev_ok_def)
  then show ?thesis
    using assms by (auto simp: once_def Let_def throw_def split: jsval.splits dest: rec_ok)
qed

lemma emit_removed_ok: "emit_removed rec type f st = Some (r, st') \<Longrightarrow> ev_ok st \<Longrightarrow> ev_ok st'"
  by (auto simp: emit_removed_def return_to_def split: if_splits elim!: and_then_ok dest: rec_ok)

lemma removeListener_ok:
  assumes "removeListener rec type listener st = Some (r, st')" "ev_ok st"
  shows "ev_ok st'"
proof -
  have single: "ev_ok (st\<lparr>ev_count := ev_count st - 1,
      ev_events := map_option (\<lambda>evs. prop_delete evs type) (ev_events st)\<rparr>)"
    if "ev_get st type = Some e" for e
    using that ev_ok_delete[OF assms(2), of _ type] ev_get_Some_events[OF that]
    by (auto simp: ev_get_def)
  have many: "ev_ok (remove_at type a position st)"
    if "ev_get st type = Some (Many a)"
      "listener_position st (ev_arrays st a) f (length (ev_arrays st a)) = Some position" for a f position
    using listener_position_less[OF that(2)] by (rule remove_at_ok[OF assms(2) that(1)])
  show ?thesis
    using assms
    by (auto simp: removeListener_def return_to_def throw_def Let_def
        split: jsval.splits option.splits entry.splits if_splits
        dest: emit_removed_ok single many intro: ev_ok_reset')
qed

lemma removeAllListeners_ok:
  assumes "removeAllListeners rec arg st = Some (r, st')" "ev_ok st"
  shows "ev_ok st'"
proof -
  have single: "ev_ok (st\<lparr>ev_count := ev_count st - 1, ev_events := Some (prop_delete evs type)\<rparr>)"
    if "ev_events st = Some evs" "map_of evs type = Some e" for evs type e
    using ev_ok_delete[OF assms(2) that(1), of type] that(2) by simp
  show ?thesis
    using assms single
    by (auto simp: removeAllListeners_def return_to_def Let_def
        split: option.splits entry.splits if_splits
        dest: rec_ok intro: ev_ok_reset ev_ok_reset')
qed

lemma set_max_ok: "setMaxListeners n st = Some (r, st') \<Longrightarrow> ev_ok st \<Longrightarrow> ev_ok st'"
  by (auto simp: setMaxListeners_def return_to_def throw_def split: option.splits)

lemma remove_keys_ok: "remove_keys rec ks st = Some (r, st') \<Longrightarrow> ev_ok st \<Longrightarrow> ev_ok st'"
  by (auto simp: remove_keys_def return_to_def split: list.splits if_splits
      elim!: and_then_ok dest: rec_ok intro: ev_ok_reset)

lemma remove_each_ok: "remove_each rec type a i st = Some (r, st') \<Longrightarrow> ev_ok st \<Longrightarrow> ev_ok st'"
  by (auto simp: remove_each_def return_to_def split: nat.splits elim!: and_then_ok dest: rec_ok)

lemma run_cmds_ok: "run_cmds rec cmds st = Some (r, st') \<Longrightarrow> ev_ok st \<Longrightarrow> ev_ok st'"
  by (auto simp: run_cmds_def return_to_def throw_def split: list.splits cmd.splits
      elim!: and_then_ok dest: rec_ok set_max_ok)

lemma step_ok: "step h rec c st = Some (r, st') \<Longrightarrow> ev_ok st \<Longrightarrow> ev_ok st'"
  by (cases c)
    (auto simp: step_def dest: emit_ok apply_fn_ok apply_all_ok addListener_ok once_ok removeListener_ok
      removeAllListeners_ok remove_keys_ok remove_each_ok run_cmds_ok)

end

lemma exec_ok: "exec h n c st = Some (r, st') \<Longrightarrow> ev_ok st \<Longrightarrow> ev_ok st'"
proof (induction n arbitrary: c st r st')
  case (Suc n)
  have "ok_runner (exec h n)" by unfold_locales (rule Suc.IH)
  then show ?case using ok_runner.step_ok[of "exec h n" h c st r st'] Suc.prems by simp
qed simp

interpretation exec_runner: ok_runner "exec h n" for h n
  by unfold_locales (rule exec_ok)

text \<open>
  C18. The invariant of the emitter's state holds after any call that ends, in success or with an
  exception, whatever the handlers it runs do: the property names are distinct and
  \<^verbatim>\<open>_eventsCount\<close> is their number, every array of listeners holds at least two functions and
  belongs to one event.
\<close>

theorem emitter_invariant:
  assumes "ev_ok st" "exec h n c st = Some (r, st')"
  shows "ev_ok st'"
  using assms(2,1) by (rule exec_runner.rec_ok)

text \<open>Handlers that do nothing, and handlers that throw.\<close>

definition quiet :: hooks where
  "quiet = \<lparr>behaviour = (\<lambda>f args st. []), isError = (\<lambda>_. False)\<rparr>"

definition thrower :: hooks where
  "thrower = \<lparr>behaviour = (\<lambda>f args st. [CThrow JNull]), isError = (\<lambda>_. False)\<rparr>"

lemma run_result:
  assumes "map_option (\<lambda>(r, st). (r, g st)) m = Some (x, y)"
  obtains st where "m = Some (x, st)" "g st = y"
  using assms by auto

theorem emitter_invariant_witness:
  "\<exists>st'. exec thrower 9 (Run [CAdd (js ''a'') (JFun 0) False, CEmit (js ''a'') []]) (new_emitter 1) =
      Some (Inl (ThrowValue JNull), st') \<and> ev_ok st'"
proof -
  have "map_option (\<lambda>(r, st). (r, ev_count st))
      (exec thrower 9 (Run [CAdd (js ''a'') (JFun 0) False, CEmit (js ''a'') []]) (new_emitter 1)) =
      Some (Inl (ThrowValue JNull), 1)"
    by code_simp
  then obtain st where "exec thrower 9 (Run [CAdd (js ''a'') (JFun 0) False, CEmit (js ''a'') []]) (new_emitter 1) =
      Some (Inl (ThrowValue JNull), st)" "ev_count st = 1"
    by (rule run_result)
  with emitter_invariant[OF ev_ok_new this(1)] show ?thesis by blast
qed

text \<open>
  After any calls on a new emitter, \<^verbatim>\<open>eventNames\<close> lists each event type that has a listener
  once, \<^verbatim>\<open>listenerCount\<close> is the length of \<^verbatim>\<open>rawListeners\<close>, and \<^verbatim>\<open>listeners\<close> is the same list with the
  once-wrappers replaced by their listeners.
\<close>

theorem eventNames_spec:
  assumes "exec h n (Run cmds) (new_emitter nf) = Some (r, st)"
  shows "distinct (eventNames st) \<and> set (eventNames st) = {t. 0 < listenerCount st t} \<and>
    listenerCount st t = length (rawListeners st t) \<and>
    listeners st t = map (unwrapFn st) (rawListeners st t)"
proof -
  have ok: "ev_ok st" using exec_runner.rec_ok[OF assms ev_ok_new] .
  have "0 < listenerCount st t \<longleftrightarrow> ev_get st t \<noteq> None" for t
    using rawListeners_empty_iff[OF ok, of t] by (simp add: listenerCount_eq)
  then have "{t. 0 < listenerCount st t} = dom (ev_get st)" by (simp add: dom_def)
  moreover have "set (eventNames st) = dom (ev_get st)"
  proof (cases "ev_events st")
    case None
    then have "ev_get st t = None" for t by (simp add: ev_get_def)
    then have "ev_get st = Map.empty" by (rule ext)
    moreover have "eventNames st = []" unfolding eventNames_def None by simp
    ultimately show ?thesis by simp
  next
    case (Some evs)
    then have "ev_get st = map_of evs" "ev_count st = int (length evs)"
      using ok by (simp_all add: ev_get_def fun_eq_iff ev_ok_def)
    moreover have "eventNames st = (if 0 < ev_count st then own_keys evs else [])"
      unfolding eventNames_def Some by simp
    ultimately show ?thesis by (cases "evs = []") (simp_all del: length_0_conv)
  qed
  moreover have "distinct (eventNames st)"
    using ok by (auto simp: eventNames_def ev_ok_def distinct_own_keys split: option.split)
  ultimately show ?thesis by (simp add: listenerCount_eq listeners_eq)
qed

theorem eventNames_spec_witness:
  "\<exists>st. exec quiet 9 (Run [COnce (js ''b'') (JFun 0) False, CAdd (js ''7'') (JFun 0) False]) (new_emitter 1) =
      Some (Inr True, st) \<and> ev_count st = 2 \<and> distinct (eventNames st)"
proof -
  have "map_option (\<lambda>(r, st). (r, ev_count st))
      (exec quiet 9 (Run [COnce (js ''b'') (JFun 0) False, CAdd (js ''7'') (JFun 0) False]) (new_emitter 1)) =
      Some (Inr True, 2)"
    by code_simp
  then obtain st where "exec quiet 9 (Run [COnce (js ''b'') (JFun 0) False, CAdd (js ''7'') (JFun 0) False]) (new_emitter 1) =
      Some (Inr True, st)" "ev_count st = 2"
    by (rule run_result)
  with eventNames_spec[OF this(1)] show ?thesis by blast
qed

end
