(* ===== verification/Events_Spec.thy ===== *)
theory Events_Spec
  imports Events_Props
begin

text \<open>
  The functional behaviour of the emitter: fuel only decides whether a call ends, \<^verbatim>\<open>emit\<close> runs the
  listeners registered when it is called in their order, \<^verbatim>\<open>addListener\<close>, \<^verbatim>\<open>once\<close> and
  \<^verbatim>\<open>removeListener\<close> change the list of one event type as the documentation says.
\<close>

section \<open>Fuel\<close>

text \<open>A function that answers at least the calls another one answers, and the same way.\<close>

locale more_runner =
  fixes rec rec' :: runner
  assumes le: "rec c st = Some x \<Longrightarrow> rec' c st = Some x"
begin

lemma step_le: "step h rec c st = Some x \<Longrightarrow> step h rec' c st = Some x"
proof (cases c)
  case (Emit t args)
  then show "step h rec c st = Some x \<Longrightarrow> ?thesis"
    by (auto simp: step_def emit_def Let_def split: if_splits option.splits entry.splits
        dest: le elim!: and_then_le)
next
  case (Apply f args)
  then show "step h rec c st = Some x \<Longrightarrow> ?thesis"
    by (auto simp: step_def apply_fn_def onceWrapper_def split: if_splits option.splits
        dest: le elim!: and_then_le)
next
  case (ApplyAll fs args)
  then show "step h rec c st = Some x \<Longrightarrow> ?thesis"
    by (auto simp: step_def apply_all_def split: list.splits dest: le elim!: and_then_le)
next
  case (AddListener t v p)
  then show "step h rec c st = Some x \<Longrightarrow> ?thesis"
    by (auto simp: step_def addListener_def split: jsval.splits if_splits dest: le elim!: and_then_le)
next
  case (Once t v p)
  then show "step h rec c st = Some x \<Longrightarrow> ?thesis"
    by (auto simp: step_def once_def Let_def split: jsval.splits dest: le elim!: and_then_le)
next
  case (RemoveListener t v)
  then show "step h rec c st = Some x \<Longrightarrow> ?thesis"
    by (auto simp: step_def removeListener_def emit_removed_def Let_def
        split: jsval.splits option.splits entry.splits if_splits dest: le elim!: and_then_le)
next
  case (RemoveAll arg)
  then show "step h rec c st = Some x \<Longrightarrow> ?thesis"
    by (auto simp: step_def removeAllListeners_def Let_def
        split: option.splits entry.splits if_splits dest: le elim!: and_then_le)
next
  case (RemoveKeys ks)
  then show "step h rec c st = Some x \<Longrightarrow> ?thesis"
    by (auto simp: step_def remove_keys_def split: list.splits if_splits dest: le elim!: and_then_le)
next
  case (RemoveEach t a i)
  then show "step h rec c st = Some x \<Longrightarrow> ?thesis"
    by (auto simp: step_def remove_each_def split: nat.splits dest: le elim!: and_then_le)
next
  case (Run cmds)
  then show "step h rec c st = Some x \<Longrightarrow> ?thesis"
    by (auto simp: step_def run_cmds_def split: list.splits cmd.splits dest: le elim!: and_then_le)
qed

end

lemma exec_Suc_le: "exec h n c st = Some x \<Longrightarrow> exec h (Suc n) c st = Some x"
proof (induction n arbitrary: c st x)
  case (Suc n)
  have "more_runner (exec h n) (exec h (Suc n))" by unfold_locales (rule Suc.IH)
  then show ?case using more_runner.step_le[of "exec h n" "exec h (Suc n)" h c st x] Suc.prems by simp
qed simp

lemma exec_le:
  assumes "exec h n c st = Some x" "n \<le> m"
  shows "exec h m c st = Some x"
  using assms(2) by (induction rule: dec_induct) (simp_all only: assms(1) exec_Suc_le)

interpretation exec_more: more_runner "exec h n" "exec h (n + k)" for h n k
  by unfold_locales (erule exec_le, simp)

text \<open>The call ends, with this result.\<close>

definition evaluates :: "hooks \<Rightarrow> call \<Rightarrow> emitter \<Rightarrow> (jserr + bool) \<times> emitter \<Rightarrow> bool" where
  "evaluates h c st r \<longleftrightarrow> (\<exists>n. exec h n c st = Some r)"

lemma evaluates_unique: "evaluates h c st r \<Longrightarrow> evaluates h c st r' \<Longrightarrow> r = r'"
  unfolding evaluates_def by (metis exec_le nat_le_linear option.inject)

lemma evaluatesI: "exec h n c st = Some r \<Longrightarrow> evaluates h c st r"
  by (auto simp: evaluates_def)

lemma evaluates_Suc: "evaluates h c st r \<longleftrightarrow> (\<exists>n. step h (exec h n) c st = Some r)"
proof
  assume "evaluates h c st r"
  then obtain n where "exec h n c st = Some r" by (auto simp: evaluates_def)
  then show "\<exists>n. step h (exec h n) c st = Some r" using exec_Suc_le[of h n c st r] by auto
next
  assume "\<exists>n. step h (exec h n) c st = Some r"
  then obtain n where "exec h (Suc n) c st = Some r" by auto
  then show "evaluates h c st r" by (rule evaluatesI)
qed

section \<open>The order of the calls\<close>

text \<open>The functions of a list called one after the other, until one throws.\<close>

inductive seq_calls :: "hooks \<Rightarrow> jsval list \<Rightarrow> nat list \<Rightarrow> emitter \<Rightarrow> (jserr + bool) \<times> emitter \<Rightarrow> bool"
  for h args where
  Done: "seq_calls h args [] st (Inr True, st)"
| Call: "evaluates h (Apply f args) st (Inr b, st1) \<Longrightarrow> seq_calls h args fs st1 r \<Longrightarrow>
    seq_calls h args (f # fs) st r"
| Throws: "evaluates h (Apply f args) st (Inl e, st1) \<Longrightarrow> seq_calls h args (f # fs) st (Inl e, st1)"

inductive_cases seq_calls_NilE: "seq_calls h args [] st r"
inductive_cases seq_calls_ConsE: "seq_calls h args (f # fs) st r"

lemma apply_all_seq: "exec h n (ApplyAll fs args) st = Some r \<Longrightarrow> seq_calls h args fs st r"
proof (induction fs arbitrary: n st)
  case Nil
  then show ?case by (cases n) (auto simp: step_def apply_all_def return_to_def intro: Done)
next
  case (Cons f fs)
  then show ?case
    by (cases n)
      (auto simp: step_def apply_all_def and_then_Some_iff intro: Call Throws evaluatesI)
qed

lemma seq_apply_all: "seq_calls h args fs st r \<Longrightarrow> evaluates h (ApplyAll fs args) st r"
proof (induction rule: seq_calls.induct)
  case (Done st)
  show ?case by (rule evaluatesI[of _ 1]) (simp add: step_def apply_all_def return_to_def)
next
  case (Call f st b st1 fs r)
  then obtain n m where "exec h n (Apply f args) st = Some (Inr b, st1)"
    "exec h m (ApplyAll fs args) st1 = Some r"
    by (auto simp: evaluates_def)
  then have "exec h (Suc (max n m)) (ApplyAll (f # fs) args) st = Some r"
    using exec_le[of h n _ _ _ "max n m"] exec_le[of h m _ _ _ "max n m"]
    by (auto simp: step_def apply_all_def and_then_def)
  then show ?case by (rule evaluatesI)
next
  case (Throws f st e st1 fs)
  then obtain n where "exec h n (Apply f args) st = Some (Inl e, st1)" by (auto simp: evaluates_def)
  then have "exec h (Suc n) (ApplyAll (f # fs) args) st = Some (Inl e, st1)"
    by (simp add: step_def apply_all_def and_then_def)
  then show ?case by (rule evaluatesI)
qed

lemma apply_all_iff: "evaluates h (ApplyAll fs args) st r \<longleftrightarrow> seq_calls h args fs st r"
  using seq_apply_all[of h args fs st r] apply_all_seq[of h _ fs args st r] by (auto simp: evaluates_def)

text \<open>A list of calls returns true or throws.\<close>

lemma seq_calls_result: "seq_calls h args fs st (Inr b, st') \<Longrightarrow> b"
  by (induction fs st "(Inr b, st') :: (jserr + bool) \<times> emitter" rule: seq_calls.induct) auto

lemma tail_iff:
  "(\<exists>n. and_then (exec h n c st) (\<lambda>_. return_to True) = Some r) \<longleftrightarrow>
     (\<exists>e st'. evaluates h c st (Inl e, st') \<and> r = (Inl e, st')) \<or>
     (\<exists>b st'. evaluates h c st (Inr b, st') \<and> r = (Inr True, st'))"
  unfolding and_then_Some_iff evaluates_def return_to_def by blast

lemma seq_calls_single:
  "seq_calls h args [f] st r \<longleftrightarrow> (\<exists>n. and_then (exec h n (Apply f args) st) (\<lambda>_. return_to True) = Some r)"
  unfolding tail_iff by (auto elim!: seq_calls_ConsE seq_calls_NilE intro: seq_calls.intros)

lemma seq_calls_all:
  "seq_calls h args fs st r \<longleftrightarrow> (\<exists>n. and_then (exec h n (ApplyAll fs args) st) (\<lambda>_. return_to True) = Some r)"
proof -
  have "seq_calls h args fs st (x, st') \<Longrightarrow> (\<exists>e. x = Inl e) \<or> x = Inr True" for x st'
    by (cases x) (auto dest: seq_calls_result)
  then show ?thesis
    unfolding tail_iff apply_all_iff by (cases r) (use seq_calls_result in fastforce)
qed

text \<open>
  C30. \<^verbatim>\<open>emit\<close> calls the functions registered for the event when it starts, in their order, with its
  arguments, until one throws, whatever they change in the emitter meanwhile; without a listener
  it returns false, and an \<^verbatim>\<open>error\<close> event throws the error or wraps it.
\<close>

theorem emit_in_order:
  assumes "ev_ok st"
  shows "evaluates h (Emit type args) st r \<longleftrightarrow>
    (if rawListeners st type \<noteq> [] then seq_calls h args (rawListeners st type) st r
     else if type = js ''error'' then r = (Inl (unhandled h args), st)
     else r = (Inr False, st))"
proof (cases "ev_get st type")
  case None
  then have "emit h rec type args st =
      (if type = js ''error'' then throw (unhandled h args) st else return_to False st)" for rec
    by (auto simp: emit_def Let_def)
  then show ?thesis
    using None by (auto simp: evaluates_Suc step_def rawListeners_eq entry_fns_def return_to_def throw_def)
next
  case (Some e)
  then have raw: "rawListeners st type \<noteq> []" using rawListeners_empty_iff[OF assms] by simp
  have "emit h rec type args st =
      (case e of Single f \<Rightarrow> and_then (rec (Apply f args) st) (\<lambda>_. return_to True)
       | Many a \<Rightarrow> and_then (rec (ApplyAll (rawListeners st type) args) st) (\<lambda>_. return_to True))" for rec
    using Some ev_get_Some_events[OF Some]
    by (auto simp: emit_def Let_def rawListeners_eq entry_fns_def split: entry.split)
  then show ?thesis
    using raw Some seq_calls_single[of h args _ st r] seq_calls_all[of h args _ st r]
    by (cases e) (simp_all add: evaluates_Suc step_def rawListeners_eq entry_fns_def)
qed

text \<open>Two functions added one after the other on a new emitter.\<close>

definition two_listeners :: emitter where
  "two_listeners = attach (js ''a'') 1 False (attach (js ''a'') 0 False (new_emitter 2))"

lemma attach_events: "ev_events st \<noteq> None \<Longrightarrow> ev_events (attach type f prepend st) \<noteq> None"
  by (auto simp: attach_def Let_def ev_put_def split: option.split entry.split)

lemma attach_raw:
  assumes "ev_ok st" "ev_events st \<noteq> None"
  shows "rawListeners (attach type f prepend st) =
    (rawListeners st)(type := if prepend then f # rawListeners st type else rawListeners st type @ [f])"
proof
  fix t
  have other: "a \<noteq> b" if "t \<noteq> type" "ev_get st type = Some (Many a)" "ev_get st t = Some (Many b)" for a b
    using assms(1) that by (auto simp: ev_ok_def)
  have old: "b \<noteq> ev_next_array st" if "ev_get st t = Some (Many b)" for b
    using assms(1) that by (auto simp: ev_ok_def)
  show "rawListeners (attach type f prepend st) t =
    ((rawListeners st)(type := if prepend then f # rawListeners st type else rawListeners st type @ [f])) t"
    using assms(2) other old
    by (cases "ev_get st type")
      (auto simp: attach_def Let_def rawListeners_eq entry_fns_def ev_get_put
        split: option.split entry.split)
qed

lemma two_listeners_ok:
  "ev_ok two_listeners" "rawListeners two_listeners (js ''a'') = [0, 1]"
  "ev_get two_listeners (js ''removeListener'') = None" "\<And>f. ev_wrappers two_listeners f = None"
  "ev_events two_listeners \<noteq> None" "rawListeners two_listeners (js ''newListener'') = []"
proof -
  have new: "ev_events (new_emitter 2) \<noteq> None" "rawListeners (new_emitter 2) t = []" for t
    by (simp_all add: new_emitter_def ev_init_def rawListeners_eq entry_fns_def ev_get_def)
  note ok = attach_ok[OF ev_ok_new new(1)] attach_events[OF new(1)]
  show "ev_ok two_listeners" "rawListeners two_listeners (js ''a'') = [0, 1]"
    unfolding two_listeners_def using attach_ok[OF ok]
    by (simp_all add: attach_raw[OF ok] attach_raw[OF ev_ok_new new(1)] new(2))
  have "rawListeners two_listeners (js ''removeListener'') = []"
    unfolding two_listeners_def
    by (simp add: attach_raw[OF ok] attach_raw[OF ev_ok_new new(1)] new(2))
  then show "ev_get two_listeners (js ''removeListener'') = None"
    using rawListeners_empty_iff \<open>ev_ok two_listeners\<close> by blast
  show "\<And>f. ev_wrappers two_listeners f = None"
    by (auto simp: two_listeners_def attach_def Let_def new_emitter_def ev_init_def
        split: option.split entry.split)
  show "ev_events two_listeners \<noteq> None" "rawListeners two_listeners (js ''newListener'') = []"
    unfolding two_listeners_def using attach_events[OF ok(2)]
    by (simp_all add: attach_raw[OF ok] attach_raw[OF ev_ok_new new(1)] new(2))
qed

lemma quiet_apply: "evaluates quiet (Apply f args) two_listeners (Inr True, two_listeners)"
  by (rule evaluatesI[of _ "Suc (Suc 0)"])
    (simp add: step_def apply_fn_def two_listeners_ok quiet_def run_cmds_def return_to_def)

theorem emit_in_order_witness:
  "evaluates quiet (Emit (js ''a'') []) two_listeners (Inr True, two_listeners)"
proof -
  have "seq_calls quiet [] [0, 1] two_listeners (Inr True, two_listeners)"
    by (rule seq_calls.Call[OF quiet_apply] seq_calls.Done)+
  then show ?thesis
    unfolding emit_in_order[OF two_listeners_ok(1), of quiet "js ''a''"] two_listeners_ok(2) by simp
qed

section \<open>Adding and removing\<close>

text \<open>The list of one event type with a function put at one of its ends.\<close>

definition add_to :: "(jsstr \<Rightarrow> nat list) \<Rightarrow> jsstr \<Rightarrow> nat \<Rightarrow> bool \<Rightarrow> jsstr \<Rightarrow> nat list" where
  "add_to L type f prepend = L(type := if prepend then f # L type else L type @ [f])"

lemma addListener_plain:
  assumes "ev_ok st" "rawListeners st (js ''newListener'') = []" "ev_events st \<noteq> None"
  shows "exec h (Suc n) (AddListener type (JFun f) prepend) st = Some (Inr True, attach type f prepend st)"
  using assms rawListeners_empty_iff[OF assms(1)]
  by (auto simp: step_def addListener_def return_to_def)

lemma once_plain:
  assumes "ev_ok st" "rawListeners st (js ''newListener'') = []" "ev_events st \<noteq> None"
  shows "\<exists>st' w. evaluates h (Once type (JFun f) prepend) st (Inr True, st') \<and> ev_ok st' \<and>
      w \<notin> dom (ev_wrappers st) \<and> unwrapFn st' w = f \<and>
      rawListeners st' = add_to (rawListeners st) type w prepend"
proof -
  let ?w = "ev_next_fn st"
  let ?s = "st\<lparr>ev_wrappers := (ev_wrappers st)(?w \<mapsto> \<lparr>w_fired = False, w_type = type, w_listener = f\<rparr>),
                ev_next_fn := ?w + 1\<rparr>"
  let ?st' = "attach type ?w prepend ?s"
  have s: "ev_ok ?s" "rawListeners ?s = rawListeners st" "ev_events ?s \<noteq> None"
    using assms(1,3)
    by (auto simp: ev_ok_def rawListeners_eq entry_fns_def fun_eq_iff split: option.split entry.split)
  have "exec h (Suc 0) (AddListener type (JFun ?w) prepend) ?s = Some (Inr True, ?st')"
    using s assms(2) by (intro addListener_plain) simp_all
  then have "exec h (Suc (Suc 0)) (Once type (JFun f) prepend) st = Some (Inr True, ?st')"
    by (simp add: step_def once_def Let_def del: exec.simps(2)) (simp add: step_def once_def Let_def)
  moreover have "unwrapFn ?st' ?w = f"
    by (auto simp: unwrapFn_def listenerOf_def attach_def Let_def split: option.split entry.split)
  moreover have "?w \<notin> dom (ev_wrappers st)" using assms(1) by (auto simp: ev_ok_def)
  moreover have "rawListeners ?st' = add_to (rawListeners st) type ?w prepend"
    using attach_raw[OF s(1,3), of type ?w prepend] s(2) by (simp add: add_to_def)
  ultimately show ?thesis using attach_ok[OF s(1,3), of type ?w prepend] evaluatesI by blast
qed

text \<open>
  Without a \<^verbatim>\<open>newListener\<close> listener, \<^verbatim>\<open>addListener\<close> puts the function at the end of the list of its
  event, \<^verbatim>\<open>prependListener\<close> at the front, \<^verbatim>\<open>once\<close> and \<^verbatim>\<open>prependOnceListener\<close> do the same with a
  new wrapper whose listener it is; the lists of the other events do not change.
\<close>

theorem addListener_appends:
  assumes "ev_ok st" "rawListeners st (js ''newListener'') = []" "ev_events st \<noteq> None"
  shows "(\<exists>st'. evaluates h (AddListener type (JFun f) prepend) st (Inr True, st') \<and> ev_ok st' \<and>
            rawListeners st' = add_to (rawListeners st) type f prepend) \<and>
         (\<exists>st' w. evaluates h (Once type (JFun f) prepend) st (Inr True, st') \<and> ev_ok st' \<and>
            w \<notin> dom (ev_wrappers st) \<and> unwrapFn st' w = f \<and>
            rawListeners st' = add_to (rawListeners st) type w prepend)"
  using evaluatesI[OF addListener_plain[OF assms]] attach_ok[OF assms(1,3)] attach_raw[OF assms(1,3)]
    once_plain[OF assms]
  unfolding add_to_def by blast

theorem addListener_appends_witness:
  "\<exists>st'. evaluates quiet (AddListener (js ''a'') (JFun 7) True) two_listeners (Inr True, st') \<and>
         rawListeners st' (js ''a'') = [7, 0, 1]"
  using addListener_appends[OF two_listeners_ok(1,6,5), of quiet "js ''a''" 7 True]
  by (auto simp: add_to_def two_listeners_ok(2) simp del: js_Cons)

text \<open>The last function that matches, taken out.\<close>

fun remove_last :: "(nat \<Rightarrow> bool) \<Rightarrow> nat list \<Rightarrow> nat list" where
  "remove_last P [] = []"
| "remove_last P (x # xs) =
     (if list_ex P xs then x # remove_last P xs else if P x then xs else x # xs)"

lemma remove_last_none: "\<not> list_ex P xs \<Longrightarrow> remove_last P xs = xs"
  by (cases xs) auto

lemma remove_last_app: "\<not> list_ex P ys \<Longrightarrow> P x \<Longrightarrow> remove_last P (xs @ x # ys) = xs @ ys"
  by (induction xs) auto

text \<open>A function is the listener, or a wrapper of it.\<close>

definition is_listener :: "emitter \<Rightarrow> nat \<Rightarrow> nat \<Rightarrow> bool" where
  "is_listener st f g \<longleftrightarrow> g = f \<or> listenerOf st g = Some f"

lemma listener_position_Some:
  "listener_position st xs f n = Some i \<Longrightarrow> n \<le> length xs \<Longrightarrow>
     i < n \<and> is_listener st f (xs ! i) \<and> \<not> list_ex (is_listener st f) (take (n - Suc i) (drop (Suc i) xs))"
proof (induction n)
  case (Suc n)
  show ?case
  proof (cases "is_listener st f (xs ! n)")
    case True
    then show ?thesis using Suc.prems by (auto simp: is_listener_def)
  next
    case False
    then have "listener_position st xs f n = Some i" using Suc.prems by (auto simp: is_listener_def)
    with Suc have IH: "i < n" "is_listener st f (xs ! i)"
      "\<not> list_ex (is_listener st f) (take (n - Suc i) (drop (Suc i) xs))" by auto
    have "Suc n - Suc i = Suc (n - Suc i)" "n - Suc i < length (drop (Suc i) xs)"
      using IH(1) Suc.prems(2) by auto
    then have "take (Suc n - Suc i) (drop (Suc i) xs) = take (n - Suc i) (drop (Suc i) xs) @ [xs ! n]"
      using IH(1) by (simp add: take_Suc_conv_app_nth)
    then show ?thesis using IH False by simp
  qed
qed simp

lemma listener_position_None:
  "listener_position st xs f n = None \<Longrightarrow> n \<le> length xs \<Longrightarrow> \<not> list_ex (is_listener st f) (take n xs)"
  by (induction n) (auto simp: take_Suc_conv_app_nth is_listener_def split: if_splits)

lemma remove_nth_last:
  assumes "listener_position st xs f (length xs) = Some i"
  shows "remove_nth i xs = remove_last (is_listener st f) xs"
proof -
  have i: "i < length xs" "is_listener st f (xs ! i)" "\<not> list_ex (is_listener st f) (drop (Suc i) xs)"
    using listener_position_Some[OF assms] by auto
  show ?thesis
    using remove_last_app[OF i(3,2), of "take i xs"] i(1)
    by (simp add: remove_nth_def Cons_nth_drop_Suc)
qed

lemma remove_at_raw:
  assumes "ev_ok st" "ev_get st type = Some (Many a)" "position < length (ev_arrays st a)"
  shows "rawListeners (remove_at type a position st) =
    (rawListeners st)(type := remove_nth position (ev_arrays st a))"
proof
  fix t
  let ?xs' = "remove_nth position (ev_arrays st a)"
  let ?st1 = "st\<lparr>ev_arrays := (ev_arrays st)(a := ?xs')\<rparr>"
  have other: "b \<noteq> a" if "t \<noteq> type" "ev_get st t = Some (Many b)" for b
    using assms(1,2) that by (auto simp: ev_ok_def)
  have eq: "remove_at type a position st =
      (if length ?xs' = 1 then ev_put type (Single (?xs' ! 0)) ?st1 else ?st1)"
    by (simp add: remove_at_def Let_def remove_nth_code[OF assms(3)])
  have one: "?xs' = [?xs' ! 0]" if "length ?xs' = 1"
    using that by (cases ?xs') auto
  show "rawListeners (remove_at type a position st) t = ((rawListeners st)(type := ?xs')) t"
  proof (cases "t = type")
    case True
    then show ?thesis
      using assms(2) one ev_get_Some_events[OF assms(2)]
      by (auto simp: eq rawListeners_eq entry_fns_def ev_get_put)
  next
    case False
    then show ?thesis
      using other ev_get_Some_events[OF assms(2)]
      by (auto simp: eq rawListeners_eq entry_fns_def ev_get_put split: option.split entry.split)
  qed
qed

lemma delete_raw:
  assumes "ev_events st = Some evs"
  shows "rawListeners (st\<lparr>ev_count := c, ev_events := Some (prop_delete evs type)\<rparr>) = (rawListeners st)(type := [])"
  using assms by (auto simp: rawListeners_eq entry_fns_def fun_eq_iff ev_get_def split: option.split entry.split)

lemma reset_raw:
  assumes "ev_ok st" "ev_get st type = Some e" "ev_count st = 1"
  shows "rawListeners (st\<lparr>ev_count := 0, ev_events := Some []\<rparr>) = (rawListeners st)(type := [])"
proof -
  obtain evs where evs: "ev_events st = Some evs" using ev_get_Some_events[OF assms(2)] by auto
  then have "length evs = 1" "map_of evs type = Some e"
    using assms by (auto simp: ev_ok_def ev_get_def)
  then have "evs = [(type, e)]" by (cases evs) (auto split: if_splits)
  then show ?thesis
    using evs by (auto simp: rawListeners_eq entry_fns_def fun_eq_iff ev_get_def)
qed

lemma no_removal_event:
  "rawListeners st (js ''removeListener'') = [] \<Longrightarrow> ev_ok st \<Longrightarrow> emit_removed rec type f st = return_to True st"
  using rawListeners_empty_iff[of st "js ''removeListener''"] by (simp add: emit_removed_def)

lemma removeListener_single:
  assumes "ev_ok st" "rawListeners st (js ''removeListener'') = []" "ev_get st type = Some (Single g)"
    "is_listener st f g"
  shows "\<exists>st'. removeListener rec type (JFun f) st = Some (Inr True, st') \<and> ev_ok st' \<and>
    rawListeners st' = (rawListeners st)(type := [])"
proof -
  obtain evs where evs: "ev_events st = Some evs" using ev_get_Some_events[OF assms(3)] by auto
  then have mem: "map_of evs type \<noteq> None" using assms(3) by (simp add: ev_get_def)
  let ?d = "st\<lparr>ev_count := ev_count st - 1, ev_events := Some (prop_delete evs type)\<rparr>"
  show ?thesis
  proof (cases "ev_count st = 1")
    case True
    then show ?thesis
      using assms reset_raw[OF assms(1,3) True] ev_ok_reset'[OF assms(1)]
      by (simp add: removeListener_def is_listener_def return_to_def)
  next
    case False
    have "ev_ok ?d" "rawListeners ?d = (rawListeners st)(type := [])"
      by (rule ev_ok_delete[OF assms(1) evs mem] delete_raw[OF evs])+
    moreover from this have "emit_removed rec type x ?d = return_to True ?d" for x
      using assms(2) by (intro no_removal_event) simp_all
    ultimately show ?thesis
      using assms(3,4) evs False
      by (simp add: removeListener_def is_listener_def return_to_def)
  qed
qed

lemma removeListener_many:
  assumes "ev_ok st" "rawListeners st (js ''removeListener'') = []" "ev_get st type = Some (Many a)"
  shows "\<exists>st'. removeListener rec type (JFun f) st = Some (Inr True, st') \<and> ev_ok st' \<and>
    rawListeners st' = (rawListeners st)(type := remove_last (is_listener st f) (rawListeners st type))"
proof -
  let ?xs = "ev_arrays st a"
  have raw: "rawListeners st type = ?xs" using assms(3) by (simp add: rawListeners_eq entry_fns_def)
  show ?thesis
  proof (cases "listener_position st ?xs f (length ?xs)")
    case None
    then have "\<not> list_ex (is_listener st f) ?xs" using listener_position_None[OF None] by simp
    then show ?thesis
      using assms(1,3) None raw
      by (auto simp: removeListener_def return_to_def remove_last_none fun_eq_iff)
  next
    case (Some i)
    let ?d = "remove_at type a i st"
    have i: "i < length ?xs" using listener_position_less[OF Some] .
    have d: "ev_ok ?d" "rawListeners ?d = (rawListeners st)(type := remove_last (is_listener st f) ?xs)"
      using remove_at_ok[OF assms(1,3) i] remove_at_raw[OF assms(1,3) i] remove_nth_last[OF Some] by simp_all
    have "type \<noteq> js ''removeListener''"
      using assms(2,3) rawListeners_empty_iff[OF assms(1), of type] by auto
    then have "emit_removed rec type x ?d = return_to True ?d" for x
      using assms(2) d by (intro no_removal_event) simp_all
    then show ?thesis
      using assms(3) Some d raw by (simp add: removeListener_def return_to_def)
  qed
qed

lemma removeAll_type:
  assumes "ev_ok st" "ev_get st (js ''removeListener'') = None"
  shows "\<exists>st'. removeAllListeners rec (Some type) st = Some (Inr True, st') \<and> ev_ok st' \<and>
    rawListeners st' = (rawListeners st)(type := [])"
proof (cases "ev_get st type")
  case None
  then have "removeAllListeners rec (Some type) st = Some (Inr True, st)"
    using assms(2) by (auto simp: removeAllListeners_def return_to_def ev_get_def split: option.splits)
  then show ?thesis using assms(1) None by (auto simp: rawListeners_eq entry_fns_def fun_eq_iff)
next
  case (Some e)
  obtain evs where evs: "ev_events st = Some evs" using ev_get_Some_events[OF Some] by auto
  then have get: "ev_get st = map_of evs" by (simp add: ev_get_def fun_eq_iff)
  then have mem: "map_of evs type \<noteq> None" using Some by simp
  show ?thesis
    using assms evs get mem reset_raw[OF assms(1) Some] ev_ok_reset'[OF assms(1)]
      ev_ok_delete[OF assms(1) evs mem] delete_raw[OF evs]
    by (cases "ev_count st = 1")
      (simp_all add: removeAllListeners_def return_to_def Let_def)
qed

text \<open>
  Without a \<^verbatim>\<open>removeListener\<close> listener, \<^verbatim>\<open>removeListener\<close> takes the last registration of the function
  (itself or a once-wrapper of it) out of the list of its event, and changes nothing else.
\<close>

theorem removeListener_removes_last:
  assumes "ev_ok st" "rawListeners st (js ''removeListener'') = []"
  shows "\<exists>st'. evaluates h (RemoveListener type (JFun f)) st (Inr True, st') \<and> ev_ok st' \<and>
    rawListeners st' = (rawListeners st)(type := remove_last (is_listener st f) (rawListeners st type))"
proof -
  have "\<exists>st'. removeListener rec type (JFun f) st = Some (Inr True, st') \<and> ev_ok st' \<and>
    rawListeners st' = (rawListeners st)(type := remove_last (is_listener st f) (rawListeners st type))" for rec
  proof (cases "ev_get st type")
    case None
    then show ?thesis
      using assms(1) by (auto simp: removeListener_def return_to_def rawListeners_eq entry_fns_def fun_eq_iff)
  next
    case (Some e)
    show ?thesis
    proof (cases e)
      case (Single g)
      have raw: "rawListeners st type = [g]" using Some Single by (simp add: rawListeners_eq entry_fns_def)
      show ?thesis
      proof (cases "is_listener st f g")
        case True
        then show ?thesis using removeListener_single[OF assms] Some Single raw by simp
      next
        case False
        then have "removeListener rec type (JFun f) st = Some (Inr True, st)"
          using Some Single by (simp add: removeListener_def is_listener_def return_to_def)
        then show ?thesis using assms(1) False raw by (auto simp: fun_eq_iff)
      qed
    next
      case (Many a)
      then show ?thesis using removeListener_many[OF assms] Some by simp
    qed
  qed
  then show ?thesis
    using evaluatesI[of h "Suc 0" "RemoveListener type (JFun f)" st] by (simp add: step_def) blast
qed

theorem removeListener_removes_last_witness:
  "\<exists>st'. evaluates quiet (RemoveListener (js ''a'') (JFun 0)) two_listeners (Inr True, st') \<and>
         rawListeners st' (js ''a'') = [1]"
proof -
  have "rawListeners two_listeners (js ''removeListener'') = []"
    using two_listeners_ok(1,3) rawListeners_empty_iff by blast
  then show ?thesis
    using removeListener_removes_last[OF two_listeners_ok(1), of quiet "js ''a''" 0]
    by (auto simp: two_listeners_ok(2,4) is_listener_def listenerOf_def simp del: js_Cons)
qed

text \<open>
  \<^verbatim>\<open>removeAllListeners()\<close> leaves no listener for any event when it returns, even when handlers of
  \<^verbatim>\<open>removeListener\<close> add new ones meanwhile; with an event type and without such handlers it empties
  the list of that type only.
\<close>

theorem removeAllListeners_empties:
  assumes "ev_ok st"
  shows "(evaluates h (RemoveAll None) st (Inr b, st') \<longrightarrow> rawListeners st' = (\<lambda>_. [])) \<and>
    (rawListeners st (js ''removeListener'') = [] \<longrightarrow>
       (\<exists>st'. evaluates h (RemoveAll (Some type)) st (Inr True, st') \<and> ev_ok st' \<and>
              rawListeners st' = (rawListeners st)(type := [])))"
proof (intro conjI impI)
  have keys: "exec h n (RemoveKeys ks) st1 = Some (Inr b, st') \<Longrightarrow> rawListeners st' = (\<lambda>_. [])" for n ks st1
  proof (induction n arbitrary: ks st1)
    case (Suc n)
    then show ?case
      by (auto simp: step_def remove_keys_def and_then_Some_iff return_to_def rawListeners_eq entry_fns_def
          fun_eq_iff split: list.splits if_splits)
  qed simp
  assume "evaluates h (RemoveAll None) st (Inr b, st')"
  then obtain n where "removeAllListeners (exec h n) None st = Some (Inr b, st')"
    by (auto simp: evaluates_Suc step_def)
  then have "(\<exists>ks. exec h n (RemoveKeys ks) st = Some (Inr b, st')) \<or>
      (\<forall>t. ev_get st' t = None)"
    by (auto simp: removeAllListeners_def return_to_def ev_get_def split: option.splits if_splits)
  then show "rawListeners st' = (\<lambda>_. [])"
    using keys by (auto simp: rawListeners_eq entry_fns_def fun_eq_iff)
next
  assume "rawListeners st (js ''removeListener'') = []"
  then have none: "ev_get st (js ''removeListener'') = None" using rawListeners_empty_iff[OF assms] by simp
  have "\<exists>st'. removeAllListeners (exec h 0) (Some type) st = Some (Inr True, st') \<and> ev_ok st' \<and>
              rawListeners st' = (rawListeners st)(type := [])"
    by (rule removeAll_type[OF assms none])
  then show "\<exists>st'. evaluates h (RemoveAll (Some type)) st (Inr True, st') \<and> ev_ok st' \<and>
              rawListeners st' = (rawListeners st)(type := [])"
    using evaluatesI[of h "Suc 0" "RemoveAll (Some type)" st] by (auto simp: step_def)
qed

theorem removeAllListeners_empties_witness:
  "\<exists>st'. evaluates quiet (RemoveAll (Some (js ''a''))) two_listeners (Inr True, st') \<and>
         rawListeners st' (js ''a'') = []"
proof -
  have "rawListeners two_listeners (js ''removeListener'') = []"
    using two_listeners_ok(1,3) rawListeners_empty_iff by blast
  then show ?thesis
    using removeAllListeners_empties[OF two_listeners_ok(1), of quiet True two_listeners "js ''a''"]
    by (auto simp del: js_Cons)
qed

section \<open>Stack traces\<close>

text \<open>The two stacks agree on \<open>len\<close> lines from these offsets.\<close>

definition same_seq :: "jsstr list \<Rightarrow> jsstr list \<Rightarrow> nat \<Rightarrow> nat \<Rightarrow> nat \<Rightarrow> bool" where
  "same_seq a b len i j \<longleftrightarrow> take len (drop i a) = take len (drop j b)"

lemma seq_offsets_iff:
  "r \<in> set (seq_offsets a b len) \<longleftrightarrow>
     (\<exists>i j. r = (len, i, j) \<and> i + len < length a \<and> j + len < length b \<and> same_seq a b len i j)"
proof -
  have "list_all (\<lambda>k. a ! (i + k) = b ! (j + k)) [0..<len] \<longleftrightarrow> same_seq a b len i j"
    if "i + len < length a" "j + len < length b" for i j
    using that unfolding same_seq_def by (auto simp: list_all_iff list_eq_iff_nth_eq)
  then show ?thesis by (auto simp: seq_offsets_def less_diff_conv)
qed

lemma concat_seq_head:
  assumes "concat (map (seq_offsets a b) (rev [3..<n])) = r # rs"
  shows "\<exists>len i j. r = (len, i, j) \<and> 3 \<le> len \<and> len < n \<and> r \<in> set (seq_offsets a b len) \<and>
    (\<forall>l. len < l \<longrightarrow> l < n \<longrightarrow> seq_offsets a b l = [])"
  using assms
proof (induction n)
  case (Suc n)
  show ?case
  proof (cases "3 \<le> n \<and> seq_offsets a b n \<noteq> []")
    case True
    then have "r \<in> set (seq_offsets a b n)" using Suc.prems by (cases "seq_offsets a b n") auto
    then show ?thesis using True by (auto simp: seq_offsets_iff)
  next
    case False
    then have "concat (map (seq_offsets a b) (rev [3..<n])) = r # rs" using Suc.prems by (auto split: if_splits)
    from Suc.IH[OF this] show ?thesis using False by (metis less_Suc_eq le_trans less_imp_le)
  qed
qed simp

text \<open>
  The result of \<^verbatim>\<open>longestSeqContainedIn\<close> is a common sequence of at least three lines and no
  longer one exists among the sequences that stop before the last line of both stacks; the loops'
  bounds leave out every sequence that reaches the end of a stack.
\<close>

theorem longestSeqContainedIn_spec:
  "case longestSeqContainedIn a b of (len, i, j) \<Rightarrow>
     (len = 0 \<or> 3 \<le> len \<and> i + len < length a \<and> j + len < length b \<and> same_seq a b len i j) \<and>
     \<not> (\<exists>len' i' j'. len < len' \<and> 3 \<le> len' \<and> i' + len' < length a \<and> j' + len' < length b \<and>
          same_seq a b len' i' j')"
proof (cases "concat (map (seq_offsets a b) (rev [3..<Suc (length a)]))")
  case Nil
  then have "seq_offsets a b l = []" if "3 \<le> l" "l \<le> length a" for l
    using that by auto
  then have "\<not> same_seq a b l i j" if "3 \<le> l" "i + l < length a" "j + l < length b" for l i j
    using that seq_offsets_iff[of "(l, i, j)" a b l] by fastforce
  moreover have "longestSeqContainedIn a b = (0, 0, 0)" unfolding longestSeqContainedIn_def Nil by simp
  ultimately show ?thesis by auto
next
  case (Cons r rs)
  obtain len i j where r: "r = (len, i, j)" "3 \<le> len" "r \<in> set (seq_offsets a b len)"
    "\<forall>l. len < l \<longrightarrow> l < Suc (length a) \<longrightarrow> seq_offsets a b l = []"
    using concat_seq_head[OF Cons] by blast
  have "\<not> same_seq a b l i' j'" if "len < l" "i' + l < length a" "j' + l < length b" for l i' j'
    using that r(4) seq_offsets_iff[of "(l, i', j')" a b l] by fastforce
  moreover have "i + len < length a \<and> j + len < length b \<and> same_seq a b len i j"
    using r(1,3) by (auto simp: seq_offsets_iff)
  moreover have "longestSeqContainedIn a b = (len, i, j)"
    unfolding longestSeqContainedIn_def Cons using r(1) by simp
  ultimately show ?thesis using r(2) by auto
qed

text \<open>Two equal stacks of four lines: the common sequence reported is the first three of them.\<close>

lemma longestSeq_misses_end:
  "longestSeqContainedIn [[1], [2], [3], [4]] [[1], [2], [3], [4]] = (3, 0, 0)"
  "longestSeqContainedIn [[1], [2], [3]] [[1], [2], [3]] = (0, 0, 0)"
  by code_simp+

end
