(* ===== verification/Events_Once.thy ===== *)
theory Events_Once
  imports Events_Props
begin

text \<open>
  A once-listener runs at most once, whatever the handlers do, as long as nothing listens to
  \<^verbatim>\<open>removeListener\<close> (its handlers run before the wrapper's flag is set).
\<close>

section \<open>Without a listener for \<^verbatim>\<open>removeListener\<close>\<close>

abbreviation removal :: jsstr where "removal \<equiv> js ''removeListener''"

text \<open>Calls and handlers that add no listener for \<^verbatim>\<open>removeListener\<close>.\<close>

definition cmd_ok :: "cmd \<Rightarrow> bool" where
  "cmd_ok c = (case c of CAdd t f p \<Rightarrow> t \<noteq> removal | COnce t f p \<Rightarrow> t \<noteq> removal | _ \<Rightarrow> True)"

definition call_ok :: "call \<Rightarrow> bool" where
  "call_ok c =
     (case c of
        AddListener t f p \<Rightarrow> t \<noteq> removal
      | Once t f p \<Rightarrow> t \<noteq> removal
      | Run cmds \<Rightarrow> list_all cmd_ok cmds
      | _ \<Rightarrow> True)"

definition hooks_ok :: "hooks \<Rightarrow> bool" where
  "hooks_ok h \<longleftrightarrow> (\<forall>f args st. list_all cmd_ok (behaviour h f args st))"

definition once_inv :: "hooks \<Rightarrow> emitter \<Rightarrow> bool" where
  "once_inv h st \<longleftrightarrow>
     hooks_ok h \<and> ev_ok st \<and> distinct (ev_fired st) \<and>
     (\<forall>f\<in>set (ev_fired st). \<exists>w. ev_wrappers st f = Some w \<and> w_fired w) \<and>
     ev_get st removal = None"

lemma once_inv_new: "hooks_ok h \<Longrightarrow> once_inv h (new_emitter nf)"
  by (simp add: once_inv_def ev_ok_new) (simp add: new_emitter_def ev_init_def ev_get_def)

text \<open>An operation that leaves the wrappers alone keeps \<open>once_inv\<close>.\<close>

lemma once_inv_frame:
  assumes "once_inv h st" "ev_ok st'" "ev_fired st' = ev_fired st" "ev_wrappers st' = ev_wrappers st"
    "ev_get st' removal = None"
  shows "once_inv h st'"
  using assms by (simp add: once_inv_def)

lemma attach_frame:
  "ev_fired (attach type f prepend st) = ev_fired st"
  "ev_wrappers (attach type f prepend st) = ev_wrappers st"
  by (auto simp: attach_def Let_def split: option.split entry.split)

lemma attach_get:
  "ev_events st \<noteq> None \<Longrightarrow> t \<noteq> type \<Longrightarrow> ev_get (attach type f prepend st) t = ev_get st t"
  by (auto simp: attach_def Let_def ev_get_put split: option.split entry.split)

lemma remove_at_frame:
  "ev_fired (remove_at type a position st) = ev_fired st"
  "ev_wrappers (remove_at type a position st) = ev_wrappers st"
  by (auto simp: remove_at_def Let_def)

lemma remove_at_get:
  "ev_events st \<noteq> None \<Longrightarrow> t \<noteq> type \<Longrightarrow> ev_get (remove_at type a position st) t = ev_get st t"
  by (auto simp: remove_at_def Let_def ev_get_put)

lemma once_inv_reset:
  "once_inv h st \<Longrightarrow> once_inv h (st\<lparr>ev_events := Some [], ev_count := 0\<rparr>)"
  "once_inv h st \<Longrightarrow> once_inv h (st\<lparr>ev_count := 0, ev_events := Some []\<rparr>)"
  by (auto simp: once_inv_def ev_ok_reset ev_ok_reset')

lemma once_inv_attach:
  assumes "once_inv h st" "ev_events st \<noteq> None" "type \<noteq> removal"
  shows "once_inv h (attach type f prepend st)"
  using assms attach_ok[of st type f prepend] attach_get[of st removal type f prepend]
  by (intro once_inv_frame[OF assms(1)]) (auto simp: attach_frame once_inv_def)

lemma once_inv_max [simp]: "once_inv h (st\<lparr>ev_max := m\<rparr>) = once_inv h st"
  by (simp add: once_inv_def)

lemma once_inv_delete:
  assumes "once_inv h st" "ev_events st = Some evs" "map_of evs type \<noteq> None"
  shows "once_inv h (st\<lparr>ev_count := ev_count st - 1, ev_events := Some (prop_delete evs type)\<rparr>)"
  using assms ev_ok_delete[of st evs type]
  by (auto simp: once_inv_def ev_get_def)

lemma once_inv_remove_at:
  assumes "once_inv h st" "ev_get st type = Some (Many a)" "position < length (ev_arrays st a)"
  shows "once_inv h (remove_at type a position st)"
proof (rule once_inv_frame[OF assms(1)])
  show "ev_ok (remove_at type a position st)"
    using assms by (intro remove_at_ok) (simp_all add: once_inv_def)
  have "type \<noteq> removal" using assms(1,2) by (auto simp: once_inv_def)
  then show "ev_get (remove_at type a position st) removal = None"
    using assms(1) remove_at_get[OF ev_get_Some_events[OF assms(2)]] by (simp add: once_inv_def)
qed (simp_all add: remove_at_frame)

text \<open>Without such a listener \<^verbatim>\<open>removeListener\<close> runs no handler.\<close>

lemma removeListener_once:
  assumes "removeListener rec type listener st = Some (r, st')" "once_inv h st"
  shows "once_inv h st' \<and> ev_fired st' = ev_fired st \<and> ev_wrappers st' = ev_wrappers st"
proof -
  have quiet: "emit_removed rec type f st1 = return_to True st1" if "once_inv h st1" for f st1
    using that by (simp add: emit_removed_def once_inv_def)
  have single: "once_inv h (st\<lparr>ev_count := ev_count st - 1,
      ev_events := map_option (\<lambda>evs. prop_delete evs type) (ev_events st)\<rparr>)"
    if "ev_get st type = Some e" for e
    using that once_inv_delete[OF assms(2), of _ type] ev_get_Some_events[OF that]
    by (auto simp: ev_get_def)
  have many: "once_inv h (remove_at type a position st)"
    if "ev_get st type = Some (Many a)"
      "listener_position st (ev_arrays st a) f (length (ev_arrays st a)) = Some position" for a f position
    using listener_position_less[OF that(2)] by (rule once_inv_remove_at[OF assms(2) that(1)])
  show ?thesis
    using assms
    by (auto simp: removeListener_def return_to_def throw_def Let_def remove_at_frame
        quiet[unfolded return_to_def] single many once_inv_reset
        split: jsval.splits option.splits entry.splits if_splits)
qed

section \<open>Every call keeps the invariant\<close>

locale once_runner =
  fixes h :: hooks and rec :: runner
  assumes rec_once: "rec c st = Some (r, st') \<Longrightarrow> call_ok c \<Longrightarrow> once_inv h st \<Longrightarrow> once_inv h st'"
    and rec_remove: "rec (RemoveListener type f) st = Some (r, st') \<Longrightarrow> once_inv h st \<Longrightarrow>
      ev_fired st' = ev_fired st \<and> ev_wrappers st' = ev_wrappers st"
begin

lemmas and_then_once = and_then_keeps[where I = "once_inv h"]

lemma rec_call:
  "rec (Emit t args) st = Some (r, st') \<Longrightarrow> once_inv h st \<Longrightarrow> once_inv h st'"
  "rec (Apply f args) st = Some (r, st') \<Longrightarrow> once_inv h st \<Longrightarrow> once_inv h st'"
  "rec (ApplyAll fs args) st = Some (r, st') \<Longrightarrow> once_inv h st \<Longrightarrow> once_inv h st'"
  "rec (RemoveListener t v) st = Some (r, st') \<Longrightarrow> once_inv h st \<Longrightarrow> once_inv h st'"
  "rec (RemoveAll arg) st = Some (r, st') \<Longrightarrow> once_inv h st \<Longrightarrow> once_inv h st'"
  "rec (RemoveKeys ks) st = Some (r, st') \<Longrightarrow> once_inv h st \<Longrightarrow> once_inv h st'"
  "rec (RemoveEach t a i) st = Some (r, st') \<Longrightarrow> once_inv h st \<Longrightarrow> once_inv h st'"
  "rec (AddListener t v p) st = Some (r, st') \<Longrightarrow> t \<noteq> removal \<Longrightarrow> once_inv h st \<Longrightarrow> once_inv h st'"
  "rec (Once t v p) st = Some (r, st') \<Longrightarrow> t \<noteq> removal \<Longrightarrow> once_inv h st \<Longrightarrow> once_inv h st'"
  "rec (Run cmds) st = Some (r, st') \<Longrightarrow> list_all cmd_ok cmds \<Longrightarrow> once_inv h st \<Longrightarrow> once_inv h st'"
  using rec_once by (auto simp: call_ok_def)

lemma emit_once: "emit h rec type args st = Some (r, st') \<Longrightarrow> once_inv h st \<Longrightarrow> once_inv h st'"
  by (auto simp: emit_def Let_def return_to_def throw_def split: if_splits option.splits entry.splits
      elim!: and_then_once dest: rec_call)

lemma apply_all_once: "apply_all rec fs args st = Some (r, st') \<Longrightarrow> once_inv h st \<Longrightarrow> once_inv h st'"
  by (auto simp: apply_all_def return_to_def split: list.splits elim!: and_then_once dest: rec_call)

text \<open>The wrapper's flag is set before its listener runs, and it was not set before.\<close>

lemma once_inv_fire:
  assumes "once_inv h st" "ev_wrappers st self = Some w" "\<not> w_fired w"
  shows "once_inv h (st\<lparr>ev_wrappers :=
      (ev_wrappers st)(self := map_option (\<lambda>w. w\<lparr>w_fired := True\<rparr>) (ev_wrappers st self)),
      ev_fired := self # ev_fired st\<rparr>)"
proof -
  have "self \<notin> set (ev_fired st)" using assms by (auto simp: once_inv_def)
  then show ?thesis
    using assms by (auto simp: once_inv_def ev_ok_def split: if_splits)
qed

lemma onceWrapper_once:
  assumes "onceWrapper rec self w args st = Some (r, st')" "once_inv h st" "ev_wrappers st self = Some w"
  shows "once_inv h st'"
proof (cases "w_fired w")
  case True
  then show ?thesis using assms by (simp add: onceWrapper_def return_to_def)
next
  case False
  then obtain r1 st1 where rem: "rec (RemoveListener (w_type w) (JFun self)) st = Some (r1, st1)"
    using assms(1) by (auto simp: onceWrapper_def and_then_def split: option.splits)
  then have st1: "once_inv h st1" "ev_wrappers st1 self = Some w"
    using rec_call(4)[OF rem assms(2)] rec_remove[OF rem assms(2)] assms(3) by auto
  show ?thesis
    using assms(1) False rem st1 once_inv_fire[OF st1 False]
    by (auto simp: onceWrapper_def and_then_def split: sum.splits dest: rec_call)
qed

lemma apply_fn_once: "apply_fn h rec f args st = Some (r, st') \<Longrightarrow> once_inv h st \<Longrightarrow> once_inv h st'"
  by (auto simp: apply_fn_def split: option.splits dest: rec_call onceWrapper_once)
    (auto simp: once_inv_def hooks_ok_def dest: rec_call)

lemma addListener_once:
  assumes "addListener rec type listener prepend st = Some (r, st')" "once_inv h st" "type \<noteq> removal"
  shows "once_inv h st'"
proof -
  have "once_inv h (attach type f prepend (st\<lparr>ev_events := Some [], ev_count := 0\<rparr>))" for f
    using once_inv_reset(1)[OF assms(2)] assms(3) by (intro once_inv_attach) simp_all
  then show ?thesis
    using assms
    by (auto simp: addListener_def return_to_def throw_def split: jsval.splits if_splits
        elim!: and_then_once dest: rec_call intro!: once_inv_attach once_inv_reset)
qed

lemma once_once:
  assumes "once rec type listener prepend st = Some (r, st')" "once_inv h st" "type \<noteq> removal"
  shows "once_inv h st'"
proof -
  have "once_inv h (st\<lparr>ev_wrappers := (ev_wrappers st)(ev_next_fn st \<mapsto> w), ev_next_fn := ev_next_fn st + 1\<rparr>)" for w
  proof -
    have "ev_next_fn st \<notin> set (ev_fired st)"
      using assms(2) by (fastforce simp: once_inv_def ev_ok_def)
    then show ?thesis using assms(2) by (auto simp: once_inv_def ev_ok_def)
  qed
  then show ?thesis
    using assms by (auto simp: once_def Let_def throw_def split: jsval.splits dest: rec_call)
qed

lemma removeAllListeners_once:
  assumes "removeAllListeners rec arg st = Some (r, st')" "once_inv h st"
  shows "once_inv h st'"
proof -
  have single: "once_inv h (st\<lparr>ev_count := ev_count st - 1, ev_events := Some (prop_delete evs type)\<rparr>)"
    if "ev_events st = Some evs" "map_of evs type = Some e" for evs type e
    using once_inv_delete[OF assms(2) that(1), of type] that(2) by simp
  show ?thesis
    using assms single
    by (auto simp: removeAllListeners_def return_to_def Let_def
        split: option.splits entry.splits if_splits dest: rec_call intro: once_inv_reset)
qed

lemma remove_keys_once: "remove_keys rec ks st = Some (r, st') \<Longrightarrow> once_inv h st \<Longrightarrow> once_inv h st'"
  by (auto simp: remove_keys_def return_to_def split: list.splits if_splits
      elim!: and_then_once dest: rec_call intro: once_inv_reset)

lemma remove_each_once: "remove_each rec type a i st = Some (r, st') \<Longrightarrow> once_inv h st \<Longrightarrow> once_inv h st'"
  by (auto simp: remove_each_def return_to_def split: nat.splits elim!: and_then_once dest: rec_call)

lemma set_max_once: "setMaxListeners n st = Some (r, st') \<Longrightarrow> once_inv h st \<Longrightarrow> once_inv h st'"
  by (auto simp: setMaxListeners_def return_to_def throw_def split: option.splits)

lemma run_cmds_once:
  "run_cmds rec cmds st = Some (r, st') \<Longrightarrow> list_all cmd_ok cmds \<Longrightarrow> once_inv h st \<Longrightarrow> once_inv h st'"
  by (auto simp: run_cmds_def return_to_def throw_def cmd_ok_def split: list.splits cmd.splits
      elim!: and_then_once dest: rec_call set_max_once)

lemma step_once:
  "step h rec c st = Some (r, st') \<Longrightarrow> call_ok c \<Longrightarrow> once_inv h st \<Longrightarrow> once_inv h st'"
  by (cases c)
    (auto simp: step_def call_ok_def dest: emit_once apply_fn_once apply_all_once addListener_once once_once
      removeListener_once removeAllListeners_once remove_keys_once remove_each_once run_cmds_once)

end

lemma exec_once_runner: "once_runner h (exec h n)"
proof (induction n)
  case 0
  show ?case by unfold_locales simp_all
next
  case (Suc n)
  show ?case
    using once_runner.step_once[OF Suc]
    by unfold_locales (auto simp: step_def dest: removeListener_once)
qed

interpretation exec_once: once_runner h "exec h n" for h n
  by (rule exec_once_runner)

text \<open>
  C2. A once-listener runs at most once: a program of calls on a new emitter, with handlers that
  call the emitter again in any way and may throw, never makes a once-wrapper call its listener
  twice, as long as no listener for \<^verbatim>\<open>removeListener\<close> is added.
\<close>

theorem once_at_most_once:
  assumes "hooks_ok h" "list_all cmd_ok cmds" "exec h n (Run cmds) (new_emitter nf) = Some (r, st')"
  shows "distinct (ev_fired st')"
  using exec_once.rec_once[OF assms(3)] once_inv_new[OF assms(1)] assms(2)
  by (simp add: once_inv_def call_ok_def)

definition reentrant :: hooks where
  "reentrant = \<lparr>behaviour = (\<lambda>f args st. if f = 0 then [CEmit (js ''a'') []] else []),
     isError = (\<lambda>_. False)\<rparr>"

definition once_program :: "cmd list" where
  "once_program = [COnce (js ''a'') (JFun 0) False, CAdd (js ''a'') (JFun 1) False, CEmit (js ''a'') []]"

lemma once_program_runs:
  "map_option (\<lambda>(r, st). (r, ev_fired st)) (exec reentrant 20 (Run once_program) (new_emitter 2)) =
     Some (Inr True, [2])"
  by code_simp

theorem once_at_most_once_witness:
  "\<exists>st'. exec reentrant 20 (Run once_program) (new_emitter 2) = Some (Inr True, st') \<and>
         distinct (ev_fired st')"
proof -
  have "hooks_ok reentrant" by (simp add: hooks_ok_def reentrant_def cmd_ok_def)
  moreover have "list_all cmd_ok once_program" by code_simp
  moreover obtain st' where "exec reentrant 20 (Run once_program) (new_emitter 2) = Some (Inr True, st')"
    using once_program_runs by auto
  ultimately show ?thesis using once_at_most_once[of reentrant once_program] by blast
qed

text \<open>
  The condition is needed: a handler of \<^verbatim>\<open>removeListener\<close> that emits the event again while the wrapper
  is registered a second time runs the listener twice.
\<close>

definition removal_emits :: hooks where
  "removal_emits = \<lparr>behaviour = (\<lambda>f args st. if f = 1 then [CEmit (js ''a'') []] else []),
     isError = (\<lambda>_. False)\<rparr>"

lemma once_twice:
  "map_option (ev_fired \<circ> snd) (exec removal_emits 30
     (Run [CAdd removal (JFun 1) False, COnce (js ''a'') (JFun 0) False, CAdd (js ''a'') (JFun 2) False,
           CEmit (js ''a'') []]) (new_emitter 2)) = Some [2, 2]"
  by code_simp

end
