(* ===== verification/Url.thy ===== *)
theory Url
  imports Querystring Util_Core
begin

text \<open>
  \<^verbatim>\<open>lib_js/url.js\<close>: the legacy URL parser and formatter.  The fields of a \<^verbatim>\<open>Url\<close> are strings or null
  (\<open>None\<close>, which also stands for undefined: no test of the source tells them apart on a \<^verbatim>\<open>Url\<close>).
  The engine's \<^verbatim>\<open>toLowerCase\<close> for the host name and the byte decoder of the query strings are
  parameters.  The regular expressions are written as scanners.
\<close>

section \<open>Data\<close>

text \<open>\<^verbatim>\<open>query\<close> is null, a string, or an object (its properties in the order of \<^verbatim>\<open>Object.keys\<close>).\<close>

datatype uquery = QNull | QString jsstr | QObject "(jsstr \<times> qvalue) list"

record url =
  u_protocol :: "jsstr option"
  u_slashes :: bool
  u_auth :: "jsstr option"
  u_host :: "jsstr option"
  u_port :: "jsstr option"
  u_hostname :: "jsstr option"
  u_hash :: "jsstr option"
  u_search :: "jsstr option"
  u_query :: uquery
  u_pathname :: "jsstr option"
  u_path :: "jsstr option"
  u_href :: "jsstr option"

definition new_Url :: url where
  "new_Url = \<lparr>u_protocol = None, u_slashes = False, u_auth = None, u_host = None, u_port = None,
     u_hostname = None, u_hash = None, u_search = None, u_query = QNull, u_pathname = None,
     u_path = None, u_href = None\<rparr>"

text \<open>\<^verbatim>\<open>x\<close> as a condition, \<^verbatim>\<open>x || ''\<close> and \<^verbatim>\<open>x || y\<close>.\<close>

definition truthy :: "jsstr option \<Rightarrow> bool" where
  "truthy x \<longleftrightarrow> x \<noteq> None \<and> x \<noteq> Some []"

definition or_empty :: "jsstr option \<Rightarrow> jsstr" where
  "or_empty x = (case x of None \<Rightarrow> [] | Some s \<Rightarrow> s)"

definition or_else :: "jsstr option \<Rightarrow> jsstr option \<Rightarrow> jsstr option" where
  "or_else x y = (if truthy x then x else y)"

definition unsafeProtocol :: "jsstr option \<Rightarrow> bool" where
  "unsafeProtocol p \<longleftrightarrow> p = Some (js ''javascript'') \<or> p = Some (js ''javascript:'')"

definition hostlessProtocol :: "jsstr option \<Rightarrow> bool" where
  "hostlessProtocol p \<longleftrightarrow> p = Some (js ''javascript'') \<or> p = Some (js ''javascript:'')"

definition slashed_names :: "jsstr list" where
  "slashed_names = [js ''http'', js ''http:'', js ''https'', js ''https:'', js ''ftp'', js ''ftp:'',
     js ''gopher'', js ''gopher:'', js ''file'', js ''file:'', js ''ws'', js ''ws:'', js ''wss'', js ''wss:'']"

definition slashedProtocol :: "jsstr option \<Rightarrow> bool" where
  "slashedProtocol p = (case p of None \<Rightarrow> False | Some s \<Rightarrow> s \<in> set slashed_names)"

section \<open>Trimming and backslashes\<close>

definition isWs :: "nat \<Rightarrow> bool" where
  "isWs code \<longleftrightarrow>
     code = CHAR_SPACE \<or> code = CHAR_TAB \<or> code = CHAR_CARRIAGE_RETURN \<or> code = CHAR_LINE_FEED \<or>
     code = CHAR_FORM_FEED \<or> code = CHAR_NO_BREAK_SPACE \<or> code = CHAR_ZERO_WIDTH_NOBREAK_SPACE"

record trim_state =
  t_hasHash :: bool
  t_start :: "nat option"
  t_end :: "nat option"
  t_rest :: jsstr
  t_lastPos :: nat
  t_inWs :: bool
  t_split :: bool

text \<open>The first part of an iteration: where the text starts and where its trailing blanks start.\<close>

definition trim_mark :: "nat \<Rightarrow> bool \<Rightarrow> trim_state \<Rightarrow> trim_state" where
  "trim_mark i ws st =
     (if t_start st = None then st\<lparr>t_start := Some i, t_lastPos := i\<rparr>
      else if t_inWs st then (if \<not> ws then st\<lparr>t_end := None, t_inWs := False\<rparr> else st)
      else if ws then st\<lparr>t_end := Some i, t_inWs := True\<rparr>
      else st)"

definition trim_split :: "jsstr \<Rightarrow> nat \<Rightarrow> nat \<Rightarrow> trim_state \<Rightarrow> trim_state" where
  "trim_split url i code st =
     (if \<not> t_split st then
        (if code = CHAR_HASH then st\<lparr>t_hasHash := True, t_split := True\<rparr>
         else if code = CHAR_QUESTION_MARK then st\<lparr>t_split := True\<rparr>
         else if code = CHAR_BACKWARD_SLASH then
           st\<lparr>t_rest := (if i - t_lastPos st > 0 then t_rest st @ slice url (t_lastPos st) i else t_rest st)
                         @ [CHAR_FORWARD_SLASH],
              t_lastPos := i + 1\<rparr>
         else st)
      else if \<not> t_hasHash st \<and> code = CHAR_HASH then st\<lparr>t_hasHash := True\<rparr>
      else st)"

definition trim_step :: "jsstr \<Rightarrow> nat \<Rightarrow> trim_state \<Rightarrow> trim_state" where
  "trim_step url i st =
     (let code = url ! i; ws = isWs code
      in if t_start st = None \<and> ws then st
         else trim_split url i code (trim_mark i ws st))"

definition trim_init :: trim_state where
  "trim_init = \<lparr>t_hasHash = False, t_start = None, t_end = None, t_rest = [], t_lastPos = 0,
     t_inWs = False, t_split = False\<rparr>"

definition trim_loop :: "jsstr \<Rightarrow> trim_state" where
  "trim_loop url = fold (trim_step url) [0..<length url] trim_init"

text \<open>The text that is left after the loop.\<close>

definition trim_rest :: "jsstr \<Rightarrow> trim_state \<Rightarrow> jsstr" where
  "trim_rest url st =
     (case t_start st of
        None \<Rightarrow> t_rest st
      | Some start \<Rightarrow>
          if t_lastPos st = start then
            (case t_end st of
               None \<Rightarrow> if start = 0 then url else sliceFrom url start
             | Some e \<Rightarrow> slice url start e)
          else
            (case t_end st of
               None \<Rightarrow> if t_lastPos st < length url then t_rest st @ sliceFrom url (t_lastPos st) else t_rest st
             | Some e \<Rightarrow> if t_lastPos st < e then t_rest st @ slice url (t_lastPos st) e else t_rest st))"

section \<open>The regular expressions\<close>

text \<open>
  \<^verbatim>\<open>simplePathPattern\<close>, \<^verbatim>\<open>/^(\/\/?(?!\/)[^?\s]*)(\?[^\s]*)?$/\<close>: one or two slashes and no third one,
  no white space; the groups are the text before the first question mark and the text from it.
\<close>

definition simplePath :: "jsstr \<Rightarrow> (jsstr \<times> jsstr option) option" where
  "simplePath s =
     (if charCodeAt s 0 = Some CHAR_FORWARD_SLASH \<and>
         \<not> (charCodeAt s 1 = Some CHAR_FORWARD_SLASH \<and> charCodeAt s 2 = Some CHAR_FORWARD_SLASH) \<and>
         list_all (\<lambda>c. \<not> isSpaceClass c) s
      then
        (let q = scanWhile (\<lambda>c. c \<noteq> CHAR_QUESTION_MARK) s 0
         in Some (take q s, if q < length s then Some (drop q s) else None))
      else None)"

definition isAlpha :: "nat \<Rightarrow> bool" where
  "isAlpha c \<longleftrightarrow>
     (CHAR_LOWERCASE_A \<le> c \<and> c \<le> CHAR_LOWERCASE_Z) \<or> (CHAR_UPPERCASE_A \<le> c \<and> c \<le> CHAR_UPPERCASE_Z)"

definition isDigit :: "nat \<Rightarrow> bool" where
  "isDigit c \<longleftrightarrow> CHAR_0 \<le> c \<and> c \<le> CHAR_9"

text \<open>\<^verbatim>\<open>protocolPattern\<close>, \<^verbatim>\<open>/^[a-z0-9.+-]+:/i\<close>.\<close>

definition protoChar :: "nat \<Rightarrow> bool" where
  "protoChar c \<longleftrightarrow> isAlpha c \<or> isDigit c \<or> c = CHAR_DOT \<or> c = CHAR_PLUS \<or> c = CHAR_HYPHEN_MINUS"

definition protocolPattern :: "jsstr \<Rightarrow> jsstr option" where
  "protocolPattern s =
     (let n = scanWhile protoChar s 0
      in if 0 < n \<and> charCodeAt s n = Some CHAR_COLON then Some (take (n + 1) s) else None)"

text \<open>\<^verbatim>\<open>hostPattern\<close>, \<^verbatim>\<open>/^\/\/[^@/]+@[^@/]+/\<close>.\<close>

definition hostPattern :: "jsstr \<Rightarrow> bool" where
  "hostPattern s \<longleftrightarrow>
     charCodeAt s 0 = Some CHAR_FORWARD_SLASH \<and> charCodeAt s 1 = Some CHAR_FORWARD_SLASH \<and>
     (let n = scanWhile (\<lambda>c. c \<noteq> CHAR_AT \<and> c \<noteq> CHAR_FORWARD_SLASH) s 2
      in 2 < n \<and> charCodeAt s n = Some CHAR_AT \<and>
         charCodeAt s (n + 1) \<notin> {None, Some CHAR_AT, Some CHAR_FORWARD_SLASH})"

text \<open>\<^verbatim>\<open>portPattern\<close>, \<^verbatim>\<open>/:[0-9]*$/\<close>: the last colon, when only digits follow it.\<close>

definition portPattern :: "jsstr \<Rightarrow> jsstr option" where
  "portPattern s =
     (let k = lastIndexOf s CHAR_COLON
      in if k \<noteq> -1 \<and> list_all isDigit (drop (nat k + 1) s) then Some (drop (nat k) s) else None)"

section \<open>The host\<close>

text \<open>Characters that end the host, and characters a host never has.\<close>

definition host_end_char :: "nat \<Rightarrow> bool" where
  "host_end_char c \<longleftrightarrow> c = CHAR_HASH \<or> c = CHAR_FORWARD_SLASH \<or> c = CHAR_QUESTION_MARK"

definition non_host_char :: "nat \<Rightarrow> bool" where
  "non_host_char c \<longleftrightarrow>
     c \<in> {CHAR_TAB, CHAR_LINE_FEED, CHAR_CARRIAGE_RETURN, CHAR_SPACE, CHAR_DOUBLE_QUOTE, CHAR_PERCENT,
          CHAR_SINGLE_QUOTE, CHAR_SEMICOLON, CHAR_LEFT_ANGLE_BRACKET, CHAR_RIGHT_ANGLE_BRACKET,
          CHAR_BACKWARD_SLASH, CHAR_CIRCUMFLEX_ACCENT, CHAR_GRAVE_ACCENT, CHAR_LEFT_CURLY_BRACKET,
          CHAR_VERTICAL_LINE, CHAR_RIGHT_CURLY_BRACKET}"

text \<open>The scan for the end of the host: the last \<^verbatim>\<open>@\<close> and the first non-host character after it.\<close>

fun host_scan :: "jsstr \<Rightarrow> nat \<Rightarrow> nat option \<Rightarrow> nat option \<Rightarrow> nat option \<times> nat option" where
  "host_scan [] i atSign nonHost = (atSign, nonHost)"
| "host_scan (c # r) i atSign nonHost =
     (let first = (if nonHost = None then Some i else nonHost) in
      if host_end_char c then (atSign, first)
      else if non_host_char c then host_scan r (i + 1) atSign first
      else if c = CHAR_AT then host_scan r (i + 1) (Some i) None
      else host_scan r (i + 1) atSign nonHost)"

definition parseHost :: "url \<Rightarrow> url" where
  "parseHost u =
     (case u_host u of
        None \<Rightarrow> u
      | Some host \<Rightarrow>
          (case portPattern host of
             None \<Rightarrow> if host \<noteq> [] then u\<lparr>u_hostname := Some host\<rparr> else u
           | Some port \<Rightarrow>
               (let u1 = (if port \<noteq> [CHAR_COLON] then u\<lparr>u_port := Some (sliceFrom port 1)\<rparr> else u);
                    name = slice host 0 (length host - length port)
                in if name \<noteq> [] then u1\<lparr>u_hostname := Some name\<rparr> else u1)))"

definition valid_host_char :: "nat \<Rightarrow> bool" where
  "valid_host_char c \<longleftrightarrow>
     isAlpha c \<or> c = CHAR_DOT \<or> isDigit c \<or> c = CHAR_HYPHEN_MINUS \<or> c = CHAR_PLUS \<or> c = CHAR_UNDERSCORE \<or>
     c > 127"

text \<open>\<^verbatim>\<open>validateHostname\<close>: the new host name and the new rest, when a character is not valid.\<close>

definition validateHostname :: "jsstr \<Rightarrow> jsstr \<Rightarrow> (jsstr \<times> jsstr) option" where
  "validateHostname rest hostname =
     (let i = scanWhile valid_host_char hostname 0
      in if i < length hostname
         then Some (slice hostname 0 i, CHAR_FORWARD_SLASH # sliceFrom hostname i @ rest)
         else None)"

definition toASCII :: "jsstr \<Rightarrow> jsstr" where
  "toASCII x = x"

definition hostnameMaxLen :: nat where "hostnameMaxLen = 255"

section \<open>Escaping and formatting\<close>

definition escapedCode :: "nat \<Rightarrow> jsstr" where
  "escapedCode c =
     (if c = 9 then js ''%09'' else if c = 10 then js ''%0A'' else if c = 13 then js ''%0D''
      else if c = 32 then js ''%20'' else if c = 34 then js ''%22'' else if c = 39 then js ''%27''
      else if c = 60 then js ''%3C'' else if c = 62 then js ''%3E'' else if c = 92 then js ''%5C''
      else if c = 94 then js ''%5E'' else if c = 96 then js ''%60'' else if c = 123 then js ''%7B''
      else if c = 124 then js ''%7C'' else if c = 125 then js ''%7D'' else [])"

text \<open>
  The loops of \<^verbatim>\<open>autoEscapeStr\<close> and of \<^verbatim>\<open>format\<close> over a path copy the ordinary characters in slices:
  \<open>code\<close> gives the replacement of a character, empty for none.
\<close>

definition escape_step :: "(nat \<Rightarrow> jsstr) \<Rightarrow> jsstr \<Rightarrow> nat \<Rightarrow> jsstr \<times> nat \<Rightarrow> jsstr \<times> nat" where
  "escape_step code s i st =
     (case st of (escaped, lastEscapedPos) \<Rightarrow>
        if code (s ! i) \<noteq> []
        then ((if i > lastEscapedPos then escaped @ slice s lastEscapedPos i else escaped) @ code (s ! i),
              i + 1)
        else st)"

definition escape_loop :: "(nat \<Rightarrow> jsstr) \<Rightarrow> jsstr \<Rightarrow> jsstr \<times> nat" where
  "escape_loop code s = fold (escape_step code s) [0..<length s] ([], 0)"

definition autoEscapeStr :: "jsstr \<Rightarrow> jsstr" where
  "autoEscapeStr rest =
     (case escape_loop escapedCode rest of (escaped, lastEscapedPos) \<Rightarrow>
        if lastEscapedPos = 0 then rest
        else if lastEscapedPos < length rest then escaped @ sliceFrom rest lastEscapedPos
        else escaped)"

definition noEscapeAuth :: "nat list" where
  "noEscapeAuth =
     replicate 32 0 @
     [0, 1, 0, 0, 0, 0, 0, 1, 1, 1, 1, 0, 0, 1, 1, 0] @
     [1, 1, 1, 1, 1, 1, 1, 1, 1, 1, 1, 0, 0, 0, 0, 0] @
     [0, 1, 1, 1, 1, 1, 1, 1, 1, 1, 1, 1, 1, 1, 1, 1] @
     [1, 1, 1, 1, 1, 1, 1, 1, 1, 1, 1, 0, 0, 0, 0, 1] @
     [0, 1, 1, 1, 1, 1, 1, 1, 1, 1, 1, 1, 1, 1, 1, 1] @
     [1, 1, 1, 1, 1, 1, 1, 1, 1, 1, 1, 0, 0, 0, 1, 0]"

definition pathCode :: "nat \<Rightarrow> jsstr" where
  "pathCode c = (if c = CHAR_HASH then js ''%23'' else if c = CHAR_QUESTION_MARK then js ''%3F'' else [])"

definition format_pathname :: "jsstr \<Rightarrow> jsstr" where
  "format_pathname pathname =
     (case escape_loop pathCode pathname of (newPathname, pos) \<Rightarrow>
        if pos > 0 then
          (if pos \<noteq> length pathname then newPathname @ sliceFrom pathname pos else newPathname)
        else pathname)"

text \<open>\<^verbatim>\<open>auth\<close> encoded, with its \<^verbatim>\<open>@\<close>.\<close>

definition format_auth :: "url \<Rightarrow> jserr + jsstr" where
  "format_auth u =
     (let auth = or_empty (u_auth u) in
      if auth \<noteq> [] then ebind (encodeStr auth noEscapeAuth) (\<lambda>a. Inr (a @ [CHAR_AT])) else Inr auth)"

definition format_host :: "url \<Rightarrow> jsstr \<Rightarrow> jsstr" where
  "format_host u auth =
     (if truthy (u_host u) then auth @ or_empty (u_host u)
      else if truthy (u_hostname u) then
        (let name = or_empty (u_hostname u) in
         auth @ (if CHAR_COLON \<notin> set name then name
                 else [CHAR_LEFT_SQUARE_BRACKET] @ name @ [CHAR_RIGHT_SQUARE_BRACKET])
              @ (if truthy (u_port u) then CHAR_COLON # or_empty (u_port u) else []))
      else [])"

definition format_query :: "uquery \<Rightarrow> jserr + jsstr" where
  "format_query q =
     (case q of QObject ps \<Rightarrow> stringify (Some ps) None None None | _ \<Rightarrow> Inr [])"

definition format_search :: "url \<Rightarrow> jsstr \<Rightarrow> jsstr" where
  "format_search u query =
     (if truthy (u_search u) then or_empty (u_search u)
      else if query \<noteq> [] then CHAR_QUESTION_MARK # query
      else [])"

definition format_protocol :: "url \<Rightarrow> jsstr" where
  "format_protocol u =
     (let protocol = or_empty (u_protocol u) in
      if protocol \<noteq> [] \<and> last protocol \<noteq> 58 then protocol @ [CHAR_COLON] else protocol)"

text \<open>The slashes before the host: only for the slashed protocols, or when they were there.\<close>

definition format_slashes :: "url \<Rightarrow> jsstr \<Rightarrow> jsstr \<Rightarrow> jsstr \<Rightarrow> jsstr \<times> jsstr" where
  "format_slashes u protocol host pathname =
     (if u_slashes u \<or> slashedProtocol (Some protocol) then
        (if u_slashes u \<or> host \<noteq> [] then
           (js ''//'' @ host,
            if pathname \<noteq> [] \<and> charCodeAt pathname 0 \<noteq> Some CHAR_FORWARD_SLASH
            then CHAR_FORWARD_SLASH # pathname else pathname)
         else if length protocol \<ge> 4 \<and> slice protocol 0 4 = js ''file'' then (js ''//'', pathname)
         else (host, pathname))
      else (host, pathname))"

definition url_format :: "url \<Rightarrow> jserr + jsstr" where
  "url_format u =
     ebind (format_auth u) (\<lambda>auth.
     ebind (format_query (u_query u)) (\<lambda>query.
       (let host = format_host u auth;
            search = format_search u query;
            protocol = format_protocol u;
            pathname = format_pathname (or_empty (u_pathname u));
            hash = or_empty (u_hash u);
            (host, pathname) = format_slashes u protocol host pathname;
            search = concat (map (\<lambda>c. if c = CHAR_HASH then js ''%23'' else [c]) search);
            hash = (if hash \<noteq> [] \<and> charCodeAt hash 0 \<noteq> Some CHAR_HASH then CHAR_HASH # hash else hash);
            search = (if search \<noteq> [] \<and> charCodeAt search 0 \<noteq> Some CHAR_QUESTION_MARK
                      then CHAR_QUESTION_MARK # search else search)
        in Inr (protocol @ host @ pathname @ search @ hash))))"

text \<open>\<^verbatim>\<open>this.href = this.format()\<close>.\<close>

definition set_href :: "url \<Rightarrow> jserr + url" where
  "set_href u = ebind (url_format u) (\<lambda>h. Inr (u\<lparr>u_href := Some h\<rparr>))"

section \<open>Parsing\<close>

text \<open>What the parser takes from its environment: the engine's \<^verbatim>\<open>toLowerCase\<close>, the byte decoder.\<close>

record url_env =
  ue_lower :: "jsstr \<Rightarrow> jsstr"
  ue_buffer :: buffer_env

text \<open>\<^verbatim>\<open>querystring.parse\<close> of a query, as the value of \<^verbatim>\<open>query\<close>.\<close>

definition parse_query :: "url_env \<Rightarrow> jsstr \<Rightarrow> uquery" where
  "parse_query env q =
     QObject (own_entries (map (\<lambda>(k, v). (k, case v of PStr s \<Rightarrow> QPrim (JStr s)
                                             | PArr vs \<Rightarrow> QArray (map JStr vs)))
       (qs_parse (ue_buffer env) (JStr q) None None None None)))"

text \<open>The fast path for a plain path.\<close>

definition parse_simple :: "url_env \<Rightarrow> bool \<Rightarrow> jsstr \<Rightarrow> jsstr \<times> jsstr option \<Rightarrow> url \<Rightarrow> url" where
  "parse_simple env parseQueryString rest m u =
     (let u1 = u\<lparr>u_path := Some rest, u_href := Some rest, u_pathname := Some (fst m)\<rparr>
      in case snd m of
           Some search \<Rightarrow>
             u1\<lparr>u_search := Some search,
                u_query := (if parseQueryString then parse_query env (sliceFrom search 1)
                            else QString (sliceFrom search 1))\<rparr>
         | None \<Rightarrow> if parseQueryString then u1\<lparr>u_search := None, u_query := QObject []\<rparr> else u1)"

definition ipv6_name :: "jsstr \<Rightarrow> bool" where
  "ipv6_name hostname \<longleftrightarrow>
     charCodeAt hostname 0 = Some CHAR_LEFT_SQUARE_BRACKET \<and> last hostname = CHAR_RIGHT_SQUARE_BRACKET"

text \<open>The host name, checked, cut and in lower case, and the host made of it and the port.\<close>

definition parse_hostname :: "url_env \<Rightarrow> jsstr \<Rightarrow> url \<Rightarrow> url \<times> jsstr" where
  "parse_hostname env rest u0 =
     (let u = parseHost u0;
          hostname = or_empty (u_hostname u);
          ipv6 = ipv6_name hostname;
          (name, rest1) = (if \<not> ipv6 then
                             (case validateHostname rest hostname of Some r \<Rightarrow> r | None \<Rightarrow> (hostname, rest))
                           else (hostname, rest));
          name1 = (if length name > hostnameMaxLen then [] else ue_lower env name);
          name2 = (if \<not> ipv6 then toASCII name1 else name1);
          p = (if truthy (u_port u) then CHAR_COLON # or_empty (u_port u) else []);
          u1 = u\<lparr>u_hostname := Some name2, u_host := Some (name2 @ p)\<rparr>
      in if ipv6 then
           (u1\<lparr>u_hostname := Some (slice name2 1 (length name2 - 1))\<rparr>,
            if charCodeAt rest1 0 \<noteq> Some CHAR_FORWARD_SLASH then CHAR_FORWARD_SLASH # rest1 else rest1)
         else (u1, rest1))"

text \<open>The authority: user data up to the last \<^verbatim>\<open>@\<close>, the host up to the first non-host character.\<close>

definition parse_authority :: "url_env \<Rightarrow> jsstr \<Rightarrow> url \<Rightarrow> jserr + (url \<times> jsstr)" where
  "parse_authority env rest u =
     (let (atSign, nonHost) = host_scan rest 0 None None;
          start = (case atSign of None \<Rightarrow> 0 | Some a \<Rightarrow> a + 1)
      in ebind (case atSign of
                  None \<Rightarrow> Inr u
                | Some a \<Rightarrow> ebind (decodeURIComponent (slice rest 0 a)) (\<lambda>d. Inr (u\<lparr>u_auth := Some d\<rparr>)))
           (\<lambda>u1.
             Inr (case nonHost of
                    None \<Rightarrow> parse_hostname env [] (u1\<lparr>u_host := Some (sliceFrom rest start)\<rparr>)
                  | Some n \<Rightarrow> parse_hostname env (sliceFrom rest n) (u1\<lparr>u_host := Some (slice rest start n)\<rparr>))))"

text \<open>The search for the first question mark and the first hash; the loop ends at the hash.\<close>

fun question_hash :: "jsstr \<Rightarrow> nat \<Rightarrow> nat option \<Rightarrow> nat option \<times> nat option" where
  "question_hash [] i questionIdx = (questionIdx, None)"
| "question_hash (c # r) i questionIdx =
     (if c = CHAR_HASH then (questionIdx, Some i)
      else if c = CHAR_QUESTION_MARK \<and> questionIdx = None then question_hash r (i + 1) (Some i)
      else question_hash r (i + 1) questionIdx)"

text \<open>\<^verbatim>\<open>hash\<close>, \<^verbatim>\<open>search\<close>, \<^verbatim>\<open>query\<close> and \<^verbatim>\<open>pathname\<close> from what is left.\<close>

definition parse_tail :: "url_env \<Rightarrow> bool \<Rightarrow> jsstr \<Rightarrow> url \<Rightarrow> url" where
  "parse_tail env parseQueryString rest u =
     (let (questionIdx, hashIdx) = question_hash rest 0 None;
          stop = (case hashIdx of None \<Rightarrow> length rest | Some h \<Rightarrow> h);
          u1 = (case hashIdx of None \<Rightarrow> u | Some h \<Rightarrow> u\<lparr>u_hash := Some (sliceFrom rest h)\<rparr>);
          u2 = (case questionIdx of
                  Some q \<Rightarrow>
                    u1\<lparr>u_search := Some (slice rest q stop),
                       u_query := (if parseQueryString then parse_query env (slice rest (q + 1) stop)
                                   else QString (slice rest (q + 1) stop))\<rparr>
                | None \<Rightarrow> if parseQueryString then u1\<lparr>u_search := None, u_query := QObject []\<rparr> else u1);
          firstIdx = (case questionIdx of
                        Some q \<Rightarrow> if q < stop then Some q else hashIdx
                      | None \<Rightarrow> hashIdx)
      in case firstIdx of
           None \<Rightarrow> if length rest > 0 then u2\<lparr>u_pathname := Some rest\<rparr> else u2
         | Some f \<Rightarrow> if f > 0 then u2\<lparr>u_pathname := Some (slice rest 0 f)\<rparr> else u2)"

definition parse_path :: "url \<Rightarrow> url" where
  "parse_path u =
     (let u1 = (if slashedProtocol (u_protocol u) \<and> truthy (u_hostname u) \<and> \<not> truthy (u_pathname u)
                then u\<lparr>u_pathname := Some [CHAR_FORWARD_SLASH]\<rparr> else u)
      in if truthy (u_pathname u1) \<or> truthy (u_search u1)
         then u1\<lparr>u_path := Some (or_empty (u_pathname u1) @ or_empty (u_search u1))\<rparr> else u1)"

text \<open>
  The protocol.  The tables are asked with the name as it is written, not in lower case.
\<close>

definition parse_slashes :: "bool \<Rightarrow> jsstr option \<Rightarrow> jsstr \<Rightarrow> bool" where
  "parse_slashes slashesDenoteHost proto rest \<longleftrightarrow>
     (slashesDenoteHost \<or> proto \<noteq> None \<or> hostPattern rest) \<and>
     charCodeAt rest 0 = Some CHAR_FORWARD_SLASH \<and> charCodeAt rest 1 = Some CHAR_FORWARD_SLASH"

definition parse_full :: "url_env \<Rightarrow> bool \<Rightarrow> bool \<Rightarrow> jsstr \<Rightarrow> url \<Rightarrow> jserr + url" where
  "parse_full env parseQueryString slashesDenoteHost rest u =
     (let proto = protocolPattern rest;
          u1 = (case proto of None \<Rightarrow> u | Some p \<Rightarrow> u\<lparr>u_protocol := Some (toLowerCase p)\<rparr>);
          lowerProto = map_option toLowerCase proto;
          rest1 = (case proto of None \<Rightarrow> rest | Some p \<Rightarrow> sliceFrom rest (length p));
          slashes = parse_slashes slashesDenoteHost proto rest1;
          strip = (slashes \<and> \<not> hostlessProtocol proto);
          rest2 = (if strip then sliceFrom rest1 2 else rest1);
          u2 = (if strip then u1\<lparr>u_slashes := True\<rparr> else u1)
      in ebind (if \<not> hostlessProtocol proto \<and> (slashes \<or> (proto \<noteq> None \<and> \<not> slashedProtocol proto))
                then parse_authority env rest2 u2 else Inr (u2, rest2))
           (\<lambda>(u3, rest3).
              let rest4 = (if \<not> unsafeProtocol lowerProto then autoEscapeStr rest3 else rest3)
              in set_href (parse_path (parse_tail env parseQueryString rest4 u3))))"

text \<open>\<^verbatim>\<open>Url.prototype.parse\<close> of a new object on a string, and \<^verbatim>\<open>urlParse\<close>.\<close>

definition url_parse :: "url_env \<Rightarrow> jsstr \<Rightarrow> bool \<Rightarrow> bool \<Rightarrow> jserr + url" where
  "url_parse env url parseQueryString slashesDenoteHost =
     (let st = trim_loop url;
          rest = trim_rest url st;
          simple = (if \<not> slashesDenoteHost \<and> \<not> t_hasHash st then simplePath rest else None)
      in case simple of
           Some m \<Rightarrow> Inr (parse_simple env parseQueryString rest m new_Url)
         | None \<Rightarrow> parse_full env parseQueryString slashesDenoteHost rest new_Url)"

text \<open>The argument of a public function: a string, a \<^verbatim>\<open>Url\<close>, or something else.\<close>

datatype url_arg = UStr jsstr | UUrl url | UOther jsval

definition urlParse :: "url_env \<Rightarrow> url_arg \<Rightarrow> bool \<Rightarrow> bool \<Rightarrow> jserr + url" where
  "urlParse env arg parseQueryString slashesDenoteHost =
     (case arg of
        UUrl u \<Rightarrow> Inr u
      | UStr s \<Rightarrow> url_parse env s parseQueryString slashesDenoteHost
      | UOther v \<Rightarrow> Inl (ERR_INVALID_ARG_TYPE (js ''url'')))"

definition urlFormat :: "url_env \<Rightarrow> url_arg \<Rightarrow> jserr + jsstr" where
  "urlFormat env arg =
     (case arg of
        UStr s \<Rightarrow> ebind (urlParse env arg False False) url_format
      | UUrl u \<Rightarrow> url_format u
      | UOther v \<Rightarrow> Inl (ERR_INVALID_ARG_TYPE (js ''urlObject'')))"

end
