(* ===== verification/Url_Resolve.thy ===== *)
theory Url_Resolve
  imports Url
begin

text \<open>
  The resolution of a reference against a base in \<^verbatim>\<open>lib_js/url.js\<close>: \<^verbatim>\<open>resolveObject\<close>, piece by
  piece, the functions that call it and the \<^verbatim>\<open>URL\<close> constructor.  \<^verbatim>\<open>resolveObject\<close> also writes to the
  object given as the reference; what it leaves there is a definition of its own.
\<close>

section \<open>The pieces of resolveObject\<close>

definition starts_with_slash :: "jsstr option \<Rightarrow> bool" where
  "starts_with_slash p \<longleftrightarrow> charCodeAt (or_empty p) 0 = Some CHAR_FORWARD_SLASH"

definition split_slash :: "jsstr \<Rightarrow> jsstr list" where
  "split_slash s = splitOn (\<lambda>c. c = CHAR_FORWARD_SLASH) s"

text \<open>\<^verbatim>\<open>xs[0] === s\<close>; an index out of range is undefined.\<close>

definition first_is :: "jsstr list \<Rightarrow> jsstr \<Rightarrow> bool" where
  "first_is xs s \<longleftrightarrow> xs \<noteq> [] \<and> hd xs = s"

text \<open>\<^verbatim>\<open>if (xs[0] === '') xs[0] = h; else xs.unshift(h)\<close>.\<close>

definition put_first :: "jsstr \<Rightarrow> jsstr list \<Rightarrow> jsstr list" where
  "put_first h xs = (if first_is xs [] then h # tl xs else h # xs)"

text \<open>\<^verbatim>\<open>path\<close> from \<^verbatim>\<open>pathname\<close> and \<^verbatim>\<open>search\<close>.\<close>

definition join_path :: "url \<Rightarrow> url" where
  "join_path u =
     (if u_pathname u \<noteq> None \<or> u_search u \<noteq> None
      then u\<lparr>u_path := Some (or_empty (u_pathname u) @ or_empty (u_search u))\<rparr> else u)"

text \<open>A reference that starts with two slashes: everything but the protocol.\<close>

definition resolve_slashes :: "url \<Rightarrow> url \<Rightarrow> jserr + url" where
  "resolve_slashes result relative =
     (let r = relative\<lparr>u_protocol := u_protocol result\<rparr>;
          r1 = (if slashedProtocol (u_protocol r) \<and> truthy (u_hostname r) \<and> \<not> truthy (u_pathname r)
                then r\<lparr>u_path := Some [CHAR_FORWARD_SLASH], u_pathname := Some [CHAR_FORWARD_SLASH]\<rparr> else r)
      in set_href r1)"

text \<open>\<^verbatim>\<open>while (relPath.length && !(relative.host = relPath.shift()))\<close>.\<close>

fun shift_host :: "jsstr option \<Rightarrow> jsstr list \<Rightarrow> jsstr option \<times> jsstr list" where
  "shift_host h [] = (h, [])"
| "shift_host h (x # xs) = (if x = [] then shift_host (Some x) xs else (Some x, xs))"

definition isFileProtocol :: "jsstr option \<Rightarrow> bool" where
  "isFileProtocol p \<longleftrightarrow> p = Some (js ''file'') \<or> p = Some (js ''file:'')"

text \<open>
  A reference with another protocol and without a host takes the first segment of its path as host:
  the changed reference and the path that is left.
\<close>

definition adopt_host :: "url \<Rightarrow> url \<times> jsstr option" where
  "adopt_host relative =
     (if \<not> truthy (u_host relative) \<and> \<not> isFileProtocol (u_protocol relative) \<and>
         \<not> hostlessProtocol (u_protocol relative)
      then
        (let (h, relPath) = shift_host (u_host relative) (split_slash (or_empty (u_pathname relative)));
             relPath1 = (if \<not> first_is relPath [] then [] # relPath else relPath);
             relPath2 = (if length relPath1 < 2 then [] # relPath1 else relPath1)
         in (relative\<lparr>u_host := (if truthy h then h else Some []),
                       u_hostname := (if truthy (u_hostname relative) then u_hostname relative else Some [])\<rparr>,
             Some (joinOn CHAR_FORWARD_SLASH relPath2)))
      else (relative, u_pathname relative))"

text \<open>A reference with another protocol.\<close>

definition resolve_protocol :: "url \<Rightarrow> url \<Rightarrow> jserr + url" where
  "resolve_protocol result0 relative0 =
     (if \<not> slashedProtocol (u_protocol relative0) then set_href relative0
      else
        (let (relative, pathname) = adopt_host relative0;
             result1 = result0\<lparr>u_protocol := u_protocol relative0, u_pathname := pathname,
                               u_search := u_search relative, u_query := u_query relative,
                               u_host := Some (or_empty (u_host relative)), u_auth := u_auth relative,
                               u_hostname := or_else (u_hostname relative) (u_host relative),
                               u_port := u_port relative\<rparr>;
             result2 = (if truthy (u_pathname result1) \<or> truthy (u_search result1)
                        then result1\<lparr>u_path := Some (or_empty (u_pathname result1) @ or_empty (u_search result1))\<rparr>
                        else result1)
         in set_href (result2\<lparr>u_slashes := (u_slashes result2 \<or> u_slashes relative)\<rparr>)))"

text \<open>The local variables between the steps.\<close>

record resolving =
  r_result :: url
  r_relative :: url
  r_srcPath :: "jsstr list"
  r_relPath :: "jsstr list"
  r_mustEndAbs :: bool

text \<open>A protocol without slashes: the host is put in front of the path for the time being.\<close>

definition resolve_noslash :: "resolving \<Rightarrow> resolving" where
  "resolve_noslash r =
     (let result = r_result r; relative = r_relative r;
          srcPath = (if truthy (u_host result) then put_first (or_empty (u_host result)) (r_srcPath r)
                     else r_srcPath r);
          result1 = result\<lparr>u_hostname := Some [], u_port := None, u_host := Some []\<rparr>;
          withProto = truthy (u_protocol relative);
          relPath = (if withProto \<and> truthy (u_host relative)
                     then put_first (or_empty (u_host relative)) (r_relPath r) else r_relPath r);
          result2 = (if withProto then result1\<lparr>u_auth := None\<rparr> else result1);
          relative2 = (if withProto then relative\<lparr>u_hostname := None, u_port := None, u_host := None\<rparr>
                       else relative)
      in \<lparr>r_result = result2, r_relative = relative2, r_srcPath = srcPath, r_relPath = relPath,
          r_mustEndAbs = (r_mustEndAbs r \<and> (first_is relPath [] \<or> first_is srcPath []))\<rparr>)"

text \<open>User data that got stuck in the host.\<close>

definition split_auth :: "url \<Rightarrow> url" where
  "split_auth u =
     (let host = or_empty (u_host u); at = length (takeWhile (\<lambda>c. c \<noteq> CHAR_AT) host) in
      if 0 < at \<and> at < length host
      then
        (let pieces = splitOn (\<lambda>c. c = CHAR_AT) host
         in u\<lparr>u_auth := Some (pieces ! 0), u_host := Some (pieces ! 1), u_hostname := Some (pieces ! 1)\<rparr>)
      else u)"

text \<open>The path to work on, or the result when only the search changes.\<close>

definition resolve_pick :: "bool \<Rightarrow> bool \<Rightarrow> resolving \<Rightarrow> url + resolving" where
  "resolve_pick isRelAbs noLeadingSlashes r =
     (let result = r_result r; relative = r_relative r in
      if isRelAbs then
        (let result1 = (if u_host relative \<noteq> None
                        then (if u_host result \<noteq> u_host relative then result\<lparr>u_auth := None\<rparr> else result)
                               \<lparr>u_host := u_host relative, u_port := u_port relative\<rparr>
                        else result);
             result2 = (if u_hostname relative \<noteq> None
                        then (if u_hostname result1 \<noteq> u_hostname relative then result1\<lparr>u_auth := None\<rparr>
                              else result1)\<lparr>u_hostname := u_hostname relative\<rparr>
                        else result1)
         in Inr (r\<lparr>r_result := result2\<lparr>u_search := u_search relative, u_query := u_query relative\<rparr>,
                   r_srcPath := r_relPath r\<rparr>))
      else if r_relPath r \<noteq> [] then
        Inr (r\<lparr>r_srcPath := butlast (r_srcPath r) @ r_relPath r,
               r_result := result\<lparr>u_search := u_search relative, u_query := u_query relative\<rparr>\<rparr>)
      else if u_search relative \<noteq> None then
        (let result1 = (if noLeadingSlashes
                        then (let h = (case r_srcPath r of [] \<Rightarrow> None | x # _ \<Rightarrow> Some x)
                              in split_auth (result\<lparr>u_host := h, u_hostname := h\<rparr>))
                        else result)
         in Inl (join_path (result1\<lparr>u_search := u_search relative, u_query := u_query relative\<rparr>)))
      else Inr r)"

text \<open>The loop over the segments from the last one to the first.\<close>

fun dots_loop :: "nat \<Rightarrow> jsstr list \<Rightarrow> nat \<Rightarrow> jsstr list \<times> nat" where
  "dots_loop 0 srcPath up = (srcPath, up)"
| "dots_loop (Suc i) srcPath up =
     (let seg = srcPath ! i in
      if seg = js ''.'' then dots_loop i (spliceOne srcPath i) up
      else if seg = js ''..'' then dots_loop i (spliceOne srcPath i) (up + 1)
      else if up > 0 then dots_loop i (spliceOne srcPath i) (up - 1)
      else dots_loop i srcPath up)"

definition has_trailing_slash :: "url \<Rightarrow> url \<Rightarrow> jsstr list \<Rightarrow> bool" where
  "has_trailing_slash result relative srcPath \<longleftrightarrow>
     ((truthy (u_host result) \<or> truthy (u_host relative) \<or> length srcPath > 1) \<and>
      (last srcPath = js ''.'' \<or> last srcPath = js ''..'')) \<or> last srcPath = []"

text \<open>The segments after the dots are gone, with the slashes at both ends restored.\<close>

definition clean_segments :: "bool \<Rightarrow> bool \<Rightarrow> bool \<Rightarrow> jsstr list \<Rightarrow> jsstr list" where
  "clean_segments mustEndAbs removeAllDots hasTrailingSlash srcPath =
     (let (segs, up) = dots_loop (length srcPath) srcPath 0;
          segs1 = (if \<not> mustEndAbs \<and> \<not> removeAllDots then replicate up (js ''..'') @ segs else segs);
          segs2 = (if mustEndAbs \<and> \<not> first_is segs1 [] \<and>
                      (segs1 = [] \<or> charCodeAt (hd segs1) 0 \<noteq> Some CHAR_FORWARD_SLASH)
                   then [] # segs1 else segs1);
          text = joinOn CHAR_FORWARD_SLASH segs2
      in if hasTrailingSlash \<and> (text = [] \<or> last text \<noteq> CHAR_FORWARD_SLASH)
         then segs2 @ [[]] else segs2)"

text \<open>The last part: the host comes back and the path is put together.\<close>

definition resolve_finish :: "bool \<Rightarrow> bool \<Rightarrow> resolving \<Rightarrow> jserr + url" where
  "resolve_finish removeAllDots noLeadingSlashes r =
     (let result = r_result r; relative = r_relative r; srcPath = r_srcPath r in
      if srcPath = [] then
        set_href (result\<lparr>u_pathname := None,
                         u_path := (if truthy (u_search result)
                                    then Some (CHAR_FORWARD_SLASH # or_empty (u_search result)) else None)\<rparr>)
      else
        (let segs = clean_segments (r_mustEndAbs r) removeAllDots
                      (has_trailing_slash result relative srcPath) srcPath;
             isAbsolute = (first_is segs [] \<or>
                           (segs \<noteq> [] \<and> charCodeAt (hd segs) 0 = Some CHAR_FORWARD_SLASH));
             (result1, segs1) =
               (if noLeadingSlashes then
                  (let h = (if isAbsolute then [] else if segs \<noteq> [] then hd segs else []);
                       rest = (if isAbsolute then segs else tl segs)
                   in (split_auth (result\<lparr>u_host := Some h, u_hostname := Some h\<rparr>), rest))
                else (result, segs));
             mustEndAbs = (r_mustEndAbs r \<or> (truthy (u_host result1) \<and> segs1 \<noteq> []));
             segs2 = (if mustEndAbs \<and> \<not> isAbsolute then [] # segs1 else segs1);
             result2 = (if segs2 = [] then result1\<lparr>u_pathname := None, u_path := None\<rparr>
                        else result1\<lparr>u_pathname := Some (joinOn CHAR_FORWARD_SLASH segs2)\<rparr>);
             result3 = join_path result2
         in set_href (result3\<lparr>u_auth := or_else (u_auth relative) (u_auth result3),
                              u_slashes := (u_slashes result3 \<or> u_slashes relative)\<rparr>)))"

text \<open>The state before the branches of the path are told apart.\<close>

definition rel_is_abs :: "url \<Rightarrow> bool" where
  "rel_is_abs relative \<longleftrightarrow> truthy (u_host relative) \<or> starts_with_slash (u_pathname relative)"

definition must_end_abs :: "url \<Rightarrow> url \<Rightarrow> bool" where
  "must_end_abs result relative \<longleftrightarrow>
     rel_is_abs relative \<or> starts_with_slash (u_pathname result) \<or>
     (truthy (u_host result) \<and> truthy (u_pathname relative))"

definition no_leading_slashes :: "url \<Rightarrow> bool" where
  "no_leading_slashes result \<longleftrightarrow> truthy (u_protocol result) \<and> \<not> slashedProtocol (u_protocol result)"

definition path_segments :: "jsstr option \<Rightarrow> jsstr list" where
  "path_segments p = (if truthy p then split_slash (or_empty p) else [])"

definition resolve_start :: "url \<Rightarrow> url \<Rightarrow> resolving" where
  "resolve_start result relative =
     (let r = \<lparr>r_result = result, r_relative = relative, r_srcPath = path_segments (u_pathname result),
               r_relPath = path_segments (u_pathname relative), r_mustEndAbs = must_end_abs result relative\<rparr>
      in if no_leading_slashes result then resolve_noslash r else r)"

definition resolve_path :: "url \<Rightarrow> url \<Rightarrow> jserr + url" where
  "resolve_path result relative =
     (case resolve_pick (rel_is_abs relative) (no_leading_slashes result) (resolve_start result relative) of
        Inl finished \<Rightarrow> set_href finished
      | Inr r \<Rightarrow> resolve_finish (must_end_abs result relative) (no_leading_slashes result) r)"

definition resolveObject :: "url \<Rightarrow> url \<Rightarrow> jserr + url" where
  "resolveObject this relative =
     (let result = this\<lparr>u_hash := u_hash relative\<rparr> in
      if u_href relative = Some [] then set_href result
      else if u_slashes relative \<and> \<not> truthy (u_protocol relative) then resolve_slashes result relative
      else if truthy (u_protocol relative) \<and> u_protocol relative \<noteq> u_protocol result
      then resolve_protocol result relative
      else resolve_path result relative)"

text \<open>What the call does to the object given as the reference.\<close>

definition resolveObject_argument :: "url \<Rightarrow> url \<Rightarrow> url" where
  "resolveObject_argument this relative =
     (let result = this\<lparr>u_hash := u_hash relative\<rparr> in
      if u_href relative = Some [] \<or> (u_slashes relative \<and> \<not> truthy (u_protocol relative)) then relative
      else if truthy (u_protocol relative) \<and> u_protocol relative \<noteq> u_protocol result
      then (if \<not> slashedProtocol (u_protocol relative) then relative else fst (adopt_host relative))
      else r_relative (resolve_start result relative))"

section \<open>The public functions\<close>

text \<open>\<^verbatim>\<open>resolve\<close> of a \<^verbatim>\<open>Url\<close>, \<^verbatim>\<open>urlResolve\<close> and \<^verbatim>\<open>urlResolveObject\<close>.\<close>

definition url_resolve :: "url_env \<Rightarrow> url \<Rightarrow> url_arg \<Rightarrow> jserr + jsstr" where
  "url_resolve env this relative =
     ebind (urlParse env relative False True) (\<lambda>rel. ebind (resolveObject this rel) url_format)"

definition urlResolve :: "url_env \<Rightarrow> url_arg \<Rightarrow> url_arg \<Rightarrow> jserr + jsstr" where
  "urlResolve env source relative =
     ebind (urlParse env source False True) (\<lambda>src. url_resolve env src relative)"

definition url_resolveObject :: "url_env \<Rightarrow> url \<Rightarrow> jsstr + url \<Rightarrow> jserr + url" where
  "url_resolveObject env this relative =
     (case relative of
        Inl s \<Rightarrow> ebind (url_parse env s False True) (resolveObject this)
      | Inr rel \<Rightarrow> resolveObject this rel)"

definition falsy_arg :: "url_arg \<Rightarrow> bool" where
  "falsy_arg a \<longleftrightarrow>
     a \<in> {UStr [], UOther JUndef, UOther JNull, UOther (JBool False), UOther (JNum (Fin 0)),
          UOther (JNum NotANumber)}"

definition urlResolveObject :: "url_env \<Rightarrow> url_arg \<Rightarrow> jsstr + url \<Rightarrow> jserr + (jsstr + url)" where
  "urlResolveObject env source relative =
     (if falsy_arg source then Inr relative
      else ebind (urlParse env source False True)
             (\<lambda>src. ebind (url_resolveObject env src relative) (\<lambda>u. Inr (Inr u))))"

text \<open>The \<^verbatim>\<open>URL\<close> constructor: the parsed URL, and the user name and password, which stay empty.\<close>

definition or_string :: "jsstr option \<Rightarrow> jsstr option" where
  "or_string x = Some (or_empty x)"

definition new_URL :: "url_env \<Rightarrow> jsstr \<Rightarrow> jsstr option \<Rightarrow> jserr + (url \<times> jsstr \<times> jsstr)" where
  "new_URL env url urlIfBase =
     ebind (if truthy urlIfBase then urlResolve env (UStr (or_empty urlIfBase)) (UStr url) else Inr url)
       (\<lambda>text. ebind (url_parse env text False True) (\<lambda>u.
          Inr (u\<lparr>u_search := or_string (u_search u), u_hash := or_string (u_hash u),
                 u_pathname := or_string (u_pathname u)\<rparr>, [], [])))"

end
