(* ===== verification/Url_Trim.thy ===== *)
theory Url_Trim
  imports Url_Resolve
begin

text \<open>
  The first loop of the URL parser trims the text and turns the backslashes before the query
  into slashes, in one pass over the characters.
\<close>

section \<open>The specification\<close>

definition strip :: "jsstr \<Rightarrow> jsstr" where
  "strip s = rev (dropWhile isWs (rev (dropWhile isWs s)))"

definition split_char :: "nat \<Rightarrow> bool" where
  "split_char c \<longleftrightarrow> c = CHAR_HASH \<or> c = CHAR_QUESTION_MARK"

fun to_slashes :: "jsstr \<Rightarrow> jsstr" where
  "to_slashes [] = []"
| "to_slashes (c # r) =
     (if split_char c then c # r
      else (if c = CHAR_BACKWARD_SLASH then CHAR_FORWARD_SLASH else c) # to_slashes r)"

lemma length_to_slashes [simp]: "length (to_slashes s) = length s"
  by (induction s) auto

lemma to_slashes_take: "to_slashes (take k s) = take k (to_slashes s)"
  by (induction s arbitrary: k) (auto simp: take_Cons split: nat.split)

lemma to_slashes_snoc:
  "to_slashes (s @ [c]) = to_slashes s @
     [if \<not> list_ex split_char s \<and> \<not> split_char c \<and> c = CHAR_BACKWARD_SLASH then CHAR_FORWARD_SLASH else c]"
  by (induction s) auto

lemma strip_core:
  assumes "s = u @ core @ w" "list_all isWs u" "list_all isWs w" "core \<noteq> []"
    "\<not> isWs (hd core)" "\<not> isWs (last core)"
  shows "strip s = core"
proof -
  have "dropWhile isWs s = core @ w"
    using assms(1,2,4,5) by (cases core) (auto simp: dropWhile_append list_all_iff)
  moreover have "dropWhile isWs (rev w @ rev core) = rev core"
    using assms(3,4,6) by (cases core rule: rev_cases) (auto simp: dropWhile_append list_all_iff)
  ultimately show ?thesis by (simp add: strip_def)
qed

lemma strip_blank:
  assumes "list_all isWs s"
  shows "strip s = []"
proof -
  have "dropWhile isWs s = []" using assms by (induction s) auto
  then show ?thesis unfolding strip_def by (simp only: rev.simps dropWhile.simps)
qed

section \<open>The loop\<close>

text \<open>Where the trimmed text ends, as far as the loop has read.\<close>

definition core_end :: "nat \<Rightarrow> trim_state \<Rightarrow> nat" where
  "core_end n st = (case t_end st of None \<Rightarrow> n | Some e \<Rightarrow> e)"

definition trim_inv :: "jsstr \<Rightarrow> nat \<Rightarrow> trim_state \<Rightarrow> bool" where
  "trim_inv url n st \<longleftrightarrow>
     (case t_start st of
        None \<Rightarrow> st = trim_init \<and> list_all isWs (take n url)
      | Some a \<Rightarrow>
          a < core_end n st \<and> core_end n st \<le> n \<and> (t_inWs st \<longleftrightarrow> t_end st \<noteq> None) \<and>
          list_all isWs (take a url) \<and> list_all isWs (slice url (core_end n st) n) \<and>
          \<not> isWs (url ! a) \<and> \<not> isWs (url ! (core_end n st - 1)) \<and>
          a \<le> t_lastPos st \<and> t_lastPos st \<le> core_end n st \<and> (t_lastPos st = a \<longrightarrow> t_rest st = []) \<and>
          t_rest st @ slice url (t_lastPos st) n = to_slashes (slice url a n) \<and>
          (t_split st \<longleftrightarrow> list_ex split_char (slice url a n)) \<and>
          (t_hasHash st \<longleftrightarrow> CHAR_HASH \<in> set (slice url a n)))"

lemma isWs_not_special: "isWs c \<Longrightarrow> \<not> split_char c \<and> c \<noteq> CHAR_BACKWARD_SLASH \<and> c \<noteq> CHAR_HASH"
  by (auto simp: isWs_def split_char_def)

text \<open>The second part of an iteration, on its own.\<close>

lemma trim_split_keeps [simp]:
  "t_start (trim_split url i code st) = t_start st"
  "t_end (trim_split url i code st) = t_end st"
  "t_inWs (trim_split url i code st) = t_inWs st"
  by (simp_all add: trim_split_def)

lemma trim_split_fields:
  assumes "t_start st = Some a" "n < length url" "a \<le> t_lastPos st" "t_lastPos st \<le> n"
    "t_rest st @ slice url (t_lastPos st) n = to_slashes (slice url a n)"
    "t_lastPos st = a \<longrightarrow> t_rest st = []"
    "t_split st \<longleftrightarrow> list_ex split_char (slice url a n)"
    "t_hasHash st \<longleftrightarrow> CHAR_HASH \<in> set (slice url a n)"
  defines "st' \<equiv> trim_split url n (url ! n) st"
  shows "t_rest st' @ slice url (t_lastPos st') (Suc n) = to_slashes (slice url a (Suc n)) \<and>
    a \<le> t_lastPos st' \<and> t_lastPos st' \<le> (if url ! n = CHAR_BACKWARD_SLASH then Suc n else t_lastPos st) \<and>
    (t_lastPos st' = a \<longrightarrow> t_rest st' = []) \<and>
    (t_split st' \<longleftrightarrow> list_ex split_char (slice url a (Suc n))) \<and>
    (t_hasHash st' \<longleftrightarrow> CHAR_HASH \<in> set (slice url a (Suc n)))"
proof -
  let ?c = "url ! n"
  have sa: "slice url a (Suc n) = slice url a n @ [?c]" using assms by (intro slice_Suc) auto
  have sl: "slice url (t_lastPos st) (Suc n) = slice url (t_lastPos st) n @ [?c]"
    using assms by (intro slice_Suc) auto
  have cp: "(if n - t_lastPos st > 0 then t_rest st @ slice url (t_lastPos st) n else t_rest st) =
      t_rest st @ slice url (t_lastPos st) n" by simp
  have conv: "to_slashes (slice url a (Suc n)) = t_rest st @ slice url (t_lastPos st) n @
      [if \<not> t_split st \<and> \<not> split_char ?c \<and> ?c = CHAR_BACKWARD_SLASH then CHAR_FORWARD_SLASH else ?c]"
    unfolding sa to_slashes_snoc assms(7) using assms(5) by simp
  have hash_split: "t_hasHash st \<Longrightarrow> t_split st"
    using assms(7,8) by (auto simp: list_ex_iff split_char_def)
  consider (bsl) "\<not> t_split st" "?c = CHAR_BACKWARD_SLASH" | (same) "t_split st \<or> ?c \<noteq> CHAR_BACKWARD_SLASH"
    by blast
  then show ?thesis
  proof cases
    case bsl
    then have st': "st' = st\<lparr>t_rest := (t_rest st @ slice url (t_lastPos st) n) @ [CHAR_FORWARD_SLASH],
        t_lastPos := n + 1\<rparr>"
      unfolding st'_def trim_split_def cp by simp
    have "\<not> split_char ?c" using bsl by (simp add: split_char_def)
    then show ?thesis
      unfolding conv unfolding st' using bsl assms(3,4,7,8) sa by auto
  next
    case same
    then have keep: "t_rest st' = t_rest st" "t_lastPos st' = t_lastPos st"
      "t_split st' \<longleftrightarrow> t_split st \<or> split_char ?c" "t_hasHash st' \<longleftrightarrow> t_hasHash st \<or> ?c = CHAR_HASH"
      unfolding st'_def trim_split_def split_char_def using hash_split by auto
    then show ?thesis
      unfolding conv unfolding keep sl using same assms(3,4,6,7,8) sa by (auto simp: split_char_def)
  qed
qed

lemma slice_all: "list_all P (slice s a n) \<Longrightarrow> n < length s \<Longrightarrow> P (s ! n) \<Longrightarrow> list_all P (slice s a (Suc n))"
  by (cases "a \<le> n") (simp_all add: slice_Suc)

lemma trim_step_start:
  assumes "trim_inv url n st" "t_start st = None" "n < length url"
  shows "trim_inv url (Suc n) (trim_step url n st)"
proof -
  have st: "st = trim_init" "list_all isWs (take n url)" using assms(1,2) by (auto simp: trim_inv_def)
  show ?thesis
  proof (cases "isWs (url ! n)")
    case True
    then have "trim_step url n st = st" using assms(2) by (simp add: trim_step_def)
    then show ?thesis
      using st True assms(2,3) by (simp add: trim_inv_def take_Suc_conv_app_nth)
  next
    case False
    let ?m = "trim_init\<lparr>t_start := Some n, t_lastPos := n\<rparr>"
    have eq: "trim_step url n st = trim_split url n (url ! n) ?m"
      using False st by (simp add: trim_step_def trim_mark_def trim_init_def)
    have "slice url n n = []" by simp
    note f = trim_split_fields[of ?m n n url] this
    show ?thesis
      unfolding eq using f False st(2) assms(3)
      by (auto simp: trim_inv_def trim_init_def core_end_def split: if_splits)
  qed
qed

lemma trim_step_inside:
  assumes "trim_inv url n st" "t_start st = Some a" "n < length url"
  shows "trim_inv url (Suc n) (trim_step url n st)"
proof -
  let ?c = "url ! n"
  let ?m = "trim_mark n (isWs ?c) st"
  have eq: "trim_step url n st = trim_split url n ?c ?m"
    unfolding trim_step_def Let_def assms(2) by simp
  have inv: "a < core_end n st" "core_end n st \<le> n" "t_inWs st \<longleftrightarrow> t_end st \<noteq> None"
    "list_all isWs (take a url)" "list_all isWs (slice url (core_end n st) n)"
    "\<not> isWs (url ! a)" "\<not> isWs (url ! (core_end n st - 1))"
    "a \<le> t_lastPos st" "t_lastPos st \<le> core_end n st" "t_lastPos st = a \<longrightarrow> t_rest st = []"
    "t_rest st @ slice url (t_lastPos st) n = to_slashes (slice url a n)"
    "t_split st \<longleftrightarrow> list_ex split_char (slice url a n)"
    "t_hasHash st \<longleftrightarrow> CHAR_HASH \<in> set (slice url a n)"
    using assms(1,2) by (simp_all add: trim_inv_def)
  have m: "t_start ?m = Some a" "t_lastPos ?m = t_lastPos st" "t_rest ?m = t_rest st"
    "t_split ?m = t_split st" "t_hasHash ?m = t_hasHash st"
    using assms(2) by (simp_all add: trim_mark_def)
  have lp: "t_lastPos st \<le> n" using inv(2,9) by simp
  note f = trim_split_fields[of ?m a n url, unfolded m, OF refl assms(3) inv(8) lp inv(11,10,12,13)]
  have cend: "t_inWs ?m \<longleftrightarrow> t_end ?m \<noteq> None"
    "core_end (Suc n) ?m = (if isWs ?c then core_end n st else Suc n)"
    using inv(3) assms(2) by (auto simp: trim_mark_def core_end_def)
  have ws: "?c \<noteq> CHAR_BACKWARD_SLASH" if "isWs ?c" using isWs_not_special[OF that] by simp
  have blank: "list_all isWs (slice url (core_end n st) (Suc n))" if "isWs ?c"
    using slice_all[OF inv(5) assms(3) that] .
  have ce: "core_end (Suc n) (trim_split url n ?c ?m) = core_end (Suc n) ?m" by (simp add: core_end_def)
  have last: "t_lastPos (trim_split url n ?c ?m) \<le> core_end (Suc n) ?m"
    using f ws inv(9) lp unfolding cend by (auto split: if_splits)
  show ?thesis
    unfolding eq trim_inv_def ce trim_split_keeps m option.case
    using f last inv(1,2,4,6,7) blank cend by (auto split: if_splits)
qed

lemma trim_loop_inv: "n \<le> length url \<Longrightarrow> trim_inv url n (fold (trim_step url) [0..<n] trim_init)"
proof (induction n)
  case 0
  show ?case by (simp add: trim_inv_def trim_init_def)
next
  case (Suc n)
  let ?st = "fold (trim_step url) [0..<n] trim_init"
  have "trim_inv url (Suc n) (trim_step url n ?st)"
    using Suc trim_step_start[of url n ?st] trim_step_inside[of url n ?st]
    by (cases "t_start ?st") auto
  then show ?case by simp
qed

lemma trim_result:
  "trim_rest url (trim_loop url) = to_slashes (strip url) \<and>
   (t_hasHash (trim_loop url) \<longleftrightarrow> CHAR_HASH \<in> set url)"
proof -
  let ?st = "trim_loop url"
  let ?n = "length url"
  have inv: "trim_inv url ?n ?st" unfolding trim_loop_def by (rule trim_loop_inv) simp
  show ?thesis
  proof (cases "t_start ?st")
    case None
    then have st: "?st = trim_init" "list_all isWs url" using inv by (auto simp: trim_inv_def)
    then have "CHAR_HASH \<notin> set url" by (auto simp: list_all_iff isWs_def)
    then show ?thesis using st strip_blank[OF st(2)] by (simp add: trim_rest_def trim_init_def)
  next
    case (Some a)
    let ?e = "core_end ?n ?st"
    have i: "a < ?e" "?e \<le> ?n" "list_all isWs (take a url)" "list_all isWs (slice url ?e ?n)"
      "\<not> isWs (url ! a)" "\<not> isWs (url ! (?e - 1))" "a \<le> t_lastPos ?st" "t_lastPos ?st \<le> ?e"
      "t_lastPos ?st = a \<longrightarrow> t_rest ?st = []"
      "t_rest ?st @ slice url (t_lastPos ?st) ?n = to_slashes (slice url a ?n)"
      "t_hasHash ?st \<longleftrightarrow> CHAR_HASH \<in> set (slice url a ?n)"
      using inv Some by (simp_all add: trim_inv_def)
    have pre: "url = take a url @ slice url a ?e @ slice url ?e ?n"
      using i(1) take_add[of a "?e - a" url] by (simp add: slice_def) (metis append_take_drop_id append_assoc)
    have ends: "hd (slice url a ?e) = url ! a" "last (slice url a ?e) = url ! (?e - 1)" "slice url a ?e \<noteq> []"
      using i(1,2) by (auto simp: slice_def hd_drop_conv_nth last_conv_nth)
    have strip: "strip url = slice url a ?e"
      using strip_core[OF pre i(3,4) ends(3)] ends i(5,6) by simp
    have len: "length (t_rest ?st) = t_lastPos ?st - a"
      using arg_cong[OF i(10), of length] i(1,2,7,8) by (simp add: length_slice)
    have "to_slashes (slice url a ?e) = take (?e - a) (t_rest ?st @ slice url (t_lastPos ?st) ?n)"
      unfolding i(10) to_slashes_take[symmetric] using i(2) by (simp add: slice_def)
    also have "\<dots> = t_rest ?st @ slice url (t_lastPos ?st) ?e"
      using len i(7,8) by (simp add: slice_def)
    finally have R: "t_rest ?st @ slice url (t_lastPos ?st) ?e = to_slashes (strip url)" using strip by simp
    have "trim_rest url ?st = t_rest ?st @ slice url (t_lastPos ?st) ?e"
    proof (cases "t_lastPos ?st = a")
      case True
      then show ?thesis
        using Some i(9) by (auto simp: trim_rest_def core_end_def sliceFrom_def split: option.split)
    next
      case False
      then show ?thesis
        using Some by (auto simp: trim_rest_def core_end_def sliceFrom_def split: option.split)
    qed
    moreover have "CHAR_HASH \<in> set url \<longleftrightarrow> CHAR_HASH \<in> set (slice url a ?n)"
    proof -
      have "CHAR_HASH \<notin> set (take a url)" using i(3) by (auto simp: list_all_iff isWs_def)
      moreover have "set url = set (take a url) \<union> set (drop a url)"
        by (metis append_take_drop_id set_append)
      ultimately show ?thesis by simp
    qed
    ultimately show ?thesis using R i(11) by simp
  qed
qed

text \<open>
  The text the parser goes on with is its argument without the white space at both ends and
  with every backslash before the first question mark or hash turned into a slash; the loop's
  flag says whether there is a hash.
\<close>

theorem trim_correct:
  "trim_rest url (trim_loop url) = to_slashes (strip url) \<and>
   (t_hasHash (trim_loop url) \<longleftrightarrow> CHAR_HASH \<in> set url)"
  by (rule trim_result)

end
