(* ===== verification/Url_Host.thy ===== *)
theory Url_Host
  imports Url_Trim
begin

text \<open>
  What the URL parser takes for the host name: no character of it can end a host or is one of the
  characters that never stand in a host.
\<close>

section \<open>Safe characters\<close>

definition safe_host_char :: "nat \<Rightarrow> bool" where
  "safe_host_char c \<longleftrightarrow> \<not> host_end_char c \<and> \<not> non_host_char c \<and> c \<noteq> CHAR_AT"

text \<open>
  What is used of the engine's \<^verbatim>\<open>toLowerCase\<close>: a code unit of the result is one of the argument, a
  lower-case ASCII letter, or not ASCII.
\<close>

definition lower_ok :: "(jsstr \<Rightarrow> jsstr) \<Rightarrow> bool" where
  "lower_ok lower \<longleftrightarrow>
     (\<forall>s. \<forall>c\<in>set (lower s). c \<in> set s \<or> (CHAR_LOWERCASE_A \<le> c \<and> c \<le> CHAR_LOWERCASE_Z) \<or> c > 127)"

lemma valid_safe: "valid_host_char c \<Longrightarrow> safe_host_char c"
  by (auto simp: valid_host_char_def isAlpha_def isDigit_def safe_host_char_def host_end_char_def
      non_host_char_def)

lemma lower_safe:
  assumes "lower_ok lower" "list_all safe_host_char s"
  shows "list_all safe_host_char (lower s)"
  unfolding list_all_iff
proof
  fix c assume "c \<in> set (lower s)"
  then consider "c \<in> set s" | "valid_host_char c"
    using assms(1) by (auto simp: lower_ok_def valid_host_char_def isAlpha_def)
  then show "safe_host_char c"
    by cases (use assms(2) valid_safe in \<open>auto simp: list_all_iff\<close>)
qed

lemma toLowerCase_ok: "lower_ok toLowerCase"
  by (auto simp: lower_ok_def toLowerCase_def lowerCode_def)

section \<open>The scan\<close>

definition auth_end :: "nat option \<Rightarrow> nat" where
  "auth_end atSign = (case atSign of None \<Rightarrow> 0 | Some a \<Rightarrow> a + 1)"

lemma host_scan_safe:
  assumes "host_scan r i atSign nonHost = (a, n)" "s = p @ r" "length p = i"
    "auth_end atSign \<le> (case nonHost of None \<Rightarrow> i | Some m \<Rightarrow> m)"
    "list_all safe_host_char (slice s (auth_end atSign) (case nonHost of None \<Rightarrow> i | Some m \<Rightarrow> m))"
  shows "list_all safe_host_char (slice s (auth_end a) (case n of None \<Rightarrow> length s | Some m \<Rightarrow> m))"
  using assms
proof (induction r i atSign nonHost arbitrary: p rule: host_scan.induct)
  case (1 i atSign nonHost)
  then show ?case by auto
next
  case (2 c r i atSign nonHost)
  let ?first = "if nonHost = None then Some i else nonHost"
  have ci: "s ! i = c" "i < length s" using 2(5,6) by (auto simp: nth_append)
  have grow: "list_all safe_host_char (slice s (auth_end atSign) (case nonHost of None \<Rightarrow> i + 1 | Some m \<Rightarrow> m))"
    if "safe_host_char c"
    using 2(7,8) that ci by (auto simp: slice_Suc split: option.splits)
  have mono: "auth_end atSign \<le> (case nonHost of None \<Rightarrow> i + 1 | Some m \<Rightarrow> m)"
    using 2(7) by (auto split: option.splits)
  have first: "(case ?first of None \<Rightarrow> i + 1 | Some m \<Rightarrow> m) = (case nonHost of None \<Rightarrow> i | Some m \<Rightarrow> m)"
    by (auto split: option.splits)
  have s': "s = (p @ [c]) @ r" "length (p @ [c]) = i + 1" using 2(5,6) by auto
  consider (stop) "host_end_char c" | (non) "\<not> host_end_char c" "non_host_char c"
    | (at) "\<not> host_end_char c" "\<not> non_host_char c" "c = CHAR_AT"
    | (plain) "\<not> host_end_char c" "\<not> non_host_char c" "c \<noteq> CHAR_AT" by blast
  then show ?case
  proof cases
    case stop
    then have "a = atSign" "n = ?first" using 2(4) by (auto simp: Let_def)
    then show ?thesis using 2(8) by (auto split: option.splits)
  next
    case non
    then show ?thesis
      using 2(1)[OF refl non _ s', unfolded first] 2(4,7,8) by (simp add: Let_def)
  next
    case at
    have "host_scan r (i + 1) (Some i) None = (a, n)" using 2(4) at by (simp add: Let_def)
    then show ?thesis using 2(2)[OF refl at _ s'] by (simp add: auth_end_def)
  next
    case plain
    then have "safe_host_char c" by (simp add: safe_host_char_def)
    from 2(3)[OF refl plain _ s' mono grow[OF this]] show ?thesis
      using 2(4) plain by (simp add: Let_def)
  qed
qed

lemma set_slice_subset: "set (slice s a b) \<subseteq> set s"
  unfolding slice_def by (metis set_drop_subset set_take_subset subset_trans)

section \<open>The host name\<close>

lemma portPattern_absent: "CHAR_COLON \<notin> set s \<Longrightarrow> portPattern s = None"
  by (simp add: portPattern_def lastIndexOf_absent)

lemma portPattern_last:
  "CHAR_COLON \<notin> set v \<Longrightarrow>
     portPattern (w @ CHAR_COLON # v) = (if list_all isDigit v then Some (CHAR_COLON # v) else None)"
  unfolding portPattern_def lastIndexOf_append Let_def by simp

lemma portPattern_cases:
  obtains "portPattern s = None"
  | w d where "s = w @ CHAR_COLON # d" "list_all isDigit d" "portPattern s = Some (CHAR_COLON # d)"
proof (cases "CHAR_COLON \<in> set s")
  case True
  then obtain w v where "s = w @ CHAR_COLON # v" "CHAR_COLON \<notin> set v" using split_list_last by metis
  then show ?thesis using portPattern_last[of v w] that by (cases "list_all isDigit v") auto
next
  case False
  then show ?thesis by (intro that(1) portPattern_absent)
qed

lemma parseHost_cut:
  assumes "u_host u = Some host" "u_hostname u = None" "u_port u = None"
  shows "\<exists>port. host = or_empty (u_hostname (parseHost u)) @ port \<and>
     (port = [] \<or> port = CHAR_COLON # or_empty (u_port (parseHost u))) \<and>
     list_all isDigit (or_empty (u_port (parseHost u))) \<and> u_port (parseHost u) \<noteq> Some []"
proof (cases rule: portPattern_cases[of host])
  case 1
  then show ?thesis using assms by (auto simp: parseHost_def or_empty_def)
next
  case (2 w d)
  then show ?thesis
    using assms by (cases "d = []"; cases "w = []") (auto simp: parseHost_def or_empty_def sliceFrom_def)
qed

text \<open>
  \<^verbatim>\<open>parseHost\<close> cuts the host, without loss, into the host name and the port: nothing, a colon, or
  a colon and digits, and \<^verbatim>\<open>port\<close> is the digits when there are any.
\<close>

theorem parseHost_split:
  assumes "u_host u = Some host" "u_hostname u = None" "u_port u = None"
  shows "\<exists>port. host = or_empty (u_hostname (parseHost u)) @ port \<and>
     (port = [] \<or> port = CHAR_COLON # or_empty (u_port (parseHost u))) \<and>
     list_all isDigit (or_empty (u_port (parseHost u))) \<and> u_port (parseHost u) \<noteq> Some []"
  using assms by (rule parseHost_cut)

theorem parseHost_split_witness:
  "let u = parseHost (new_Url\<lparr>u_host := Some (js ''[::1]:8080'')\<rparr>)
   in js ''[::1]:8080'' = or_empty (u_hostname u) @ CHAR_COLON # or_empty (u_port u) \<and>
      list_all isDigit (or_empty (u_port u))"
proof -
  let ?u = "new_Url\<lparr>u_host := Some (js ''[::1]:8080'')\<rparr>"
  have "u_host ?u = Some (js ''[::1]:8080'')" "u_hostname ?u = None" "u_port ?u = None"
    by (simp_all add: new_Url_def)
  from parseHost_split[OF this] have "list_all isDigit (or_empty (u_port (parseHost ?u)))" by blast
  moreover have "js ''[::1]:8080'' = or_empty (u_hostname (parseHost ?u)) @ CHAR_COLON # or_empty (u_port (parseHost ?u))"
    by code_simp
  ultimately show ?thesis by (simp only: Let_def)
qed

lemma validateHostname_prefix:
  assumes "validateHostname rest name = Some (name', rest')"
  shows "list_all valid_host_char name' \<and> name' @ drop (length name') name = name \<and>
    rest' = CHAR_FORWARD_SLASH # drop (length name') name @ rest"
proof -
  let ?i = "scanWhile valid_host_char name 0"
  have eq: "name' = take ?i name" "?i < length name" "rest' = CHAR_FORWARD_SLASH # drop ?i name @ rest"
    using assms by (auto simp: validateHostname_def Let_def sliceFrom_def split: if_splits)
  have "valid_host_char (name ! k)" if "k < ?i" for k
    using scanWhile_holds[of 0 k valid_host_char name] that by simp
  then show ?thesis using eq by (auto simp: list_all_length)
qed

lemma validateHostname_None:
  assumes "validateHostname rest name = None"
  shows "list_all valid_host_char name"
proof -
  have "scanWhile valid_host_char name 0 \<ge> length name"
    using assms by (auto simp: validateHostname_def Let_def split: if_splits)
  then show ?thesis using scanWhile_holds[of 0 _ valid_host_char name] by (auto simp: list_all_length)
qed

lemma parse_hostname_safe:
  assumes "lower_ok (ue_lower env)" "list_all safe_host_char host"
    "u_host u0 = Some host" "u_hostname u0 = None" "u_port u0 = None"
    "parse_hostname env rest u0 = (u, rest')"
  shows "\<exists>h. u_hostname u = Some h \<and> list_all safe_host_char h"
proof -
  let ?hn = "or_empty (u_hostname (parseHost u0))"
  have "\<exists>port. host = ?hn @ port" using parseHost_cut[OF assms(3-5)] by blast
  then have hn: "list_all safe_host_char ?hn" using assms(2) by auto
  have low: "list_all safe_host_char (if length t > hostnameMaxLen then [] else ue_lower env t)"
    if "list_all safe_host_char t" for t
    using lower_safe[OF assms(1) that] by simp
  have vsafe: "list_all safe_host_char t" if "list_all valid_host_char t" for t
    using that valid_safe by (auto simp: list_all_iff)
  have sub: "list_all safe_host_char (slice t 1 k)" if "list_all safe_host_char t" for t k
    using that set_slice_subset[of t 1 k] by (auto simp: list_all_iff)
  show ?thesis
  proof (cases "ipv6_name ?hn")
    case True
    then have "u_hostname u = Some (let n = if length ?hn > hostnameMaxLen then [] else ue_lower env ?hn
        in slice n 1 (length n - 1))"
      using assms(6) by (auto simp: parse_hostname_def Let_def)
    then show ?thesis using sub[OF low[OF hn]] by (simp add: Let_def)
  next
    case False
    obtain name rest1 where nr: "(case validateHostname rest ?hn of Some r \<Rightarrow> r | None \<Rightarrow> (?hn, rest)) = (name, rest1)"
      by force
    have "list_all valid_host_char name"
      using nr validateHostname_None[of rest ?hn] validateHostname_prefix[of rest ?hn]
      by (auto split: option.splits)
    moreover have "u_hostname u = Some (if length name > hostnameMaxLen then [] else ue_lower env name)"
      using assms(6) False nr by (auto simp: parse_hostname_def Let_def toASCII_def)
    ultimately show ?thesis using low[OF vsafe] by simp
  qed
qed

lemma parse_authority_safe:
  assumes "lower_ok (ue_lower env)" "u_hostname u0 = None" "u_port u0 = None"
    "parse_authority env rest u0 = Inr (u, rest')"
  shows "\<exists>h. u_hostname u = Some h \<and> list_all safe_host_char h"
proof -
  obtain a n where scan: "host_scan rest 0 None None = (a, n)" by force
  have safe: "list_all safe_host_char (slice rest (auth_end a) (case n of None \<Rightarrow> length rest | Some m \<Rightarrow> m))"
    using host_scan_safe[OF scan, of rest "[]"] by (simp add: auth_end_def)
  obtain u1 where u1: "(case a of None \<Rightarrow> Inr u0
        | Some k \<Rightarrow> ebind (decodeURIComponent (slice rest 0 k)) (\<lambda>d. Inr (u0\<lparr>u_auth := Some d\<rparr>))) = Inr u1"
    "(case n of None \<Rightarrow> parse_hostname env [] (u1\<lparr>u_host := Some (sliceFrom rest (auth_end a))\<rparr>)
      | Some m \<Rightarrow> parse_hostname env (sliceFrom rest m) (u1\<lparr>u_host := Some (slice rest (auth_end a) m)\<rparr>)) = (u, rest')"
    using assms(4) unfolding parse_authority_def scan auth_end_def Let_def prod.case ebind_Inr_iff sum.inject
    by blast
  have u1': "u_hostname u1 = None" "u_port u1 = None"
    using u1(1) assms(2,3) by (auto simp: ebind_Inr_iff split: option.splits)
  show ?thesis
  proof (cases n)
    case None
    then show ?thesis
      using parse_hostname_safe[OF assms(1), of "sliceFrom rest (auth_end a)"
          "u1\<lparr>u_host := Some (sliceFrom rest (auth_end a))\<rparr>"] u1(2) u1' safe None
      by (simp add: sliceFrom_def)
  next
    case (Some m)
    then show ?thesis
      using parse_hostname_safe[OF assms(1), of "slice rest (auth_end a) m"
          "u1\<lparr>u_host := Some (slice rest (auth_end a) m)\<rparr>"] u1(2) u1' safe Some by simp
  qed
qed

lemma later_hostname [simp]:
  "u_hostname (parse_tail env q rest u) = u_hostname u"
  "u_hostname (parse_path u) = u_hostname u"
  "set_href u = Inr u' \<Longrightarrow> u_hostname u' = u_hostname u"
  by (auto simp: parse_tail_def parse_path_def set_href_def ebind_Inr_iff Let_def split: option.split prod.split)

text \<open>The host name of the result comes from the authority, or there is none.\<close>

lemma parse_full_hostname:
  assumes "parse_full env q d rest u0 = Inr u" "u_hostname u0 = None" "u_port u0 = None"
  obtains "u_hostname u = None"
  | rest2 u2 u3 rest3 where "parse_authority env rest2 u2 = Inr (u3, rest3)"
      "u_hostname u2 = None" "u_port u2 = None" "u_hostname u = u_hostname u3"
proof -
  obtain rest2 u2 u3 rest3 b where r:
    "(if b then parse_authority env rest2 u2 else Inr (u2, rest2)) = Inr (u3, rest3)"
    "u_hostname u2 = None" "u_port u2 = None" "u_hostname u = u_hostname u3"
    using assms unfolding parse_full_def Let_def ebind_Inr_iff
    by (auto split: option.splits)
  show ?thesis
  proof (cases b)
    case True
    then show ?thesis using r that(2) by simp
  next
    case False
    then show ?thesis using r that(1) by simp
  qed
qed

text \<open>
  C8. No host name the parser returns, for any text and options, contains a slash, a question
  mark, a hash, an \<^verbatim>\<open>@\<close>, a backslash, a blank, a quote or another character that never stands in a
  host.
\<close>

theorem hostname_safe:
  assumes "lower_ok (ue_lower env)" "urlParse env (UStr s) q d = Inr u" "u_hostname u = Some h"
  shows "list_all safe_host_char h"
proof -
  have new: "u_hostname new_Url = None" "u_port new_Url = None" by (simp_all add: new_Url_def)
  obtain rest where full: "parse_full env q d rest new_Url = Inr u"
    using assms(2,3) new
    by (auto simp: urlParse_def url_parse_def parse_simple_def Let_def split: option.splits if_splits)
  show ?thesis
  proof (cases rule: parse_full_hostname[OF full new])
    case 1
    then show ?thesis using assms(3) by simp
  next
    case (2 rest2 u2 u3 rest3)
    then show ?thesis using parse_authority_safe[OF assms(1) 2(2,3,1)] assms(3) by auto
  qed
qed

definition ascii_env :: url_env where
  "ascii_env = \<lparr>ue_lower = toLowerCase, ue_buffer = \<lparr>bufToString = (\<lambda>b. b), bufUninit = (\<lambda>_. 0)\<rparr>\<rparr>"

text \<open>An example, step by step.\<close>

definition ex_text :: jsstr where
  "ex_text = js ''http://Ex.com:80/a?b''"

definition ex_authority :: url where
  "ex_authority = new_Url\<lparr>u_protocol := Some (js ''http:''), u_slashes := True,
     u_host := Some (js ''ex.com:80''), u_port := Some (js ''80''), u_hostname := Some (js ''ex.com'')\<rparr>"

definition ex_url :: url where
  "ex_url = ex_authority\<lparr>u_search := Some (js ''?b''), u_query := QString (js ''b''),
     u_pathname := Some (js ''/a''), u_path := Some (js ''/a?b''), u_href := Some (js ''http://ex.com:80/a?b'')\<rparr>"

lemma ex_trim: "trim_rest ex_text (trim_loop ex_text) = ex_text" "\<not> t_hasHash (trim_loop ex_text)"
  unfolding trim_result[THEN conjunct1] trim_result[THEN conjunct2]
  by (simp_all add: ex_text_def strip_def isWs_def split_char_def)

lemma ex_full:
  "parse_authority ascii_env (js ''Ex.com:80/a?b'') (new_Url\<lparr>u_protocol := Some (js ''http:''), u_slashes := True\<rparr>) =
     Inr (ex_authority, js ''/a?b'')"
  "set_href (parse_path (parse_tail ascii_env False (autoEscapeStr (js ''/a?b'')) ex_authority)) = Inr ex_url"
  "protocolPattern ex_text = Some (js ''http:'')" "sliceFrom ex_text 5 = js ''//Ex.com:80/a?b''"
  "toLowerCase (js ''http:'') = js ''http:''" "sliceFrom (js ''//Ex.com:80/a?b'') 2 = js ''Ex.com:80/a?b''"
  "hostlessProtocol (Some (js ''http:'')) = False" "unsafeProtocol (Some (js ''http:'')) = False"
  "length (js ''http:'') = 5"
  by code_simp+

lemma ex_slashes: "parse_slashes d (Some (js ''http:'')) (js ''//Ex.com:80/a?b'') = True"
  by (simp add: parse_slashes_def)

lemma ex_parse: "urlParse ascii_env (UStr ex_text) False d = Inr ex_url"
proof -
  have "simplePath ex_text = None" by (simp add: simplePath_def ex_text_def)
  then have "urlParse ascii_env (UStr ex_text) False d = parse_full ascii_env False d ex_text new_Url"
    by (simp add: urlParse_def url_parse_def ex_trim)
  also have "\<dots> = Inr ex_url"
    unfolding parse_full_def Let_def ex_full ex_slashes option.case option.map if_True if_False simp_thms ebind.simps prod.case
    by simp
  finally show ?thesis .
qed

theorem hostname_safe_witness: "list_all safe_host_char (js ''ex.com'')"
proof -
  have "u_hostname ex_url = Some (js ''ex.com'')" by (simp add: ex_url_def ex_authority_def)
  then show ?thesis
    using hostname_safe[OF _ ex_parse] toLowerCase_ok by (simp add: ascii_env_def)
qed

end
