(* ===== verification/Url_Props.thy ===== *)
theory Url_Props
  imports Url_Host
begin

text \<open>The properties of the URL parser.\<close>

section \<open>Escaping\<close>

text \<open>A character with its replacement, and the loops that copy in slices.\<close>

definition esc :: "(nat \<Rightarrow> jsstr) \<Rightarrow> nat \<Rightarrow> jsstr" where
  "esc code c = (if code c \<noteq> [] then code c else [c])"

lemma fold_upt_Suc: "fold f [0..<Suc n] x = f n (fold f [0..<n] x)"
  by simp

lemma escape_loop_inv:
  "n \<le> length s \<Longrightarrow> (case fold (escape_step code s) [0..<n] ([], 0) of (out, pos) \<Rightarrow>
     pos \<le> n \<and> (pos = 0 \<longrightarrow> out = []) \<and> out @ slice s pos n = concat (map (esc code) (take n s)))"
proof (induction n)
  case (Suc n)
  obtain out pos where st: "fold (escape_step code s) [0..<n] ([], 0) = (out, pos)" by force
  then have IH: "pos \<le> n" "pos = 0 \<longrightarrow> out = []" "out @ slice s pos n = concat (map (esc code) (take n s))"
    using Suc by auto
  have t: "concat (map (esc code) (take (Suc n) s)) = concat (map (esc code) (take n s)) @ esc code (s ! n)"
    using Suc.prems by (simp add: take_Suc_conv_app_nth)
  have sl: "slice s pos (Suc n) = slice s pos n @ [s ! n]" using IH(1) Suc.prems by (intro slice_Suc) auto
  have e: "(if pos < n then out @ slice s pos n else out) = out @ slice s pos n" by simp
  show ?case
  proof (cases "code (s ! n) = []")
    case True
    have "escape_step code s n (out, pos) = (out, pos)" by (simp add: escape_step_def True)
    then show ?thesis
      unfolding fold_upt_Suc st t using IH sl by (simp add: esc_def True flip: IH(3))
  next
    case False
    have "escape_step code s n (out, pos) = ((out @ slice s pos n) @ code (s ! n), n + 1)"
      unfolding escape_step_def using False e by simp
    then show ?thesis
      unfolding fold_upt_Suc st t using IH(3) by (simp add: esc_def False)
  qed
qed simp

lemma escape_loop_result:
  "escape_loop code s = (out, pos) \<Longrightarrow>
     pos \<le> length s \<and> (pos = 0 \<longrightarrow> out = []) \<and> out @ sliceFrom s pos = concat (map (esc code) s)"
  using escape_loop_inv[of "length s" s code]
  by (auto simp: escape_loop_def sliceFrom_def)

lemma format_pathname_eq: "format_pathname s = concat (map (esc pathCode) s)"
  using escape_loop_result[of pathCode s]
  by (cases "escape_loop pathCode s") (auto simp: format_pathname_def sliceFrom_def)

lemma autoEscapeStr_eq: "autoEscapeStr s = concat (map (esc escapedCode) s)"
  using escape_loop_result[of escapedCode s]
  by (cases "escape_loop escapedCode s") (auto simp: autoEscapeStr_def sliceFrom_def)

text \<open>
  \<^verbatim>\<open>autoEscapeStr\<close> replaces each delimiter by its percent escape and keeps every other character;
  the result has no blank, control, quote, bracket or backslash character of the table left, and
  escaping again changes nothing.
\<close>

theorem autoEscapeStr_spec:
  "autoEscapeStr s = concat (map (\<lambda>c. if escapedCode c \<noteq> [] then escapedCode c else [c]) s) \<and>
   list_all (\<lambda>c. escapedCode c = []) (autoEscapeStr s) \<and>
   autoEscapeStr (autoEscapeStr s) = autoEscapeStr s"
proof (intro conjI)
  show "autoEscapeStr s = concat (map (\<lambda>c. if escapedCode c \<noteq> [] then escapedCode c else [c]) s)"
    unfolding autoEscapeStr_eq esc_def ..
  have "list_all (\<lambda>c. escapedCode c = []) (esc escapedCode c)" for c
    by (auto simp: esc_def escapedCode_def)
  then show clean: "list_all (\<lambda>c. escapedCode c = []) (autoEscapeStr s)"
    unfolding autoEscapeStr_eq by (induction s) auto
  have "concat (map (esc escapedCode) t) = t" if "list_all (\<lambda>c. escapedCode c = []) t" for t
    using that by (induction t) (auto simp: esc_def)
  then show "autoEscapeStr (autoEscapeStr s) = autoEscapeStr s"
    using clean unfolding autoEscapeStr_eq[of "autoEscapeStr s"] by blast
qed

section \<open>Path, search and hash\<close>

lemma question_hash_eq:
  "question_hash r i q =
     (if q \<noteq> None then q
      else if CHAR_QUESTION_MARK \<in> set (takeWhile (\<lambda>c. c \<noteq> CHAR_HASH) r)
      then Some (i + length (takeWhile (\<lambda>c. c \<noteq> CHAR_QUESTION_MARK) r)) else None,
      if CHAR_HASH \<in> set r then Some (i + length (takeWhile (\<lambda>c. c \<noteq> CHAR_HASH) r)) else None)"
  by (induction r i q rule: question_hash.induct) auto

text \<open>A text is cut at its first hash, and what comes before it at its first question mark.\<close>

lemma cut_first:
  obtains "c \<notin> set s" | a b where "s = a @ c # b" "c \<notin> set a"
  using split_list_first[of c s] by blast

lemma takeWhile_cut: "c \<notin> set a \<Longrightarrow> takeWhile (\<lambda>x. x \<noteq> c) (a @ c # b) = a"
  by (induction a) auto

lemma takeWhile_absent: "c \<notin> set a \<Longrightarrow> takeWhile (\<lambda>x. x \<noteq> c) a = a"
  by (induction a) auto

lemma takeWhile_cut2:
  "c \<notin> set a \<Longrightarrow> d \<notin> set a \<Longrightarrow> d \<notin> set b \<Longrightarrow> c \<noteq> d \<Longrightarrow> takeWhile (\<lambda>x. x \<noteq> d) (a @ c # b @ d # e) = a @ c # b"
  by (induction a) (auto simp: takeWhile_cut)

text \<open>What \<^verbatim>\<open>parse\<close> does with the text after the host.\<close>

lemma parse_tail_cases:
  fixes u
  defines "v \<equiv> u\<lparr>u_hash := None, u_search := None, u_pathname := None\<rparr>"
  obtains p s h where "rest = p @ s @ h" "CHAR_HASH \<notin> set p" "CHAR_QUESTION_MARK \<notin> set p"
    "CHAR_HASH \<notin> set s" "s = [] \<or> hd s = CHAR_QUESTION_MARK" "h = [] \<or> hd h = CHAR_HASH"
    "u_pathname (parse_tail env b rest v) = (if p = [] then None else Some p)"
    "u_search (parse_tail env b rest v) = (if s = [] then None else Some s)"
    "u_hash (parse_tail env b rest v) = (if h = [] then None else Some h)"
proof -
  obtain t h where th: "rest = t @ h" "CHAR_HASH \<notin> set t" "h = [] \<or> hd h = CHAR_HASH"
    using cut_first[of CHAR_HASH rest] by (metis append_Nil2 list.sel(1))
  obtain p s where ps: "t = p @ s" "CHAR_QUESTION_MARK \<notin> set p" "s = [] \<or> hd s = CHAR_QUESTION_MARK"
    using cut_first[of CHAR_QUESTION_MARK t] by (metis append_Nil2 list.sel(1))
  have q: "question_hash rest 0 None =
      (if s = [] then None else Some (length p), if h = [] then None else Some (length t))"
  proof -
    have h1: "CHAR_HASH \<in> set rest \<longleftrightarrow> h \<noteq> []"
      using th by (cases h) auto
    have h2: "takeWhile (\<lambda>c. c \<noteq> CHAR_HASH) rest = t"
      using th by (cases h) (auto simp: takeWhile_cut takeWhile_absent)
    have h3: "CHAR_QUESTION_MARK \<in> set t \<longleftrightarrow> s \<noteq> []"
      using ps by (cases s) auto
    have h4: "s \<noteq> [] \<Longrightarrow> takeWhile (\<lambda>c. c \<noteq> CHAR_QUESTION_MARK) rest = p"
      using ps th by (cases s) (auto simp: takeWhile_cut)
    show ?thesis unfolding question_hash_eq h2 using h1 h3 h4 by simp
  qed
  show ?thesis
  proof (rule that[of p s h])
    show "rest = p @ s @ h" "CHAR_HASH \<notin> set p" "CHAR_QUESTION_MARK \<notin> set p"
      "CHAR_HASH \<notin> set s" "s = [] \<or> hd s = CHAR_QUESTION_MARK" "h = [] \<or> hd h = CHAR_HASH"
      using th ps by auto
    show "u_hash (parse_tail env b rest v) = (if h = [] then None else Some h)"
      unfolding parse_tail_def q using th ps by (auto simp: v_def Let_def sliceFrom_def)
    show "u_search (parse_tail env b rest v) = (if s = [] then None else Some s)"
      unfolding parse_tail_def q using th ps by (auto simp: v_def Let_def slice_def)
    show "u_pathname (parse_tail env b rest v) = (if p = [] then None else Some p)"
      unfolding parse_tail_def q using th ps by (auto simp: v_def Let_def slice_def)
  qed
qed

text \<open>
  The parser cuts the text after the host, without loss, into the path, the search and the hash:
  the path has no question mark and no hash, the search starts with a question mark and has no
  hash, the hash starts with a hash; an empty part is null.
\<close>

theorem parse_tail_split:
  "let v = parse_tail env b rest (u\<lparr>u_hash := None, u_search := None, u_pathname := None\<rparr>)
   in rest = or_empty (u_pathname v) @ or_empty (u_search v) @ or_empty (u_hash v) \<and>
      CHAR_HASH \<notin> set (or_empty (u_pathname v)) \<and> CHAR_QUESTION_MARK \<notin> set (or_empty (u_pathname v)) \<and>
      CHAR_HASH \<notin> set (or_empty (u_search v)) \<and>
      (u_search v = None \<or> charCodeAt (or_empty (u_search v)) 0 = Some CHAR_QUESTION_MARK) \<and>
      (u_hash v = None \<or> charCodeAt (or_empty (u_hash v)) 0 = Some CHAR_HASH)"
  by (rule parse_tail_cases[of rest env b u])
    (auto simp: Let_def or_empty_def charCodeAt_def hd_conv_nth)

section \<open>Plain paths\<close>

lemma isWs_space: "isWs c \<Longrightarrow> isSpaceClass c"
  by (auto simp: isWs_def isSpaceClass_def)

lemma strip_none:
  assumes "list_all (\<lambda>c. \<not> isSpaceClass c) s" "s \<noteq> []"
  shows "strip s = s"
proof -
  have "\<not> isWs c" if "c \<in> set s" for c using assms(1) that isWs_space by (auto simp: list_all_iff)
  then have "\<not> isWs (hd s)" "\<not> isWs (last s)" using assms(2) by simp_all
  then show ?thesis using strip_core[of s "[]" s "[]"] assms(2) by simp
qed

lemma concat_map_id: "(\<And>c. c \<in> set t \<Longrightarrow> f c = [c]) \<Longrightarrow> concat (map f t) = t"
  by (induction t) auto

lemma to_slashes_id: "CHAR_BACKWARD_SLASH \<notin> set s \<Longrightarrow> to_slashes s = s"
  by (induction s) auto

lemma url_format_plain:
  assumes "u_auth u = None" "u_protocol u = None" "u_host u = None" "u_hostname u = None" "\<not> u_slashes u"
    "u_hash u = None" "format_query (u_query u) = Inr []" "format_pathname (or_empty (u_pathname u)) = p"
    "or_empty (u_search u) = x" "x = [] \<or> hd x = CHAR_QUESTION_MARK" "CHAR_HASH \<notin> set x"
  shows "url_format u = Inr (p @ x)"
proof -
  have "concat (map (\<lambda>c. if c = CHAR_HASH then js ''%23'' else [c]) x) = x"
    using assms(11) by (intro concat_map_id) auto
  moreover have "format_search u [] = x"
    using assms(9) by (auto simp: format_search_def truthy_def or_empty_def split: option.splits)
  moreover have "format_slashes u [] [] p = ([], p)"
    using assms(5) by (simp add: format_slashes_def slashedProtocol_def slashed_names_def)
  moreover have "charCodeAt x 0 = Some CHAR_QUESTION_MARK" if "x \<noteq> []"
    using assms(10) that by (simp add: charCodeAt_def hd_conv_nth)
  moreover have "format_auth u = Inr []" "format_protocol u = []" "format_host u [] = []"
    using assms(1-4) by (simp_all add: format_auth_def format_protocol_def format_host_def truthy_def or_empty_def)
  ultimately show ?thesis
    unfolding url_format_def assms(6,7,8) ebind.simps Let_def
    by (cases x) (simp_all add: or_empty_def charCodeAt_def)
qed

text \<open>
  A plain path (one or two slashes first, no white space), without a hash or a backslash, is
  what \<^verbatim>\<open>url.format(url.parse(path))\<close> gives back, whatever its query.
\<close>

theorem simple_path_roundtrip:
  assumes "simplePath s \<noteq> None" "CHAR_HASH \<notin> set s" "CHAR_BACKWARD_SLASH \<notin> set s"
  shows "urlFormat env (UStr s) = Inr s"
proof -
  let ?q = "scanWhile (\<lambda>c. c \<noteq> CHAR_QUESTION_MARK) s 0"
  have "s \<noteq> []" "list_all (\<lambda>c. \<not> isSpaceClass c) s"
    using assms(1) by (auto simp: simplePath_def split: if_splits)
  then have "strip s = s" by (simp add: strip_none)
  then have rest: "trim_rest s (trim_loop s) = s" "\<not> t_hasHash (trim_loop s)"
    using trim_result[of s] assms(2,3) by (simp_all add: to_slashes_id)
  have m: "simplePath s = Some (take ?q s, if ?q < length s then Some (drop ?q s) else None)"
    using assms(1) unfolding simplePath_def Let_def by presburger
  have noq: "s ! k \<noteq> CHAR_QUESTION_MARK" if "k < ?q" for k
    using scanWhile_holds[of 0 k "\<lambda>c. c \<noteq> CHAR_QUESTION_MARK" s] that by simp
  have q63: "?q < length s \<Longrightarrow> s ! ?q = CHAR_QUESTION_MARK"
    using scanWhile_stops[of "\<lambda>c. c \<noteq> CHAR_QUESTION_MARK" s 0] by blast
  have p: "concat (map (esc pathCode) (take ?q s)) = take ?q s"
  proof -
    have "pathCode c = []" if "c \<in> set (take ?q s)" for c
      using that noq assms(2) by (auto simp: pathCode_def in_set_conv_nth)
    then show ?thesis by (intro concat_map_id) (simp add: esc_def)
  qed
  have hq: "CHAR_HASH \<notin> set (drop ?q s)" using assms(2) by (meson in_set_dropD)
  have "url_parse env s False False = Inr (parse_simple env False s (the (simplePath s)) new_Url)"
    using assms(1) by (auto simp: url_parse_def rest)
  then have "urlFormat env (UStr s) = url_format (parse_simple env False s (the (simplePath s)) new_Url)"
    by (simp add: urlFormat_def urlParse_def)
  also have "\<dots> = Inr (take ?q s @ drop ?q s)"
  proof (cases "?q < length s")
    case True
    then have "drop ?q s = CHAR_QUESTION_MARK # drop (Suc ?q) s" using q63 by (metis Cons_nth_drop_Suc)
    then show ?thesis
      unfolding m option.sel using True p hq
      by (intro url_format_plain) (simp_all add: parse_simple_def new_Url_def or_empty_def format_query_def format_pathname_eq)
  next
    case False
    then show ?thesis
      unfolding m option.sel using p
      by (intro url_format_plain) (simp_all add: parse_simple_def new_Url_def or_empty_def format_query_def format_pathname_eq)
  qed
  also have "\<dots> = Inr s" by simp
  finally show ?thesis .
qed

theorem simple_path_roundtrip_witness:
  "urlFormat ascii_env (UStr (js ''//host/a?c?d'')) = Inr (js ''//host/a?c?d'')"
proof -
  have "simplePath (js ''//host/a?c?d'') \<noteq> None"
    by (simp add: simplePath_def isSpaceClass_def charCodeAt_def Let_def)
  then show "urlFormat ascii_env (UStr (js ''//host/a?c?d'')) = Inr (js ''//host/a?c?d'')"
    by (rule simple_path_roundtrip) simp_all
qed

section \<open>The case of the protocol\<close>

text \<open>
  The tables are asked with the protocol as it is written: in upper case \<^verbatim>\<open>http:\<close> is no slashed
  protocol, and the path becomes the host.
\<close>

lemma parse_full_known:
  assumes "protocolPattern rest = Some p" "sliceFrom rest (length p) = r"
    "parse_slashes d (Some p) r = False" "hostlessProtocol (Some p) = False"
    "unsafeProtocol (Some (toLowerCase p)) = False"
  shows "parse_full env q d rest u =
    ebind (if \<not> slashedProtocol (Some p) then parse_authority env r (u\<lparr>u_protocol := Some (toLowerCase p)\<rparr>)
           else Inr (u\<lparr>u_protocol := Some (toLowerCase p)\<rparr>, r))
      (\<lambda>(u3, rest3). set_href (parse_path (parse_tail env q (autoEscapeStr rest3) u3)))"
  unfolding parse_full_def Let_def assms option.case option.map by simp

lemma urlFormat_plain:
  assumes "simplePath s = None" "strip s = s" "CHAR_BACKWARD_SLASH \<notin> set s"
  shows "urlFormat env (UStr s) = ebind (parse_full env False False s new_Url) url_format"
  using assms trim_result[of s] by (simp add: urlFormat_def urlParse_def url_parse_def to_slashes_id)

definition foo_upper :: url where
  "foo_upper = new_Url\<lparr>u_protocol := Some (js ''http:''), u_host := Some (js ''foo''), u_hostname := Some (js ''foo''),
     u_pathname := Some (js ''/''), u_path := Some (js ''/''), u_href := Some (js ''http://foo/'')\<rparr>"

definition foo_lower :: url where
  "foo_lower = new_Url\<lparr>u_protocol := Some (js ''http:''), u_pathname := Some (js ''foo''), u_path := Some (js ''foo''),
     u_href := Some (js ''http:foo'')\<rparr>"

lemma foo_upper_parts:
  "protocolPattern (js ''HTTP:foo'') = Some (js ''HTTP:'')"
  "sliceFrom (js ''HTTP:foo'') (length (js ''HTTP:'')) = js ''foo''"
  "hostlessProtocol (Some (js ''HTTP:'')) = False" "unsafeProtocol (Some (toLowerCase (js ''HTTP:''))) = False"
  "slashedProtocol (Some (js ''HTTP:'')) = False"
  "parse_authority ascii_env (js ''foo'') (new_Url\<lparr>u_protocol := Some (toLowerCase (js ''HTTP:''))\<rparr>) =
     Inr (new_Url\<lparr>u_protocol := Some (js ''http:''), u_host := Some (js ''foo''), u_hostname := Some (js ''foo'')\<rparr>, [])"
  "set_href (parse_path (parse_tail ascii_env False (autoEscapeStr [])
     (new_Url\<lparr>u_protocol := Some (js ''http:''), u_host := Some (js ''foo''), u_hostname := Some (js ''foo'')\<rparr>))) =
     Inr foo_upper"
  "url_format foo_upper = Inr (js ''http://foo/'')"
  by code_simp+

lemma foo_lower_parts:
  "protocolPattern (js ''http:foo'') = Some (js ''http:'')"
  "sliceFrom (js ''http:foo'') (length (js ''http:'')) = js ''foo''"
  "hostlessProtocol (Some (js ''http:'')) = False" "unsafeProtocol (Some (toLowerCase (js ''http:''))) = False"
  "slashedProtocol (Some (js ''http:'')) = True" "toLowerCase (js ''http:'') = js ''http:''"
  "set_href (parse_path (parse_tail ascii_env False (autoEscapeStr (js ''foo''))
     (new_Url\<lparr>u_protocol := Some (js ''http:'')\<rparr>))) = Inr foo_lower"
  "url_format foo_lower = Inr (js ''http:foo'')"
  by code_simp+

text \<open>
  The case of the protocol changes the meaning of a URL: \<^verbatim>\<open>HTTP:foo\<close> is the host \<^verbatim>\<open>foo\<close>, and
  \<^verbatim>\<open>http:foo\<close> is the path \<^verbatim>\<open>foo\<close> without a host.
\<close>

theorem protocol_case_matters:
  "urlFormat ascii_env (UStr (js ''HTTP:foo'')) = Inr (js ''http://foo/'') \<and>
   urlFormat ascii_env (UStr (js ''http:foo'')) = Inr (js ''http:foo'')"
proof
  have plain: "urlFormat ascii_env (UStr s) = ebind (parse_full ascii_env False False s new_Url) url_format"
    if "s \<in> {js ''HTTP:foo'', js ''http:foo''}" for s
    using that by (intro urlFormat_plain) (auto simp: simplePath_def strip_def isWs_def)
  have sl: "parse_slashes False (Some p) (js ''foo'') = False" for p
    by (simp add: parse_slashes_def)
  have "parse_full ascii_env False False (js ''HTTP:foo'') new_Url = Inr foo_upper"
    unfolding parse_full_known[OF foo_upper_parts(1,2) sl foo_upper_parts(3,4)] foo_upper_parts(5)
    by (simp del: js_Cons add: foo_upper_parts(6,7))
  then show "urlFormat ascii_env (UStr (js ''HTTP:foo'')) = Inr (js ''http://foo/'')"
    using foo_upper_parts(8) plain[of "js ''HTTP:foo''"] by (simp del: js_Cons)
  have "parse_full ascii_env False False (js ''http:foo'') new_Url = Inr foo_lower"
    unfolding parse_full_known[OF foo_lower_parts(1,2) sl foo_lower_parts(3,4)] foo_lower_parts(5,6)
    by (simp del: js_Cons add: foo_lower_parts(7))
  then show "urlFormat ascii_env (UStr (js ''http:foo'')) = Inr (js ''http:foo'')"
    using foo_lower_parts(8) plain[of "js ''http:foo''"] by (simp del: js_Cons)
qed

end
