(* ===== verification/Url_Dots.thy ===== *)
theory Url_Dots
  imports Url_Host
begin

text \<open>
  The dot segments of a reference: the loop that splices the segments from the right computes the
  usual resolution with a stack, and no dot segment is left in the path of a resolved URL.
\<close>

section \<open>The loop and its specification\<close>

abbreviation dot :: jsstr where "dot \<equiv> js ''.''"
abbreviation dotdot :: jsstr where "dotdot \<equiv> js ''..''"

text \<open>Resolution from the left: the segments so far (the last one first) and the unmatched \<^verbatim>\<open>..\<close>.\<close>

fun resolve_left :: "jsstr list \<Rightarrow> jsstr list \<Rightarrow> nat \<Rightarrow> jsstr list \<times> nat" where
  "resolve_left [] stack up = (rev stack, up)"
| "resolve_left (s # r) stack up =
     (if s = dot then resolve_left r stack up
      else if s = dotdot then
        (case stack of [] \<Rightarrow> resolve_left r [] (up + 1) | _ # t \<Rightarrow> resolve_left r t up)
      else resolve_left r (s # stack) up)"

text \<open>One segment, from the right.\<close>

definition right_step :: "jsstr \<Rightarrow> jsstr list \<times> nat \<Rightarrow> jsstr list \<times> nat" where
  "right_step s st =
     (case st of (acc, up) \<Rightarrow>
        if s = dot then (acc, up)
        else if s = dotdot then (acc, up + 1)
        else if up > 0 then (acc, up - 1)
        else (s # acc, 0))"

lemma right_step_pair:
  "right_step s (acc, up) =
     (if s = dot then (acc, up) else if s = dotdot then (acc, up + 1)
      else if up > 0 then (acc, up - 1) else (s # acc, 0))"
  by (simp add: right_step_def)

lemma right_step_acc:
  "foldr right_step ys (a, n) = (case foldr right_step ys ([], n) of (b, m) \<Rightarrow> (b @ a, m))"
  by (induction ys) (auto simp: right_step_pair split: prod.splits)

lemma dots_loop_foldr:
  "i \<le> length xs \<Longrightarrow> dots_loop i xs up =
     (case foldr right_step (take i xs) ([], up) of (acc, up') \<Rightarrow> (acc @ drop i xs, up'))"
proof (induction i xs up rule: dots_loop.induct)
  case (2 i xs up)
  have i: "i < length xs" using "2.prems" by simp
  have cut: "spliceOne xs i = take i xs @ drop (Suc i) xs" using i by (rule spliceOne_eq)
  have le: "i \<le> length (spliceOne xs i)" using i by (simp add: cut)
  have t: "take i (spliceOne xs i) = take i xs" "drop i (spliceOne xs i) = drop (Suc i) xs"
    using i by (simp_all add: cut)
  have step: "foldr right_step (take (Suc i) xs) ([], up) = foldr right_step (take i xs) (right_step (xs ! i) ([], up))"
    using i by (simp add: take_Suc_conv_app_nth)
  have dr: "drop i xs = xs ! i # drop (Suc i) xs" using i by (simp add: Cons_nth_drop_Suc)
  consider "xs ! i = dot" | "xs ! i \<noteq> dot" "xs ! i = dotdot"
    | "xs ! i \<noteq> dot" "xs ! i \<noteq> dotdot" "up > 0" | "xs ! i \<noteq> dot" "xs ! i \<noteq> dotdot" "up = 0" by blast
  then show ?case
  proof cases
    case 1
    then have "dots_loop (Suc i) xs up = dots_loop i (spliceOne xs i) up" by (simp del: js_Cons)
    then show ?thesis using 2(1)[OF refl 1 le] 1 unfolding step t by (simp add: right_step_pair del: js_Cons)
  next
    case 2
    then have "dots_loop (Suc i) xs up = dots_loop i (spliceOne xs i) (up + 1)" by (simp del: js_Cons)
    then show ?thesis
      using "2.IH"(2)[OF refl 2 le] 2 unfolding step t by (simp add: right_step_pair del: js_Cons)
  next
    case 3
    then have "dots_loop (Suc i) xs up = dots_loop i (spliceOne xs i) (up - 1)" by (simp del: js_Cons)
    then show ?thesis
      using "2.IH"(3)[OF refl 3 le] 3 unfolding step t by (simp add: right_step_pair del: js_Cons)
  next
    case 4
    then have "dots_loop (Suc i) xs up = dots_loop i xs up" by (simp del: js_Cons)
    then show ?thesis
      using "2.IH"(4)[OF refl] 4 i right_step_acc[of "take i xs" "[xs ! i]" 0] unfolding step dr
      by (auto simp: right_step_pair split: prod.splits simp del: js_Cons)
  qed
qed simp

lemma resolve_left_foldr:
  "resolve_left r stack n =
     (case foldr right_step r ([], 0) of (acc, up) \<Rightarrow> (rev (drop up stack) @ acc, n + (up - length stack)))"
proof (induction r arbitrary: stack n)
  case (Cons s r)
  obtain acc up where f: "foldr right_step r ([], 0) = (acc, up)" by force
  show ?case
    using Cons.IH f by (cases stack; cases up) (auto simp: right_step_pair simp del: js_Cons)
qed simp

text \<open>
  The loop of \<^verbatim>\<open>resolveObject\<close> that splices the segments out from the last one to the first
  computes the resolution from the left: \<^verbatim>\<open>.\<close> does nothing, \<^verbatim>\<open>..\<close> takes the segment before it away,
  and the ones without such a segment are counted.
\<close>

theorem dots_loop_correct: "dots_loop (length xs) xs 0 = resolve_left xs [] 0"
  unfolding dots_loop_foldr[OF order_refl] resolve_left_foldr by (simp split: prod.split)

section \<open>The path of the result\<close>

definition slash_free :: "jsstr list \<Rightarrow> bool" where
  "slash_free xs \<longleftrightarrow> list_all (\<lambda>x. CHAR_FORWARD_SLASH \<notin> set x) xs"

definition dot_free :: "jsstr list \<Rightarrow> bool" where
  "dot_free xs \<longleftrightarrow> list_all (\<lambda>x. x \<noteq> dot \<and> x \<noteq> dotdot) xs"

lemma foldr_right_subset:
  "foldr right_step xs ([], 0) = (acc, up) \<Longrightarrow> set acc \<subseteq> set xs \<and> dot_free acc"
proof (induction xs arbitrary: acc up)
  case (Cons x xs)
  obtain acc' up' where f: "foldr right_step xs ([], 0) = (acc', up')" by force
  with Cons.IH[OF f] Cons.prems show ?case
    by (auto simp: right_step_pair dot_free_def simp del: js_Cons split: if_splits)
qed (simp add: dot_free_def)

lemma foldr_right_last:
  assumes "last xs \<notin> {dot, dotdot}" "xs \<noteq> []" "foldr right_step xs ([], 0) = (acc, up)"
  shows "last xs \<in> set acc"
proof -
  have "xs = butlast xs @ [last xs]" using assms(2) by simp
  then have "foldr right_step xs ([], 0) = foldr right_step (butlast xs) (right_step (last xs) ([], 0))"
    by (metis foldr.simps(1) foldr.simps(2) foldr_append comp_apply id_apply)
  also have "\<dots> = foldr right_step (butlast xs) ([last xs], 0)"
    using assms(1) by (simp add: right_step_pair del: js_Cons)
  finally show ?thesis
    using assms(3) right_step_acc[of "butlast xs" "[last xs]" 0] by (auto split: prod.splits)
qed

text \<open>The segments of an absolute path: first an empty one, at least two, and no dots.\<close>

lemma clean_segments_abs:
  assumes "xs \<noteq> []" "slash_free xs"
    "truthy (u_host result) \<or> truthy (u_host relative) \<or> length xs > 1"
    "segs = clean_segments True d (has_trailing_slash result relative xs) xs"
  shows "segs \<noteq> [] \<and> hd segs = [] \<and> length segs \<ge> 2 \<and> dot_free segs \<and> slash_free segs"
proof -
  let ?t = "has_trailing_slash result relative xs"
  obtain acc up where f: "foldr right_step xs ([], 0) = (acc, up)" by force
  have loop: "dots_loop (length xs) xs 0 = (acc, up)"
    using dots_loop_foldr[of "length xs" xs 0] f by simp
  have acc: "set acc \<subseteq> set xs" "dot_free acc" using foldr_right_subset[OF f] by auto
  define segs2 where "segs2 = (if \<not> first_is acc [] \<and> (acc = [] \<or> charCodeAt (hd acc) 0 \<noteq> Some CHAR_FORWARD_SLASH)
    then [] # acc else acc)"
  have free: "slash_free acc" using acc(1) assms(2) by (auto simp: slash_free_def list_all_iff)
  have "charCodeAt (hd acc) 0 \<noteq> Some CHAR_FORWARD_SLASH" if "acc \<noteq> []"
  proof -
    have "CHAR_FORWARD_SLASH \<notin> set (hd acc)" using free that by (cases acc) (auto simp: slash_free_def)
    then show ?thesis by (cases "hd acc") (auto simp: charCodeAt_def)
  qed
  then have s2: "segs2 \<noteq> []" "hd segs2 = []" "set acc \<subseteq> set segs2" "dot_free segs2" "slash_free segs2"
    using acc(2) free by (auto simp: segs2_def first_is_def dot_free_def slash_free_def split: if_splits)
  have segs: "segs = (if ?t \<and> (joinOn CHAR_FORWARD_SLASH segs2 = [] \<or>
      last (joinOn CHAR_FORWARD_SLASH segs2) \<noteq> CHAR_FORWARD_SLASH) then segs2 @ [[]] else segs2)"
    unfolding assms(4) clean_segments_def loop Let_def prod.case segs2_def by simp
  have two: "2 \<le> length segs"
  proof (cases "length segs2 = 1")
    case True
    then have one: "segs2 = [[]]" using s2(1,2) by (cases segs2) auto
    have ?t
    proof (rule ccontr)
      assume "\<not> ?t"
      then have "last xs \<notin> {dot, dotdot}" "last xs \<noteq> []"
        using assms(3) unfolding has_trailing_slash_def by blast+
      then have "last xs \<in> set segs2" using foldr_right_last[OF _ assms(1) f] s2(3) by blast
      then show False using one \<open>last xs \<noteq> []\<close> by simp
    qed
    then show ?thesis using segs one by simp
  next
    case False
    then have "2 \<le> length segs2" using s2(1) by (cases segs2) (auto simp: Suc_le_eq)
    then show ?thesis using segs by auto
  qed
  show ?thesis
    using s2 two segs by (auto simp: dot_free_def slash_free_def)
qed

lemma split_slash_free: "slash_free (split_slash s)"
  using splitOn_pieces_free[of _ "\<lambda>c. c = CHAR_FORWARD_SLASH" s]
  by (auto simp: slash_free_def split_slash_def list_all_iff)

lemma split_segments: "xs \<noteq> [] \<Longrightarrow> slash_free xs \<Longrightarrow> split_slash (joinOn CHAR_FORWARD_SLASH xs) = xs"
  unfolding split_slash_def
  by (rule splitOn_joinOn) (auto simp: slash_free_def list_all_iff)

lemma set_href_path: "set_href u = Inr u' \<Longrightarrow> u_pathname u' = u_pathname u"
  by (auto simp: set_href_def ebind_Inr_iff)

text \<open>The last part of the resolution, for an absolute path of a URL with slashes.\<close>

lemma resolve_finish_abs:
  assumes "resolve_finish d False r = Inr u" "r_mustEndAbs r" "r_srcPath r \<noteq> []" "slash_free (r_srcPath r)"
    "truthy (u_host (r_result r)) \<or> truthy (u_host (r_relative r)) \<or> length (r_srcPath r) > 1"
  shows "starts_with_slash (u_pathname u) \<and> dot_free (split_slash (or_empty (u_pathname u)))"
proof -
  define segs where "segs = clean_segments True d (has_trailing_slash (r_result r) (r_relative r) (r_srcPath r)) (r_srcPath r)"
  have s: "segs \<noteq> []" "hd segs = []" "length segs \<ge> 2" "dot_free segs" "slash_free segs"
    using clean_segments_abs[OF assms(3-5) segs_def] by auto
  have "u_pathname u = Some (joinOn CHAR_FORWARD_SLASH segs)"
    using assms(1-3) s(1,2) set_href_path
    by (fastforce simp: resolve_finish_def Let_def join_path_def first_is_def simp flip: segs_def split: if_splits)
  moreover have "starts_with_slash (Some (joinOn CHAR_FORWARD_SLASH segs))"
    using s(2,3) by (cases segs; cases "tl segs") (auto simp: starts_with_slash_def or_empty_def charCodeAt_def joinOn_Cons)
  ultimately show ?thesis using s(1,4,5) split_segments[of segs] by (simp add: or_empty_def)
qed

lemma segments_slash_free: "slash_free (path_segments p)"
  by (simp add: path_segments_def split_slash_free) (simp add: slash_free_def)

lemma segments_long: "starts_with_slash p \<Longrightarrow> length (path_segments p) > 1"
  by (cases "or_empty p")
    (auto simp: starts_with_slash_def path_segments_def split_slash_def truthy_def or_empty_def charCodeAt_def Suc_le_eq
      split: option.splits)

lemma segments_nonempty: "truthy p \<Longrightarrow> path_segments p \<noteq> []"
  by (simp add: path_segments_def split_slash_def)

lemma slash_free_append: "slash_free (butlast xs @ ys)" if "slash_free xs" "slash_free ys"
  using that in_set_butlastD[of _ xs] by (auto simp: slash_free_def list_all_iff)

text \<open>
  C21. The path of a reference with a path of its own, resolved against a URL whose protocol has slashes,
  starts with a slash and none of its segments is \<^verbatim>\<open>.\<close> or \<^verbatim>\<open>..\<close>, so that it cannot climb out of the host's
  root.  The reference is not empty, its path is not, it has no protocol or the same one and does not start
  with two slashes (then its path is taken as it is, dot segments included), and the result has to be
  absolute: the reference has a host or starts with a slash, or the base has a host or such a path.
\<close>

theorem resolveObject_no_dots:
  assumes "resolveObject this rel = Inr u" "\<not> no_leading_slashes this" "must_end_abs this rel"
    "truthy (u_pathname rel)" "u_href rel \<noteq> Some []" "\<not> u_slashes rel"
    "u_protocol rel = None \<or> u_protocol rel = u_protocol this"
  shows "starts_with_slash (u_pathname u) \<and> dot_free (split_slash (or_empty (u_pathname u)))"
proof -
  let ?res = "this\<lparr>u_hash := u_hash rel\<rparr>"
  have same: "no_leading_slashes ?res = no_leading_slashes this" "must_end_abs ?res rel = must_end_abs this rel"
    by (simp_all add: no_leading_slashes_def must_end_abs_def)
  have path: "resolve_path ?res rel = Inr u"
    using assms(1,5,6,7) by (auto simp: resolveObject_def Let_def truthy_def)
  define r where "r = resolve_start ?res rel"
  have r: "r_srcPath r = path_segments (u_pathname this)" "r_relPath r = path_segments (u_pathname rel)"
    "r_mustEndAbs r" "u_host (r_result r) = u_host this" "r_relative r = rel"
    using assms(2,3) by (simp_all add: r_def resolve_start_def Let_def same)
  have ne: "r_relPath r \<noteq> []" using r(2) assms(4) segments_nonempty by simp
  note long = segments_long[of "u_pathname rel"] segments_long[of "u_pathname this"]
  show ?thesis
  proof (cases "rel_is_abs rel")
    case True
    then obtain r2 where r2: "resolve_pick True False r = Inr r2" "r_srcPath r2 = r_relPath r"
      "r_relative r2 = rel" "r_mustEndAbs r2"
      using r by (auto simp: resolve_pick_def Let_def)
    have "resolve_finish True False r2 = Inr u"
      using path True r2(1) assms(2,3) by (simp add: resolve_path_def same flip: r_def)
    moreover have "truthy (u_host rel) \<or> length (r_srcPath r2) > 1"
      using True long(1) r2(2) r(2) by (auto simp: rel_is_abs_def)
    ultimately show ?thesis
      using r2 ne r(2) segments_slash_free by (intro resolve_finish_abs) auto
  next
    case False
    then obtain r2 where r2: "resolve_pick False False r = Inr r2" "r_srcPath r2 = butlast (r_srcPath r) @ r_relPath r"
      "r_relative r2 = rel" "r_mustEndAbs r2" "u_host (r_result r2) = u_host this"
      using r ne by (auto simp: resolve_pick_def Let_def)
    have "resolve_finish True False r2 = Inr u"
      using path False r2(1) assms(2,3) by (simp add: resolve_path_def same flip: r_def)
    moreover have "truthy (u_host this) \<or> length (r_srcPath r2) > 1"
    proof (cases "truthy (u_host this)")
      case False
      then have "length (r_srcPath r) > 1" using assms(3) \<open>\<not> rel_is_abs rel\<close> long(2) r(1) by (auto simp: must_end_abs_def)
      then show ?thesis using r2(2) ne by (cases "r_relPath r") auto
    qed simp
    ultimately show ?thesis
      using r2 ne r(1,2) segments_slash_free slash_free_append by (intro resolve_finish_abs) auto
  qed
qed

text \<open>\<^verbatim>\<open>../..\<close> against the example.\<close>

definition up_reference :: url where
  "up_reference = new_Url\<lparr>u_pathname := Some (js ''../../b''), u_path := Some (js ''../../b''),
     u_href := Some (js ''../../b'')\<rparr>"

theorem resolveObject_no_dots_witness:
  "\<exists>u. resolveObject ex_url up_reference = Inr u \<and> u_pathname u = Some (js ''/b'') \<and>
       dot_free (split_slash (or_empty (u_pathname u)))"
proof -
  have "(case resolveObject ex_url up_reference of Inr u \<Rightarrow> u_pathname u | Inl e \<Rightarrow> None) = Some (js ''/b'')"
    by code_simp
  then obtain u where u: "resolveObject ex_url up_reference = Inr u" "u_pathname u = Some (js ''/b'')"
    by (cases "resolveObject ex_url up_reference") (simp_all del: js_Cons)
  have "\<not> no_leading_slashes ex_url" "must_end_abs ex_url up_reference" "truthy (u_pathname up_reference)"
    "u_href up_reference \<noteq> Some []" "\<not> u_slashes up_reference" "u_protocol up_reference = None"
    by code_simp+
  then show ?thesis using resolveObject_no_dots[OF u(1)] u by blast
qed

end
