(* ===== verification/Collections.thy ===== *)
theory Collections
  imports Js_Prelude
begin

text \<open>
  The collections of \<^verbatim>\<open>lib_js/init.js\<close>: \<^verbatim>\<open>Map\<close>, \<^verbatim>\<open>Set\<close>, \<^verbatim>\<open>WeakMap\<close> and \<^verbatim>\<open>WeakSet\<close> as two arrays
  and a list of iteration pointers.  The pointer of an iterator is an array object with one
  element: it has an identity, is shared by the collection and the iterator, and outlives its
  place in the list.  The variable \<^verbatim>\<open>i\<close> all functions share is the index \<open>has_index\<close> returns.
\<close>

section \<open>State\<close>

record collection =
  c_keys :: "jsval list"
  c_values :: "jsval list"
  c_itp :: "nat list"
  c_pos :: "nat \<Rightarrow> nat"
  c_next :: nat
  c_objectOnly :: bool

definition new_collection :: "bool \<Rightarrow> collection" where
  "new_collection objectOnly =
     \<lparr>c_keys = [], c_values = [], c_itp = [], c_pos = (\<lambda>_. 0), c_next = 0, c_objectOnly = objectOnly\<rparr>"

section \<open>Lookup\<close>

text \<open>\<^verbatim>\<open>a === b\<close> and \<^verbatim>\<open>is(a, b)\<close>.\<close>

definition strict_equal :: "jsval \<Rightarrow> jsval \<Rightarrow> bool" where
  "strict_equal a b \<longleftrightarrow> a = b \<and> a \<noteq> JNum NotANumber"

definition same_value :: "jsval \<Rightarrow> jsval \<Rightarrow> bool" where
  "same_value a b \<longleftrightarrow> strict_equal a b \<or> (\<not> strict_equal a a \<and> \<not> strict_equal b b)"

text \<open>\<^verbatim>\<open>for (i = list.length; i-- && !is(list[i], key);) {}\<close>.\<close>

fun scan_back :: "jsval list \<Rightarrow> jsval \<Rightarrow> nat \<Rightarrow> int" where
  "scan_back list key 0 = -1"
| "scan_back list key (Suc i) = (if same_value (list ! i) key then int i else scan_back list key i)"

fun indexOf :: "jsval list \<Rightarrow> jsval \<Rightarrow> int" where
  "indexOf [] key = -1"
| "indexOf (x # xs) key =
     (if strict_equal x key then 0
      else (let i = indexOf xs key in if i = -1 then -1 else i + 1))"

definition isObject :: "jsval \<Rightarrow> bool" where
  "isObject v = (case v of JObj n \<Rightarrow> True | JFun n \<Rightarrow> True | _ \<Rightarrow> False)"

definition has_index :: "collection \<Rightarrow> jsval list \<Rightarrow> jsval \<Rightarrow> jserr + int" where
  "has_index this list key =
     (if c_objectOnly this \<and> \<not> isObject key then Inl TypeError
      else Inr (if \<not> strict_equal key key \<or> strict_equal key (JNum (Fin 0))
                then scan_back list key (length list)
                else indexOf list key))"

definition setHas :: "collection \<Rightarrow> jsval \<Rightarrow> jserr + int" where
  "setHas this value = has_index this (c_values this) value"

definition mapHas :: "collection \<Rightarrow> jsval \<Rightarrow> jserr + int" where
  "mapHas this key = has_index this (c_keys this) key"

section \<open>Updates\<close>

text \<open>\<^verbatim>\<open>xs.splice(i, 1)\<close>: a negative index counts from the end; out of range nothing happens.\<close>

definition splice1 :: "'a list \<Rightarrow> int \<Rightarrow> 'a list" where
  "splice1 xs i =
     (let k = (if i < 0 then nat (max 0 (int (length xs) + i)) else nat i)
      in take k xs @ drop (k + 1) xs)"

text \<open>The result of \<^verbatim>\<open>this.has\<close> is the parameter: a \<^verbatim>\<open>Map\<close> and a \<^verbatim>\<open>Set\<close> have different ones.\<close>

definition sharedDelete :: "(collection \<Rightarrow> jsval \<Rightarrow> jserr + int) \<Rightarrow> jsval \<Rightarrow> collection \<Rightarrow> jserr + (bool \<times> collection)"
where
  "sharedDelete this_has key this =
     ebind (this_has this key) (\<lambda>i.
       Inr (-1 < i,
            if -1 < i then
              this\<lparr>c_keys := splice1 (c_keys this) i, c_values := splice1 (c_values this) i,
                   c_pos := (\<lambda>p. if p \<in> set (c_itp this) \<and> i < int (c_pos this p)
                                 then c_pos this p - 1 else c_pos this p)\<rparr>
            else this))"

definition sharedGet :: "jsval \<Rightarrow> collection \<Rightarrow> jserr + jsval" where
  "sharedGet key this =
     ebind (mapHas this key) (\<lambda>i. Inr (if -1 < i then c_values this ! nat i else JUndef))"

definition sharedSet :: "jsval \<Rightarrow> jsval \<Rightarrow> collection \<Rightarrow> jserr + collection" where
  "sharedSet key value this =
     ebind (mapHas this key) (\<lambda>i.
       Inr (if -1 < i then this\<lparr>c_values := (c_values this)[nat i := value]\<rparr>
            else this\<lparr>c_keys := c_keys this @ [key], c_values := c_values this @ [value]\<rparr>))"

definition sharedAdd :: "jsval \<Rightarrow> collection \<Rightarrow> jserr + collection" where
  "sharedAdd value this =
     ebind (setHas this value) (\<lambda>i.
       Inr (if \<not> -1 < i then this\<lparr>c_values := c_values this @ [value]\<rparr> else this))"

definition sharedClear :: "collection \<Rightarrow> collection" where
  "sharedClear this = this\<lparr>c_keys := [], c_values := []\<rparr>"

definition sharedSize :: "collection \<Rightarrow> nat" where
  "sharedSize this = length (c_values this)"

text \<open>The constructor with an array of pairs or of values.\<close>

fun init_map :: "(jsval \<times> jsval) list \<Rightarrow> collection \<Rightarrow> jserr + collection" where
  "init_map [] this = Inr this"
| "init_map ((k, v) # r) this = ebind (sharedSet k v this) (init_map r)"

fun init_set :: "jsval list \<Rightarrow> collection \<Rightarrow> jserr + collection" where
  "init_set [] this = Inr this"
| "init_set (v # r) this = ebind (sharedAdd v this) (init_set r)"

definition new_Map :: "bool \<Rightarrow> (jsval \<times> jsval) list option \<Rightarrow> jserr + collection" where
  "new_Map objectOnly a =
     (case a of None \<Rightarrow> Inr (new_collection objectOnly) | Some l \<Rightarrow> init_map l (new_collection objectOnly))"

definition new_Set :: "bool \<Rightarrow> jsval list option \<Rightarrow> jserr + collection" where
  "new_Set objectOnly a =
     (case a of None \<Rightarrow> Inr (new_collection objectOnly) | Some l \<Rightarrow> init_set l (new_collection objectOnly))"

section \<open>Iteration\<close>

text \<open>What an iterator walks over: \<^verbatim>\<open>array\<close>, and \<^verbatim>\<open>array2\<close> when there is one.\<close>

datatype walk = Keys | Values | MapEntries | SetEntries

record iterator =
  i_ptr :: nat
  i_done :: bool
  i_walk :: walk

datatype item = One jsval | Pair jsval jsval

definition sharedIterator :: "walk \<Rightarrow> collection \<Rightarrow> iterator \<times> collection" where
  "sharedIterator w this =
     (let p = c_next this
      in (\<lparr>i_ptr = p, i_done = False, i_walk = w\<rparr>,
          this\<lparr>c_pos := (c_pos this)(p := 0), c_itp := c_itp this @ [p], c_next := p + 1\<rparr>))"

definition walk_array :: "walk \<Rightarrow> collection \<Rightarrow> jsval list" where
  "walk_array w this = (case w of Keys \<Rightarrow> c_keys this | MapEntries \<Rightarrow> c_keys this | _ \<Rightarrow> c_values this)"

definition walk_item :: "walk \<Rightarrow> collection \<Rightarrow> nat \<Rightarrow> item" where
  "walk_item w this k =
     (case w of
        Keys \<Rightarrow> One (c_keys this ! k)
      | Values \<Rightarrow> One (c_values this ! k)
      | MapEntries \<Rightarrow> Pair (c_keys this ! k) (c_values this ! k)
      | SetEntries \<Rightarrow> Pair (c_values this ! k) (c_values this ! k))"

text \<open>\<^verbatim>\<open>itp.indexOf(p)\<close>.\<close>

fun ptr_index :: "nat list \<Rightarrow> nat \<Rightarrow> int" where
  "ptr_index [] p = -1"
| "ptr_index (x # xs) p =
     (if x = p then 0 else (let i = ptr_index xs p in if i = -1 then -1 else i + 1))"

text \<open>\<^verbatim>\<open>next\<close>: the item, or none when the iterator is done.\<close>

definition iter_next :: "iterator \<Rightarrow> collection \<Rightarrow> item option \<times> iterator \<times> collection" where
  "iter_next it this =
     (let p = i_ptr it; k = c_pos this p in
      if \<not> i_done it \<and> k < length (walk_array (i_walk it) this)
      then (Some (walk_item (i_walk it) this k), it, this\<lparr>c_pos := (c_pos this)(p := k + 1)\<rparr>)
      else (None, it\<lparr>i_done := True\<rparr>, this\<lparr>c_itp := splice1 (c_itp this) (ptr_index (c_itp this) p)\<rparr>))"

text \<open>
  \<^verbatim>\<open>forEach\<close>: the callback's calls with value and key.  \<open>f\<close> is what the callback does to the
  collection; \<open>None\<close> is out of fuel, because a callback can add items without end.
\<close>

fun forEach_loop ::
  "nat \<Rightarrow> (jsval \<Rightarrow> jsval \<Rightarrow> collection \<Rightarrow> collection) \<Rightarrow> iterator \<Rightarrow> collection \<Rightarrow>
     (jsval \<times> jsval) list \<Rightarrow> ((jsval \<times> jsval) list \<times> collection) option"
where
  "forEach_loop 0 f it this calls = None"
| "forEach_loop (Suc n) f it this calls =
     (case iter_next it this of
        (Some (Pair k v), it', this') \<Rightarrow> forEach_loop n f it' (f v k this') (calls @ [(v, k)])
      | (_, it', this') \<Rightarrow> Some (calls, this'))"

definition sharedForEach ::
  "nat \<Rightarrow> walk \<Rightarrow> (jsval \<Rightarrow> jsval \<Rightarrow> collection \<Rightarrow> collection) \<Rightarrow> collection \<Rightarrow>
     ((jsval \<times> jsval) list \<times> collection) option"
where
  "sharedForEach n entries f this =
     (case sharedIterator entries this of (it, this') \<Rightarrow> forEach_loop n f it this' [])"

section \<open>Lookup is equality\<close>

lemma same_value_eq [simp]: "same_value a b \<longleftrightarrow> a = b"
  by (auto simp: same_value_def strict_equal_def)

lemma scan_back_spec:
  "n \<le> length xs \<Longrightarrow>
     (scan_back xs k n = -1 \<and> k \<notin> set (take n xs)) \<or>
     (\<exists>i<n. scan_back xs k n = int i \<and> xs ! i = k)"
  by (induction n) (auto simp: take_Suc_conv_app_nth less_Suc_eq)

lemma indexOf_spec:
  "k \<noteq> JNum NotANumber \<Longrightarrow>
     (indexOf xs k = -1 \<and> k \<notin> set xs) \<or> (\<exists>i<length xs. indexOf xs k = int i \<and> xs ! i = k)"
proof (induction xs)
  case (Cons x xs)
  show ?case
  proof (cases "x = k")
    case True
    then show ?thesis using Cons.prems by (auto simp: strict_equal_def)
  next
    case False
    then have ne: "indexOf (x # xs) k = (let i = indexOf xs k in if i = -1 then -1 else i + 1)"
      by (simp add: strict_equal_def)
    from Cons show ?thesis unfolding ne using False
      by (auto simp: Let_def)
  qed
qed simp

lemma has_index_spec:
  assumes "has_index this xs k = Inr i"
  shows "(i = -1 \<and> k \<notin> set xs) \<or> (\<exists>j<length xs. i = int j \<and> xs ! j = k)"
proof (cases "k = JNum NotANumber")
  case True
  then show ?thesis using assms scan_back_spec[of "length xs" xs k]
    by (auto simp: has_index_def strict_equal_def split: if_splits)
next
  case False
  then show ?thesis
    using assms scan_back_spec[of "length xs" xs k] indexOf_spec[of k xs]
    by (auto simp: has_index_def strict_equal_def split: if_splits)
qed

lemma splice1_nat [simp]: "splice1 xs (int i) = take i xs @ drop (Suc i) xs"
  by (simp add: splice1_def)

end
