(* ===== verification/Collections_Props.thy ===== *)
theory Collections_Props
  imports Collections
begin

text \<open>
  A \<^verbatim>\<open>Map\<close> behaves as a partial map that remembers the order of insertion, and an iterator sees
  the entries it has not delivered yet, whatever is set or deleted meanwhile.
\<close>

section \<open>Refinement of partial maps\<close>

definition map_inv :: "collection \<Rightarrow> bool" where
  "map_inv m \<longleftrightarrow> distinct (c_keys m) \<and> length (c_keys m) = length (c_values m) \<and> \<not> c_objectOnly m"

definition map_entries :: "collection \<Rightarrow> (jsval \<times> jsval) list" where
  "map_entries m = zip (c_keys m) (c_values m)"

definition map_view :: "collection \<Rightarrow> jsval \<Rightarrow> jsval option" where
  "map_view m = map_of (map_entries m)"

text \<open>The contract of a store of values under keys.\<close>

locale key_store =
  fixes inv :: "'s \<Rightarrow> bool" and view :: "'s \<Rightarrow> 'k \<Rightarrow> 'v option"
    and put :: "'k \<Rightarrow> 'v \<Rightarrow> 's \<Rightarrow> jserr + 's" and del :: "'k \<Rightarrow> 's \<Rightarrow> jserr + (bool \<times> 's)"
  assumes put_ok: "inv s \<Longrightarrow> \<exists>s'. put k v s = Inr s' \<and> inv s' \<and> view s' = (view s)(k \<mapsto> v)"
    and del_ok: "inv s \<Longrightarrow> \<exists>s'. del k s = Inr (view s k \<noteq> None, s') \<and> inv s' \<and> view s' = (view s)(k := None)"
begin

lemma put_put:
  assumes "inv s" "k \<noteq> k'"
  shows "\<exists>s1 s2 t1 t2. put k v s = Inr s1 \<and> put k' v' s1 = Inr s2 \<and> put k' v' s = Inr t1 \<and>
    put k v t1 = Inr t2 \<and> view s2 = view t2"
proof -
  obtain s1 where s1: "put k v s = Inr s1" "inv s1" "view s1 = (view s)(k \<mapsto> v)" using put_ok[OF assms(1)] by blast
  obtain s2 where s2: "put k' v' s1 = Inr s2" "view s2 = (view s1)(k' \<mapsto> v')" using put_ok[OF s1(2)] by blast
  obtain t1 where t1: "put k' v' s = Inr t1" "inv t1" "view t1 = (view s)(k' \<mapsto> v')" using put_ok[OF assms(1)] by blast
  obtain t2 where t2: "put k v t1 = Inr t2" "view t2 = (view t1)(k \<mapsto> v)" using put_ok[OF t1(2)] by blast
  have "view s2 = view t2" using s1 s2 t1 t2 assms(2) by (simp add: fun_upd_twist)
  then show ?thesis using s1 s2 t1 t2 by blast
qed

lemma put_del:
  assumes "inv s" "view s k = None"
  shows "\<exists>s1 s2. put k v s = Inr s1 \<and> del k s1 = Inr (True, s2) \<and> view s2 = view s"
proof -
  obtain s1 where s1: "put k v s = Inr s1" "inv s1" "view s1 = (view s)(k \<mapsto> v)" using put_ok[OF assms(1)] by blast
  then obtain s2 where "del k s1 = Inr (True, s2)" "view s2 = (view s1)(k := None)" using del_ok[OF s1(2), of k] by auto
  then show ?thesis using s1 assms(2) by auto
qed

end

lemma mapHas_cases:
  assumes "map_inv m"
  obtains "mapHas m k = Inr (-1)" "k \<notin> set (c_keys m)"
  | j where "mapHas m k = Inr (int j)" "j < length (c_keys m)" "c_keys m ! j = k"
proof -
  obtain i where i: "mapHas m k = Inr i" using assms by (auto simp: mapHas_def has_index_def map_inv_def)
  then show ?thesis
    using has_index_spec[of m "c_keys m" k i] that by (auto simp: mapHas_def)
qed

lemma map_view_None: "map_inv m \<Longrightarrow> map_view m k = None \<longleftrightarrow> k \<notin> set (c_keys m)"
  by (simp add: map_view_def map_entries_def map_inv_def map_of_eq_None_iff flip: set_map)

lemma map_view_nth: "map_inv m \<Longrightarrow> j < length (c_keys m) \<Longrightarrow> map_view m (c_keys m ! j) = Some (c_values m ! j)"
  by (auto simp: map_view_def map_entries_def map_inv_def map_of_zip_nth)

lemma map_of_zip_update:
  "distinct ks \<Longrightarrow> length ks = length vs \<Longrightarrow> j < length ks \<Longrightarrow>
     map_of (zip ks (vs[j := v])) = (map_of (zip ks vs))(ks ! j \<mapsto> v)"
proof (induction ks vs arbitrary: j rule: list_induct2')
  case (4 k ks x vs)
  then show ?case by (cases j) (auto simp: fun_eq_iff)
qed auto

lemma map_of_zip_snoc:
  "length ks = length vs \<Longrightarrow> k \<notin> set ks \<Longrightarrow>
     map_of (zip (ks @ [k]) (vs @ [v])) = (map_of (zip ks vs))(k \<mapsto> v)"
  by (induction ks vs rule: list_induct2') (auto simp: fun_upd_twist)

lemma zip_splice:
  "length ks = length vs \<Longrightarrow> j < length ks \<Longrightarrow>
     zip (take j ks @ drop (Suc j) ks) (take j vs @ drop (Suc j) vs) =
     take j (zip ks vs) @ drop (Suc j) (zip ks vs)"
  by (simp add: zip_append flip: take_zip drop_zip)

lemma splice_filter:
  "distinct (map fst ps) \<Longrightarrow> j < length ps \<Longrightarrow>
     take j ps @ drop (Suc j) ps = filter (\<lambda>(k, _). k \<noteq> fst (ps ! j)) ps"
proof (induction ps arbitrary: j)
  case (Cons p ps)
  show ?case
  proof (cases j)
    case 0
    have "filter (\<lambda>(k, _). k \<noteq> fst p) ps = ps"
      using Cons.prems(1) by (intro filter_True) (auto simp: image_iff)
    then show ?thesis using 0 by (cases p) simp
  next
    case (Suc i)
    then have "fst p \<noteq> fst (ps ! i)" using Cons.prems by auto
    then show ?thesis using Cons Suc by (simp add: case_prod_beta)
  qed
qed simp

lemma map_fst_filter: "map fst (filter (\<lambda>(x, _). x \<noteq> k) ps) = filter (\<lambda>x. x \<noteq> k) (map fst ps)"
  by (induction ps) auto

lemma map_of_filter_ne: "map_of (filter (\<lambda>(k, _). k \<noteq> x) ps) = (map_of ps)(x := None)"
  by (induction ps) (auto simp: fun_eq_iff)

lemma in_drop_nth:
  assumes "x \<in> set (drop n xs)"
  obtains i where "n \<le> i" "i < length xs" "x = xs ! i"
proof -
  obtain i where "i < length (drop n xs)" "x = drop n xs ! i" using assms by (auto simp: in_set_conv_nth)
  then show ?thesis using that[of "n + i"] by simp
qed

text \<open>\<^verbatim>\<open>set\<close> and \<^verbatim>\<open>delete\<close> on the entries.\<close>

lemma sharedSet_result:
  assumes "map_inv m"
  shows "\<exists>m'. sharedSet k v m = Inr m' \<and> map_inv m' \<and> c_itp m' = c_itp m \<and> c_pos m' = c_pos m \<and>
    (if k \<in> set (c_keys m)
     then c_keys m' = c_keys m \<and> (\<exists>j<length (c_keys m). c_keys m ! j = k \<and> c_values m' = (c_values m)[j := v])
     else c_keys m' = c_keys m @ [k] \<and> c_values m' = c_values m @ [v])"
proof (cases rule: mapHas_cases[OF assms, of k])
  case 1
  then show ?thesis using assms by (auto simp: sharedSet_def map_inv_def)
next
  case (2 j)
  then have "k \<in> set (c_keys m)" by auto
  then show ?thesis using 2 assms by (auto simp: sharedSet_def map_inv_def)
qed

lemma sharedDelete_result:
  assumes "map_inv m"
  shows "\<exists>m'. sharedDelete mapHas k m = Inr (k \<in> set (c_keys m), m') \<and> map_inv m' \<and> c_itp m' = c_itp m \<and>
    map_entries m' = filter (\<lambda>(x, _). x \<noteq> k) (map_entries m) \<and>
    (\<forall>p. p \<notin> set (c_itp m) \<or> drop (c_pos m' p) (map_entries m') =
           filter (\<lambda>(x, _). x \<noteq> k) (drop (c_pos m p) (map_entries m)))"
proof (cases rule: mapHas_cases[OF assms, of k])
  case 1
  have "filter (\<lambda>(x, _). x \<noteq> k) (drop n (map_entries m)) = drop n (map_entries m)" for n
    using 1(2) by (intro filter_True) (auto simp: map_entries_def dest!: in_set_dropD set_zip_leftD)
  from this this[of 0] show ?thesis using 1 assms by (auto simp: sharedDelete_def)
next
  case (2 j)
  let ?m' = "m\<lparr>c_keys := splice1 (c_keys m) (int j), c_values := splice1 (c_values m) (int j),
    c_pos := (\<lambda>p. if p \<in> set (c_itp m) \<and> int j < int (c_pos m p) then c_pos m p - 1 else c_pos m p)\<rparr>"
  let ?e = "map_entries m"
  have len: "length (c_keys m) = length (c_values m)" and d: "distinct (map fst ?e)" and j: "j < length ?e"
    and fj: "fst (?e ! j) = k"
    using assms 2 by (auto simp: map_inv_def map_entries_def)
  have e': "map_entries ?m' = take j ?e @ drop (Suc j) ?e"
    using zip_splice[OF len 2(2)] by (simp add: map_entries_def del: zip_append)
  then have filt: "map_entries ?m' = filter (\<lambda>(x, _). x \<noteq> k) ?e" using splice_filter[OF d j] fj by simp
  have d': "distinct (map fst (drop n ?e))" for n using d by (simp flip: drop_map)
  have rest: "drop (if j < n then n - 1 else n) (map_entries ?m') = filter (\<lambda>(x, _). x \<noteq> k) (drop n ?e)" for n
  proof (cases "j < n")
    case True
    have "filter (\<lambda>(x, _). x \<noteq> k) (drop n ?e) = drop n ?e"
    proof (intro filter_True ballI)
      fix x assume "x \<in> set (drop n ?e)"
      then obtain i where i: "n \<le> i" "i < length ?e" "x = ?e ! i" by (rule in_drop_nth)
      then show "case x of (y, _) \<Rightarrow> y \<noteq> k"
        using True nth_eq_iff_index_eq[OF d, of i j] j fj by (simp add: case_prod_beta)
    qed
    then show ?thesis unfolding e' using True j by (simp add: drop_append)
  next
    case False
    have "drop n (take j ?e @ drop (Suc j) ?e) = take (j - n) (drop n ?e) @ drop (Suc (j - n)) (drop n ?e)"
      using False j by (simp add: drop_take)
    also have "\<dots> = filter (\<lambda>(x, _). x \<noteq> k) (drop n ?e)"
      using splice_filter[OF d'[of n], of "j - n"] False j fj by simp
    finally show ?thesis unfolding e' using False by simp
  qed
  have "map_inv ?m'" using assms 2(2) set_take_disj_set_drop_if_distinct[of "c_keys m" j "Suc j"]
    by (auto simp: map_inv_def)
  moreover have "k \<in> set (c_keys m)" using 2 by auto
  moreover have "sharedDelete mapHas k m = Inr (True, ?m')" using 2(1) by (simp add: sharedDelete_def)
  ultimately show ?thesis using filt rest by (intro exI[of _ ?m']) auto
qed

section \<open>Maps\<close>

lemma map_put:
  assumes "map_inv m"
  shows "\<exists>m'. sharedSet k v m = Inr m' \<and> map_inv m' \<and> map_view m' = (map_view m)(k \<mapsto> v)"
proof -
  obtain m' where m': "sharedSet k v m = Inr m'" "map_inv m'"
    "(if k \<in> set (c_keys m)
     then c_keys m' = c_keys m \<and> (\<exists>j<length (c_keys m). c_keys m ! j = k \<and> c_values m' = (c_values m)[j := v])
     else c_keys m' = c_keys m @ [k] \<and> c_values m' = c_values m @ [v])"
    using sharedSet_result[OF assms, of k v] by blast
  have "map_view m' = (map_view m)(k \<mapsto> v)"
  proof (cases "k \<in> set (c_keys m)")
    case True
    then show ?thesis
      using m'(3) assms map_of_zip_update[of "c_keys m" "c_values m"]
      by (auto simp: map_view_def map_entries_def map_inv_def)
  next
    case False
    then show ?thesis
      using m'(3) assms map_of_zip_snoc[of "c_keys m" "c_values m" k v]
      by (simp add: map_view_def map_entries_def map_inv_def del: zip_append)
  qed
  then show ?thesis using m'(1,2) by blast
qed

lemma map_del:
  assumes "map_inv m"
  shows "\<exists>m'. sharedDelete mapHas k m = Inr (map_view m k \<noteq> None, m') \<and> map_inv m' \<and> map_view m' = (map_view m)(k := None)"
  using sharedDelete_result[OF assms, of k] map_view_None[OF assms, of k]
  by (auto simp: map_view_def map_of_filter_ne)

interpretation js_map: key_store map_inv map_view sharedSet "sharedDelete mapHas"
  by unfold_locales (rule map_put map_del, assumption)+

lemma sharedGet_view:
  assumes "map_inv m"
  shows "sharedGet k m = Inr (case map_view m k of None \<Rightarrow> JUndef | Some v \<Rightarrow> v)"
proof (cases rule: mapHas_cases[OF assms, of k])
  case 1
  then show ?thesis using map_view_None[OF assms, of k] by (simp add: sharedGet_def)
next
  case (2 j)
  then show ?thesis using map_view_nth[OF assms 2(2)] by (auto simp: sharedGet_def)
qed

text \<open>A sequence of operations on a map, and what it means.\<close>

datatype map_op = MSet jsval jsval | MDelete jsval | MClear

fun run_ops :: "map_op list \<Rightarrow> collection \<Rightarrow> jserr + collection" where
  "run_ops [] m = Inr m"
| "run_ops (MSet k v # r) m = ebind (sharedSet k v m) (run_ops r)"
| "run_ops (MDelete k # r) m = ebind (sharedDelete mapHas k m) (\<lambda>(_, m'). run_ops r m')"
| "run_ops (MClear # r) m = run_ops r (sharedClear m)"

fun spec_ops :: "map_op list \<Rightarrow> (jsval \<Rightarrow> jsval option) \<times> jsval list \<Rightarrow> (jsval \<Rightarrow> jsval option) \<times> jsval list" where
  "spec_ops [] f = f"
| "spec_ops (MSet k v # r) (f, ks) = spec_ops r (f(k \<mapsto> v), if k \<in> set ks then ks else ks @ [k])"
| "spec_ops (MDelete k # r) (f, ks) = spec_ops r (f(k := None), filter (\<lambda>x. x \<noteq> k) ks)"
| "spec_ops (MClear # r) (f, ks) = spec_ops r (Map.empty, [])"

lemma run_ops_spec:
  "map_inv m \<Longrightarrow> \<exists>m'. run_ops ops m = Inr m' \<and> map_inv m' \<and> (map_view m', c_keys m') = spec_ops ops (map_view m, c_keys m)"
proof (induction ops arbitrary: m)
  case (Cons a ops)
  show ?case
  proof (cases a)
    case (MSet k v)
    obtain m1 where m1: "sharedSet k v m = Inr m1" "map_inv m1"
      "c_keys m1 = (if k \<in> set (c_keys m) then c_keys m else c_keys m @ [k])"
      using sharedSet_result[OF Cons.prems, of k v] by (auto split: if_splits)
    moreover have "map_view m1 = (map_view m)(k \<mapsto> v)" using map_put[OF Cons.prems, of k v] m1(1) by auto
    ultimately show ?thesis using Cons.IH[OF m1(2)] MSet by (simp del: fun_upd_apply split del: if_split)
  next
    case (MDelete k)
    obtain m1 where m1: "sharedDelete mapHas k m = Inr (k \<in> set (c_keys m), m1)" "map_inv m1"
      "map_entries m1 = filter (\<lambda>(x, _). x \<noteq> k) (map_entries m)"
      using sharedDelete_result[OF Cons.prems, of k] by blast
    have "c_keys m1 = map fst (map_entries m1)" "c_keys m = map fst (map_entries m)"
      using m1(2) Cons.prems by (simp_all add: map_entries_def map_inv_def)
    then have "c_keys m1 = filter (\<lambda>x. x \<noteq> k) (c_keys m)"
      using m1(3) by (simp add: map_fst_filter)
    moreover have "map_view m1 = (map_view m)(k := None)" using map_del[OF Cons.prems, of k] m1(1) by auto
    ultimately show ?thesis using Cons.IH[OF m1(2)] MDelete m1(1) by (simp del: fun_upd_apply)
  next
    case MClear
    have "map_inv (sharedClear m)" "map_view (sharedClear m) = Map.empty" "c_keys (sharedClear m) = []"
      using Cons.prems by (simp_all add: sharedClear_def map_inv_def map_view_def map_entries_def)
    then show ?thesis using Cons.IH[of "sharedClear m"] MClear by simp
  qed
qed simp

text \<open>
  C5. A \<^verbatim>\<open>Map\<close> is a partial map with keys compared as values (NaN equals itself): any sequence of
  \<^verbatim>\<open>set\<close>, \<^verbatim>\<open>delete\<close> and \<^verbatim>\<open>clear\<close> on a new one succeeds, \<^verbatim>\<open>get\<close>, \<^verbatim>\<open>has\<close> and \<^verbatim>\<open>size\<close> answer as the
  partial map does, and the keys stand in the order of insertion.
\<close>

theorem map_refines:
  "case spec_ops ops (Map.empty, []) of (f, ks) \<Rightarrow>
     \<exists>m. run_ops ops (new_collection False) = Inr m \<and> c_keys m = ks \<and> distinct ks \<and> set ks = dom f \<and>
         sharedGet k m = Inr (case f k of None \<Rightarrow> JUndef | Some v \<Rightarrow> v) \<and>
         (mapHas m k = Inr (-1) \<longleftrightarrow> f k = None) \<and> sharedSize m = card (dom f)"
proof -
  have "map_inv (new_collection False)" by (simp add: map_inv_def new_collection_def)
  then obtain m where m: "run_ops ops (new_collection False) = Inr m" "map_inv m"
    "(map_view m, c_keys m) = spec_ops ops (map_view (new_collection False), c_keys (new_collection False))"
    using run_ops_spec by blast
  moreover have "map_view (new_collection False) = Map.empty" "c_keys (new_collection False) = []"
    by (simp_all add: map_view_def map_entries_def new_collection_def)
  ultimately have s: "spec_ops ops (Map.empty, []) = (map_view m, c_keys m)" by simp
  have d: "set (c_keys m) = dom (map_view m)" by (simp add: set_eq_iff domIff map_view_None[OF m(2)])
  have "sharedSize m = card (dom (map_view m))"
    using m(2) distinct_card[of "c_keys m"] by (simp add: sharedSize_def map_inv_def flip: d)
  moreover have "mapHas m k = Inr (-1) \<longleftrightarrow> map_view m k = None"
    using map_view_None[OF m(2), of k] by (cases rule: mapHas_cases[OF m(2), of k]) auto
  ultimately show ?thesis
    unfolding s using m(1,2) d sharedGet_view[OF m(2), of k] by (auto simp: map_inv_def)
qed

section \<open>Iteration\<close>

text \<open>What an iterator over the entries has not delivered yet.\<close>

definition remaining :: "iterator \<Rightarrow> collection \<Rightarrow> (jsval \<times> jsval) list" where
  "remaining it m = drop (c_pos m (i_ptr it)) (map_entries m)"

text \<open>An iterator that is not done, known to the map, and not beyond its end.\<close>

definition live :: "iterator \<Rightarrow> collection \<Rightarrow> bool" where
  "live it m \<longleftrightarrow> i_walk it = MapEntries \<and> \<not> i_done it \<and> i_ptr it \<in> set (c_itp m) \<and>
     c_pos m (i_ptr it) \<le> length (c_keys m)"

lemma next_remaining:
  assumes "map_inv m" "live it m" "iter_next it m = (x, it', m')"
  shows "x = (case remaining it m of [] \<Rightarrow> None | (k, v) # r \<Rightarrow> Some (Pair k v)) \<and>
    (remaining it m = [] \<or> live it' m' \<and> remaining it' m' = tl (remaining it m) \<and> map_entries m' = map_entries m) \<and>
    map_inv m' \<and> map_entries m' = map_entries m"
proof (cases "c_pos m (i_ptr it) < length (c_keys m)")
  case True
  let ?k = "c_pos m (i_ptr it)"
  have r: "remaining it m = (c_keys m ! ?k, c_values m ! ?k) # drop (Suc ?k) (map_entries m)"
    using True assms(1) by (simp add: remaining_def map_entries_def map_inv_def flip: Cons_nth_drop_Suc)
  have "x = Some (Pair (c_keys m ! ?k) (c_values m ! ?k))" "it' = it" "m' = m\<lparr>c_pos := (c_pos m)(i_ptr it := ?k + 1)\<rparr>"
    using True assms(2,3) by (auto simp: iter_next_def live_def walk_array_def walk_item_def Let_def)
  then show ?thesis unfolding r using True assms(1,2) by (auto simp: live_def remaining_def map_entries_def map_inv_def)
next
  case False
  have "remaining it m = []" using False assms(1) by (simp add: remaining_def map_entries_def map_inv_def)
  then show ?thesis
    using False assms by (auto simp: iter_next_def live_def walk_array_def Let_def map_inv_def map_entries_def)
qed

lemma set_remaining:
  assumes "map_inv m" "live it m"
  shows "\<exists>m'. sharedSet k v m = Inr m' \<and> map_inv m' \<and> live it m' \<and>
    remaining it m' = (if k \<in> set (c_keys m) then map (\<lambda>(x, y). (x, if x = k then v else y)) (remaining it m)
                       else remaining it m @ [(k, v)])"
proof -
  obtain m' where m': "sharedSet k v m = Inr m'" "map_inv m'" "c_itp m' = c_itp m" "c_pos m' = c_pos m"
    "(if k \<in> set (c_keys m)
     then c_keys m' = c_keys m \<and> (\<exists>j<length (c_keys m). c_keys m ! j = k \<and> c_values m' = (c_values m)[j := v])
     else c_keys m' = c_keys m @ [k] \<and> c_values m' = c_values m @ [v])"
    using sharedSet_result[OF assms(1), of k v] by blast
  have "live it m'" using m' assms(2) by (auto simp: live_def split: if_splits)
  moreover have "remaining it m' = (if k \<in> set (c_keys m) then map (\<lambda>(x, y). (x, if x = k then v else y)) (remaining it m)
                       else remaining it m @ [(k, v)])"
  proof (cases "k \<in> set (c_keys m)")
    case True
    then obtain j where j: "j < length (c_keys m)" "c_keys m ! j = k" "c_values m' = (c_values m)[j := v]"
      "c_keys m' = c_keys m" using m'(5) by auto
    have "map_entries m' = map (\<lambda>(x, y). (x, if x = k then v else y)) (map_entries m)"
      using assms(1) j unfolding map_entries_def map_inv_def
      by (auto simp: list_eq_iff_nth_eq nth_list_update nth_eq_iff_index_eq)
    then show ?thesis using True m'(4) by (simp add: remaining_def drop_map)
  next
    case False
    then have "map_entries m' = map_entries m @ [(k, v)]"
      using m'(5) assms(1) by (simp add: map_entries_def map_inv_def)
    moreover have "c_pos m (i_ptr it) \<le> length (map_entries m)"
      using assms by (simp add: live_def map_entries_def map_inv_def)
    ultimately show ?thesis using False m'(4) by (simp add: remaining_def)
  qed
  ultimately show ?thesis using m'(1,2) by blast
qed

text \<open>A pointer that is not beyond the end is not after a deletion either.\<close>

lemma sharedDelete_pos:
  assumes "map_inv m" "sharedDelete mapHas k m = Inr (b, m')" "p \<in> set (c_itp m)" "c_pos m p \<le> length (c_keys m)"
  shows "c_pos m' p \<le> length (c_keys m')"
proof (cases rule: mapHas_cases[OF assms(1), of k])
  case 1
  then show ?thesis using assms(2,4) by (auto simp: sharedDelete_def)
next
  case (2 j)
  then show ?thesis using assms(2-4) by (auto simp: sharedDelete_def splice1_def)
qed

lemma delete_remaining:
  assumes "map_inv m" "live it m"
  shows "\<exists>m'. sharedDelete mapHas k m = Inr (k \<in> set (c_keys m), m') \<and> map_inv m' \<and> live it m' \<and>
    remaining it m' = filter (\<lambda>(x, _). x \<noteq> k) (remaining it m)"
proof -
  obtain m' where m': "sharedDelete mapHas k m = Inr (k \<in> set (c_keys m), m')" "map_inv m'" "c_itp m' = c_itp m"
    "\<forall>p. p \<notin> set (c_itp m) \<or> drop (c_pos m' p) (map_entries m') =
           filter (\<lambda>(x, _). x \<noteq> k) (drop (c_pos m p) (map_entries m))"
    using sharedDelete_result[OF assms(1), of k] by blast
  have "live it m'" using sharedDelete_pos[OF assms(1) m'(1)] m'(3) assms(2) by (auto simp: live_def)
  moreover have "remaining it m' = filter (\<lambda>(x, _). x \<noteq> k) (remaining it m)"
    using m'(4) assms(2) by (auto simp: live_def remaining_def)
  ultimately show ?thesis using m'(1,2) by blast
qed

section \<open>Any sequence of steps and changes\<close>

text \<open>
  The map changes and the iterator advances, in any order; what the iterator delivers is collected.
  The specification is the list of the entries that are still to come.
\<close>

datatype walk_op = Advance | Change jsval jsval | Remove jsval

fun walk_do :: "walk_op \<Rightarrow> iterator \<times> collection \<times> item option list \<Rightarrow> iterator \<times> collection \<times> item option list" where
  "walk_do Advance (it, m, out) = (case iter_next it m of (x, it1, m1) \<Rightarrow> (it1, m1, out @ [x]))"
| "walk_do (Change k v) (it, m, out) = (case sharedSet k v m of Inl e \<Rightarrow> (it, m, out) | Inr m1 \<Rightarrow> (it, m1, out))"
| "walk_do (Remove k) (it, m, out) = (case sharedDelete mapHas k m of Inl e \<Rightarrow> (it, m, out) | Inr (b, m1) \<Rightarrow> (it, m1, out))"

text \<open>The keys of the map, in order, the entries to come, and what was delivered.\<close>

fun walk_spec :: "walk_op \<Rightarrow> jsval list \<times> (jsval \<times> jsval) list \<times> item option list \<Rightarrow>
    jsval list \<times> (jsval \<times> jsval) list \<times> item option list" where
  "walk_spec Advance (ks, es, out) = (ks, tl es, out @ [case es of [] \<Rightarrow> None | (k, v) # r \<Rightarrow> Some (Pair k v)])"
| "walk_spec (Change k v) (ks, es, out) =
     (if k \<in> set ks then (ks, map (\<lambda>(x, y). (x, if x = k then v else y)) es, out) else (ks @ [k], es @ [(k, v)], out))"
| "walk_spec (Remove k) (ks, es, out) = (filter (\<lambda>x. x \<noteq> k) ks, filter (\<lambda>(x, _). x \<noteq> k) es, out)"

text \<open>The iterator is not asked again once nothing is left.\<close>

fun walk_ok :: "jsval list \<times> (jsval \<times> jsval) list \<times> item option list \<Rightarrow> walk_op list \<Rightarrow> bool" where
  "walk_ok s [] = True"
| "walk_ok s (op # ops) = ((op = Advance \<longrightarrow> fst (snd s) \<noteq> []) \<and> walk_ok (walk_spec op s) ops)"

lemma keys_of_entries: "map_inv m \<Longrightarrow> c_keys m = map fst (map_entries m)"
  by (simp add: map_inv_def map_entries_def)

lemma walk_step:
  assumes "map_inv m" "live it m" "op = Advance \<longrightarrow> remaining it m \<noteq> []" "walk_do op (it, m, out) = (it1, m1, out1)"
  shows "map_inv m1 \<and> live it1 m1 \<and> walk_spec op (c_keys m, remaining it m, out) = (c_keys m1, remaining it1 m1, out1)"
proof (cases op)
  case Advance
  obtain x it2 m2 where n: "iter_next it m = (x, it2, m2)" by (cases "iter_next it m") auto
  from next_remaining[OF assms(1,2) n] keys_of_entries[OF assms(1)] keys_of_entries[of m2] show ?thesis
    using Advance n assms(3,4) by (auto split: list.splits)
next
  case (Change k v)
  obtain m2 where m2: "sharedSet k v m = Inr m2" "map_inv m2" "live it m2"
    "remaining it m2 = (if k \<in> set (c_keys m) then map (\<lambda>(x, y). (x, if x = k then v else y)) (remaining it m)
                       else remaining it m @ [(k, v)])"
    using set_remaining[OF assms(1,2)] by blast
  have "c_keys m2 = (if k \<in> set (c_keys m) then c_keys m else c_keys m @ [k])"
    using sharedSet_result[OF assms(1), of k v] m2(1) by (auto split: if_splits)
  then show ?thesis using Change m2 assms(4) by auto
next
  case (Remove k)
  obtain m2 where m2: "sharedDelete mapHas k m = Inr (k \<in> set (c_keys m), m2)" "map_inv m2" "live it m2"
    "remaining it m2 = filter (\<lambda>(x, _). x \<noteq> k) (remaining it m)"
    using delete_remaining[OF assms(1,2)] by blast
  have "map_entries m2 = filter (\<lambda>(x, _). x \<noteq> k) (map_entries m)"
    using sharedDelete_result[OF assms(1), of k] m2(1) by auto
  then have "c_keys m2 = filter (\<lambda>x. x \<noteq> k) (c_keys m)"
    using keys_of_entries[OF assms(1)] keys_of_entries[OF m2(2)]
    by (simp add: filter_map comp_def case_prod_unfold)
  then show ?thesis using Remove m2 assms(4) by auto
qed

text \<open>
  C32. An iterator over the entries of a map delivers each entry once, in order, whatever happens
  between its steps: after any sequence of \<^verbatim>\<open>next\<close>, \<^verbatim>\<open>set\<close> and \<^verbatim>\<open>delete\<close> it has delivered, and will
  deliver, what the list of the entries to come says, to which \<^verbatim>\<open>set\<close> of a new key adds one at the end,
  in which \<^verbatim>\<open>set\<close> of an old key changes the value, and from which \<^verbatim>\<open>delete\<close> takes the deleted key.  The
  map is one whose keys are distinct, the iterator is new or not at its end, and it is not asked again
  after its end.
\<close>

theorem iteration_stable:
  assumes "map_inv m" "live it m" "walk_ok (c_keys m, remaining it m, out) ops"
    "fold walk_do ops (it, m, out) = (it1, m1, out1)"
  shows "map_inv m1 \<and> live it1 m1 \<and>
    fold walk_spec ops (c_keys m, remaining it m, out) = (c_keys m1, remaining it1 m1, out1)"
  using assms
proof (induction ops arbitrary: it m out)
  case (Cons op ops)
  obtain it2 m2 out2 where step: "walk_do op (it, m, out) = (it2, m2, out2)" by (cases "walk_do op (it, m, out)")
  have "op = Advance \<longrightarrow> remaining it m \<noteq> []" using Cons.prems(3) by simp
  from walk_step[OF Cons.prems(1,2) this step] show ?case
    using Cons.IH[of m2 it2 out2] Cons.prems(3,4) step by simp
qed simp

text \<open>A map with three entries and an iterator after its first step.\<close>

definition three :: collection where
  "three = (new_collection False)\<lparr>c_keys := [JNull, JUndef, JBool True], c_values := [JNull, JUndef, JBool True]\<rparr>"

definition stepped :: "iterator \<times> collection" where
  "stepped = (case sharedIterator MapEntries three of (it, m) \<Rightarrow> snd (iter_next it m))"

theorem iteration_stable_witness:
  "\<exists>it m. fold walk_do [Remove JNull, Change (JBool False) JNull, Advance, Remove (JBool True), Advance]
       (fst stepped, snd stepped, []) =
     (it, m, [Some (Pair JUndef JUndef), Some (Pair (JBool False) JNull)]) \<and> remaining it m = []"
proof -
  let ?ops = "[Remove JNull, Change (JBool False) JNull, Advance, Remove (JBool True), Advance]"
  let ?start = "(c_keys (snd stepped), remaining (fst stepped) (snd stepped), [])"
  have e: "map_inv (snd stepped)" "live (fst stepped) (snd stepped)" "walk_ok ?start ?ops"
    unfolding map_inv_def live_def by code_simp+
  have spec: "fold walk_spec ?ops ?start = ([JUndef, JBool False], [], [Some (Pair JUndef JUndef), Some (Pair (JBool False) JNull)])"
    by code_simp
  obtain it m out where run: "fold walk_do ?ops (fst stepped, snd stepped, []) = (it, m, out)"
    by (cases "fold walk_do ?ops (fst stepped, snd stepped, [])")
  from iteration_stable[OF e run] spec run show ?thesis by simp
qed

section \<open>Calling next again\<close>

text \<open>
  After its end an iterator takes a pointer out of the list at every call of \<^verbatim>\<open>next\<close>: its own the
  first time, and then, its index being -1, the last one, which belongs to another iterator.
\<close>

definition stale_next :: "item option list" where
  "stale_next =
     (let (it0, m0) = sharedIterator MapEntries (new_collection False);
          (_, it1, m1) = iter_next it0 m0;
          m2 = m1\<lparr>c_keys := c_keys three, c_values := c_values three\<rparr>;
          (jt0, m3) = sharedIterator MapEntries m2;
          (a, jt1, m4) = iter_next jt0 m3;
          (_, _, m5) = iter_next it1 m4
      in case sharedDelete mapHas JNull m5 of
           Inl e \<Rightarrow> []
         | Inr (_, m6) \<Rightarrow>
             (case iter_next jt1 m6 of (b, jt2, m7) \<Rightarrow>
               (case iter_next jt2 m7 of (c, _, _) \<Rightarrow> [a, b, c])))"

text \<open>
  An iterator misses an entry of the map when another one that is already done is asked again
  and a delivered entry is deleted: of three entries the second is never delivered.
\<close>

theorem next_after_done_breaks_others:
  "stale_next = [Some (Pair JNull JNull), Some (Pair (JBool True) (JBool True)), None]"
  by code_simp

text \<open>
  \<^verbatim>\<open>clear\<close> leaves the pointers where they are: an iterator after its second step misses an entry added
  after a \<^verbatim>\<open>clear\<close>.
\<close>

lemma clear_keeps_pointers:
  "(case iter_next (fst stepped) (snd stepped) of (_, it, m) \<Rightarrow>
      (case sharedSet JNull JNull (sharedClear m) of Inr m1 \<Rightarrow> fst (iter_next it m1) | Inl e \<Rightarrow> None)) = None"
  by code_simp

end
