(* ===== verification/Writable.thy ===== *)
theory Writable
  imports Js_Effects
begin

text \<open>
  The class \<^verbatim>\<open>Writable\<close> of \<^verbatim>\<open>lib_js/stream.js\<close>.  The functions given by the user (\<^verbatim>\<open>_write\<close>,
  \<^verbatim>\<open>_writev\<close>, \<^verbatim>\<open>_final\<close>, \<^verbatim>\<open>_destroy\<close>, the listeners, the callbacks of \<^verbatim>\<open>write\<close> and \<^verbatim>\<open>end\<close>) are
  parameters: each is a list of calls of the stream's methods, and of the callbacks the stream
  handed out, which may happen while the stream's method is still running or at any later time.
  \<open>wexec\<close> ties the knot with fuel.
\<close>

section \<open>State\<close>

text \<open>
  A chunk: a string, a buffer, or in object mode any other object (its identity and its
  \<^verbatim>\<open>length\<close>).
\<close>

datatype chunk = CStr jsstr | CBuf "nat list" | CObj nat nat

text \<open>A callback of \<^verbatim>\<open>write\<close>: the default \<^verbatim>\<open>() => {}\<close>, a user's, or the closure made in \<^verbatim>\<open>end\<close>.\<close>

datatype callback = NoCallback | User nat | EndAfter "callback option"

text \<open>The closures the stream hands out; user code calls them with an error or without.\<close>

datatype closure =
    WriteDone callback
  | EntryDone "callback list"
  | VecDone nat
  | FinalDone
  | DestroyDone

text \<open>An encoding; the second argument of \<^verbatim>\<open>write\<close> and \<^verbatim>\<open>end\<close> may also be the callback.\<close>

datatype enc_arg = NoEncoding | Encoding jsstr | EncodingFn callback

text \<open>An entry \<^verbatim>\<open>[chunk, encoding, callback, ...]\<close> of the buffer.\<close>

record went =
  we_chunk :: chunk
  we_encoding :: enc_arg
  we_callbacks :: "callback list"

datatype wlog = Accepted chunk | Delivered chunk | DeliveredAll "chunk list" | Finalised | Finished

text \<open>
  The fields of the class.  \<^verbatim>\<open>_writableBuf\<close> is a reference to an array (\<open>w_arrays\<close>), because the
  callback of \<^verbatim>\<open>_writev\<close> keeps the array.  \<open>w_once\<close> holds the listeners that \<^verbatim>\<open>end\<close> adds with
  \<^verbatim>\<open>once('finish', ...)\<close>, \<open>w_ticks\<close> the functions given to \<^verbatim>\<open>process.nextTick\<close>, \<open>w_closures\<close> the
  closures handed out so far.  \<open>w_log\<close> is a ghost: what \<^verbatim>\<open>write\<close> accepted and what \<^verbatim>\<open>_write\<close>,
  \<^verbatim>\<open>_writev\<close> and \<^verbatim>\<open>_final\<close> were given, the last first.
\<close>

record writable =
  w_writable :: bool
  w_destroyed :: bool
  w_length :: int
  w_highWaterMark :: int
  w_objectMode :: bool
  w_decodeStrings :: bool
  w_emitClose :: bool
  w_emittedHighMark :: bool
  w_EOF :: bool
  w_buf :: nat
  w_arrays :: "nat \<Rightarrow> went list"
  w_next_array :: nat
  w_corkCount :: int
  w_finished :: bool
  w_errorEmitted :: bool
  w_encoding :: enc_arg
  w_writing :: bool
  w_noUncork :: bool
  w_once :: "(nat \<times> callback) list"
  w_next_once :: nat
  w_ticks :: "callback list"
  w_closures :: "closure list"
  w_log :: "wlog list"

datatype wevent = EvDrain | EvError jsval | EvClose | EvFinish

text \<open>The arguments of \<^verbatim>\<open>end(chunk, encoding, callback)\<close>, or \<^verbatim>\<open>end(callback)\<close>.\<close>

datatype end_args = EndArgs "chunk option" enc_arg "callback option" | EndFn callback

datatype wcmd =
    CWrite chunk enc_arg "callback option"
  | CEnd end_args
  | CCork
  | CUncork
  | CDestroy "jsval option"
  | CDefaultEncoding enc_arg
  | CCallback nat "jsval option"
  | CTick
  | CThrowW jsval

datatype wcall =
    RunW "wcmd list"
  | EmitFinish "(nat \<times> callback) list"
  | CallAll "callback list"
  | CallVec nat nat nat

type_synonym wresult = "writable outcome"
type_synonym wrunner = "wcall \<Rightarrow> writable \<Rightarrow> wresult"

text \<open>
  The user's functions, and the two native functions of \<^verbatim>\<open>Buffer\<close> (\<^verbatim>\<open>new Buffer(s, encoding)\<close>
  and \<^verbatim>\<open>Buffer.concat\<close>, which throws unless it is given buffers).  \<open>on_event\<close> gives what the
  listeners of an event do, \<open>None\<close> when there is none.
\<close>

record whooks =
  on_event :: "wevent \<Rightarrow> writable \<Rightarrow> wcmd list option"
  on_write :: "nat \<Rightarrow> chunk \<Rightarrow> enc_arg \<Rightarrow> writable \<Rightarrow> wcmd list"
  on_writev :: "(nat \<Rightarrow> (chunk \<times> enc_arg) list \<Rightarrow> writable \<Rightarrow> wcmd list) option"
  on_final :: "nat \<Rightarrow> writable \<Rightarrow> wcmd list"
  on_destroy :: "jsval option \<Rightarrow> nat \<Rightarrow> writable \<Rightarrow> wcmd list"
  on_callback :: "nat \<Rightarrow> writable \<Rightarrow> wcmd list"
  instanceOfError :: "jsval \<Rightarrow> bool"
  newBuffer :: "jsstr \<Rightarrow> enc_arg \<Rightarrow> nat list"
  bufferConcat :: "chunk \<Rightarrow> chunk \<Rightarrow> chunk option"

section \<open>Small parts\<close>

fun chunk_length :: "chunk \<Rightarrow> nat" where
  "chunk_length (CStr s) = length s"
| "chunk_length (CBuf b) = length b"
| "chunk_length (CObj i n) = n"

text \<open>\<^verbatim>\<open>this._writableObjectMode ? 1 : chunk.length\<close>.\<close>

definition chunk_size :: "writable \<Rightarrow> chunk \<Rightarrow> int" where
  "chunk_size st c = (if w_objectMode st then 1 else int (chunk_length c))"

definition buffer :: "writable \<Rightarrow> went list" where
  "buffer st = w_arrays st (w_buf st)"

definition set_buffer :: "went list \<Rightarrow> writable \<Rightarrow> writable" where
  "set_buffer b st = st\<lparr>w_arrays := (w_arrays st)(w_buf st := b)\<rparr>"

definition logged :: "wlog \<Rightarrow> writable \<Rightarrow> writable" where
  "logged e st = st\<lparr>w_log := e # w_log st\<rparr>"

text \<open>A closure is handed out: its number, and the state that remembers it.\<close>

definition hand_out :: "closure \<Rightarrow> writable \<Rightarrow> nat \<times> writable" where
  "hand_out c st = (length (w_closures st), st\<lparr>w_closures := w_closures st @ [c]\<rparr>)"

text \<open>
  \<^verbatim>\<open>this.emit(...)\<close>: without a listener an error is thrown.  The listeners of \<^verbatim>\<open>finish\<close> that \<^verbatim>\<open>end\<close>
  added run after the others, from a copy of the list.
\<close>

definition wemit :: "whooks \<Rightarrow> wrunner \<Rightarrow> wevent \<Rightarrow> writable \<Rightarrow> wresult" where
  "wemit h rec ev st =
     (case on_event h ev st of
        None \<Rightarrow>
          (case ev of
             EvError v \<Rightarrow>
               throw (if instanceOfError h v then ThrowValue v else ERR_UNHANDLED_ERROR v) st
           | EvFinish \<Rightarrow> rec (EmitFinish (w_once st)) (logged Finished st)
           | _ \<Rightarrow> return_to False st)
      | Some cmds \<Rightarrow>
          (case ev of
             EvFinish \<Rightarrow>
               and_then (rec (RunW cmds) (logged Finished st)) (\<lambda>_. rec (EmitFinish (w_once st)))
           | _ \<Rightarrow> rec (RunW cmds) st))"

text \<open>\<^verbatim>\<open>if (err) \{ ...; this.emit('error', err); \}\<close>, with or without \<^verbatim>\<open>errorEmitted\<close>.\<close>

definition emit_error :: "whooks \<Rightarrow> wrunner \<Rightarrow> bool \<Rightarrow> jsval option \<Rightarrow> writable \<Rightarrow> wresult" where
  "emit_error h rec mark err st =
     (case err of
        None \<Rightarrow> return_to True st
      | Some v \<Rightarrow> wemit h rec (EvError v) (if mark then st\<lparr>w_errorEmitted := True\<rparr> else st))"

text \<open>The call of \<^verbatim>\<open>this._write\<close> with a closure.\<close>

definition start_write ::
  "whooks \<Rightarrow> wrunner \<Rightarrow> chunk \<Rightarrow> enc_arg \<Rightarrow> closure \<Rightarrow> writable \<Rightarrow> wresult"
where
  "start_write h rec chunk encoding c st =
     (case hand_out c (logged (Delivered chunk) st) of
        (i, st1) \<Rightarrow> rec (RunW (on_write h i chunk encoding st1)) st1)"

section \<open>\<^verbatim>\<open>_writableNext\<close>\<close>

text \<open>The next entry of the buffer is written, with \<^verbatim>\<open>_writev\<close> first where the user gave one.\<close>

definition flush :: "whooks \<Rightarrow> wrunner \<Rightarrow> writable \<Rightarrow> wresult" where
  "flush h rec st =
     (let st1 = st\<lparr>w_writing := True\<rparr> in
      and_then
        (case on_writev h of
           None \<Rightarrow> return_to True st1
         | Some writev \<Rightarrow>
             (let b = buffer st1;
                  st2 = logged (DeliveredAll (map we_chunk b))
                          (st1\<lparr>w_length := w_length st1 - sum_list (map (chunk_size st1 \<circ> we_chunk) b)\<rparr>)
              in case hand_out (VecDone (w_buf st1)) st2 of
                   (i, st3) \<Rightarrow> rec (RunW (writev i (map (\<lambda>e. (we_chunk e, we_encoding e)) b) st3)) st3))
        (\<lambda>_ st4.
           case buffer st4 of
             [] \<Rightarrow> throw TypeError st4
           | e # rest \<Rightarrow>
               start_write h rec (we_chunk e) (we_encoding e) (EntryDone (we_callbacks e))
                 ((set_buffer rest st4)\<lparr>w_length := w_length st4 - chunk_size st4 (we_chunk e)\<rparr>)))"

definition finish_up :: "whooks \<Rightarrow> wrunner \<Rightarrow> writable \<Rightarrow> wresult" where
  "finish_up h rec st =
     (if w_EOF st \<and> \<not> w_finished st then
        (case hand_out FinalDone (logged Finalised (st\<lparr>w_finished := True\<rparr>)) of
           (i, st1) \<Rightarrow> rec (RunW (on_final h i st1)) st1)
      else return_to True st)"

definition writableNext :: "whooks \<Rightarrow> wrunner \<Rightarrow> writable \<Rightarrow> wresult" where
  "writableNext h rec st =
     (if w_writing st \<or> w_destroyed st then return_to True st
      else
        and_then
          (if w_emittedHighMark st \<and> w_length st < w_highWaterMark st \<and> \<not> w_EOF st
           then wemit h rec EvDrain (st\<lparr>w_emittedHighMark := False\<rparr>)
           else return_to True st)
          (\<lambda>_ st1.
             if w_corkCount st1 = 0 then
               (if buffer st1 \<noteq> [] then flush h rec st1 else finish_up h rec st1)
             else return_to True st1))"

section \<open>The methods\<close>

definition setDefaultEncoding :: "enc_arg \<Rightarrow> writable \<Rightarrow> wresult" where
  "setDefaultEncoding encoding st = return_to True (st\<lparr>w_encoding := encoding\<rparr>)"

definition cork :: "writable \<Rightarrow> wresult" where
  "cork st = return_to True (st\<lparr>w_corkCount := w_corkCount st + 1\<rparr>)"

definition uncork :: "whooks \<Rightarrow> wrunner \<Rightarrow> writable \<Rightarrow> wresult" where
  "uncork h rec st =
     (let st1 = st\<lparr>w_corkCount := w_corkCount st - 1\<rparr>;
          st2 = (if w_corkCount st1 < 0 then st1\<lparr>w_corkCount := 0\<rparr> else st1)
      in if w_corkCount st2 = 0 then writableNext h rec st2 else return_to True st2)"

definition destroy :: "whooks \<Rightarrow> wrunner \<Rightarrow> jsval option \<Rightarrow> writable \<Rightarrow> wresult" where
  "destroy h rec err st =
     (if w_destroyed st then return_to True st
      else
        (let a = w_next_array st;
             st1 = st\<lparr>w_destroyed := True, w_buf := a, w_arrays := (w_arrays st)(a := []),
                      w_next_array := a + 1, w_EOF := True, w_finished := True\<rparr>
         in case hand_out DestroyDone st1 of
              (i, st2) \<Rightarrow> rec (RunW (on_destroy h err i st2)) st2))"

text \<open>\<^verbatim>\<open>!encoding\<close>, and the chunk a chunk is merged with the one before.\<close>

definition no_encoding :: "enc_arg \<Rightarrow> bool" where
  "no_encoding e \<longleftrightarrow> e = NoEncoding \<or> e = Encoding []"

fun merge :: "whooks \<Rightarrow> chunk \<Rightarrow> chunk \<Rightarrow> chunk option" where
  "merge h (CStr s) (CStr t) = Some (CStr (s @ t))"
| "merge h c d = bufferConcat h c d"

definition enqueue :: "whooks \<Rightarrow> chunk \<Rightarrow> enc_arg \<Rightarrow> callback \<Rightarrow> writable \<Rightarrow> wresult" where
  "enqueue h chunk encoding cb st =
     (let b = buffer st;
          grow = (\<lambda>b'. return_to True (logged (Accepted chunk)
                    ((set_buffer b' st)\<lparr>w_length := w_length st + chunk_size st chunk\<rparr>)))
      in if \<not> w_objectMode st \<and> b \<noteq> [] \<and>
            chunk_length (we_chunk (last b)) + chunk_length chunk < 1024 \<and>
            we_encoding (last b) = encoding
         then (case merge h (we_chunk (last b)) chunk of
                 None \<Rightarrow> throw TypeError st
               | Some c \<Rightarrow>
                   grow (butlast b @ [(last b)\<lparr>we_chunk := c, we_callbacks := we_callbacks (last b) @ [cb]\<rparr>]))
         else grow (b @ [\<lparr>we_chunk = chunk, we_encoding = encoding, we_callbacks = [cb]\<rparr>]))"

text \<open>The arguments of \<^verbatim>\<open>write\<close>: the callback in the place of the encoding, the defaults, the decoding.\<close>

definition write_args ::
  "whooks \<Rightarrow> chunk \<Rightarrow> enc_arg \<Rightarrow> callback option \<Rightarrow> writable \<Rightarrow> chunk \<times> enc_arg \<times> callback"
where
  "write_args h chunk encoding callback st =
     (let (encoding1, callback1) =
            (case (callback, encoding) of
               (None, EncodingFn f) \<Rightarrow> (NoEncoding, Some f)
             | _ \<Rightarrow> (encoding, callback));
          encoding2 = (if no_encoding encoding1 then w_encoding st else encoding1);
          cb = (case callback1 of None \<Rightarrow> NoCallback | Some f \<Rightarrow> f);
          chunk2 = (case chunk of
                      CStr s \<Rightarrow> if w_decodeStrings st then CBuf (newBuffer h s encoding2) else chunk
                    | _ \<Rightarrow> chunk)
      in (chunk2, encoding2, cb))"

definition write_result :: "writable \<Rightarrow> wresult" where
  "write_result st =
     (if w_length st < w_highWaterMark st then return_to True st
      else return_to False (st\<lparr>w_emittedHighMark := True\<rparr>))"

definition writable_write ::
  "whooks \<Rightarrow> wrunner \<Rightarrow> chunk \<Rightarrow> enc_arg \<Rightarrow> callback option \<Rightarrow> writable \<Rightarrow> wresult"
where
  "writable_write h rec chunk encoding callback st =
     (if w_finished st \<or> w_EOF st then return_to False st
      else
        (case write_args h chunk encoding callback st of (c, e, cb) \<Rightarrow>
           and_then
             (if w_corkCount st = 0 \<and> \<not> w_writing st
              then start_write h rec c e (WriteDone cb) (logged (Accepted c) (st\<lparr>w_writing := True\<rparr>))
              else enqueue h c e cb st)
             (\<lambda>_. write_result)))"

text \<open>\<^verbatim>\<open>end\<close>: a chunk is written first, and its callback ends the stream.\<close>

definition end_args :: "end_args \<Rightarrow> chunk option \<times> enc_arg \<times> callback option" where
  "end_args args =
     (case args of
        EndFn f \<Rightarrow> (None, NoEncoding, Some f)
      | EndArgs chunk encoding callback \<Rightarrow>
          (case (callback, encoding) of
             (None, EncodingFn f) \<Rightarrow> (chunk, NoEncoding, Some f)
           | _ \<Rightarrow> (chunk, encoding, callback)))"

definition writable_end :: "whooks \<Rightarrow> wrunner \<Rightarrow> end_args \<Rightarrow> writable \<Rightarrow> wresult" where
  "writable_end h rec args st =
     (if w_EOF st then return_to True st
      else
        (case end_args args of (chunk, encoding, callback) \<Rightarrow>
           if chunk \<noteq> None \<and> chunk \<noteq> Some (CStr [])
           then and_then (writable_write h rec (the chunk) encoding (Some (EndAfter callback)) st)
                  (\<lambda>_. return_to True)
           else
             (let st1 = (case callback of
                           None \<Rightarrow> st
                         | Some f \<Rightarrow> st\<lparr>w_once := w_once st @ [(w_next_once st, f)],
                                        w_next_once := w_next_once st + 1\<rparr>);
                  st2 = st1\<lparr>w_EOF := True, w_writable := False\<rparr>
              in if \<not> w_noUncork st2 then writableNext h rec (st2\<lparr>w_corkCount := 0\<rparr>)
                 else return_to True st2)))"

section \<open>Callbacks\<close>

definition call_callback :: "whooks \<Rightarrow> wrunner \<Rightarrow> callback \<Rightarrow> writable \<Rightarrow> wresult" where
  "call_callback h rec cb st =
     (case cb of
        NoCallback \<Rightarrow> return_to True st
      | User n \<Rightarrow> rec (RunW (on_callback h n st)) st
      | EndAfter f \<Rightarrow> writable_end h rec (EndArgs None NoEncoding f) st)"

definition call_all :: "whooks \<Rightarrow> wrunner \<Rightarrow> callback list \<Rightarrow> writable \<Rightarrow> wresult" where
  "call_all h rec cbs st =
     (case cbs of
        [] \<Rightarrow> return_to True st
      | cb # rest \<Rightarrow> and_then (call_callback h rec cb st) (\<lambda>_. rec (CallAll rest)))"

text \<open>The two loops of the callback of \<^verbatim>\<open>_writev\<close>, over the array as it is at each step.\<close>

definition call_vec :: "whooks \<Rightarrow> wrunner \<Rightarrow> nat \<Rightarrow> nat \<Rightarrow> nat \<Rightarrow> writable \<Rightarrow> wresult" where
  "call_vec h rec a i j st =
     (let saveBuf = w_arrays st a in
      if i < length saveBuf then
        (if j < length (we_callbacks (saveBuf ! i))
         then and_then (call_callback h rec (we_callbacks (saveBuf ! i) ! j) st)
                (\<lambda>_. rec (CallVec a i (j + 1)))
         else rec (CallVec a (i + 1) 0) st)
      else return_to True st)"

text \<open>The listeners that \<^verbatim>\<open>once\<close> added: each is removed before it runs.\<close>

definition emit_finish :: "whooks \<Rightarrow> wrunner \<Rightarrow> (nat \<times> callback) list \<Rightarrow> writable \<Rightarrow> wresult" where
  "emit_finish h rec copy st =
     (case copy of
        [] \<Rightarrow> return_to True st
      | (n, cb) # rest \<Rightarrow>
          if n \<in> set (map fst (w_once st))
          then and_then (call_callback h rec cb (st\<lparr>w_once := filter (\<lambda>(m, _). m \<noteq> n) (w_once st)\<rparr>))
                 (\<lambda>_. rec (EmitFinish rest))
          else rec (EmitFinish rest) st)"

definition invoke :: "whooks \<Rightarrow> wrunner \<Rightarrow> closure \<Rightarrow> jsval option \<Rightarrow> writable \<Rightarrow> wresult" where
  "invoke h rec c err st =
     (case c of
        WriteDone cb \<Rightarrow>
          and_then (emit_error h rec True err st) (\<lambda>_ st1.
          and_then (writableNext h rec (st1\<lparr>w_writing := False\<rparr>)) (\<lambda>_ st2.
          return_to True (st2\<lparr>w_ticks := w_ticks st2 @ [cb]\<rparr>)))
      | EntryDone cbs \<Rightarrow>
          and_then (emit_error h rec False err st) (\<lambda>_ st1.
          and_then (rec (CallAll cbs) st1) (\<lambda>_ st2.
          writableNext h rec (st2\<lparr>w_writing := False\<rparr>)))
      | VecDone a \<Rightarrow>
          and_then (emit_error h rec True err st) (\<lambda>_ st1.
          and_then (rec (CallVec a 0 0) st1) (\<lambda>_ st2.
          writableNext h rec (st2\<lparr>w_writing := False\<rparr>)))
      | FinalDone \<Rightarrow>
          and_then (emit_error h rec True err st) (\<lambda>_. wemit h rec EvFinish)
      | DestroyDone \<Rightarrow>
          and_then (emit_error h rec True err st) (\<lambda>_ st1.
          if w_emitClose st1 then wemit h rec EvClose st1 else return_to True st1))"

text \<open>The calls user code makes, one after the other; \<open>CTick\<close> runs the next queued function.\<close>

definition run_cmd :: "whooks \<Rightarrow> wrunner \<Rightarrow> wcmd \<Rightarrow> writable \<Rightarrow> wresult" where
  "run_cmd h rec c st =
     (case c of
        CWrite chunk encoding callback \<Rightarrow> writable_write h rec chunk encoding callback st
      | CEnd args \<Rightarrow> writable_end h rec args st
      | CCork \<Rightarrow> cork st
      | CUncork \<Rightarrow> uncork h rec st
      | CDestroy err \<Rightarrow> destroy h rec err st
      | CDefaultEncoding encoding \<Rightarrow> setDefaultEncoding encoding st
      | CCallback i err \<Rightarrow>
          if i < length (w_closures st) then invoke h rec (w_closures st ! i) err st
          else return_to False st
      | CTick \<Rightarrow>
          (case w_ticks st of
             [] \<Rightarrow> return_to False st
           | cb # rest \<Rightarrow> call_callback h rec cb (st\<lparr>w_ticks := rest\<rparr>))
      | CThrowW v \<Rightarrow> throw (ThrowValue v) st)"

definition run_wcmds :: "whooks \<Rightarrow> wrunner \<Rightarrow> wcmd list \<Rightarrow> writable \<Rightarrow> wresult" where
  "run_wcmds h rec cmds st =
     (case cmds of
        [] \<Rightarrow> return_to True st
      | c # rest \<Rightarrow> and_then (run_cmd h rec c st) (\<lambda>_. rec (RunW rest)))"

definition wstep :: "whooks \<Rightarrow> wrunner \<Rightarrow> wrunner" where
  "wstep h rec c =
     (case c of
        RunW cmds \<Rightarrow> run_wcmds h rec cmds
      | EmitFinish copy \<Rightarrow> emit_finish h rec copy
      | CallAll cbs \<Rightarrow> call_all h rec cbs
      | CallVec a i j \<Rightarrow> call_vec h rec a i j)"

fun wexec :: "whooks \<Rightarrow> nat \<Rightarrow> wrunner" where
  "wexec h 0 = (\<lambda>c st. None)"
| "wexec h (Suc n) = wstep h (wexec h n)"

section \<open>The constructor\<close>

record woptions =
  opt_objectMode :: "bool option"
  opt_highWaterMark :: "int option"
  opt_decodeStrings :: "bool option"
  opt_emitClose :: "bool option"

definition new_writable :: "woptions \<Rightarrow> writable" where
  "new_writable options =
     (let objectMode = (case opt_objectMode options of None \<Rightarrow> False | Some b \<Rightarrow> b) in
      \<lparr>w_writable = True, w_destroyed = False, w_length = 0,
       w_highWaterMark = (case opt_highWaterMark options of
                            Some n \<Rightarrow> n | None \<Rightarrow> if objectMode then 16 else 16384),
       w_objectMode = objectMode,
       w_decodeStrings = (case opt_decodeStrings options of None \<Rightarrow> True | Some b \<Rightarrow> b),
       w_emitClose = (case opt_emitClose options of None \<Rightarrow> True | Some b \<Rightarrow> b),
       w_emittedHighMark = False, w_EOF = False, w_buf = 0, w_arrays = (\<lambda>_. []), w_next_array = 1,
       w_corkCount = 0, w_finished = False, w_errorEmitted = False, w_encoding = NoEncoding,
       w_writing = False, w_noUncork = False, w_once = [], w_next_once = 0, w_ticks = [],
       w_closures = [], w_log = []\<rparr>)"

end
