(* ===== verification/Writable_Props.thy ===== *)
theory Writable_Props
  imports Writable
begin

text \<open>
  What a \<^verbatim>\<open>Writable\<close> promises, for user code that calls the stream again at any point: the chunks
  reach \<^verbatim>\<open>_write\<close> in the order in which they were written and none is lost, the length counts the
  buffered chunks, \<^verbatim>\<open>_final\<close> runs once and after the last chunk, \<^verbatim>\<open>finish\<close> follows it.
  The conditions are that there is no \<^verbatim>\<open>_writev\<close> and that the listeners of \<^verbatim>\<open>drain\<close> do not write;
  both are needed (the last section).
\<close>

section \<open>What was accepted and what was delivered\<close>

datatype piece = Unit nat | Byte nat | Whole nat

fun content :: "chunk \<Rightarrow> piece list" where
  "content (CStr s) = map Unit s"
| "content (CBuf b) = map Byte b"
| "content (CObj i n) = [Whole i]"

fun accepted :: "wlog list \<Rightarrow> piece list" where
  "accepted [] = []"
| "accepted (e # l) = accepted l @ (case e of Accepted c \<Rightarrow> content c | _ \<Rightarrow> [])"

fun delivered :: "wlog list \<Rightarrow> piece list" where
  "delivered [] = []"
| "delivered (e # l) =
     delivered l @ (case e of Delivered c \<Rightarrow> content c | DeliveredAll cs \<Rightarrow> concat (map content cs) | _ \<Rightarrow> [])"

text \<open>
  The order of the events: nothing but \<^verbatim>\<open>finish\<close> follows \<^verbatim>\<open>_final\<close>, which comes when everything
  accepted has been delivered; \<^verbatim>\<open>finish\<close> does not come before it.
\<close>

fun final_ok :: "wlog list \<Rightarrow> bool" where
  "final_ok [] = True"
| "final_ok (e # l) =
     (final_ok l \<and> (if e = Finished then Finalised \<in> set l else Finalised \<notin> set l) \<and>
      (e = Finalised \<longrightarrow> delivered l = accepted l))"

text \<open>Calls that a listener of \<^verbatim>\<open>drain\<close> may make.\<close>

definition quiet :: "wcmd \<Rightarrow> bool" where
  "quiet c = (case c of CCork \<Rightarrow> True | CDefaultEncoding e \<Rightarrow> True | _ \<Rightarrow> False)"

definition concat_ok :: "whooks \<Rightarrow> bool" where
  "concat_ok h \<longleftrightarrow>
     (\<forall>c d r. bufferConcat h c d = Some r \<longrightarrow>
        content r = content c @ content d \<and> chunk_length r = chunk_length c + chunk_length d)"

definition drain_ok :: "whooks \<Rightarrow> bool" where
  "drain_ok h \<longleftrightarrow> (\<forall>st. case on_event h EvDrain st of None \<Rightarrow> True | Some cmds \<Rightarrow> list_all quiet cmds)"

section \<open>The invariant\<close>

definition buffered :: "writable \<Rightarrow> piece list" where
  "buffered st = concat (map (content \<circ> we_chunk) (buffer st))"

definition wcore :: "bool \<Rightarrow> writable \<Rightarrow> bool" where
  "wcore F st \<longleftrightarrow>
     (F \<longrightarrow> Finalised \<in> set (w_log st)) \<and>
     (w_destroyed st \<longrightarrow> w_EOF st \<and> w_finished st \<and> buffer st = []) \<and>
     (\<exists>rest. accepted (w_log st) = delivered (w_log st) @ rest \<and>
        (\<not> w_destroyed st \<longrightarrow> rest = buffered st)) \<and>
     (\<not> w_destroyed st \<longrightarrow>
        w_length st = sum_list (map (chunk_size st \<circ> we_chunk) (buffer st))) \<and>
     0 \<le> w_corkCount st \<and>
     (w_finished st \<longrightarrow> w_EOF st) \<and>
     (Finalised \<in> set (w_log st) \<longrightarrow> w_finished st \<and> buffer st = []) \<and>
     (FinalDone \<in> set (w_closures st) \<longrightarrow> Finalised \<in> set (w_log st)) \<and>
     final_ok (w_log st)"

text \<open>Chunks wait only while the stream is corked or a write is running.\<close>

definition waiting_ok :: "writable \<Rightarrow> bool" where
  "waiting_ok st \<longleftrightarrow>
     w_destroyed st \<or> w_corkCount st \<noteq> 0 \<or> buffer st = [] \<or> w_writing st"

definition wsafe :: "whooks \<Rightarrow> bool" where
  "wsafe h \<longleftrightarrow> on_writev h = None \<and> concat_ok h \<and> drain_ok h"

definition winv :: "whooks \<Rightarrow> bool \<Rightarrow> writable \<Rightarrow> bool" where
  "winv h F st \<longleftrightarrow> wsafe h \<and> wcore F st \<and> waiting_ok st"

lemmas wdefs = wcore_def waiting_ok_def buffered_def chunk_size_def buffer_def comp_def

lemma wcore_frame [simp]:
  "wcore F (st\<lparr>w_errorEmitted := b\<rparr>) = wcore F st"
  "wcore F (st\<lparr>w_emittedHighMark := b\<rparr>) = wcore F st"
  "wcore F (st\<lparr>w_writing := b\<rparr>) = wcore F st"
  "wcore F (st\<lparr>w_encoding := e\<rparr>) = wcore F st"
  "wcore F (st\<lparr>w_once := os\<rparr>) = wcore F st"
  "wcore F (st\<lparr>w_once := os, w_next_once := k\<rparr>) = wcore F st"
  "wcore F (st\<lparr>w_ticks := ts\<rparr>) = wcore F st"
  by (simp_all add: wdefs)

lemma waiting_frame [simp]:
  "waiting_ok (st\<lparr>w_errorEmitted := b\<rparr>) = waiting_ok st"
  "waiting_ok (st\<lparr>w_emittedHighMark := b\<rparr>) = waiting_ok st"
  "waiting_ok (st\<lparr>w_encoding := e\<rparr>) = waiting_ok st"
  "waiting_ok (st\<lparr>w_once := os\<rparr>) = waiting_ok st"
  "waiting_ok (st\<lparr>w_once := os, w_next_once := k\<rparr>) = waiting_ok st"
  "waiting_ok (st\<lparr>w_ticks := ts\<rparr>) = waiting_ok st"
  "waiting_ok (st\<lparr>w_writing := True\<rparr>)"
  by (simp_all add: wdefs)

lemma winv_frame [simp]:
  "winv h F (st\<lparr>w_errorEmitted := b\<rparr>) = winv h F st"
  "winv h F (st\<lparr>w_emittedHighMark := b\<rparr>) = winv h F st"
  "winv h F (st\<lparr>w_encoding := e\<rparr>) = winv h F st"
  "winv h F (st\<lparr>w_once := os\<rparr>) = winv h F st"
  "winv h F (st\<lparr>w_ticks := ts\<rparr>) = winv h F st"
  by (simp_all add: winv_def)

lemma winv_intros:
  "winv h F st \<Longrightarrow> winv h F (st\<lparr>w_once := os\<rparr>)"
  "winv h F st \<Longrightarrow> winv h F (st\<lparr>w_ticks := ts\<rparr>)"
  "winv h F st \<Longrightarrow> winv h F (st\<lparr>w_encoding := e\<rparr>)"
  by simp_all

lemma winv_cork: "winv h F st \<Longrightarrow> winv h F (st\<lparr>w_corkCount := w_corkCount st + 1\<rparr>)"
  by (auto simp: winv_def wdefs)

lemma winv_finished: "winv h F st \<Longrightarrow> Finalised \<in> set (w_log st) \<Longrightarrow> winv h F (logged Finished st)"
  by (auto simp: winv_def wdefs logged_def)

lemma winv_strengthen: "winv h F st \<Longrightarrow> FinalDone \<in> set (w_closures st) \<Longrightarrow> winv h True st"
  by (auto simp: winv_def wcore_def)

lemma winv_weaken: "winv h G st \<Longrightarrow> F \<longrightarrow> Finalised \<in> set (w_log st) \<Longrightarrow> winv h F st"
  by (auto simp: winv_def wcore_def)

lemma winv_True: "winv h True st \<Longrightarrow> winv h F st"
  by (auto simp: winv_def wcore_def)

lemma winv_new: "wsafe h \<Longrightarrow> winv h False (new_writable options)"
  by (simp add: winv_def wdefs new_writable_def Let_def)


section \<open>Every call keeps the invariant\<close>

text \<open>The contract of the function that runs user code.\<close>

locale safe_runner =
  fixes h :: whooks and rec :: wrunner
  assumes rec_inv: "rec c st = Some (r, st') \<Longrightarrow> winv h F st \<Longrightarrow> winv h F st'"
    and rec_quiet: "rec (RunW cmds) st = Some (r, st') \<Longrightarrow> list_all quiet cmds \<Longrightarrow>
      r = Inr True \<and> (\<exists>k\<ge>0. \<exists>e. st' = st\<lparr>w_corkCount := w_corkCount st + k, w_encoding := e\<rparr>)"
begin

lemma rec_inv_any: "rec c st = Some (r, st') \<Longrightarrow> winv h G st \<Longrightarrow> (F \<longrightarrow> G) \<Longrightarrow> winv h F st'"
  using rec_inv[of c st r st' F] by (auto simp: winv_def wcore_def)

lemmas keeps = and_then_keeps[where I = "winv h F" for F]

text \<open>The listeners of \<^verbatim>\<open>drain\<close> leave the stream as it is, except that they may cork it.\<close>

lemma drain_quiet:
  assumes "wemit h rec EvDrain st = Some (r, st')" "wsafe h"
  shows "(\<exists>b. r = Inr b) \<and> (\<exists>k\<ge>0. \<exists>e. st' = st\<lparr>w_corkCount := w_corkCount st + k, w_encoding := e\<rparr>)"
proof (cases "on_event h EvDrain st")
  case None
  then have "st' = st\<lparr>w_corkCount := w_corkCount st + 0, w_encoding := w_encoding st\<rparr>" "r = Inr False"
    using assms by (simp_all add: wemit_def return_to_def)
  then show ?thesis by blast
next
  case (Some cmds)
  then have "list_all quiet cmds" using assms(2) by (auto simp: wsafe_def drain_ok_def dest: spec[of _ st])
  then show ?thesis using assms Some rec_quiet[of cmds st r st'] by (auto simp: wemit_def)
qed

lemma wcore_drained:
  "wcore F st \<Longrightarrow> k \<ge> 0 \<Longrightarrow> wcore F (st\<lparr>w_corkCount := w_corkCount st + k, w_encoding := e\<rparr>)"
  by (simp add: wdefs)

lemma wemit_inv:
  assumes "wemit h rec ev st = Some (r, st')" "winv h F st"
    "ev = EvFinish \<Longrightarrow> Finalised \<in> set (w_log st)"
  shows "winv h F st'"
proof (cases "ev = EvFinish")
  case True
  with assms have "winv h F (logged Finished st)" by (simp add: winv_finished)
  with True assms show ?thesis
    by (auto simp: wemit_def split: option.splits intro: rec_inv
        elim!: keeps)
next
  case False
  with assms show ?thesis
    by (auto simp: wemit_def throw_def return_to_def split: option.splits wevent.splits intro: rec_inv)
qed

lemma emit_error_inv:
  "emit_error h rec mark err st = Some (r, st') \<Longrightarrow> winv h F st \<Longrightarrow> winv h F st'"
  by (auto simp: emit_error_def return_to_def split: option.splits if_splits elim!: wemit_inv)

lemma start_write_inv:
  assumes "start_write h rec chunk e c st = Some (r, st')"
    "winv h F (st\<lparr>w_log := Delivered chunk # w_log st, w_closures := w_closures st @ [c]\<rparr>)"
  shows "winv h F st'"
  using assms by (auto simp: start_write_def hand_out_def logged_def intro: rec_inv)

lemma flush_inv:
  assumes "flush h rec st = Some (r, st')" "wcore F st" "\<not> w_destroyed st" "buffer st \<noteq> []" "wsafe h"
  shows "winv h F st'"
proof -
  obtain e rest where b: "buffer st = e # rest" using assms(4) by (cases "buffer st") auto
  have "Finalised \<notin> set (w_log st)" using assms(2,4) by (auto simp: wcore_def)
  then have "winv h F (((set_buffer rest (st\<lparr>w_writing := True\<rparr>))
      \<lparr>w_length := w_length st - chunk_size st (we_chunk e),
       w_log := Delivered (we_chunk e) # w_log st,
       w_closures := w_closures st @ [EntryDone (we_callbacks e)]\<rparr>))"
    using assms(2,3,5) b by (auto simp: winv_def wdefs set_buffer_def)
  then show ?thesis
    using assms(1,5) b
    by (auto simp: flush_def wsafe_def and_then_simps buffer_def chunk_size_def set_buffer_def
        elim!: start_write_inv)
qed

lemma finish_up_inv:
  assumes "finish_up h rec st = Some (r, st')" "wcore F st" "\<not> w_destroyed st" "buffer st = []" "wsafe h"
  shows "winv h F st'"
proof (cases "w_EOF st \<and> \<not> w_finished st")
  case True
  then have "winv h F (st\<lparr>w_finished := True, w_log := Finalised # w_log st,
      w_closures := w_closures st @ [FinalDone]\<rparr>)"
    using assms(2-5) by (auto simp: winv_def wdefs)
  with True assms(1) show ?thesis
    by (auto simp: finish_up_def hand_out_def logged_def intro: rec_inv)
next
  case False
  with assms show ?thesis by (auto simp: finish_up_def return_to_def winv_def waiting_ok_def)
qed

lemma writableNext_inv:
  assumes "writableNext h rec st = Some (r, st')" "wcore F st" "wsafe h"
  shows "winv h F st'"
proof (cases "w_writing st \<or> w_destroyed st")
  case True
  with assms show ?thesis by (auto simp: writableNext_def return_to_def winv_def waiting_ok_def)
next
  case False
  let ?after = "\<lambda>_ st1. if w_corkCount st1 = 0 then
      (if buffer st1 \<noteq> [] then flush h rec st1 else finish_up h rec st1) else return_to True st1"
  have after: "winv h F st'" if "?after b st1 = Some (r, st')" "wcore F st1" "\<not> w_destroyed st1" for b st1
    using that assms(3) by (auto split: if_splits dest: flush_inv finish_up_inv
        simp: return_to_def winv_def waiting_ok_def)
  show ?thesis
  proof (cases "w_emittedHighMark st \<and> w_length st < w_highWaterMark st \<and> \<not> w_EOF st")
    case True
    with False assms(1) have run: "and_then (wemit h rec EvDrain (st\<lparr>w_emittedHighMark := False\<rparr>)) ?after = Some (r, st')"
      by (simp add: writableNext_def)
    then obtain r1 st1 where emit: "wemit h rec EvDrain (st\<lparr>w_emittedHighMark := False\<rparr>) = Some (r1, st1)"
      by (auto simp: and_then_def split: option.splits)
    from drain_quiet[OF emit assms(3)] obtain b k e where st1: "r1 = Inr b" "k \<ge> 0"
      "st1 = (st\<lparr>w_emittedHighMark := False\<rparr>)\<lparr>w_corkCount := w_corkCount st + k, w_encoding := e\<rparr>"
      by auto
    have "wcore F (st\<lparr>w_emittedHighMark := False\<rparr>)" using assms(2) by simp
    from wcore_drained[OF this st1(2)] have "wcore F st1" by (simp add: st1(3))
    moreover have "?after b st1 = Some (r, st')"
      using run emit by (simp only: st1(1) and_then_simps)
    moreover have "\<not> w_destroyed st1" using False st1(3) by simp
    ultimately show ?thesis using after by blast
  next
    case no_drain: False
    with False assms(1) have "?after True st = Some (r, st')"
      by (auto simp: writableNext_def and_then_simps)
    then show ?thesis using after assms(2) False by blast
  qed
qed


section \<open>The methods keep the invariant\<close>

lemma merge_content:
  "wsafe h \<Longrightarrow> merge h c d = Some r \<Longrightarrow>
   content r = content c @ content d \<and> chunk_length r = chunk_length c + chunk_length d"
  by (cases "(h, c, d)" rule: merge.cases) (auto simp: wsafe_def concat_ok_def)

lemma grow_inv:
  assumes "winv h F st" "\<not> w_EOF st" "w_corkCount st \<noteq> 0 \<or> w_writing st"
    "concat (map (content \<circ> we_chunk) b') = buffered st @ content chunk"
    "sum_list (map (chunk_size st \<circ> we_chunk) b') =
       sum_list (map (chunk_size st \<circ> we_chunk) (buffer st)) + chunk_size st chunk"
  shows "winv h F (logged (Accepted chunk)
    ((set_buffer b' st)\<lparr>w_length := w_length st + chunk_size st chunk\<rparr>))"
  using assms by (auto simp: winv_def wdefs logged_def set_buffer_def)

lemma enqueue_inv:
  assumes "enqueue h chunk e cb st = Some (r, st')" "winv h F st" "\<not> w_EOF st"
    "w_corkCount st \<noteq> 0 \<or> w_writing st"
  shows "winv h F st'"
proof -
  let ?push = "buffer st @ [\<lparr>we_chunk = chunk, we_encoding = e, we_callbacks = [cb]\<rparr>]"
  let ?grown = "\<lambda>b'. logged (Accepted chunk)
    ((set_buffer b' st)\<lparr>w_length := w_length st + chunk_size st chunk\<rparr>)"
  have push: "winv h F (?grown ?push)"
    using assms(2-4) by (intro grow_inv) (simp_all add: buffered_def)
  have merged: "winv h F (?grown (butlast (buffer st) @
      [(last (buffer st))\<lparr>we_chunk := c, we_callbacks := cbs\<rparr>]))"
    if "\<not> w_objectMode st" "buffer st \<noteq> []" "merge h (we_chunk (last (buffer st))) chunk = Some c" for c cbs
  proof -
    obtain b l where bl: "buffer st = b @ [l]" using \<open>buffer st \<noteq> []\<close> by (metis append_butlast_last_id)
    show ?thesis
      using assms(2-4) that merge_content[OF _ that(3)] bl
      by (intro grow_inv) (simp_all add: buffered_def chunk_size_def winv_def)
  qed
  show ?thesis
    using assms(1,2) push merged
    by (auto simp: enqueue_def Let_def return_to_def throw_def split: if_splits option.splits)
qed

lemma write_result_inv: "write_result st = Some (r, st') \<Longrightarrow> winv h F st \<Longrightarrow> winv h F st'"
  by (auto simp: write_result_def return_to_def split: if_splits)

lemma write_inv:
  assumes "writable_write h rec chunk e cb st = Some (r, st')" "winv h F st"
  shows "winv h F st'"
proof (cases "w_finished st \<or> w_EOF st")
  case True
  with assms show ?thesis by (auto simp: writable_write_def return_to_def)
next
  case False
  obtain c e' cb' where args: "write_args h chunk e cb st = (c, e', cb')" by (metis prod_cases3)
  have direct: "winv h F st1"
    if "start_write h rec c e' (WriteDone cb') (logged (Accepted c) (st\<lparr>w_writing := True\<rparr>)) = Some (r1, st1)"
      "w_corkCount st = 0" "\<not> w_writing st" for r1 st1
  proof (rule start_write_inv[OF that(1)])
    show "winv h F ((logged (Accepted c) (st\<lparr>w_writing := True\<rparr>))
        \<lparr>w_log := Delivered c # w_log (logged (Accepted c) (st\<lparr>w_writing := True\<rparr>)),
         w_closures := w_closures (logged (Accepted c) (st\<lparr>w_writing := True\<rparr>)) @ [WriteDone cb']\<rparr>)"
      using assms(2) that(2,3) False by (auto simp: winv_def wdefs logged_def)
  qed
  show ?thesis
    using assms False args direct
    by (auto simp: writable_write_def split: if_splits elim!: keeps intro: write_result_inv enqueue_inv)
qed

lemma uncork_inv:
  assumes "uncork h rec st = Some (r, st')" "winv h F st"
  shows "winv h F st'"
proof -
  have core: "wcore F (st\<lparr>w_corkCount := max 0 (w_corkCount st - 1)\<rparr>)"
    using assms(2) by (simp add: winv_def wdefs)
  have "uncork h rec st =
      (let st2 = st\<lparr>w_corkCount := max 0 (w_corkCount st - 1)\<rparr>
       in if w_corkCount st2 = 0 then writableNext h rec st2 else return_to True st2)"
    by (auto simp: uncork_def Let_def max_def)
  with assms(1) have run: "(let st2 = st\<lparr>w_corkCount := max 0 (w_corkCount st - 1)\<rparr>
       in if w_corkCount st2 = 0 then writableNext h rec st2 else return_to True st2) = Some (r, st')"
    by simp
  show ?thesis
  proof (cases "max 0 (w_corkCount st - 1) = 0")
    case True
    with run core assms(2) show ?thesis by (simp add: writableNext_inv winv_def[of h F st])
  next
    case False
    with run have "st' = st\<lparr>w_corkCount := max 0 (w_corkCount st - 1)\<rparr>"
      by (auto simp: Let_def return_to_def split: if_splits)
    with core False assms(2) show ?thesis by (simp add: winv_def waiting_ok_def)
  qed
qed

lemma destroy_inv:
  assumes "destroy h rec err st = Some (r, st')" "winv h F st"
  shows "winv h F st'"
proof (cases "w_destroyed st")
  case True
  with assms show ?thesis by (simp add: destroy_def return_to_def)
next
  case False
  have "winv h F (st\<lparr>w_destroyed := True, w_buf := a, w_arrays := (w_arrays st)(a := []),
      w_next_array := a + 1, w_EOF := True, w_finished := True,
      w_closures := w_closures st @ [DestroyDone]\<rparr>)" for a
    using assms(2) False by (auto simp: winv_def wdefs)
  with assms(1) False show ?thesis
    by (auto simp: destroy_def hand_out_def Let_def intro: rec_inv)
qed

lemma end_inv:
  assumes "writable_end h rec args st = Some (r, st')" "winv h F st"
  shows "winv h F st'"
proof (cases "w_EOF st")
  case True
  with assms show ?thesis by (simp add: writable_end_def return_to_def)
next
  case False
  obtain chunk e cb where args: "end_args args = (chunk, e, cb)" by (metis prod_cases3)
  let ?st1 = "case cb of None \<Rightarrow> st | Some f \<Rightarrow>
    st\<lparr>w_once := w_once st @ [(w_next_once st, f)], w_next_once := w_next_once st + 1\<rparr>"
  have st1: "winv h F ?st1" using assms(2) by (auto simp: winv_def split: option.splits)
  then have core: "wcore F (?st1\<lparr>w_EOF := True, w_writable := False, w_corkCount := 0\<rparr>)"
    by (auto simp: winv_def wdefs)
  have plain: "winv h F (?st1\<lparr>w_EOF := True, w_writable := False\<rparr>)"
    using st1 by (auto simp: winv_def wdefs)
  show ?thesis
    using assms False args plain writableNext_inv[OF _ core, of r st'] winv_def[of h F st]
    by (auto simp: writable_end_def Let_def return_to_def split: if_splits elim!: keeps intro: write_inv)
qed

section \<open>Callbacks keep the invariant\<close>

lemma call_callback_inv: "call_callback h rec cb st = Some (r, st') \<Longrightarrow> winv h F st \<Longrightarrow> winv h F st'"
  by (auto simp: call_callback_def return_to_def split: callback.splits intro: rec_inv end_inv)

lemma call_all_inv: "call_all h rec cbs st = Some (r, st') \<Longrightarrow> winv h F st \<Longrightarrow> winv h F st'"
  by (auto simp: call_all_def return_to_def split: list.splits elim!: keeps
      intro: rec_inv call_callback_inv)

lemma call_vec_inv: "call_vec h rec a i j st = Some (r, st') \<Longrightarrow> winv h F st \<Longrightarrow> winv h F st'"
  by (auto simp: call_vec_def Let_def return_to_def split: if_splits elim!: keeps
      intro: rec_inv call_callback_inv)

lemma emit_finish_inv:
  assumes "emit_finish h rec copy st = Some (r, st')" "winv h F st"
  shows "winv h F st'"
proof (cases copy)
  case Nil
  with assms show ?thesis by (simp add: emit_finish_def return_to_def)
next
  case (Cons p rest)
  obtain n cb where p: "p = (n, cb)" by (cases p)
  have "winv h F (st\<lparr>w_once := filter (\<lambda>(m, _). m \<noteq> n) (w_once st)\<rparr>)" using assms(2) by simp
  with assms Cons p show ?thesis
    by (auto simp: emit_finish_def simp del: winv_frame split: if_splits elim!: keeps
        intro: rec_inv call_callback_inv)
qed

lemma next_again: "winv h F st \<Longrightarrow> writableNext h rec (st\<lparr>w_writing := False\<rparr>) = Some (r, st') \<Longrightarrow> winv h F st'"
  by (rule writableNext_inv[of "st\<lparr>w_writing := False\<rparr>"]) (simp_all add: winv_def)

lemma invoke_inv:
  assumes "invoke h rec c err st = Some (r, st')" "winv h F st" "c \<in> set (w_closures st)"
  shows "winv h F st'"
proof (cases c)
  case FinalDone
  then have "winv h True st" using assms(2,3) by (simp add: winv_strengthen)
  have "winv h True st'" if "and_then (emit_error h rec True err st) (\<lambda>_. wemit h rec EvFinish) = Some (r, st')"
    using that
  proof (rule keeps)
    show "winv h True st1" if "emit_error h rec True err st = Some (r1, st1)" for r1 st1
      using that \<open>winv h True st\<close> by (rule emit_error_inv)
    show "winv h True st'" if "wemit h rec EvFinish st1 = Some (r, st')" "winv h True st1" for st1
      using wemit_inv[OF that] that(2) by (simp add: winv_def wcore_def)
  qed
  with assms(1) FinalDone show ?thesis by (simp add: invoke_def winv_True)
qed (use assms in \<open>auto simp: invoke_def return_to_def elim!: keeps split: if_splits
      intro: emit_error_inv next_again rec_inv wemit_inv\<close>)

lemma run_cmd_inv: "run_cmd h rec c st = Some (r, st') \<Longrightarrow> winv h F st \<Longrightarrow> winv h F st'"
  by (auto simp: run_cmd_def return_to_def throw_def cork_def setDefaultEncoding_def
      split: wcmd.splits if_splits list.splits
      intro: write_inv end_inv uncork_inv destroy_inv invoke_inv winv_cork call_callback_inv winv_intros)

lemma step_inv: "wstep h rec c st = Some (r, st') \<Longrightarrow> winv h F st \<Longrightarrow> winv h F st'"
  by (cases c)
    (auto simp: wstep_def run_wcmds_def return_to_def split: list.splits elim!: keeps
      intro: rec_inv run_cmd_inv call_all_inv call_vec_inv emit_finish_inv)

text \<open>Calls that a listener of \<^verbatim>\<open>drain\<close> may make only cork the stream.\<close>

lemma step_quiet:
  assumes "wstep h rec (RunW cmds) st = Some (r, st')" "list_all quiet cmds"
  shows "r = Inr True \<and> (\<exists>k\<ge>0. \<exists>e. st' = st\<lparr>w_corkCount := w_corkCount st + k, w_encoding := e\<rparr>)"
proof (cases cmds)
  case Nil
  then have "st' = st\<lparr>w_corkCount := w_corkCount st + 0, w_encoding := w_encoding st\<rparr>" "r = Inr True"
    using assms(1) by (simp_all add: wstep_def run_wcmds_def return_to_def)
  then show ?thesis by blast
next
  case (Cons c rest)
  obtain st1 k1 e1 where st1: "run_cmd h rec c st = Some (Inr True, st1)" "(0::int) \<le> k1"
    "st1 = st\<lparr>w_corkCount := w_corkCount st + k1, w_encoding := e1\<rparr>"
  proof (cases c)
    case CCork
    with that[of _ 1 "w_encoding st"] show thesis by (simp add: run_cmd_def cork_def return_to_def)
  next
    case (CDefaultEncoding e)
    with that[of _ 0 e] show thesis by (simp add: run_cmd_def setDefaultEncoding_def return_to_def)
  qed (use assms(2) Cons in \<open>simp_all add: quiet_def\<close>)
  have "rec (RunW rest) st1 = Some (r, st')"
    using assms(1) Cons st1(1) by (simp add: wstep_def run_wcmds_def and_then_simps)
  from rec_quiet[OF this] obtain k2 e2 where rest: "r = Inr True" "0 \<le> k2"
    "st' = st1\<lparr>w_corkCount := w_corkCount st1 + k2, w_encoding := e2\<rparr>"
    using assms(2) Cons by auto
  then have "st' = st\<lparr>w_corkCount := w_corkCount st + (k1 + k2), w_encoding := e2\<rparr>"
    using st1(3) by simp
  then show ?thesis using rest(1,2) st1(2) by (metis add_nonneg_nonneg)
qed

end

lemma exec_safe_runner: "safe_runner h (wexec h n)"
proof (induction n)
  case 0
  show ?case by unfold_locales simp_all
next
  case (Suc n)
  show ?case
    by unfold_locales (simp_all add: safe_runner.step_inv[OF Suc] safe_runner.step_quiet[OF Suc])
qed

interpretation exec_safe: safe_runner h "wexec h n" for h n
  by (rule exec_safe_runner)

text \<open>A run of user code on a new stream.\<close>

lemma run_winv:
  assumes "wsafe h" "wexec h n (RunW cmds) (new_writable options) = Some (r, st')"
  shows "winv h False st'"
  using exec_safe.rec_inv[OF assms(2)] winv_new[OF assms(1)] by simp

lemma final_ok_split:
  "final_ok (post @ Finalised # pre) \<Longrightarrow> set post \<subseteq> {Finished} \<and> delivered pre = accepted pre"
  by (induction post) (auto split: if_splits)

lemma final_ok_finished: "final_ok (post @ Finished # pre) \<Longrightarrow> Finalised \<in> set pre"
  by (induction post) (auto split: if_splits)

section \<open>Concrete user code\<close>

text \<open>\<^verbatim>\<open>Buffer.concat\<close> of two buffers; it throws for anything else.\<close>

fun concatBuffers :: "chunk \<Rightarrow> chunk \<Rightarrow> chunk option" where
  "concatBuffers (CBuf a) (CBuf b) = Some (CBuf (a @ b))"
| "concatBuffers c d = None"

text \<open>
  Hooks without listeners, whose \<^verbatim>\<open>_write\<close> and \<^verbatim>\<open>_final\<close> call back at once (\<open>sync\<close>) or leave it
  to the program.
\<close>

definition plain_hooks :: "bool \<Rightarrow> whooks" where
  "plain_hooks sync =
     (let answer = (\<lambda>i. if sync then [CCallback i None] else []) in
      \<lparr>on_event = (\<lambda>ev st. None), on_write = (\<lambda>i c e st. answer i), on_writev = None,
       on_final = (\<lambda>i st. answer i), on_destroy = (\<lambda>err i st. [CCallback i err]),
       on_callback = (\<lambda>n st. []), instanceOfError = (\<lambda>v. False),
       newBuffer = (\<lambda>s e. s), bufferConcat = concatBuffers\<rparr>)"

definition default_options :: woptions where
  "default_options = \<lparr>opt_objectMode = None, opt_highWaterMark = None, opt_decodeStrings = None,
     opt_emitClose = None\<rparr>"

lemma plain_hooks_safe: "wsafe (plain_hooks sync)"
proof -
  have "concatBuffers c d = Some r \<Longrightarrow>
      content r = content c @ content d \<and> chunk_length r = chunk_length c + chunk_length d" for c d r
    by (cases "(c, d)" rule: concatBuffers.cases) auto
  then show ?thesis by (simp add: wsafe_def concat_ok_def drain_ok_def plain_hooks_def Let_def)
qed

text \<open>Three writes, the first in progress while the others wait; then the end.\<close>

definition write_program :: "wcmd list" where
  "write_program =
     [CWrite (CStr (js ''ab'')) NoEncoding None, CWrite (CStr (js ''c'')) NoEncoding None,
      CWrite (CStr (js ''d'')) (EncodingFn (User 7)) None, CCallback 0 None,
      CEnd (EndArgs None NoEncoding None), CCallback 1 None, CCallback 2 None]"

lemma write_program_runs:
  "map_option (\<lambda>(r, st). (r, w_log st, w_destroyed st, w_corkCount st, w_writing st))
     (wexec (plain_hooks False) 20 (RunW write_program) (new_writable default_options)) =
   Some (Inr True, [Finished, Finalised, Delivered (CBuf (js ''cd'')), Accepted (CBuf (js ''d'')),
     Accepted (CBuf (js ''c'')), Delivered (CBuf (js ''ab'')), Accepted (CBuf (js ''ab''))],
     False, 0, False)"
  by code_simp

section \<open>The properties\<close>

lemma write_program_state:
  obtains st' where "wexec (plain_hooks False) 20 (RunW write_program) (new_writable default_options) =
      Some (Inr True, st')"
    "w_log st' = [Finished, Finalised, Delivered (CBuf (js ''cd'')), Accepted (CBuf (js ''d'')),
      Accepted (CBuf (js ''c'')), Delivered (CBuf (js ''ab'')), Accepted (CBuf (js ''ab''))]"
    "\<not> w_destroyed st'" "w_corkCount st' = 0" "\<not> w_writing st'"
  using write_program_runs by auto

text \<open>
  C7. The chunks reach \<^verbatim>\<open>_write\<close> in the order in which \<^verbatim>\<open>write\<close> accepted them: at the end of every run
  what was delivered followed by what is in the buffer is what was accepted, and after \<^verbatim>\<open>destroy\<close> the
  delivered part is still a prefix; \<^verbatim>\<open>writableLength\<close> is the size of the buffer.  This is for a new stream
  without \<^verbatim>\<open>_writev\<close> (with one chunks are delivered twice, \<open>writev_duplicates\<close>), whose \<^verbatim>\<open>drain\<close> listeners
  at most call \<^verbatim>\<open>cork\<close> and \<^verbatim>\<open>setDefaultEncoding\<close> and do not throw (a write there overtakes the buffer,
  \<open>drain_reorders\<close>), and when \<^verbatim>\<open>Buffer.concat\<close> joins the bytes; everything else, \<^verbatim>\<open>_write\<close>, \<^verbatim>\<open>_final\<close> and the other listeners, is arbitrary.
\<close>

theorem writable_in_order:
  assumes "wsafe h" "wexec h n (RunW cmds) (new_writable options) = Some (r, st')"
  shows "(\<exists>rest. accepted (w_log st') = delivered (w_log st') @ rest) \<and>
    (\<not> w_destroyed st' \<longrightarrow>
       accepted (w_log st') = delivered (w_log st') @ buffered st' \<and>
       w_length st' = sum_list (map (chunk_size st' \<circ> we_chunk) (buffer st')))"
  using run_winv[OF assms] by (auto simp: winv_def wcore_def)

theorem writable_in_order_witness:
  "\<exists>st'. wexec (plain_hooks False) 20 (RunW write_program) (new_writable default_options) =
       Some (Inr True, st') \<and> accepted (w_log st') = delivered (w_log st') @ buffered st'"
proof -
  obtain st' where run: "wexec (plain_hooks False) 20 (RunW write_program) (new_writable default_options) =
      Some (Inr True, st')"
    and st': "w_log st' = [Finished, Finalised, Delivered (CBuf (js ''cd'')), Accepted (CBuf (js ''d'')),
      Accepted (CBuf (js ''c'')), Delivered (CBuf (js ''ab'')), Accepted (CBuf (js ''ab''))]"
      "\<not> w_destroyed st'" "w_corkCount st' = 0" "\<not> w_writing st'"
    by (rule write_program_state)
  show ?thesis
    using run writable_in_order[OF plain_hooks_safe run] st'(2) by auto
qed

text \<open>
  C27. \<^verbatim>\<open>_final\<close> is called at most once, when everything that was accepted has been delivered;
  after it nothing is accepted or delivered; \<^verbatim>\<open>finish\<close> is emitted only after it.  The stream is new, has no
  \<^verbatim>\<open>_writev\<close>, its \<^verbatim>\<open>drain\<close> listeners at most call \<^verbatim>\<open>cork\<close> and \<^verbatim>\<open>setDefaultEncoding\<close> and do not throw, and
  \<^verbatim>\<open>Buffer.concat\<close> joins the bytes; the other user code is arbitrary.
\<close>

theorem writable_final:
  assumes "wsafe h" "wexec h n (RunW cmds) (new_writable options) = Some (r, st')"
  shows "(w_log st' = post @ Finalised # pre \<longrightarrow> set post \<subseteq> {Finished} \<and> delivered pre = accepted pre) \<and>
    (w_log st' = post @ Finished # pre \<longrightarrow> Finalised \<in> set pre)"
  using run_winv[OF assms] final_ok_split[of post pre] final_ok_finished[of post pre]
  by (auto simp: winv_def wcore_def)

theorem writable_final_witness:
  "\<exists>st'. wexec (plain_hooks False) 20 (RunW write_program) (new_writable default_options) =
       Some (Inr True, st') \<and> (\<exists>pre. w_log st' = [] @ Finished # pre \<and> Finalised \<in> set pre)"
proof -
  obtain st' where run: "wexec (plain_hooks False) 20 (RunW write_program) (new_writable default_options) =
      Some (Inr True, st')"
    and st': "w_log st' = [Finished, Finalised, Delivered (CBuf (js ''cd'')), Accepted (CBuf (js ''d'')),
      Accepted (CBuf (js ''c'')), Delivered (CBuf (js ''ab'')), Accepted (CBuf (js ''ab''))]"
      "\<not> w_destroyed st'" "w_corkCount st' = 0" "\<not> w_writing st'"
    by (rule write_program_state)
  show ?thesis
    using run writable_final[OF plain_hooks_safe run, of "[]"] st'(1) by auto
qed

text \<open>
  C35. Backpressure does not stall: chunks stay in the buffer of a stream that is not destroyed
  only while it is corked or a write is in progress.  The stream is new, has no \<^verbatim>\<open>_writev\<close>, its \<^verbatim>\<open>drain\<close>
  listeners at most call \<^verbatim>\<open>cork\<close> and \<^verbatim>\<open>setDefaultEncoding\<close> and do not throw, and \<^verbatim>\<open>Buffer.concat\<close> joins the bytes; the other user
  code is arbitrary.
\<close>

theorem writable_progress:
  assumes "wsafe h" "wexec h n (RunW cmds) (new_writable options) = Some (r, st')"
    "\<not> w_destroyed st'" "w_corkCount st' = 0" "\<not> w_writing st'"
  shows "buffer st' = [] \<and> accepted (w_log st') = delivered (w_log st')"
  using run_winv[OF assms(1,2)] assms(3-5) by (auto simp: winv_def wcore_def waiting_ok_def buffered_def)

theorem writable_progress_witness:
  "\<exists>st'. wexec (plain_hooks False) 20 (RunW write_program) (new_writable default_options) =
       Some (Inr True, st') \<and> buffer st' = []"
proof -
  obtain st' where run: "wexec (plain_hooks False) 20 (RunW write_program) (new_writable default_options) =
      Some (Inr True, st')"
    and st': "w_log st' = [Finished, Finalised, Delivered (CBuf (js ''cd'')), Accepted (CBuf (js ''d'')),
      Accepted (CBuf (js ''c'')), Delivered (CBuf (js ''ab'')), Accepted (CBuf (js ''ab''))]"
      "\<not> w_destroyed st'" "w_corkCount st' = 0" "\<not> w_writing st'"
    by (rule write_program_state)
  show ?thesis
    using run writable_progress[OF plain_hooks_safe run st'(2,3,4)] by auto
qed

end
