(* ===== verification/Writable_Runs.thy ===== *)
theory Writable_Runs
  imports Writable_Props
begin

text \<open>
  Runs of a \<^verbatim>\<open>Writable\<close>: with a \<^verbatim>\<open>_write\<close> that calls back at once every program of writes ends,
  delivers everything and finishes; and two runs that show why the ordering property excludes
  writing listeners of \<^verbatim>\<open>drain\<close> and \<^verbatim>\<open>_writev\<close>.
\<close>

section \<open>A \<open>_write\<close> that calls back at once\<close>

text \<open>Between two writes such a stream is at rest.\<close>

definition at_rest :: "writable \<Rightarrow> bool" where
  "at_rest st \<longleftrightarrow>
     \<not> w_destroyed st \<and> \<not> w_finished st \<and> \<not> w_EOF st \<and> \<not> w_writing st \<and> \<not> w_noUncork st \<and>
     w_corkCount st = 0 \<and> buffer st = [] \<and> w_once st = []"

lemma at_rest_frame [simp]:
  "at_rest (st\<lparr>w_emittedHighMark := b\<rparr>) = at_rest st"
  "at_rest (st\<lparr>w_ticks := ts\<rparr>) = at_rest st"
  by (simp_all add: at_rest_def buffer_def)

definition written :: "whooks \<Rightarrow> writable \<Rightarrow> chunk \<Rightarrow> piece list" where
  "written h st c = content (fst (write_args h c NoEncoding None st))"

abbreviation sync_hooks :: whooks where "sync_hooks \<equiv> plain_hooks True"

lemma sync_hooks_sel [simp]:
  "on_event sync_hooks ev st = None"
  "on_write sync_hooks i c e st = [CCallback i None]"
  "on_final sync_hooks i st = [CCallback i None]"
  "newBuffer sync_hooks s e = s"
  by (simp_all add: plain_hooks_def)

lemma wexec_nil [simp]: "wexec h (Suc n) (RunW []) st = Some (Inr True, st)"
  by (simp add: wstep_def run_wcmds_def return_to_def)

lemma wexec_cons:
  "wexec h (Suc n) (RunW (c # cs)) st =
     and_then (run_cmd h (wexec h n) c st) (\<lambda>_. wexec h n (RunW cs))"
  by (simp add: wstep_def run_wcmds_def)

lemma next_at_rest:
  assumes "at_rest st"
  shows "\<exists>b. writableNext sync_hooks rec st =
    Some (Inr True, st\<lparr>w_emittedHighMark := b\<rparr>)"
proof -
  have "writableNext sync_hooks rec st = Some (Inr True, st\<lparr>w_emittedHighMark := False\<rparr>) \<or>
      writableNext sync_hooks rec st = Some (Inr True, st\<lparr>w_emittedHighMark := w_emittedHighMark st\<rparr>)"
    using assms
    by (auto simp: writableNext_def at_rest_def wemit_def finish_up_def return_to_def and_then_def buffer_def)
  then show ?thesis by blast
qed

lemma write_at_rest:
  assumes "at_rest st"
  obtains b st' where
    "run_cmd sync_hooks (wexec sync_hooks (Suc (Suc n))) (CWrite c NoEncoding None) st = Some (Inr b, st')"
    "at_rest st'" "delivered (w_log st') = delivered (w_log st) @ written sync_hooks st c"
    "w_decodeStrings st' = w_decodeStrings st" "w_encoding st' = w_encoding st"
proof -
  obtain c' e cb where args: "write_args sync_hooks c NoEncoding None st = (c', e, cb)" by (metis prod_cases3)
  let ?i = "length (w_closures st)"
  let ?st1 = "st\<lparr>w_writing := True, w_log := Delivered c' # Accepted c' # w_log st,
    w_closures := w_closures st @ [WriteDone cb]\<rparr>"
  have "at_rest (?st1\<lparr>w_writing := False\<rparr>)" using assms by (simp add: at_rest_def buffer_def)
  from next_at_rest[OF this] obtain b where
    next_b: "writableNext sync_hooks (wexec sync_hooks (Suc n)) (?st1\<lparr>w_writing := False\<rparr>) =
      Some (Inr True, ?st1\<lparr>w_writing := False, w_emittedHighMark := b\<rparr>)" by auto
  let ?st2 = "?st1\<lparr>w_writing := False, w_emittedHighMark := b, w_ticks := w_ticks st @ [cb]\<rparr>"
  have "start_write sync_hooks (wexec sync_hooks (Suc (Suc n))) c' e (WriteDone cb)
      (logged (Accepted c') (st\<lparr>w_writing := True\<rparr>)) = Some (Inr True, ?st2)"
    using next_b
    by (simp add: start_write_def hand_out_def logged_def wexec_cons run_cmd_def invoke_def
        emit_error_def return_to_def and_then_def del: wexec.simps)
  then have run: "run_cmd sync_hooks (wexec sync_hooks (Suc (Suc n))) (CWrite c NoEncoding None) st =
      write_result ?st2"
    using assms args
    by (simp add: run_cmd_def writable_write_def at_rest_def and_then_def del: wexec.simps)
  have rest: "at_rest ?st2" "at_rest (?st2\<lparr>w_emittedHighMark := True\<rparr>)"
    using \<open>at_rest (?st1\<lparr>w_writing := False\<rparr>)\<close> by (simp_all only: at_rest_frame)
  show thesis
  proof (cases "w_length ?st2 < w_highWaterMark ?st2")
    case True
    with run rest(1) args show thesis
      by (intro that[of True ?st2]) (simp_all add: write_result_def return_to_def written_def)
  next
    case False
    with run rest(2) args show thesis
      by (intro that[of False "?st2\<lparr>w_emittedHighMark := True\<rparr>"])
        (simp_all add: write_result_def return_to_def written_def)
  qed
qed

text \<open>The end of a stream at rest: \<^verbatim>\<open>_final\<close> and \<^verbatim>\<open>finish\<close> follow at once.\<close>

lemma end_at_rest:
  assumes "at_rest st"
  shows "\<exists>st'. run_cmd sync_hooks (wexec sync_hooks (Suc (Suc n))) (CEnd (EndArgs None NoEncoding None)) st =
      Some (Inr True, st') \<and> w_finished st' \<and> w_log st' = Finished # Finalised # w_log st"
proof -
  let ?st1 = "st\<lparr>w_EOF := True, w_writable := False, w_corkCount := 0, w_finished := True,
    w_log := Finalised # w_log st, w_closures := w_closures st @ [FinalDone]\<rparr>"
  have final: "wexec sync_hooks (Suc (Suc n)) (RunW [CCallback (length (w_closures st)) None]) ?st1 =
      Some (Inr True, logged Finished ?st1)"
    using assms
    by (simp add: wexec_cons run_cmd_def invoke_def emit_error_def return_to_def and_then_def
        wemit_def wstep_def emit_finish_def logged_def at_rest_def run_wcmds_def)
  have "writableNext sync_hooks (wexec sync_hooks (Suc (Suc n)))
      (st\<lparr>w_EOF := True, w_writable := False, w_corkCount := 0\<rparr>) = Some (Inr True, logged Finished ?st1)"
    using assms final
    by (simp add: writableNext_def at_rest_def buffer_def finish_up_def hand_out_def logged_def
        return_to_def and_then_def del: wexec.simps)
  then show ?thesis
    using assms
    by (auto simp: run_cmd_def writable_end_def end_args_def at_rest_def logged_def Let_def
        simp del: wexec.simps)
qed

lemma writes_at_rest:
  assumes "at_rest st"
  shows "\<exists>st'. wexec sync_hooks (length cs + 4)
      (RunW (map (\<lambda>c. CWrite c NoEncoding None) cs @ [CEnd (EndArgs None NoEncoding None)])) st =
        Some (Inr True, st') \<and> w_finished st' \<and> hd (w_log st') = Finished \<and>
      delivered (w_log st') = delivered (w_log st) @ concat (map (written sync_hooks st) cs)"
  using assms
proof (induction cs arbitrary: st)
  case Nil
  then obtain st' where "run_cmd sync_hooks (wexec sync_hooks (Suc (Suc (Suc 0))))
      (CEnd (EndArgs None NoEncoding None)) st = Some (Inr True, st')"
    "w_finished st'" "w_log st' = Finished # Finalised # w_log st"
    using end_at_rest[of st "Suc 0"] by auto
  then show ?case
    by (simp add: wexec_cons and_then_def numeral_eq_Suc del: wexec.simps)
next
  case (Cons c cs)
  obtain b st1 where st1:
    "run_cmd sync_hooks (wexec sync_hooks (Suc (Suc (length cs + 2)))) (CWrite c NoEncoding None) st = Some (Inr b, st1)"
    "at_rest st1" "delivered (w_log st1) = delivered (w_log st) @ written sync_hooks st c"
    "w_decodeStrings st1 = w_decodeStrings st" "w_encoding st1 = w_encoding st"
    by (rule write_at_rest[OF Cons.prems])
  have "written sync_hooks st1 = written sync_hooks st"
    using st1(4,5) by (intro ext) (auto simp: written_def write_args_def Let_def split: chunk.split)
  with Cons.IH[OF st1(2)] st1(1,3) show ?case
    by (auto simp: wexec_cons and_then_def numeral_eq_Suc simp del: wexec.simps)
qed

text \<open>
  C34. With a \<^verbatim>\<open>_write\<close> and a \<^verbatim>\<open>_final\<close> that call back at once (the defaults), any list of writes
  followed by \<^verbatim>\<open>end\<close> returns, hands every chunk to \<^verbatim>\<open>_write\<close> in order and emits \<^verbatim>\<open>finish\<close>.
\<close>

theorem writable_finishes:
  "\<exists>st'. wexec sync_hooks (length cs + 4)
      (RunW (map (\<lambda>c. CWrite c NoEncoding None) cs @ [CEnd (EndArgs None NoEncoding None)]))
      (new_writable options) = Some (Inr True, st') \<and> w_finished st' \<and> hd (w_log st') = Finished \<and>
    delivered (w_log st') = concat (map (written sync_hooks (new_writable options)) cs)"
proof -
  have "at_rest (new_writable options)"
    by (simp add: at_rest_def new_writable_def Let_def buffer_def)
  moreover have "w_log (new_writable options) = []" by (simp add: new_writable_def Let_def)
  ultimately show ?thesis using writes_at_rest[of "new_writable options" cs] by simp
qed

section \<open>The conditions are needed\<close>

text \<open>
  A listener of \<^verbatim>\<open>drain\<close> that writes: \<^verbatim>\<open>drain\<close> is emitted when the buffer is below the mark, not
  when it is empty, and before the next entry is taken from it, so what the listener writes goes
  to \<^verbatim>\<open>_write\<close> ahead of the chunks that wait, and two writes are in progress at once.
\<close>

definition drain_writes :: whooks where
  "drain_writes = (plain_hooks False)\<lparr>on_event := (\<lambda>ev st.
     if ev = EvDrain then Some [CWrite (CObj 9 0) NoEncoding None] else None)\<rparr>"

definition object_options :: woptions where
  "object_options = default_options\<lparr>opt_objectMode := Some True, opt_highWaterMark := Some 2\<rparr>"

text \<open>
  A write made by a listener of \<^verbatim>\<open>drain\<close> overtakes the chunks in the buffer: object 9 is
  delivered before object 3, which was written before it.
\<close>

theorem drain_reorders:
  "map_option (\<lambda>(r, st). (accepted (w_log st), delivered (w_log st)))
     (wexec drain_writes 20 (RunW
        [CWrite (CObj 1 0) NoEncoding None, CWrite (CObj 2 0) NoEncoding None,
         CWrite (CObj 3 0) NoEncoding None, CCallback 0 None, CCallback 1 None])
        (new_writable object_options)) =
   Some ([Whole 1, Whole 2, Whole 3, Whole 9], [Whole 1, Whole 2, Whole 9, Whole 3])"
  by code_simp

text \<open>
  With a \<^verbatim>\<open>_writev\<close> the loop goes on to \<^verbatim>\<open>_write\<close>: the buffer is delivered as a whole, then its
  first entry once more, and the length becomes negative.
\<close>

definition with_writev :: whooks where
  "with_writev = (plain_hooks False)\<lparr>on_writev := Some (\<lambda>i entries st. [])\<rparr>"

lemma writev_duplicates:
  "map_option (\<lambda>(r, st). (accepted (w_log st), delivered (w_log st), w_length st))
     (wexec with_writev 20 (RunW
        [CWrite (CObj 1 0) NoEncoding None, CWrite (CObj 2 0) NoEncoding None, CCallback 0 None])
        (new_writable object_options)) =
   Some ([Whole 1, Whole 2], [Whole 1, Whole 2, Whole 2], -1)"
  by code_simp

end
