(* ===== verification/Arrays.thy ===== *)
theory Arrays
  imports Util_Core "HOL-Library.Word"
begin

text \<open>
  The methods of arrays, typed arrays and strings that \<^verbatim>\<open>lib_js/init.js\<close> adds where the engine
  has none: \<^verbatim>\<open>values\<close>, \<^verbatim>\<open>Array.from\<close>, \<^verbatim>\<open>find\<close>, \<^verbatim>\<open>includes\<close>, \<^verbatim>\<open>fill\<close>, \<^verbatim>\<open>trimRight\<close> and the search in
  buffers.  An array is a list (no holes); the loop of the buffer search may run forever, and
  then its value is \<open>None\<close>.
\<close>

section \<open>Integers of 32 bits\<close>

text \<open>\<^verbatim>\<open>x | 0\<close> and \<^verbatim>\<open>x >> 0\<close>: the two's complement of 32 bits; NaN and the infinities give 0.\<close>

definition toInt32 :: "int \<Rightarrow> int" where
  "toInt32 n = sint (word_of_int n :: 32 word)"

definition int32_of :: "jsval \<Rightarrow> int" where
  "int32_of v =
     (case v of
        JNum (Fin n) \<Rightarrow> toInt32 n
      | JBool b \<Rightarrow> if b then 1 else 0
      | _ \<Rightarrow> 0)"

lemma toInt32_bounds: "- (2 ^ 31) \<le> toInt32 n \<and> toInt32 n < 2 ^ 31"
  using sint_greater_eq[of "word_of_int n :: 32 word"] sint_less[of "word_of_int n :: 32 word"]
  by (simp add: toInt32_def)

lemma toInt32_id: "- (2 ^ 31) \<le> n \<Longrightarrow> n < 2 ^ 31 \<Longrightarrow> toInt32 n = n"
  by (simp add: toInt32_def sint_sbintrunc' signed_take_bit_int_eq_self)

section \<open>Iteration\<close>

text \<open>The iterator of \<^verbatim>\<open>values\<close>: \<^verbatim>\<open>nextIndex\<close>; \<^verbatim>\<open>next()\<close> reads the array as it is now.\<close>

definition values_next :: "'a list \<Rightarrow> nat \<Rightarrow> 'a option \<times> nat" where
  "values_next someArray nextIndex =
     (if nextIndex < length someArray then (Some (someArray ! nextIndex), nextIndex + 1)
      else (None, nextIndex))"

text \<open>\<^verbatim>\<open>Array.from\<close> of an array: \<^verbatim>\<open>while (!(r = i.next()).done) ar.push(r.value)\<close>.\<close>

function from_loop :: "'a list \<Rightarrow> nat \<Rightarrow> 'a list \<Rightarrow> 'a list" where
  "from_loop arr i ar =
     (case values_next arr i of (Some v, i') \<Rightarrow> from_loop arr i' (ar @ [v]) | (None, _) \<Rightarrow> ar)"
  by pat_completeness auto
termination
  by (relation "measure (\<lambda>(arr, i, _). length arr - i)") (auto simp: values_next_def split: if_splits)

declare from_loop.simps [simp del]

definition array_from :: "'a list \<Rightarrow> 'a list" where
  "array_from arr = from_loop arr 0 []"

section \<open>\<open>find\<close>, \<open>includes\<close>, \<open>fill\<close>\<close>

text \<open>The predicate gets the value and its index; it returns a truth value or throws.\<close>

function find_loop :: "(jsval \<Rightarrow> nat \<Rightarrow> jserr + bool) \<Rightarrow> jsval list \<Rightarrow> nat \<Rightarrow> jserr + jsval" where
  "find_loop predicate arr k =
     (if k < length arr then
        ebind (predicate (arr ! k) k) (\<lambda>b. if b then Inr (arr ! k) else find_loop predicate arr (k + 1))
      else Inr JUndef)"
  by pat_completeness auto
termination
  by (relation "measure (\<lambda>(_, arr, k). length arr - k)") auto

declare find_loop.simps [simp del]

definition array_find :: "(jsval \<Rightarrow> nat \<Rightarrow> jserr + bool) option \<Rightarrow> jsval list \<Rightarrow> jserr + jsval" where
  "array_find predicate arr =
     (case predicate of None \<Rightarrow> Inl TypeError | Some p \<Rightarrow> find_loop p arr 0)"

text \<open>\<^verbatim>\<open>===\<close> on values without NaN; \<^verbatim>\<open>sameValueZero\<close> adds NaN.\<close>

definition sameValueZero :: "jsval \<Rightarrow> jsval \<Rightarrow> bool" where
  "sameValueZero x y \<longleftrightarrow>
     (x = y \<and> x \<noteq> JNum NotANumber) \<or> (x = JNum NotANumber \<and> y = JNum NotANumber)"

function includes_loop :: "jsval list \<Rightarrow> jsval \<Rightarrow> nat \<Rightarrow> bool" where
  "includes_loop arr searchElement k =
     (if k < length arr then
        (if sameValueZero (arr ! k) searchElement then True else includes_loop arr searchElement (k + 1))
      else False)"
  by pat_completeness auto
termination
  by (relation "measure (\<lambda>(arr, _, k). length arr - k)") auto

declare includes_loop.simps [simp del]

definition array_includes :: "jsval list \<Rightarrow> jsval \<Rightarrow> jsval \<Rightarrow> bool" where
  "array_includes arr searchElement fromIndex =
     (let len = int (length arr) in
      if len = 0 then False
      else
        (let n = int32_of fromIndex;
             k = max (if n \<ge> 0 then n else len - \<bar>n\<bar>) 0
         in includes_loop arr searchElement (nat k)))"

fun fill_loop :: "jsval \<Rightarrow> jsval list \<Rightarrow> nat \<Rightarrow> nat \<Rightarrow> jsval list" where
  "fill_loop value arr k 0 = arr"
| "fill_loop value arr k (Suc n) = fill_loop value (arr[k := value]) (k + 1) n"

text \<open>
  The loop \<^verbatim>\<open>while (k < final) \{ O[k] = value; k++; \}\<close> runs \<open>final - k\<close> times; \<open>k\<close> and \<open>final\<close>
  are between 0 and the length.
\<close>

definition clamp :: "int \<Rightarrow> int \<Rightarrow> int" where
  "clamp len relative = (if relative < 0 then max (len + relative) 0 else min relative len)"

definition array_fill :: "jsval \<Rightarrow> jsval \<Rightarrow> jsval \<Rightarrow> jsval list \<Rightarrow> jsval list" where
  "array_fill value start endv arr =
     (let len = int (length arr);
          k = clamp len (int32_of start);
          final = clamp len (if endv = JUndef then len else int32_of endv)
      in fill_loop value arr (nat k) (nat (final - k)))"

section \<open>\<open>trimRight\<close>\<close>

definition rightWhitespace :: "nat list" where
  "rightWhitespace =
     [0x9, 0xA, 0xB, 0xC, 0xD, 0x20, 0xA0, 0x1680, 0x180E, 0x2000, 0x2001, 0x2002, 0x2003, 0x2004,
      0x2005, 0x2006, 0x2007, 0x2008, 0x2009, 0x200A, 0x202F, 0x205F, 0x3000, 0x2028, 0x2029, 0xFEFF]"

text \<open>The leftmost match of \<^verbatim>\<open>/[...]*$/\<close> is the longest suffix of such characters.\<close>

definition trimRight :: "jsstr \<Rightarrow> jsstr" where
  "trimRight s = rev (dropWhile (\<lambda>c. c \<in> set rightWhitespace) (rev s))"

section \<open>The search in buffers\<close>

text \<open>
  The argument is \<^verbatim>\<open>undefined\<close>, NaN, or anything else, which native code turns into bytes
  (\<^verbatim>\<open>Buffer.from(member)\<close>).
\<close>

datatype member = Undef | NaN | Bytes "nat list"

text \<open>\<^verbatim>\<open>for (j = 0, ok = true; j < memberArray.length; j++) ...\<close>; beyond the end is \<^verbatim>\<open>undefined\<close>.\<close>

fun matches_at :: "nat list \<Rightarrow> nat list \<Rightarrow> nat \<Rightarrow> bool" where
  "matches_at that [] i = True"
| "matches_at that (b # bs) i =
     (if i < length that \<and> that ! i = b then matches_at that bs (i + 1) else False)"

text \<open>\<^verbatim>\<open>for (; i !== limit; ++i)\<close>.\<close>

partial_function (option) search_loop :: "nat list \<Rightarrow> nat list \<Rightarrow> int \<Rightarrow> nat \<Rightarrow> int option" where
  "search_loop that memberArray limit i =
     (if int i \<noteq> limit then
        (if matches_at that memberArray i then Some (int i)
         else search_loop that memberArray limit (i + 1))
      else Some (-1))"

text \<open>\<^verbatim>\<open>min(fromIndex | 0, Len)\<close>, counted from the end when it is negative; \<open>None\<close> is \<^verbatim>\<open>i >= Len\<close>.\<close>

definition start_index :: "nat list \<Rightarrow> int \<Rightarrow> nat option" where
  "start_index that fromIndex =
     (let len = int (length that);
          i = min (toInt32 fromIndex) len
      in if i < 0 then Some (nat (max 0 (len + i)))
         else if i \<ge> len then None
         else Some (nat i))"

definition buffer_indexOf :: "nat list \<Rightarrow> member \<Rightarrow> int \<Rightarrow> int option" where
  "buffer_indexOf that member fromIndex =
     (case start_index that fromIndex of
        None \<Rightarrow> Some (-1)
      | Some i \<Rightarrow>
          (case member of
             Undef \<Rightarrow> Some (-1)
           | NaN \<Rightarrow> Some (-1)
           | Bytes memberArray \<Rightarrow>
               search_loop that memberArray
                 (int (length that) - int (length memberArray) + 1) i))"

end
