(* ===== verification/Arrays_Props.thy ===== *)
theory Arrays_Props
  imports Arrays
begin

text \<open>
  \<^verbatim>\<open>find\<close> returns the first match, \<^verbatim>\<open>includes\<close> and \<^verbatim>\<open>fill\<close> look at and change exactly the
  positions their 32-bit arguments select, and the search in a buffer returns if and only if it
  starts at most one position after the last place where the bytes fit.
\<close>

section \<open>Copies\<close>

lemma from_loop_drop: "from_loop arr i ar = ar @ drop i arr"
proof (induction arr i ar rule: from_loop.induct)
  case (1 arr i ar)
  show ?case
  proof (cases "i < length arr")
    case True
    with 1[of "Some (arr ! i)" "i + 1" "arr ! i"] show ?thesis
      by (simp add: from_loop.simps[of arr i] values_next_def Cons_nth_drop_Suc)
  next
    case False
    then show ?thesis by (simp add: from_loop.simps[of arr i] values_next_def)
  qed
qed

lemma array_from_copy: "array_from arr = arr"
  by (simp add: array_from_def from_loop_drop)

section \<open>The loops of \<open>find\<close>, \<open>includes\<close> and \<open>fill\<close>\<close>

text \<open>The predicate is called for the positions in order, up to the first that it accepts or at which it throws.\<close>

lemma find_loop_spec:
  "(find_loop p arr k = Inr JUndef \<and> (\<forall>i. k \<le> i \<and> i < length arr \<longrightarrow> p (arr ! i) i = Inr False)) \<or>
   (\<exists>i. k \<le> i \<and> i < length arr \<and> (\<forall>j. k \<le> j \<and> j < i \<longrightarrow> p (arr ! j) j = Inr False) \<and>
      (p (arr ! i) i = Inr True \<and> find_loop p arr k = Inr (arr ! i) \<or>
       (\<exists>e. p (arr ! i) i = Inl e \<and> find_loop p arr k = Inl e)))"
proof (induction p arr k rule: find_loop.induct)
  case (1 p arr k)
  show ?case
  proof (cases "k < length arr")
    case False
    then have "find_loop p arr k = Inr JUndef" by (simp add: find_loop.simps)
    with False show ?thesis by (intro disjI1) auto
  next
    case True
    show ?thesis
    proof (cases "p (arr ! k) k = Inr False")
      case False
      then show ?thesis
        using True by (cases "p (arr ! k) k") (auto simp: find_loop.simps intro!: exI[of _ k])
    next
      case stays: True
      then have eq: "find_loop p arr k = find_loop p arr (k + 1)"
        using True by (simp add: find_loop.simps[of p arr k])
      have less: "k \<le> i \<longleftrightarrow> i = k \<or> k + 1 \<le> i" for i by auto
      show ?thesis
        using 1[OF True, of False] stays unfolding eq less by fastforce
    qed
  qed
qed

lemma includes_loop_iff:
  "includes_loop arr x k \<longleftrightarrow> (\<exists>i\<ge>k. i < length arr \<and> sameValueZero (arr ! i) x)"
proof (induction arr x k rule: includes_loop.induct)
  case (1 arr x k)
  have "i \<ge> k \<longleftrightarrow> i = k \<or> i \<ge> k + 1" for i by auto
  with 1 show ?case by (auto simp: includes_loop.simps[of arr x k])
qed

lemma length_fill_loop [simp]: "length (fill_loop v arr k n) = length arr"
  by (induction v arr k n rule: fill_loop.induct) simp_all

lemma nth_fill_loop:
  "i < length arr \<Longrightarrow> fill_loop v arr k n ! i = (if k \<le> i \<and> i < k + n then v else arr ! i)"
proof (induction v arr k n rule: fill_loop.induct)
  case (2 v arr k n)
  have "k \<le> i \<longleftrightarrow> i = k \<or> Suc k \<le> i" by auto
  with 2 show ?case by (auto simp: nth_list_update)
qed auto

section \<open>The loop of the buffer search\<close>

text \<open>The bytes stand at position \<open>i\<close>.\<close>

definition occurs :: "nat list \<Rightarrow> nat list \<Rightarrow> nat \<Rightarrow> bool" where
  "occurs that m i \<longleftrightarrow> i + length m \<le> length that \<and> take (length m) (drop i that) = m"

lemma matches_at_iff: "i \<le> length that \<Longrightarrow> matches_at that m i \<longleftrightarrow> occurs that m i"
proof (induction that m i rule: matches_at.induct)
  case (2 that b bs i)
  show ?case
  proof (cases "i < length that")
    case True
    with 2 show ?thesis
      by (cases "that ! i = b") (auto simp: occurs_def Cons_nth_drop_Suc[symmetric])
  qed (simp add: occurs_def)
qed (simp add: occurs_def)

lemma matches_at_fits: "matches_at that m i \<Longrightarrow> m \<noteq> [] \<Longrightarrow> i + length m \<le> length that"
proof (induction that m i rule: matches_at.induct)
  case (2 that b bs i)
  then show ?case by (cases bs) (auto split: if_splits)
qed simp

text \<open>A loop that starts behind its limit never comes to an end.\<close>

lemma search_loop_bound:
  assumes "search_loop that m limit i = Some r"
  shows "m \<noteq> [] \<longrightarrow> int (length that) - int (length m) < int i \<longrightarrow> int i \<le> limit"
proof (rule search_loop.raw_induct[OF _ assms,
      where P = "\<lambda>that m limit i r. m \<noteq> [] \<longrightarrow> int (length that) - int (length m) < int i \<longrightarrow> int i \<le> limit"])
  fix rec :: "nat list \<Rightarrow> nat list \<Rightarrow> int \<Rightarrow> nat \<Rightarrow> int option" and that m limit i r
  assume IH: "\<And>that m limit i r. rec that m limit i = Some r \<Longrightarrow>
      m \<noteq> [] \<longrightarrow> int (length that) - int (length m) < int i \<longrightarrow> int i \<le> limit"
    and run: "(if int i \<noteq> limit
      then if matches_at that m i then Some (int i) else rec that m limit (i + 1)
      else Some (- 1)) = Some r"
  show "m \<noteq> [] \<longrightarrow> int (length that) - int (length m) < int i \<longrightarrow> int i \<le> limit"
  proof (intro impI)
    assume m: "m \<noteq> []" and i: "int (length that) - int (length m) < int i"
    then have "\<not> matches_at that m i" using matches_at_fits[of that m i] by auto
    then show "int i \<le> limit"
      using run IH[of that m limit "i + 1" r] m i by (auto split: if_splits)
  qed
qed

lemma search_loop_returns:
  assumes "int i \<le> int (length that) - int (length m) + 1" "m \<noteq> []"
  shows "search_loop that m (int (length that) - int (length m) + 1) i =
    Some (case find (occurs that m) [i..<length that] of Some k \<Rightarrow> int k | None \<Rightarrow> -1)"
  using assms
proof (induction "length that - i" arbitrary: i)
  case 0
  then have "\<not> matches_at that m i" using matches_at_fits[of that m i] by (cases m) auto
  moreover have "int i = int (length that) - int (length m) + 1" using 0 by (cases m) auto
  ultimately show ?case using 0 by (simp add: search_loop.simps)
next
  case (Suc k)
  then have i: "i < length that" "[i..<length that] = i # [i + 1..<length that]"
    by (auto simp: upt_conv_Cons)
  show ?case
  proof (cases "int i = int (length that) - int (length m) + 1")
    case True
    then have "\<not> occurs that m j" if "j \<ge> i" for j using that by (auto simp: occurs_def)
    then have "find (occurs that m) [i..<length that] = None" by (auto simp: find_None_iff)
    with True show ?thesis by (simp add: search_loop.simps)
  next
    case False
    then have "int (i + 1) \<le> int (length that) - int (length m) + 1" using Suc.prems(1) by simp
    with Suc.hyps(1)[of "i + 1"] Suc.hyps(2) Suc.prems(2)
    have "search_loop that m (int (length that) - int (length m) + 1) (i + 1) =
        Some (case find (occurs that m) [i + 1..<length that] of Some k \<Rightarrow> int k | None \<Rightarrow> -1)"
      by simp
    with False i show ?thesis
      by (simp add: search_loop.simps[of that m _ i] matches_at_iff)
  qed
qed

section \<open>The properties\<close>

text \<open>
  C29. The search for a non-empty sequence of bytes returns if and only if it starts at most one
  position behind the last place where the sequence fits; otherwise its loop counter passes the
  limit it is compared to with \<^verbatim>\<open>!==\<close> and the loop never ends.  Every other search returns.
\<close>

theorem indexOf_returns_iff:
  "buffer_indexOf that member fromIndex \<noteq> None \<longleftrightarrow>
     (case (start_index that fromIndex, member) of
        (Some i, Bytes m) \<Rightarrow> m = [] \<or> i + length m \<le> length that + 1
      | _ \<Rightarrow> True)"
proof (cases "\<exists>i m. start_index that fromIndex = Some i \<and> member = Bytes m")
  case False
  then show ?thesis
    by (auto simp: buffer_indexOf_def split: option.splits member.splits)
next
  case True
  then obtain i m where im: "start_index that fromIndex = Some i" "member = Bytes m" by auto
  have "i \<le> length that" using im(1) by (auto simp: start_index_def Let_def split: if_splits)
  then have "search_loop that [] (int (length that) + 1) i = Some (int i)"
    by (simp add: search_loop.simps)
  moreover have "search_loop that m (int (length that) - int (length m) + 1) i \<noteq> None \<longleftrightarrow>
      i + length m \<le> length that + 1" if "m \<noteq> []"
  proof
    assume "search_loop that m (int (length that) - int (length m) + 1) i \<noteq> None"
    then obtain r where "search_loop that m (int (length that) - int (length m) + 1) i = Some r" by auto
    from search_loop_bound[OF this] that show "i + length m \<le> length that + 1" by linarith
  next
    assume "i + length m \<le> length that + 1"
    then have "int i \<le> int (length that) - int (length m) + 1" by linarith
    then show "search_loop that m (int (length that) - int (length m) + 1) i \<noteq> None"
      using search_loop_returns[of i that m] that by simp
  qed
  ultimately show ?thesis using im by (cases "m = []") (auto simp: buffer_indexOf_def)
qed

text \<open>
  When the search returns, it returns the first position from the start on at which the bytes
  stand, and -1 when there is none.
\<close>

theorem indexOf_first:
  assumes "buffer_indexOf that (Bytes m) fromIndex = Some r" "m \<noteq> []" "start_index that fromIndex = Some s"
  shows "(r = -1 \<and> (\<forall>i\<ge>s. \<not> occurs that m i)) \<or>
    (\<exists>i\<ge>s. r = int i \<and> occurs that m i \<and> (\<forall>j. s \<le> j \<and> j < i \<longrightarrow> \<not> occurs that m j))"
proof -
  have run: "search_loop that m (int (length that) - int (length m) + 1) s = Some r"
    using assms by (simp add: buffer_indexOf_def)
  then have "int s \<le> int (length that) - int (length m) + 1"
    using search_loop_bound[OF run] assms(2) by linarith
  then have r: "r = (case find (occurs that m) [s..<length that] of Some k \<Rightarrow> int k | None \<Rightarrow> -1)"
    using search_loop_returns[of s that m] run assms(2) by simp
  have less: "i < length that" if "occurs that m i" for i
    using that assms(2) by (cases m) (auto simp: occurs_def)
  show ?thesis
  proof (cases "find (occurs that m) [s..<length that]")
    case None
    then have "\<forall>i\<ge>s. \<not> occurs that m i" using less by (auto simp: find_None_iff)
    with None r show ?thesis by simp
  next
    case (Some k)
    then obtain n where n: "n < length that - s" "occurs that m (s + n)" "k = s + n"
      "\<forall>j<n. \<not> occurs that m (s + j)"
      by (auto simp: find_Some_iff)
    have "\<not> occurs that m j" if "s \<le> j" "j < s + n" for j
      using n(4) that by (metis le_add_diff_inverse nat_add_left_cancel_less)
    with n r Some show ?thesis by (intro disjI2 exI[of _ k]) auto
  qed
qed

theorem indexOf_first_witness:
  "buffer_indexOf [1, 2, 3, 2, 3] (Bytes [2, 3]) 2 = Some 3 \<and> occurs [1, 2, 3, 2, 3] [2, 3] 3"
proof -
  have run: "buffer_indexOf [1, 2, 3, 2, 3] (Bytes [2, 3]) 2 = Some 3"
    by (simp add: buffer_indexOf_def start_index_def toInt32_id search_loop.simps)
  have "start_index [1, 2, 3, 2, 3] 2 = Some 2" by (simp add: start_index_def toInt32_id)
  with indexOf_first[OF run] show ?thesis using run by auto
qed

text \<open>
  \<^verbatim>\<open>find\<close> calls the predicate in order: it returns the first value the predicate accepts,
  \<^verbatim>\<open>undefined\<close> when there is none, and throws what the predicate throws before that; without a
  function it throws a TypeError.
\<close>

theorem find_first:
  "array_find None arr = Inl TypeError \<and>
   ((array_find (Some p) arr = Inr JUndef \<and> (\<forall>i<length arr. p (arr ! i) i = Inr False)) \<or>
    (\<exists>i<length arr. (\<forall>j<i. p (arr ! j) j = Inr False) \<and>
       (p (arr ! i) i = Inr True \<and> array_find (Some p) arr = Inr (arr ! i) \<or>
        (\<exists>e. p (arr ! i) i = Inl e \<and> array_find (Some p) arr = Inl e))))"
  using find_loop_spec[of p arr 0] by (auto simp: array_find_def)

theorem find_first_witness:
  "array_find (Some (\<lambda>v i. Inr (v = JNull))) [JUndef, JNull] = Inr JNull"
  using find_first[of "[JUndef, JNull]" "\<lambda>v i. Inr (v = JNull)"]
  by (auto simp: less_Suc_eq)

text \<open>
  \<^verbatim>\<open>fill\<close> keeps the length and writes exactly the positions from start to end, both taken
  as 32-bit integers and counted from the end when negative.
\<close>

theorem fill_spec:
  assumes "i < length arr"
  shows "length (array_fill v start endv arr) = length arr \<and>
    array_fill v start endv arr ! i =
      (if clamp (int (length arr)) (int32_of start) \<le> int i \<and>
          int i < (if endv = JUndef then int (length arr) else clamp (int (length arr)) (int32_of endv))
       then v else arr ! i)"
proof -
  have "0 \<le> clamp (int (length arr)) x" for x by (simp add: clamp_def)
  then show ?thesis
    using assms by (auto simp: array_fill_def Let_def nth_fill_loop clamp_def)
qed

theorem fill_spec_witness:
  "array_fill (JBool True) (JNum (Fin (-2))) JUndef [JNull, JNull, JNull] ! 1 = JBool True"
  using fill_spec[of 1 "[JNull, JNull, JNull]" "JBool True" "JNum (Fin (-2))" JUndef]
  by (simp add: clamp_def int32_of_def toInt32_id)

text \<open>\<^verbatim>\<open>includes\<close> looks at the positions from \<^verbatim>\<open>fromIndex\<close> on; NaN is found.\<close>

lemma includes_spec:
  "array_includes arr x fromIndex \<longleftrightarrow>
     (\<exists>i<length arr. sameValueZero (arr ! i) x \<and>
        (let n = int32_of fromIndex in (if n \<ge> 0 then n else int (length arr) + n) \<le> int i))"
  by (auto simp: array_includes_def Let_def includes_loop_iff nat_le_iff)

text \<open>\<^verbatim>\<open>trimRight\<close> removes the longest suffix of white space.\<close>

lemma trimRight_spec:
  "\<exists>w. s = trimRight s @ w \<and> set w \<subseteq> set rightWhitespace \<and>
     (trimRight s \<noteq> [] \<longrightarrow> last (trimRight s) \<notin> set rightWhitespace)"
proof -
  let ?ws = "\<lambda>c. c \<in> set rightWhitespace"
  have "s = trimRight s @ rev (takeWhile ?ws (rev s))"
    by (metis rev_append rev_rev_ident takeWhile_dropWhile_id trimRight_def)
  moreover have "last (trimRight s) \<notin> set rightWhitespace" if "trimRight s \<noteq> []"
    using that hd_dropWhile[of ?ws "rev s"] by (simp add: trimRight_def last_rev)
  ultimately show ?thesis by (metis set_rev set_takeWhileD subsetI)
qed

end
