(* ===== verification/Keypress.thy ===== *)
theory Keypress
  imports Js_Prelude
begin

text \<open>
  \<^verbatim>\<open>lib_js/internal/readline.js\<close>: the decoder of terminal key sequences.  The generator
  \<^verbatim>\<open>emitKeys\<close> is a state machine: a state for every \<^verbatim>\<open>yield\<close>, with the values of the variables
  that are still used.  An input is one UTF-16 unit as a string, or the empty string that
  \<^verbatim>\<open>lib_js/readline.js\<close> sends when a lone escape times out.
\<close>

section \<open>Keys\<close>

abbreviation (input) ESC :: nat where "ESC \<equiv> 27"
abbreviation (input) kEscape :: jsstr where "kEscape \<equiv> [27]"

record key =
  k_sequence :: jsstr
  k_name :: "jsstr option"
  k_ctrl :: bool
  k_meta :: bool
  k_shift :: bool
  k_code :: "jsstr option"

text \<open>\<^verbatim>\<open>ch >= '0' && ch <= '9'\<close>, and the other character classes; the empty string is in none.\<close>

definition digit :: "nat \<Rightarrow> bool" where
  "digit c \<longleftrightarrow> 48 \<le> c \<and> c \<le> 57"

definition digit_str :: "jsstr \<Rightarrow> bool" where
  "digit_str ch = (case ch of [c] \<Rightarrow> digit c | _ \<Rightarrow> False)"

definition upper :: "nat \<Rightarrow> bool" where
  "upper c \<longleftrightarrow> 65 \<le> c \<and> c \<le> 90"

definition letter :: "nat \<Rightarrow> bool" where
  "letter c \<longleftrightarrow> upper c \<or> (97 \<le> c \<and> c \<le> 122)"

definition alnum_str :: "jsstr \<Rightarrow> bool" where
  "alnum_str ch = (case ch of [c] \<Rightarrow> letter c \<or> digit c | _ \<Rightarrow> False)"

text \<open>\<^verbatim>\<open>ch <= '\x1a'\<close>, which the empty string satisfies.\<close>

definition control_str :: "jsstr \<Rightarrow> bool" where
  "control_str ch = (case ch of [] \<Rightarrow> True | c # r \<Rightarrow> c < 26 \<or> (c = 26 \<and> r = []))"

section \<open>Code and modifier\<close>

text \<open>
  \<^verbatim>\<open>/^(\d\d?)(;(\d))?([~^$])$/\<close>: the groups 1, 3 and 4; and \<^verbatim>\<open>/^((\d;)?(\d))?([A-Za-z])$/\<close>: the
  groups 3 and 4.
\<close>

definition tilde :: "nat \<Rightarrow> bool" where
  "tilde c \<longleftrightarrow> c = 126 \<or> c = 94 \<or> c = 36"

definition match_number :: "jsstr \<Rightarrow> (jsstr \<times> nat option \<times> nat) option" where
  "match_number cmd =
     (case cmd of
        [a, t] \<Rightarrow> if digit a \<and> tilde t then Some ([a], None, t) else None
      | [a, b, t] \<Rightarrow> if digit a \<and> digit b \<and> tilde t then Some ([a, b], None, t) else None
      | [a, x, m, t] \<Rightarrow> if digit a \<and> x = CHAR_SEMICOLON \<and> digit m \<and> tilde t then Some ([a], Some m, t) else None
      | [a, b, x, m, t] \<Rightarrow>
          if digit a \<and> digit b \<and> x = CHAR_SEMICOLON \<and> digit m \<and> tilde t then Some ([a, b], Some m, t) else None
      | _ \<Rightarrow> None)"

definition match_letter :: "jsstr \<Rightarrow> (nat option \<times> nat) option" where
  "match_letter cmd =
     (case cmd of
        [t] \<Rightarrow> if letter t then Some (None, t) else None
      | [m, t] \<Rightarrow> if digit m \<and> letter t then Some (Some m, t) else None
      | [a, x, m, t] \<Rightarrow>
          if digit a \<and> x = CHAR_SEMICOLON \<and> digit m \<and> letter t then Some (Some m, t) else None
      | _ \<Rightarrow> None)"

text \<open>\<^verbatim>\<open>(match[3] || 1) - 1\<close>; a group that matched \<^verbatim>\<open>'0'\<close> is a non-empty string.\<close>

definition modifier_of :: "nat option \<Rightarrow> int" where
  "modifier_of m = (case m of None \<Rightarrow> 0 | Some c \<Rightarrow> int c - 48 - 1)"

definition parse_cmd :: "jsstr \<Rightarrow> jsstr \<Rightarrow> jsstr \<times> int" where
  "parse_cmd code cmd =
     (case match_number cmd of
        Some (n, m, t) \<Rightarrow> (code @ n @ [t], modifier_of m)
      | None \<Rightarrow>
          (case match_letter cmd of
             Some (m, t) \<Rightarrow> (code @ [t], modifier_of m)
           | None \<Rightarrow> (code @ cmd, 0)))"

text \<open>The \<^verbatim>\<open>switch\<close> over the code: the name, and the flag that some cases set.\<close>

datatype key_flag = NoFlag | Shift | Ctrl

definition key_table :: "(jsstr \<times> jsstr \<times> key_flag) list" where
  "key_table =
     [(js ''OP'', js ''f1'', NoFlag), (js ''OQ'', js ''f2'', NoFlag),
      (js ''OR'', js ''f3'', NoFlag), (js ''OS'', js ''f4'', NoFlag),
      (js ''[11~'', js ''f1'', NoFlag), (js ''[12~'', js ''f2'', NoFlag),
      (js ''[13~'', js ''f3'', NoFlag), (js ''[14~'', js ''f4'', NoFlag),
      (js ''[[A'', js ''f1'', NoFlag), (js ''[[B'', js ''f2'', NoFlag),
      (js ''[[C'', js ''f3'', NoFlag), (js ''[[D'', js ''f4'', NoFlag),
      (js ''[[E'', js ''f5'', NoFlag), (js ''[15~'', js ''f5'', NoFlag),
      (js ''[17~'', js ''f6'', NoFlag), (js ''[18~'', js ''f7'', NoFlag),
      (js ''[19~'', js ''f8'', NoFlag), (js ''[20~'', js ''f9'', NoFlag),
      (js ''[21~'', js ''f10'', NoFlag), (js ''[23~'', js ''f11'', NoFlag),
      (js ''[24~'', js ''f12'', NoFlag), (js ''[A'', js ''up'', NoFlag),
      (js ''[B'', js ''down'', NoFlag), (js ''[C'', js ''right'', NoFlag),
      (js ''[D'', js ''left'', NoFlag), (js ''[E'', js ''clear'', NoFlag),
      (js ''[F'', js ''end'', NoFlag), (js ''[H'', js ''home'', NoFlag),
      (js ''OA'', js ''up'', NoFlag), (js ''OB'', js ''down'', NoFlag),
      (js ''OC'', js ''right'', NoFlag), (js ''OD'', js ''left'', NoFlag),
      (js ''OE'', js ''clear'', NoFlag), (js ''OF'', js ''end'', NoFlag),
      (js ''OH'', js ''home'', NoFlag), (js ''[1~'', js ''home'', NoFlag),
      (js ''[2~'', js ''insert'', NoFlag), (js ''[3~'', js ''delete'', NoFlag),
      (js ''[4~'', js ''end'', NoFlag), (js ''[5~'', js ''pageup'', NoFlag),
      (js ''[6~'', js ''pagedown'', NoFlag), (js ''[[5~'', js ''pageup'', NoFlag),
      (js ''[[6~'', js ''pagedown'', NoFlag), (js ''[7~'', js ''home'', NoFlag),
      (js ''[8~'', js ''end'', NoFlag), (js ''[a'', js ''up'', Shift),
      (js ''[b'', js ''down'', Shift), (js ''[c'', js ''right'', Shift),
      (js ''[d'', js ''left'', Shift), (js ''[e'', js ''clear'', Shift),
      (js ''[2$'', js ''insert'', Shift), (js ''[3$'', js ''delete'', Shift),
      (js ''[5$'', js ''pageup'', Shift), (js ''[6$'', js ''pagedown'', Shift),
      (js ''[7$'', js ''home'', Shift), (js ''[8$'', js ''end'', Shift),
      (js ''Oa'', js ''up'', Ctrl), (js ''Ob'', js ''down'', Ctrl),
      (js ''Oc'', js ''right'', Ctrl), (js ''Od'', js ''left'', Ctrl),
      (js ''Oe'', js ''clear'', Ctrl), (js ''[2^'', js ''insert'', Ctrl),
      (js ''[3^'', js ''delete'', Ctrl), (js ''[5^'', js ''pageup'', Ctrl),
      (js ''[6^'', js ''pagedown'', Ctrl), (js ''[7^'', js ''home'', Ctrl),
      (js ''[8^'', js ''end'', Ctrl), (js ''[Z'', js ''tab'', Shift)]"

definition key_of_code :: "jsstr \<Rightarrow> jsstr \<times> key_flag" where
  "key_of_code code = (case map_of key_table code of Some r \<Rightarrow> r | None \<Rightarrow> (js ''undefined'', NoFlag))"

unbundle bit_operations_syntax

definition modifier_bits :: "int \<Rightarrow> int \<Rightarrow> bool" where
  "modifier_bits modifier bits \<longleftrightarrow> modifier AND bits \<noteq> 0"

definition escape_key :: "jsstr \<Rightarrow> jsstr \<Rightarrow> int \<Rightarrow> key" where
  "escape_key s code modifier =
     (case key_of_code code of
        (name, flag) \<Rightarrow>
          \<lparr>k_sequence = s, k_name = Some name,
           k_ctrl = (modifier_bits modifier 4 \<or> flag = Ctrl),
           k_meta = modifier_bits modifier 10,
           k_shift = (modifier_bits modifier 1 \<or> flag = Shift),
           k_code = Some code\<rparr>)"

section \<open>Other keys\<close>

text \<open>The chain of \<^verbatim>\<open>else if\<close> for a character that starts no sequence.\<close>

definition plain_key :: "jsstr \<Rightarrow> jsstr \<Rightarrow> bool \<Rightarrow> key" where
  "plain_key s ch escaped =
     (let key = (\<lambda>name ctrl meta shift.
            \<lparr>k_sequence = s, k_name = name, k_ctrl = ctrl, k_meta = meta, k_shift = shift,
             k_code = None\<rparr>) in
      if ch = [13] then key (Some (js ''return'')) False False False
      else if ch = [10] then key (Some (js ''enter'')) False False False
      else if ch = [9] then key (Some (js ''tab'')) False False False
      else if ch = [8] \<or> ch = [127] then key (Some (js ''backspace'')) False escaped False
      else if ch = kEscape then key (Some (js ''escape'')) False escaped False
      else if ch = [32] then key (Some (js ''space'')) False escaped False
      else if \<not> escaped \<and> control_str ch then
        key (Some [if ch = [] then 0 else hd ch + 97 - 1]) True False False
      else if alnum_str ch then
        key (Some (toLowerCase ch)) False escaped (case ch of [c] \<Rightarrow> upper c | _ \<Rightarrow> False)
      else if escaped then key (if ch \<noteq> [] then None else Some (js ''escape'')) False True False
      else key None False False False)"

text \<open>What is emitted: the arguments of the event \<^verbatim>\<open>keypress\<close>, or nothing.\<close>

definition keypress :: "bool \<Rightarrow> key \<Rightarrow> (jsstr option \<times> key) option" where
  "keypress escaped key =
     (let s = k_sequence key in
      if length s \<noteq> 0 \<and> (k_name key \<noteq> None \<or> escaped) then Some (if escaped then None else Some s, key)
      else if length s = 1 then Some (Some s, key)
      else None)"

section \<open>The generator\<close>

datatype kstate =
    Start
  | Escaped jsstr
  | Escaped2 jsstr
  | LetterO jsstr
  | LetterO_mod jsstr int
  | Bracket jsstr
  | Bracket2 jsstr
  | OneDigit jsstr jsstr nat
  | TwoDigits jsstr jsstr nat
  | Semicolon jsstr jsstr nat
  | Modifier jsstr jsstr nat

type_synonym kstep = "kstate \<times> (jsstr option \<times> key) option"

definition emit_plain :: "jsstr \<Rightarrow> jsstr \<Rightarrow> bool \<Rightarrow> kstep" where
  "emit_plain s ch escaped = (Start, keypress escaped (plain_key s ch escaped))"

definition emit_code :: "jsstr \<Rightarrow> jsstr \<Rightarrow> int \<Rightarrow> kstep" where
  "emit_code s code modifier = (Start, keypress True (escape_key s code modifier))"

text \<open>After an escape: \<^verbatim>\<open>O\<close> and \<^verbatim>\<open>[\<close> start a sequence.\<close>

definition after_escape :: "jsstr \<Rightarrow> jsstr \<Rightarrow> kstep" where
  "after_escape s ch =
     (if ch = js ''O'' then (LetterO s, None)
      else if ch = js ''['' then (Bracket s, None)
      else emit_plain s ch True)"

definition finish_cmd :: "jsstr \<Rightarrow> jsstr \<Rightarrow> nat \<Rightarrow> kstep" where
  "finish_cmd s code cmdStart =
     (case parse_cmd code (sliceFrom s cmdStart) of (code', modifier) \<Rightarrow> emit_code s code' modifier)"

definition skip_modifier :: "jsstr \<Rightarrow> jsstr \<Rightarrow> nat \<Rightarrow> jsstr \<Rightarrow> kstep" where
  "skip_modifier s code cmdStart ch =
     (if ch = [CHAR_SEMICOLON] then (Semicolon s code cmdStart, None) else finish_cmd s code cmdStart)"

definition skip_digits :: "jsstr \<Rightarrow> jsstr \<Rightarrow> jsstr \<Rightarrow> kstep" where
  "skip_digits s code ch =
     (let cmdStart = length s - 1 in
      if digit_str ch then (OneDigit s code cmdStart, None)
      else skip_modifier s code cmdStart ch)"

text \<open>One call of \<^verbatim>\<open>next(ch)\<close>.\<close>

fun key_next :: "kstate \<Rightarrow> jsstr \<Rightarrow> kstep" where
  "key_next Start ch = (if ch = kEscape then (Escaped ch, None) else emit_plain ch ch False)"
| "key_next (Escaped s) ch =
     (if ch = kEscape then (Escaped2 (s @ ch), None) else after_escape (s @ ch) ch)"
| "key_next (Escaped2 s) ch = after_escape (s @ ch) ch"
| "key_next (LetterO s) ch =
     (if digit_str ch then (LetterO_mod (s @ ch) (int (hd ch) - 48 - 1), None)
      else emit_code (s @ ch) (js ''O'' @ ch) 0)"
| "key_next (LetterO_mod s modifier) ch = emit_code (s @ ch) (js ''O'' @ ch) modifier"
| "key_next (Bracket s) ch =
     (if ch = js ''['' then (Bracket2 (s @ ch), None) else skip_digits (s @ ch) (js ''['') ch)"
| "key_next (Bracket2 s) ch = skip_digits (s @ ch) (js ''[['') ch"
| "key_next (OneDigit s code cmdStart) ch =
     (if digit_str ch then (TwoDigits (s @ ch) code cmdStart, None)
      else skip_modifier (s @ ch) code cmdStart ch)"
| "key_next (TwoDigits s code cmdStart) ch = skip_modifier (s @ ch) code cmdStart ch"
| "key_next (Semicolon s code cmdStart) ch =
     (if digit_str ch then (Modifier (s @ ch) code cmdStart, None) else finish_cmd (s @ ch) code cmdStart)"
| "key_next (Modifier s code cmdStart) ch = finish_cmd (s @ ch) code cmdStart"

text \<open>A run of the generator over a list of inputs: the state and the events, in order.\<close>

fun key_run :: "kstate \<Rightarrow> jsstr list \<Rightarrow> kstate \<times> (jsstr option \<times> key) list" where
  "key_run st [] = (st, [])"
| "key_run st (ch # rest) =
     (case key_next st ch of
        (st1, ev) \<Rightarrow>
          (case key_run st1 rest of
             (st2, evs) \<Rightarrow> (st2, (case ev of None \<Rightarrow> evs | Some e \<Rightarrow> e # evs))))"

end
