(* ===== verification/Keypress_Props.thy ===== *)
theory Keypress_Props
  imports Keypress
begin

text \<open>
  The decoder loses no input, keeps at most eight units back, gives them up at the first time-out,
  and reads the modifier of a sequence as the terminals define it.
\<close>

section \<open>What is kept back\<close>

definition pending :: "kstate \<Rightarrow> jsstr" where
  "pending st =
     (case st of
        Start \<Rightarrow> [] | Escaped s \<Rightarrow> s | Escaped2 s \<Rightarrow> s | LetterO s \<Rightarrow> s | LetterO_mod s m \<Rightarrow> s
      | Bracket s \<Rightarrow> s | Bracket2 s \<Rightarrow> s | OneDigit s c k \<Rightarrow> s | TwoDigits s c k \<Rightarrow> s
      | Semicolon s c k \<Rightarrow> s | Modifier s c k \<Rightarrow> s)"

text \<open>How many units a state can have kept back, at most.\<close>

definition room :: "kstate \<Rightarrow> nat" where
  "room st =
     (case st of
        Start \<Rightarrow> 0 | Escaped s \<Rightarrow> 1 | Escaped2 s \<Rightarrow> 2 | LetterO s \<Rightarrow> 3 | LetterO_mod s m \<Rightarrow> 4
      | Bracket s \<Rightarrow> 3 | Bracket2 s \<Rightarrow> 4 | OneDigit s c k \<Rightarrow> 5 | TwoDigits s c k \<Rightarrow> 6
      | Semicolon s c k \<Rightarrow> 7 | Modifier s c k \<Rightarrow> 8)"

definition key_ok :: "kstate \<Rightarrow> bool" where
  "key_ok st \<longleftrightarrow> length (pending st) \<le> room st \<and> (st \<noteq> Start \<longrightarrow> pending st \<noteq> [])"

text \<open>The text an event stands for.\<close>

definition event_text :: "(jsstr option \<times> key) option \<Rightarrow> jsstr" where
  "event_text ev = (case ev of None \<Rightarrow> [] | Some (_, key) \<Rightarrow> k_sequence key)"

lemmas emit_defs = emit_plain_def emit_code_def after_escape_def skip_digits_def skip_modifier_def
  finish_cmd_def event_text_def pending_def room_def key_ok_def Let_def

lemma plain_key_sequence [simp]: "k_sequence (plain_key s ch e) = s"
  by (simp add: plain_key_def Let_def)

lemma escape_key_sequence [simp]: "k_sequence (escape_key s code m) = s"
  by (simp add: escape_key_def split: prod.split)

lemma keypress_escaped: "k_sequence key \<noteq> [] \<Longrightarrow> keypress True key = Some (None, key)"
  by (simp add: keypress_def)

lemma keypress_single: "length (k_sequence key) = 1 \<Longrightarrow> \<exists>a. keypress False key = Some (a, key)"
  by (auto simp: keypress_def Let_def)

text \<open>Every sequence that was begun ends in an event, whose text is all that was kept back.\<close>

lemma after_escape_text:
  assumes "after_escape s ch = (st', ev)" "s \<noteq> []"
  shows "(ev = None \<and> st' \<noteq> Start \<and> pending st' = s) \<or> (\<exists>a key. ev = Some (a, key) \<and> st' = Start \<and> k_sequence key = s)"
  using assms by (auto simp: emit_defs keypress_escaped split: if_splits)

lemma finish_cmd_text:
  "s \<noteq> [] \<Longrightarrow> \<exists>key. finish_cmd s code k = (Start, Some (None, key)) \<and> k_sequence key = s"
  by (auto simp: emit_defs keypress_escaped split: prod.split)

lemma skip_modifier_text:
  assumes "skip_modifier s code k ch = (st', ev)" "s \<noteq> []"
  shows "(ev = None \<and> st' = Semicolon s code k) \<or> (\<exists>a key. ev = Some (a, key) \<and> st' = Start \<and> k_sequence key = s)"
  using assms finish_cmd_text[of s code k] by (auto simp: skip_modifier_def split: if_splits)

lemma skip_digits_text:
  assumes "skip_digits s code ch = (st', ev)" "s \<noteq> []"
  shows "(ev = None \<and> (\<exists>k. st' = OneDigit s code k \<or> st' = Semicolon s code k)) \<or>
    (\<exists>a key. ev = Some (a, key) \<and> st' = Start \<and> k_sequence key = s)"
  using assms skip_modifier_text[of s code "length s - 1" ch st' ev]
  by (auto simp: skip_digits_def Let_def split: if_splits)

lemma emit_code_text: "s \<noteq> [] \<Longrightarrow> \<exists>key. emit_code s code m = (Start, Some (None, key)) \<and> k_sequence key = s"
  by (simp add: emit_code_def keypress_escaped)

text \<open>One step on a state that has kept something back.\<close>

lemma key_next_text:
  assumes "key_next st ch = (st', ev)" "key_ok st" "length ch \<le> 1" "st \<noteq> Start"
  shows "(ev = None \<and> st' \<noteq> Start \<and> pending st' = pending st @ ch) \<or>
    (\<exists>a key. ev = Some (a, key) \<and> st' = Start \<and> k_sequence key = pending st @ ch)"
proof (cases st)
  case (Escaped s)
  then show ?thesis
    using assms after_escape_text[of "s @ ch" ch st' ev] by (auto simp: key_ok_def pending_def split: if_splits)
next
  case (Escaped2 s)
  then show ?thesis
    using assms after_escape_text[of "s @ ch" ch st' ev] by (auto simp: key_ok_def pending_def)
next
  case (LetterO s)
  then show ?thesis
    using assms emit_code_text[of "s @ ch" "js ''O'' @ ch" 0]
    by (auto simp: key_ok_def pending_def simp del: js_Cons split: if_splits)
next
  case (LetterO_mod s m)
  then show ?thesis
    using assms emit_code_text[of "s @ ch" "js ''O'' @ ch" m]
    by (auto simp: key_ok_def pending_def simp del: js_Cons)
next
  case (Bracket s)
  then show ?thesis
    using assms skip_digits_text[of "s @ ch" "js ''[''" ch st' ev]
    by (auto simp: key_ok_def pending_def simp del: js_Cons split: if_splits)
next
  case (Bracket2 s)
  then show ?thesis
    using assms skip_digits_text[of "s @ ch" "js ''[[''" ch st' ev]
    by (auto simp: key_ok_def pending_def simp del: js_Cons)
next
  case (OneDigit s code k)
  then show ?thesis
    using assms skip_modifier_text[of "s @ ch" code k ch st' ev]
    by (auto simp: key_ok_def pending_def split: if_splits)
next
  case (TwoDigits s code k)
  then show ?thesis
    using assms skip_modifier_text[of "s @ ch" code k ch st' ev] by (auto simp: key_ok_def pending_def)
next
  case (Semicolon s code k)
  then show ?thesis
    using assms finish_cmd_text[of "s @ ch" code k]
    by (auto simp: key_ok_def pending_def split: if_splits)
next
  case (Modifier s code k)
  then show ?thesis
    using assms finish_cmd_text[of "s @ ch" code k] by (auto simp: key_ok_def pending_def)
qed (use assms in simp)

lemma key_next_start:
  assumes "key_next Start ch = (st', ev)" "length ch \<le> 1"
  shows "(ev = None \<and> pending st' = ch \<and> key_ok st') \<or>
    (\<exists>a key. ev = Some (a, key) \<and> st' = Start \<and> k_sequence key = ch)"
proof (cases ch)
  case Nil
  then show ?thesis
    using assms by (auto simp: emit_defs keypress_def)
next
  case (Cons c r)
  then have "length (k_sequence (plain_key ch ch False)) = 1" using assms(2) by simp
  then obtain a where "keypress False (plain_key ch ch False) = Some (a, plain_key ch ch False)"
    using keypress_single by blast
  note event = this
  show ?thesis
  proof (cases "ch = kEscape")
    case True
    then show ?thesis using assms by (auto simp: emit_defs)
  next
    case False
    then have "ev = Some (a, plain_key ch ch False)" "st' = Start"
      using assms(1) event by (simp_all add: emit_plain_def)
    then show ?thesis by simp
  qed
qed

text \<open>The states are passed in one direction, so the text kept back is bounded.\<close>

lemma room_bound: "room st \<le> 8"
  by (simp add: room_def split: kstate.split)

lemma key_next_room:
  "key_next st ch = (st', ev) \<Longrightarrow> st \<noteq> Start \<Longrightarrow> st' \<noteq> Start \<Longrightarrow> room st < room st'"
  by (cases st) (auto simp: emit_defs split: if_splits prod.splits)

lemma key_next_ok:
  assumes "key_next st ch = (st', ev)" "key_ok st" "length ch \<le> 1"
  shows "key_ok st' \<and> event_text ev @ pending st' = pending st @ ch"
proof (cases "st = Start")
  case True
  have "key_ok Start" "pending Start = []" by (simp_all add: key_ok_def pending_def)
  with True key_next_start[of ch st' ev] assms show ?thesis
    by (auto simp: event_text_def)
next
  case False
  from key_next_text[OF assms False] show ?thesis
  proof (elim disjE exE conjE)
    assume *: "ev = None" "st' \<noteq> Start" "pending st' = pending st @ ch"
    have "length (pending st') \<le> room st'"
      using key_next_room[OF assms(1) False *(2)] assms(2,3) *(3) by (simp add: key_ok_def)
    with * False assms(2) show ?thesis by (simp add: key_ok_def event_text_def)
  qed (simp add: key_ok_def pending_def event_text_def)
qed

lemma key_run_text:
  assumes "key_run st inputs = (st', evs)" "key_ok st" "list_all (\<lambda>ch. length ch \<le> 1) inputs"
  shows "key_ok st' \<and> concat (map (k_sequence \<circ> snd) evs) @ pending st' = pending st @ concat inputs \<and>
    list_all (\<lambda>e. length (k_sequence (snd e)) \<le> 9) evs"
  using assms
proof (induction inputs arbitrary: st evs)
  case (Cons ch rest)
  obtain st1 ev where step: "key_next st ch = (st1, ev)" by (cases "key_next st ch")
  obtain evs1 where run: "key_run st1 rest = (st', evs1)" and
    evs: "evs = (case ev of None \<Rightarrow> evs1 | Some e \<Rightarrow> e # evs1)"
    using Cons.prems(1) step by (auto split: prod.splits)
  have st1: "key_ok st1" "event_text ev @ pending st1 = pending st @ ch"
    using key_next_ok[OF step Cons.prems(2)] Cons.prems(3) by simp_all
  have "length (event_text ev @ pending st1) \<le> 9"
    using Cons.prems(2,3) room_bound[of st] by (simp add: st1(2) key_ok_def)
  then have "length (event_text ev) \<le> 9" by simp
  with Cons.IH[OF run st1(1)] Cons.prems(3) st1(2) evs show ?case
    by (auto simp: event_text_def split: option.splits)
qed simp

section \<open>Modifiers\<close>

text \<open>The modifiers 0 to 8 as the terminals number them.\<close>

lemma modifier_bits_odd:
  assumes "n \<le> 8"
  shows "modifier_bits (int n) 1 = odd n" "modifier_bits (int n) 4 = odd (n div 4)"
    "modifier_bits (int n) 10 = (odd (n div 2) \<or> odd (n div 8))"
proof -
  have "n = 0 \<or> n = 1 \<or> n = 2 \<or> n = 3 \<or> n = 4 \<or> n = 5 \<or> n = 6 \<or> n = 7 \<or> n = 8"
    using assms by arith
  then show "modifier_bits (int n) 1 = odd n" "modifier_bits (int n) 4 = odd (n div 4)"
    "modifier_bits (int n) 10 = (odd (n div 2) \<or> odd (n div 8))"
    by (auto simp: modifier_bits_def)
qed

definition units :: "jsstr \<Rightarrow> jsstr list" where
  "units s = map (\<lambda>c. [c]) s"

lemma letter_not_digit: "letter t \<Longrightarrow> \<not> digit t \<and> t \<noteq> CHAR_SEMICOLON \<and> \<not> tilde t"
  by (auto simp: letter_def upper_def digit_def tilde_def)

section \<open>The properties\<close>

text \<open>
  C33. The decoder loses nothing: the sequences of the emitted keys, in order, and the units kept
  back are the input.  At most eight units are kept back and no sequence is longer than nine.
\<close>

theorem keys_lossless:
  assumes "list_all (\<lambda>ch. length ch \<le> 1) inputs" "key_run Start inputs = (st, evs)"
  shows "concat (map (k_sequence \<circ> snd) evs) @ pending st = concat inputs \<and>
    length (pending st) \<le> 8 \<and> list_all (\<lambda>e. length (k_sequence (snd e)) \<le> 9) evs"
proof -
  have "key_ok Start" "pending Start = []" by (simp_all add: key_ok_def pending_def)
  with key_run_text[OF assms(2) _ assms(1)] room_bound[of st] show ?thesis
    by (auto simp: key_ok_def)
qed

definition key_input :: "jsstr list" where
  "key_input = units [27, 91, 49, 59, 53, 65, 97, 27]"

lemma key_input_run:
  "case key_run Start key_input of (st, evs) \<Rightarrow>
     st = Escaped [27] \<and> map (k_sequence \<circ> snd) evs = [[27, 91, 49, 59, 53, 65], [97]]"
  by code_simp

theorem keys_lossless_witness:
  "case key_run Start key_input of (st, evs) \<Rightarrow>
     concat (map (k_sequence \<circ> snd) evs) @ pending st = concat key_input"
proof -
  obtain st evs where run: "key_run Start key_input = (st, evs)" by (cases "key_run Start key_input")
  have "list_all (\<lambda>ch. length ch \<le> 1) key_input" by (simp add: key_input_def units_def)
  from keys_lossless[OF this run] run show ?thesis by simp
qed

text \<open>
  A time-out ends every sequence at once: whatever was received, the empty input makes the
  generator emit one key with all the units kept back and return to its first state.
\<close>

theorem timeout_flushes:
  assumes "list_all (\<lambda>ch. length ch \<le> 1) inputs" "key_run Start inputs = (st, evs)" "st \<noteq> Start"
  shows "\<exists>a key. key_next st [] = (Start, Some (a, key)) \<and> k_sequence key = pending st"
proof -
  have "key_ok Start" by (simp add: key_ok_def pending_def)
  with key_run_text[OF assms(2) _ assms(1)] have ok: "key_ok st" by auto
  obtain st' ev where step: "key_next st [] = (st', ev)" by (cases "key_next st []")
  have "st' = Start"
    using step assms(3) by (cases st) (auto simp: emit_defs digit_str_def js_def split: prod.splits)
  with key_next_text[OF step ok _ assms(3)] step show ?thesis by auto
qed

theorem timeout_flushes_witness:
  "\<exists>a key. key_next (Escaped [27]) [] = (Start, Some (a, key)) \<and> k_sequence key = [27]"
proof -
  have "key_run Start [[27]] = (Escaped [27], [])" by simp
  from timeout_flushes[OF _ this] show ?thesis by (simp add: pending_def)
qed

text \<open>
  The sequence \<^verbatim>\<open>ESC [ 1 ; m letter\<close> with a digit \<^verbatim>\<open>m\<close> from 1 to 9 is one key with the code
  \<^verbatim>\<open>[letter\<close>, and \<open>n = m - 1\<close> is the sum of 1 for shift, 2 for the left alt key, 4 for control and
  8 for the right alt key.
\<close>

theorem key_modifiers:
  assumes "n \<le> 8" "letter t"
  shows "\<exists>key. key_run Start (units (ESC # js ''[1;'' @ [49 + n, t])) = (Start, [(None, key)]) \<and>
    k_code key = Some (js ''['' @ [t]) \<and> k_name key = Some (fst (key_of_code (js ''['' @ [t]))) \<and>
    (k_shift key \<longleftrightarrow> odd n \<or> snd (key_of_code (js ''['' @ [t])) = Shift) \<and>
    (k_meta key \<longleftrightarrow> odd (n div 2) \<or> odd (n div 8)) \<and>
    (k_ctrl key \<longleftrightarrow> odd (n div 4) \<or> snd (key_of_code (js ''['' @ [t])) = Ctrl)"
proof -
  let ?s = "ESC # js ''[1;'' @ [49 + n, t]" and ?code = "js ''['' @ [t]"
  have digits: "digit 49" "\<not> digit 59" "\<not> digit 91" "digit (49 + n)"
    using assms(1) by (simp_all add: digit_def)
  have run: "key_run Start (units ?s) = (Start, [(None, escape_key ?s ?code (int n))])"
    using assms(2) digits letter_not_digit[OF assms(2)]
    by (simp add: units_def digit_str_def skip_digits_def skip_modifier_def Let_def after_escape_def
        finish_cmd_def sliceFrom_def parse_cmd_def match_number_def match_letter_def modifier_of_def
        emit_code_def keypress_escaped)
  note bits = modifier_bits_odd[OF assms(1)]
  show ?thesis
    unfolding run
    by (intro exI[of _ "escape_key ?s ?code (int n)"])
      (simp add: escape_key_def bits split: prod.split del: js_Cons)
qed

theorem key_modifiers_witness:
  "\<exists>key. key_run Start (units (ESC # js ''[1;'' @ [49 + 5, 65])) = (Start, [(None, key)]) \<and>
     k_name key = Some (js ''up'') \<and> k_shift key \<and> k_ctrl key \<and> \<not> k_meta key"
proof -
  have "letter 65" by (simp add: letter_def upper_def)
  have code: "key_of_code (js ''['' @ [65]) = (js ''up'', NoFlag)" by code_simp
  show ?thesis
    using key_modifiers[of 5 65, OF _ \<open>letter 65\<close>] code by (auto simp del: js_Cons)
qed

end
