(* ===== verification/Text_Width.thy ===== *)
theory Text_Width
  imports Js_Prelude
begin

text \<open>
  \<^verbatim>\<open>lib_js/internal/readline.js\<close>: how many columns a string takes.  The regular expression of the
  escape sequences is modelled with its backtracking: a part of the pattern maps the rest of the
  input to the possible rests after it, the preferred one first.
\<close>

section \<open>Escape sequences\<close>

text \<open>\<^verbatim>\<open>CSI\<close> with the strings and arguments of a template, and its constants.\<close>

fun csi_parts :: "jsstr list \<Rightarrow> jsstr list \<Rightarrow> jsstr" where
  "csi_parts [] args = []"
| "csi_parts (s # strings) [] = s @ csi_parts strings []"
| "csi_parts (s # strings) (a # args) = s @ a @ csi_parts strings args"

definition CSI :: "jsstr list \<Rightarrow> jsstr list \<Rightarrow> jsstr" where
  "CSI strings args = [27] @ js ''['' @ csi_parts strings args"

definition kClearToBeginning :: jsstr where "kClearToBeginning = CSI [js ''1K''] []"
definition kClearToEnd :: jsstr where "kClearToEnd = CSI [js ''0K''] []"
definition kClearLine :: jsstr where "kClearLine = CSI [js ''2K''] []"
definition kClearScreenDown :: jsstr where "kClearScreenDown = CSI [js ''0J''] []"

text \<open>\<open>p*\<close>, greedy; \<open>p{lo,lo+n}\<close>, greedy; and \<open>p\<close> followed by \<open>q\<close>.\<close>

fun rx_star :: "(nat \<Rightarrow> bool) \<Rightarrow> jsstr \<Rightarrow> jsstr list" where
  "rx_star p [] = [[]]"
| "rx_star p (c # r) = (if p c then rx_star p r @ [c # r] else [c # r])"

fun rx_upto :: "(nat \<Rightarrow> bool) \<Rightarrow> nat \<Rightarrow> jsstr \<Rightarrow> jsstr list" where
  "rx_upto p 0 s = [s]"
| "rx_upto p (Suc n) s = (case s of c # r \<Rightarrow> if p c then rx_upto p n r @ [s] else [s] | [] \<Rightarrow> [s])"

definition rx_one :: "(nat \<Rightarrow> bool) \<Rightarrow> jsstr \<Rightarrow> jsstr list" where
  "rx_one p s = (case s of c # r \<Rightarrow> if p c then [r] else [] | [] \<Rightarrow> [])"

definition rx_seq :: "(jsstr \<Rightarrow> jsstr list) \<Rightarrow> (jsstr \<Rightarrow> jsstr list) \<Rightarrow> jsstr \<Rightarrow> jsstr list" where
  "rx_seq a b s = concat (map b (a s))"

definition rx_digit :: "nat \<Rightarrow> bool" where
  "rx_digit c \<longleftrightarrow> 48 \<le> c \<and> c \<le> 57"

text \<open>\<^verbatim>\<open>(?:;[0-9]{0,4})*\<close>; every round takes a semicolon, so the input gets shorter.\<close>

lemma rx_upto_length: "r \<in> set (rx_upto p n s) \<Longrightarrow> length r \<le> length s"
  by (induction p n s rule: rx_upto.induct) (auto split: list.splits if_splits)

function rx_params :: "jsstr \<Rightarrow> jsstr list" where
  "rx_params s =
     (case s of
        c # r \<Rightarrow> if c = 59 then concat (map rx_params (rx_upto rx_digit 4 r)) @ [s] else [s]
      | [] \<Rightarrow> [s])"
  by pat_completeness auto
termination
proof (relation "measure length", simp)
  fix s r :: jsstr and c x
  assume "s = c # r" "x \<in> set (rx_upto rx_digit 4 r)"
  then show "(x, s) \<in> measure length" using rx_upto_length[of x rx_digit 4 r] by simp
qed

declare rx_params.simps [simp del]

text \<open>\<^verbatim>\<open>(?:[0-9]{1,4}(?:;[0-9]{0,4})*)?\<close>, and the class of the last character.\<close>

definition rx_numbers :: "jsstr \<Rightarrow> jsstr list" where
  "rx_numbers s = rx_seq (rx_one rx_digit) (rx_seq (rx_upto rx_digit 3) rx_params) s @ [s]"

definition rx_final :: "nat \<Rightarrow> bool" where
  "rx_final c \<longleftrightarrow>
     rx_digit c \<or> (65 \<le> c \<and> c \<le> 79) \<or> c = 82 \<or> c = 90 \<or> c = 99 \<or> (102 \<le> c \<and> c \<le> 110) \<or>
     c \<in> {113, 114, 121, 61, 62, 60}"

text \<open>The whole pattern \<^verbatim>\<open>ansi\<close>: the rest after its preferred match at the start.\<close>

definition rx_ansi :: "jsstr \<Rightarrow> jsstr option" where
  "rx_ansi s =
     (case rx_seq (rx_one (\<lambda>c. c = 0x1b \<or> c = 0x9b))
             (rx_seq (rx_star (\<lambda>c. c \<in> {91, 40, 41, 35, 59, 63}))
             (rx_seq rx_numbers (rx_one rx_final))) s of
        [] \<Rightarrow> None | r # _ \<Rightarrow> Some r)"

lemma rx_star_length: "r \<in> set (rx_star p s) \<Longrightarrow> length r \<le> length s"
  by (induction p s rule: rx_star.induct) (auto split: if_splits)

lemma rx_one_length: "r \<in> set (rx_one p s) \<Longrightarrow> length r < length s"
  by (auto simp: rx_one_def split: list.splits if_splits)

lemma rx_params_length: "r \<in> set (rx_params s) \<Longrightarrow> length r \<le> length s"
proof (induction s arbitrary: r rule: rx_params.induct)
  case (1 s)
  show ?case
  proof (cases s)
    case Nil
    then show ?thesis using 1(2) by (simp add: rx_params.simps[of "[]"])
  next
    case (Cons c rest)
    have "length r \<le> length s" if "x \<in> set (rx_upto rx_digit 4 rest)" "r \<in> set (rx_params x)" "c = 59" for x
      using 1(1)[OF Cons that(3) that(1) that(2)] rx_upto_length[OF that(1)] Cons by simp
    then show ?thesis using 1(2) Cons by (auto simp: rx_params.simps[of "c # rest"] split: if_splits)
  qed
qed

lemma rx_numbers_length: "r \<in> set (rx_numbers s) \<Longrightarrow> length r \<le> length s"
  by (fastforce simp: rx_numbers_def rx_seq_def dest: rx_one_length rx_upto_length rx_params_length)

text \<open>A match takes at least the escape character and the last one.\<close>

lemma rx_ansi_length:
  assumes "rx_ansi s = Some r"
  shows "length r + 2 \<le> length s"
proof -
  have "r \<in> set (rx_seq (rx_one (\<lambda>c. c = 0x1b \<or> c = 0x9b))
      (rx_seq (rx_star (\<lambda>c. c \<in> {91, 40, 41, 35, 59, 63})) (rx_seq rx_numbers (rx_one rx_final))) s)"
    using assms by (auto simp: rx_ansi_def split: list.splits)
  then obtain a b c where "a \<in> set (rx_one (\<lambda>c. c = 0x1b \<or> c = 0x9b) s)"
    "b \<in> set (rx_star (\<lambda>c. c \<in> {91, 40, 41, 35, 59, 63}) a)" "c \<in> set (rx_numbers b)" "r \<in> set (rx_one rx_final c)"
    by (auto simp: rx_seq_def)
  from rx_one_length[OF this(1)] rx_star_length[OF this(2)] rx_numbers_length[OF this(3)] rx_one_length[OF this(4)]
  show ?thesis by linarith
qed

text \<open>\<^verbatim>\<open>str.replace(ansi, '')\<close>.\<close>

function stripVTControlCharacters :: "jsstr \<Rightarrow> jsstr" where
  "stripVTControlCharacters s =
     (case s of
        [] \<Rightarrow> []
      | c # r \<Rightarrow>
          (case rx_ansi s of
             Some rest \<Rightarrow> stripVTControlCharacters rest
           | None \<Rightarrow> c # stripVTControlCharacters r))"
  by pat_completeness auto
termination
  by (relation "measure length") (auto dest: rx_ansi_length)

declare stripVTControlCharacters.simps [simp del]

section \<open>Widths\<close>

definition isFullWidthCodePoint :: "nat \<Rightarrow> bool" where
  "isFullWidthCodePoint code \<longleftrightarrow>
     code \<ge> 0x1100 \<and>
     (code \<le> 0x115f \<or> code = 0x2329 \<or> code = 0x232a \<or>
      (code \<ge> 0x2e80 \<and> code \<le> 0x3247 \<and> code \<noteq> 0x303f) \<or>
      (code \<ge> 0x3250 \<and> code \<le> 0x4dbf) \<or>
      (code \<ge> 0x4e00 \<and> code \<le> 0xa4c6) \<or>
      (code \<ge> 0xa960 \<and> code \<le> 0xa97c) \<or>
      (code \<ge> 0xac00 \<and> code \<le> 0xd7a3) \<or>
      (code \<ge> 0xf900 \<and> code \<le> 0xfaff) \<or>
      (code \<ge> 0xfe10 \<and> code \<le> 0xfe19) \<or>
      (code \<ge> 0xfe30 \<and> code \<le> 0xfe6b) \<or>
      (code \<ge> 0xff01 \<and> code \<le> 0xff60) \<or>
      (code \<ge> 0xffe0 \<and> code \<le> 0xffe6) \<or>
      (code \<ge> 0x1b000 \<and> code \<le> 0x1b001) \<or>
      (code \<ge> 0x1f200 \<and> code \<le> 0x1f251) \<or>
      (code \<ge> 0x20000 \<and> code \<le> 0x3fffd))"

text \<open>
  \<^verbatim>\<open>str.codePointAt(i)\<close> for the positions the loops visit: a code point of two units makes them
  skip one.
\<close>

definition high_surrogate :: "nat \<Rightarrow> bool" where
  "high_surrogate c \<longleftrightarrow> 0xd800 \<le> c \<and> c \<le> 0xdbff"

definition low_surrogate :: "nat \<Rightarrow> bool" where
  "low_surrogate c \<longleftrightarrow> 0xdc00 \<le> c \<and> c \<le> 0xdfff"

fun code_points :: "jsstr \<Rightarrow> nat list" where
  "code_points [] = []"
| "code_points [c] = [c]"
| "code_points (c # d # r) =
     (if high_surrogate c \<and> low_surrogate d
      then ((c - 0xd800) * 0x400 + (d - 0xdc00) + 0x10000) # code_points r
      else c # code_points (d # r))"

definition code_width :: "nat \<Rightarrow> nat" where
  "code_width code = (if isFullWidthCodePoint code then 2 else 1)"

definition getStringWidth :: "jsstr \<Rightarrow> nat" where
  "getStringWidth str = fold (\<lambda>code width. width + code_width code) (code_points (stripVTControlCharacters str)) 0"

section \<open>Facts\<close>

lemma getStringWidth_sum:
  "getStringWidth str = sum_list (map code_width (code_points (stripVTControlCharacters str)))"
proof -
  have "fold (\<lambda>code width. width + code_width code) cs w = w + sum_list (map code_width cs)" for cs w
    by (induction cs arbitrary: w) simp_all
  then show ?thesis by (simp add: getStringWidth_def)
qed

lemma strip_length: "length (stripVTControlCharacters s) \<le> length s"
proof (induction "length s" arbitrary: s rule: less_induct)
  case less
  show ?case
  proof (cases s)
    case (Cons c r)
    have "length (stripVTControlCharacters rest) \<le> length rest" if "rx_ansi s = Some rest" for rest
      using less[of rest] rx_ansi_length[OF that] by simp
    with less[of r] Cons show ?thesis
      by (force simp: stripVTControlCharacters.simps[of "c # r"] dest: rx_ansi_length split: option.split)
  qed (simp add: stripVTControlCharacters.simps)
qed

lemma code_points_length: "length (code_points s) \<le> length s"
  by (induction s rule: code_points.induct) auto

lemma getStringWidth_bound: "getStringWidth s \<le> 2 * length s"
proof -
  have "sum_list (map code_width cs) \<le> 2 * length cs" for cs
    by (induction cs) (auto simp: code_width_def)
  moreover have "length (code_points (stripVTControlCharacters s)) \<le> length s"
    using code_points_length strip_length order_trans by blast
  ultimately show ?thesis by (metis getStringWidth_sum mult_le_mono2 order_trans)
qed

text \<open>Text without escape characters is left as it is.\<close>

lemma strip_plain:
  assumes "0x1b \<notin> set s" "0x9b \<notin> set s"
  shows "stripVTControlCharacters s = s"
  using assms
proof (induction s)
  case (Cons c r)
  then have "rx_ansi (c # r) = None" by (auto simp: rx_ansi_def rx_seq_def rx_one_def)
  with Cons show ?case by (simp add: stripVTControlCharacters.simps[of "c # r"])
qed (simp add: stripVTControlCharacters.simps)

end
