(* ===== verification/Readline.thy ===== *)
theory Readline
  imports Keypress Text_Width "HOL-Library.List_Lexorder"
begin

text \<open>
  \<^verbatim>\<open>lib_js/readline.js\<close>: the line editor.  The state is the object \<^verbatim>\<open>Interface\<close> of a terminal;
  what it writes to the output stream and the events it emits are recorded.  The listeners
  (\<^verbatim>\<open>on('line', ...)\<close> and so on, and the callback of \<^verbatim>\<open>question\<close>) are parameters that may change the
  interface at the moment they are called; the time is an argument of the operations that read
  the clock.
\<close>

section \<open>State\<close>

datatype revent =
    EvLine jsstr
  | EvAnswer nat jsstr
  | EvClose
  | EvPause
  | EvResume
  | EvSigint
  | EvSigtstp
  | EvSigcont
  | InputPause
  | InputResume
  | RawMode bool
  | Stop

record iface =
  rl_prompt :: jsstr
  rl_line :: jsstr
  rl_cursor :: nat
  rl_history :: "jsstr list"
  rl_historyIndex :: int
  rl_historySize :: "nat option"
  rl_removeDuplicates :: bool
  rl_columns :: "nat option"
  rl_prevRows :: int
  rl_sawReturnAt :: nat
  rl_crlfDelay :: nat
  rl_previousKey :: "jsstr option"
  rl_question :: "nat option"
  rl_oldPrompt :: jsstr
  rl_terminal :: bool
  rl_closed :: bool
  rl_paused :: bool
  rl_completionEnabled :: bool
  rl_sawKeyPress :: bool
  rl_lineBuffer :: jsstr
  rl_hasOutput :: bool
  rl_out :: "jsstr list"
  rl_events :: "revent list"

text \<open>
  \<open>rl_columns\<close> and \<open>rl_historySize\<close> are \<open>None\<close> for \<^verbatim>\<open>Infinity\<close>; \<open>rl_lineBuffer\<close> is empty for \<^verbatim>\<open>null\<close>.  The completer
  answers at once (\<open>Some\<close>: an error, or the completions and the text they complete) or later
  (\<open>None\<close>; then its answer is an operation of its own).
\<close>

type_synonym completion = "(jsstr list \<times> jsstr) option"

record rhooks =
  on_event :: "revent \<Rightarrow> iface \<Rightarrow> iface"
  listens_sigint :: "iface \<Rightarrow> bool"
  listens_sigtstp :: "iface \<Rightarrow> bool"
  is_win32 :: bool
  completer :: "(jsstr \<Rightarrow> completion option) option"

text \<open>A call of another object, and an event with its listeners.\<close>

definition note_call :: "revent \<Rightarrow> iface \<Rightarrow> iface" where
  "note_call ev st = st\<lparr>rl_events := rl_events st @ [ev]\<rparr>"

definition fire :: "rhooks \<Rightarrow> revent \<Rightarrow> iface \<Rightarrow> iface" where
  "fire h ev st = on_event h ev (note_call ev st)"

section \<open>Output\<close>

definition writeToOutput :: "jsstr \<Rightarrow> iface \<Rightarrow> iface" where
  "writeToOutput s st = (if rl_hasOutput st then st\<lparr>rl_out := rl_out st @ [s]\<rparr> else st)"

definition cursorTo :: "nat \<Rightarrow> nat option \<Rightarrow> iface \<Rightarrow> iface" where
  "cursorTo x y st =
     (case y of
        None \<Rightarrow> writeToOutput (CSI [[], js ''G''] [nat_to_js (x + 1)]) st
      | Some y' \<Rightarrow>
          writeToOutput (CSI [[], js '';'', js ''H''] [nat_to_js (y' + 1), nat_to_js (x + 1)]) st)"

definition moveCursorBy :: "int \<Rightarrow> int \<Rightarrow> iface \<Rightarrow> iface" where
  "moveCursorBy dx dy st =
     (let st1 = (if dx < 0 then writeToOutput (CSI [[], js ''D''] [int_to_js (- dx)]) st
                 else if dx > 0 then writeToOutput (CSI [[], js ''C''] [int_to_js dx]) st else st)
      in if dy < 0 then writeToOutput (CSI [[], js ''A''] [int_to_js (- dy)]) st1
         else if dy > 0 then writeToOutput (CSI [[], js ''B''] [int_to_js dy]) st1 else st1)"

definition clearScreenDown :: "iface \<Rightarrow> iface" where
  "clearScreenDown st = writeToOutput kClearScreenDown st"

definition clearLineTo :: "int \<Rightarrow> iface \<Rightarrow> iface" where
  "clearLineTo dir st =
     (if dir < 0 then writeToOutput kClearToBeginning st
      else if dir > 0 then writeToOutput kClearToEnd st
      else writeToOutput kClearLine st)"

section \<open>Positions\<close>

text \<open>The loop of \<^verbatim>\<open>_getDisplayPos\<close>: the offset in the line and the number of newlines.\<close>

definition display_step :: "nat option \<Rightarrow> nat \<Rightarrow> nat \<times> nat \<Rightarrow> nat \<times> nat" where
  "display_step columns code pos =
     (case pos of (offset, row) \<Rightarrow>
        if code = 10 then (0, row + 1)
        else if code_width code = 1 then (offset + 1, row)
        else
          (case columns of
             Some col \<Rightarrow> if (offset + 1) mod col = 0 then (offset + 1 + 2, row) else (offset + 2, row)
           | None \<Rightarrow> (offset + 2, row)))"

definition getDisplayPos :: "iface \<Rightarrow> jsstr \<Rightarrow> nat \<times> nat" where
  "getDisplayPos st str =
     (case fold (display_step (rl_columns st)) (code_points (stripVTControlCharacters str)) (0, 0) of
        (offset, row) \<Rightarrow>
          (case rl_columns st of
             None \<Rightarrow> (offset, row)
           | Some col \<Rightarrow> (let cols = offset mod col in (cols, row + (offset - cols) div col))))"

definition getCursorPos :: "iface \<Rightarrow> nat \<times> nat" where
  "getCursorPos st =
     (let strBeforeCursor = rl_prompt st @ take (rl_cursor st) (rl_line st) in
      case getDisplayPos st (stripVTControlCharacters strBeforeCursor) of
        (cols, rows) \<Rightarrow>
          if Some (cols + 1) = rl_columns st \<and> rl_cursor st < length (rl_line st) \<and>
             isFullWidthCodePoint (hd (code_points (drop (rl_cursor st) (rl_line st))))
          then (0, rows + 1) else (cols, rows))"

definition refreshLine :: "iface \<Rightarrow> iface" where
  "refreshLine st =
     (let line = rl_prompt st @ rl_line st;
          (lineCols, lineRows) = getDisplayPos st line;
          (cursorCols, cursorRows) = getCursorPos st;
          st1 = (if rl_prevRows st > 0 then moveCursorBy 0 (- rl_prevRows st) st else st);
          st2 = clearScreenDown (cursorTo 0 None st1);
          st3 = writeToOutput line st2;
          st4 = (if lineCols = 0 then writeToOutput (js '' '') st3 else st3);
          st5 = cursorTo cursorCols None st4;
          diff = int lineRows - int cursorRows;
          st6 = (if diff > 0 then moveCursorBy 0 (- diff) st5 else st5)
      in st6\<lparr>rl_prevRows := int cursorRows\<rparr>)"

text \<open>\<^verbatim>\<open>_moveCursor(dx)\<close>, where \<^verbatim>\<open>dx\<close> may be infinite.\<close>

datatype distance = By int | ToStart | ToEnd

definition moved :: "nat \<Rightarrow> nat \<Rightarrow> distance \<Rightarrow> nat" where
  "moved cursor len dx =
     (case dx of
        ToStart \<Rightarrow> 0
      | ToEnd \<Rightarrow> len
      | By d \<Rightarrow> (let c = int cursor + d in if c < 0 then 0 else if c > int len then len else nat c))"

definition moveCursor :: "distance \<Rightarrow> iface \<Rightarrow> iface" where
  "moveCursor dx st =
     (let oldcursor = rl_cursor st;
          oldPos = getCursorPos st;
          st1 = st\<lparr>rl_cursor := moved oldcursor (length (rl_line st)) dx\<rparr>;
          newPos = getCursorPos st1
      in if snd oldPos = snd newPos then
           (let cursor = rl_cursor st1;
                diffWidth =
                  (if cursor < oldcursor then - int (getStringWidth (slice (rl_line st1) cursor oldcursor))
                   else if cursor > oldcursor then int (getStringWidth (slice (rl_line st1) oldcursor cursor))
                   else 0)
            in (moveCursorBy diffWidth 0 st1)\<lparr>rl_prevRows := int (snd newPos)\<rparr>)
         else refreshLine st1)"

section \<open>Editing\<close>

definition insertString :: "jsstr \<Rightarrow> iface \<Rightarrow> iface" where
  "insertString c st =
     (if rl_cursor st < length (rl_line st) then
        refreshLine
          (st\<lparr>rl_line := take (rl_cursor st) (rl_line st) @ c @
                 slice (rl_line st) (rl_cursor st) (length (rl_line st)),
              rl_cursor := rl_cursor st + length c\<rparr>)
      else
        (let st1 = st\<lparr>rl_line := rl_line st @ c, rl_cursor := rl_cursor st + length c\<rparr>;
             st2 = (if fst (getCursorPos st1) = 0 then refreshLine st1 else writeToOutput c st1)
         in moveCursor (By 0) st2))"

text \<open>
  \<^verbatim>\<open>\w\<close>; the longest suffix \<^verbatim>\<open>/(?:[^\w\s]+|\w+|)\s*$/\<close> matches, by its length; and the length of the
  match of \<^verbatim>\<open>/^(?:\s+|\W+|\w+)\s*/\<close>.
\<close>

definition isWordChar :: "nat \<Rightarrow> bool" where
  "isWordChar c \<longleftrightarrow> (48 \<le> c \<and> c \<le> 57) \<or> (65 \<le> c \<and> c \<le> 90) \<or> c = 95 \<or> (97 \<le> c \<and> c \<le> 122)"

definition word_and_space :: "jsstr \<Rightarrow> bool" where
  "word_and_space s =
     (let w = takeWhile (\<lambda>c. \<not> isSpaceClass c) s;
          r = dropWhile (\<lambda>c. \<not> isSpaceClass c) s
      in list_all isSpaceClass r \<and> (list_all (\<lambda>c. \<not> isWordChar c) w \<or> list_all isWordChar w))"

fun match_left :: "jsstr \<Rightarrow> nat" where
  "match_left [] = 0"
| "match_left (c # r) = (if word_and_space (c # r) then length (c # r) else match_left r)"

definition match_right :: "jsstr \<Rightarrow> nat" where
  "match_right s =
     (let p = (case s of
                 [] \<Rightarrow> (\<lambda>_. False)
               | c # _ \<Rightarrow> if isSpaceClass c then isSpaceClass
                          else if \<not> isWordChar c then (\<lambda>c. \<not> isWordChar c)
                          else isWordChar);
          k = length (takeWhile p s)
      in k + length (takeWhile isSpaceClass (drop k s)))"

definition wordLeft :: "iface \<Rightarrow> iface" where
  "wordLeft st =
     (if rl_cursor st > 0
      then moveCursor (By (- int (match_left (take (rl_cursor st) (rl_line st))))) st else st)"

definition wordRight :: "iface \<Rightarrow> iface" where
  "wordRight st =
     (if rl_cursor st < length (rl_line st)
      then moveCursor (By (int (match_right (drop (rl_cursor st) (rl_line st))))) st else st)"

definition deleteLeft :: "iface \<Rightarrow> iface" where
  "deleteLeft st =
     (if rl_cursor st > 0 \<and> length (rl_line st) > 0 then
        refreshLine
          (st\<lparr>rl_line := take (rl_cursor st - 1) (rl_line st) @
                 slice (rl_line st) (rl_cursor st) (length (rl_line st)),
              rl_cursor := rl_cursor st - 1\<rparr>)
      else st)"

definition deleteRight :: "iface \<Rightarrow> iface" where
  "deleteRight st =
     refreshLine
       (st\<lparr>rl_line := take (rl_cursor st) (rl_line st) @
              slice (rl_line st) (rl_cursor st + 1) (length (rl_line st))\<rparr>)"

definition deleteWordLeft :: "iface \<Rightarrow> iface" where
  "deleteWordLeft st =
     (if rl_cursor st > 0 then
        (let leading = take (rl_cursor st) (rl_line st);
             leading' = take (length leading - match_left leading) leading
         in refreshLine
              (st\<lparr>rl_line := leading' @ slice (rl_line st) (rl_cursor st) (length (rl_line st)),
                  rl_cursor := length leading'\<rparr>))
      else st)"

definition deleteWordRight :: "iface \<Rightarrow> iface" where
  "deleteWordRight st =
     (if rl_cursor st < length (rl_line st) then
        (let trailing = drop (rl_cursor st) (rl_line st)
         in refreshLine
              (st\<lparr>rl_line := take (rl_cursor st) (rl_line st) @ drop (match_right trailing) trailing\<rparr>))
      else st)"

definition deleteLineLeft :: "iface \<Rightarrow> iface" where
  "deleteLineLeft st =
     refreshLine (st\<lparr>rl_line := drop (rl_cursor st) (rl_line st), rl_cursor := 0\<rparr>)"

definition deleteLineRight :: "iface \<Rightarrow> iface" where
  "deleteLineRight st = refreshLine (st\<lparr>rl_line := take (rl_cursor st) (rl_line st)\<rparr>)"

section \<open>Lines and history\<close>

definition clearLine :: "iface \<Rightarrow> iface" where
  "clearLine st =
     (let st1 = writeToOutput [13, 10] (moveCursor ToEnd st)
      in st1\<lparr>rl_line := [], rl_cursor := 0, rl_prevRows := 0\<rparr>)"

text \<open>\<^verbatim>\<open>history.indexOf(line)\<close> with the \<^verbatim>\<open>splice\<close> that follows.\<close>

fun remove_first :: "jsstr \<Rightarrow> jsstr list \<Rightarrow> jsstr list" where
  "remove_first x [] = []"
| "remove_first x (y # ys) = (if y = x then ys else y # remove_first x ys)"

definition exceeds :: "nat \<Rightarrow> nat option \<Rightarrow> bool" where
  "exceeds n limit = (case limit of None \<Rightarrow> False | Some k \<Rightarrow> n > k)"

definition addHistory :: "iface \<Rightarrow> jsstr \<times> iface" where
  "addHistory st =
     (let line = rl_line st in
      if length line = 0 then ([], st)
      else if rl_historySize st = Some 0 then (line, st)
      else if list_all isSpaceClass line then (line, st)
      else
        (let history =
               (if rl_history st = [] \<or> hd (rl_history st) \<noteq> line then
                  (let h1 = (if rl_removeDuplicates st then remove_first line (rl_history st)
                             else rl_history st);
                       h2 = line # h1
                   in if exceeds (length h2) (rl_historySize st) then butlast h2 else h2)
                else rl_history st)
         in (hd history, st\<lparr>rl_history := history, rl_historyIndex := -1\<rparr>)))"

definition onLine :: "rhooks \<Rightarrow> jsstr \<Rightarrow> iface \<Rightarrow> iface" where
  "onLine h line st =
     (case rl_question st of
        Some cb \<Rightarrow> fire h (EvAnswer cb line) (st\<lparr>rl_question := None, rl_prompt := rl_oldPrompt st\<rparr>)
      | None \<Rightarrow> fire h (EvLine line) st)"

definition enterLine :: "rhooks \<Rightarrow> iface \<Rightarrow> iface" where
  "enterLine h st = (case addHistory st of (line, st1) \<Rightarrow> onLine h line (clearLine st1))"

definition historyNext :: "iface \<Rightarrow> iface" where
  "historyNext st =
     (if rl_historyIndex st > 0 then
        (let i = rl_historyIndex st - 1; line = rl_history st ! nat i
         in refreshLine (st\<lparr>rl_historyIndex := i, rl_line := line, rl_cursor := length line\<rparr>))
      else if rl_historyIndex st = 0 then
        refreshLine (st\<lparr>rl_historyIndex := -1, rl_cursor := 0, rl_line := []\<rparr>)
      else st)"

definition historyPrev :: "iface \<Rightarrow> iface" where
  "historyPrev st =
     (if rl_historyIndex st + 1 < int (length (rl_history st)) then
        (let i = rl_historyIndex st + 1; line = rl_history st ! nat i
         in refreshLine (st\<lparr>rl_historyIndex := i, rl_line := line, rl_cursor := length line\<rparr>))
      else st)"

section \<open>Pausing, closing, prompting\<close>

definition setRawMode :: "bool \<Rightarrow> iface \<Rightarrow> iface" where
  "setRawMode mode st = note_call (RawMode mode) st"

definition pause :: "rhooks \<Rightarrow> iface \<Rightarrow> iface" where
  "pause h st =
     (if rl_paused st then st
      else fire h EvPause ((note_call InputPause st)\<lparr>rl_paused := True\<rparr>))"

definition resume :: "rhooks \<Rightarrow> iface \<Rightarrow> iface" where
  "resume h st =
     (if \<not> rl_paused st then st
      else fire h EvResume ((note_call InputResume st)\<lparr>rl_paused := False\<rparr>))"

definition close :: "rhooks \<Rightarrow> iface \<Rightarrow> iface" where
  "close h st =
     (if rl_closed st then st
      else
        (let st1 = pause h st;
             st2 = (if rl_terminal st1 then setRawMode False st1 else st1)
         in fire h EvClose (st2\<lparr>rl_closed := True\<rparr>)))"

definition prompt :: "rhooks \<Rightarrow> bool \<Rightarrow> iface \<Rightarrow> iface" where
  "prompt h preserveCursor st =
     (let st1 = (if rl_paused st then resume h st else st) in
      if rl_terminal st1 then
        refreshLine (if \<not> preserveCursor then st1\<lparr>rl_cursor := 0\<rparr> else st1)
      else writeToOutput (rl_prompt st1) st1)"

definition question :: "rhooks \<Rightarrow> jsstr \<Rightarrow> nat \<Rightarrow> iface \<Rightarrow> iface" where
  "question h query cb st =
     (if rl_question st \<noteq> None then prompt h False st
      else prompt h False
             (st\<lparr>rl_oldPrompt := rl_prompt st, rl_prompt := query, rl_question := Some cb\<rparr>))"

section \<open>Completion\<close>

text \<open>The loop of \<^verbatim>\<open>commonPrefix\<close> over the least and the greatest string.\<close>

function prefix_loop :: "jsstr \<Rightarrow> jsstr \<Rightarrow> nat \<Rightarrow> jsstr" where
  "prefix_loop least greatest i =
     (if i < length least then
        (if charCodeAt greatest i \<noteq> Some (least ! i) then take i least
         else prefix_loop least greatest (i + 1))
      else least)"
  by pat_completeness auto
termination
  by (relation "measure (\<lambda>(least, _, i). length least - i)") auto

declare prefix_loop.simps [simp del]

definition commonPrefix :: "jsstr list \<Rightarrow> jsstr" where
  "commonPrefix strings =
     (if strings = [] then []
      else if length strings = 1 then strings ! 0
      else (let sorted = sort strings in prefix_loop (sorted ! 0) (last sorted) 0))"

text \<open>\<^verbatim>\<open>handleGroup\<close>: the rows and columns of a table, each item padded to the width.\<close>

definition group_cell :: "jsstr list \<Rightarrow> nat \<Rightarrow> nat \<Rightarrow> nat \<Rightarrow> nat \<Rightarrow> iface \<Rightarrow> iface" where
  "group_cell items width maxColumns row col st =
     (let idx = row * maxColumns + col in
      if idx \<ge> length items then st
      else
        (let st1 = writeToOutput (items ! idx) st
         in if col < maxColumns - 1
            then ((writeToOutput (js '' '')) ^^ (width - length (items ! idx))) st1 else st1))"

definition handleGroup :: "jsstr list \<Rightarrow> nat \<Rightarrow> nat \<Rightarrow> iface \<Rightarrow> iface" where
  "handleGroup items width maxColumns st =
     (if items = [] then st
      else
        (let minRows = (length items + maxColumns - 1) div maxColumns;
             st1 = fold (\<lambda>row st. writeToOutput [13, 10]
                           (fold (group_cell items width maxColumns row) [0..<maxColumns] st))
                     [0..<minRows] st
         in writeToOutput [13, 10] st1))"

definition show_step :: "nat \<Rightarrow> nat \<Rightarrow> jsstr \<Rightarrow> jsstr list \<times> iface \<Rightarrow> jsstr list \<times> iface" where
  "show_step width maxColumns c acc =
     (case acc of (items, st) \<Rightarrow>
        if c = [] then ([], handleGroup items width maxColumns st) else (items @ [c], st))"

definition showCompletions :: "jsstr list \<Rightarrow> iface \<Rightarrow> iface" where
  "showCompletions completions st =
     (let st1 = writeToOutput [13, 10] st;
          width = fold (\<lambda>c w. max (length c) w) completions 0 + 2;
          columns = (case rl_columns st of None \<Rightarrow> 1 | Some n \<Rightarrow> n div width);
          maxColumns = (if columns = 0 then 1 else columns);
          (items, st2) = fold (show_step width maxColumns) completions ([], st1)
      in handleGroup items width maxColumns st2)"

text \<open>The callback \<^verbatim>\<open>onComplete\<close>, and \<^verbatim>\<open>_tabComplete\<close>.\<close>

definition onComplete :: "rhooks \<Rightarrow> bool \<Rightarrow> completion \<Rightarrow> iface \<Rightarrow> iface" where
  "onComplete h lastKeypressWasTab answer st =
     (let st1 = resume h st in
      case answer of
        None \<Rightarrow> st1
      | Some (completions, completeOn) \<Rightarrow>
          if completions = [] then st1
          else
            (let st2 = (if lastKeypressWasTab then showCompletions completions st1 else st1);
                 prefix = commonPrefix (filter (\<lambda>e. e \<noteq> []) completions);
                 st3 = (if length prefix > length completeOn
                        then insertString (drop (length completeOn) prefix) st2 else st2)
             in refreshLine st3))"

definition tabComplete ::
  "rhooks \<Rightarrow> (jsstr \<Rightarrow> completion option) \<Rightarrow> bool \<Rightarrow> iface \<Rightarrow> iface"
where
  "tabComplete h complete lastKeypressWasTab st =
     (let st1 = pause h st in
      case complete (take (rl_cursor st1) (rl_line st1)) of
        None \<Rightarrow> st1
      | Some answer \<Rightarrow> onComplete h lastKeypressWasTab answer st1)"

section \<open>Keys\<close>

text \<open>\<^verbatim>\<open>s.split(/\r\n|\n|\r/)\<close>.\<close>

fun split_lines :: "jsstr \<Rightarrow> jsstr list" where
  "split_lines [] = [[]]"
| "split_lines (c # r) =
     (if c = 13 then [] # split_lines (if r \<noteq> [] \<and> hd r = 10 then tl r else r)
      else if c = 10 then [] # split_lines r
      else (case split_lines r of l # ls \<Rightarrow> (c # l) # ls | [] \<Rightarrow> [[c]]))"

fun insert_lines :: "rhooks \<Rightarrow> jsstr list \<Rightarrow> iface \<Rightarrow> iface" where
  "insert_lines h [] st = st"
| "insert_lines h (l # ls) st = insert_lines h ls (insertString l (enterLine h st))"

text \<open>The default case: the first line is inserted, each further one after the end of the line.\<close>

definition insert_text :: "rhooks \<Rightarrow> jsstr option \<Rightarrow> iface \<Rightarrow> iface" where
  "insert_text h s st =
     (case s of
        None \<Rightarrow> st
      | Some t \<Rightarrow>
          if t = [] then st
          else (case split_lines t of
                  [] \<Rightarrow> st
                | l # ls \<Rightarrow> insert_lines h ls (insertString l st)))"

definition name_is :: "key \<Rightarrow> string \<Rightarrow> bool" where
  "name_is key n \<longleftrightarrow> k_name key = Some (js n)"

text \<open>The cases with the control key.\<close>

definition ctrl_key :: "rhooks \<Rightarrow> key \<Rightarrow> iface \<Rightarrow> iface" where
  "ctrl_key h key st =
     (if name_is key ''c'' then (if listens_sigint h st then fire h EvSigint st else close h st)
      else if name_is key ''h'' then deleteLeft st
      else if name_is key ''d'' then
        (if rl_cursor st = 0 \<and> length (rl_line st) = 0 then close h st
         else if rl_cursor st < length (rl_line st) then deleteRight st else st)
      else if name_is key ''u'' then deleteLineLeft st
      else if name_is key ''k'' then deleteLineRight st
      else if name_is key ''a'' then moveCursor ToStart st
      else if name_is key ''e'' then moveCursor ToEnd st
      else if name_is key ''b'' then moveCursor (By (-1)) st
      else if name_is key ''f'' then moveCursor (By 1) st
      else if name_is key ''l'' then refreshLine (clearScreenDown (cursorTo 0 (Some 0) st))
      else if name_is key ''n'' then historyNext st
      else if name_is key ''p'' then historyPrev st
      else if name_is key ''z'' then
        (if is_win32 h then st
         else if listens_sigtstp h st then fire h EvSigtstp st
         else note_call Stop (setRawMode False st))
      else if name_is key ''w'' \<or> name_is key ''backspace'' then deleteWordLeft st
      else if name_is key ''delete'' then deleteWordRight st
      else if name_is key ''left'' then wordLeft st
      else if name_is key ''right'' then wordRight st
      else st)"

text \<open>The listener of \<^verbatim>\<open>SIGCONT\<close> that \<^verbatim>\<open>ctrl-z\<close> installs.\<close>

definition continued :: "rhooks \<Rightarrow> iface \<Rightarrow> iface" where
  "continued h st =
     (let st1 = (if \<not> rl_paused st then fire h EvSigcont (pause h st) else st)
      in refreshLine (setRawMode True st1))"

definition meta_key :: "key \<Rightarrow> iface \<Rightarrow> iface" where
  "meta_key key st =
     (if name_is key ''b'' then wordLeft st
      else if name_is key ''f'' then wordRight st
      else if name_is key ''d'' \<or> name_is key ''delete'' then deleteWordRight st
      else if name_is key ''backspace'' then deleteWordLeft st
      else st)"

definition plain_input ::
  "rhooks \<Rightarrow> nat \<Rightarrow> jsstr option \<Rightarrow> jsstr option \<Rightarrow> key \<Rightarrow> iface \<Rightarrow> iface"
where
  "plain_input h now previous s key st0 =
     (let st = (if rl_sawReturnAt st0 \<noteq> 0 \<and> \<not> name_is key ''enter''
                then st0\<lparr>rl_sawReturnAt := 0\<rparr> else st0) in
      if name_is key ''return'' then enterLine h (st\<lparr>rl_sawReturnAt := now\<rparr>)
      else if name_is key ''enter'' then
        (let st1 = (if rl_sawReturnAt st = 0 \<or> now - rl_sawReturnAt st > rl_crlfDelay st
                    then enterLine h st else st)
         in st1\<lparr>rl_sawReturnAt := 0\<rparr>)
      else if name_is key ''backspace'' then deleteLeft st
      else if name_is key ''delete'' then deleteRight st
      else if name_is key ''left'' then moveCursor (By (-1)) st
      else if name_is key ''right'' then moveCursor (By 1) st
      else if name_is key ''home'' then moveCursor ToStart st
      else if name_is key ''end'' then moveCursor ToEnd st
      else if name_is key ''up'' then historyPrev st
      else if name_is key ''down'' then historyNext st
      else
        (case completer h of
           Some complete \<Rightarrow>
             if name_is key ''tab'' \<and> rl_completionEnabled st
             then tabComplete h complete (previous = Some (js ''tab'')) st
             else insert_text h s st
         | None \<Rightarrow> insert_text h s st))"

text \<open>\<^verbatim>\<open>_ttyWrite(s, key)\<close>; without a key all its fields are undefined.\<close>

definition no_key :: key where
  "no_key = \<lparr>k_sequence = [], k_name = None, k_ctrl = False, k_meta = False, k_shift = False,
     k_code = None\<rparr>"

definition ttyWrite :: "rhooks \<Rightarrow> nat \<Rightarrow> jsstr option \<Rightarrow> key option \<Rightarrow> iface \<Rightarrow> iface" where
  "ttyWrite h now s key0 st0 =
     (let previous = rl_previousKey st0;
          key = (case key0 of None \<Rightarrow> no_key | Some k \<Rightarrow> k);
          st = st0\<lparr>rl_previousKey := k_name key\<rparr>
      in if name_is key ''escape'' then st
         else if k_ctrl key \<and> k_shift key then
           (if name_is key ''backspace'' then deleteLineLeft st
            else if name_is key ''delete'' then deleteLineRight st
            else st)
         else if k_ctrl key then ctrl_key h key st
         else if k_meta key then meta_key key st
         else plain_input h now previous s key st)"

text \<open>The listener of \<^verbatim>\<open>keypress\<close>.\<close>

definition onkeypress :: "rhooks \<Rightarrow> nat \<Rightarrow> jsstr option \<times> key \<Rightarrow> iface \<Rightarrow> iface" where
  "onkeypress h now ev st =
     (case ev of (s, key) \<Rightarrow>
        let st1 = ttyWrite h now s (Some key) st in
        if k_sequence key \<noteq> [] \<and>
           (let ch = hd (code_points (k_sequence key)) in 0xd800 \<le> ch \<and> ch \<le> 0xdfff)
        then refreshLine st1 else st1)"

section \<open>Input\<close>

text \<open>
  \<^verbatim>\<open>onData\<close> of \<^verbatim>\<open>emitKeypressEvents\<close> for the decoded string: the state of the key decoder, whether
  its time-out is running, and the interface.
\<close>

fun feed_keys ::
  "rhooks \<Rightarrow> nat \<Rightarrow> jsstr \<Rightarrow> kstate \<times> bool \<times> iface \<Rightarrow> kstate \<times> bool \<times> iface"
where
  "feed_keys h now [] acc = acc"
| "feed_keys h now (c # r) (k, timer, st) =
     (let st1 = (if c = 9 \<and> r \<noteq> [] then st\<lparr>rl_completionEnabled := False\<rparr> else st);
          (k', ev) = key_next k [c];
          st2 = (case ev of None \<Rightarrow> st1 | Some e \<Rightarrow> onkeypress h now e st1);
          timer' = (timer \<or> (c = 27 \<and> r = []))
      in feed_keys h now r (k', timer', st2\<lparr>rl_completionEnabled := True\<rparr>))"

definition onData :: "rhooks \<Rightarrow> nat \<Rightarrow> jsstr \<Rightarrow> kstate \<times> bool \<times> iface \<Rightarrow> kstate \<times> bool \<times> iface" where
  "onData h now r acc =
     (case acc of (k, timer, st) \<Rightarrow>
        if r = [] then acc
        else feed_keys h now r (k, False, st\<lparr>rl_sawKeyPress := (length r = 1)\<rparr>))"

definition escapeCodeTimeout :: "rhooks \<Rightarrow> nat \<Rightarrow> kstate \<times> bool \<times> iface \<Rightarrow> kstate \<times> bool \<times> iface" where
  "escapeCodeTimeout h now acc =
     (case acc of (k, timer, st) \<Rightarrow>
        if timer then
          (case key_next k [] of
             (k', ev) \<Rightarrow> (k', False, (case ev of None \<Rightarrow> st | Some e \<Rightarrow> onkeypress h now e st)))
        else acc)"

text \<open>\<^verbatim>\<open>_normalWrite\<close> of a decoded string: input that is not from a terminal.\<close>

definition normalWrite :: "rhooks \<Rightarrow> nat \<Rightarrow> jsstr \<Rightarrow> iface \<Rightarrow> iface" where
  "normalWrite h now input st =
     (let (string1, st1) =
            (if rl_sawReturnAt st \<noteq> 0 \<and> now - rl_sawReturnAt st \<le> rl_crlfDelay st
             then ((case input of c # r \<Rightarrow> if c = 10 then r else input | [] \<Rightarrow> []), st\<lparr>rl_sawReturnAt := 0\<rparr>)
             else (input, st));
          newPartContainsEnding = list_ex (\<lambda>c. c = 10 \<or> c = 13) string1;
          string2 = rl_lineBuffer st1 @ string1;
          st2 = st1\<lparr>rl_lineBuffer := []\<rparr>
      in if newPartContainsEnding then
           (let st3 = st2\<lparr>rl_sawReturnAt := (if last string2 = 13 then now else 0)\<rparr>;
                lines = split_lines string2
            in fold (onLine h) (butlast lines) (st3\<lparr>rl_lineBuffer := last lines\<rparr>))
         else st2\<lparr>rl_lineBuffer := string2\<rparr>)"

text \<open>\<^verbatim>\<open>write(d, key)\<close>.\<close>

definition rl_write :: "rhooks \<Rightarrow> nat \<Rightarrow> jsstr option \<Rightarrow> key option \<Rightarrow> iface \<Rightarrow> iface" where
  "rl_write h now d key st =
     (let st1 = (if rl_paused st then resume h st else st) in
      if rl_terminal st1 then ttyWrite h now d key st1
      else (case d of None \<Rightarrow> st1 | Some s \<Rightarrow> normalWrite h now s st1))"

text \<open>The end of the input, with and without a terminal.\<close>

definition onend :: "rhooks \<Rightarrow> iface \<Rightarrow> iface" where
  "onend h st =
     close h (if rl_lineBuffer st \<noteq> [] then fire h (EvLine (rl_lineBuffer st)) st else st)"

definition ontermend :: "rhooks \<Rightarrow> iface \<Rightarrow> iface" where
  "ontermend h st = close h (if rl_line st \<noteq> [] then fire h (EvLine (rl_line st)) st else st)"

section \<open>The constructor\<close>

text \<open>\<^verbatim>\<open>historySize\<close> and \<^verbatim>\<open>crlfDelay\<close> may be left out; a size that is no number is an error.\<close>

record rloptions =
  ro_terminal :: bool
  ro_historySize :: "jsval option"
  ro_removeDuplicates :: bool
  ro_prompt :: "jsstr option"
  ro_crlfDelay :: "nat option"
  ro_columns :: "nat option"
  ro_hasOutput :: bool

definition kHistorySize :: nat where "kHistorySize = 30"
definition kMincrlfDelay :: nat where "kMincrlfDelay = 100"

text \<open>
  A size that is not a number of at least 0 is an error: the constructor \<^verbatim>\<open>ERR_INVALID_OPT_VALUE\<close>
  is the class \<^verbatim>\<open>TypeError\<close> itself, which has no \<^verbatim>\<open>RangeError\<close>, so a TypeError is thrown.
\<close>

definition history_size :: "jsval option \<Rightarrow> jserr + nat option" where
  "history_size v =
     (case v of
        None \<Rightarrow> Inr (Some kHistorySize)
      | Some (JNum (Fin n)) \<Rightarrow> if n < 0 then Inl TypeError else Inr (Some (nat n))
      | Some (JNum PosInf) \<Rightarrow> Inr None
      | _ \<Rightarrow> Inl TypeError)"

definition new_Interface :: "rloptions \<Rightarrow> jserr + iface" where
  "new_Interface opts =
     ebind (history_size (ro_historySize opts)) (\<lambda>historySize.
       Inr (let st =
              \<lparr>rl_prompt = (case ro_prompt opts of None \<Rightarrow> js ''> '' | Some p \<Rightarrow> p), rl_line = [],
               rl_cursor = 0, rl_history = [], rl_historyIndex = -1, rl_historySize = historySize,
               rl_removeDuplicates = ro_removeDuplicates opts,
               rl_columns = (case ro_columns opts of None \<Rightarrow> None | Some n \<Rightarrow> if n = 0 then None else Some n),
               rl_prevRows = 0, rl_sawReturnAt = 0,
               rl_crlfDelay = (case ro_crlfDelay opts of
                                 None \<Rightarrow> kMincrlfDelay | Some d \<Rightarrow> max kMincrlfDelay d),
               rl_previousKey = None, rl_question = None, rl_oldPrompt = [],
               rl_terminal = ro_terminal opts, rl_closed = False, rl_paused = False,
               rl_completionEnabled = True, rl_sawKeyPress = False, rl_lineBuffer = [],
               rl_hasOutput = ro_hasOutput opts, rl_out = [], rl_events = []\<rparr>
            in note_call InputResume (if ro_terminal opts then setRawMode True st else st)))"

end
