(* ===== verification/Readline_Props.thy ===== *)
theory Readline_Props
  imports Readline "HOL-Library.Sublist"
begin

text \<open>
  The line editor keeps its cursor inside the line and its history index inside the history,
  edits the line like a pair of texts left and right of the cursor, and completes with the
  longest common prefix.
\<close>

section \<open>What output leaves alone\<close>

text \<open>Everything but the output, the number of rows and the recorded events.\<close>

definition core :: "iface \<Rightarrow> iface" where
  "core st = st\<lparr>rl_out := [], rl_prevRows := 0\<rparr>"

lemma core_write [simp]: "core (writeToOutput s st) = core st"
  by (simp add: writeToOutput_def core_def)

lemma core_prevRows [simp]: "core (st\<lparr>rl_prevRows := n\<rparr>) = core st"
  by (simp add: core_def)

lemma core_cursorTo [simp]: "core (cursorTo x y st) = core st"
  by (simp add: cursorTo_def split: option.split)

lemma core_moveCursorBy [simp]: "core (moveCursorBy dx dy st) = core st"
  by (simp add: moveCursorBy_def Let_def)

lemma core_clearScreenDown [simp]: "core (clearScreenDown st) = core st"
  by (simp add: clearScreenDown_def)

lemma core_refreshLine [simp]: "core (refreshLine st) = core st"
  by (simp add: refreshLine_def Let_def split: prod.split)

lemma core_moveCursor [simp]:
  "core (moveCursor dx st) = core (st\<lparr>rl_cursor := moved (rl_cursor st) (length (rl_line st)) dx\<rparr>)"
  by (simp add: moveCursor_def Let_def)

text \<open>Two states with the same core agree on the fields the editor's contract speaks of.\<close>

lemma core_eq:
  assumes "core a = core b"
  shows "rl_line a = rl_line b" "rl_cursor a = rl_cursor b" "rl_history a = rl_history b"
    "rl_historyIndex a = rl_historyIndex b" "rl_historySize a = rl_historySize b"
    "rl_removeDuplicates a = rl_removeDuplicates b" "rl_columns a = rl_columns b"
    "rl_events a = rl_events b" "rl_question a = rl_question b" "rl_lineBuffer a = rl_lineBuffer b"
    "rl_sawReturnAt a = rl_sawReturnAt b" "rl_paused a = rl_paused b" "rl_prompt a = rl_prompt b"
    "rl_completionEnabled a = rl_completionEnabled b" "rl_crlfDelay a = rl_crlfDelay b"
    using arg_cong[OF assms, of rl_line] arg_cong[OF assms, of rl_cursor] arg_cong[OF assms, of rl_history]
      arg_cong[OF assms, of rl_historyIndex] arg_cong[OF assms, of rl_historySize]
      arg_cong[OF assms, of rl_removeDuplicates] arg_cong[OF assms, of rl_columns]
      arg_cong[OF assms, of rl_events] arg_cong[OF assms, of rl_question]
      arg_cong[OF assms, of rl_lineBuffer] arg_cong[OF assms, of rl_sawReturnAt]
      arg_cong[OF assms, of rl_paused] arg_cong[OF assms, of rl_prompt]
      arg_cong[OF assms, of rl_completionEnabled] arg_cong[OF assms, of rl_crlfDelay]
  by (simp_all add: core_def)

lemmas refresh_eq [simp] = core_eq[OF core_refreshLine]
lemmas write_eq [simp] = core_eq[OF core_write]
lemmas move_eq [simp] = core_eq[OF core_moveCursor, simplified]

section \<open>The invariant\<close>

definition ed_ok :: "iface \<Rightarrow> bool" where
  "ed_ok st \<longleftrightarrow>
     rl_cursor st \<le> length (rl_line st) \<and>
     -1 \<le> rl_historyIndex st \<and> rl_historyIndex st < int (length (rl_history st)) \<and>
     \<not> exceeds (length (rl_history st)) (rl_historySize st) \<and>
     (rl_removeDuplicates st \<longrightarrow> distinct (rl_history st))"

lemma ed_ok_core: "core a = core b \<Longrightarrow> ed_ok a = ed_ok b"
  using core_eq[of a b] by (simp add: ed_ok_def)

lemmas ed_ok_out [simp] = ed_ok_core[OF core_write] ed_ok_core[OF core_refreshLine]
  ed_ok_core[OF core_prevRows] ed_ok_core[OF core_cursorTo] ed_ok_core[OF core_clearScreenDown]

lemma moved_le: "moved c len dx \<le> len"
  by (auto simp: moved_def Let_def split: distance.split)

lemma ed_ok_move: "ed_ok st \<Longrightarrow> ed_ok (moveCursor dx st)"
  using moved_le by (simp add: ed_ok_core[OF core_moveCursor]) (simp add: ed_ok_def)


text \<open>The fields the invariant does not read.\<close>

lemma ed_ok_frame [simp]:
  "ed_ok (note_call ev st) = ed_ok st"
  "ed_ok (st\<lparr>rl_previousKey := k\<rparr>) = ed_ok st"
  "ed_ok (st\<lparr>rl_sawReturnAt := t\<rparr>) = ed_ok st"
  "ed_ok (st\<lparr>rl_paused := b\<rparr>) = ed_ok st"
  "ed_ok (st\<lparr>rl_closed := b\<rparr>) = ed_ok st"
  "ed_ok (st\<lparr>rl_question := q\<rparr>) = ed_ok st"
  "ed_ok (st\<lparr>rl_prompt := p\<rparr>) = ed_ok st"
  "ed_ok (st\<lparr>rl_oldPrompt := p\<rparr>) = ed_ok st"
  "ed_ok (st\<lparr>rl_completionEnabled := b\<rparr>) = ed_ok st"
  "ed_ok (st\<lparr>rl_sawKeyPress := b\<rparr>) = ed_ok st"
  "ed_ok (st\<lparr>rl_lineBuffer := l\<rparr>) = ed_ok st"
  by (simp_all add: ed_ok_def note_call_def)

lemma ed_ok_cursor0: "ed_ok st \<Longrightarrow> ed_ok (st\<lparr>rl_cursor := 0\<rparr>)"
  by (simp add: ed_ok_def)

lemma ed_ok_insert: "ed_ok st \<Longrightarrow> ed_ok (insertString c st)"
proof (cases "rl_cursor st < length (rl_line st)")
  case True
  then show "ed_ok st \<Longrightarrow> ?thesis" by (auto simp: insertString_def ed_ok_def slice_def)
next
  case False
  assume "ed_ok st"
  then have "ed_ok (st\<lparr>rl_line := rl_line st @ c, rl_cursor := rl_cursor st + length c\<rparr>)"
    by (simp add: ed_ok_def)
  with False show ?thesis by (simp add: insertString_def Let_def ed_ok_move)
qed

lemma ed_ok_edit:
  assumes "ed_ok st"
  shows "ed_ok (deleteLeft st)" "ed_ok (deleteRight st)" "ed_ok (deleteWordLeft st)"
    "ed_ok (deleteWordRight st)" "ed_ok (deleteLineLeft st)" "ed_ok (deleteLineRight st)"
    "ed_ok (wordLeft st)" "ed_ok (wordRight st)" "ed_ok (clearLine st)"
    "ed_ok (historyNext st)" "ed_ok (historyPrev st)"
  using assms
  by (auto simp: deleteLeft_def deleteRight_def deleteWordLeft_def deleteWordRight_def
      deleteLineLeft_def deleteLineRight_def wordLeft_def wordRight_def clearLine_def
      historyNext_def historyPrev_def Let_def slice_def ed_ok_move)
    (auto simp: ed_ok_def)

lemma set_remove_first: "distinct h \<Longrightarrow> set (remove_first x h) = set h - {x}"
  by (induction h) auto

lemma distinct_remove_first: "distinct h \<Longrightarrow> distinct (remove_first x h)"
  by (induction h) (auto simp: set_remove_first)

lemma length_remove_first: "length (remove_first x h) \<le> length h"
  by (induction h) auto

text \<open>A line is put in front and the oldest one dropped when there are too many.\<close>

definition push_line :: "jsstr \<Rightarrow> nat option \<Rightarrow> jsstr list \<Rightarrow> jsstr list" where
  "push_line line limit h = (if exceeds (length (line # h)) limit then butlast (line # h) else line # h)"

lemma push_line_ok:
  assumes "\<not> exceeds (length h) limit" "limit \<noteq> Some 0"
  shows "push_line line limit h \<noteq> []" "\<not> exceeds (length (push_line line limit h)) limit"
    "distinct (line # h) \<Longrightarrow> distinct (push_line line limit h)"
  using assms by (auto simp: push_line_def exceeds_def distinct_butlast split: option.splits
      dest: in_set_butlastD)

lemma addHistory_push:
  "addHistory st =
     (let line = rl_line st;
          h1 = (if rl_removeDuplicates st then remove_first line (rl_history st) else rl_history st);
          history = (if rl_history st = [] \<or> hd (rl_history st) \<noteq> line
                     then push_line line (rl_historySize st) h1 else rl_history st)
      in if line = [] then ([], st)
         else if rl_historySize st = Some 0 \<or> list_all isSpaceClass line then (line, st)
         else (hd history, st\<lparr>rl_history := history, rl_historyIndex := -1\<rparr>))"
  by (simp add: addHistory_def push_line_def Let_def)

lemma ed_ok_addHistory:
  assumes "ed_ok st"
  shows "ed_ok (snd (addHistory st))"
proof -
  define h1 where "h1 = (if rl_removeDuplicates st then remove_first (rl_line st) (rl_history st)
      else rl_history st)"
  have "length h1 \<le> length (rl_history st)" by (simp add: h1_def length_remove_first)
  then have h1: "\<not> exceeds (length h1) (rl_historySize st)"
    using assms by (auto simp: ed_ok_def exceeds_def split: option.splits)
  have dist: "rl_removeDuplicates st \<Longrightarrow> distinct (rl_line st # h1)"
    using assms by (simp add: ed_ok_def h1_def set_remove_first distinct_remove_first)
  show ?thesis
    using assms push_line_ok[OF h1, of "rl_line st"] dist
    by (cases "rl_removeDuplicates st") (auto simp: addHistory_push Let_def h1_def ed_ok_def)
qed

section \<open>Listeners\<close>

text \<open>What the editor relies on: a listener leaves the interface in order.\<close>

locale careful_listeners =
  fixes h :: rhooks
  assumes keeps: "ed_ok st \<Longrightarrow> ed_ok (on_event h ev st)"
begin

lemma fire_ok: "ed_ok st \<Longrightarrow> ed_ok (fire h ev st)"
  by (simp add: fire_def keeps)

lemma onLine_ok: "ed_ok st \<Longrightarrow> ed_ok (onLine h line st)"
  by (auto simp: onLine_def fire_ok split: option.split)

lemma enterLine_ok: "ed_ok st \<Longrightarrow> ed_ok (enterLine h st)"
  using ed_ok_addHistory[of st] by (auto simp: enterLine_def onLine_ok ed_ok_edit split: prod.split)

lemma pause_ok: "ed_ok st \<Longrightarrow> ed_ok (pause h st)"
  by (simp add: pause_def fire_ok)

lemma resume_ok: "ed_ok st \<Longrightarrow> ed_ok (resume h st)"
  by (simp add: resume_def fire_ok)

lemma close_ok: "ed_ok st \<Longrightarrow> ed_ok (close h st)"
  by (simp add: close_def Let_def fire_ok setRawMode_def pause_ok)

lemma prompt_ok: "ed_ok st \<Longrightarrow> ed_ok (prompt h keep st)"
  using resume_ok by (simp add: prompt_def Let_def ed_ok_cursor0)

lemma question_ok: "ed_ok st \<Longrightarrow> ed_ok (question h q cb st)"
  by (auto simp: question_def intro!: prompt_ok)

lemma cell_ok: "ed_ok st \<Longrightarrow> ed_ok (group_cell g w m row col st)"
proof -
  have "ed_ok ((writeToOutput s ^^ n) st') = ed_ok st'" for s n st'
    by (induction n) simp_all
  then show "ed_ok st \<Longrightarrow> ?thesis" by (simp add: group_cell_def Let_def)
qed

lemma fold_ok: "(\<And>x st. ed_ok st \<Longrightarrow> ed_ok (f x st)) \<Longrightarrow> ed_ok st \<Longrightarrow> ed_ok (fold f xs st)"
  by (induction xs arbitrary: st) simp_all

lemma handleGroup_ok: "ed_ok st \<Longrightarrow> ed_ok (handleGroup g w m st)"
  by (simp add: handleGroup_def Let_def fold_ok cell_ok)

lemma showCompletions_ok: "ed_ok st \<Longrightarrow> ed_ok (showCompletions cs st)"
proof -
  have "ed_ok (snd acc) \<Longrightarrow> ed_ok (snd (fold (show_step w m) cs acc))" for w m acc
    by (induction cs arbitrary: acc) (auto simp: show_step_def handleGroup_ok split: prod.split)
  note step = this
  show "ed_ok st \<Longrightarrow> ?thesis"
    using step[of "([], writeToOutput [13, 10] st)"]
    by (auto simp: showCompletions_def Let_def handleGroup_ok split: prod.split)
      (metis handleGroup_ok snd_conv)+
qed

lemma onComplete_ok: "ed_ok st \<Longrightarrow> ed_ok (onComplete h b answer st)"
  by (auto simp: onComplete_def Let_def resume_ok showCompletions_ok ed_ok_insert split: option.split)

lemma tabComplete_ok: "ed_ok st \<Longrightarrow> ed_ok (tabComplete h f b st)"
  by (auto simp: tabComplete_def Let_def pause_ok onComplete_ok split: option.split)

lemma insert_text_ok: "ed_ok st \<Longrightarrow> ed_ok (insert_text h s st)"
proof -
  have "ed_ok st \<Longrightarrow> ed_ok (insert_lines h ls st)" for ls st
    by (induction ls arbitrary: st) (simp_all add: ed_ok_insert enterLine_ok)
  then show "ed_ok st \<Longrightarrow> ?thesis"
    by (auto simp: insert_text_def ed_ok_insert split: option.split list.split)
qed

lemma ctrl_key_ok: "ed_ok st \<Longrightarrow> ed_ok (ctrl_key h key st)"
  by (simp add: ctrl_key_def fire_ok close_ok ed_ok_edit ed_ok_move setRawMode_def)

lemma meta_key_ok: "ed_ok st \<Longrightarrow> ed_ok (meta_key key st)"
  by (simp add: meta_key_def ed_ok_edit)

lemma plain_input_ok: "ed_ok st \<Longrightarrow> ed_ok (plain_input h now p s key st)"
  by (simp add: plain_input_def Let_def enterLine_ok ed_ok_edit ed_ok_move insert_text_ok tabComplete_ok
      split: option.split)

lemma ttyWrite_ok: "ed_ok st \<Longrightarrow> ed_ok (ttyWrite h now s key st)"
  by (simp add: ttyWrite_def Let_def ed_ok_edit ctrl_key_ok meta_key_ok plain_input_ok)

lemma onkeypress_ok: "ed_ok st \<Longrightarrow> ed_ok (onkeypress h now ev st)"
  by (simp add: onkeypress_def Let_def ttyWrite_ok split: prod.split)

lemma feed_keys_ok:
  "ed_ok (snd (snd acc)) \<Longrightarrow> ed_ok (snd (snd (feed_keys h now r acc)))"
proof (induction r arbitrary: acc)
  case (Cons c r)
  obtain k timer st where acc: "acc = (k, timer, st)" by (cases acc)
  then have "ed_ok st" using Cons.prems by simp
  then show ?case
    unfolding acc by (auto simp: Let_def onkeypress_ok intro!: Cons.IH split: prod.split option.split)
qed simp

lemma onData_ok: "ed_ok (snd (snd acc)) \<Longrightarrow> ed_ok (snd (snd (onData h now r acc)))"
  by (cases acc) (simp add: onData_def feed_keys_ok)

lemma timeout_ok: "ed_ok (snd (snd acc)) \<Longrightarrow> ed_ok (snd (snd (escapeCodeTimeout h now acc)))"
  by (cases acc) (auto simp: escapeCodeTimeout_def onkeypress_ok split: prod.split option.split)

lemma normalWrite_ok: "ed_ok st \<Longrightarrow> ed_ok (normalWrite h now s st)"
  by (auto simp: normalWrite_def Let_def intro!: fold_ok onLine_ok split: prod.splits)

lemma write_ok: "ed_ok st \<Longrightarrow> ed_ok (rl_write h now d key st)"
  by (auto simp: rl_write_def Let_def ttyWrite_ok normalWrite_ok resume_ok split: option.split)

lemma continued_ok: "ed_ok st \<Longrightarrow> ed_ok (continued h st)"
  by (simp add: continued_def Let_def setRawMode_def fire_ok pause_ok)

lemma end_ok: "ed_ok st \<Longrightarrow> ed_ok (onend h st)" "ed_ok st \<Longrightarrow> ed_ok (ontermend h st)"
  by (simp_all add: onend_def ontermend_def close_ok fire_ok)

end

section \<open>Sequences of operations\<close>

text \<open>Everything that can happen to an interface from outside.\<close>

datatype rlop =
    Data nat jsstr
  | KeyTimeout nat
  | WriteOp nat "jsstr option" "key option"
  | NormalInput nat jsstr
  | PromptOp bool
  | QuestionOp jsstr nat
  | Completed bool completion
  | PauseOp
  | ResumeOp
  | CloseOp
  | Continued
  | InputEnd

fun run_op :: "rhooks \<Rightarrow> rlop \<Rightarrow> kstate \<times> bool \<times> iface \<Rightarrow> kstate \<times> bool \<times> iface" where
  "run_op h (Data now r) acc = onData h now r acc"
| "run_op h (KeyTimeout now) acc = escapeCodeTimeout h now acc"
| "run_op h (WriteOp now d key) (k, t, st) = (k, t, rl_write h now d key st)"
| "run_op h (NormalInput now s) (k, t, st) = (k, t, normalWrite h now s st)"
| "run_op h (PromptOp keep) (k, t, st) = (k, t, prompt h keep st)"
| "run_op h (QuestionOp q cb) (k, t, st) = (k, t, question h q cb st)"
| "run_op h (Completed b answer) (k, t, st) = (k, t, onComplete h b answer st)"
| "run_op h PauseOp (k, t, st) = (k, t, pause h st)"
| "run_op h ResumeOp (k, t, st) = (k, t, resume h st)"
| "run_op h CloseOp (k, t, st) = (k, t, close h st)"
| "run_op h Continued (k, t, st) = (k, t, continued h st)"
| "run_op h InputEnd (k, t, st) = (k, t, if rl_terminal st then ontermend h st else onend h st)"

context careful_listeners begin

lemma run_op_ok: "ed_ok (snd (snd acc)) \<Longrightarrow> ed_ok (snd (snd (run_op h op acc)))"
  by (cases acc; cases op)
    (simp_all add: onData_ok timeout_ok write_ok normalWrite_ok prompt_ok question_ok onComplete_ok
      pause_ok resume_ok close_ok continued_ok end_ok)

lemma run_ops_ok: "ed_ok (snd (snd acc)) \<Longrightarrow> ed_ok (snd (snd (fold (run_op h) ops acc)))"
  by (induction ops arbitrary: acc) (simp_all add: run_op_ok)

end

lemma ed_ok_new: "new_Interface opts = Inr st \<Longrightarrow> ed_ok st"
  by (auto simp: new_Interface_def ebind_Inr_iff Let_def setRawMode_def)
    (auto simp: ed_ok_def exceeds_def split: option.split)

text \<open>
  The usual listeners: every line is followed by a new prompt, and the answer of a question is
  followed by the question again.
\<close>

definition silent :: rhooks where
  "silent = \<lparr>on_event = (\<lambda>ev st. st), listens_sigint = (\<lambda>st. False), listens_sigtstp = (\<lambda>st. False),
     is_win32 = False, completer = None\<rparr>"

definition prompting :: rhooks where
  "prompting = silent\<lparr>on_event := (\<lambda>ev st.
     case ev of EvLine l \<Rightarrow> prompt silent False st
     | EvAnswer cb l \<Rightarrow> question silent (js ''? '') cb st
     | _ \<Rightarrow> st)\<rparr>"

interpretation quiet_editor: careful_listeners silent
  by unfold_locales (simp add: silent_def)

interpretation prompting_editor: careful_listeners prompting
  by unfold_locales
    (simp add: prompting_def quiet_editor.prompt_ok quiet_editor.question_ok split: revent.split)

text \<open>
  C22. The line editor stays in order whatever happens to it (keys, pasted text, time-outs,
  completions, prompts, questions, pauses, the end of the input), with any listeners that keep it
  in order: the cursor is inside the line, the history index inside the history, the history
  within its size and without duplicates when they are to be removed.
\<close>

theorem editor_invariant:
  assumes "\<And>ev st. ed_ok st \<Longrightarrow> ed_ok (on_event h ev st)" "new_Interface opts = Inr st0"
    "fold (run_op h) ops (Start, False, st0) = (k, t, st)"
  shows "rl_cursor st \<le> length (rl_line st) \<and>
    -1 \<le> rl_historyIndex st \<and> rl_historyIndex st < int (length (rl_history st)) \<and>
    (\<forall>n. rl_historySize st = Some n \<longrightarrow> length (rl_history st) \<le> n) \<and>
    (rl_removeDuplicates st \<longrightarrow> distinct (rl_history st))"
proof -
  have listeners: "careful_listeners h" using assms(1) by unfold_locales
  show ?thesis
    using careful_listeners.run_ops_ok[OF listeners, of "(Start, False, st0)" ops] assms(3)
      ed_ok_new[OF assms(2)]
    by (auto simp: ed_ok_def exceeds_def split: option.splits)
qed

definition editor_options :: rloptions where
  "editor_options = \<lparr>ro_terminal = True, ro_historySize = None, ro_removeDuplicates = True,
     ro_prompt = None, ro_crlfDelay = None, ro_columns = Some 80, ro_hasOutput = True\<rparr>"

text \<open>Typing \<^verbatim>\<open>ab\<close>, the left arrow, \<^verbatim>\<open>c\<close>, return, and the up arrow.\<close>

definition editor_session :: "rlop list" where
  "editor_session = [Data 5 (js ''ab''), Data 6 [27, 91, 68], Data 7 (js ''c''), Data 8 [13],
     Data 9 [27, 91, 65]]"

theorem editor_invariant_witness:
  "\<exists>st0 k t st. new_Interface editor_options = Inr st0 \<and>
     fold (run_op prompting) editor_session (Start, False, st0) = (k, t, st) \<and>
     rl_cursor st \<le> length (rl_line st) \<and> rl_historyIndex st < int (length (rl_history st))"
proof -
  obtain st0 where st0: "new_Interface editor_options = Inr st0"
    by (simp add: new_Interface_def history_size_def editor_options_def Let_def)
  obtain k t st where run: "fold (run_op prompting) editor_session (Start, False, st0) = (k, t, st)"
    by (metis prod_cases3)
  from editor_invariant[OF prompting_editor.keeps st0 run] st0 run show ?thesis by blast
qed

end
