(* ===== verification/Readline_Spec.thy ===== *)
theory Readline_Spec
  imports Readline_Props
begin

text \<open>
  What the line editor promises: it edits like a pair of texts left and right of the cursor, it
  completes with the longest common prefix, browsing the history returns the lines entered, and
  the lines of an input do not depend on how the input arrives in chunks.
\<close>

section \<open>Words\<close>

text \<open>
  The word left of the cursor: the spaces before the cursor and the run of one class (word
  characters, or other characters that are not spaces) before them.  The word to the right: the
  run that starts there and the spaces after it.
\<close>

definition run_class :: "nat \<Rightarrow> nat \<Rightarrow> bool" where
  "run_class c d \<longleftrightarrow> \<not> isSpaceClass d \<and> isWordChar d = isWordChar c"

definition drop_word_left :: "jsstr \<Rightarrow> jsstr" where
  "drop_word_left l =
     (let r = dropWhile isSpaceClass (rev l)
      in rev (case r of [] \<Rightarrow> [] | c # _ \<Rightarrow> dropWhile (run_class c) r))"

lemma space_not_word: "isSpaceClass c \<Longrightarrow> \<not> isWordChar c"
  by (auto simp: isSpaceClass_def isWordChar_def)

lemma word_and_space_parts:
  assumes "\<forall>c\<in>set w. \<not> isSpaceClass c" "\<forall>c\<in>set sp. isSpaceClass c"
  shows "word_and_space (w @ sp) \<longleftrightarrow> list_all (\<lambda>c. \<not> isWordChar c) w \<or> list_all isWordChar w"
proof -
  have "takeWhile (\<lambda>c. \<not> isSpaceClass c) (w @ sp) = w"
    using assms by (cases sp) (simp_all add: takeWhile_append)
  moreover have "dropWhile (\<lambda>c. \<not> isSpaceClass c) (w @ sp) = sp"
    using assms by (cases sp) (simp_all add: dropWhile_append)
  ultimately show ?thesis using assms(2) by (simp add: word_and_space_def list_all_iff)
qed

lemma append_prefix_cases:
  assumes "u @ v = p @ q" "u \<noteq> []"
  obtains "set u \<subseteq> set p" | "last u \<in> set q"
proof -
  obtain us where "u = p @ us \<and> us @ v = q \<or> u @ us = p \<and> v = us @ q"
    using assms(1) by (auto simp: append_eq_append_conv2)
  then consider "us \<noteq> []" "u = p @ us" "us @ v = q" | "u = p" | "u @ us = p" by fastforce
  then show ?thesis using that assms(2) by cases auto
qed

lemma word_and_space_split:
  assumes "word_and_space s"
  obtains w sp where "s = w @ sp" "\<forall>c\<in>set w. \<not> isSpaceClass c" "\<forall>c\<in>set sp. isSpaceClass c"
    "list_all (\<lambda>c. \<not> isWordChar c) w \<or> list_all isWordChar w"
proof -
  let ?w = "takeWhile (\<lambda>c. \<not> isSpaceClass c) s" and ?r = "dropWhile (\<lambda>c. \<not> isSpaceClass c) s"
  show ?thesis
  proof (rule that)
    show "s = ?w @ ?r" by (rule takeWhile_dropWhile_id[symmetric])
    show "\<forall>c\<in>set ?w. \<not> isSpaceClass c" by (auto dest: set_takeWhileD)
    have "list_all isSpaceClass ?r \<and> (list_all (\<lambda>c. \<not> isWordChar c) ?w \<or> list_all isWordChar ?w)"
      using assms unfolding word_and_space_def Let_def .
    then show "\<forall>c\<in>set ?r. isSpaceClass c"
      "list_all (\<lambda>c. \<not> isWordChar c) ?w \<or> list_all isWordChar ?w"
      unfolding list_all_iff by blast+
  qed
qed

text \<open>The suffix \<open>s\<close> is the longest that matches.\<close>

lemma match_left_longest:
  assumes "word_and_space s" "\<And>b. b \<noteq> [] \<Longrightarrow> suffix b a \<Longrightarrow> \<not> word_and_space (b @ s)"
  shows "match_left (a @ s) = length s"
  using assms(2)
proof (induction a)
  case Nil
  then show ?case using assms(1) by (cases s) simp_all
next
  case (Cons c a)
  have "\<not> word_and_space ((c # a) @ s)" by (rule Cons.prems) auto
  moreover have "match_left (a @ s) = length s"
    by (rule Cons.IH) (use Cons.prems in \<open>auto simp: suffix_Cons\<close>)
  ultimately show ?case by simp
qed

lemma match_left_spec:
  "take (length l - match_left l) l = drop_word_left l" "match_left l \<le> length l"
proof -
  define sp r where "sp = rev (takeWhile isSpaceClass (rev l))" and "r = dropWhile isSpaceClass (rev l)"
  have "rev l = rev sp @ r" by (simp add: sp_def r_def)
  then have l: "l = rev r @ sp" by (metis rev_append rev_rev_ident)
  have sp: "\<forall>c\<in>set sp. isSpaceClass c" by (auto simp: sp_def dest: set_takeWhileD)
  show "take (length l - match_left l) l = drop_word_left l" "match_left l \<le> length l"
  proof (atomize(full), cases r)
    case Nil
    then have "match_left ([] @ l) = length l"
      using sp l word_and_space_parts[of "[]" l] by (intro match_left_longest) auto
    then show "take (length l - match_left l) l = drop_word_left l \<and> match_left l \<le> length l"
      using Nil by (simp add: drop_word_left_def r_def[symmetric])
  next
    case (Cons c r')
    have c: "\<not> isSpaceClass c" using Cons hd_dropWhile[of isSpaceClass "rev l"] by (auto simp: r_def)
    define w a where "w = rev (takeWhile (run_class c) r)" and "a = rev (dropWhile (run_class c) r)"
    have "r = rev w @ rev a" by (simp add: w_def a_def)
    then have ra: "rev r = a @ w" by simp
    have w: "\<forall>d\<in>set w. run_class c d" by (auto simp: w_def dest: set_takeWhileD)
    have cw: "c \<in> set w" using Cons c by (simp add: w_def run_class_def)
    have last: "a \<noteq> [] \<Longrightarrow> \<not> run_class c (last a)"
      using hd_dropWhile[of "run_class c" r] by (auto simp: a_def last_rev)
    have "match_left (a @ w @ sp) = length (w @ sp)"
    proof (rule match_left_longest)
      show "word_and_space (w @ sp)"
        using w sp by (subst word_and_space_parts) (auto simp: run_class_def list_all_iff)
      fix b assume b: "b \<noteq> []" "suffix b a"
      show "\<not> word_and_space (b @ w @ sp)"
      proof
        assume "word_and_space (b @ w @ sp)"
        then obtain w' sp' where s: "b @ w @ sp = w' @ sp'" "\<forall>c\<in>set w'. \<not> isSpaceClass c"
          "\<forall>c\<in>set sp'. isSpaceClass c" "list_all (\<lambda>c. \<not> isWordChar c) w' \<or> list_all isWordChar w'"
          by (rule word_and_space_split)
        have "set (b @ w) \<subseteq> set w'"
        proof (rule append_prefix_cases[OF s(1)[folded append_assoc]])
          assume "last (b @ w) \<in> set sp'"
          moreover have "last (b @ w) \<in> set w" using cw by (metis last_appendR last_in_set list.set_cases neq_Nil_conv)
          ultimately show ?thesis using s(3) w by (auto simp: run_class_def)
        qed (use b in auto)
        moreover have "last b \<in> set b" "last b = last a" using b by (auto simp: suffix_def)
        ultimately have "\<not> isSpaceClass (last a)" "isWordChar (last a) = isWordChar c"
          using s(2,4) cw by (auto simp: list_all_iff)
        moreover have "a \<noteq> []" using b by auto
        ultimately show False using last by (simp add: run_class_def)
      qed
    qed
    then have m: "match_left l = length (w @ sp)" by (simp add: l ra)
    have "drop_word_left l = a"
      by (simp add: drop_word_left_def r_def[symmetric] Cons a_def del: dropWhile.simps)
    moreover have "l = a @ w @ sp" by (simp add: l ra)
    ultimately show "take (length l - match_left l) l = drop_word_left l \<and> match_left l \<le> length l"
      using m by simp
  qed
qed

definition drop_word_right :: "jsstr \<Rightarrow> jsstr" where
  "drop_word_right r =
     (case r of
        [] \<Rightarrow> []
      | c # _ \<Rightarrow>
          dropWhile isSpaceClass
            (dropWhile (if isSpaceClass c then isSpaceClass
                        else if isWordChar c then isWordChar else (\<lambda>d. \<not> isWordChar d)) r))"

lemma drop_two_runs:
  "drop (length (takeWhile p s) + length (takeWhile q (drop (length (takeWhile p s)) s))) s =
   dropWhile q (dropWhile p s)"
  by (metis add.commute drop_drop dropWhile_eq_drop)

lemma match_right_spec: "drop (match_right r) r = drop_word_right r" "match_right r \<le> length r"
proof -
  show "drop (match_right r) r = drop_word_right r"
    unfolding match_right_def drop_word_right_def Let_def drop_two_runs by (cases r) simp_all
  have "k + length (takeWhile q (drop k r)) \<le> length r" if "k \<le> length r" for k q
    using that length_takeWhile_le[of q "drop k r"] by simp
  then show "match_right r \<le> length r"
    by (simp add: match_right_def Let_def length_takeWhile_le)
qed

section \<open>Editing a pair of texts\<close>

datatype edit =
    Insert jsstr | Backspace | Delete | KillLeft | KillRight | CharLeft | CharRight | Home | End
  | WordLeft | WordRight | KillWordLeft | KillWordRight

fun zstep :: "edit \<Rightarrow> jsstr \<times> jsstr \<Rightarrow> jsstr \<times> jsstr" where
  "zstep (Insert s) (l, r) = (l @ s, r)"
| "zstep Backspace (l, r) = (butlast l, r)"
| "zstep Delete (l, r) = (l, tl r)"
| "zstep KillLeft (l, r) = ([], r)"
| "zstep KillRight (l, r) = (l, [])"
| "zstep CharLeft (l, r) = (if l = [] then (l, r) else (butlast l, last l # r))"
| "zstep CharRight (l, r) = (case r of [] \<Rightarrow> (l, r) | c # r' \<Rightarrow> (l @ [c], r'))"
| "zstep Home (l, r) = ([], l @ r)"
| "zstep End (l, r) = (l @ r, [])"
| "zstep WordLeft (l, r) = (let l' = drop_word_left l in (l', drop (length l') l @ r))"
| "zstep WordRight (l, r) =
     (let r' = drop_word_right r in (l @ take (length r - length r') r, r'))"
| "zstep KillWordLeft (l, r) = (drop_word_left l, r)"
| "zstep KillWordRight (l, r) = (l, drop_word_right r)"

text \<open>The texts left and right of the cursor.\<close>

definition halves :: "iface \<Rightarrow> jsstr \<times> jsstr" where
  "halves st = (take (rl_cursor st) (rl_line st), drop (rl_cursor st) (rl_line st))"

definition cursor_ok :: "iface \<Rightarrow> bool" where
  "cursor_ok st \<longleftrightarrow> rl_cursor st \<le> length (rl_line st)"

lemma halves_core: "core a = core b \<Longrightarrow> halves a = halves b \<and> cursor_ok a = cursor_ok b"
  using core_eq[of a b] by (simp add: halves_def cursor_ok_def)

lemma halves_out [simp]:
  "halves (refreshLine st) = halves st" "halves (writeToOutput s st) = halves st"
  "cursor_ok (refreshLine st) = cursor_ok st" "cursor_ok (writeToOutput s st) = cursor_ok st"
  using halves_core[OF core_refreshLine] halves_core[OF core_write] by auto

lemma halves_move:
  "halves (moveCursor dx st) =
     (let c = moved (rl_cursor st) (length (rl_line st)) dx
      in (take c (rl_line st), drop c (rl_line st)))"
  "cursor_ok (moveCursor dx st)"
  using halves_core[OF core_moveCursor[of dx st]] moved_le by (auto simp: halves_def cursor_ok_def Let_def)

text \<open>The state of an editor in terms of the two texts.\<close>

lemma halves_iff:
  "halves st = (l, r) \<and> cursor_ok st \<longleftrightarrow> rl_line st = l @ r \<and> rl_cursor st = length l"
  by (auto simp: halves_def cursor_ok_def)

named_theorems edits

text \<open>What an operation does to the two texts.\<close>

definition edits_as :: "(iface \<Rightarrow> iface) \<Rightarrow> edit \<Rightarrow> bool" where
  "edits_as f e \<longleftrightarrow>
     (\<forall>st. cursor_ok st \<longrightarrow> halves (f st) = zstep e (halves st) \<and> cursor_ok (f st))"

lemma edits_asI:
  assumes "\<And>st l r. rl_line st = l @ r \<Longrightarrow> rl_cursor st = length l \<Longrightarrow>
    halves (f st) = zstep e (l, r) \<and> cursor_ok (f st)"
  shows "edits_as f e"
  unfolding edits_as_def using assms halves_iff by (metis surj_pair)

lemma insert_edit [edits]: "edits_as (insertString s) (Insert s)"
  by (rule edits_asI)
    (auto simp: insertString_def Let_def halves_move moved_def slice_def, auto simp: halves_def cursor_ok_def)

lemma delete_edit [edits]:
  "edits_as deleteLeft Backspace" "edits_as deleteRight Delete"
  "edits_as deleteLineLeft KillLeft" "edits_as deleteLineRight KillRight"
  by (rule edits_asI; auto simp: deleteLeft_def deleteRight_def deleteLineLeft_def deleteLineRight_def
      slice_def; auto simp: halves_def cursor_ok_def butlast_conv_take drop_Suc)+

text \<open>Moving by a distance that stays inside the line.\<close>

lemma move_left: "rl_line st = l @ m @ r \<Longrightarrow> rl_cursor st = length (l @ m) \<Longrightarrow>
    halves (moveCursor (By (- int (length m))) st) = (l, m @ r)"
  by (simp add: halves_move moved_def)

lemma move_right: "rl_line st = l @ m @ r \<Longrightarrow> rl_cursor st = length l \<Longrightarrow>
    halves (moveCursor (By (int (length m))) st) = (l @ m, r)"
  by (simp add: halves_move moved_def nat_int_add)

lemma char_edit [edits]:
  "edits_as (moveCursor (By (-1))) CharLeft" "edits_as (moveCursor (By 1)) CharRight"
proof -
  show "edits_as (moveCursor (By (-1))) CharLeft"
  proof (rule edits_asI)
    fix st :: iface and l r assume st: "rl_line st = l @ r" "rl_cursor st = length l"
    show "halves (moveCursor (By (-1)) st) = zstep CharLeft (l, r) \<and> cursor_ok (moveCursor (By (-1)) st)"
    proof (cases l rule: rev_cases)
      case Nil
      then show ?thesis using st by (simp add: halves_move moved_def)
    next
      case (snoc l' c)
      then show ?thesis using st move_left[of st l' "[c]" r] by (simp add: halves_move(2))
    qed
  qed
  show "edits_as (moveCursor (By 1)) CharRight"
  proof (rule edits_asI)
    fix st :: iface and l r assume st: "rl_line st = l @ r" "rl_cursor st = length l"
    show "halves (moveCursor (By 1) st) = zstep CharRight (l, r) \<and> cursor_ok (moveCursor (By 1) st)"
    proof (cases r)
      case Nil
      then show ?thesis using st by (simp add: halves_move moved_def)
    next
      case (Cons c r')
      then show ?thesis using st move_right[of st l "[c]" r'] by (simp add: halves_move(2))
    qed
  qed
qed

lemma line_edit [edits]:
  "edits_as (moveCursor ToStart) Home" "edits_as (moveCursor ToEnd) End"
  by (rule edits_asI; auto simp: halves_move moved_def)+

lemma drop_word_Nil [simp]: "drop_word_left [] = []" "drop_word_right [] = []"
  by (simp_all add: drop_word_left_def drop_word_right_def)

lemma word_left_edit [edits]: "edits_as wordLeft WordLeft" "edits_as deleteWordLeft KillWordLeft"
proof -
  have split: "\<exists>m. l = drop_word_left l @ m \<and> length m = match_left l" for l
    using match_left_spec[of l] by (metis append_take_drop_id diff_diff_cancel length_drop)
  show "edits_as wordLeft WordLeft"
  proof (rule edits_asI)
    fix st :: iface and l r assume st: "rl_line st = l @ r" "rl_cursor st = length l"
    obtain m where m: "l = drop_word_left l @ m" "length m = match_left l" using split by blast
    have "halves (moveCursor (By (- int (length m))) st) = (drop_word_left l, m @ r)"
      using st m(1) by (intro move_left) (metis append_assoc, metis)
    moreover have "drop (length (drop_word_left l)) l = m" using m(1) by (metis append_eq_conv_conj)
    ultimately show "halves (wordLeft st) = zstep WordLeft (l, r) \<and> cursor_ok (wordLeft st)"
      using st m(2) halves_move(2)[of _ st]
      by (cases "l = []") (simp_all add: wordLeft_def Let_def halves_def[of st] cursor_ok_def[of st])
  qed
  show "edits_as deleteWordLeft KillWordLeft"
    by (rule edits_asI; auto simp: deleteWordLeft_def Let_def match_left_spec slice_append_tail;
        auto simp: halves_def cursor_ok_def drop_word_left_def)
qed

lemma word_right_edit [edits]: "edits_as wordRight WordRight" "edits_as deleteWordRight KillWordRight"
proof -
  have split: "\<exists>m. r = m @ drop_word_right r \<and> length m = match_right r" for r
    using match_right_spec[of r] by (metis append_take_drop_id length_take min_absorb2)
  show "edits_as wordRight WordRight"
  proof (rule edits_asI)
    fix st :: iface and l r assume st: "rl_line st = l @ r" "rl_cursor st = length l"
    obtain m where m: "r = m @ drop_word_right r" "length m = match_right r" using split by blast
    have "halves (moveCursor (By (int (length m))) st) = (l @ m, drop_word_right r)"
      using st m(1) by (intro move_right) simp_all
    moreover have "take (length r - length (drop_word_right r)) r = m"
      using m(1) by (metis append_eq_conv_conj length_append add_diff_cancel_right')
    ultimately show "halves (wordRight st) = zstep WordRight (l, r) \<and> cursor_ok (wordRight st)"
      using st m(2) halves_move(2)[of _ st]
      by (cases "r = []") (simp_all add: wordRight_def Let_def halves_def[of st] cursor_ok_def[of st])
  qed
  show "edits_as deleteWordRight KillWordRight"
    by (rule edits_asI; auto simp: deleteWordRight_def Let_def match_right_spec;
        auto simp: halves_def cursor_ok_def drop_word_right_def)
qed

section \<open>The keys that edit\<close>

text \<open>The edit a key stands for, \<open>None\<close> for the keys that do something else.\<close>

definition plain_text :: "jsstr \<Rightarrow> bool" where
  "plain_text s \<longleftrightarrow> s \<noteq> [] \<and> 10 \<notin> set s \<and> 13 \<notin> set s"

definition ctrl_edits :: "(jsstr option \<times> edit) list" where
  "ctrl_edits =
     [(Some (js ''h''), Backspace), (Some (js ''u''), KillLeft), (Some (js ''k''), KillRight),
      (Some (js ''a''), Home), (Some (js ''e''), End), (Some (js ''b''), CharLeft),
      (Some (js ''f''), CharRight), (Some (js ''w''), KillWordLeft),
      (Some (js ''backspace''), KillWordLeft), (Some (js ''delete''), KillWordRight),
      (Some (js ''left''), WordLeft), (Some (js ''right''), WordRight)]"

definition ctrl_shift_edits :: "(jsstr option \<times> edit) list" where
  "ctrl_shift_edits = [(Some (js ''backspace''), KillLeft), (Some (js ''delete''), KillRight)]"

definition meta_edits :: "(jsstr option \<times> edit) list" where
  "meta_edits =
     [(Some (js ''b''), WordLeft), (Some (js ''f''), WordRight), (Some (js ''d''), KillWordRight),
      (Some (js ''delete''), KillWordRight), (Some (js ''backspace''), KillWordLeft)]"

definition plain_edits :: "(jsstr option \<times> edit) list" where
  "plain_edits =
     [(Some (js ''backspace''), Backspace), (Some (js ''delete''), Delete),
      (Some (js ''left''), CharLeft), (Some (js ''right''), CharRight), (Some (js ''home''), Home),
      (Some (js ''end''), End)]"

text \<open>The other keys with a meaning of their own; any other key inserts its text.\<close>

definition other_keys :: "jsstr option list" where
  "other_keys = map (Some \<circ> js) [''return'', ''enter'', ''up'', ''down'', ''tab'']"

definition edit_of_key :: "jsstr option \<Rightarrow> key \<Rightarrow> edit option" where
  "edit_of_key s key =
     (if name_is key ''escape'' then None
      else if k_ctrl key \<and> k_shift key then map_of ctrl_shift_edits (k_name key)
      else if k_ctrl key then map_of ctrl_edits (k_name key)
      else if k_meta key then map_of meta_edits (k_name key)
      else if k_name key \<in> set (map fst plain_edits) then map_of plain_edits (k_name key)
      else if k_name key \<in> set other_keys then None
      else (case s of Some t \<Rightarrow> if plain_text t then Some (Insert t) else None | None \<Rightarrow> None))"

lemma split_lines_plain: "10 \<notin> set s \<Longrightarrow> 13 \<notin> set s \<Longrightarrow> split_lines s = [s]"
  by (induction s) auto

lemma halves_frame [simp]:
  "halves (st\<lparr>rl_previousKey := k\<rparr>) = halves st" "cursor_ok (st\<lparr>rl_previousKey := k\<rparr>) = cursor_ok st"
  "halves (st\<lparr>rl_sawReturnAt := t\<rparr>) = halves st" "cursor_ok (st\<lparr>rl_sawReturnAt := t\<rparr>) = cursor_ok st"
  "halves (st\<lparr>rl_completionEnabled := b\<rparr>) = halves st"
  "cursor_ok (st\<lparr>rl_completionEnabled := b\<rparr>) = cursor_ok st"
  "halves (st\<lparr>rl_sawKeyPress := b\<rparr>) = halves st" "cursor_ok (st\<lparr>rl_sawKeyPress := b\<rparr>) = cursor_ok st"
  by (simp_all add: halves_def cursor_ok_def)

lemma edits_asD:
  "edits_as f e \<Longrightarrow> cursor_ok st \<Longrightarrow> halves (f st) = zstep e (halves st) \<and> cursor_ok (f st)"
  by (simp add: edits_as_def)

text \<open>The tables agree with the handler.\<close>

lemma ctrl_table: "map_of ctrl_edits (k_name key) = Some e \<Longrightarrow> edits_as (ctrl_key h key) e"
  by (drule map_of_SomeD) (auto simp: ctrl_edits_def ctrl_key_def[abs_def] name_is_def edits)

lemma meta_table: "map_of meta_edits (k_name key) = Some e \<Longrightarrow> edits_as (meta_key key) e"
  by (drule map_of_SomeD) (auto simp: meta_edits_def meta_key_def[abs_def] name_is_def edits)

lemma ctrl_shift_table:
  "map_of ctrl_shift_edits (k_name key) = Some e \<Longrightarrow> k_ctrl key \<Longrightarrow> k_shift key \<Longrightarrow>
   cursor_ok st \<Longrightarrow>
   halves (ttyWrite h now s (Some key) st) = zstep e (halves st) \<and> cursor_ok (ttyWrite h now s (Some key) st)"
  by (drule map_of_SomeD) (auto simp: ctrl_shift_edits_def ttyWrite_def name_is_def edits[THEN edits_asD])

lemma plain_table:
  assumes "map_of plain_edits (k_name key) = Some e" "cursor_ok st"
  shows "halves (plain_input h now p s key st) = zstep e (halves st) \<and>
    cursor_ok (plain_input h now p s key st)"
  using map_of_SomeD[OF assms(1)] assms(2)
  by (auto simp: plain_edits_def plain_input_def name_is_def Let_def edits[THEN edits_asD])

lemma plain_insert:
  assumes "k_name key \<notin> set (map fst plain_edits)" "k_name key \<notin> set other_keys"
    "plain_text t" "cursor_ok st"
  shows "halves (plain_input h now p (Some t) key st) = zstep (Insert t) (halves st) \<and>
    cursor_ok (plain_input h now p (Some t) key st)"
proof -
  have "insert_text h (Some t) st' = insertString t st'" for st'
    using assms(3) by (simp add: insert_text_def plain_text_def split_lines_plain)
  moreover have "\<not> name_is key n" if "n \<in> {''return'', ''enter'', ''backspace'', ''delete'', ''left'',
      ''right'', ''home'', ''end'', ''up'', ''down'', ''tab''}" for n
    using that assms(1,2) by (auto simp: name_is_def plain_edits_def other_keys_def)
  ultimately show ?thesis
    using assms(4) insert_edit[THEN edits_asD] by (simp add: plain_input_def Let_def split: option.split)
qed

lemma ttyWrite_edits:
  assumes "edit_of_key s key = Some e" "cursor_ok st"
  shows "halves (ttyWrite h now s (Some key) st) = zstep e (halves st) \<and>
    cursor_ok (ttyWrite h now s (Some key) st)"
proof -
  let ?st = "st\<lparr>rl_previousKey := k_name key\<rparr>"
  have "halves ?st = halves st" "cursor_ok ?st" using assms(2) by simp_all
  note facts = this assms(1)[unfolded edit_of_key_def]
  show ?thesis
  proof (cases "k_ctrl key \<and> k_shift key")
    case True
    then show ?thesis using facts ctrl_shift_table[OF _ _ _ assms(2)] by (simp split: if_splits)
  next
    case False
    then show ?thesis
      using facts ctrl_table[THEN edits_asD, of key e ?st h] meta_table[THEN edits_asD, of key e ?st]
        plain_table[of key e ?st h now "rl_previousKey st" s]
        plain_insert[of key _ ?st h now "rl_previousKey st"]
      by (auto simp: ttyWrite_def Let_def split: if_splits option.splits)
  qed
qed

lemma onkeypress_edits:
  assumes "edit_of_key s key = Some e" "cursor_ok st"
  shows "halves (onkeypress h now (s, key) st) = zstep e (halves st) \<and>
    cursor_ok (onkeypress h now (s, key) st)"
  using ttyWrite_edits[OF assms] by (simp add: onkeypress_def Let_def)

text \<open>
  C19. A sequence of editing keys (any listeners, any times) changes the line and the cursor as the
  same sequence of edits changes the pair of texts left and right of the cursor: insertion, deletion
  by character, word and line, motion by character, word and line.
\<close>

theorem editing_refines:
  assumes "cursor_ok st" "\<forall>(now, s, key) \<in> set keys. edit_of_key s key \<noteq> None"
  shows "halves (fold (\<lambda>(now, s, key). onkeypress h now (s, key)) keys st) =
    fold (\<lambda>(now, s, key). zstep (the (edit_of_key s key))) keys (halves st)"
  using assms
proof (induction keys arbitrary: st)
  case (Cons k keys)
  obtain now s key where k: "k = (now, s, key)" by (cases k)
  then obtain e where e: "edit_of_key s key = Some e" using Cons.prems by auto
  from onkeypress_edits[OF e Cons.prems(1), of h now] show ?case
    using Cons.prems(2) Cons.IH[of "onkeypress h now (s, key) st"] by (simp add: k e)
qed simp

text \<open>Typing \<^verbatim>\<open>ab cd\<close>, the left arrow, \<^verbatim>\<open>ctrl-w\<close> and \<^verbatim>\<open>x\<close>.\<close>

definition key_named :: "string \<Rightarrow> bool \<Rightarrow> key" where
  "key_named n ctrl = \<lparr>k_sequence = [], k_name = Some (js n), k_ctrl = ctrl, k_meta = False,
     k_shift = False, k_code = None\<rparr>"

definition some_keys :: "(nat \<times> jsstr option \<times> key) list" where
  "some_keys = [(5, Some (js ''ab cd''), key_named '''' False), (6, None, key_named ''left'' False),
     (7, None, key_named ''w'' True), (8, Some (js ''x''), key_named ''x'' False)]"

theorem editing_refines_witness:
  "\<exists>st. new_Interface editor_options = Inr st \<and>
     halves (fold (\<lambda>(now, s, key). onkeypress prompting now (s, key)) some_keys st) =
     (js ''ab x'', js ''d'')"
proof -
  obtain st where st: "new_Interface editor_options = Inr st" "halves st = ([], [])" "cursor_ok st"
    by (simp add: new_Interface_def history_size_def editor_options_def Let_def setRawMode_def
        note_call_def halves_def cursor_ok_def)
  have keys: "map (\<lambda>(now, s, key). edit_of_key s key) some_keys =
      [Some (Insert (js ''ab cd'')), Some CharLeft, Some KillWordLeft, Some (Insert (js ''x''))]"
    by (simp add: some_keys_def edit_of_key_def key_named_def name_is_def plain_edits_def ctrl_edits_def
        other_keys_def plain_text_def)
  then have "\<forall>(now, s, key) \<in> set some_keys. edit_of_key s key \<noteq> None"
    by (simp add: some_keys_def)
  from editing_refines[OF st(3) this, of prompting] show ?thesis
    using st keys by (simp add: some_keys_def drop_word_left_def run_class_def isWordChar_def isSpaceClass_def)
qed

section \<open>The lines of an input\<close>

lemma split_lines_nonempty [simp]: "split_lines s \<noteq> []"
  by (induction s rule: split_lines.induct) (auto split: list.split)

text \<open>A text is split the same way when it arrives in two parts.\<close>

definition crlf_cut :: "jsstr \<Rightarrow> jsstr \<Rightarrow> bool" where
  "crlf_cut t s \<longleftrightarrow> t \<noteq> [] \<and> last t = 13 \<and> s \<noteq> [] \<and> hd s = 10"

lemma split_lines_Cons_free:
  "c \<noteq> 10 \<Longrightarrow> c \<noteq> 13 \<Longrightarrow> split_lines (c # r) = (c # hd (split_lines r)) # tl (split_lines r)"
  by (cases "split_lines r") auto

lemma split_lines_append:
  "split_lines (t @ s) =
   butlast (split_lines t) @ split_lines (last (split_lines t) @ (if crlf_cut t s then tl s else s))"
proof (induction t rule: split_lines.induct)
  case 1
  then show ?case by (simp add: crlf_cut_def)
next
  case (2 c r)
  consider "c = 13" "r \<noteq> []" "hd r = 10" | "c = 13" "r = []" | "c = 13" "r \<noteq> []" "hd r \<noteq> 10"
    | "c = 10" | "c \<noteq> 10" "c \<noteq> 13" by blast
  then show ?case
  proof cases
    case 1
    then have "crlf_cut (c # r) s = crlf_cut (tl r) s" by (cases r) (auto simp: crlf_cut_def)
    then show ?thesis using 1 "2.IH"(1) by (cases r) auto
  next
    case 5
    have cut: "crlf_cut (c # r) s = crlf_cut r s" using 5 by (cases r) (auto simp: crlf_cut_def)
    obtain l ls where l: "split_lines r = l # ls" by (cases "split_lines r") auto
    show ?thesis
      using 5 "2.IH"(3) unfolding cut
      by (cases ls) (auto simp: l split_lines_Cons_free simp del: split_lines.simps)
  qed (use "2.IH" in \<open>auto simp: crlf_cut_def hd_append\<close>)
qed

lemma last_split_free: "10 \<notin> set (last (split_lines s)) \<and> 13 \<notin> set (last (split_lines s))"
  by (induction s rule: split_lines.induct) (auto split: list.split)

text \<open>Listeners that do not touch the interface.\<close>

locale passive_listeners =
  fixes h :: rhooks
  assumes untouched: "on_event h ev st = st"
begin

lemma onLine_passive:
  "rl_question st = None \<Longrightarrow> onLine h l st = st\<lparr>rl_events := rl_events st @ [EvLine l]\<rparr>"
  by (simp add: onLine_def fire_def untouched note_call_def)

lemma onLines_passive:
  "rl_question st = None \<Longrightarrow>
   fold (onLine h) ls st = st\<lparr>rl_events := rl_events st @ map EvLine ls\<rparr>"
  by (induction ls arbitrary: st) (simp_all add: onLine_passive)

end

interpretation quiet: passive_listeners silent
  by unfold_locales (simp add: silent_def)

text \<open>
  What an interface holds after the input \<open>t\<close>, whose last part came at the time \<open>prev\<close>: the lines
  reported, the unfinished line (given as \<open>rest\<close>) and whether a carriage return was the last.
\<close>

definition has_read :: "revent list \<Rightarrow> nat \<Rightarrow> jsstr \<Rightarrow> jsstr \<Rightarrow> iface \<Rightarrow> bool" where
  "has_read events prev t rest st \<longleftrightarrow>
     rl_question st = None \<and> rest = last (split_lines t) \<and>
     rl_events st = events @ map EvLine (butlast (split_lines t)) \<and>
     rl_sawReturnAt st = (if t \<noteq> [] \<and> last t = 13 then prev else 0)"

definition line_end :: "jsstr \<Rightarrow> bool" where
  "line_end s \<longleftrightarrow> 10 \<in> set s \<or> 13 \<in> set s"

context passive_listeners begin

lemma normalWrite_passive:
  assumes "rl_question st = None" "s' = (if crlf_cut t s then tl s else s)" "s \<noteq> []"
    "rl_sawReturnAt st = (if t \<noteq> [] \<and> last t = 13 then prev else 0)" "prev \<noteq> 0"
    "now - prev \<le> rl_crlfDelay st"
  shows "normalWrite h now s st =
    (let b = rl_lineBuffer st @ s' in
     if line_end s' then
       st\<lparr>rl_sawReturnAt := (if last s = 13 then now else 0), rl_lineBuffer := last (split_lines b),
          rl_events := rl_events st @ map EvLine (butlast (split_lines b))\<rparr>
     else st\<lparr>rl_sawReturnAt := 0, rl_lineBuffer := b\<rparr>)"
proof -
  have cut: "(case s of c # r \<Rightarrow> if c = 10 then r else s | [] \<Rightarrow> []) = s'" if "t \<noteq> []" "last t = 13"
    using assms(2,3) that by (cases s) (auto simp: crlf_cut_def)
  have same: "s' = s" if "\<not> (t \<noteq> [] \<and> last t = 13)" using assms(2) that by (auto simp: crlf_cut_def)
  have ends: "list_ex (\<lambda>c. c = 10 \<or> c = 13) s' = line_end s'" by (auto simp: line_end_def list_ex_iff)
  have lst: "line_end s' \<Longrightarrow> s' \<noteq> [] \<and> last s' = last s"
    using assms(2) by (cases s) (auto simp: line_end_def split: if_splits)
  have start: "(if rl_sawReturnAt st \<noteq> 0 \<and> now - rl_sawReturnAt st \<le> rl_crlfDelay st
       then ((case s of c # r \<Rightarrow> if c = 10 then r else s | [] \<Rightarrow> []), st\<lparr>rl_sawReturnAt := 0\<rparr>)
       else (s, st)) = (s', st\<lparr>rl_sawReturnAt := 0\<rparr>)"
  proof (cases "t \<noteq> [] \<and> last t = 13")
    case True
    then show ?thesis using assms(4-6) cut by simp
  next
    case False
    then have "rl_sawReturnAt st = 0" unfolding assms(4) by (rule if_not_P)
    then have "st\<lparr>rl_sawReturnAt := 0\<rparr> = st" by (cases st) simp
    then show ?thesis using \<open>rl_sawReturnAt st = 0\<close> same[OF False] by simp
  qed
  show ?thesis
  proof (cases "line_end s'")
    case True
    then show ?thesis
      using assms(1) lst[OF True] unfolding normalWrite_def start Let_def prod.case ends
      by (simp add: onLines_passive)
  next
    case False
    then show ?thesis unfolding normalWrite_def start Let_def prod.case ends by simp
  qed
qed

lemma normalWrite_reads:
  assumes "has_read events prev t (rl_lineBuffer st) st" "s \<noteq> []" "prev \<noteq> 0"
    "now - prev \<le> rl_crlfDelay st" "st' = normalWrite h now s st"
  shows "has_read events now (t @ s) (rl_lineBuffer st') st' \<and> rl_crlfDelay st' = rl_crlfDelay st"
proof -
  define s' where "s' = (if crlf_cut t s then tl s else s)"
  have st: "rl_question st = None" "rl_lineBuffer st = last (split_lines t)"
    "rl_sawReturnAt st = (if t \<noteq> [] \<and> last t = 13 then prev else 0)"
    "rl_events st = events @ map EvLine (butlast (split_lines t))"
    using assms(1) by (auto simp: has_read_def)
  note written = normalWrite_passive[OF st(1) s'_def assms(2) st(3) assms(3,4), folded assms(5)]
  have join: "split_lines (t @ s) = butlast (split_lines t) @ split_lines (rl_lineBuffer st @ s')"
    unfolding st(2) s'_def by (rule split_lines_append)
  show ?thesis
  proof (cases "line_end s'")
    case True
    then show ?thesis
      using assms(2) st by (simp add: written has_read_def Let_def join butlast_append)
  next
    case False
    have "split_lines (rl_lineBuffer st @ s') = [rl_lineBuffer st @ s']"
      using False last_split_free[of t] by (intro split_lines_plain) (auto simp: st(2) line_end_def)
    moreover have free: "13 \<notin> set s"
      using False by (cases s) (auto simp: s'_def line_end_def crlf_cut_def split: if_splits)
    moreover have "last s \<noteq> 13" using free assms(2) by (metis last_in_set)
    ultimately show ?thesis
      using False assms(2) st by (simp add: written has_read_def Let_def join)
  qed
qed

end

text \<open>The parts of an input follow each other within the delay, and none is empty.\<close>

fun follows :: "nat \<Rightarrow> nat \<Rightarrow> (nat \<times> jsstr) list \<Rightarrow> bool" where
  "follows delay prev [] = True"
| "follows delay prev ((now, s) # parts) =
     (s \<noteq> [] \<and> now \<noteq> 0 \<and> now - prev \<le> delay \<and> follows delay now parts)"

context passive_listeners begin

lemma reads_parts:
  "has_read events prev t (rl_lineBuffer st) st \<Longrightarrow> prev \<noteq> 0 \<Longrightarrow> follows (rl_crlfDelay st) prev parts \<Longrightarrow>
   st' = fold (\<lambda>(now, s). normalWrite h now s) parts st \<Longrightarrow>
   \<exists>now. has_read events now (t @ concat (map snd parts)) (rl_lineBuffer st') st'"
proof (induction parts arbitrary: st t prev)
  case (Cons p parts)
  obtain now s where p: "p = (now, s)" by (cases p)
  from normalWrite_reads[OF Cons.prems(1) _ Cons.prems(2) _ refl, of s now] Cons.prems(3)
  have "has_read events now (t @ s) (rl_lineBuffer (normalWrite h now s st)) (normalWrite h now s st)"
    "rl_crlfDelay (normalWrite h now s st) = rl_crlfDelay st" by (simp_all add: p)
  from Cons.IH[OF this(1)] this(2) Cons.prems(3,4) show ?case by (simp add: p)
qed auto

end

text \<open>
  Input that is not from a terminal: however it arrives in parts (within the delay for a line
  end in two parts), the lines reported are the lines of the whole text, whether they end in
  \<^verbatim>\<open>\n\<close>, \<^verbatim>\<open>\r\n\<close> or \<^verbatim>\<open>\r\<close>, and the unfinished rest is kept.
\<close>

theorem lines_of_parts:
  assumes "\<And>ev st. on_event h ev st = st" "rl_question st = None" "rl_lineBuffer st = []"
    "rl_sawReturnAt st = 0" "follows (rl_crlfDelay st) start parts" "start \<noteq> 0"
    "st' = fold (\<lambda>(now, s). normalWrite h now s) parts st"
  shows "rl_events st' = rl_events st @ map EvLine (butlast (split_lines (concat (map snd parts)))) \<and>
    rl_lineBuffer st' = last (split_lines (concat (map snd parts)))"
proof -
  have h: "passive_listeners h" using assms(1) by unfold_locales
  have "has_read (rl_events st) start [] (rl_lineBuffer st) st" using assms(2-4) by (simp add: has_read_def)
  from passive_listeners.reads_parts[OF h this assms(6,5,7)] show ?thesis by (auto simp: has_read_def)
qed

definition pipe_options :: rloptions where
  "pipe_options = editor_options\<lparr>ro_terminal := False\<rparr>"

theorem lines_of_parts_witness:
  "\<exists>st. new_Interface pipe_options = Inr st \<and>
     rl_events (fold (\<lambda>(now, s). normalWrite silent now s)
       [(5, js ''a'' @ [13]), (6, [10] @ js ''b''), (7, [10, 10] @ js ''c'')] st) =
     rl_events st @ [EvLine (js ''a''), EvLine (js ''b''), EvLine []]"
proof -
  obtain st where st: "new_Interface pipe_options = Inr st" "rl_question st = None"
    "rl_lineBuffer st = []" "rl_sawReturnAt st = 0" "rl_crlfDelay st = 100"
    by (simp add: new_Interface_def history_size_def pipe_options_def editor_options_def Let_def
        note_call_def kMincrlfDelay_def)
  let ?parts = "[(5, js ''a'' @ [13]), (6, [10] @ js ''b''), (7, [10, 10] @ js ''c'')]"
  have "follows (rl_crlfDelay st) 1 ?parts" by (simp add: st(5))
  from lines_of_parts[OF quiet.untouched st(2-4) this _ refl] st(1) show ?thesis by simp
qed

section \<open>The lines typed\<close>

text \<open>The characters that stand for themselves on a terminal.\<close>

definition printable :: "nat \<Rightarrow> bool" where
  "printable c \<longleftrightarrow> 28 \<le> c \<and> c \<noteq> 127"

definition types_text :: "jsstr \<Rightarrow> key \<Rightarrow> bool" where
  "types_text s key \<longleftrightarrow> \<not> k_ctrl key \<and> \<not> k_meta key \<and> \<not> name_is key ''escape'' \<and>
     k_name key \<notin> set (map fst plain_edits) \<and> k_name key \<notin> set other_keys \<and> k_sequence key = s"

lemma printable_key:
  assumes "printable c"
  shows "\<exists>key. key_next Start [c] = (Start, Some (Some [c], key)) \<and> types_text [c] key"
proof -
  have c: "c \<noteq> 13" "c \<noteq> 10" "c \<noteq> 9" "c \<noteq> 8" "c \<noteq> 127" "c \<noteq> 27" "\<not> control_str [c]"
    using assms by (auto simp: printable_def control_str_def)
  from c have typed: "types_text [c] (plain_key [c] [c] False)"
    by (auto simp: plain_key_def Let_def types_text_def name_is_def plain_edits_def other_keys_def toLowerCase_def)
  have "k_sequence (plain_key [c] [c] False) = [c]" using typed by (simp add: types_text_def)
  then show ?thesis
    using typed c(6) by (auto simp: emit_plain_def keypress_def Let_def)
qed

text \<open>The parts of the state that reading lines is about.\<close>

definition reading :: "iface \<Rightarrow> jsstr \<times> nat \<times> revent list \<times> nat option \<times> nat \<times> nat" where
  "reading st = (rl_line st, rl_cursor st, rl_events st, rl_question st, rl_sawReturnAt st, rl_crlfDelay st)"

lemma reading_core: "core a = core b \<Longrightarrow> reading a = reading b"
  using core_eq[of a b] by (simp add: reading_def)

lemma reading_insert_end:
  "rl_cursor st = length (rl_line st) \<Longrightarrow>
   reading (insertString s st) = reading (st\<lparr>rl_line := rl_line st @ s, rl_cursor := rl_cursor st + length s\<rparr>)"
  by (simp add: insertString_def Let_def moved_def reading_def nat_int_add)

lemma addHistory_line:
  "fst (addHistory st) = rl_line st" "reading (snd (addHistory st)) = reading st"
  by (auto simp: addHistory_def Let_def exceeds_def reading_def split: option.split)

context passive_listeners begin

lemma enterLine_passive:
  "rl_question st = None \<Longrightarrow>
   reading (enterLine h st) = ([], 0, rl_events st @ [EvLine (rl_line st)], None, rl_sawReturnAt st, rl_crlfDelay st)"
  using addHistory_line[of st]
  by (cases "addHistory st") (simp add: enterLine_def onLine_passive clearLine_def Let_def reading_def)

end

definition line_char :: "nat \<Rightarrow> bool" where
  "line_char c \<longleftrightarrow> printable c \<or> c = 10 \<or> c = 13"

text \<open>What a character does to the parts of the state above.\<close>

definition after_char ::
  "nat \<Rightarrow> nat \<Rightarrow> jsstr \<times> nat \<times> revent list \<times> nat option \<times> nat \<times> nat
   \<Rightarrow> jsstr \<times> nat \<times> revent list \<times> nat option \<times> nat \<times> nat"
where
  "after_char now c rd =
     (case rd of (line, cursor, events, q, saw, delay) \<Rightarrow>
        if c = 13 then ([], 0, events @ [EvLine line], q, now, delay)
        else if c = 10 then
          (if saw = 0 \<or> now - saw > delay then ([], 0, events @ [EvLine line], q, 0, delay)
           else (line, cursor, events, q, 0, delay))
        else (line @ [c], cursor + 1, events, q, 0, delay))"

lemma reading_frame [simp]:
  "reading (st\<lparr>rl_previousKey := k\<rparr>) = reading st"
  "reading (st\<lparr>rl_completionEnabled := b\<rparr>) = reading st"
  "reading (st\<lparr>rl_sawKeyPress := b\<rparr>) = reading st"
  "reading (refreshLine st) = reading st"
  by (simp_all add: reading_def)

lemma line_end_keys:
  "key_next Start [13] = (Start, Some (Some [13], plain_key [13] [13] False))"
  "key_next Start [10] = (Start, Some (Some [10], plain_key [10] [10] False))"
  by (simp_all add: emit_plain_def keypress_def plain_key_def Let_def)

context passive_listeners begin

lemma line_end_typed:
  assumes "rl_question st = None"
  shows "reading (ttyWrite h now s (Some (plain_key [13] [13] False)) st) = after_char now 13 (reading st)"
    "reading (ttyWrite h now s (Some (plain_key [10] [10] False)) st) = after_char now 10 (reading st)"
proof -
  let ?st = "st\<lparr>rl_previousKey := Some (js ''return''), rl_sawReturnAt := now\<rparr>"
  have "rl_question ?st = None" using assms by simp
  from enterLine_passive[OF this]
  show "reading (ttyWrite h now s (Some (plain_key [13] [13] False)) st) = after_char now 13 (reading st)"
    using assms by (simp add: ttyWrite_def Let_def name_is_def plain_key_def plain_input_def)
      (simp add: reading_def after_char_def)
  let ?st = "st\<lparr>rl_previousKey := Some (js ''enter'')\<rparr>"
  have "rl_question ?st = None" using assms by simp
  from enterLine_passive[OF this]
  show "reading (ttyWrite h now s (Some (plain_key [10] [10] False)) st) = after_char now 10 (reading st)"
    using assms by (auto simp: ttyWrite_def Let_def name_is_def plain_key_def plain_input_def
        reading_def after_char_def)
qed

lemma printable_typed:
  assumes "types_text [c] key" "c \<noteq> 10" "c \<noteq> 13" "rl_cursor st = length (rl_line st)"
  shows "reading (ttyWrite h now (Some [c]) (Some key) st) = after_char now c (reading st)"
proof -
  have names: "\<not> name_is key n" if "n \<in> {''return'', ''enter'', ''backspace'', ''delete'', ''left'',
      ''right'', ''home'', ''end'', ''up'', ''down'', ''tab''}" for n
    using that assms(1) by (auto simp: types_text_def name_is_def plain_edits_def other_keys_def)
  have "insert_text h (Some [c]) st' = insertString [c] st'" for st'
    using assms(2,3) by (simp add: insert_text_def)
  then have tty: "ttyWrite h now (Some [c]) (Some key) st =
      insertString [c] (let st1 = st\<lparr>rl_previousKey := k_name key\<rparr>
        in if rl_sawReturnAt st1 \<noteq> 0 then st1\<lparr>rl_sawReturnAt := 0\<rparr> else st1)"
    using assms(1) names by (simp add: ttyWrite_def types_text_def plain_input_def Let_def split: option.split)
  show ?thesis
    unfolding tty using assms(2-4)
    by (auto simp: Let_def reading_insert_end) (auto simp: reading_def after_char_def)
qed

lemma char_typed:
  assumes "line_char c" "rl_question st = None" "rl_cursor st = length (rl_line st)"
  shows "\<exists>e. key_next Start [c] = (Start, Some e) \<and>
    reading (onkeypress h now e st) = after_char now c (reading st)"
proof -
  have refreshed: "reading (onkeypress h now (s, key) st) = reading (ttyWrite h now s (Some key) st)" for s key
    by (simp add: onkeypress_def Let_def)
  show ?thesis
  proof (cases "printable c")
    case True
    then show ?thesis
      using printable_key[OF True] printable_typed[of c _ st now] assms(3) refreshed
      by (auto simp: printable_def)
  next
    case False
    then show ?thesis
      using assms(1,2) line_end_keys line_end_typed[of st] refreshed by (auto simp: line_char_def)
  qed
qed

end

definition has_typed :: "revent list \<Rightarrow> nat \<Rightarrow> jsstr \<Rightarrow> iface \<Rightarrow> bool" where
  "has_typed events prev t st \<longleftrightarrow>
     has_read events prev t (rl_line st) st \<and> rl_cursor st = length (rl_line st)"

lemma has_typed_reading: "reading a = reading b \<Longrightarrow> has_typed events prev t a = has_typed events prev t b"
  by (simp add: reading_def has_typed_def has_read_def)

lemma split_lines_snoc:
  assumes "10 \<notin> set l" "13 \<notin> set l"
  shows "split_lines (l @ [c]) = (if c = 10 \<or> c = 13 then [l, []] else [l @ [c]])"
  using assms by (induction l) auto

lemma has_typed_char:
  assumes "has_typed events prev t st" "prev \<noteq> 0" "now - prev \<le> rl_crlfDelay st"
    "reading st' = after_char now c (reading st)"
  shows "has_typed events now (t @ [c]) st' \<and> rl_crlfDelay st' = rl_crlfDelay st"
proof -
  have free: "10 \<notin> set (last (split_lines t))" "13 \<notin> set (last (split_lines t))"
    using last_split_free by auto
  note snoc = split_lines_snoc[OF free]
  have one: "split_lines (last (split_lines t)) = [last (split_lines t)]"
    using free by (simp add: split_lines_plain)
  show ?thesis
    using assms split_lines_append[of t "[c]"] one
    by (auto simp: has_typed_def has_read_def reading_def after_char_def crlf_cut_def snoc butlast_append
        split: if_splits)
qed

context passive_listeners begin

lemma feed_lines:
  assumes "\<forall>c\<in>set r. line_char c" "has_typed events prev t st" "prev \<noteq> 0" "now \<noteq> 0"
    "now - prev \<le> rl_crlfDelay st" "feed_keys h now r (Start, timer, st) = (k, timer', st')"
  shows "k = Start \<and> rl_crlfDelay st' = rl_crlfDelay st \<and>
    (r \<noteq> [] \<longrightarrow> has_typed events now (t @ r) st')"
  using assms
proof (induction r arbitrary: prev t timer st)
  case (Cons c r)
  have c: "line_char c" "c \<noteq> 9" "c \<noteq> 27" using Cons.prems(1) by (auto simp: line_char_def printable_def)
  obtain e where e: "key_next Start [c] = (Start, Some e)"
    "reading (onkeypress h now e st) = after_char now c (reading st)"
    using char_typed[OF c(1)] Cons.prems(2) by (metis has_typed_def has_read_def)
  let ?st = "(onkeypress h now e st)\<lparr>rl_completionEnabled := True\<rparr>"
  have st: "has_typed events now (t @ [c]) ?st" "rl_crlfDelay ?st = rl_crlfDelay st"
    using has_typed_char[OF Cons.prems(2,3,5), of ?st c] e(2) by simp_all
  have "feed_keys h now r (Start, timer, ?st) = (k, timer', st')"
    using Cons.prems(6) c e(1) by (simp del: key_next.simps)
  from Cons.IH[OF _ st(1) Cons.prems(4,4) _ this] Cons.prems(1) st this show ?case by (cases r) auto
qed simp

lemma typed_parts:
  "has_typed events prev t st \<Longrightarrow> prev \<noteq> 0 \<Longrightarrow> follows (rl_crlfDelay st) prev parts \<Longrightarrow>
   \<forall>(now, r) \<in> set parts. \<forall>c\<in>set r. line_char c \<Longrightarrow>
   fold (\<lambda>(now, r). onData h now r) parts (Start, timer, st) = (k, timer', st') \<Longrightarrow>
   \<exists>now. has_typed events now (t @ concat (map snd parts)) st'"
proof (induction parts arbitrary: timer st t prev)
  case (Cons p parts)
  obtain now r where p: "p = (now, r)" by (cases p)
  obtain k1 timer1 st1 where data: "onData h now r (Start, timer, st) = (k1, timer1, st1)"
    by (metis prod_cases3)
  then have fed: "feed_keys h now r (Start, False, st\<lparr>rl_sawKeyPress := (length r = 1)\<rparr>) = (k1, timer1, st1)"
    using Cons.prems(3) by (simp add: onData_def p)
  have "has_typed events prev t (st\<lparr>rl_sawKeyPress := (length r = 1)\<rparr>)"
    using Cons.prems(1) has_typed_reading[OF reading_frame(3)] by blast
  from feed_lines[OF _ this Cons.prems(2) _ _ fed] Cons.prems(3,4)
  have "k1 = Start" "rl_crlfDelay st1 = rl_crlfDelay st" "has_typed events now (t @ r) st1"
    by (simp_all add: p)
  with Cons.IH[of now "t @ r" st1 timer1] Cons.prems(3-5) show ?case by (simp add: p data)
qed auto

end

text \<open>
  C20. A terminal: text that arrives in several parts is read as the lines of the whole text.  Every line
  end reports the line edited so far, the rest of the text stands on the line, and the cursor is at its end.
  The parts are not empty, each comes within \<^verbatim>\<open>crlfDelay\<close> of the one before (a later newline after a return
  is a second line end), and they consist of printable characters, CR and LF, without tabs and escape
  sequences; at the start the decoder is in its first state, the line is empty, no question is pending
  and no return has been seen; the clock never shows 0, and the listeners do nothing to the editor.
\<close>

theorem lines_typed:
  assumes "\<And>ev st. on_event h ev st = st" "rl_question st = None" "rl_line st = []"
    "rl_cursor st = 0" "rl_sawReturnAt st = 0" "follows (rl_crlfDelay st) start parts" "start \<noteq> 0"
    "\<forall>(now, r) \<in> set parts. \<forall>c\<in>set r. line_char c"
    "fold (\<lambda>(now, r). onData h now r) parts (Start, timer, st) = (k, timer', st')"
  shows "rl_events st' = rl_events st @ map EvLine (butlast (split_lines (concat (map snd parts)))) \<and>
    halves st' = (last (split_lines (concat (map snd parts))), [])"
proof -
  have h: "passive_listeners h" using assms(1) by unfold_locales
  have "has_typed (rl_events st) start [] st"
    using assms(2-5) by (simp add: has_typed_def has_read_def)
  from passive_listeners.typed_parts[OF h this assms(7,6,8,9)] show ?thesis
    by (auto simp: has_typed_def has_read_def halves_def)
qed

definition typed_text :: "(nat \<times> jsstr) list" where
  "typed_text = [(5, js ''a'' @ [13]), (6, [10] @ js ''b''), (7, [13, 13] @ js ''c'')]"

theorem lines_typed_witness:
  "\<exists>st k t st'. new_Interface editor_options = Inr st \<and>
     fold (\<lambda>(now, r). onData silent now r) typed_text (Start, False, st) = (k, t, st') \<and>
     rl_events st' = rl_events st @ [EvLine (js ''a''), EvLine (js ''b''), EvLine []] \<and>
     halves st' = (js ''c'', [])"
proof -
  obtain st where st: "new_Interface editor_options = Inr st" "rl_question st = None"
    "rl_line st = []" "rl_cursor st = 0" "rl_sawReturnAt st = 0" "rl_crlfDelay st = 100"
    by (simp add: new_Interface_def history_size_def editor_options_def Let_def note_call_def
        setRawMode_def kMincrlfDelay_def)
  obtain k t st' where run: "fold (\<lambda>(now, r). onData silent now r) typed_text (Start, False, st) = (k, t, st')"
    by (metis prod_cases3)
  have "follows (rl_crlfDelay st) 1 typed_text"
    "\<forall>(now, r) \<in> set typed_text. \<forall>c\<in>set r. line_char c"
    by (simp_all add: st(6) typed_text_def line_char_def printable_def)
  from lines_typed[OF quiet.untouched st(2-5) this(1) _ this(2) run] run st(1) show ?thesis
    by (simp add: typed_text_def)
qed

section \<open>The common prefix\<close>

lemma prefix_loop_spec:
  assumes "i \<le> length a" "i \<le> length b" "take i a = take i b"
  shows "prefix_loop a b i = longest_common_prefix a b"
  using assms
proof (induction a b i rule: prefix_loop.induct)
  case (1 a b i)
  show ?case
  proof (cases "i < length a \<and> i < length b \<and> b ! i = a ! i")
    case True
    then have "take (i + 1) a = take (i + 1) b" using "1.prems" by (simp add: take_Suc_conv_app_nth)
    with True "1.IH" show ?thesis by (subst prefix_loop.simps) simp
  next
    case False
    have "longest_common_prefix a b = take i a"
    proof -
      have a: "a = take i a @ drop i a" by simp
      have b: "b = take i a @ drop i b" unfolding "1.prems"(3) by simp
      have "longest_common_prefix (drop i a) (drop i b) = []"
        using False "1.prems" by (cases "drop i a"; cases "drop i b")
          (auto simp: Cons_nth_drop_Suc[symmetric] drop_eq_Nil2 dest: nth_via_drop)
      moreover have "longest_common_prefix (u @ v) (u @ w) = u @ longest_common_prefix v w" for u v w :: jsstr
        by (induction u) auto
      ultimately show ?thesis by (metis a b append_Nil2)
    qed
    with False show ?thesis by (subst prefix_loop.simps) (auto simp: charCodeAt_def not_less)
  qed
qed

text \<open>A common prefix of the least and the greatest string is one of every string between.\<close>

lemma prefix_between:
  fixes a b x :: jsstr
  assumes "prefix p a" "prefix p b" "a \<le> x" "x \<le> b"
  shows "prefix p x"
  using assms
proof (induction p arbitrary: a b x)
  case (Cons c p)
  have tail: "\<exists>s'. s = c # s' \<and> prefix p s'" if "prefix (c # p) s" for s
    using that by (cases s) simp_all
  from tail[OF Cons.prems(1)] tail[OF Cons.prems(2)] obtain a' b'
    where ab: "a = c # a'" "b = c # b'" "prefix p a'" "prefix p b'" by blast
  then obtain d x' where x: "x = d # x'" using Cons.prems(3) by (cases x) auto

  from Cons.prems(3,4)[unfolded ab x] have "c < d \<or> c = d \<and> a' \<le> x'" "d < c \<or> d = c \<and> x' \<le> b'"
    by simp_all
  then have "c = d" "a' \<le> x'" "x' \<le> b'" by auto
  then show ?case using Cons.IH[OF ab(3,4)] x by simp
qed simp

text \<open>
  The completion that is inserted is the longest common prefix: \<^verbatim>\<open>commonPrefix\<close>, which compares
  only the least and the greatest string of the sorted list, returns a prefix of all the strings, and
  every other common prefix is a prefix of it.
\<close>

theorem commonPrefix_longest:
  assumes "strings \<noteq> []"
  shows "(\<forall>p. (\<forall>x\<in>set strings. prefix p x) \<longleftrightarrow> prefix p (commonPrefix strings))"
proof (cases "length strings = 1")
  case True
  then show ?thesis by (cases strings) (auto simp: commonPrefix_def)
next
  case False
  define a b where "a = sort strings ! 0" and "b = last (sort strings)"
  have ne: "sort strings \<noteq> []" using assms by (metis set_empty set_sort)
  have ab: "a \<in> set strings" "b \<in> set strings"
    using nth_mem[of 0 "sort strings"] ne last_in_set[OF ne] unfolding a_def b_def
    by (metis length_greater_0_conv set_sort)+
  have between: "a \<le> x" "x \<le> b" if "x \<in> set strings" for x
  proof -
    have "x \<in> set (sort strings)" using that by simp
    then obtain i where i: "i < length (sort strings)" "sort strings ! i = x"
      unfolding in_set_conv_nth by blast
    show "a \<le> x" using sorted_nth_mono[OF sorted_sort, of 0 i strings] i by (simp add: a_def)
    have "b = sort strings ! (length (sort strings) - 1)" unfolding b_def using ne by (rule last_conv_nth)
    then show "x \<le> b"
      using sorted_nth_mono[OF sorted_sort, of i "length (sort strings) - 1" strings] i by simp
  qed
  have "commonPrefix strings = longest_common_prefix a b"
    using assms False by (simp add: commonPrefix_def Let_def a_def b_def prefix_loop_spec)
  then have "prefix p (commonPrefix strings) \<longleftrightarrow> prefix p a \<and> prefix p b" for p
    by (metis longest_common_prefix_max_prefix longest_common_prefix_prefix1
        longest_common_prefix_prefix2 prefix_order.trans)
  then show ?thesis using ab between prefix_between by metis
qed

theorem commonPrefix_longest_witness:
  "\<forall>p. prefix p (commonPrefix [js ''readFile'', js ''readdir'', js ''readFileSync'']) \<longleftrightarrow>
     prefix p (js ''readFile'') \<and> prefix p (js ''readdir'') \<and> prefix p (js ''readFileSync'')"
  using commonPrefix_longest[of "[js ''readFile'', js ''readdir'', js ''readFileSync'']"]
  by (metis list.discI list.set_intros set_ConsD empty_iff empty_set)

end
