(* ===== verification/Readline_History.thy ===== *)
theory Readline_History
  imports Readline_Spec
begin

text \<open>
  The history of the line editor holds the lines entered and recalls them, and where the terminal's
  rows come out of a text.
\<close>

section \<open>The history\<close>

text \<open>The lines the history should hold, the last first: no blank ones, none twice in a row.\<close>

definition blank :: "jsstr \<Rightarrow> bool" where
  "blank l \<longleftrightarrow> list_all isSpaceClass l"

definition up_to :: "nat option \<Rightarrow> 'a list \<Rightarrow> 'a list" where
  "up_to limit xs = (case limit of None \<Rightarrow> xs | Some n \<Rightarrow> take n xs)"

definition kept_lines :: "nat option \<Rightarrow> jsstr list \<Rightarrow> jsstr list" where
  "kept_lines limit ls = up_to limit (remdups_adj (rev (filter (\<lambda>l. \<not> blank l) ls)))"

text \<open>A line is edited (to \<open>l\<close>) and entered.\<close>

definition enter :: "rhooks \<Rightarrow> jsstr \<Rightarrow> iface \<Rightarrow> iface" where
  "enter h l st = enterLine h (st\<lparr>rl_line := l, rl_cursor := length l\<rparr>)"

lemma push_line_up_to:
  assumes "limit \<noteq> Some 0"
  shows "push_line l limit (up_to limit xs) = up_to limit (l # xs)"
proof (cases limit)
  case (Some n)
  then obtain m where n: "n = Suc m" using assms by (cases n) auto
  show ?thesis
  proof (cases "length xs \<le> m")
    case True
    then show ?thesis by (simp add: push_line_def exceeds_def up_to_def Some n)
  next
    case False
    then have "butlast (l # take (Suc m) xs) = l # take m xs"
      by (simp add: butlast_conv_take take_Suc_conv_app_nth)
    then show ?thesis using False by (simp add: push_line_def exceeds_def up_to_def Some n)
  qed
qed (simp add: push_line_def exceeds_def up_to_def)

lemma kept_snoc:
  "kept_lines limit (ls @ [l]) =
     (if blank l then kept_lines limit ls
      else if limit = Some 0 then []
      else if kept_lines limit ls \<noteq> [] \<and> hd (kept_lines limit ls) = l then kept_lines limit ls
      else push_line l limit (kept_lines limit ls))"
proof -
  define full where "full = remdups_adj (rev (filter (\<lambda>l. \<not> blank l) ls))"
  have hd: "up_to limit full \<noteq> [] \<longleftrightarrow> full \<noteq> []" "hd (up_to limit full) = hd full"
    if "limit \<noteq> Some 0"
    using that by (cases limit; cases full; simp add: up_to_def take_Cons')+
  have "remdups_adj (rev (filter (\<lambda>l. \<not> blank l) (ls @ [l]))) =
      (if blank l \<or> full \<noteq> [] \<and> hd full = l then full else l # full)"
    by (auto simp: full_def remdups_adj_Cons split: list.splits)
  then have "kept_lines limit (ls @ [l]) =
      up_to limit (if blank l \<or> full \<noteq> [] \<and> hd full = l then full else l # full)"
    by (simp add: kept_lines_def)
  moreover have "kept_lines limit ls = up_to limit full" by (simp add: kept_lines_def full_def)
  moreover have "up_to (Some 0) xs = []" for xs :: "jsstr list" by (simp add: up_to_def)
  ultimately show ?thesis using hd push_line_up_to[of limit l full] by (cases "limit = Some 0") simp_all
qed

lemma addHistory_kept:
  assumes "rl_history st = kept_lines (rl_historySize st) ls" "\<not> rl_removeDuplicates st" "rl_line st = l"
  shows "rl_history (snd (addHistory st)) = kept_lines (rl_historySize st) (ls @ [l])"
proof -
  have zero: "kept_lines (Some 0) ls' = []" for ls' by (simp add: kept_lines_def up_to_def)
  show ?thesis
    using assms zero by (auto simp: addHistory_push Let_def kept_snoc blank_def)
qed



lemma addHistory_frame:
  "rl_historySize (snd (addHistory st)) = rl_historySize st"
  "rl_removeDuplicates (snd (addHistory st)) = rl_removeDuplicates st"
  "rl_question (snd (addHistory st)) = rl_question st"
  by (auto simp: addHistory_def Let_def)

text \<open>The \<open>k\<close>-th line back.\<close>

lemma historyPrev_walk:
  assumes "rl_historyIndex st = -1" "k \<le> length (rl_history st)"
  shows "rl_historyIndex ((historyPrev ^^ k) st) = int k - 1 \<and>
    rl_history ((historyPrev ^^ k) st) = rl_history st \<and>
    (0 < k \<longrightarrow> rl_line ((historyPrev ^^ k) st) = rl_history st ! (k - 1) \<and>
      rl_cursor ((historyPrev ^^ k) st) = length (rl_history st ! (k - 1)))"
  using assms(2)
proof (induction k)
  case (Suc k)
  then show ?case by (simp add: historyPrev_def Let_def)
qed (simp add: assms(1))

text \<open>And forward again.\<close>

lemma historyNext_walk:
  assumes "rl_historyIndex st = int i" "m \<le> i" "i < length (rl_history st)"
  shows "rl_historyIndex ((historyNext ^^ m) st) = int (i - m) \<and>
    rl_history ((historyNext ^^ m) st) = rl_history st \<and>
    (0 < m \<longrightarrow> rl_line ((historyNext ^^ m) st) = rl_history st ! (i - m))"
  using assms(2)
proof (induction m)
  case (Suc m)
  then have "nat (int (i - m) - 1) = i - Suc m" "int (i - m) - 1 = int (i - Suc m)" by auto
  with Suc show ?case by (simp add: historyNext_def Let_def)
qed (simp add: assms(1))

text \<open>Browsing before a line is edited and entered.\<close>

datatype history_key = Up | Down

definition browse :: "history_key list \<Rightarrow> iface \<Rightarrow> iface" where
  "browse keys st = fold (\<lambda>key. case key of Up \<Rightarrow> historyPrev | Down \<Rightarrow> historyNext) keys st"

definition browse_and_enter :: "rhooks \<Rightarrow> history_key list \<times> jsstr \<Rightarrow> iface \<Rightarrow> iface" where
  "browse_and_enter h p st = enter h (snd p) (browse (fst p) st)"

lemma browse_frame:
  "rl_history (browse keys st) = rl_history st \<and> rl_historySize (browse keys st) = rl_historySize st \<and>
   rl_removeDuplicates (browse keys st) = rl_removeDuplicates st \<and> rl_question (browse keys st) = rl_question st"
proof (induction keys arbitrary: st)
  case (Cons key keys)
  have "browse (key # keys) st = browse keys ((case key of Up \<Rightarrow> historyPrev | Down \<Rightarrow> historyNext) st)"
    by (simp add: browse_def)
  then show ?case using Cons
    by (cases key) (simp_all add: historyPrev_def historyNext_def Let_def)
qed (simp add: browse_def)

context passive_listeners begin

lemma enter_passive:
  "rl_question st = None \<Longrightarrow> enter h l st =
     (case addHistory (st\<lparr>rl_line := l, rl_cursor := length l\<rparr>) of
        (line, st1) \<Rightarrow> (clearLine st1)\<lparr>rl_events := rl_events (clearLine st1) @ [EvLine line]\<rparr>)"
  using addHistory_frame(3)[of "st\<lparr>rl_line := l, rl_cursor := length l\<rparr>"]
  by (auto simp: enter_def enterLine_def onLine_passive clearLine_def Let_def split: prod.split)

lemma enter_kept:
  assumes "rl_question st = None" "rl_history st = kept_lines (rl_historySize st) ls" "\<not> rl_removeDuplicates st"
  shows "rl_history (enter h l st) = kept_lines (rl_historySize st) (ls @ [l])"
    "rl_question (enter h l st) = None" "rl_historySize (enter h l st) = rl_historySize st"
    "\<not> rl_removeDuplicates (enter h l st)"
    "\<not> blank l \<Longrightarrow> rl_historySize st \<noteq> Some 0 \<Longrightarrow> rl_historyIndex (enter h l st) = -1"
proof -
  let ?st = "st\<lparr>rl_line := l, rl_cursor := length l\<rparr>"
  have "rl_history (snd (addHistory ?st)) = kept_lines (rl_historySize st) (ls @ [l])"
    using addHistory_kept[of ?st ls l] assms(2,3) by simp
  moreover have "rl_historyIndex (snd (addHistory ?st)) = -1" if "\<not> blank l" "rl_historySize st \<noteq> Some 0"
    using that by (auto simp: addHistory_def blank_def Let_def)
  ultimately show "rl_history (enter h l st) = kept_lines (rl_historySize st) (ls @ [l])"
    "rl_question (enter h l st) = None" "rl_historySize (enter h l st) = rl_historySize st"
    "\<not> rl_removeDuplicates (enter h l st)"
    "\<not> blank l \<Longrightarrow> rl_historySize st \<noteq> Some 0 \<Longrightarrow> rl_historyIndex (enter h l st) = -1"
    using addHistory_frame[of ?st] assms(1,3)
    by (simp_all add: enter_passive clearLine_def Let_def case_prod_beta)
qed

lemma session_kept:
  assumes "rl_question st = None" "rl_history st = kept_lines (rl_historySize st) ls0" "\<not> rl_removeDuplicates st"
  shows "rl_history (fold (browse_and_enter h) ps st) = kept_lines (rl_historySize st) (ls0 @ map snd ps) \<and>
    (ps \<noteq> [] \<and> \<not> blank (snd (last ps)) \<and> rl_historySize st \<noteq> Some 0 \<longrightarrow>
       rl_historyIndex (fold (browse_and_enter h) ps st) = -1)"
  using assms
proof (induction ps arbitrary: st ls0)
  case (Cons p ps)
  let ?st = "browse (fst p) st"
  have prems: "rl_question ?st = None" "rl_history ?st = kept_lines (rl_historySize ?st) ls0" "\<not> rl_removeDuplicates ?st"
    "rl_historySize ?st = rl_historySize st"
    using Cons.prems browse_frame[of "fst p" st] by simp_all
  note entered = enter_kept[OF prems(1-3), of "snd p"]
  let ?next = "browse_and_enter h p st"
  have step: "rl_question ?next = None" "rl_history ?next = kept_lines (rl_historySize ?next) (ls0 @ [snd p])"
    "\<not> rl_removeDuplicates ?next" "rl_historySize ?next = rl_historySize st"
    using entered prems(4) by (simp_all add: browse_and_enter_def)
  show ?case using Cons.IH[OF step(1-3)] step(4) entered(5) prems(4)
    by (cases ps) (auto simp: browse_and_enter_def)
qed simp

end

text \<open>
  C36. Whatever the user browses before each line (up and down in the history, any number of times),
  going back \<open>k\<close> lines after the last one shows the \<open>k\<close>-th last line entered, not counting blank lines
  and lines entered twice in a row, as far as the history size reaches; going forward \<open>m\<close> of them shows
  the line \<open>k - m\<close> back.  This is for an editor whose history is empty at the start, which does not
  remove duplicates, with listeners that do not call the editor, no pending question, and a last line
  that is not blank (a blank one leaves the place in the history where it was).
\<close>

theorem history_recalls:
  assumes "\<And>ev st. on_event h ev st = st" "rl_question st = None" "rl_history st = []"
    "\<not> rl_removeDuplicates st" "entered = kept_lines (rl_historySize st) (map snd session)"
    "\<not> blank (snd (last session))" "m < k" "k \<le> length entered"
    "st' = (historyNext ^^ m) ((historyPrev ^^ k) (fold (browse_and_enter h) session st))"
  shows "rl_line st' = entered ! (k - m - 1) \<and> rl_history st' = entered \<and>
    rl_historyIndex st' = int (k - m) - 1"
proof -
  have h: "passive_listeners h" using assms(1) by unfold_locales
  let ?st = "fold (browse_and_enter h) session st"
  have "rl_history st = kept_lines (rl_historySize st) []"
    using assms(3) by (simp add: kept_lines_def up_to_def split: option.split)
  note kept = passive_listeners.session_kept[OF h assms(2) this assms(4), of session]
  have "entered \<noteq> []" using assms(7,8) by auto
  then have "session \<noteq> []" "rl_historySize st \<noteq> Some 0"
    using assms(5) by (auto simp: kept_lines_def up_to_def split: option.splits)
  then have st: "rl_history ?st = entered" "rl_historyIndex ?st = -1" using kept assms(5,6) by simp_all
  let ?older = "(historyPrev ^^ k) ?st"
  have gone: "rl_historyIndex ?older = int (k - 1)" "rl_history ?older = entered" "rl_line ?older = entered ! (k - 1)"
    using historyPrev_walk[OF st(2), of k] assms(7,8) st(1) by auto
  have "m \<le> k - 1" "k - 1 < length (rl_history ?older)" using assms(7,8) gone(2) by auto
  from historyNext_walk[OF gone(1) this] show ?thesis
    using gone assms(7,9) by (cases "m = 0") (auto simp: of_nat_diff)
qed

theorem history_recalls_witness:
  "\<exists>st. new_Interface (editor_options\<lparr>ro_removeDuplicates := False\<rparr>) = Inr st \<and>
     rl_line (historyNext (historyPrev (historyPrev
       (fold (browse_and_enter silent) [([], js ''a''), ([Up], js ''b''), ([Up, Up, Down], js ''b''), ([], js '' ''), ([Up], js ''c'')] st)))) = js ''c''"
proof -
  let ?session = "[([], js ''a''), ([Up], js ''b''), ([Up, Up, Down], js ''b''), ([], js '' ''), ([Up], js ''c'')]"
  obtain st where st: "new_Interface (editor_options\<lparr>ro_removeDuplicates := False\<rparr>) = Inr st"
    "rl_question st = None" "rl_history st = []" "\<not> rl_removeDuplicates st"
    "rl_historySize st = Some 30"
    by (simp add: new_Interface_def history_size_def editor_options_def Let_def note_call_def
        setRawMode_def kHistorySize_def)
  have kept: "kept_lines (rl_historySize st) (map snd ?session) = [js ''c'', js ''b'', js ''a'']"
    by (simp add: st(5) kept_lines_def up_to_def blank_def isSpaceClass_def)
  have "\<not> blank (snd (last ?session))" by (simp add: blank_def isSpaceClass_def)
  from history_recalls[OF quiet.untouched st(2-4) kept[symmetric] this, of 1 2] st(1) show ?thesis
    by (simp add: numeral_2_eq_2)
qed

text \<open>A blank line entered while an older one is shown leaves the place in the history.\<close>

lemma blank_line_keeps_place:
  "rl_historyIndex (snd (addHistory st)) = rl_historyIndex st" if "blank (rl_line st)"
  using that by (auto simp: addHistory_def blank_def Let_def)

section \<open>Positions\<close>

lemma fold_narrow:
  "\<forall>c\<in>set cs. c \<noteq> 10 \<and> code_width c = 1 \<Longrightarrow>
   fold (display_step columns) cs (offset, row) = (offset + length cs, row)"
  by (induction cs arbitrary: offset) (auto simp: display_step_def)

text \<open>
  A newline in the text: the rows the text before it takes are not counted, however long it is
  (the cursor is then placed too high when the prompt has a line that wraps before a newline).
\<close>

theorem newline_forgets_rows:
  assumes "\<forall>c\<in>set (code_points u) \<union> set (code_points v). c \<noteq> 10 \<and> code_width c = 1"
    "code_points (stripVTControlCharacters text) = code_points u @ [10] @ code_points v"
    "rl_columns st = Some col"
  shows "getDisplayPos st text =
    (length (code_points v) mod col,
     1 + (length (code_points v) - length (code_points v) mod col) div col)"
  using assms by (simp add: getDisplayPos_def fold_narrow display_step_def Let_def)

end
