(* ===== verification/Readable.thy ===== *)
theory Readable
  imports Writable
begin

text \<open>
  The class \<^verbatim>\<open>Readable\<close> of \<^verbatim>\<open>lib_js/stream.js\<close>.  As for \<^verbatim>\<open>Writable\<close> the user's functions (\<^verbatim>\<open>_read\<close>,
  \<^verbatim>\<open>_destroy\<close>, the listeners) are parameters, each a list of calls of the stream's methods; \<open>rexec\<close>
  ties the knot with fuel.  The listeners that \<^verbatim>\<open>pipe\<close> registers are in \<open>Pipes\<close>.
\<close>

section \<open>State\<close>

text \<open>
  \<open>r_calling\<close>: a call of \<^verbatim>\<open>_reconsiderRead\<close> is queued with \<^verbatim>\<open>setImmediate\<close>.  \<open>r_dataListener\<close>: there is
  a listener of \<^verbatim>\<open>data\<close>.  \<open>r_log\<close> is a ghost: what \<^verbatim>\<open>push\<close> took, what was given out (by a \<^verbatim>\<open>data\<close>
  event, with or without a listener to hear it, or by a call of \<^verbatim>\<open>read\<close>), and the \<^verbatim>\<open>end\<close> events, the
  last first.
\<close>

datatype rlog = Taken chunk | Heard chunk | Unheard chunk | ReadOut chunk | Ended

record readable =
  r_readable :: bool
  r_destroyed :: bool
  r_flowing :: "bool option"
  r_highWaterMark :: int
  r_length :: nat
  r_objectMode :: bool
  r_emitClose :: bool
  r_encoding :: "jsstr option"
  r_buf :: "chunk list"
  r_reading :: bool
  r_EOF :: bool
  r_finished :: bool
  r_errorEmitted :: bool
  r_calling :: bool
  r_dataListener :: bool
  r_closures :: nat
  r_log :: "rlog list"

text \<open>A chunk in an event may be \<^verbatim>\<open>null\<close> (\<open>None\<close>).\<close>

datatype revent =
    RData "chunk option"
  | REnd
  | RReadable
  | RPush "chunk option"
  | RPause
  | RResume
  | RError jsval
  | RClose

datatype rcmd =
    CPush "chunk option"
  | CUnshift chunk
  | CRead "nat option"
  | CPause
  | CResume
  | CListenData
  | CSetEncoding "jsstr option"
  | CDestroyR "jsval option"
  | CDestroyDone nat "jsval option"
  | CImmediate
  | CThrowR jsval

datatype rcall = RunR "rcmd list" | ResumeLoop

type_synonym rresult = "readable outcome"
type_synonym rrunner = "rcall \<Rightarrow> readable \<Rightarrow> rresult"

text \<open>
  The user's functions, and the native \<^verbatim>\<open>toString\<close> and \<^verbatim>\<open>slice\<close> of chunks and \<^verbatim>\<open>Buffer.concat\<close>
  (which throws unless it is given buffers).
\<close>

record rdhooks =
  rd_event :: "revent \<Rightarrow> readable \<Rightarrow> rcmd list option"
  rd_read :: "readable \<Rightarrow> rcmd list"
  rd_destroy :: "jsval option \<Rightarrow> nat \<Rightarrow> readable \<Rightarrow> rcmd list"
  rd_isError :: "jsval \<Rightarrow> bool"
  rd_toString :: "chunk \<Rightarrow> jsstr \<Rightarrow> chunk"
  rd_slice :: "nat \<Rightarrow> nat \<Rightarrow> nat \<Rightarrow> chunk"
  rd_concat :: "chunk \<Rightarrow> chunk \<Rightarrow> chunk option"

section \<open>Small parts\<close>

definition rlogged :: "rlog \<Rightarrow> readable \<Rightarrow> readable" where
  "rlogged e st = st\<lparr>r_log := e # r_log st\<rparr>"

definition rchunk_size :: "readable \<Rightarrow> chunk \<Rightarrow> nat" where
  "rchunk_size st c = (if r_objectMode st then 1 else chunk_length c)"

text \<open>\<^verbatim>\<open>if (this._readableEncoding) chunk = chunk.toString(this._readableEncoding)\<close>.\<close>

definition encoded :: "rdhooks \<Rightarrow> readable \<Rightarrow> chunk \<Rightarrow> chunk" where
  "encoded h st c =
     (case r_encoding st of
        None \<Rightarrow> c
      | Some e \<Rightarrow> if e = [] then c else (case c of CStr s \<Rightarrow> c | _ \<Rightarrow> rd_toString h c e))"

text \<open>\<^verbatim>\<open>this.emit(...)\<close>.\<close>

definition remit :: "rdhooks \<Rightarrow> rrunner \<Rightarrow> revent \<Rightarrow> readable \<Rightarrow> rresult" where
  "remit h rec ev st =
     (case ev of
        RData c \<Rightarrow>
          (let st1 = (case c of
                        None \<Rightarrow> st
                      | Some d \<Rightarrow> rlogged (if r_dataListener st then Heard d else Unheard d) st)
           in if r_dataListener st then
                (case rd_event h ev st1 of None \<Rightarrow> return_to True st1 | Some cmds \<Rightarrow> rec (RunR cmds) st1)
              else return_to False st1)
      | _ \<Rightarrow>
          (let st1 = (if ev = REnd then rlogged Ended st else st) in
           case rd_event h ev st1 of
             Some cmds \<Rightarrow> rec (RunR cmds) st1
           | None \<Rightarrow>
               (case ev of
                  RError v \<Rightarrow> throw (if rd_isError h v then ThrowValue v else ERR_UNHANDLED_ERROR v) st1
                | _ \<Rightarrow> return_to False st1)))"

section \<open>Reading\<close>

text \<open>\<^verbatim>\<open>chunk.slice(from, to)\<close>.\<close>

fun chunk_slice :: "rdhooks \<Rightarrow> chunk \<Rightarrow> nat \<Rightarrow> nat \<Rightarrow> chunk" where
  "chunk_slice h (CStr s) a b = CStr (slice s a b)"
| "chunk_slice h (CBuf s) a b = CBuf (slice s a b)"
| "chunk_slice h (CObj i n) a b = rd_slice h i a b"

text \<open>\<^verbatim>\<open>res ? res + chunk : chunk\<close> and \<^verbatim>\<open>res ? Buffer.concat([res, chunk]) : chunk\<close>.\<close>

definition join_chunk :: "rdhooks \<Rightarrow> chunk option \<Rightarrow> chunk \<Rightarrow> chunk option" where
  "join_chunk h res chunk =
     (case res of
        None \<Rightarrow> Some chunk
      | Some r \<Rightarrow>
          if r = CStr [] then Some chunk
          else (case chunk of
                  CStr t \<Rightarrow>
                    (case (case r of CStr s \<Rightarrow> r | _ \<Rightarrow> rd_toString h r (js ''utf8'')) of
                       CStr s \<Rightarrow> Some (CStr (s @ t))
                     | _ \<Rightarrow> None)
                | _ \<Rightarrow> rd_concat h r chunk))"

text \<open>The loop of \<^verbatim>\<open>read\<close>: the result, and the buffer that is left.\<close>

fun read_loop ::
  "rdhooks \<Rightarrow> nat \<Rightarrow> chunk option \<Rightarrow> chunk list \<Rightarrow> (jserr + chunk option) \<times> chunk list"
where
  "read_loop h len res [] = ((if len = 0 then Inr res else Inl TypeError), [])"
| "read_loop h len res (chunk # buf) =
     (if len = 0 then (Inr res, chunk # buf)
      else if chunk_length chunk > len then
        (case join_chunk h res (chunk_slice h chunk 0 len) of
           None \<Rightarrow> Inl TypeError
         | Some r \<Rightarrow> Inr (Some r),
         chunk_slice h chunk len (chunk_length chunk) # buf)
      else
        (case join_chunk h res chunk of
           None \<Rightarrow> (Inl TypeError, buf)
         | Some r \<Rightarrow> read_loop h (len - chunk_length chunk) (Some r) buf))"

text \<open>\<^verbatim>\<open>if (!this._readableCalling) this._readableCalling = setImmediate(...)\<close>.\<close>

definition schedule :: "readable \<Rightarrow> readable" where
  "schedule st = st\<lparr>r_calling := True\<rparr>"

definition wants_more :: "readable \<Rightarrow> bool" where
  "wants_more st \<longleftrightarrow> \<not> r_EOF st \<and> int (r_length st) < r_highWaterMark st"

definition read :: "rdhooks \<Rightarrow> nat option \<Rightarrow> readable \<Rightarrow> (jserr + chunk option) \<times> readable" where
  "read h len0 st =
     (let len1 = (if r_objectMode st then Some 1 else len0);
          all_of_it = (len1 = None \<or> r_EOF st);
          len = (if all_of_it then r_length st else the len1)
      in if \<not> all_of_it \<and> len > r_length st then (Inr None, st)
         else
           (case (if r_objectMode st
                  then (Inr (case r_buf st of [] \<Rightarrow> None | c # _ \<Rightarrow> Some c), tl (r_buf st))
                  else read_loop h len None (r_buf st)) of
              (res, buf) \<Rightarrow>
                let st1 = st\<lparr>r_length := r_length st - len, r_buf := buf\<rparr> in
                (case res of
                   Inl e \<Rightarrow> (Inl e, st1)
                 | Inr c \<Rightarrow> (Inr c, if wants_more st1 \<and> \<not> r_reading st1 then schedule st1 else st1))))"

section \<open>The methods\<close>

definition isPaused :: "readable \<Rightarrow> bool" where
  "isPaused st \<longleftrightarrow> r_flowing st = Some True"

definition setEncoding :: "jsstr option \<Rightarrow> readable \<Rightarrow> rresult" where
  "setEncoding encoding st = return_to True (st\<lparr>r_encoding := encoding\<rparr>)"

definition rpause :: "rdhooks \<Rightarrow> rrunner \<Rightarrow> readable \<Rightarrow> rresult" where
  "rpause h rec st =
     and_then (remit h rec RPause st) (\<lambda>_ st1.
       let st2 = st1\<lparr>r_flowing := Some False\<rparr> in
       return_to True (if wants_more st2 \<and> \<not> r_reading st2 then schedule st2 else st2))"

text \<open>The \<^verbatim>\<open>while\<close> of \<^verbatim>\<open>resume\<close>, one round.\<close>

definition resume_loop :: "rdhooks \<Rightarrow> rrunner \<Rightarrow> readable \<Rightarrow> rresult" where
  "resume_loop h rec st =
     (if r_flowing st = Some True \<and> r_buf st \<noteq> [] then
        (case read h None st of
           (Inl e, st1) \<Rightarrow> throw e st1
         | (Inr c, st1) \<Rightarrow> and_then (remit h rec (RData c) st1) (\<lambda>_. rec ResumeLoop))
      else return_to True st)"

definition rresume :: "rdhooks \<Rightarrow> rrunner \<Rightarrow> readable \<Rightarrow> rresult" where
  "rresume h rec st =
     and_then (remit h rec RResume st) (\<lambda>_ st1.
     and_then (rec ResumeLoop (st1\<lparr>r_flowing := Some True\<rparr>)) (\<lambda>_ st2.
     and_then
       (if r_flowing st2 = Some True \<and> r_EOF st2 \<and> \<not> r_finished st2
        then remit h rec REnd (st2\<lparr>r_finished := True\<rparr>) else return_to True st2)
       (\<lambda>_ st3. return_to True (schedule st3))))"

definition reconsiderRead :: "rdhooks \<Rightarrow> rrunner \<Rightarrow> readable \<Rightarrow> rresult" where
  "reconsiderRead h rec st =
     (let st1 = st\<lparr>r_calling := False\<rparr> in
      if wants_more st1 \<and> \<not> r_reading st1 then
        (let st2 = st1\<lparr>r_reading := True\<rparr> in rec (RunR (rd_read h st2)) st2)
      else return_to True st1)"

definition unshift :: "rdhooks \<Rightarrow> chunk \<Rightarrow> readable \<Rightarrow> rresult" where
  "unshift h chunk0 st =
     (if r_finished st then return_to True st
      else
        (let chunk = encoded h st chunk0
         in return_to True (st\<lparr>r_buf := chunk # r_buf st, r_length := r_length st + rchunk_size st chunk\<rparr>)))"

text \<open>The part of \<^verbatim>\<open>push\<close> that hands the chunk on or stores it.\<close>

definition push_chunk :: "rdhooks \<Rightarrow> rrunner \<Rightarrow> chunk option \<Rightarrow> readable \<Rightarrow> rresult" where
  "push_chunk h rec chunk st =
     (if r_flowing st = Some True then
        (case chunk of
           None \<Rightarrow> remit h rec REnd (st\<lparr>r_finished := True\<rparr>)
         | Some c \<Rightarrow> (let d = encoded h st c in remit h rec (RData (Some d)) (rlogged (Taken d) st)))
      else
        remit h rec RReadable
          (case chunk of
             None \<Rightarrow> st
           | Some c \<Rightarrow>
               (let d = encoded h st c
                in rlogged (Taken d)
                     (st\<lparr>r_buf := r_buf st @ [d], r_length := r_length st + rchunk_size st d\<rparr>))))"

definition push :: "rdhooks \<Rightarrow> rrunner \<Rightarrow> chunk option \<Rightarrow> readable \<Rightarrow> rresult" where
  "push h rec chunk st =
     (if r_EOF st then return_to False (st\<lparr>r_reading := False\<rparr>)
      else
        and_then (remit h rec (RPush chunk) st) (\<lambda>_ st1.
        and_then
          (let st2 = (if chunk = None then st1\<lparr>r_EOF := True, r_readable := False\<rparr> else st1) in
           if r_objectMode st2 \<or> chunk = None \<or> chunk_length (the chunk) \<noteq> 0
           then push_chunk h rec chunk st2 else return_to True st2)
        (\<lambda>_ st3.
          let st4 = st3\<lparr>r_reading := False\<rparr> in
          if wants_more st4 then return_to True (schedule st4) else return_to False st4)))"

definition rdestroy :: "rdhooks \<Rightarrow> rrunner \<Rightarrow> jsval option \<Rightarrow> readable \<Rightarrow> rresult" where
  "rdestroy h rec err st =
     (if r_destroyed st then return_to True st
      else
        (let i = r_closures st;
             st1 = st\<lparr>r_destroyed := True, r_EOF := True, r_finished := True, r_readable := False,
                      r_closures := i + 1\<rparr>
         in rec (RunR (rd_destroy h err i st1)) st1))"

text \<open>The callback given to \<^verbatim>\<open>_destroy\<close>.\<close>

definition destroy_done :: "rdhooks \<Rightarrow> rrunner \<Rightarrow> jsval option \<Rightarrow> readable \<Rightarrow> rresult" where
  "destroy_done h rec err st =
     and_then
       (case err of
          None \<Rightarrow> return_to True st
        | Some v \<Rightarrow> remit h rec (RError v) (st\<lparr>r_errorEmitted := True\<rparr>))
       (\<lambda>_ st1. if r_emitClose st1 then remit h rec RClose st1 else return_to True st1)"

text \<open>
  \<^verbatim>\<open>on('data', ...)\<close>: the listener of \<^verbatim>\<open>newListener\<close> that the constructor adds runs before the new
  listener is in the list.
\<close>

definition listen_data :: "rdhooks \<Rightarrow> rrunner \<Rightarrow> readable \<Rightarrow> rresult" where
  "listen_data h rec st =
     and_then (if r_flowing st = None then rresume h rec st else return_to True st)
       (\<lambda>_ st1. return_to True (st1\<lparr>r_dataListener := True\<rparr>))"

text \<open>A call of \<^verbatim>\<open>read\<close> by user code.\<close>

definition read_out :: "rdhooks \<Rightarrow> nat option \<Rightarrow> readable \<Rightarrow> rresult" where
  "read_out h len st =
     (case read h len st of
        (Inl e, st1) \<Rightarrow> throw e st1
      | (Inr None, st1) \<Rightarrow> return_to False st1
      | (Inr (Some c), st1) \<Rightarrow> return_to True (rlogged (ReadOut c) st1))"

section \<open>Running user code\<close>

definition run_rcmd :: "rdhooks \<Rightarrow> rrunner \<Rightarrow> rcmd \<Rightarrow> readable \<Rightarrow> rresult" where
  "run_rcmd h rec c st =
     (case c of
        CPush chunk \<Rightarrow> push h rec chunk st
      | CUnshift chunk \<Rightarrow> unshift h chunk st
      | CRead len \<Rightarrow> read_out h len st
      | CPause \<Rightarrow> rpause h rec st
      | CResume \<Rightarrow> rresume h rec st
      | CListenData \<Rightarrow> listen_data h rec st
      | CSetEncoding e \<Rightarrow> setEncoding e st
      | CDestroyR err \<Rightarrow> rdestroy h rec err st
      | CDestroyDone i err \<Rightarrow> if i < r_closures st then destroy_done h rec err st else return_to False st
      | CImmediate \<Rightarrow> if r_calling st then reconsiderRead h rec st else return_to False st
      | CThrowR v \<Rightarrow> throw (ThrowValue v) st)"

definition run_rcmds :: "rdhooks \<Rightarrow> rrunner \<Rightarrow> rcmd list \<Rightarrow> readable \<Rightarrow> rresult" where
  "run_rcmds h rec cmds st =
     (case cmds of
        [] \<Rightarrow> return_to True st
      | c # rest \<Rightarrow> and_then (run_rcmd h rec c st) (\<lambda>_. rec (RunR rest)))"

definition rstep :: "rdhooks \<Rightarrow> rrunner \<Rightarrow> rrunner" where
  "rstep h rec c = (case c of RunR cmds \<Rightarrow> run_rcmds h rec cmds | ResumeLoop \<Rightarrow> resume_loop h rec)"

fun rexec :: "rdhooks \<Rightarrow> nat \<Rightarrow> rrunner" where
  "rexec h 0 = (\<lambda>c st. None)"
| "rexec h (Suc n) = rstep h (rexec h n)"

section \<open>The constructor\<close>

record roptions =
  opt_rObjectMode :: "bool option"
  opt_rHighWaterMark :: "int option"
  opt_encoding :: "jsstr option"
  opt_rEmitClose :: "bool option"

definition new_readable :: "roptions \<Rightarrow> readable" where
  "new_readable options =
     (let objectMode = (case opt_rObjectMode options of None \<Rightarrow> False | Some b \<Rightarrow> b) in
      \<lparr>r_readable = True, r_destroyed = False, r_flowing = None,
       r_highWaterMark = (case opt_rHighWaterMark options of
                            Some n \<Rightarrow> n | None \<Rightarrow> if objectMode then 16 else 16384),
       r_length = 0, r_objectMode = objectMode,
       r_emitClose = (case opt_rEmitClose options of None \<Rightarrow> True | Some b \<Rightarrow> b),
       r_encoding = opt_encoding options, r_buf = [], r_reading = False, r_EOF = False,
       r_finished = False, r_errorEmitted = False, r_calling = False, r_dataListener = False,
       r_closures = 0, r_log = []\<rparr>)"

end
