(* ===== verification/Readable_Props.thy ===== *)
theory Readable_Props
  imports Readable Writable_Props
begin

text \<open>
  What a \<^verbatim>\<open>Readable\<close> promises: what is pushed is given out once, in order and without loss, \<^verbatim>\<open>read(n)\<close>
  takes exactly \<open>n\<close> units, \<^verbatim>\<open>end\<close> comes once and last.  The conditions are that chunks are of one
  kind (all strings or all buffers, unless the stream is in object mode), that nothing is put back
  with \<^verbatim>\<open>unshift\<close> and that the listeners of events do not push; they are needed (the last section).
\<close>

section \<open>What was taken and what was given out\<close>

fun taken :: "rlog list \<Rightarrow> piece list" where
  "taken [] = []"
| "taken (e # l) = taken l @ (case e of Taken c \<Rightarrow> content c | _ \<Rightarrow> [])"

fun given :: "rlog list \<Rightarrow> piece list" where
  "given [] = []"
| "given (e # l) =
     given l @ (case e of Heard c \<Rightarrow> content c | Unheard c \<Rightarrow> content c | ReadOut c \<Rightarrow> content c | _ \<Rightarrow> [])"

text \<open>\<^verbatim>\<open>end\<close> is the last thing logged, and everything taken was given out before.\<close>

fun end_ok :: "rlog list \<Rightarrow> bool" where
  "end_ok [] = True"
| "end_ok (e # l) = (end_ok l \<and> Ended \<notin> set l \<and> (e = Ended \<longrightarrow> given l = taken l))"

definition rbuffered :: "readable \<Rightarrow> piece list" where
  "rbuffered st = concat (map content (r_buf st))"

text \<open>The kind of a chunk: strings (\<open>True\<close>) or buffers.\<close>

fun of_kind :: "bool \<Rightarrow> chunk \<Rightarrow> bool" where
  "of_kind k (CStr s) = k"
| "of_kind k (CBuf b) = (\<not> k)"
| "of_kind k (CObj i n) = False"

lemma of_kind_content: "of_kind k c \<Longrightarrow> length (content c) = chunk_length c"
  by (cases c) auto

definition content_opt :: "chunk option \<Rightarrow> piece list" where
  "content_opt c = (case c of None \<Rightarrow> [] | Some d \<Rightarrow> content d)"

text \<open>The documented behaviour of \<^verbatim>\<open>Buffer.concat\<close>.\<close>

definition concat_bytes :: "rdhooks \<Rightarrow> bool" where
  "concat_bytes h \<longleftrightarrow> (\<forall>a b. rd_concat h (CBuf a) (CBuf b) = Some (CBuf (a @ b)))"

section \<open>Reading\<close>

lemma slice_kind:
  assumes "of_kind k c" "n \<le> chunk_length c"
  shows "content (chunk_slice h c 0 n) = take n (content c)" "of_kind k (chunk_slice h c 0 n)"
    "content (chunk_slice h c n (chunk_length c)) = drop n (content c)"
    "of_kind k (chunk_slice h c n (chunk_length c))"
    "chunk_length (chunk_slice h c n (chunk_length c)) = chunk_length c - n"
  using assms by (cases c; simp add: take_map drop_map length_slice)+

lemma join_kind:
  assumes "concat_bytes h" "of_kind k c" "\<And>r. res = Some r \<Longrightarrow> of_kind k r"
  shows "\<exists>d. join_chunk h res c = Some d \<and> content d = content_opt res @ content c \<and> of_kind k d"
proof (cases res)
  case (Some r)
  then have "of_kind k r" using assms(3) by simp
  then show ?thesis using assms(1,2) Some
    by (cases r; cases c) (auto simp: join_chunk_def content_opt_def concat_bytes_def)
qed (use assms(2) in \<open>simp add: join_chunk_def content_opt_def\<close>)

lemma read_loop_spec:
  assumes "concat_bytes h" "list_all (of_kind k) buf" "\<And>r. res = Some r \<Longrightarrow> of_kind k r"
    "len \<le> sum_list (map chunk_length buf)"
  shows "\<exists>c buf'. read_loop h len res buf = (Inr c, buf') \<and>
    content_opt c = content_opt res @ take len (concat (map content buf)) \<and>
    concat (map content buf') = drop len (concat (map content buf)) \<and>
    list_all (of_kind k) buf' \<and>
    sum_list (map chunk_length buf') = sum_list (map chunk_length buf) - len"
  using assms(2-)
proof (induction buf arbitrary: len res)
  case (Cons c buf)
  have c: "of_kind k c" using Cons.prems(1) by simp
  note len_c = of_kind_content[OF c]
  show ?case
  proof (cases "len = 0")
    case True
    then show ?thesis using Cons.prems(1) by simp
  next
    case False
    show ?thesis
    proof (cases "chunk_length c > len")
      case True
      note part = slice_kind[OF c less_imp_le[OF True], of h]
      obtain d where "join_chunk h res (chunk_slice h c 0 len) = Some d"
        "content d = content_opt res @ content (chunk_slice h c 0 len)"
        using join_kind[OF assms(1) part(2) Cons.prems(2)] by blast
      then show ?thesis
        using False True Cons.prems(1) part len_c by (simp add: content_opt_def)
    next
      case False
      obtain d where d: "join_chunk h res c = Some d" "content d = content_opt res @ content c" "of_kind k d"
        using join_kind[OF assms(1) c Cons.prems(2)] by blast
      have "list_all (of_kind k) buf" "len - chunk_length c \<le> sum_list (map chunk_length buf)"
        using Cons.prems(1,3) by auto
      from Cons.IH[OF this(1) _ this(2), of "Some d"] d(3) obtain r buf' where
        "read_loop h (len - chunk_length c) (Some d) buf = (Inr r, buf')"
        "content_opt r = content d @ take (len - chunk_length c) (concat (map content buf))"
        "concat (map content buf') = drop (len - chunk_length c) (concat (map content buf))"
        "list_all (of_kind k) buf'"
        "sum_list (map chunk_length buf') = sum_list (map chunk_length buf) - (len - chunk_length c)"
        by (auto simp: content_opt_def)
      then show ?thesis using \<open>len \<noteq> 0\<close> False d len_c by simp
    qed
  qed
qed simp

section \<open>The invariant\<close>

text \<open>\<open>F\<close>: the stream is not inside the loop of \<^verbatim>\<open>resume\<close>.\<close>

definition rinv :: "bool \<Rightarrow> bool \<Rightarrow> jsstr option \<Rightarrow> bool \<Rightarrow> readable \<Rightarrow> bool" where
  "rinv om k enc F st \<longleftrightarrow>
     r_objectMode st = om \<and> r_encoding st = enc \<and>
     (\<not> om \<longrightarrow> list_all (of_kind k) (r_buf st) \<and> r_length st = sum_list (map chunk_length (r_buf st))) \<and>
     taken (r_log st) = given (r_log st) @ rbuffered st \<and>
     (Ended \<in> set (r_log st) \<longrightarrow> r_finished st \<and> r_EOF st \<and> r_buf st = []) \<and>
     end_ok (r_log st) \<and>
     (F \<longrightarrow> r_flowing st = Some True \<longrightarrow> r_buf st = [])"

lemma rinv_frame [simp]:
  "rinv om k enc F (st\<lparr>r_reading := b\<rparr>) = rinv om k enc F st"
  "rinv om k enc F (st\<lparr>r_calling := b\<rparr>) = rinv om k enc F st"
  "rinv om k enc F (st\<lparr>r_dataListener := b\<rparr>) = rinv om k enc F st"
  "rinv om k enc F (st\<lparr>r_errorEmitted := b\<rparr>) = rinv om k enc F st"
  "rinv om k enc F (schedule st) = rinv om k enc F st"
  by (simp_all add: rinv_def rbuffered_def schedule_def)

lemma rinv_weaken: "rinv om k enc True st \<Longrightarrow> rinv om k enc F st"
  by (simp add: rinv_def)

lemma rinv_flow:
  "rinv om k enc F st \<Longrightarrow> rinv om k enc True (st\<lparr>r_flowing := Some False\<rparr>)"
  "rinv om k enc F st \<Longrightarrow> rinv om k enc False (st\<lparr>r_flowing := Some True\<rparr>)"
  by (simp_all add: rinv_def rbuffered_def)

text \<open>What the user's code may do: anything but \<^verbatim>\<open>unshift\<close> and a change of the encoding.\<close>

definition allowed :: "rdhooks \<Rightarrow> bool \<Rightarrow> bool \<Rightarrow> jsstr option \<Rightarrow> rcmd \<Rightarrow> bool" where
  "allowed h om k enc c =
     (case c of
        CUnshift d \<Rightarrow> False
      | CSetEncoding e \<Rightarrow> False
      | CPush (Some d) \<Rightarrow> om \<or> (\<forall>st. r_encoding st = enc \<longrightarrow> of_kind k (encoded h st d))
      | _ \<Rightarrow> True)"

text \<open>What a listener may do.\<close>

definition calm :: "rcmd \<Rightarrow> bool" where
  "calm c = (case c of CPause \<Rightarrow> True | CResume \<Rightarrow> True | CRead n \<Rightarrow> True | _ \<Rightarrow> False)"

definition rsafe :: "rdhooks \<Rightarrow> bool \<Rightarrow> bool \<Rightarrow> jsstr option \<Rightarrow> bool" where
  "rsafe h om k enc \<longleftrightarrow> concat_bytes h \<and>
     (\<forall>ev st cmds. rd_event h ev st = Some cmds \<longrightarrow> list_all calm cmds) \<and>
     (\<forall>st. list_all (allowed h om k enc) (rd_read h st)) \<and>
     (\<forall>err i st. list_all (allowed h om k enc) (rd_destroy h err i st))"

lemma rinv_read:
  assumes "rinv om k enc F st" "concat_bytes h" "read h len st = (res, st')"
  shows "\<exists>c. res = Inr c \<and> r_EOF st' = r_EOF st \<and> r_log st' = r_log st \<and>
    r_dataListener st' = r_dataListener st \<and>
    rinv om k enc F (case c of None \<Rightarrow> st' | Some d \<Rightarrow> rlogged (ReadOut d) st')"
proof (cases "r_objectMode st")
  case True
  then show ?thesis
    using assms(1,3)
    by (cases "r_buf st")
      (auto simp: read_def Let_def rinv_def rbuffered_def rlogged_def schedule_def split: if_splits)
next
  case False
  have buf: "list_all (of_kind k) (r_buf st)" "r_length st = sum_list (map chunk_length (r_buf st))"
    using assms(1) False by (auto simp: rinv_def)
  define n where "n = (if len = None \<or> r_EOF st then r_length st else the len)"
  show ?thesis
  proof (cases "n \<le> r_length st")
    case False
    then show ?thesis
      using assms(1,3) \<open>\<not> r_objectMode st\<close> by (auto simp: read_def n_def split: if_splits)
  next
    case True
    obtain c buf' where loop: "read_loop h n None (r_buf st) = (Inr c, buf')"
      "content_opt c = take n (rbuffered st)" "concat (map content buf') = drop n (rbuffered st)"
      "list_all (of_kind k) buf'" "sum_list (map chunk_length buf') = r_length st - n"
      using read_loop_spec[OF assms(2) buf(1), of None n] True buf(2)
      by (auto simp: content_opt_def rbuffered_def)
    define st1 where "st1 = st\<lparr>r_length := r_length st - n, r_buf := buf'\<rparr>"
    have "read h len st = (Inr c, if wants_more st1 \<and> \<not> r_reading st1 then schedule st1 else st1)"
      using False True loop(1) by (auto simp: read_def n_def Let_def st1_def)
    moreover have "rinv om k enc F (case c of None \<Rightarrow> st1 | Some d \<Rightarrow> rlogged (ReadOut d) st1)"
    proof -
      have empty: "c = None \<or> content_opt c = [] \<or> r_buf st \<noteq> []"
        using loop(2) by (cases "r_buf st") (auto simp: rbuffered_def)
      have still: "r_buf st = [] \<Longrightarrow> c = None \<and> buf' = []" using loop(1) True buf(2) by simp
      have "content_opt c @ concat (map content buf') = rbuffered st" using loop(2,3) by simp
      then show ?thesis
        using assms(1) loop(4,5) False still
        by (cases c) (auto simp: rinv_def rbuffered_def rlogged_def st1_def content_opt_def)
    qed
    ultimately have "res = Inr c" "st' = st1 \<or> st' = schedule st1"
      "rinv om k enc F (case c of None \<Rightarrow> st1 | Some d \<Rightarrow> rlogged (ReadOut d) st1)"
      using assms(3) by (simp_all split: if_splits)
    moreover have "rlogged e (schedule st1) = schedule (rlogged e st1)" for e
      by (simp add: rlogged_def schedule_def)
    moreover have "r_EOF st1 = r_EOF st" "r_log st1 = r_log st" "r_dataListener st1 = r_dataListener st"
      by (simp_all add: st1_def)
    ultimately show ?thesis by (cases c) (auto simp: schedule_def[of st1])
  qed
qed

section \<open>Every call keeps the invariant\<close>

text \<open>The state in which the listeners of an event run.\<close>

definition ev_logged :: "revent \<Rightarrow> readable \<Rightarrow> readable" where
  "ev_logged ev st =
     (case ev of
        RData (Some d) \<Rightarrow> rlogged (if r_dataListener st then Heard d else Unheard d) st
      | REnd \<Rightarrow> rlogged Ended st
      | _ \<Rightarrow> st)"

lemma ev_logged_EOF [simp]: "r_EOF (ev_logged ev st) = r_EOF st"
  by (auto simp: ev_logged_def rlogged_def split: revent.split option.split)

lemma given_out: "rinv om k enc F (rlogged (ReadOut d) st) \<Longrightarrow> rinv om k enc F (ev_logged (RData (Some d)) st)"
  by (auto simp: rinv_def ev_logged_def rlogged_def rbuffered_def)

lemma rinv_end:
  "rinv om k enc F st \<Longrightarrow> r_buf st = [] \<Longrightarrow> r_EOF st \<Longrightarrow> Ended \<notin> set (r_log st) \<Longrightarrow>
   rinv om k enc F (ev_logged REnd (st\<lparr>r_finished := True\<rparr>))"
  by (simp add: rinv_def ev_logged_def rlogged_def rbuffered_def)

text \<open>The contract of the function that runs user code.\<close>

locale calm_runner =
  fixes h :: rdhooks and rec :: rrunner and om k :: bool and enc :: "jsstr option"
  assumes safe: "rsafe h om k enc"
    and rec_allowed: "rec (RunR cmds) st = Some (r, st') \<Longrightarrow> list_all (allowed h om k enc) cmds \<Longrightarrow>
      rinv om k enc True st \<Longrightarrow> rinv om k enc True st'"
    and rec_calm: "rec (RunR cmds) st = Some (r, st') \<Longrightarrow> list_all calm cmds \<Longrightarrow>
      rinv om k enc F st \<Longrightarrow> rinv om k enc F st' \<and> r_EOF st' = r_EOF st \<and> (\<exists>b. r = Inr b)"
    and rec_loop: "rec ResumeLoop st = Some (r, st') \<Longrightarrow> rinv om k enc False st \<Longrightarrow>
      rinv om k enc True st' \<and> r_EOF st' = r_EOF st \<and> (\<exists>b. r = Inr b)"
begin

abbreviation (input) I where "I \<equiv> rinv om k enc"

lemma remit_calm:
  assumes "I F (ev_logged ev st)" "\<forall>v. ev \<noteq> RError v"
  shows "returns (remit h rec ev st) (\<lambda>st'. I F st' \<and> r_EOF st' = r_EOF st)"
proof -
  have run: "rd_event h ev (ev_logged ev st) = Some cmds \<Longrightarrow>
      returns (rec (RunR cmds) (ev_logged ev st)) (\<lambda>st'. I F st' \<and> r_EOF st' = r_EOF st)" for cmds
  proof -
    assume "rd_event h ev (ev_logged ev st) = Some cmds"
    then have "list_all calm cmds" using safe by (auto simp: rsafe_def)
    from rec_calm[OF _ this assms(1)] show ?thesis unfolding returns_def by auto
  qed
  have stay: "returns (return_to b (ev_logged ev st)) (\<lambda>st'. I F st' \<and> r_EOF st' = r_EOF st)" for b
    using assms(1) by (simp add: returns_return_to)
  show ?thesis
  proof (cases ev)
    case (RData c)
    then show ?thesis
      using run stay by (cases c) (auto simp: remit_def ev_logged_def Let_def split: option.split)
  qed (use run stay assms(2) in \<open>auto simp: remit_def ev_logged_def Let_def split: option.split\<close>)
qed

lemma read_data:
  assumes "read h len st = (res, st1)" "I F st"
  shows "\<exists>c. res = Inr c \<and> I F (ev_logged (RData c) st1) \<and> r_EOF st1 = r_EOF st"
proof -
  from safe have "concat_bytes h" by (simp add: rsafe_def)
  from rinv_read[OF assms(2) this assms(1)] obtain c where c: "res = Inr c" "r_EOF st1 = r_EOF st"
    "rinv om k enc F (case c of None \<Rightarrow> st1 | Some d \<Rightarrow> rlogged (ReadOut d) st1)" by blast
  show ?thesis
  proof (cases c)
    case None
    then show ?thesis using c by (simp add: ev_logged_def)
  next
    case (Some d)
    then show ?thesis using c given_out[of om k enc F d st1] by simp
  qed
qed

lemma loop_calm: "I False st \<Longrightarrow> returns (rec ResumeLoop st) (\<lambda>st'. I True st' \<and> r_EOF st' = r_EOF st)"
  using rec_loop by (fastforce simp: returns_def)

lemma resume_loop_calm:
  assumes "I False st"
  shows "returns (resume_loop h rec st) (\<lambda>st'. I True st' \<and> r_EOF st' = r_EOF st)"
proof (cases "r_flowing st = Some True \<and> r_buf st \<noteq> []")
  case True
  obtain res st1 where rd: "read h None st = (res, st1)" by force
  from read_data[OF rd assms] obtain c where c: "res = Inr c" "I False (ev_logged (RData c) st1)"
    "r_EOF st1 = r_EOF st" by blast
  show ?thesis
    using True unfolding resume_loop_def rd
    by (simp add: c(1), intro returns_and_then[OF remit_calm[OF c(2)]]) (auto simp: c(3) dest: loop_calm)
next
  case False
  then have "I True st" using assms by (auto simp: rinv_def)
  with False show ?thesis by (auto simp: resume_loop_def returns_return_to)
qed

lemma resume_calm:
  assumes "I F st"
  shows "returns (rresume h rec st) (\<lambda>st'. I True st' \<and> r_EOF st' = r_EOF st)"
  unfolding rresume_def
proof (rule returns_and_then[OF remit_calm])
  show "I F (ev_logged RResume st)" using assms by (simp add: ev_logged_def)
  fix st1 assume st1: "I F st1 \<and> r_EOF st1 = r_EOF st"
  show "returns (and_then (rec ResumeLoop (st1\<lparr>r_flowing := Some True\<rparr>)) (\<lambda>_ st2.
      and_then (if r_flowing st2 = Some True \<and> r_EOF st2 \<and> \<not> r_finished st2
        then remit h rec REnd (st2\<lparr>r_finished := True\<rparr>) else return_to True st2)
       (\<lambda>_ st3. return_to True (schedule st3)))) (\<lambda>st'. I True st' \<and> r_EOF st' = r_EOF st)"
  proof (rule returns_and_then[OF loop_calm])
    show "I False (st1\<lparr>r_flowing := Some True\<rparr>)" using st1 rinv_flow(2) by blast
    fix st2 assume st2: "I True st2 \<and> r_EOF st2 = r_EOF (st1\<lparr>r_flowing := Some True\<rparr>)"
    have "r_flowing st2 = Some True \<and> r_EOF st2 \<and> \<not> r_finished st2 \<Longrightarrow>
        I True (ev_logged REnd (st2\<lparr>r_finished := True\<rparr>))"
      using st2 by (intro rinv_end) (auto simp: rinv_def)
    note ended = remit_calm[OF this]
    show "returns (and_then (if r_flowing st2 = Some True \<and> r_EOF st2 \<and> \<not> r_finished st2
        then remit h rec REnd (st2\<lparr>r_finished := True\<rparr>) else return_to True st2)
       (\<lambda>_ st3. return_to True (schedule st3))) (\<lambda>st'. I True st' \<and> r_EOF st' = r_EOF st)"
      by (rule returns_and_then[of _ "\<lambda>st'. I True st' \<and> r_EOF st' = r_EOF st"])
        (use st1 st2 ended in \<open>auto simp: returns_return_to schedule_def[of "_ :: readable"]
          rinv_frame(5)[unfolded schedule_def] intro: returns_mono\<close>)
  qed
qed simp

end

context calm_runner begin

lemma remit_always:
  assumes "rinv om k enc F (ev_logged ev st)"
  shows "always (remit h rec ev st) (rinv om k enc F)"
proof (cases "\<exists>v. ev = RError v")
  case True
  then obtain v where v: "ev = RError v" by blast
  have "always (rec (RunR cmds) st) (rinv om k enc F)" if "rd_event h ev st = Some cmds" for cmds
  proof -
    have "list_all calm cmds" using safe that by (auto simp: rsafe_def)
    with rec_calm[of cmds st _ _ F] assms show ?thesis by (auto simp: always_def v ev_logged_def)
  qed
  with assms show ?thesis by (auto simp: remit_def v ev_logged_def split: option.split)
next
  case False
  then have "\<forall>v. ev \<noteq> RError v" by blast
  from remit_calm[OF assms this] show ?thesis by (auto simp: returns_def always_def)
qed

lemma pause_calm:
  assumes "rinv om k enc F st"
  shows "returns (rpause h rec st) (\<lambda>st'. rinv om k enc True st' \<and> r_EOF st' = r_EOF st)"
  unfolding rpause_def
proof (rule returns_and_then[OF remit_calm])
  show "rinv om k enc F (ev_logged RPause st)" using assms by (simp add: ev_logged_def)
qed (auto simp: Let_def returns_return_to rinv_flow schedule_def rinv_frame(5)[unfolded schedule_def])

lemma read_out_calm:
  assumes "rinv om k enc F st"
  shows "returns (read_out h len st) (\<lambda>st'. rinv om k enc F st' \<and> r_EOF st' = r_EOF st)"
proof -
  obtain res st1 where rd: "read h len st = (res, st1)" by force
  from safe have "concat_bytes h" by (simp add: rsafe_def)
  from rinv_read[OF assms this rd] obtain c where c: "res = Inr c" "r_EOF st1 = r_EOF st"
    "rinv om k enc F (case c of None \<Rightarrow> st1 | Some d \<Rightarrow> rlogged (ReadOut d) st1)" by blast
  then show ?thesis
    by (cases c) (simp_all add: read_out_def rd returns_return_to, simp add: rlogged_def)
qed

text \<open>What a listener does, inside the loop of \<^verbatim>\<open>resume\<close> or not.\<close>

lemma calm_cmd:
  assumes "calm c" "rinv om k enc F st"
  shows "returns (run_rcmd h rec c st) (\<lambda>st'. rinv om k enc F st' \<and> r_EOF st' = r_EOF st)"
  using assms pause_calm[OF assms(2)] resume_calm[OF assms(2)] read_out_calm[OF assms(2)]
  by (cases c) (auto simp: calm_def run_rcmd_def intro: returns_mono rinv_weaken)

lemma calm_cmds:
  assumes "list_all calm cmds" "rinv om k enc F st"
  shows "returns (run_rcmds h rec cmds st) (\<lambda>st'. rinv om k enc F st' \<and> r_EOF st' = r_EOF st)"
proof (cases cmds)
  case (Cons c rest)
  then have "returns (and_then (run_rcmd h rec c st) (\<lambda>_. rec (RunR rest)))
      (\<lambda>st'. rinv om k enc F st' \<and> r_EOF st' = r_EOF st)"
    using assms by (intro returns_and_then[OF calm_cmd]) (auto simp: returns_def dest!: rec_calm)
  then show ?thesis by (simp add: run_rcmds_def Cons)
qed (use assms in \<open>simp add: run_rcmds_def returns_return_to\<close>)

text \<open>A chunk is handed on or stored.\<close>

lemma push_chunk_inv:
  assumes "rinv om k enc True st" "allowed h om k enc (CPush chunk)" "Ended \<notin> set (r_log st)"
    "chunk = None \<Longrightarrow> r_EOF st"
  shows "always (push_chunk h rec chunk st) (rinv om k enc True)"
proof (cases "r_flowing st = Some True")
  case True
  then have empty: "r_buf st = []" using assms(1) by (simp add: rinv_def)
  show ?thesis
  proof (cases chunk)
    case None
    from remit_always[OF rinv_end[OF assms(1) empty assms(4)[OF None] assms(3)]]
    show ?thesis using True None by (simp add: push_chunk_def)
  next
    case (Some c)
    have "rinv om k enc True (ev_logged (RData (Some (encoded h st c))) (rlogged (Taken (encoded h st c)) st))"
      using assms(1,3) empty by (auto simp: rinv_def ev_logged_def rlogged_def rbuffered_def)
    from remit_always[OF this] show ?thesis using True Some by (simp add: push_chunk_def Let_def)
  qed
next
  case False
  have "rinv om k enc True (case chunk of None \<Rightarrow> st
      | Some c \<Rightarrow> rlogged (Taken (encoded h st c))
          (st\<lparr>r_buf := r_buf st @ [encoded h st c],
             r_length := r_length st + rchunk_size st (encoded h st c)\<rparr>))"
    using assms(1-3) False
    by (auto simp: rinv_def rlogged_def rbuffered_def rchunk_size_def allowed_def split: option.split)
  then show ?thesis
    using False remit_always[of True RReadable]
    by (cases chunk) (simp_all add: push_chunk_def Let_def ev_logged_def)
qed

end

context calm_runner begin

lemma push_inv:
  assumes "rinv om k enc True st" "allowed h om k enc (CPush chunk)"
  shows "always (push h rec chunk st) (rinv om k enc True)"
proof (cases "r_EOF st")
  case True
  then show ?thesis using assms(1) by (simp add: push_def)
next
  case False
  have tail: "always (let st4 = st3\<lparr>r_reading := False\<rparr> in
      if wants_more st4 then return_to True (schedule st4) else return_to False st4) (rinv om k enc True)"
    if "rinv om k enc True st3" for st3
    using that by (simp add: Let_def schedule_def rinv_frame(5)[unfolded schedule_def])
  have mid: "always (let st2 = if chunk = None then st1\<lparr>r_EOF := True, r_readable := False\<rparr> else st1
      in if r_objectMode st2 \<or> chunk = None \<or> chunk_length (the chunk) \<noteq> 0
         then push_chunk h rec chunk st2 else return_to True st2) (rinv om k enc True)"
    if st1: "rinv om k enc True st1" "\<not> r_EOF st1" for st1
  proof -
    have new: "Ended \<notin> set (r_log st1)" using st1 by (auto simp: rinv_def)
    then have "rinv om k enc True (st1\<lparr>r_EOF := True, r_readable := False\<rparr>)"
      using st1(1) by (simp add: rinv_def rbuffered_def)
    from push_chunk_inv[OF this, of None] push_chunk_inv[OF st1(1) assms(2) new] st1(1) new
    show ?thesis by (auto simp: Let_def allowed_def)
  qed
  have "rinv om k enc True (ev_logged (RPush chunk) st)" using assms(1) by (simp add: ev_logged_def)
  from remit_calm[OF this] have start: "returns (remit h rec (RPush chunk) st)
      (\<lambda>st1. rinv om k enc True st1 \<and> \<not> r_EOF st1)" using False by (auto intro: returns_mono)
  show ?thesis
    unfolding push_def if_not_P[OF False]
    by (rule returns_always[OF start], rule always_and_then, rule mid, simp, simp, rule tail)
qed

lemma destroy_inv:
  assumes "rinv om k enc True st"
  shows "always (rdestroy h rec err st) (rinv om k enc True)"
proof (cases "r_destroyed st")
  case False
  define st1 where "st1 = st\<lparr>r_destroyed := True, r_EOF := True, r_finished := True, r_readable := False,
      r_closures := r_closures st + 1\<rparr>"
  have "rinv om k enc True st1" using assms by (auto simp: st1_def rinv_def rbuffered_def)
  moreover have "list_all (allowed h om k enc) (rd_destroy h err (r_closures st) st1)"
    using safe by (simp add: rsafe_def)
  ultimately have "always (rec (RunR (rd_destroy h err (r_closures st) st1)) st1) (rinv om k enc True)"
    by (auto simp: always_def dest: rec_allowed)
  then show ?thesis using False by (simp add: rdestroy_def Let_def st1_def)
qed (use assms in \<open>simp add: rdestroy_def\<close>)

lemma destroy_done_inv:
  assumes "rinv om k enc True st"
  shows "always (destroy_done h rec err st) (rinv om k enc True)"
proof -
  have event: "always (remit h rec ev st') (rinv om k enc True)"
    if "rinv om k enc True st'" "ev = RClose \<or> (\<exists>v. ev = RError v)" for ev st'
    using that remit_always[of True ev st'] by (auto simp: ev_logged_def)
  show ?thesis
    unfolding destroy_done_def using assms
    by (intro always_and_then) (auto split: option.split intro!: event)
qed

lemma reconsider_inv:
  assumes "rinv om k enc True st"
  shows "always (reconsiderRead h rec st) (rinv om k enc True)"
proof -
  let ?st = "st\<lparr>r_calling := False, r_reading := True\<rparr>"
  have "rinv om k enc True ?st" "list_all (allowed h om k enc) (rd_read h ?st)"
    using assms safe by (simp_all add: rsafe_def)
  then have "always (rec (RunR (rd_read h ?st)) ?st) (rinv om k enc True)"
    by (auto simp: always_def dest: rec_allowed)
  then show ?thesis using assms by (simp add: reconsiderRead_def Let_def)
qed

lemma allowed_cmd:
  assumes "allowed h om k enc c" "rinv om k enc True st"
  shows "always (run_rcmd h rec c st) (rinv om k enc True)"
proof -
  have "returns m (\<lambda>st'. rinv om k enc True st' \<and> r_EOF st' = r_EOF st) \<Longrightarrow> always m (rinv om k enc True)" for m
    by (auto simp: returns_def always_def)
  note calm = this[OF pause_calm] this[OF resume_calm] this[OF read_out_calm]
  have listen: "always (listen_data h rec st) (rinv om k enc True)"
    unfolding listen_data_def
    by (rule always_and_then) (use assms(2) calm(2)[OF assms(2)] in auto)
  show ?thesis
    using assms calm[OF assms(2)] push_inv[OF assms(2)] destroy_inv[OF assms(2)]
      destroy_done_inv[OF assms(2)] reconsider_inv[OF assms(2)] listen
    by (cases c) (auto simp: run_rcmd_def allowed_def)
qed

lemma allowed_cmds:
  assumes "list_all (allowed h om k enc) cmds" "rinv om k enc True st"
  shows "always (run_rcmds h rec cmds st) (rinv om k enc True)"
proof (cases cmds)
  case (Cons c rest)
  have "always (and_then (run_rcmd h rec c st) (\<lambda>_. rec (RunR rest))) (rinv om k enc True)"
    by (rule always_and_then[OF allowed_cmd])
      (use assms Cons in \<open>auto simp: always_def dest: rec_allowed\<close>)
  then show ?thesis by (simp add: run_rcmds_def Cons)
qed (use assms in \<open>simp add: run_rcmds_def\<close>)

end

text \<open>The interpreter itself keeps the contract, with any fuel.\<close>

lemma rexec_calm: "rsafe h om k enc \<Longrightarrow> calm_runner h (rexec h n) om k enc"
proof (induction n)
  case (Suc n)
  then have run: "calm_runner h (rexec h n) om k enc" by simp
  note allowed = calm_runner.allowed_cmds[OF run, unfolded always_def]
    and calm = calm_runner.calm_cmds[OF run, unfolded returns_def]
    and loop = calm_runner.resume_loop_calm[OF run, unfolded returns_def]
  show ?case
  proof
    show "rsafe h om k enc" by (rule Suc.prems)
  next
    fix cmds st r st' assume "rexec h (Suc n) (RunR cmds) st = Some (r, st')"
      "list_all (allowed h om k enc) cmds" "rinv om k enc True st"
    then show "rinv om k enc True st'" using allowed unfolding rexec.simps rstep_def rcall.case by blast
  next
    fix cmds F st r st' assume "rexec h (Suc n) (RunR cmds) st = Some (r, st')"
      "list_all calm cmds" "rinv om k enc F st"
    then show "rinv om k enc F st' \<and> r_EOF st' = r_EOF st \<and> (\<exists>b. r = Inr b)"
      using calm unfolding rexec.simps rstep_def rcall.case by blast
  next
    fix st r st' assume "rexec h (Suc n) ResumeLoop st = Some (r, st')" "rinv om k enc False st"
    then show "rinv om k enc True st' \<and> r_EOF st' = r_EOF st \<and> (\<exists>b. r = Inr b)"
      using loop unfolding rexec.simps rstep_def rcall.case by blast
  qed
qed (unfold_locales, simp_all)

text \<open>
  The stream of the class itself, without listeners: the default \<^verbatim>\<open>_read\<close> does nothing and the
  default \<^verbatim>\<open>_destroy\<close> calls back at once; \<^verbatim>\<open>toString\<close> is given.
\<close>

definition default_source :: "(chunk \<Rightarrow> jsstr \<Rightarrow> chunk) \<Rightarrow> rdhooks" where
  "default_source to_string =
     \<lparr>rd_event = (\<lambda>ev st. None), rd_read = (\<lambda>st. []), rd_destroy = (\<lambda>err i st. [CDestroyDone i err]),
      rd_isError = (\<lambda>v. False), rd_toString = to_string, rd_slice = (\<lambda>i a b. CObj i (b - a)),
      rd_concat = concatBuffers\<rparr>"

lemma default_source_safe: "rsafe (default_source ts) om k enc"
  by (simp add: rsafe_def default_source_def concat_bytes_def allowed_def)

interpretation default_source: calm_runner "default_source ts" "rexec (default_source ts) n" om k enc
  for ts n om k enc
  by (rule rexec_calm) (rule default_source_safe)

lemma rinv_new:
  "r_objectMode (new_readable options) = om \<Longrightarrow> opt_encoding options = enc \<Longrightarrow>
   rinv om k enc True (new_readable options)"
  by (simp add: rinv_def rbuffered_def new_readable_def Let_def)

lemma run_rinv:
  assumes "rsafe h om k enc" "r_objectMode (new_readable options) = om" "opt_encoding options = enc"
    "list_all (allowed h om k enc) cmds" "rexec h n (RunR cmds) (new_readable options) = Some (r, st)"
  shows "rinv om k enc True st"
  using calm_runner.rec_allowed[OF rexec_calm[OF assms(1)] assms(5,4) rinv_new[OF assms(2,3)]] .

text \<open>
  C6. What is pushed into a \<^verbatim>\<open>Readable\<close> is given out once and in order, as argument of a \<^verbatim>\<open>data\<close> event
  (whether anything listens or not) or as result of \<^verbatim>\<open>read\<close>, and what has not been given out is in the
  buffer, whose length is \<^verbatim>\<open>readableLength\<close> unless the stream is in object mode.  This is at the end of
  every run of a program that pauses, resumes, reads, pushes, listens and destroys in any order, from a new
  stream, where \<^verbatim>\<open>_read\<close> and \<^verbatim>\<open>_destroy\<close> may do the same, listeners pause, resume and read only, nobody calls
  \<^verbatim>\<open>unshift\<close> or \<^verbatim>\<open>setEncoding\<close>, the chunks are of one kind (all strings or all buffers) unless the stream is
  in object mode, and \<^verbatim>\<open>Buffer.concat\<close> joins the bytes.
\<close>

theorem readable_in_order:
  assumes "rsafe h om k enc" "r_objectMode (new_readable options) = om" "opt_encoding options = enc"
    "list_all (allowed h om k enc) cmds" "rexec h n (RunR cmds) (new_readable options) = Some (r, st)"
  shows "taken (r_log st) = given (r_log st) @ rbuffered st \<and>
    (\<not> om \<longrightarrow> r_length st = length (rbuffered st))"
proof -
  have st: "rinv om k enc True st" by (rule run_rinv[OF assms])
  have "list_all (of_kind k) buf \<Longrightarrow> length (concat (map content buf)) = sum_list (map chunk_length buf)" for buf
    by (induction buf) (auto simp: of_kind_content)
  with st show ?thesis by (auto simp: rinv_def rbuffered_def)
qed

definition byte_options :: roptions where
  "byte_options = \<lparr>opt_rObjectMode = None, opt_rHighWaterMark = Some 8, opt_encoding = None,
     opt_rEmitClose = None\<rparr>"

definition some_pushes :: "rcmd list" where
  "some_pushes = [CPush (Some (CBuf [1, 2, 3])), CPush (Some (CBuf [4, 5])), CRead (Some 2), CResume,
     CListenData, CPush (Some (CBuf [6])), CPause, CPush (Some (CBuf [7])), CPush None, CRead None]"

lemma some_pushes_allowed: "list_all (allowed (default_source ts) False False None) some_pushes"
  by (simp add: some_pushes_def allowed_def encoded_def)

text \<open>The first listener comes after \<^verbatim>\<open>resume\<close>: the bytes 3, 4, 5 are given to nobody.\<close>

theorem readable_in_order_witness:
  "\<exists>r st. rexec (default_source (\<lambda>c e. c)) 40 (RunR some_pushes) (new_readable byte_options) = Some (r, st) \<and>
     given (r_log st) = map Byte [1, 2, 3, 4, 5, 6, 7] \<and>
     taken (r_log st) = given (r_log st) @ rbuffered st"
proof -
  have "map_option (given \<circ> r_log \<circ> snd)
      (rexec (default_source (\<lambda>c e. c)) 40 (RunR some_pushes) (new_readable byte_options)) =
    Some (map Byte [1, 2, 3, 4, 5, 6, 7])"
    by code_simp
  then obtain r st where run: "rexec (default_source (\<lambda>c e. c)) 40 (RunR some_pushes) (new_readable byte_options) = Some (r, st)"
    "given (r_log st) = map Byte [1, 2, 3, 4, 5, 6, 7]" by (auto simp: map_option_eq_Some)
  have "r_objectMode (new_readable byte_options) = False" "opt_encoding byte_options = None"
    by (simp_all add: new_readable_def byte_options_def)
  from readable_in_order[OF default_source_safe this some_pushes_allowed run(1)] run show ?thesis by blast
qed

lemma end_ok_split:
  "end_ok (post @ Ended # pre) \<Longrightarrow> post = [] \<and> Ended \<notin> set pre \<and> given pre = taken pre"
proof (induction post)
  case (Cons e post)
  then show ?case by (cases post) auto
qed simp

text \<open>
  \<^verbatim>\<open>end\<close> is emitted at most once; everything pushed was given out before it, and nothing is
  taken or given out after it.
\<close>

theorem readable_end:
  assumes "rsafe h om k enc" "r_objectMode (new_readable options) = om" "opt_encoding options = enc"
    "list_all (allowed h om k enc) cmds" "rexec h n (RunR cmds) (new_readable options) = Some (r, st)"
    "r_log st = post @ Ended # pre"
  shows "post = [] \<and> Ended \<notin> set pre \<and> given pre = taken pre"
  using run_rinv[OF assms(1-5)] end_ok_split[of post pre] assms(6) by (simp add: rinv_def)

theorem readable_end_witness:
  "\<exists>r st pre. rexec (default_source (\<lambda>c e. c)) 40
      (RunR [CPush (Some (CBuf [1, 2, 3])), CPush None, CListenData]) (new_readable byte_options) = Some (r, st) \<and>
     r_log st = Ended # pre \<and> given pre = taken pre"
proof -
  let ?cmds = "[CPush (Some (CBuf [1, 2, 3])), CPush None, CListenData]"
  have "map_option (r_log \<circ> snd)
      (rexec (default_source (\<lambda>c e. c)) 40 (RunR ?cmds) (new_readable byte_options)) =
    Some [Ended, Unheard (CBuf [1, 2, 3]), Taken (CBuf [1, 2, 3])]"
    by code_simp
  then obtain r st where run:
    "rexec (default_source (\<lambda>c e. c)) 40 (RunR ?cmds) (new_readable byte_options) = Some (r, st)"
    "r_log st = [] @ Ended # [Unheard (CBuf [1, 2, 3]), Taken (CBuf [1, 2, 3])]"
    by (auto simp: map_option_eq_Some)
  have "r_objectMode (new_readable byte_options) = False" "opt_encoding byte_options = None"
    "list_all (allowed (default_source (\<lambda>c e. c)) False False None) ?cmds"
    by (simp_all add: new_readable_def byte_options_def allowed_def encoded_def)
  from readable_end[OF default_source_safe this run] run show ?thesis by fastforce
qed

text \<open>
  \<^verbatim>\<open>read(n)\<close> before the end of the data takes exactly the first \<open>n\<close> units of the buffer, cutting
  a chunk where necessary, or gives \<^verbatim>\<open>null\<close> and changes nothing when fewer are there; without an
  argument it takes everything.
\<close>

theorem read_exact:
  assumes "concat_bytes h" "list_all (of_kind k) (r_buf st)" "\<not> r_objectMode st"
    "r_length st = length (rbuffered st)" "\<not> r_EOF st" "read h len st = (res, st')"
  shows "case len of
      Some n \<Rightarrow>
        if n > r_length st then res = Inr None \<and> st' = st
        else (\<exists>c. res = Inr c \<and> content_opt c = take n (rbuffered st)) \<and>
          rbuffered st' = drop n (rbuffered st) \<and> r_length st' = r_length st - n
    | None \<Rightarrow> (\<exists>c. res = Inr c \<and> content_opt c = rbuffered st) \<and> rbuffered st' = [] \<and> r_length st' = 0"
proof -
  have len: "length (concat (map content buf)) = sum_list (map chunk_length buf)"
    if "list_all (of_kind k) buf" for buf
    using that by (induction buf) (auto simp: of_kind_content)
  define n where "n = (case len of None \<Rightarrow> r_length st | Some n \<Rightarrow> n)"
  show ?thesis
  proof (cases "n \<le> r_length st")
    case False
    then show ?thesis using assms(3,5,6) by (auto simp: read_def n_def split: option.splits)
  next
    case True
    obtain c buf' where loop: "read_loop h n None (r_buf st) = (Inr c, buf')"
      "content_opt c = take n (rbuffered st)" "concat (map content buf') = drop n (rbuffered st)"
      using read_loop_spec[OF assms(1,2), of None n] True assms(4) len[OF assms(2)]
      by (auto simp: content_opt_def rbuffered_def)
    define st1 where "st1 = st\<lparr>r_length := r_length st - n, r_buf := buf'\<rparr>"
    have "read h len st = (Inr c, if wants_more st1 \<and> \<not> r_reading st1 then schedule st1 else st1)"
      using True assms(3,5) loop(1) by (auto simp: read_def n_def Let_def st1_def split: option.splits)
    then show ?thesis
      using True loop(2,3) assms(4,6)
      by (auto simp: st1_def schedule_def rbuffered_def n_def split: option.splits if_splits)
  qed
qed

theorem read_exact_witness:
  "\<exists>c st'. read (default_source (\<lambda>c e. c)) (Some 4)
      ((new_readable byte_options)\<lparr>r_buf := [CBuf [1, 2, 3], CBuf [4, 5]], r_length := 5\<rparr>) = (Inr c, st') \<and>
    content_opt c = map Byte [1, 2, 3, 4] \<and> rbuffered st' = [Byte 5]"
proof -
  let ?st = "(new_readable byte_options)\<lparr>r_buf := [CBuf [1, 2, 3], CBuf [4, 5]], r_length := 5\<rparr>"
  obtain res st' where rd: "read (default_source (\<lambda>c e. c)) (Some 4) ?st = (res, st')" by force
  have "concat_bytes (default_source (\<lambda>c e. c))" "list_all (of_kind False) (r_buf ?st)"
    "\<not> r_objectMode ?st" "r_length ?st = length (rbuffered ?st)" "\<not> r_EOF ?st"
    by (simp_all add: concat_bytes_def default_source_def new_readable_def byte_options_def rbuffered_def)
  from read_exact[OF this rd] rd show ?thesis by (auto simp: rbuffered_def)
qed

section \<open>What the conditions are for\<close>

text \<open>
  The listener that the constructor puts on \<^verbatim>\<open>newListener\<close> resumes the stream before the first
  listener of \<^verbatim>\<open>data\<close> is added, so what was pushed before is emitted to nobody.
\<close>

theorem first_listener_misses:
  assumes "chunk_length c \<noteq> 0" "of_kind False c"
  shows "\<exists>st. rexec (default_source ts) 10 (RunR [CPush (Some c), CListenData]) (new_readable byte_options) =
      Some (Inr True, st) \<and> r_log st = [Unheard c, Taken c] \<and> r_buf st = []"
proof -
  obtain b x where c: "c = CBuf (x # b)" using assms by (cases c; cases "chunk_length c") (auto simp: length_Suc_conv)
  show ?thesis
    by (simp add: c eval_nat_numeral rstep_def run_rcmds_def run_rcmd_def push_def remit_def push_chunk_def
        default_source_def new_readable_def byte_options_def encoded_def rlogged_def rchunk_size_def
        listen_data_def rresume_def resume_loop_def read_def schedule_def wants_more_def Let_def
        and_then_simps join_chunk_def return_to_def and_then_def)
qed

text \<open>An empty chunk that was put back is never taken: \<^verbatim>\<open>resume\<close> does not return.\<close>

theorem empty_unshift_hangs:
  "rexec (default_source ts) n (RunR [CUnshift (CBuf []), CResume]) (new_readable byte_options) = None"
proof -
  have loop: "r_flowing st = Some True \<Longrightarrow> r_buf st = [CBuf []] \<Longrightarrow> r_length st = 0 \<Longrightarrow>
      \<not> r_objectMode st \<Longrightarrow> \<not> r_dataListener st \<Longrightarrow> rexec (default_source ts) m ResumeLoop st = None" for m st
  proof (induction m arbitrary: st)
    case (Suc m)
    have same: "st\<lparr>r_length := 0, r_buf := [CBuf []]\<rparr> = st" using Suc.prems by (cases st) simp
    have "read (default_source ts) None st =
        (Inr None, if wants_more st \<and> \<not> r_reading st then schedule st else st)"
      using Suc.prems by (simp add: read_def Let_def same)
    then show ?case
      using Suc.prems Suc.IH
      by (auto simp: rstep_def resume_loop_def remit_def Let_def and_then_simps schedule_def)
  qed simp
  show ?thesis
  proof (cases n)
    case (Suc m)
    then show ?thesis
      by (cases m)
        (simp_all add: rstep_def run_rcmds_def run_rcmd_def unshift_def Let_def and_then_simps
          new_readable_def byte_options_def encoded_def rresume_def remit_def default_source_def
          return_to_def and_then_def loop[unfolded default_source_def] rchunk_size_def)
  qed simp
qed

end
