(* ===== verification/Pipes.thy ===== *)
theory Pipes
  imports Readable_Props "HOL-Library.AList"
begin

text \<open>
  \<^verbatim>\<open>pipe\<close> and \<^verbatim>\<open>unpipe\<close> of the class \<^verbatim>\<open>Readable\<close> in \<^verbatim>\<open>lib_js/stream.js\<close>: which listeners are registered on
  the source and on the destinations.  A destination is a number; \<open>key_of\<close> is \<^verbatim>\<open>String(destination)\<close>,
  the property name under which the source remembers it.
\<close>

section \<open>State\<close>

text \<open>The four closures of a pipe have the number of the pipe as their identity.\<close>

record pipe =
  pipe_id :: nat
  pipe_ends :: bool

datatype pcall = ResumeSource | PauseSource | EmitPipe nat | EmitUnpipe nat

record piping =
  p_pipes :: "(jsstr \<times> pipe) list"
  p_data :: "nat list"
  p_end :: "nat list"
  p_error :: "nat list"
  p_drain :: "nat \<Rightarrow> nat list"
  p_destError :: "nat \<Rightarrow> nat list"
  p_next :: nat
  p_errorEmitted :: bool
  p_destErrorEmitted :: "nat \<Rightarrow> bool"
  p_calls :: "pcall list"

text \<open>\<^verbatim>\<open>removeListener\<close> takes the last occurrence out; the closures of a pipe occur once.\<close>

definition unlisten :: "nat \<Rightarrow> nat list \<Rightarrow> nat list" where
  "unlisten i ls = rev (remove1 i (rev ls))"

definition called :: "pcall \<Rightarrow> piping \<Rightarrow> piping" where
  "called c st = st\<lparr>p_calls := p_calls st @ [c]\<rparr>"

section \<open>Operations\<close>

definition pipe_to :: "(nat \<Rightarrow> jsstr) \<Rightarrow> nat \<Rightarrow> bool option \<Rightarrow> piping \<Rightarrow> piping" where
  "pipe_to key_of dest end_option st =
     (let ends = (case end_option of None \<Rightarrow> True | Some b \<Rightarrow> b);
          i = p_next st;
          st1 = st\<lparr>p_next := i + 1,
                   p_pipes := AList.update (key_of dest) \<lparr>pipe_id = i, pipe_ends = ends\<rparr> (p_pipes st),
                   p_drain := (p_drain st)(dest := p_drain st dest @ [i]),
                   p_data := p_data st @ [i],
                   p_end := (if ends then p_end st @ [i] else p_end st),
                   p_errorEmitted := True,
                   p_error := p_error st @ [i],
                   p_destErrorEmitted := (p_destErrorEmitted st)(dest := True),
                   p_destError := (p_destError st)(dest := p_destError st dest @ [i])\<rparr>;
          st2 = called (EmitPipe dest) st1
      in if length (p_pipes st2) = 1 then called ResumeSource st2 else st2)"

definition unpipe :: "(nat \<Rightarrow> jsstr) \<Rightarrow> nat \<Rightarrow> piping \<Rightarrow> piping" where
  "unpipe key_of dest st =
     (case map_of (p_pipes st) (key_of dest) of
        None \<Rightarrow> st
      | Some p \<Rightarrow>
          (let i = pipe_id p;
               st1 = called (EmitUnpipe dest) st;
               st2 = st1\<lparr>p_drain := (p_drain st1)(dest := unlisten i (p_drain st1 dest)),
                         p_data := unlisten i (p_data st1),
                         p_end := (if pipe_ends p then unlisten i (p_end st1) else p_end st1),
                         p_error := unlisten i (p_error st1),
                         p_destError := (p_destError st1)(dest := unlisten i (p_destError st1 dest)),
                         p_pipes := AList.delete (key_of dest) (p_pipes st1)\<rparr>
           in if length (p_pipes st2) = 0 then called PauseSource st2 else st2))"

definition no_pipes :: piping where
  "no_pipes = \<lparr>p_pipes = [], p_data = [], p_end = [], p_error = [], p_drain = (\<lambda>_. []),
     p_destError = (\<lambda>_. []), p_next = 0, p_errorEmitted = False, p_destErrorEmitted = (\<lambda>_. False),
     p_calls = []\<rparr>"

text \<open>
  The listener of \<^verbatim>\<open>data\<close>: \<open>drain\<close> is the result of \<^verbatim>\<open>destination.write\<close>.  The flow of the source after
  the listeners of all pipes have run, in order.
\<close>

definition pipe_data :: "bool \<Rightarrow> bool \<Rightarrow> bool" where
  "pipe_data drain flowing =
     (if \<not> drain \<and> flowing then False
      else if drain \<and> \<not> flowing then True
      else flowing)"

section \<open>Connections\<close>

datatype pop = PipeTo nat "bool option" | Unpipe nat

definition pipe_op :: "(nat \<Rightarrow> jsstr) \<Rightarrow> pop \<Rightarrow> piping \<Rightarrow> piping" where
  "pipe_op key_of op st =
     (case op of PipeTo d e \<Rightarrow> pipe_to key_of d e st | Unpipe d \<Rightarrow> unpipe key_of d st)"

text \<open>
  The specification: the connections, oldest first, each a destination with its number and whether
  the end is passed on.
\<close>

type_synonym connections = "(nat \<times> nat \<times> bool) list"

definition connect :: "pop \<Rightarrow> nat \<times> connections \<Rightarrow> nat \<times> connections" where
  "connect op s =
     (case s of (n, cs) \<Rightarrow>
        (case op of
           PipeTo d e \<Rightarrow> (n + 1, cs @ [(d, n, case e of None \<Rightarrow> True | Some b \<Rightarrow> b)])
         | Unpipe d \<Rightarrow> (n, filter (\<lambda>c. fst c \<noteq> d) cs)))"

text \<open>No destination is connected twice.\<close>

fun once_each :: "nat set \<Rightarrow> pop list \<Rightarrow> bool" where
  "once_each D [] = True"
| "once_each D (PipeTo d e # ops) = (d \<notin> D \<and> once_each (insert d D) ops)"
| "once_each D (Unpipe d # ops) = once_each (D - {d}) ops"

text \<open>The registry and the lists of listeners that belong to a list of connections.\<close>

definition ids :: "connections \<Rightarrow> nat list" where
  "ids cs = map (fst \<circ> snd) cs"

definition registry :: "(nat \<Rightarrow> jsstr) \<Rightarrow> connections \<Rightarrow> jsstr \<Rightarrow> pipe option" where
  "registry key_of cs =
     map_of (map (\<lambda>c. (key_of (fst c), \<lparr>pipe_id = fst (snd c), pipe_ends = snd (snd c)\<rparr>)) cs)"

definition pipes_ok :: "(nat \<Rightarrow> jsstr) \<Rightarrow> piping \<Rightarrow> nat \<times> connections \<Rightarrow> bool" where
  "pipes_ok key_of st s \<longleftrightarrow>
     (case s of (n, cs) \<Rightarrow>
        p_next st = n \<and> distinct (map fst cs) \<and> distinct (ids cs) \<and> (\<forall>i\<in>set (ids cs). i < n) \<and>
        map_of (p_pipes st) = registry key_of cs \<and>
        p_data st = ids cs \<and> p_end st = ids (filter (\<lambda>c. snd (snd c)) cs) \<and> p_error st = ids cs \<and>
        (\<forall>d. p_drain st d = ids (filter (\<lambda>c. fst c = d) cs)) \<and>
        (\<forall>d. p_destError st d = ids (filter (\<lambda>c. fst c = d) cs)))"

lemma ids_simps [simp]:
  "ids [] = []" "ids (c # cs) = fst (snd c) # ids cs" "ids (cs @ ds) = ids cs @ ids ds"
  by (simp_all add: ids_def)

lemma unlisten_filter: "distinct ls \<Longrightarrow> unlisten i ls = filter (\<lambda>j. j \<noteq> i) ls"
  by (simp add: unlisten_def distinct_remove1_removeAll removeAll_filter_not_eq rev_filter eq_commute)

text \<open>Taking out a number takes out its connection, in every part of the list.\<close>

lemma distinct_ids_filter: "distinct (ids cs) \<Longrightarrow> distinct (ids (filter P cs))"
  by (simp add: ids_def distinct_map_filter)

lemma unlisten_ids:
  assumes "distinct (ids cs)" "distinct (map fst cs)" "(d, i, e) \<in> set cs"
  shows "unlisten i (ids (filter P cs)) = ids (filter P (filter (\<lambda>c. fst c \<noteq> d) cs))"
proof -
  have same: "fst (snd c) = i \<longleftrightarrow> fst c = d" if "c \<in> set cs" for c
  proof -
    have inj: "inj_on (fst \<circ> snd) (set cs)" "inj_on fst (set cs)"
      using assms(1,2) by (simp_all add: ids_def distinct_map)
    show ?thesis
      using inj_onD[OF inj(1) _ that assms(3)] inj_onD[OF inj(2) _ that assms(3)] by fastforce
  qed
  have "unlisten i (ids (filter P cs)) = filter (\<lambda>j. j \<noteq> i) (ids (filter P cs))"
    by (rule unlisten_filter) (rule distinct_ids_filter[OF assms(1)])
  also have "\<dots> = ids (filter (\<lambda>c. fst (snd c) \<noteq> i) (filter P cs))"
    by (simp add: ids_def filter_map comp_def)
  also have "filter (\<lambda>c. fst (snd c) \<noteq> i) (filter P cs) = filter P (filter (\<lambda>c. fst c \<noteq> d) cs)"
    using same by (auto intro!: filter_cong)
  finally show ?thesis .
qed

lemma registry_absent:
  "inj_on key_of D \<Longrightarrow> d \<in> D \<Longrightarrow> fst ` set cs \<subseteq> D \<Longrightarrow> d \<notin> fst ` set cs \<Longrightarrow> registry key_of cs (key_of d) = None"
proof (induction cs)
  case (Cons c cs)
  then have "key_of (fst c) \<noteq> key_of d" using inj_onD[of key_of D "fst c" d] by auto
  then show ?case using Cons by (simp add: registry_def)
qed (simp add: registry_def)

lemma registry_present:
  assumes "inj_on key_of D" "fst ` set cs \<subseteq> D" "distinct (map fst cs)" "(d, i, e) \<in> set cs"
  shows "registry key_of cs (key_of d) = Some \<lparr>pipe_id = i, pipe_ends = e\<rparr>"
  using assms(2-4)
proof (induction cs)
  case (Cons c cs)
  show ?case
  proof (cases "c = (d, i, e)")
    case False
    then have "fst c \<noteq> d" "d \<in> D" "fst c \<in> D" using Cons.prems by (auto simp: image_iff)
    then have "key_of (fst c) \<noteq> key_of d" using inj_onD[OF assms(1)] by metis
    then show ?thesis using Cons False by (auto simp: registry_def)
  qed (simp add: registry_def)
qed simp

lemma registry_append:
  "inj_on key_of D \<Longrightarrow> d \<in> D \<Longrightarrow> fst ` set cs \<subseteq> D \<Longrightarrow> d \<notin> fst ` set cs \<Longrightarrow>
   registry key_of (cs @ [(d, i, e)]) = (registry key_of cs)(key_of d \<mapsto> \<lparr>pipe_id = i, pipe_ends = e\<rparr>)"
  using registry_absent[of key_of D d cs]
  by (auto simp: registry_def map_add_def fun_eq_iff split: option.split)

lemma registry_remove:
  "inj_on key_of D \<Longrightarrow> d \<in> D \<Longrightarrow> fst ` set cs \<subseteq> D \<Longrightarrow>
   registry key_of (filter (\<lambda>c. fst c \<noteq> d) cs) = (registry key_of cs)(key_of d := None)"
proof (induction cs)
  case (Cons c cs)
  have "key_of (fst c) = key_of d \<longleftrightarrow> fst c = d" using Cons.prems by (auto dest: inj_onD)
  then show ?case using Cons by (auto simp: registry_def)
qed (simp add: registry_def)

lemma pipes_ok_called [simp]: "pipes_ok key_of (called c st) s = pipes_ok key_of st s"
  by (simp add: pipes_ok_def called_def)

lemma pipe_ok:
  assumes "inj_on key_of D" "pipes_ok key_of st (n, cs)" "d \<notin> fst ` set cs" "d \<in> D" "fst ` set cs \<subseteq> D"
  shows "pipes_ok key_of (pipe_to key_of d e st) (connect (PipeTo d e) (n, cs))"
proof -
  have st: "p_next st = n" "distinct (map fst cs)" "distinct (ids cs)" "\<forall>i\<in>set (ids cs). i < n"
    "map_of (p_pipes st) = registry key_of cs" "p_data st = ids cs"
    "p_end st = ids (filter (\<lambda>c. snd (snd c)) cs)" "p_error st = ids cs"
    "\<And>d. p_drain st d = ids (filter (\<lambda>c. fst c = d) cs)"
    "\<And>d. p_destError st d = ids (filter (\<lambda>c. fst c = d) cs)"
    using assms(2) by (auto simp: pipes_ok_def)
  have "n \<notin> set (ids cs)" "\<forall>i\<in>set (ids cs). i < n + 1" using st(4) by auto
  then show ?thesis
    using assms(3) st registry_append[OF assms(1,4,5,3)]
    by (auto simp: pipe_to_def Let_def connect_def) (auto simp: pipes_ok_def update_conv')
qed

lemma unpipe_ok:
  assumes "inj_on key_of D" "pipes_ok key_of st (n, cs)" "d \<in> D" "fst ` set cs \<subseteq> D"
  shows "pipes_ok key_of (unpipe key_of d st) (connect (Unpipe d) (n, cs))"
proof -
  have st: "p_next st = n" "distinct (map fst cs)" "distinct (ids cs)" "\<forall>i\<in>set (ids cs). i < n"
    "map_of (p_pipes st) = registry key_of cs" "p_data st = ids cs"
    "p_end st = ids (filter (\<lambda>c. snd (snd c)) cs)" "p_error st = ids cs"
    "\<And>d. p_drain st d = ids (filter (\<lambda>c. fst c = d) cs)"
    "\<And>d. p_destError st d = ids (filter (\<lambda>c. fst c = d) cs)"
    using assms(2) by (auto simp: pipes_ok_def)
  show ?thesis
  proof (cases "d \<in> fst ` set cs")
    case False
    then have "filter (\<lambda>c. fst c \<noteq> d) cs = cs" by (auto simp: filter_id_conv)
    with False st(5) registry_absent[OF assms(1,3,4)] assms(2) show ?thesis by (simp add: unpipe_def connect_def)
  next
    case True
    then obtain i e where c: "(d, i, e) \<in> set cs" by auto
    define cs' where "cs' = filter (\<lambda>c. fst c \<noteq> d) cs"
    note out = unlisten_ids[OF st(3,2) c, folded cs'_def]
    have reg: "map_of (p_pipes st) (key_of d) = Some \<lparr>pipe_id = i, pipe_ends = e\<rparr>"
      by (simp add: st(5) registry_present[OF assms(1,4) st(2) c])
    have ends: "(if e then unlisten i (p_end st) else p_end st) = ids (filter (\<lambda>c. snd (snd c)) cs')"
    proof (cases e)
      case False
      then have "filter (\<lambda>c. snd (snd c)) cs' = filter (\<lambda>c. snd (snd c)) cs"
        using c st(2) by (auto simp: cs'_def distinct_map inj_on_def intro!: filter_cong)
          (metis fst_conv snd_conv)
      with False st(7) show ?thesis by simp
    qed (simp add: st(7) out)
    have others: "filter (\<lambda>c. fst c = d') cs' = (if d' = d then [] else filter (\<lambda>c. fst c = d') cs)" for d'
      by (auto simp: cs'_def filter_empty_conv intro: filter_cong)
    have "map_of (AList.delete (key_of d) (p_pipes st)) = registry key_of cs'"
      by (simp add: delete_conv' st(5) cs'_def registry_remove[OF assms(1,3,4)])
    moreover have "distinct (map fst cs')" "distinct (ids cs')" "\<forall>i\<in>set (ids cs'). i < n"
      using st(2-4) by (auto simp: cs'_def distinct_map_filter ids_def)
    moreover define X where "X = (called (EmitUnpipe d) st)\<lparr>
        p_drain := (p_drain st)(d := unlisten i (p_drain st d)), p_data := unlisten i (p_data st),
        p_end := (if e then unlisten i (p_end st) else p_end st), p_error := unlisten i (p_error st),
        p_destError := (p_destError st)(d := unlisten i (p_destError st d)),
        p_pipes := AList.delete (key_of d) (p_pipes st)\<rparr>"
    have "unlisten i (ids cs) = ids cs'" using out[of "\<lambda>_. True"] by simp
    moreover have "unlisten i (ids (filter (\<lambda>c. fst c = d) cs)) = []"
      using out[of "\<lambda>c. fst c = d"] others[of d] by simp
    ultimately have "pipes_ok key_of X (n, cs')"
      unfolding pipes_ok_def X_def using st(1,6,8-10) ends others by (simp add: called_def)
    moreover have "unpipe key_of d st = (if length (p_pipes X) = 0 then called PauseSource X else X)"
      using reg by (simp add: unpipe_def Let_def X_def called_def)
    ultimately show ?thesis by (simp add: connect_def cs'_def)
  qed
qed

text \<open>The destinations that are named in a sequence of calls.\<close>

definition destination :: "pop \<Rightarrow> nat" where
  "destination op = (case op of PipeTo d e \<Rightarrow> d | Unpipe d \<Rightarrow> d)"

text \<open>
  C24. \<^verbatim>\<open>pipe\<close> and \<^verbatim>\<open>unpipe\<close> in any order keep exactly the listeners of the destinations that are connected:
  on the source those of \<^verbatim>\<open>data\<close>, \<^verbatim>\<open>end\<close> and \<^verbatim>\<open>error\<close> in the order of connection, on every destination
  its own of \<^verbatim>\<open>drain\<close> and \<^verbatim>\<open>error\<close>; nothing is left of a destination that was disconnected.  This is for
  destinations of which no two have the same \<^verbatim>\<open>String(destination)\<close>, for example for a single one, and
  when a connected destination is not piped to again; what listens to \<^verbatim>\<open>pipe\<close> and \<^verbatim>\<open>unpipe\<close> does not pipe itself.
\<close>

theorem pipes_refine:
  assumes "inj_on key_of (destination ` set ops)" "once_each {} ops" "(n, cs) = fold connect ops (0, [])"
    "st = fold (pipe_op key_of) ops no_pipes"
  shows "p_data st = ids cs \<and> p_error st = ids cs \<and> p_end st = ids (filter (\<lambda>c. snd (snd c)) cs) \<and>
    (\<forall>d. p_drain st d = ids (filter (\<lambda>c. fst c = d) cs)) \<and>
    (\<forall>d. p_destError st d = ids (filter (\<lambda>c. fst c = d) cs)) \<and>
    map_of (p_pipes st) = registry key_of cs"
proof -
  let ?D = "destination ` set ops"
  have "pipes_ok key_of (fold (pipe_op key_of) ps st) (fold connect ps (m, ds))"
    if "pipes_ok key_of st (m, ds)" "once_each (fst ` set ds) ps" "destination ` set ps \<subseteq> ?D" "fst ` set ds \<subseteq> ?D"
    for ps st m ds
    using that
  proof (induction ps arbitrary: st m ds)
    case (Cons op ps)
    have d: "destination op \<in> ?D" using Cons.prems(3) by simp
    show ?case
    proof (cases op)
      case (PipeTo d e)
      then have "d \<notin> fst ` set ds" "d \<in> ?D" using Cons.prems(2) d by (simp_all add: destination_def)
      note ok = pipe_ok[OF assms(1) Cons.prems(1) this(1,2) Cons.prems(4), of e, unfolded connect_def prod.case pop.case]
      show ?thesis
        using Cons.IH[OF ok] Cons.prems(2-4) PipeTo \<open>d \<in> ?D\<close>
        by (simp add: pipe_op_def connect_def)
    next
      case (Unpipe d)
      then have "d \<in> ?D" using d by (simp add: destination_def)
      note ok = unpipe_ok[OF assms(1) Cons.prems(1) this Cons.prems(4), unfolded connect_def prod.case pop.case]
      have "fst ` set (filter (\<lambda>c. fst c \<noteq> d) ds) = fst ` set ds - {d}" by auto
      then show ?thesis
        using Cons.IH[OF ok] Cons.prems(2-4) Unpipe by (auto simp: pipe_op_def connect_def)
    qed
  qed simp
  moreover have "pipes_ok key_of no_pipes (0, [])" by (simp add: pipes_ok_def no_pipes_def registry_def)
  ultimately have "pipes_ok key_of st (n, cs)"
    using assms(2) by (auto simp: assms(3,4))
  then show ?thesis by (simp add: pipes_ok_def)
qed

text \<open>One destination, connected, disconnected and connected again, with the name all streams have.\<close>

theorem pipes_refine_witness:
  "p_data (fold (pipe_op (\<lambda>d. js ''[object Object]'')) [PipeTo 7 None, Unpipe 7, PipeTo 7 (Some False)] no_pipes) = [1] \<and>
   p_destError (fold (pipe_op (\<lambda>d. js ''[object Object]'')) [PipeTo 7 None, Unpipe 7, PipeTo 7 (Some False)] no_pipes) 7 = [1]"
proof -
  let ?ops = "[PipeTo 7 None, Unpipe 7, PipeTo 7 (Some False)]"
  let ?key = "\<lambda>d::nat. js ''[object Object]''"
  have "inj_on ?key (destination ` set ?ops)" by (simp add: destination_def)
  moreover have "once_each {} ?ops" by simp
  moreover have "(2, [(7, 1, False)]) = fold connect ?ops (0, [])" by (simp add: connect_def)
  ultimately have "p_data (fold (pipe_op ?key) ?ops no_pipes) = ids [(7, 1, False)] \<and>
    (\<forall>d. p_destError (fold (pipe_op ?key) ?ops no_pipes) d = ids (filter (\<lambda>c. fst c = d) [(7, 1, False)]))"
    using pipes_refine[of ?key ?ops 2 "[(7, 1, False)]", OF _ _ _ refl] by blast
  then show ?thesis by (simp del: js_Cons fold_simps)
qed

text \<open>
  Objects without a \<^verbatim>\<open>toString\<close> of their own all have the name \<^verbatim>\<open>[object Object]\<close>: the second \<^verbatim>\<open>pipe\<close>
  overwrites the first in the registry, and \<^verbatim>\<open>unpipe\<close> of the first destination takes the second pipe's
  listener off the source, leaves its own there and stops the source.
\<close>

theorem unpipe_wrong_pipe:
  assumes "key_of a = key_of b" "a \<noteq> b"
  shows "p_data (fold (pipe_op key_of) [PipeTo a None, PipeTo b None, Unpipe a] no_pipes) = [0] \<and>
    p_drain (fold (pipe_op key_of) [PipeTo a None, PipeTo b None, Unpipe a] no_pipes) b = [1] \<and>
    last (p_calls (fold (pipe_op key_of) [PipeTo a None, PipeTo b None, Unpipe a] no_pipes)) = PauseSource"
  using assms
  by (simp add: pipe_op_def pipe_to_def unpipe_def no_pipes_def called_def Let_def unlisten_def)

text \<open>
  With several destinations the last one alone decides: the source keeps flowing when the last
  destination is ready, although another one asked it to stop.
\<close>

theorem last_pipe_decides:
  "results \<noteq> [] \<Longrightarrow> fold pipe_data results flowing = last results"
  by (induction results arbitrary: flowing) (auto simp: pipe_data_def)

end
