(* ===== verification/Stream_Ends.thy ===== *)
theory Stream_Ends
  imports Readable
begin

text \<open>
  \<^verbatim>\<open>lib_js/stream.js\<close>: the class \<^verbatim>\<open>Transform\<close>, which connects the two sides of a stream, and
  \<^verbatim>\<open>finished\<close>, which reports how a stream ended.
\<close>

section \<open>Transform\<close>

text \<open>
  The fields of \<^verbatim>\<open>Transform\<close>.  \<open>t_misspelled\<close> is the property \<^verbatim>\<open>_trasformNeeded\<close> that \<^verbatim>\<open>_read\<close> sets
  instead of \<^verbatim>\<open>_transformNeeded\<close>.  The state also records the chunks given to \<^verbatim>\<open>_transform\<close>, what is
  pushed, and the callbacks of \<^verbatim>\<open>_write\<close> that were called, the first first.
\<close>

record transform =
  t_chunk :: "chunk option"
  t_encoding :: enc_arg
  t_callback :: "nat option"
  t_needed :: bool
  t_misspelled :: bool
  t_transforming :: bool
  t_given :: "(chunk \<times> enc_arg) list"
  t_pushed :: "chunk list"
  t_called :: "(nat \<times> jsval option) list"

definition transform_read :: "transform \<Rightarrow> transform" where
  "transform_read st =
     (case t_chunk st of
        None \<Rightarrow> st\<lparr>t_needed := True\<rparr>
      | Some c \<Rightarrow>
          if c = CStr [] \<or> t_transforming st then st\<lparr>t_needed := True\<rparr>
          else st\<lparr>t_misspelled := False, t_transforming := True, t_given := t_given st @ [(c, t_encoding st)]\<rparr>)"

definition transform_write :: "chunk \<Rightarrow> enc_arg \<Rightarrow> nat \<Rightarrow> transform \<Rightarrow> transform" where
  "transform_write chunk encoding callback st =
     (let st1 = st\<lparr>t_chunk := Some chunk, t_encoding := encoding, t_callback := Some callback\<rparr>
      in if t_needed st1 then transform_read st1 else st1)"

text \<open>The callback given to \<^verbatim>\<open>_transform\<close>; \<open>data\<close> is \<open>None\<close> for \<^verbatim>\<open>undefined\<close>.\<close>

definition transform_done :: "jsval option \<Rightarrow> chunk option \<Rightarrow> transform \<Rightarrow> transform" where
  "transform_done err data st =
     (let st1 = (case data of None \<Rightarrow> st | Some d \<Rightarrow> st\<lparr>t_pushed := t_pushed st @ [d]\<rparr>);
          st2 = st1\<lparr>t_transforming := False, t_chunk := None\<rparr>
      in case t_callback st2 of
           None \<Rightarrow> st2
         | Some cb \<Rightarrow> st2\<lparr>t_called := t_called st2 @ [(cb, err)]\<rparr>)"

definition new_transform :: transform where
  "new_transform = \<lparr>t_chunk = None, t_encoding = NoEncoding, t_callback = None, t_needed = False,
     t_misspelled = False, t_transforming = False, t_given = [], t_pushed = [], t_called = []\<rparr>"

text \<open>
  The two sides call in any order, but \<^verbatim>\<open>Writable\<close> writes the next chunk only after the callback of
  the one before, a transformation answers once, and the empty string, which \<^verbatim>\<open>_read\<close> takes for no
  chunk, is not written.
\<close>

inductive treach :: "transform \<Rightarrow> (chunk \<times> enc_arg \<times> nat) list \<Rightarrow> bool" where
  treach_new: "treach new_transform []"
| treach_read: "treach st ws \<Longrightarrow> treach (transform_read st) ws"
| treach_write: "treach st ws \<Longrightarrow> t_chunk st = None \<Longrightarrow> c \<noteq> CStr [] \<Longrightarrow>
    treach (transform_write c e cb st) (ws @ [(c, e, cb)])"
| treach_done: "treach st ws \<Longrightarrow> t_transforming st \<Longrightarrow> treach (transform_done err data st) ws"

text \<open>
  \<^verbatim>\<open>Transform\<close> gives every chunk written to \<^verbatim>\<open>_transform\<close> once, in order and with its encoding, except
  for at most one that waits for a read; the callbacks of the writes are called once each, in order,
  and the one still missing is that of the chunk in work or waiting.
\<close>

theorem transform_in_order:
  assumes "treach st ws"
  shows "\<exists>waiting.
    map (\<lambda>(c, e, cb). (c, e)) ws = t_given st @ waiting \<and>
    (waiting = [] \<or> (\<not> t_needed st \<and> \<not> t_transforming st \<and> waiting = [(the (t_chunk st), t_encoding st)])) \<and>
    map fst (t_called st) = map (\<lambda>(c, e, cb). cb) (if t_chunk st = None then ws else butlast ws)"
proof -
  have "\<exists>waiting.
    map (\<lambda>(c, e, cb). (c, e)) ws = t_given st @ waiting \<and>
    (waiting = [] \<or> (\<not> t_needed st \<and> \<not> t_transforming st \<and> waiting = [(the (t_chunk st), t_encoding st)])) \<and>
    map fst (t_called st) = map (\<lambda>(c, e, cb). cb) (if t_chunk st = None then ws else butlast ws) \<and>
    (t_chunk st = None \<longrightarrow> waiting = [] \<and> \<not> t_transforming st) \<and> t_chunk st \<noteq> Some (CStr []) \<and>
    (t_chunk st \<noteq> None \<longrightarrow> ws \<noteq> [] \<and> t_callback st = Some (snd (snd (last ws))) \<and>
       (t_transforming st = (waiting = [])))"
    using assms
  proof (induction rule: treach.induct)
    case (treach_read st ws)
    then show ?case by (auto simp: transform_read_def split: option.splits)
  next
    case (treach_write st ws c e cb)
    then show ?case by (auto simp: transform_write_def transform_read_def Let_def)
  next
    case (treach_done st ws err data)
    then obtain c where "t_chunk st = Some c" by (cases "t_chunk st") auto
    with treach_done show ?case
      by (cases ws rule: rev_cases)
        (auto simp: transform_done_def Let_def split: option.splits)
  qed (simp add: new_transform_def)
  then show ?thesis by blast
qed

theorem transform_in_order_witness:
  "\<exists>waiting. [(CStr (js ''a''), NoEncoding), (CStr (js ''b''), NoEncoding)] =
     t_given (transform_write (CStr (js ''b'')) NoEncoding 8 (transform_done None None
       (transform_read (transform_write (CStr (js ''a'')) NoEncoding 7 new_transform)))) @ waiting"
proof -
  let ?st1 = "transform_read (transform_write (CStr (js ''a'')) NoEncoding 7 new_transform)"
  have "treach ?st1 ([] @ [(CStr (js ''a''), NoEncoding, 7)])"
    by (intro treach_read treach_write treach_new) (simp_all add: new_transform_def)
  moreover have "t_transforming ?st1"
    by (simp add: transform_read_def transform_write_def new_transform_def)
  ultimately have ended: "treach (transform_done None None ?st1) ([] @ [(CStr (js ''a''), NoEncoding, 7)])"
    by (rule treach_done)
  have "t_chunk (transform_done None None ?st1) = None"
    by (simp add: transform_done_def Let_def split: option.split)
  from transform_in_order[OF treach_write[OF ended this, of "CStr (js ''b'')" NoEncoding 8]]
  obtain waiting where "map (\<lambda>(c, e, cb). (c, e))
      (([] @ [(CStr (js ''a''), NoEncoding, 7)]) @ [(CStr (js ''b''), NoEncoding, 8)]) =
    t_given (transform_write (CStr (js ''b'')) NoEncoding 8 (transform_done None None ?st1)) @ waiting"
    by auto
  then show ?thesis by (intro exI[of _ waiting]) simp
qed

text \<open>
  \<^verbatim>\<open>_read\<close> means to clear \<^verbatim>\<open>_transformNeeded\<close> and misspells it: after the first request that found no
  chunk the flag stays set for good, and every chunk is transformed at once, wanted or not.
\<close>

theorem needed_for_good:
  assumes "t_needed st"
  shows "t_needed (transform_read st)" "t_needed (transform_done err data st)"
    "\<not> t_transforming st \<Longrightarrow> c \<noteq> CStr [] \<Longrightarrow> t_given (transform_write c e cb st) = t_given st @ [(c, e)]"
  using assms
  by (auto simp: transform_read_def transform_done_def transform_write_def Let_def split: option.split)

text \<open>\<^verbatim>\<open>PassThrough\<close> answers with the chunk itself.\<close>

inductive passes :: "transform \<Rightarrow> chunk list \<Rightarrow> bool" where
  passes_new: "passes new_transform []"
| passes_read: "passes st cs \<Longrightarrow> passes (transform_read st) cs"
| passes_write: "passes st cs \<Longrightarrow> t_chunk st = None \<Longrightarrow> passes (transform_write c e cb st) (cs @ [c])"
| passes_done: "passes st cs \<Longrightarrow> t_transforming st \<Longrightarrow> passes (transform_done None (t_chunk st) st) cs"

text \<open>
  A \<^verbatim>\<open>PassThrough\<close> pushes the chunks it is given, in order; at most one is still inside.
\<close>

theorem passthrough_identity:
  assumes "passes st cs"
  shows "cs = t_pushed st @ (case t_chunk st of None \<Rightarrow> [] | Some c \<Rightarrow> [c])"
proof -
  have "cs = t_pushed st @ (case t_chunk st of None \<Rightarrow> [] | Some c \<Rightarrow> [c]) \<and>
      (t_transforming st \<longrightarrow> t_chunk st \<noteq> None)"
    using assms
  proof (induction rule: passes.induct)
    case (passes_done st cs)
    then show ?case by (auto simp: transform_done_def Let_def split: option.splits)
  qed (auto simp: new_transform_def transform_read_def transform_write_def Let_def split: option.splits)
  then show ?thesis by blast
qed

theorem passthrough_identity_witness:
  "t_pushed (transform_done None (Some (CStr (js ''a'')))
     (transform_read (transform_write (CStr (js ''a'')) NoEncoding 7 new_transform))) = [CStr (js ''a'')]"
proof -
  let ?st = "transform_read (transform_write (CStr (js ''a'')) NoEncoding 7 new_transform)"
  have st: "t_chunk ?st = Some (CStr (js ''a''))" "t_transforming ?st"
    by (simp_all add: transform_read_def transform_write_def new_transform_def)
  have "passes ?st ([] @ [CStr (js ''a'')])"
    by (intro passes_read passes_write passes_new) (simp add: new_transform_def)
  from passthrough_identity[OF passes_done[OF this st(2)]]
  have "[CStr (js ''a'')] = t_pushed (transform_done None (Some (CStr (js ''a''))) ?st) @
      (case t_chunk (transform_done None (Some (CStr (js ''a''))) ?st) of None \<Rightarrow> [] | Some c \<Rightarrow> [c])"
    unfolding st(1) by simp
  moreover have "t_chunk (transform_done None data st') = None" for data st'
    by (simp add: transform_done_def Let_def split: option.split)
  ultimately show ?thesis by simp
qed

section \<open>\<^verbatim>\<open>finished\<close>\<close>

text \<open>
  The variables of \<^verbatim>\<open>finished\<close>; \<open>f_called\<close> is the variable of \<^verbatim>\<open>once\<close>, \<open>f_result\<close> what the callback was
  called with, each time.  A stream says when it closes whether its sides had reached their end.
\<close>

datatype ferr = NoError | StreamError jsval | ERR_STREAM_PREMATURE_CLOSE

record finishing =
  f_readable :: bool
  f_writable :: bool
  f_called :: bool
  f_result :: "ferr list"

datatype fevent = FFinish | FEnd | FError jsval | FClose bool bool

definition once_call :: "ferr \<Rightarrow> finishing \<Rightarrow> finishing" where
  "once_call e st = (if f_called st then st else st\<lparr>f_called := True, f_result := f_result st @ [e]\<rparr>)"

definition onfinish :: "finishing \<Rightarrow> finishing" where
  "onfinish st = (let st1 = st\<lparr>f_writable := False\<rparr> in if \<not> f_readable st1 then once_call NoError st1 else st1)"

definition onend_finished :: "finishing \<Rightarrow> finishing" where
  "onend_finished st =
     (let st1 = st\<lparr>f_readable := False\<rparr> in if \<not> f_writable st1 then once_call NoError st1 else st1)"

definition onclose :: "bool \<Rightarrow> bool \<Rightarrow> finishing \<Rightarrow> finishing" where
  "onclose readableEOF writableEOF st =
     (if f_readable st \<and> \<not> readableEOF then once_call ERR_STREAM_PREMATURE_CLOSE st
      else if f_writable st \<and> \<not> writableEOF then once_call ERR_STREAM_PREMATURE_CLOSE st
      else st)"

definition finished_event :: "bool \<Rightarrow> fevent \<Rightarrow> finishing \<Rightarrow> finishing" where
  "finished_event errors ev st =
     (case ev of
        FFinish \<Rightarrow> onfinish st
      | FEnd \<Rightarrow> onend_finished st
      | FError v \<Rightarrow> if errors then once_call (StreamError v) st else st
      | FClose r w \<Rightarrow> onclose r w st)"

text \<open>\<^verbatim>\<open>opts.readable || (opts.readable !== false && stream.readable)\<close>, and the same for \<^verbatim>\<open>writable\<close>.\<close>

definition waits_for :: "bool option \<Rightarrow> bool \<Rightarrow> bool" where
  "waits_for opt side = (case opt of Some b \<Rightarrow> b | None \<Rightarrow> side)"

definition finished :: "bool option \<Rightarrow> bool option \<Rightarrow> bool \<Rightarrow> bool \<Rightarrow> finishing" where
  "finished opt_readable opt_writable readable writable =
     \<lparr>f_readable = waits_for opt_readable readable, f_writable = waits_for opt_writable writable,
      f_called = False, f_result = []\<rparr>"

text \<open>
  The specification: the first event that decides.  \<open>r\<close> and \<open>w\<close>: the sides still awaited.
\<close>

fun first_decision :: "bool \<Rightarrow> bool \<Rightarrow> bool \<Rightarrow> fevent list \<Rightarrow> ferr option" where
  "first_decision errors r w [] = None"
| "first_decision errors r w (FFinish # evs) = (if r then first_decision errors r False evs else Some NoError)"
| "first_decision errors r w (FEnd # evs) = (if w then first_decision errors False w evs else Some NoError)"
| "first_decision errors r w (FError v # evs) =
     (if errors then Some (StreamError v) else first_decision errors r w evs)"
| "first_decision errors r w (FClose r' w' # evs) =
     (if r \<and> \<not> r' \<or> w \<and> \<not> w' then Some ERR_STREAM_PREMATURE_CLOSE else first_decision errors r w evs)"

lemma called_stays: "f_called st \<Longrightarrow> f_result (fold (finished_event errors) evs st) = f_result st"
proof (induction evs arbitrary: st)
  case (Cons ev evs)
  have "f_called (finished_event errors ev st) \<and> f_result (finished_event errors ev st) = f_result st"
    using Cons.prems
    by (auto simp: finished_event_def onfinish_def onend_finished_def onclose_def once_call_def Let_def
        split: fevent.split)
  then show ?case using Cons.IH by simp
qed simp

lemma finished_decides:
  assumes "\<not> f_called st" "f_result st = []" "st' = finished_event errors ev st"
  shows "(f_called st' \<and> (\<exists>e. f_result st' = [e] \<and>
      (\<forall>evs. first_decision errors (f_readable st) (f_writable st) (ev # evs) = Some e))) \<or>
    (\<not> f_called st' \<and> f_result st' = [] \<and>
      (\<forall>evs. first_decision errors (f_readable st) (f_writable st) (ev # evs) =
         first_decision errors (f_readable st') (f_writable st') evs))"
  using assms
  by (cases ev)
    (auto simp: finished_event_def onfinish_def onend_finished_def onclose_def once_call_def Let_def)

text \<open>
  C28. The callback of \<^verbatim>\<open>finished\<close> is called at most once, at the first event that decides: without an
  error when the last side awaited has ended, with the error of the stream, or with a premature
  close when the stream closes before a side awaited has reached its end.
\<close>

theorem finished_once:
  "f_result (fold (finished_event errors) evs (finished ro wo r w)) =
   (case first_decision errors (waits_for ro r) (waits_for wo w) evs of None \<Rightarrow> [] | Some e \<Rightarrow> [e])"
proof -
  have "\<not> f_called st \<Longrightarrow> f_result st = [] \<Longrightarrow>
    f_result (fold (finished_event errors) evs st) =
    (case first_decision errors (f_readable st) (f_writable st) evs of None \<Rightarrow> [] | Some e \<Rightarrow> [e])" for st
  proof (induction evs arbitrary: st)
    case (Cons ev evs)
    define st' where "st' = finished_event errors ev st"
    from finished_decides[OF Cons.prems st'_def] show ?case
      using Cons.IH[of st'] called_stays[of st' errors evs] by (auto simp: st'_def[symmetric])
  qed simp
  then show ?thesis by (simp add: finished_def)
qed

end
