(* ===== verification/Deep_Equal.thy ===== *)
theory Deep_Equal
  imports Js_Effects
begin

text \<open>
  \<^verbatim>\<open>lib_js/internal/util/comparisons.js\<close>: the deep comparison of \<^verbatim>\<open>assert.deepEqual\<close> and
  \<^verbatim>\<open>assert.deepStrictEqual\<close>.  Objects are addresses in a heap; an object holds what the comparison
  reads of it.  The memos that detect cycles are a state that the calls thread; \<open>deep\<close> ties the
  knot with fuel, because the recursion may not end.
\<close>

section \<open>Values and objects\<close>

datatype dval =
    VUndef
  | VNull
  | VBool bool
  | VNum jsnum
  | VNegZero
  | VStr jsstr
  | VSym nat
  | VFun nat
  | VObj nat

text \<open>
  What an object is for the native type tests.  A view of an array buffer (with its bytes) is a
  typed array, which has a length.
\<close>

datatype dclass =
    Plain
  | Date dval
  | RegExp jsstr jsstr
  | View "nat list"
  | SetOf "dval list"
  | MapOf "(dval \<times> dval) list"

datatype dkey = KStr jsstr | KSym nat

text \<open>
  \<open>d_props\<close>: the own enumerable properties with string keys, in order; \<open>d_syms\<close>: the own properties
  with symbol keys and whether they are enumerable; \<open>d_other\<close>: the value a lookup of any other key
  gives (a property that is not enumerable, or inherited).  \<open>d_valueOf\<close>: the result of \<^verbatim>\<open>valueOf\<close>,
  \<open>None\<close> when there is no such method.
\<close>

record dobj =
  d_tag :: jsstr
  d_proto :: "nat option"
  d_class :: dclass
  d_length :: nat
  d_isError :: bool
  d_message :: dval
  d_name :: dval
  d_valueOf :: "dval option"
  d_props :: "(jsstr \<times> dval) list"
  d_syms :: "(nat \<times> bool \<times> dval) list"
  d_other :: "dkey \<Rightarrow> dval"

text \<open>
  The surroundings: the heap, the names that \<^verbatim>\<open>Object.prototype\<close> has, the native comparison of
  bytes, the conversions between strings and numbers, and \<^verbatim>\<open>==\<close> with a function.
\<close>

record denv =
  e_heap :: "nat \<Rightarrow> dobj"
  e_onPrototype :: "dkey \<Rightarrow> bool"
  e_compare :: "nat list \<Rightarrow> nat list \<Rightarrow> int"
  e_numToStr :: "dval \<Rightarrow> jsstr"
  e_strToNum :: "jsstr \<Rightarrow> dval"
  e_looseFun :: "dval \<Rightarrow> dval \<Rightarrow> bool"

definition get :: "dobj \<Rightarrow> dkey \<Rightarrow> dval" where
  "get ob k =
     (case k of
        KStr s \<Rightarrow> (case map_of (d_props ob) s of Some v \<Rightarrow> v | None \<Rightarrow> d_other ob k)
      | KSym n \<Rightarrow> (case map_of (d_syms ob) n of Some (_, v) \<Rightarrow> v | None \<Rightarrow> d_other ob k))"

section \<open>Primitive comparisons\<close>

definition is_number :: "dval \<Rightarrow> bool" where
  "is_number v \<longleftrightarrow> v = VNegZero \<or> (\<exists>n. v = VNum n)"

lemma is_number_code [code]:
  "is_number v = (case v of VNegZero \<Rightarrow> True | VNum n \<Rightarrow> True | _ \<Rightarrow> False)"
  by (cases v) (auto simp: is_number_def)

definition is_zero :: "dval \<Rightarrow> bool" where
  "is_zero v \<longleftrightarrow> v = VNegZero \<or> v = VNum (Fin 0)"

definition is_nan :: "dval \<Rightarrow> bool" where
  "is_nan v \<longleftrightarrow> v = VNum NotANumber"

text \<open>\<^verbatim>\<open>===\<close>, \<^verbatim>\<open>Object.is\<close>, and the comparison of \<^verbatim>\<open>Set\<close> and \<^verbatim>\<open>Map\<close>.\<close>

definition strict_eq :: "dval \<Rightarrow> dval \<Rightarrow> bool" where
  "strict_eq v w \<longleftrightarrow> (is_zero v \<and> is_zero w) \<or> (v = w \<and> \<not> is_nan v)"

definition object_is :: "dval \<Rightarrow> dval \<Rightarrow> bool" where
  "object_is v w \<longleftrightarrow> v = w"

definition same_zero :: "dval \<Rightarrow> dval \<Rightarrow> bool" where
  "same_zero v w \<longleftrightarrow> strict_eq v w \<or> (is_nan v \<and> is_nan w)"

text \<open>\<^verbatim>\<open>typeof v === 'object' && v !== null\<close>.\<close>

definition is_object :: "dval \<Rightarrow> bool" where
  "is_object v = (case v of VObj a \<Rightarrow> True | _ \<Rightarrow> False)"

definition num_of :: "denv \<Rightarrow> dval \<Rightarrow> dval" where
  "num_of env v =
     (case v of
        VBool b \<Rightarrow> VNum (Fin (if b then 1 else 0))
      | VStr s \<Rightarrow> e_strToNum env s
      | _ \<Rightarrow> v)"

text \<open>\<^verbatim>\<open>==\<close> of two values that are not objects.\<close>

definition loose_eq :: "denv \<Rightarrow> dval \<Rightarrow> dval \<Rightarrow> bool" where
  "loose_eq env v w =
     (let nullish = (\<lambda>x. x = VUndef \<or> x = VNull);
          numeric = (\<lambda>x. is_number x \<or> (case x of VBool b \<Rightarrow> True | VStr s \<Rightarrow> True | _ \<Rightarrow> False))
      in if nullish v \<or> nullish w then nullish v \<and> nullish w
         else if (case v of VFun n \<Rightarrow> True | _ \<Rightarrow> False) \<noteq> (case w of VFun n \<Rightarrow> True | _ \<Rightarrow> False)
           then e_looseFun env v w
         else (case (v, w) of
                 (VStr s, VStr t) \<Rightarrow> s = t
               | _ \<Rightarrow> if numeric v \<and> numeric w then strict_eq (num_of env v) (num_of env w)
                      else strict_eq v w))"

section \<open>Loops\<close>

text \<open>
  The state: the memos, \<^verbatim>\<open>undefined\<close> or the positions of the objects in progress on either side and
  the position counter.
\<close>

type_synonym memos = "((nat \<Rightarrow> nat option) \<times> (nat \<Rightarrow> nat option) \<times> nat) option"
type_synonym deep_run = "bool \<Rightarrow> dval \<Rightarrow> dval \<Rightarrow> memos \<Rightarrow> memos outcome"

text \<open>A loop that returns \<^verbatim>\<open>false\<close> at the first element whose test fails.\<close>

fun each :: "('a \<Rightarrow> 's \<Rightarrow> 's outcome) \<Rightarrow> 'a list \<Rightarrow> 's \<Rightarrow> 's outcome" where
  "each f [] st = return_to True st"
| "each f (x # xs) st = and_then (f x st) (\<lambda>b st1. if b then each f xs st1 else return_to False st1)"

definition both :: "'s outcome \<Rightarrow> ('s \<Rightarrow> 's outcome) \<Rightarrow> 's outcome" where
  "both m f = and_then m (\<lambda>b st. if b then f st else return_to False st)"

text \<open>A call that leaves the second part of the state alone.\<close>

definition on_first :: "('s \<Rightarrow> 's outcome) \<Rightarrow> 's \<times> 't \<Rightarrow> ('s \<times> 't) outcome" where
  "on_first f st = map_option (\<lambda>(r, s). (r, (s, snd st))) (f (fst st))"

definition run_first :: "('s \<times> 't) outcome \<Rightarrow> 's outcome" where
  "run_first m = map_option (\<lambda>(r, st). (r, fst st)) m"

text \<open>
  \<^verbatim>\<open>for (const x of set) if (...) { set.delete(x); return true; } return false;\<close> where the set is the
  second part of the state; \<open>seen\<close> are the elements before.
\<close>

fun find_remove ::
  "('a \<Rightarrow> 's \<Rightarrow> 's outcome) \<Rightarrow> 'a list \<Rightarrow> 'a list \<Rightarrow> 's \<times> 'a list \<Rightarrow> ('s \<times> 'a list) outcome"
where
  "find_remove test seen [] st = return_to False st"
| "find_remove test seen (x # rest) st =
     and_then (on_first (test x) st) (\<lambda>b st1.
       if b then return_to True (fst st1, seen @ rest)
       else find_remove test (seen @ [x]) rest st1)"

definition has_equal :: "('a \<Rightarrow> 's \<Rightarrow> 's outcome) \<Rightarrow> 's \<times> 'a list \<Rightarrow> ('s \<times> 'a list) outcome" where
  "has_equal test st = find_remove test [] (snd st) st"

section \<open>Sets and maps\<close>

definition set_has :: "dval list \<Rightarrow> dval \<Rightarrow> bool" where
  "set_has s v = list_ex (same_zero v) s"

definition set_add :: "dval \<Rightarrow> dval list \<Rightarrow> dval list" where
  "set_add v s = (if set_has s v then s else s @ [v])"

definition map_has :: "(dval \<times> dval) list \<Rightarrow> dval \<Rightarrow> bool" where
  "map_has m k = list_ex (\<lambda>(k', _). same_zero k k') m"

definition map_get :: "(dval \<times> dval) list \<Rightarrow> dval \<Rightarrow> dval" where
  "map_get m k = (case find (\<lambda>(k', _). same_zero k k') m of Some (_, v) \<Rightarrow> v | None \<Rightarrow> VUndef)"

definition boolean_of :: "dval \<Rightarrow> dval list" where
  "boolean_of v =
     (if v = VNum (Fin 1) then [VBool True] else if is_zero v then [VBool False] else [])"

definition findLooseMatchingPrimitives :: "denv \<Rightarrow> dval \<Rightarrow> dval list option" where
  "findLooseMatchingPrimitives env prim =
     (case prim of
        VNum n \<Rightarrow> Some (VStr (e_numToStr env prim) # boolean_of prim)
      | VNegZero \<Rightarrow> Some (VStr (e_numToStr env prim) # boolean_of prim)
      | VStr s \<Rightarrow>
          (let number = e_strToNum env s
           in if e_numToStr env number = s then Some (number # boolean_of number) else None)
      | VUndef \<Rightarrow> Some [VNull]
      | VNull \<Rightarrow> Some [VUndef]
      | VObj a \<Rightarrow> Some [VUndef]
      | VBool b \<Rightarrow>
          (let number = VNum (Fin (if b then 1 else 0)) in Some [number, VStr (e_numToStr env number)])
      | VSym n \<Rightarrow> None
      | VFun n \<Rightarrow> None)"

definition count_if :: "bool \<Rightarrow> int" where
  "count_if b = (if b then 1 else 0)"

definition setHasLoosePrim :: "denv \<Rightarrow> dval list \<Rightarrow> dval list \<Rightarrow> dval \<Rightarrow> bool" where
  "setHasLoosePrim env a b val =
     (case findLooseMatchingPrimitives env val of
        None \<Rightarrow> False
      | Some alt \<Rightarrow>
          fold (\<lambda>v matches. matches - count_if (set_has b v) + count_if (set_has a v)) alt 1 = 0)"

text \<open>\<^verbatim>\<open>setHasEqualElement\<close>: the set is the second part of the state.\<close>

definition setHasEqualElement ::
  "deep_run \<Rightarrow> bool \<Rightarrow> dval \<Rightarrow> memos \<times> dval list \<Rightarrow> (memos \<times> dval list) outcome"
where
  "setHasEqualElement rec strict val1 st = has_equal (\<lambda>val2. rec strict val1 val2) st"

definition setEquiv ::
  "denv \<Rightarrow> deep_run \<Rightarrow> dval list \<Rightarrow> dval list \<Rightarrow> bool \<Rightarrow> memos \<Rightarrow> memos outcome"
where
  "setEquiv env rec a b strict memo =
     (if length a \<noteq> length b then return_to False memo
      else if list_ex (\<lambda>val. \<not> is_object val \<and> \<not> set_has b val \<and>
                         (strict \<or> \<not> setHasLoosePrim env a b val)) a
      then return_to False memo
      else
        (let objects = filter is_object a in
         if objects = [] then return_to True memo
         else run_first
           (each (\<lambda>val st.
               if is_object val then setHasEqualElement rec strict val st
               else return_to (set_has a val \<or> (\<not> strict \<and> setHasLoosePrim env b a val)) st)
             b (memo, objects))))"

definition mapHasLoosePrim ::
  "denv \<Rightarrow> deep_run \<Rightarrow> (dval \<times> dval) list \<Rightarrow> (dval \<times> dval) list \<Rightarrow> dval \<Rightarrow> dval \<Rightarrow> dval \<Rightarrow>
   memos \<Rightarrow> memos outcome"
where
  "mapHasLoosePrim env rec a b key1 item1 item2 memo =
     (case findLooseMatchingPrimitives env key1 of
        None \<Rightarrow> return_to False memo
      | Some altKeys \<Rightarrow>
          (let start = (if map_has b key1 then (0, [item1], [item2]) else (1::int, [item1], []));
               (keyCount, setA, setB) =
                 fold (\<lambda>key2 (n, sa, sb).
                     (n + count_if (map_has a key2) - count_if (map_has b key2),
                      if map_has a key2 then set_add (map_get a key2) sa else sa,
                      if map_has b key2 then set_add (map_get b key2) sb else sb))
                   altKeys start
           in if keyCount \<noteq> 0 \<or> length setA \<noteq> length setB then return_to False memo
              else run_first
                (each (\<lambda>val st.
                    if is_object val then setHasEqualElement rec False val st
                    else return_to (set_has (snd st) val \<or> setHasLoosePrim env setA (snd st) val) st)
                  setA (memo, setB))))"

text \<open>\<^verbatim>\<open>mapHasEqualEntry\<close>: the set of keys is the second part of the state.\<close>

definition mapHasEqualEntry ::
  "deep_run \<Rightarrow> (dval \<times> dval) list \<Rightarrow> dval \<Rightarrow> dval \<Rightarrow> bool \<Rightarrow>
   memos \<times> dval list \<Rightarrow> (memos \<times> dval list) outcome"
where
  "mapHasEqualEntry rec m key1 item1 strict st =
     has_equal (\<lambda>key2 memo. both (rec strict key1 key2 memo)
       (\<lambda>memo1. rec strict item1 (map_get m key2) memo1)) st"

definition mapEquiv ::
  "denv \<Rightarrow> deep_run \<Rightarrow> (dval \<times> dval) list \<Rightarrow> (dval \<times> dval) list \<Rightarrow> bool \<Rightarrow> memos \<Rightarrow> memos outcome"
where
  "mapEquiv env rec a b strict memo =
     (if length a \<noteq> length b then return_to False memo
      else
        both
          (each (\<lambda>(key, item1) memo.
              if is_object key then return_to True memo
              else
                (let item2 = map_get b key;
                     found = (if item2 = VUndef \<and> \<not> map_has b key then return_to False memo
                              else rec strict item1 item2 memo)
                 in and_then found (\<lambda>ok memo1.
                      if ok then return_to True memo1
                      else if strict then return_to False memo1
                      else mapHasLoosePrim env rec a b key item1 item2 memo1)))
            a memo)
          (\<lambda>memo1.
            let objects = filter is_object (map fst a) in
            if objects = [] then return_to True memo1
            else run_first
              (each (\<lambda>(key, item) st.
                  if is_object key then mapHasEqualEntry rec a key item strict st
                  else if map_has a key then return_to True st
                  else if strict then return_to False st
                  else on_first (mapHasLoosePrim env rec b a key item VUndef) st)
                b (memo1, objects))))"

section \<open>Objects\<close>

definition objEquiv ::
  "denv \<Rightarrow> deep_run \<Rightarrow> dobj \<Rightarrow> dobj \<Rightarrow> bool \<Rightarrow> dkey list \<Rightarrow> memos \<Rightarrow> memos outcome"
where
  "objEquiv env rec a b strict keys memos =
     both
       (case d_class a of
          SetOf xs \<Rightarrow> (case d_class b of SetOf ys \<Rightarrow> setEquiv env rec xs ys strict memos | _ \<Rightarrow> return_to False memos)
        | MapOf xs \<Rightarrow> (case d_class b of MapOf ys \<Rightarrow> mapEquiv env rec xs ys strict memos | _ \<Rightarrow> return_to False memos)
        | _ \<Rightarrow> return_to (case d_class b of SetOf ys \<Rightarrow> False | MapOf ys \<Rightarrow> False | _ \<Rightarrow> True) memos)
       (each (\<lambda>key. rec strict (get a key) (get b key)) keys)"

definition enumerable_symbols :: "dobj \<Rightarrow> nat list" where
  "enumerable_symbols ob = map fst (filter (\<lambda>(n, e, v). e) (d_syms ob))"

text \<open>
  The keys to compare: \<open>Inl result\<close> when the test of the numbers of keys decides.  \<open>lengths\<close> are the
  arguments \<^verbatim>\<open>lengthA\<close> and \<^verbatim>\<open>lengthB\<close>.
\<close>

definition keys_to_check ::
  "dobj \<Rightarrow> dobj \<Rightarrow> bool \<Rightarrow> (nat \<times> nat) option \<Rightarrow> bool + (dkey list \<times> dkey list)"
where
  "keys_to_check a b strict lengths =
     (let aKeys = map (KStr \<circ> fst) (d_props a); bKeys = map (KStr \<circ> fst) (d_props b) in
      if length aKeys \<noteq> length bKeys then Inl False
      else if \<not> strict then Inr (aKeys, bKeys)
      else
        (let symsA = enumerable_symbols a; symsB = enumerable_symbols b;
             differ = (if d_syms a \<noteq> [] then length symsA \<noteq> length symsB else symsB \<noteq> [])
         in if differ then Inl False
            else
              (case lengths of
                 Some (lengthA, lengthB) \<Rightarrow>
                   if length aKeys \<noteq> lengthA \<or> length bKeys \<noteq> lengthB then Inl False
                   else if symsA = [] then Inl True
                   else Inr (map KSym symsA, map KSym symsB)
               | None \<Rightarrow> Inr (aKeys @ map KSym symsA, bKeys @ map KSym symsB))))"

text \<open>\<^verbatim>\<open>const keys = {}\<close> has the names of \<^verbatim>\<open>Object.prototype\<close> as well.\<close>

definition same_keys :: "denv \<Rightarrow> dkey list \<Rightarrow> dkey list \<Rightarrow> bool" where
  "same_keys env aKeys bKeys \<longleftrightarrow> list_all (\<lambda>k. k \<in> set aKeys \<or> e_onPrototype env k) bKeys"

definition compare_in_progress ::
  "denv \<Rightarrow> deep_run \<Rightarrow> nat \<Rightarrow> nat \<Rightarrow> bool \<Rightarrow> dkey list \<Rightarrow>
   (nat \<Rightarrow> nat option) \<times> (nat \<Rightarrow> nat option) \<times> nat \<Rightarrow> memos outcome"
where
  "compare_in_progress env rec a1 a2 strict aKeys memos =
     (case memos of (m1, m2, position) \<Rightarrow>
        and_then
          (objEquiv env rec (e_heap env a1) (e_heap env a2) strict aKeys
             (Some (m1(a1 \<mapsto> position), m2(a2 \<mapsto> position), position)))
          (\<lambda>areEq after.
             return_to areEq
               (case after of
                  None \<Rightarrow> None
                | Some (n1, n2, p) \<Rightarrow> Some (n1(a1 := None), n2(a2 := None), p))))"

definition keyCheck ::
  "denv \<Rightarrow> deep_run \<Rightarrow> nat \<Rightarrow> nat \<Rightarrow> bool \<Rightarrow> (nat \<times> nat) option \<Rightarrow> memos \<Rightarrow> memos outcome"
where
  "keyCheck env rec a1 a2 strict lengths memos =
     (case keys_to_check (e_heap env a1) (e_heap env a2) strict lengths of
        Inl result \<Rightarrow> return_to result memos
      | Inr (aKeys, bKeys) \<Rightarrow>
          if \<not> same_keys env aKeys bKeys then return_to False memos
          else
            (case memos of
               None \<Rightarrow>
                 map_option (\<lambda>(r, _). (r, None))
                   (compare_in_progress env rec a1 a2 strict aKeys (Map.empty, Map.empty, 0))
             | Some (m1, m2, position) \<Rightarrow>
                 (case (m1 a1, m2 a2) of
                    (Some p1, Some p2) \<Rightarrow> return_to (p1 = p2) memos
                  | _ \<Rightarrow> compare_in_progress env rec a1 a2 strict aKeys (m1, m2, position + 1))))"

section \<open>The two comparisons\<close>

definition areSimilarRegExps :: "dobj \<Rightarrow> dobj \<Rightarrow> bool" where
  "areSimilarRegExps a b =
     (case (d_class a, d_class b) of (RegExp s f, RegExp t g) \<Rightarrow> s = t \<and> f = g | _ \<Rightarrow> False)"

definition areSimilarTypedArrays :: "denv \<Rightarrow> dobj \<Rightarrow> dobj \<Rightarrow> bool" where
  "areSimilarTypedArrays env a b =
     (case (d_class a, d_class b) of
        (View s, View t) \<Rightarrow> length s = length t \<and> e_compare env s t = 0
      | _ \<Rightarrow> False)"

definition isArguments :: "jsstr \<Rightarrow> bool" where
  "isArguments tag \<longleftrightarrow> tag = js ''[object Arguments]''"

definition isObjectOrArrayTag :: "jsstr \<Rightarrow> bool" where
  "isObjectOrArrayTag tag \<longleftrightarrow> tag = js ''[object Array]'' \<or> tag = js ''[object Object]''"

definition value_length :: "dobj \<Rightarrow> dval \<Rightarrow> nat" where
  "value_length ob v = (case v of VStr s \<Rightarrow> d_length ob | _ \<Rightarrow> 0)"

text \<open>The branch with \<^verbatim>\<open>valueOf\<close>: a boxed primitive, or an object that is its own value.\<close>

definition strict_value ::
  "denv \<Rightarrow> deep_run \<Rightarrow> nat \<Rightarrow> nat \<Rightarrow> memos \<Rightarrow> memos outcome"
where
  "strict_value env rec a1 a2 memos =
     (let x = e_heap env a1; y = e_heap env a2 in
      case d_valueOf x of
        None \<Rightarrow> keyCheck env rec a1 a2 True None memos
      | Some v \<Rightarrow>
          if strict_eq v (VObj a1) then keyCheck env rec a1 a2 True None memos
          else
            (case d_valueOf y of
               None \<Rightarrow> throw TypeError memos
             | Some w \<Rightarrow>
                 both (map_option (\<lambda>(r, _). (r, memos)) (rec True v w None))
                   (keyCheck env rec a1 a2 True
                      (Some (value_length x v, case v of VStr s \<Rightarrow> d_length y | _ \<Rightarrow> 0)))))"

definition strictDeepEqual :: "denv \<Rightarrow> deep_run \<Rightarrow> dval \<Rightarrow> dval \<Rightarrow> memos \<Rightarrow> memos outcome" where
  "strictDeepEqual env rec val1 val2 memos =
     (case (val1, val2) of
        (VObj a1, VObj a2) \<Rightarrow>
          (let x = e_heap env a1; y = e_heap env a2 in
           if d_tag x \<noteq> d_tag y \<or> d_proto x \<noteq> d_proto y then return_to False memos
           else if d_tag x = js ''[object Array]'' then
             (if d_length x \<noteq> d_length y then return_to False memos
              else keyCheck env rec a1 a2 True None memos)
           else if d_tag x = js ''[object Object]'' then keyCheck env rec a1 a2 True None memos
           else
             (case d_class x of
                Date t \<Rightarrow>
                  (case d_class y of
                     Date u \<Rightarrow> if \<not> strict_eq t u then return_to False memos
                                else keyCheck env rec a1 a2 True None memos
                   | _ \<Rightarrow> throw TypeError memos)
              | RegExp s f \<Rightarrow>
                  if \<not> areSimilarRegExps x y then return_to False memos
                  else keyCheck env rec a1 a2 True None memos
              | _ \<Rightarrow>
                  if d_tag x = js ''[object Error]'' then
                    (if \<not> strict_eq (d_message x) (d_message y) then return_to False memos
                     else keyCheck env rec a1 a2 True None memos)
                  else
                    (case d_class x of
                       View s \<Rightarrow>
                         if \<not> areSimilarTypedArrays env x y then return_to False memos
                         else keyCheck env rec a1 a2 True (Some (d_length x, d_length y)) memos
                     | _ \<Rightarrow> strict_value env rec a1 a2 memos)))
      | (VObj a1, _) \<Rightarrow> return_to False memos
      | (VNull, _) \<Rightarrow> return_to False memos
      | _ \<Rightarrow> return_to (is_nan val1 \<and> is_nan val2) memos)"

definition looseDeepEqual :: "denv \<Rightarrow> deep_run \<Rightarrow> dval \<Rightarrow> dval \<Rightarrow> memos \<Rightarrow> memos outcome" where
  "looseDeepEqual env rec val1 val2 memos =
     (case (val1, val2) of
        (VObj a1, VObj a2) \<Rightarrow>
          (let x = e_heap env a1; y = e_heap env a2;
               rest =
                 (if d_isError x \<and> d_isError y \<and>
                     (\<not> strict_eq (d_message x) (d_message y) \<or> \<not> strict_eq (d_name x) (d_name y))
                  then return_to False memos
                  else if d_tag x = d_tag y then
                    (if \<not> isObjectOrArrayTag (d_tag x) \<and> (case d_class x of View s \<Rightarrow> True | _ \<Rightarrow> False)
                     then return_to (areSimilarTypedArrays env x y) memos
                     else keyCheck env rec a1 a2 False None memos)
                  else if isArguments (d_tag x) \<or> isArguments (d_tag y) then return_to False memos
                  else keyCheck env rec a1 a2 False None memos)
           in case (d_class x, d_class y) of
                (Date t, Date u) \<Rightarrow> return_to (strict_eq t u) memos
              | (RegExp s f, RegExp t g) \<Rightarrow> return_to (areSimilarRegExps x y) memos
              | _ \<Rightarrow> rest)
      | (VObj a1, _) \<Rightarrow> return_to False memos
      | (_, VObj a2) \<Rightarrow> return_to False memos
      | _ \<Rightarrow> return_to (loose_eq env val1 val2) memos)"

definition innerDeepEqual :: "denv \<Rightarrow> deep_run \<Rightarrow> deep_run" where
  "innerDeepEqual env rec strict val1 val2 memos =
     (if strict_eq val1 val2 then
        return_to (if \<not> is_zero val1 then True else if strict then object_is val1 val2 else True) memos
      else if strict then strictDeepEqual env rec val1 val2 memos
      else looseDeepEqual env rec val1 val2 memos)"

fun deep :: "denv \<Rightarrow> nat \<Rightarrow> deep_run" where
  "deep env 0 = (\<lambda>strict v w memos. None)"
| "deep env (Suc n) = innerDeepEqual env (deep env n)"

definition isDeepEqual :: "denv \<Rightarrow> nat \<Rightarrow> dval \<Rightarrow> dval \<Rightarrow> (jserr + bool) option" where
  "isDeepEqual env n val1 val2 = map_option fst (deep env n False val1 val2 None)"

definition isDeepStrictEqual :: "denv \<Rightarrow> nat \<Rightarrow> dval \<Rightarrow> dval \<Rightarrow> (jserr + bool) option" where
  "isDeepStrictEqual env n val1 val2 = map_option fst (deep env n True val1 val2 None)"

end
