(* ===== verification/Deep_Equal_Props.thy ===== *)
theory Deep_Equal_Props
  imports Deep_Equal
begin

text \<open>
  The strict comparison against a specification: the largest relation between values that relates
  objects only when they agree on the surface and related values under every key.  The comparison
  never says \<^verbatim>\<open>true\<close> for values that are not related, also when they have cycles; it ends, and finds
  every related pair, when they have none.
\<close>

section \<open>Specification\<close>

text \<open>What an object is besides its properties.\<close>

datatype facet =
    Nothing
  | Length nat
  | Time dval
  | Pattern jsstr jsstr
  | Message dval
  | Bytes "nat list" nat
  | Boxed dval nat

definition facet :: "denv \<Rightarrow> nat \<Rightarrow> facet" where
  "facet env a =
     (let x = e_heap env a in
      if d_tag x = js ''[object Array]'' then Length (d_length x)
      else if d_tag x = js ''[object Object]'' then Nothing
      else (case d_class x of
              Date t \<Rightarrow> Time t
            | RegExp s f \<Rightarrow> Pattern s f
            | c \<Rightarrow>
                if d_tag x = js ''[object Error]'' then Message (d_message x)
                else (case c of
                        View s \<Rightarrow> Bytes s (d_length x)
                      | _ \<Rightarrow>
                          (case d_valueOf x of
                             None \<Rightarrow> Nothing
                           | Some v \<Rightarrow> if strict_eq v (VObj a) then Nothing
                                       else Boxed v (value_length x v)))))"

text \<open>The kinds of facet, and those whose string keys are only counted.\<close>

fun kind_of :: "facet \<Rightarrow> nat" where
  "kind_of Nothing = 0"
| "kind_of (Length n) = 1"
| "kind_of (Time t) = 2"
| "kind_of (Pattern s f) = 3"
| "kind_of (Message m) = 4"
| "kind_of (Bytes s n) = 5"
| "kind_of (Boxed v n) = 6"

fun counted :: "facet \<Rightarrow> nat option" where
  "counted (Bytes s n) = Some n"
| "counted (Boxed v n) = Some n"
| "counted f = None"

fun same_facet :: "facet \<Rightarrow> facet \<Rightarrow> bool" where
  "same_facet Nothing Nothing = True"
| "same_facet (Length m) (Length n) = (m = n)"
| "same_facet (Time t) (Time u) = strict_eq t u"
| "same_facet (Pattern s f) (Pattern t g) = (s = t \<and> f = g)"
| "same_facet (Message m) (Message n) = strict_eq m n"
| "same_facet (Bytes s m) (Bytes t n) = (s = t)"
| "same_facet (Boxed v m) (Boxed w n) = True"
| "same_facet f g = False"

definition string_keys :: "dobj \<Rightarrow> dkey list" where
  "string_keys x = map (KStr \<circ> fst) (d_props x)"

definition symbol_keys :: "dobj \<Rightarrow> dkey list" where
  "symbol_keys x = map KSym (enumerable_symbols x)"

text \<open>Agreement on the surface.\<close>

definition shallow :: "denv \<Rightarrow> nat \<Rightarrow> nat \<Rightarrow> bool" where
  "shallow env a b \<longleftrightarrow>
     (let x = e_heap env a; y = e_heap env b in
      d_tag x = d_tag y \<and> d_proto x = d_proto y \<and> same_facet (facet env a) (facet env b) \<and>
      set (symbol_keys x) = set (symbol_keys y) \<and>
      (case counted (facet env a) of
         None \<Rightarrow> set (string_keys x) = set (string_keys y)
       | Some n \<Rightarrow> length (d_props x) = n \<and> length (d_props y) = n \<and> counted (facet env b) = Some n))"

text \<open>The values inside that have to be related.\<close>

definition keys_inside :: "denv \<Rightarrow> nat \<Rightarrow> dkey list" where
  "keys_inside env a =
     (case counted (facet env a) of
        None \<Rightarrow> string_keys (e_heap env a) @ symbol_keys (e_heap env a)
      | Some n \<Rightarrow> symbol_keys (e_heap env a))"

definition inside :: "denv \<Rightarrow> nat \<Rightarrow> nat \<Rightarrow> (dval \<times> dval) set" where
  "inside env a b =
     {(get (e_heap env a) k, get (e_heap env b) k) | k. k \<in> set (keys_inside env a)} \<union>
     {(v, w) | v w m n. facet env a = Boxed v m \<and> facet env b = Boxed w n}"

text \<open>The relation, where the pairs in \<open>A\<close> are taken for granted.\<close>

coinductive alike :: "denv \<Rightarrow> (nat \<times> nat) set \<Rightarrow> dval \<Rightarrow> dval \<Rightarrow> bool"
  for env :: denv and A :: "(nat \<times> nat) set"
where
  alike_same: "strict_eq v w \<Longrightarrow> (is_zero v \<longrightarrow> v = w) \<Longrightarrow> alike env A v w"
| alike_nan: "is_nan v \<Longrightarrow> is_nan w \<Longrightarrow> alike env A v w"
| alike_assumed: "(a, b) \<in> A \<Longrightarrow> alike env A (VObj a) (VObj b)"
| alike_object: "shallow env a b \<Longrightarrow> (\<forall>(v, w) \<in> inside env a b. alike env A v w) \<Longrightarrow>
    alike env A (VObj a) (VObj b)"

text \<open>Objects are alike when they are alike once they are taken to be.\<close>

lemma alike_cut:
  assumes "shallow env a b" "\<forall>(v, w) \<in> inside env a b. alike env (insert (a, b) A) v w"
  shows "alike env A (VObj a) (VObj b)"
proof -
  have "alike env (insert (a, b) A) v w \<Longrightarrow> alike env A v w" for v w
  proof (coinduction arbitrary: v w rule: alike.coinduct)
    case alike
    then show ?case
    proof (cases rule: alike.cases)
      case (alike_assumed c d)
      show ?thesis
      proof (cases "(c, d) \<in> A")
        case False
        then have "c = a" "d = b" using alike_assumed by auto
        then show ?thesis using assms alike_assumed by blast
      qed (use alike_assumed in blast)
    qed blast+
  qed
  moreover have "alike env (insert (a, b) A) (VObj a) (VObj b)" by (rule alike_assumed) simp
  ultimately show ?thesis by blast
qed

section \<open>Heaps without collections\<close>

text \<open>
  No sets and maps; tags that tell the truth; distinct keys, none with a name of
  \<^verbatim>\<open>Object.prototype\<close>; a native comparison of bytes that does what it says.
\<close>

definition no_collection :: "dclass \<Rightarrow> bool" where
  "no_collection c = (case c of SetOf xs \<Rightarrow> False | MapOf xs \<Rightarrow> False | _ \<Rightarrow> True)"

definition plain_env :: "denv \<Rightarrow> bool" where
  "plain_env env \<longleftrightarrow>
     (\<forall>a. no_collection (d_class (e_heap env a)) \<and>
          distinct (map fst (d_props (e_heap env a))) \<and> distinct (map fst (d_syms (e_heap env a))) \<and>
          (\<forall>k \<in> set (string_keys (e_heap env a)) \<union> set (symbol_keys (e_heap env a)).
             \<not> e_onPrototype env k)) \<and>
     (\<forall>a b. d_tag (e_heap env a) = d_tag (e_heap env b) \<longrightarrow> kind_of (facet env a) = kind_of (facet env b)) \<and>
     (\<forall>s t. length s = length t \<longrightarrow> (e_compare env s t = 0) = (s = t))"

definition str_length :: "dval \<Rightarrow> nat \<Rightarrow> nat" where
  "str_length v n = (case v of VStr s \<Rightarrow> n | _ \<Rightarrow> 0)"

text \<open>What a facet says of the object.\<close>

abbreviation (input) tag_is :: "denv \<Rightarrow> nat \<Rightarrow> string \<Rightarrow> bool" where
  "tag_is env a t \<equiv> d_tag (e_heap env a) = js t"

lemma facet_array: "tag_is env a ''[object Array]'' \<Longrightarrow> facet env a = Length (d_length (e_heap env a))"
  by (simp add: facet_def)

lemma facet_object: "tag_is env a ''[object Object]'' \<Longrightarrow> facet env a = Nothing"
  by (simp add: facet_def)

definition ordinary :: "denv \<Rightarrow> nat \<Rightarrow> bool" where
  "ordinary env a \<longleftrightarrow> \<not> tag_is env a ''[object Array]'' \<and> \<not> tag_is env a ''[object Object]''"

lemma facet_ordinary:
  "ordinary env a \<Longrightarrow> d_class (e_heap env a) = Date t \<Longrightarrow> facet env a = Time t"
  "ordinary env a \<Longrightarrow> d_class (e_heap env a) = RegExp s f \<Longrightarrow> facet env a = Pattern s f"
  by (simp_all add: facet_def ordinary_def Let_def)

lemma facet_error:
  "ordinary env a \<Longrightarrow> tag_is env a ''[object Error]'' \<Longrightarrow>
   (\<forall>t. d_class (e_heap env a) \<noteq> Date t) \<Longrightarrow> (\<forall>s f. d_class (e_heap env a) \<noteq> RegExp s f) \<Longrightarrow>
   facet env a = Message (d_message (e_heap env a))"
  by (cases "d_class (e_heap env a)") (simp_all add: facet_def ordinary_def Let_def)

lemma facet_view:
  "ordinary env a \<Longrightarrow> \<not> tag_is env a ''[object Error]'' \<Longrightarrow> d_class (e_heap env a) = View s \<Longrightarrow>
   facet env a = Bytes s (d_length (e_heap env a))"
  by (simp add: facet_def ordinary_def Let_def)

lemma facet_class:
  "kind_of (facet env a) = 2 \<Longrightarrow> \<exists>t. d_class (e_heap env a) = Date t"
  "kind_of (facet env a) = 3 \<Longrightarrow> \<exists>s f. d_class (e_heap env a) = RegExp s f"
  "kind_of (facet env a) = 5 \<Longrightarrow> \<exists>s. d_class (e_heap env a) = View s"
  by (auto simp: facet_def Let_def split: if_splits dclass.splits option.splits)

text \<open>An object that is none of these.\<close>

definition valued :: "denv \<Rightarrow> nat \<Rightarrow> bool" where
  "valued env a \<longleftrightarrow> ordinary env a \<and> \<not> tag_is env a ''[object Error]'' \<and>
     (case d_class (e_heap env a) of Date t \<Rightarrow> False | RegExp s f \<Rightarrow> False | View s \<Rightarrow> False | _ \<Rightarrow> True)"

lemma facet_valued:
  "valued env a \<Longrightarrow> facet env a =
     (case d_valueOf (e_heap env a) of
        None \<Rightarrow> Nothing
      | Some v \<Rightarrow> if strict_eq v (VObj a) then Nothing else Boxed v (value_length (e_heap env a) v))"
  by (cases "d_class (e_heap env a)") (simp_all add: facet_def valued_def ordinary_def Let_def)

lemma facet_Boxed:
  "facet env a = Boxed v n \<Longrightarrow> d_valueOf (e_heap env a) = Some v \<and> \<not> strict_eq v (VObj a) \<and>
     n = value_length (e_heap env a) v"
  by (auto simp: facet_def Let_def split: if_splits dclass.splits option.splits)

lemma kind_Boxed: "kind_of f = 6 \<longleftrightarrow> (\<exists>v n. f = Boxed v n)"
  by (cases f) auto

lemma valued_strict:
  "valued env a \<Longrightarrow> d_tag (e_heap env a) = d_tag (e_heap env b) \<Longrightarrow>
   d_proto (e_heap env a) = d_proto (e_heap env b) \<Longrightarrow>
   strictDeepEqual env rec (VObj a) (VObj b) m = strict_value env rec a b m"
  by (cases "d_class (e_heap env a)")
    (simp_all add: strictDeepEqual_def valued_def ordinary_def Let_def)

text \<open>The strict comparison of two objects by their facets.\<close>

lemma strict_reduce:
  assumes "plain_env env" "d_tag (e_heap env a) = d_tag (e_heap env b)"
    "d_proto (e_heap env a) = d_proto (e_heap env b)"
  shows "strictDeepEqual env rec (VObj a) (VObj b) m =
    (if \<not> same_facet (facet env a) (facet env b) then return_to False m
     else case (facet env a, facet env b) of
            (Boxed v i, Boxed w j) \<Rightarrow>
              both (map_option (\<lambda>(r, _). (r, m)) (rec True v w None))
                (keyCheck env rec a b True (Some (i, str_length v (d_length (e_heap env b)))))
          | (Bytes s i, Bytes t j) \<Rightarrow> keyCheck env rec a b True (Some (i, j)) m
          | _ \<Rightarrow> keyCheck env rec a b True None m)"
proof -
  have kind: "kind_of (facet env a) = kind_of (facet env b)" using assms(1,2) unfolding plain_env_def by blast
  consider "tag_is env a ''[object Array]''" | "tag_is env a ''[object Object]''" |
    (date) t where "ordinary env a" "d_class (e_heap env a) = Date t" |
    (regexp) s f where "ordinary env a" "d_class (e_heap env a) = RegExp s f" |
    (error) "ordinary env a" "tag_is env a ''[object Error]''" "\<forall>t. d_class (e_heap env a) \<noteq> Date t"
      "\<forall>s f. d_class (e_heap env a) \<noteq> RegExp s f" |
    (view) s where "ordinary env a" "\<not> tag_is env a ''[object Error]''" "d_class (e_heap env a) = View s" |
    (valued) "valued env a"
    by (cases "d_class (e_heap env a)") (auto simp: ordinary_def valued_def)
  then show ?thesis
  proof cases
    case 1
    then show ?thesis using assms(2,3) facet_array[of env a] facet_array[of env b]
      by (simp add: strictDeepEqual_def Let_def)
  next
    case 2
    then show ?thesis using assms(2,3) facet_object[of env a] facet_object[of env b]
      by (simp add: strictDeepEqual_def Let_def)
  next
    case date
    then have f: "facet env a = Time t" by (rule facet_ordinary)
    obtain u where u: "d_class (e_heap env b) = Date u" using kind facet_class(1)[of env b] by (auto simp: f)
    have "facet env b = Time u" using date(1) assms(2) u by (intro facet_ordinary) (simp_all add: ordinary_def)
    then show ?thesis using date u f assms(2,3) by (simp add: strictDeepEqual_def Let_def ordinary_def)
  next
    case regexp
    then have f: "facet env a = Pattern s f" by (rule facet_ordinary)
    obtain t g where u: "d_class (e_heap env b) = RegExp t g" using kind facet_class(2)[of env b] by (auto simp: f)
    have "facet env b = Pattern t g" using regexp(1) assms(2) u by (intro facet_ordinary) (simp_all add: ordinary_def)
    then show ?thesis using regexp u f assms(2,3)
      by (simp add: strictDeepEqual_def Let_def ordinary_def areSimilarRegExps_def)
  next
    case error
    then have f: "facet env a = Message (d_message (e_heap env a))" by (rule facet_error)
    then have g: "facet env b = Message (d_message (e_heap env b))"
      using kind error(1,2) assms(2)
      by (cases "d_class (e_heap env b)") (auto simp: facet_def ordinary_def Let_def)
    show ?thesis using error f g assms(2,3)
      by (cases "d_class (e_heap env a)") (simp_all add: strictDeepEqual_def Let_def ordinary_def)
  next
    case view
    then have f: "facet env a = Bytes s (d_length (e_heap env a))" by (rule facet_view)
    obtain t where t: "d_class (e_heap env b) = View t" using kind facet_class(3)[of env b] by (auto simp: f)
    have g: "facet env b = Bytes t (d_length (e_heap env b))"
      using view(1,2) assms(2) t by (intro facet_view) (simp_all add: ordinary_def)
    have "areSimilarTypedArrays env (e_heap env a) (e_heap env b) = (s = t)"
      using view(3) t assms(1) by (auto simp: areSimilarTypedArrays_def plain_env_def)
    then show ?thesis using view f g assms(2,3) by (simp add: strictDeepEqual_def Let_def ordinary_def)
  next
    case valued
    have f: "strictDeepEqual env rec (VObj a) (VObj b) m = strict_value env rec a b m"
      by (rule valued_strict[OF valued assms(2,3)])
    show ?thesis
    proof (cases "facet env a")
      case (Boxed v i)
      note x = facet_Boxed[OF this]
      obtain w j where y: "facet env b = Boxed w j" using kind kind_Boxed[of "facet env b"] by (auto simp: Boxed)
      show ?thesis using x facet_Boxed[OF y] Boxed y
        by (simp add: f strict_value_def Let_def str_length_def)
    next
      case Nothing
      then have "facet env b = Nothing" using kind by (cases "facet env b") simp_all
      then show ?thesis using Nothing facet_valued[OF valued]
        by (auto simp: f strict_value_def Let_def split: option.splits if_splits)
    qed (use facet_valued[OF valued] in \<open>auto split: option.splits if_splits\<close>)
  qed
qed

section \<open>Soundness\<close>

text \<open>What a comparison that says \<^verbatim>\<open>true\<close> leaves behind.\<close>

definition yes :: "'s outcome \<Rightarrow> ('s \<Rightarrow> bool) \<Rightarrow> bool" where
  "yes m P \<longleftrightarrow> (\<forall>st. m = Some (Inr True, st) \<longrightarrow> P st)"

lemma yes_return [simp]: "yes (return_to b st) P \<longleftrightarrow> (b \<longrightarrow> P st)"
  by (auto simp: yes_def return_to_def)

lemma yes_both:
  assumes "yes m P" "\<And>st. P st \<Longrightarrow> yes (f st) Q"
  shows "yes (both m f) Q"
  using assms by (fastforce simp: yes_def both_def and_then_Some_iff return_to_def split: if_splits)

lemma yes_mono: "yes m P \<Longrightarrow> (\<And>st. P st \<Longrightarrow> Q st) \<Longrightarrow> yes m Q"
  by (auto simp: yes_def)

lemma yes_each:
  assumes "I st" "\<And>x st. x \<in> set xs \<Longrightarrow> I st \<Longrightarrow> yes (f x st) (\<lambda>st'. P x \<and> I st')"
  shows "yes (each f xs st) (\<lambda>st'. (\<forall>x \<in> set xs. P x) \<and> I st')"
  using assms
proof (induction xs arbitrary: st)
  case (Cons x xs)
  have "each f (x # xs) st = both (f x st) (each f xs)" by (simp add: both_def)
  moreover have "yes (each f xs st1) (\<lambda>st'. (\<forall>y \<in> set (x # xs). P y) \<and> I st')" if "P x \<and> I st1" for st1
    using Cons.IH[of st1] Cons.prems(2) that by (intro yes_mono[OF Cons.IH]) auto
  ultimately show ?case using yes_both[OF Cons.prems(2)[of x st]] Cons.prems(1) by simp
qed simp

text \<open>The memos never put two objects at the same position unless they are taken for granted.\<close>

definition fits :: "memos \<Rightarrow> (nat \<times> nat) set \<Rightarrow> bool" where
  "fits m A =
     (case m of
        None \<Rightarrow> True
      | Some (m1, m2, p) \<Rightarrow>
          (\<forall>a b q. m1 a = Some q \<longrightarrow> m2 b = Some q \<longrightarrow> (a, b) \<in> A) \<and>
          (\<forall>a q. m1 a = Some q \<longrightarrow> q \<le> p) \<and> (\<forall>b q. m2 b = Some q \<longrightarrow> q \<le> p))"

lemma fits_None [simp]: "fits None A"
  by (simp add: fits_def)

lemma fits_enter:
  assumes "fits (Some (m1, m2, p)) A"
  shows "fits (Some (m1(a \<mapsto> p + 1), m2(b \<mapsto> p + 1), p + 1)) (insert (a, b) A)"
proof -
  have "m1 c = Some q \<Longrightarrow> q \<le> p" "m2 c = Some q \<Longrightarrow> q \<le> p" for c q using assms by (auto simp: fits_def)
  then have "m1 c \<noteq> Some (Suc p)" "m2 c \<noteq> Some (Suc p)" for c using not_less_eq_eq by blast+
  then show ?thesis using assms by (auto simp: fits_def le_Suc_eq)
qed

lemma fits_start: "fits (Some (Map.empty(a \<mapsto> 0), Map.empty(b \<mapsto> 0), 0)) (insert (a, b) A)"
  by (auto simp: fits_def split: if_splits)

lemma fits_leave:
  "fits (Some (m1, m2, p)) (insert (a, b) A) \<Longrightarrow> fits (Some (m1(a := None), m2(b := None), p)) A"
  by (auto simp: fits_def split: if_splits)

text \<open>A call that only says \<^verbatim>\<open>true\<close> for values that are alike.\<close>

definition sound :: "denv \<Rightarrow> deep_run \<Rightarrow> bool" where
  "sound env rec \<longleftrightarrow>
     (\<forall>A v w m. fits m A \<longrightarrow> yes (rec True v w m) (\<lambda>m'. alike env A v w \<and> fits m' A))"

lemma soundD:
  "sound env rec \<Longrightarrow> rec True v w m = Some (Inr True, m') \<Longrightarrow> fits m A \<Longrightarrow> alike env A v w \<and> fits m' A"
  unfolding sound_def yes_def by blast

definition alike_under :: "denv \<Rightarrow> (nat \<times> nat) set \<Rightarrow> nat \<Rightarrow> nat \<Rightarrow> dkey list \<Rightarrow> bool" where
  "alike_under env A a b keys \<longleftrightarrow>
     (\<forall>k \<in> set keys. alike env A (get (e_heap env a) k) (get (e_heap env b) k))"

lemma compare_in_progress_yes:
  assumes "plain_env env" "sound env rec" and start: "fits (Some (m1(a \<mapsto> p), m2(b \<mapsto> p), p)) (insert (a, b) A)"
  shows "yes (compare_in_progress env rec a b True keys (m1, m2, p))
    (\<lambda>m'. alike_under env (insert (a, b) A) a b keys \<and> fits m' A)"
proof -
  have plain: "no_collection (d_class (e_heap env a))" "no_collection (d_class (e_heap env b))"
    using assms(1) by (simp_all add: plain_env_def)
  have rec: "fits n B \<Longrightarrow> yes (rec True v w n) (\<lambda>m'. alike env B v w \<and> fits m' B)" for n B v w
    using assms(2) by (simp add: sound_def)
  let ?x = "e_heap env a" and ?y = "e_heap env b"
  let ?s = "Some (m1(a \<mapsto> p), m2(b \<mapsto> p), p)"
  have "objEquiv env rec ?x ?y True keys ?s = each (\<lambda>key. rec True (get ?x key) (get ?y key)) keys ?s"
    using plain by (auto simp: objEquiv_def no_collection_def both_def and_then_simps split: dclass.splits)
  moreover have "yes (each (\<lambda>key. rec True (get ?x key) (get ?y key)) keys ?s)
    (\<lambda>m'. (\<forall>k \<in> set keys. alike env (insert (a, b) A) (get ?x k) (get ?y k)) \<and> fits m' (insert (a, b) A))"
    by (rule yes_each[where I = "\<lambda>m. fits m (insert (a, b) A)"]) (use start rec in auto)
  ultimately show ?thesis
    by (auto simp: compare_in_progress_def yes_def and_then_Some_iff return_to_def alike_under_def
        split: option.splits intro: fits_leave)
qed

text \<open>Equally many distinct keys, each of one side on the other.\<close>

lemma same_keys_set:
  assumes "plain_env env" "set ys \<subseteq> set (string_keys (e_heap env b)) \<union> set (symbol_keys (e_heap env b))"
    "same_keys env xs ys" "length xs = length ys" "distinct xs" "distinct ys"
  shows "set ys = set xs"
proof (rule card_subset_eq)
  show "set ys \<subseteq> set xs" using assms(1-3) by (auto simp: same_keys_def list_all_iff plain_env_def)
qed (use assms in \<open>simp_all add: distinct_card\<close>)

lemma distinct_keys:
  assumes "plain_env env"
  shows "distinct (string_keys (e_heap env a) @ symbol_keys (e_heap env a))"
proof -
  have p: "distinct (map fst (d_props (e_heap env a)))" "distinct (map fst (d_syms (e_heap env a)))"
    using assms by (simp_all add: plain_env_def)
  have "distinct (enumerable_symbols (e_heap env a))"
    using p(2) by (simp add: enumerable_symbols_def distinct_map_filter)
  then show ?thesis using p(1)
    by (auto simp: string_keys_def symbol_keys_def distinct_map comp_inj_on inj_on_def
        simp flip: map_map)
qed

lemma split_keys:
  assumes "set (symbol_keys x) \<union> set (string_keys x) = set (symbol_keys y) \<union> set (string_keys y)"
  shows "set (string_keys x) = set (string_keys y) \<and> set (symbol_keys x) = set (symbol_keys y)"
proof -
  have "set (symbol_keys z) \<subseteq> range KSym" "set (string_keys z) \<subseteq> range KStr" for z
    by (auto simp: symbol_keys_def string_keys_def)
  moreover have "range KSym \<inter> range KStr = {}" by auto
  ultimately show ?thesis using assms by blast
qed

text \<open>The keys that are compared, when the comparison of the keys does not say \<^verbatim>\<open>false\<close>.\<close>

lemma keys_to_check_None:
  assumes "plain_env env" "keys_to_check (e_heap env a) (e_heap env b) True None = Inr (xs, ys)"
    "same_keys env xs ys"
  shows "xs = string_keys (e_heap env a) @ symbol_keys (e_heap env a) \<and>
    set (string_keys (e_heap env a)) = set (string_keys (e_heap env b)) \<and>
    set (symbol_keys (e_heap env a)) = set (symbol_keys (e_heap env b))"
proof -
  let ?keys = "\<lambda>c. string_keys (e_heap env c) @ symbol_keys (e_heap env c)"
  have xy: "xs = ?keys a" "ys = ?keys b" "length xs = length ys"
    using assms(2)
    by (auto simp: keys_to_check_def string_keys_def symbol_keys_def enumerable_symbols_def Let_def
        split: if_splits)
  have "set ys = set xs"
    by (rule same_keys_set[OF assms(1) _ assms(3), of b]) (use xy distinct_keys[OF assms(1)] in simp_all)
  then have "set (symbol_keys (e_heap env b)) \<union> set (string_keys (e_heap env b)) =
      set (symbol_keys (e_heap env a)) \<union> set (string_keys (e_heap env a))"
    unfolding xy(1,2) by auto
  from split_keys[OF this] show ?thesis using xy(1) by simp
qed

lemma keys_to_check_Some:
  assumes "plain_env env"
    "keys_to_check (e_heap env a) (e_heap env b) True (Some (i, j)) = Inr (xs, ys)" "same_keys env xs ys"
  shows "xs = symbol_keys (e_heap env a) \<and> length (d_props (e_heap env a)) = i \<and> i = j \<and>
    length (d_props (e_heap env b)) = i \<and>
    set (symbol_keys (e_heap env a)) = set (symbol_keys (e_heap env b))"
proof -
  have xy: "xs = symbol_keys (e_heap env a)" "ys = symbol_keys (e_heap env b)" "length xs = length ys"
    "length (d_props (e_heap env a)) = i" "length (d_props (e_heap env b)) = j" "i = j"
    using assms(2)
    by (auto simp: keys_to_check_def symbol_keys_def enumerable_symbols_def Let_def split: if_splits)
  have "set ys = set xs"
    by (rule same_keys_set[OF assms(1) _ assms(3), of b]) (use xy distinct_keys[OF assms(1)] in simp_all)
  then show ?thesis using xy by simp
qed

lemma keys_to_check_decided:
  assumes "keys_to_check x y True (Some (i, j)) = Inl True"
  shows "length (d_props x) = i \<and> i = j \<and> length (d_props y) = i \<and> symbol_keys x = [] \<and> symbol_keys y = []"
  using assms by (auto simp: keys_to_check_def symbol_keys_def enumerable_symbols_def Let_def split: if_splits)

lemma keys_to_check_None_decided: "keys_to_check x y True None \<noteq> Inl True"
  by (auto simp: keys_to_check_def Let_def)

lemma keyCheck_yes:
  assumes "plain_env env" "sound env rec" "fits m A"
    "keys_to_check (e_heap env a) (e_heap env b) True lengths = Inr (xs, ys)"
  shows "yes (keyCheck env rec a b True lengths m)
    (\<lambda>m'. fits m' A \<and> same_keys env xs ys \<and> ((a, b) \<in> A \<or> alike_under env (insert (a, b) A) a b xs))"
proof -
  note run = compare_in_progress_yes[OF assms(1,2)]
  consider "\<not> same_keys env xs ys" | (start) "same_keys env xs ys" "m = None" |
    (memo) m1 m2 p where "same_keys env xs ys" "m = Some (m1, m2, p)"
    by (cases m) auto
  then show ?thesis
  proof cases
    case start
    have "yes (compare_in_progress env rec a b True xs (Map.empty, Map.empty, 0))
      (\<lambda>m'. alike_under env (insert (a, b) A) a b xs \<and> fits m' A)"
      by (rule run[OF fits_start])
    then show ?thesis using start assms(4) by (auto simp: keyCheck_def yes_def)
  next
    case memo
    show ?thesis
    proof (cases "m1 a = None \<or> m2 b = None")
      case True
      have "yes (compare_in_progress env rec a b True xs (m1, m2, p + 1))
        (\<lambda>m'. alike_under env (insert (a, b) A) a b xs \<and> fits m' A)"
        by (rule run[OF fits_enter]) (use assms(3) memo in simp)
      then show ?thesis using memo assms(4) True
        by (auto simp: keyCheck_def yes_def split: option.splits)
    next
      case False
      then show ?thesis using memo assms(3,4)
        by (auto simp: keyCheck_def fits_def split: option.splits)
    qed
  qed (use assms(4) in \<open>simp add: keyCheck_def\<close>)
qed

text \<open>What agreement of the keys adds to agreement of the facets.\<close>

definition same_shape :: "denv \<Rightarrow> nat \<Rightarrow> nat \<Rightarrow> (nat \<times> nat) option \<Rightarrow> bool" where
  "same_shape env a b lengths \<longleftrightarrow>
     set (symbol_keys (e_heap env a)) = set (symbol_keys (e_heap env b)) \<and>
     (case lengths of
        None \<Rightarrow> set (string_keys (e_heap env a)) = set (string_keys (e_heap env b))
      | Some (i, j) \<Rightarrow> length (d_props (e_heap env a)) = i \<and> i = j \<and> length (d_props (e_heap env b)) = i)"

definition keys_under :: "denv \<Rightarrow> nat \<Rightarrow> (nat \<times> nat) option \<Rightarrow> dkey list" where
  "keys_under env a lengths =
     (if lengths = None then string_keys (e_heap env a) else []) @ symbol_keys (e_heap env a)"

text \<open>The test of the keys is exact.\<close>

lemma same_keys_lengths:
  assumes "plain_env env" "set (f (e_heap env a)) = set (f (e_heap env b))" "f = string_keys \<or> f = symbol_keys"
  shows "length (f (e_heap env a)) = length (f (e_heap env b))"
proof -
  have "distinct (f (e_heap env c))" for c using distinct_keys[OF assms(1), of c] assms(3) by auto
  then show ?thesis using assms(2) by (metis distinct_card)
qed

lemma keys_to_check_shape:
  assumes "plain_env env" "same_shape env a b lengths"
  shows "case keys_to_check (e_heap env a) (e_heap env b) True lengths of
      Inl r \<Rightarrow> r | Inr (xs, ys) \<Rightarrow> same_keys env xs ys"
proof -
  let ?x = "e_heap env a" and ?y = "e_heap env b"
  have syms: "length (enumerable_symbols ?x) = length (enumerable_symbols ?y)"
    using same_keys_lengths[OF assms(1), of symbol_keys a b] assms(2)
    by (simp add: same_shape_def symbol_keys_def)
  have empty: "d_syms ?x = [] \<Longrightarrow> enumerable_symbols ?y = []"
    using syms by (simp add: enumerable_symbols_def)
  have props: "length (d_props ?x) = length (d_props ?y)"
    using same_keys_lengths[OF assms(1), of string_keys a b] assms(2)
    by (auto simp: same_shape_def string_keys_def split: option.splits prod.splits)
  show ?thesis
  proof (cases lengths)
    case None
    then have "keys_to_check ?x ?y True lengths = Inr (string_keys ?x @ symbol_keys ?x, string_keys ?y @ symbol_keys ?y)"
      using syms empty props by (simp add: keys_to_check_def string_keys_def symbol_keys_def Let_def)
    then show ?thesis using assms(2) None by (auto simp: same_shape_def same_keys_def list_all_iff)
  next
    case (Some ij)
    obtain i j where ij: "ij = (i, j)" by fastforce
    then have "keys_to_check ?x ?y True lengths =
        (if enumerable_symbols ?x = [] then Inl True else Inr (symbol_keys ?x, symbol_keys ?y))"
      using Some syms empty assms(2) by (simp add: keys_to_check_def symbol_keys_def same_shape_def Let_def)
    then show ?thesis using assms(2) by (auto simp: same_shape_def same_keys_def list_all_iff)
  qed
qed

lemma keys_to_check_exact:
  assumes "plain_env env"
  shows "case keys_to_check (e_heap env a) (e_heap env b) True lengths of
      Inl r \<Rightarrow> r = same_shape env a b lengths \<and> (r \<longrightarrow> keys_under env a lengths = [])
    | Inr (xs, ys) \<Rightarrow> same_keys env xs ys = same_shape env a b lengths \<and>
        (same_keys env xs ys \<longrightarrow> keys_under env a lengths = xs)"
proof (cases "keys_to_check (e_heap env a) (e_heap env b) True lengths")
  case (Inl r)
  have "same_shape env a b lengths \<and> keys_under env a lengths = []" if r
    using Inl that keys_to_check_None_decided[of "e_heap env a" "e_heap env b"]
      keys_to_check_decided[of "e_heap env a" "e_heap env b"]
    by (cases lengths) (auto simp: same_shape_def keys_under_def)
  then show ?thesis using Inl keys_to_check_shape[OF assms, of a b lengths] by auto
next
  case (Inr ks)
  obtain xs ys where ks: "ks = (xs, ys)" by fastforce
  have "same_shape env a b lengths \<and> keys_under env a lengths = xs" if "same_keys env xs ys"
    using keys_to_check_None[OF assms(1) _ that, of a b] keys_to_check_Some[OF assms(1) _ that, of a b] Inr ks
    by (cases lengths) (auto simp: same_shape_def keys_under_def)
  then show ?thesis using Inr ks keys_to_check_shape[OF assms, of a b lengths] by auto
qed

lemma keyCheck_alike:
  assumes "plain_env env" "sound env rec" "fits m A"
  shows "yes (keyCheck env rec a b True lengths m) (\<lambda>m'. fits m' A \<and>
    ((a, b) \<in> A \<or>
     same_shape env a b lengths \<and> alike_under env (insert (a, b) A) a b (keys_under env a lengths)))"
proof (cases "keys_to_check (e_heap env a) (e_heap env b) True lengths")
  case (Inl r)
  then show ?thesis using assms(3) keys_to_check_exact[OF assms(1), of a b lengths]
    by (auto simp: keyCheck_def alike_under_def)
next
  case (Inr ks)
  obtain xs ys where "ks = (xs, ys)" by fastforce
  then show ?thesis using Inr keys_to_check_exact[OF assms(1), of a b lengths]
    by (intro yes_mono[OF keyCheck_yes[OF assms, of a b lengths xs ys]]) auto
qed

lemma alike_length:
  assumes "alike env A v w"
  shows "value_length x w = str_length v (d_length x)"
  using assms by (cases rule: alike.cases)
    (auto simp: value_length_def str_length_def strict_eq_def is_zero_def is_nan_def split: dval.splits)

lemma strict_sound:
  assumes "plain_env env" "sound env rec" "fits m A"
  shows "yes (strictDeepEqual env rec (VObj a) (VObj b) m)
    (\<lambda>m'. alike env A (VObj a) (VObj b) \<and> fits m' A)"
proof -
  let ?x = "e_heap env a" and ?y = "e_heap env b"
  have object: "alike env A (VObj a) (VObj b)"
    if "d_tag ?x = d_tag ?y" "d_proto ?x = d_proto ?y" "same_facet (facet env a) (facet env b)"
      "same_shape env a b lengths" "alike_under env (insert (a, b) A) a b (keys_under env a lengths)"
      "counted (facet env a) = map_option fst lengths" "counted (facet env b) = map_option snd lengths"
      "\<And>v w m n. facet env a = Boxed v m \<Longrightarrow> facet env b = Boxed w n \<Longrightarrow> alike env (insert (a, b) A) v w"
    for lengths
  proof (rule alike_cut)
    show "shallow env a b" using that
      by (cases lengths) (auto simp: shallow_def same_shape_def Let_def split: option.splits)
    show "\<forall>(v, w) \<in> inside env a b. alike env (insert (a, b) A) v w" using that
      by (cases lengths) (auto simp: inside_def keys_inside_def alike_under_def keys_under_def)
  qed
  show ?thesis
  proof (cases "d_tag ?x = d_tag ?y \<and> d_proto ?x = d_proto ?y \<and> same_facet (facet env a) (facet env b)")
    case False
    then show ?thesis using strict_reduce[OF assms(1), of a b rec m]
      by (auto simp: strictDeepEqual_def Let_def)
  next
    case True
    note reduce = strict_reduce[OF assms(1), of a b rec m]
    have keys: "yes (keyCheck env rec a b True lengths m) (\<lambda>m'. alike env A (VObj a) (VObj b) \<and> fits m' A)"
      if "counted (facet env a) = map_option fst lengths" "counted (facet env b) = map_option snd lengths"
        "\<And>v w m n. facet env a = Boxed v m \<Longrightarrow> facet env b = Boxed w n \<Longrightarrow> alike env (insert (a, b) A) v w"
      for lengths
      using object[of lengths] True that alike_assumed[of a b A env]
      by (intro yes_mono[OF keyCheck_alike[OF assms, of a b lengths]]) blast
    consider (boxed) v i w j where "facet env a = Boxed v i" "facet env b = Boxed w j" |
      (bytes) s i t j where "facet env a = Bytes s i" "facet env b = Bytes t j" |
      (other) "counted (facet env a) = None" "counted (facet env b) = None"
      using True by (cases "facet env a"; cases "facet env b") auto
    then show ?thesis
    proof cases
      case boxed
      let ?lengths = "Some (i, str_length v (d_length ?y))"
      have unboxed: "yes (map_option (\<lambda>(r, _). (r, m)) (rec True v w None)) (\<lambda>m'. (\<forall>B. alike env B v w) \<and> fits m' A)"
      proof -
        have "alike env B v w" if "rec True v w None = Some (Inr True, n)" for B n
          using soundD[OF assms(2) that fits_None] by blast
        then show ?thesis using assms(3) by (auto simp: yes_def)
      qed
      have inner: "yes (keyCheck env rec a b True ?lengths m1) (\<lambda>m'. alike env A (VObj a) (VObj b) \<and> fits m' A)"
        if "(\<forall>B. alike env B v w) \<and> fits m1 A" for m1
      proof (rule yes_mono[OF keyCheck_alike[OF assms(1,2)]])
        have j: "j = str_length v (d_length ?y)"
          using facet_Boxed[OF boxed(2)] alike_length that by metis
        have "alike env A (VObj a) (VObj b)" if "same_shape env a b ?lengths"
          "alike_under env (insert (a, b) A) a b (keys_under env a ?lengths)"
          by (rule object[OF _ _ _ that]) (use True boxed j \<open>(\<forall>B. alike env B v w) \<and> fits m1 A\<close> in simp_all)
        then show "alike env A (VObj a) (VObj b) \<and> fits m' A" if "fits m' A \<and> ((a, b) \<in> A \<or>
            same_shape env a b ?lengths \<and> alike_under env (insert (a, b) A) a b (keys_under env a ?lengths))" for m'
          using that alike_assumed by blast
      qed (use that in simp)
      show ?thesis using reduce True boxed yes_both[OF unboxed inner] by simp
    next
      case bytes
      then show ?thesis using reduce True keys[of "Some (i, j)"] by simp
    next
      case other
      have "strictDeepEqual env rec (VObj a) (VObj b) m = keyCheck env rec a b True None m"
        using reduce True other by (auto split: facet.splits)
      then show ?thesis using other by (simp, intro keys) auto
    qed
  qed
qed

lemma sound_deep:
  assumes "plain_env env"
  shows "sound env (deep env n)"
proof (induction n)
  case 0
  show ?case by (simp add: sound_def yes_def)
next
  case (Suc n)
  have "yes (deep env (Suc n) True v w m) (\<lambda>m'. alike env A v w \<and> fits m' A)" if "fits m A" for A v w m
  proof (cases "strict_eq v w")
    case True
    then show ?thesis using that alike_same[of v w env A]
      by (auto simp: innerDeepEqual_def object_is_def)
  next
    case False
    then have deep: "deep env (Suc n) True v w m = strictDeepEqual env (deep env n) v w m"
      by (simp add: innerDeepEqual_def)
    show ?thesis
    proof (cases "is_object v \<and> is_object w")
      case True
      then obtain a b where "v = VObj a" "w = VObj b" by (auto simp: is_object_def split: dval.splits)
      then show ?thesis using deep strict_sound[OF assms Suc that] by simp
    next
      case False
      then show ?thesis using deep that alike_nan[of v w env A]
        by (cases v; cases w) (auto simp: strictDeepEqual_def is_object_def is_nan_def)
    qed
  qed
  then show ?case by (auto simp: sound_def)
qed

text \<open>
  C3. What \<^verbatim>\<open>isDeepStrictEqual\<close> calls equal is equal: values it says \<^verbatim>\<open>true\<close> for are related by the
  largest relation that agrees on the surface and under every key.  The heap may have cycles; the memos
  never make the comparison say \<^verbatim>\<open>true\<close> too early.  This is for a heap (\<open>plain_env\<close>) without sets and maps,
  in which no own key of an object is also a name of \<^verbatim>\<open>Object.prototype\<close> (there the answer is wrong,
  \<open>inherited_name_equal\<close>) and objects with the same tag are of the same kind, and for a native comparison
  of byte arrays that answers 0 for two of one length only when they are the same.
\<close>

theorem strict_equal_alike:
  assumes "plain_env env" "isDeepStrictEqual env n v w = Some (Inr True)"
  shows "alike env {} v w"
proof -
  obtain m where "deep env n True v w None = Some (Inr True, m)"
    using assms(2) by (auto simp: isDeepStrictEqual_def)
  from soundD[OF sound_deep[OF assms(1)] this fits_None] show ?thesis by blast
qed

section \<open>Completeness where the left value has no cycle\<close>

text \<open>A run that ends with this answer.\<close>

definition gives :: "'s outcome \<Rightarrow> bool \<Rightarrow> ('s \<Rightarrow> bool) \<Rightarrow> bool" where
  "gives m b P \<longleftrightarrow> (\<exists>st. m = Some (Inr b, st) \<and> P st)"

lemma gives_return [simp]: "gives (return_to b st) c P \<longleftrightarrow> b = c \<and> P st"
  by (auto simp: gives_def return_to_def)

lemma gives_both:
  assumes "gives m b P" "\<And>st. b \<Longrightarrow> P st \<Longrightarrow> gives (f st) c P"
  shows "gives (both m f) (b \<and> c) P"
  using assms by (cases b) (auto simp: gives_def both_def and_then_simps return_to_def)

lemma gives_each:
  assumes "P st" "\<And>x st. x \<in> set xs \<Longrightarrow> P st \<Longrightarrow> gives (f x st) (Q x) P"
  shows "gives (each f xs st) (\<forall>x \<in> set xs. Q x) P"
  using assms
proof (induction xs arbitrary: st)
  case (Cons x xs)
  have "each f (x # xs) st = both (f x st) (each f xs)" by (simp add: both_def)
  moreover have "gives (both (f x st) (each f xs)) (Q x \<and> (\<forall>y \<in> set xs. Q y)) P"
    using Cons by (intro gives_both) auto
  ultimately show ?case by simp
qed simp

text \<open>The objects in progress on the left.\<close>

definition in_progress :: "memos \<Rightarrow> nat set \<Rightarrow> bool" where
  "in_progress m D = (case m of None \<Rightarrow> True | Some (m1, m2, p) \<Rightarrow> dom m1 \<subseteq> D)"

lemma in_progress_None [simp]: "in_progress None D"
  by (simp add: in_progress_def)

lemma in_progress_leave:
  "in_progress (Some (m1, m2, p)) (insert a D) \<Longrightarrow> in_progress (Some (m1(a := None), n2, q)) D"
  by (auto simp: in_progress_def)

definition rank :: "(nat \<Rightarrow> nat) \<Rightarrow> dval \<Rightarrow> nat" where
  "rank R v = (case v of VObj a \<Rightarrow> Suc (R a) | _ \<Rightarrow> 0)"

definition within :: "nat set \<Rightarrow> dval \<Rightarrow> bool" where
  "within S v = (case v of VObj a \<Rightarrow> a \<in> S | _ \<Rightarrow> True)"

text \<open>A set of objects closed under the values inside, which a rank shows to be free of cycles.\<close>

definition ranked :: "denv \<Rightarrow> nat set \<Rightarrow> (nat \<Rightarrow> nat) \<Rightarrow> bool" where
  "ranked env S R \<longleftrightarrow>
     (\<forall>a \<in> S. (\<forall>k \<in> set (keys_inside env a). within S (get (e_heap env a) k) \<and> rank R (get (e_heap env a) k) \<le> R a) \<and>
       (\<forall>v n. facet env a = Boxed v n \<longrightarrow> within S v \<and> rank R v \<le> R a))"

text \<open>A call that is exact for the values of rank at most \<open>d\<close>.\<close>

definition exact :: "denv \<Rightarrow> nat set \<Rightarrow> (nat \<Rightarrow> nat) \<Rightarrow> nat \<Rightarrow> deep_run \<Rightarrow> bool" where
  "exact env S R d rec \<longleftrightarrow>
     (\<forall>v w m D. within S v \<longrightarrow> rank R v \<le> d \<longrightarrow> (\<forall>c \<in> D. rank R v \<le> R c) \<longrightarrow> in_progress m D \<longrightarrow>
        gives (rec True v w m) (alike env {} v w) (\<lambda>m'. in_progress m' D))"

lemma exactD:
  "exact env S R d rec \<Longrightarrow> within S v \<Longrightarrow> rank R v \<le> d \<Longrightarrow> (\<And>c. c \<in> D \<Longrightarrow> rank R v \<le> R c) \<Longrightarrow>
   in_progress m D \<Longrightarrow> gives (rec True v w m) (alike env {} v w) (\<lambda>m'. in_progress m' D)"
  unfolding exact_def by blast

lemma exact_mono: "exact env S R d rec \<Longrightarrow> e \<le> d \<Longrightarrow> exact env S R e rec"
  unfolding exact_def by (meson le_trans)

lemma compare_in_progress_gives:
  assumes "plain_env env" "exact env S R (R a) rec" "\<And>c. c \<in> D \<Longrightarrow> R a < R c" "dom m1 \<subseteq> D"
    and keys: "\<And>k. k \<in> set keys \<Longrightarrow> within S (get (e_heap env a) k) \<and> rank R (get (e_heap env a) k) \<le> R a"
  shows "gives (compare_in_progress env rec a b True keys (m1, m2, p))
    (alike_under env {} a b keys) (\<lambda>m'. in_progress m' D)"
proof -
  let ?x = "e_heap env a" and ?y = "e_heap env b"
  let ?s = "Some (m1(a \<mapsto> p), m2(b \<mapsto> p), p)"
  have plain: "no_collection (d_class ?x)" "no_collection (d_class ?y)"
    using assms(1) by (simp_all add: plain_env_def)
  have "objEquiv env rec ?x ?y True keys ?s = each (\<lambda>key. rec True (get ?x key) (get ?y key)) keys ?s"
    using plain by (auto simp: objEquiv_def no_collection_def both_def and_then_simps split: dclass.splits)
  moreover have "gives (each (\<lambda>key. rec True (get ?x key) (get ?y key)) keys ?s)
    (\<forall>k \<in> set keys. alike env {} (get ?x k) (get ?y k)) (\<lambda>m'. in_progress m' (insert a D))"
  proof (rule gives_each)
    show "in_progress ?s (insert a D)" using assms(4) by (auto simp: in_progress_def)
    show "gives (rec True (get ?x k) (get ?y k) st) (alike env {} (get ?x k) (get ?y k))
      (\<lambda>m'. in_progress m' (insert a D))" if "k \<in> set keys" "in_progress st (insert a D)" for k st
      using keys[OF that(1)] assms(3) that(2) by (intro exactD[OF assms(2)]) (auto dest: less_imp_le intro: le_trans)
  qed
  ultimately obtain st where st: "objEquiv env rec ?x ?y True keys ?s = Some (Inr (alike_under env {} a b keys), st)"
    "in_progress st (insert a D)"
    by (auto simp: gives_def alike_under_def)
  then show ?thesis
    by (cases st) (auto simp: compare_in_progress_def and_then_simps intro: in_progress_leave)
qed

lemma keyCheck_gives:
  assumes "plain_env env" "exact env S R (R a) rec" "\<And>c. c \<in> D \<Longrightarrow> R a < R c" "in_progress m D"
    and keys: "\<And>k. k \<in> set (keys_under env a lengths) \<Longrightarrow>
      within S (get (e_heap env a) k) \<and> rank R (get (e_heap env a) k) \<le> R a"
  shows "gives (keyCheck env rec a b True lengths m)
    (same_shape env a b lengths \<and> alike_under env {} a b (keys_under env a lengths)) (\<lambda>m'. in_progress m' D)"
proof (cases "keys_to_check (e_heap env a) (e_heap env b) True lengths")
  case (Inl r)
  then show ?thesis using assms(4) keys_to_check_exact[OF assms(1), of a b lengths]
    by (auto simp: keyCheck_def alike_under_def)
next
  case (Inr ks)
  obtain xs ys where ks: "ks = (xs, ys)" by fastforce
  have shape: "same_keys env xs ys = same_shape env a b lengths"
    "same_keys env xs ys \<Longrightarrow> keys_under env a lengths = xs"
    using keys_to_check_exact[OF assms(1), of a b lengths] Inr ks by auto
  have fresh: "m1 a = None" if "m = Some (m1, m2, p)" for m1 m2 p
    using assms(3)[of a] assms(4) that by (auto simp: in_progress_def)
  have run: "gives (compare_in_progress env rec a b True (keys_under env a lengths) (m1, m2, p))
    (alike_under env {} a b (keys_under env a lengths)) (\<lambda>m'. in_progress m' D)" if "dom m1 \<subseteq> D" for m1 m2 p
    by (rule compare_in_progress_gives[OF assms(1-3) that keys])
  show ?thesis
  proof (cases "same_keys env xs ys")
    case True
    show ?thesis
    proof (cases m)
      case None
      have "gives (compare_in_progress env rec a b True xs (Map.empty, Map.empty, 0))
        (alike_under env {} a b xs) (\<lambda>m'. in_progress m' D)"
        using run[of Map.empty] shape(2)[OF True] by simp
      then show ?thesis using None True Inr ks shape by (auto simp: keyCheck_def gives_def)
    next
      case (Some mm)
      obtain m1 m2 p where m: "m = Some (m1, m2, p)" using Some by (cases mm) auto
      have "dom m1 \<subseteq> D" using assms(4) m by (simp add: in_progress_def)
      then have "gives (compare_in_progress env rec a b True xs (m1, m2, p + 1))
        (alike_under env {} a b xs) (\<lambda>m'. in_progress m' D)"
        using run[of m1] shape(2)[OF True] by simp
      then show ?thesis using m fresh[OF m] True Inr ks shape by (auto simp: keyCheck_def gives_def)
    qed
  qed (use Inr ks shape assms(4) in \<open>auto simp: keyCheck_def\<close>)
qed

lemma alike_objects:
  assumes "a \<noteq> b"
  shows "alike env {} (VObj a) (VObj b) \<longleftrightarrow> shallow env a b \<and> (\<forall>(v, w) \<in> inside env a b. alike env {} v w)"
proof
  show "shallow env a b \<and> (\<forall>(v, w) \<in> inside env a b. alike env {} v w)" if "alike env {} (VObj a) (VObj b)"
    using that assms by (cases rule: alike.cases) (auto simp: strict_eq_def is_zero_def is_nan_def)
qed (auto intro: alike_object)

lemma alike_strict_eq:
  assumes "strict_eq v w"
  shows "alike env {} v w = (is_zero v \<longrightarrow> v = w)"
proof
  show "is_zero v \<longrightarrow> v = w" if "alike env {} v w"
    using that by (cases rule: alike.cases) (auto simp: is_zero_def is_nan_def)
  show "alike env {} v w" if "is_zero v \<longrightarrow> v = w" using assms that by (rule alike_same)
qed

lemma alike_other:
  assumes "\<not> strict_eq v w" "\<not> (is_object v \<and> is_object w)"
  shows "alike env {} v w = (is_nan v \<and> is_nan w)"
proof
  show "is_nan v \<and> is_nan w" if "alike env {} v w"
    using that assms by (cases rule: alike.cases) (auto simp: is_object_def)
qed (auto intro: alike_nan)

text \<open>Agreement of two objects, by the facets.\<close>

lemma alike_by_keys:
  assumes "a \<noteq> b" "d_tag (e_heap env a) = d_tag (e_heap env b)"
    "d_proto (e_heap env a) = d_proto (e_heap env b)" "same_facet (facet env a) (facet env b)"
    "counted (facet env a) = map_option fst lengths" "counted (facet env b) = map_option snd lengths"
  shows "alike env {} (VObj a) (VObj b) \<longleftrightarrow>
    (\<forall>v w m n. facet env a = Boxed v m \<longrightarrow> facet env b = Boxed w n \<longrightarrow> alike env {} v w) \<and>
    same_shape env a b lengths \<and> alike_under env {} a b (keys_under env a lengths)"
proof -
  have "shallow env a b \<longleftrightarrow> same_shape env a b lengths" using assms
    by (cases lengths) (auto simp: shallow_def same_shape_def Let_def)
  moreover have "(\<forall>(v, w) \<in> inside env a b. alike env {} v w) \<longleftrightarrow>
    (\<forall>v w m n. facet env a = Boxed v m \<longrightarrow> facet env b = Boxed w n \<longrightarrow> alike env {} v w) \<and>
    alike_under env {} a b (keys_under env a lengths)" using assms(5)
    by (cases lengths) (auto simp: inside_def keys_inside_def alike_under_def keys_under_def)
  ultimately show ?thesis using alike_objects[OF assms(1)] by blast
qed

lemma strict_gives:
  assumes "plain_env env" "exact env S R (R a) rec" "ranked env S R" "a \<in> S" "a \<noteq> b"
    "\<And>c. c \<in> D \<Longrightarrow> R a < R c" "in_progress m D"
  shows "gives (strictDeepEqual env rec (VObj a) (VObj b) m) (alike env {} (VObj a) (VObj b))
    (\<lambda>m'. in_progress m' D)"
proof -
  let ?x = "e_heap env a" and ?y = "e_heap env b"
  let ?similar = "d_tag ?x = d_tag ?y \<and> d_proto ?x = d_proto ?y \<and> same_facet (facet env a) (facet env b)"
  note reduce = strict_reduce[OF assms(1), of a b rec m]
  have keys: "gives (keyCheck env rec a b True lengths n)
      (same_shape env a b lengths \<and> alike_under env {} a b (keys_under env a lengths)) (\<lambda>m'. in_progress m' D)"
    if "counted (facet env a) = map_option fst lengths" "in_progress n D" for lengths n
    using assms(3,4) that(1)
    by (intro keyCheck_gives[OF assms(1,2,6) that(2)])
      (cases lengths; auto simp: ranked_def keys_inside_def keys_under_def)+
  show ?thesis
  proof (cases ?similar)
    case False
    then have "\<not> alike env {} (VObj a) (VObj b)"
      unfolding alike_objects[OF assms(5)] by (auto simp: shallow_def Let_def)
    then show ?thesis using False reduce assms(7) by (auto simp: strictDeepEqual_def Let_def)
  next
    case True
    note alike = alike_by_keys[OF assms(5)]
    consider (boxed) v i w j where "facet env a = Boxed v i" "facet env b = Boxed w j" |
      (bytes) s i t j where "facet env a = Bytes s i" "facet env b = Bytes t j" |
      (other) "counted (facet env a) = None" "counted (facet env b) = None"
      using True by (cases "facet env a"; cases "facet env b") auto
    then show ?thesis
    proof cases
      case boxed
      let ?lengths = "Some (i, str_length v (d_length ?y))"
      have "gives (rec True v w None) (alike env {} v w) (\<lambda>m'. in_progress m' {})"
        by (rule exactD[OF assms(2)]) (use assms(3,4) boxed in \<open>auto simp: ranked_def\<close>)
      then have unboxed: "gives (map_option (\<lambda>(r, _). (r, m)) (rec True v w None)) (alike env {} v w)
        (\<lambda>m'. in_progress m' D)" using assms(7) by (auto simp: gives_def)
      have run: "gives (strictDeepEqual env rec (VObj a) (VObj b) m)
        (alike env {} v w \<and> same_shape env a b ?lengths \<and> alike_under env {} a b (keys_under env a ?lengths))
        (\<lambda>m'. in_progress m' D)"
        using reduce True boxed gives_both[OF unboxed keys[of ?lengths]] by simp
      have "j = str_length v (d_length ?y)" if "alike env {} v w"
        using facet_Boxed[OF boxed(2)] alike_length[OF that] by metis
      moreover have "alike env {} v w" if "alike env {} (VObj a) (VObj b)"
        using that boxed unfolding alike_objects[OF assms(5)] by (auto simp: inside_def)
      ultimately have "alike env {} (VObj a) (VObj b) = (alike env {} v w \<and> same_shape env a b ?lengths \<and>
          alike_under env {} a b (keys_under env a ?lengths))"
        using alike[of env ?lengths] True boxed by (cases "alike env {} v w") auto
      then show ?thesis using run by simp
    next
      case bytes
      then show ?thesis using reduce True keys[of "Some (i, j)" m] alike[of env "Some (i, j)"] assms(7) by simp
    next
      case other
      have "strictDeepEqual env rec (VObj a) (VObj b) m = keyCheck env rec a b True None m"
        using reduce True other by (auto split: facet.splits)
      moreover have "facet env a \<noteq> Boxed v n" for v n using other by auto
      ultimately show ?thesis using other True keys[of None m] alike[of env None] assms(7) by simp
    qed
  qed
qed

lemma exact_deep:
  assumes "plain_env env" "ranked env S R"
  shows "exact env S R n (deep env (Suc n))"
proof (induction n rule: less_induct)
  case (less n)
  have "gives (deep env (Suc n) True v w m) (alike env {} v w) (\<lambda>m'. in_progress m' D)"
    if v: "within S v" "rank R v \<le> n" "\<forall>c \<in> D. rank R v \<le> R c" "in_progress m D" for v w m D
  proof (cases "strict_eq v w")
    case True
    then show ?thesis using alike_strict_eq[OF True] v(4) by (simp add: innerDeepEqual_def object_is_def)
  next
    case False
    then have deep: "deep env (Suc n) True v w m = strictDeepEqual env (deep env n) v w m"
      by (simp add: innerDeepEqual_def)
    show ?thesis
    proof (cases "is_object v \<and> is_object w")
      case True
      then obtain a b where ab: "v = VObj a" "w = VObj b" by (auto simp: is_object_def split: dval.splits)
      have neq: "a \<noteq> b" using False ab by (auto simp: strict_eq_def is_nan_def)
      have small: "a \<in> S" "R a < n" using v(1,2) ab by (simp_all add: within_def rank_def)
      have below: "R a < R c" if "c \<in> D" for c using v(3) that ab by (auto simp: rank_def)
      have inner: "exact env S R (R a) (deep env n)"
      proof -
        obtain k where k: "n = Suc k" using small(2) by (cases n) simp_all
        have "exact env S R k (deep env (Suc k))" by (rule less) (simp add: k)
        then show ?thesis unfolding k by (rule exact_mono) (use small(2) k in simp)
      qed
      have "in_progress m D" by (rule v(4))
      from strict_gives[OF assms(1) inner assms(2) small(1) neq below this]
      show ?thesis unfolding deep unfolding ab .
    next
      case False
      show ?thesis using deep v(4) False alike_other[OF \<open>\<not> strict_eq v w\<close> False, of env]
        by (cases v; cases w) (auto simp: strictDeepEqual_def is_object_def is_nan_def)
    qed
  qed
  then show ?case unfolding exact_def by blast
qed

text \<open>
  C4. \<^verbatim>\<open>isDeepStrictEqual\<close> decides the specification when the left value has no cycle (a rank of
  its objects decreases inwards, and the fuel is more than the rank): it ends, throws nothing, and says
  \<^verbatim>\<open>true\<close> exactly for the values that are alike, whatever the right value is.  The heap is as before: no
  sets and maps, no own key that is a name of \<^verbatim>\<open>Object.prototype\<close>, objects with the same tag of the same
  kind, and a native comparison of byte arrays that is right.
\<close>

theorem strict_decides:
  assumes "plain_env env" "ranked env S R" "within S v" "rank R v < n"
  shows "isDeepStrictEqual env n v w = Some (Inr (alike env {} v w))"
proof -
  obtain k where k: "n = Suc k" using assms(4) by (cases n) simp_all
  have "gives (deep env (Suc k) True v w None) (alike env {} v w) (\<lambda>m'. in_progress m' {})"
    by (rule exactD[OF exact_deep[OF assms(1,2)] assms(3)]) (use assms(4) k in simp_all)
  then show ?thesis unfolding k by (auto simp: isDeepStrictEqual_def gives_def simp del: deep.simps)
qed

section \<open>Examples\<close>

text \<open>A heap of plain objects given by a list of their properties, and empty objects elsewhere.\<close>

definition plain_object :: "(jsstr \<times> dval) list \<Rightarrow> dobj" where
  "plain_object ps =
     \<lparr>d_tag = js ''[object Object]'', d_proto = Some 0, d_class = Plain, d_length = 0, d_isError = False,
      d_message = VUndef, d_name = VUndef, d_valueOf = None, d_props = ps, d_syms = [],
      d_other = (\<lambda>k. VUndef)\<rparr>"

definition plain_heap :: "(jsstr \<times> dval) list list \<Rightarrow> (dkey \<Rightarrow> bool) \<Rightarrow> denv" where
  "plain_heap obs proto =
     \<lparr>e_heap = (\<lambda>a. plain_object (if a < length obs then obs ! a else [])), e_onPrototype = proto,
      e_compare = (\<lambda>s t. if s = t then 0 else 1), e_numToStr = (\<lambda>v. []), e_strToNum = (\<lambda>s. VUndef),
      e_looseFun = (\<lambda>v w. False)\<rparr>"

lemma e_heap_plain [simp]:
  "e_heap (plain_heap obs proto) a = plain_object (if a < length obs then obs ! a else [])"
  by (simp add: plain_heap_def)

lemma facet_plain [simp]: "facet (plain_heap obs proto) a = Nothing"
  by (rule facet_object) (simp add: plain_object_def)

lemma plain_env_plain:
  assumes "\<And>ps. ps \<in> set obs \<Longrightarrow> distinct (map fst ps) \<and> (\<forall>k \<in> set (map fst ps). \<not> proto (KStr k))"
  shows "plain_env (plain_heap obs proto)"
proof -
  let ?ps = "\<lambda>a. if a < length obs then obs ! a else []"
  have "distinct (map fst (?ps a)) \<and> (\<forall>k \<in> set (map fst (?ps a)). \<not> proto (KStr k))" for a
    using assms[of "obs ! a"] by simp
  then have "distinct (map fst (?ps a))" "\<forall>k \<in> set (map fst (?ps a)). \<not> proto (KStr k)" for a by blast+
  then show ?thesis
    unfolding plain_env_def facet_plain e_heap_plain
    by (auto simp: plain_heap_def plain_object_def no_collection_def string_keys_def symbol_keys_def enumerable_symbols_def)
qed

text \<open>
  Two objects with a cycle through themselves, \<^verbatim>\<open>a = {s: a}\<close>, are found to be alike.  The objects
  \<^verbatim>\<open>{s: {s: 1}}\<close> and \<^verbatim>\<open>{s: {s: '1'}}\<close> have no cycle.
\<close>

abbreviation key_s :: jsstr where
  "key_s \<equiv> js ''s''"

definition loops :: denv where
  "loops = plain_heap [[(key_s, VObj 0)], [(key_s, VObj 1)]] (\<lambda>k. k = KStr (js ''toString''))"

definition leaves :: denv where
  "leaves = plain_heap
     [[(key_s, VObj 1)], [(key_s, VNum (Fin 1))], [(key_s, VObj 3)], [(key_s, VStr (js ''1''))]]
     (\<lambda>k. k = KStr (js ''toString''))"

lemma plain_examples: "plain_env loops" "plain_env leaves"
  unfolding loops_def leaves_def by (rule plain_env_plain; force simp: js_def)+

lemma loops_equal: "isDeepStrictEqual loops 5 (VObj 0) (VObj 1) = Some (Inr True)"
  by code_simp

lemma strict_equal_alike_witness: "alike loops {} (VObj 0) (VObj 1)"
  by (rule strict_equal_alike[OF plain_examples(1) loops_equal])

lemma leaves_ranked: "ranked leaves {0, 1} (\<lambda>a. 1 - a)"
  unfolding ranked_def leaves_def facet_plain
  by (auto simp: keys_inside_def string_keys_def symbol_keys_def enumerable_symbols_def plain_object_def
      within_def rank_def get_def)

lemma strict_decides_witness:
  "isDeepStrictEqual leaves 3 (VObj 0) (VObj 2) = Some (Inr (alike leaves {} (VObj 0) (VObj 2)))"
  by (rule strict_decides[OF plain_examples(2) leaves_ranked]) (simp_all add: within_def rank_def)

section \<open>What the comparison does not do\<close>

text \<open>\<^verbatim>\<open>const keys = {}\<close> inherits \<^verbatim>\<open>toString\<close>: \<^verbatim>\<open>{s: undefined}\<close> and \<^verbatim>\<open>{toString: 5}\<close> count as equal.\<close>

lemma inherited_name_equal:
  "isDeepStrictEqual
     (plain_heap [[(key_s, VUndef)], [(js ''toString'', VNum (Fin 5))]] (\<lambda>k. k = KStr (js ''toString'')))
     2 (VObj 0) (VObj 1) = Some (Inr True)"
  by code_simp

end
