(* ===== verification/Deep_Equal_Cycles.thy ===== *)
theory Deep_Equal_Cycles
  imports Deep_Equal_Props
begin

text \<open>
  The memos of \<^verbatim>\<open>lib_js/internal/util/comparisons.js\<close> do not end every recursion: \<^verbatim>\<open>delete\<close> in an
  inner comparison of the same object takes away the entry of the outer one.  With
  \<^verbatim>\<open>a = {p: a, q: a}\<close>, \<^verbatim>\<open>x = {p: y, q: x}\<close> and \<^verbatim>\<open>y = {p: y, q: y}\<close> the comparison of \<^verbatim>\<open>a\<close> and
  \<^verbatim>\<open>x\<close> never ends, although they are alike.
\<close>

section \<open>Comparisons of plain objects\<close>

lemma plain_inner:
  "a \<noteq> b \<Longrightarrow> deep (plain_heap obs proto) (Suc n) True (VObj a) (VObj b) m =
     keyCheck (plain_heap obs proto) (deep (plain_heap obs proto) n) a b True None m"
  by (simp add: innerDeepEqual_def strict_eq_def is_zero_def is_nan_def strictDeepEqual_def plain_object_def)

lemma plain_enter:
  assumes "a < length obs" "b < length obs" "map fst (obs ! a) = map fst (obs ! b)"
    "m1 a = None \<or> m2 b = None"
  shows "keyCheck (plain_heap obs proto) rec a b True None (Some (m1, m2, p)) =
    compare_in_progress (plain_heap obs proto) rec a b True (map (KStr \<circ> fst) (obs ! a)) (m1, m2, p + 1)"
proof -
  have "length (obs ! a) = length (obs ! b)" using assms(3) by (metis length_map)
  then have "keys_to_check (plain_object (obs ! a)) (plain_object (obs ! b)) True None =
      Inr (map (KStr \<circ> fst) (obs ! a), map (KStr \<circ> fst) (obs ! b))"
    by (simp add: keys_to_check_def plain_object_def enumerable_symbols_def)
  moreover have "map (KStr \<circ> fst) (obs ! b) = map (KStr \<circ> fst) (obs ! a)"
    using assms(3) by (metis map_map)
  ultimately show ?thesis using assms(1,2,4)
    by (auto simp: keyCheck_def same_keys_def list_all_iff split: option.splits)
qed

text \<open>The comparison of the values under two keys, and the entries it takes away.\<close>

definition leave :: "nat \<Rightarrow> nat \<Rightarrow> memos \<Rightarrow> memos" where
  "leave a b m = (case m of None \<Rightarrow> None | Some (n1, n2, p) \<Rightarrow> Some (n1(a := None), n2(b := None), p))"

lemma plain_compare:
  assumes "a < length obs" "b < length obs"
    "rec True (get (plain_object (obs ! a)) k1) (get (plain_object (obs ! b)) k1) (Some (m1(a \<mapsto> p), m2(b \<mapsto> p), p)) =
       Some (Inr True, st)"
  shows "compare_in_progress (plain_heap obs proto) rec a b True [k1, k2] (m1, m2, p) =
    map_option (\<lambda>(r, s). (r, case r of Inl e \<Rightarrow> s | Inr ok \<Rightarrow> leave a b s))
      (rec True (get (plain_object (obs ! a)) k2) (get (plain_object (obs ! b)) k2) st)"
proof -
  have "d_class (plain_object ps) = Plain" for ps by (simp add: plain_object_def)
  then show ?thesis using assms
    by (simp add: compare_in_progress_def objEquiv_def both_def and_then_simps)
      (auto simp: and_then_def return_to_def leave_def split: option.splits sum.splits bool.splits)
qed

lemma plain_compare_stuck:
  assumes "a < length obs" "b < length obs"
    "rec True (get (plain_object (obs ! a)) k1) (get (plain_object (obs ! b)) k1) (Some (m1(a \<mapsto> p), m2(b \<mapsto> p), p)) =
       None"
  shows "compare_in_progress (plain_heap obs proto) rec a b True (k1 # ks) (m1, m2, p) = None"
proof -
  have "d_class (plain_object ps) = Plain" for ps by (simp add: plain_object_def)
  then show ?thesis using assms
    by (simp add: compare_in_progress_def objEquiv_def both_def and_then_simps) (simp add: and_then_def)
qed

text \<open>A pair that is in progress on both sides.\<close>

lemma plain_hit:
  assumes "a < length obs" "b < length obs" "map fst (obs ! a) = map fst (obs ! b)" "m1 a = Some q" "m2 b = Some q"
  shows "keyCheck (plain_heap obs proto) rec a b True None (Some (m1, m2, p)) = return_to True (Some (m1, m2, p))"
proof -
  have "length (obs ! a) = length (obs ! b)" using assms(3) by (metis length_map)
  then have "keys_to_check (plain_object (obs ! a)) (plain_object (obs ! b)) True None =
      Inr (map (KStr \<circ> fst) (obs ! a), map (KStr \<circ> fst) (obs ! b))"
    by (simp add: keys_to_check_def plain_object_def enumerable_symbols_def)
  moreover have "map (KStr \<circ> fst) (obs ! b) = map (KStr \<circ> fst) (obs ! a)"
    using assms(3) by (metis map_map)
  ultimately show ?thesis using assms(1,2,4,5)
    by (auto simp: keyCheck_def same_keys_def list_all_iff)
qed

section \<open>A comparison that does not end\<close>

definition key_p :: jsstr where
  "key_p = js ''p''"

definition key_q :: jsstr where
  "key_q = js ''q''"

lemma key_p_neq_q [simp]: "key_p \<noteq> key_q" "key_q \<noteq> key_p"
  by (simp_all add: key_p_def key_q_def)

definition tangled :: "(jsstr \<times> dval) list list" where
  "tangled =
     [[(key_p, VObj 0), (key_q, VObj 0)], [(key_p, VObj 2), (key_q, VObj 1)], [(key_p, VObj 2), (key_q, VObj 2)]]"

abbreviation tangle :: denv where
  "tangle \<equiv> plain_heap tangled (\<lambda>k. False)"

lemma tangled_objects:
  "length tangled = 3"
  "map fst (tangled ! 0) = [key_p, key_q]" "map fst (tangled ! 1) = [key_p, key_q]" "map fst (tangled ! 2) = [key_p, key_q]"
  "map (KStr \<circ> fst) (tangled ! 0) = [KStr key_p, KStr key_q]"
  "get (plain_object (tangled ! 0)) (KStr key_p) = VObj 0" "get (plain_object (tangled ! 0)) (KStr key_q) = VObj 0"
  "get (plain_object (tangled ! 1)) (KStr key_p) = VObj 2" "get (plain_object (tangled ! 1)) (KStr key_q) = VObj 1"
  "get (plain_object (tangled ! 2)) (KStr key_p) = VObj 2" "get (plain_object (tangled ! 2)) (KStr key_q) = VObj 2"
  by (simp_all add: tangled_def get_def plain_object_def)

lemmas tangled_simps = tangled_objects tangled_objects[unfolded One_nat_def]

lemma tangle_compare:
  assumes "b = 1 \<or> b = 2"
    "rec True (VObj 0) (VObj 2) (Some (m1(0 \<mapsto> p), m2(b \<mapsto> p), p)) = Some (Inr True, st)"
  shows "compare_in_progress tangle rec 0 b True [KStr key_p, KStr key_q] (m1, m2, p) =
    map_option (\<lambda>(r, s). (r, case r of Inl e \<Rightarrow> s | Inr ok \<Rightarrow> leave 0 b s)) (rec True (VObj 0) (VObj b) st)"
proof -
  have "0 < length tangled" "b < length tangled" using assms(1) by (auto simp: tangled_simps)
  note step = plain_compare[OF this, of rec "KStr key_p" m1 p m2 st _ "KStr key_q"]
  show ?thesis by (rule trans[OF step]) (use assms in \<open>auto simp: tangled_simps\<close>)
qed

lemma tangle_stuck:
  assumes "b = 1 \<or> b = 2"
    "rec True (VObj 0) (VObj 2) (Some (m1(0 \<mapsto> p), m2(b \<mapsto> p), p)) = None"
  shows "compare_in_progress tangle rec 0 b True [KStr key_p, KStr key_q] (m1, m2, p) = None"
  by (rule plain_compare_stuck) (use assms in \<open>auto simp: tangled_simps\<close>)

lemma tangle_hit:
  assumes "m1 0 = Some q" "m2 2 = Some q"
  shows "deep tangle n True (VObj 0) (VObj 2) (Some (m1, m2, p)) \<in> {None, Some (Inr True, Some (m1, m2, p))}"
proof (cases n)
  case (Suc k)
  have "deep tangle n True (VObj 0) (VObj 2) (Some (m1, m2, p)) = return_to True (Some (m1, m2, p))"
    unfolding Suc by (subst plain_inner, simp, rule plain_hit) (simp_all add: tangled_simps assms)
  then show ?thesis by (simp add: return_to_def)
qed simp

lemma tangle_inner:
  assumes "m2 2 = None"
  shows "deep tangle n True (VObj 0) (VObj 2) (Some (m1, m2, p)) \<in>
    {None, Some (Inr True, Some (m1(0 := None), m2, p + 1))}"
proof (cases n)
  case (Suc k)
  let ?s = "Some (m1(0 \<mapsto> p + 1), m2(2 \<mapsto> p + 1), p + 1)"
  have run: "deep tangle n True (VObj 0) (VObj 2) (Some (m1, m2, p)) =
      compare_in_progress tangle (deep tangle k) 0 2 True [KStr key_p, KStr key_q] (m1, m2, p + 1)"
    unfolding Suc tangled_objects(5)[symmetric]
    by (subst plain_inner, simp, rule plain_enter) (simp_all add: tangled_simps assms)
  have hit: "deep tangle k True (VObj 0) (VObj 2) ?s \<in> {None, Some (Inr True, ?s)}"
    by (rule tangle_hit) simp_all
  show ?thesis
  proof (cases "deep tangle k True (VObj 0) (VObj 2) ?s")
    case None
    then show ?thesis unfolding run using tangle_stuck[of 2 "deep tangle k"] by simp
  next
    case (Some r)
    then have same: "deep tangle k True (VObj 0) (VObj 2) ?s = Some (Inr True, ?s)" using hit by simp
    have "compare_in_progress tangle (deep tangle k) 0 2 True [KStr key_p, KStr key_q] (m1, m2, p + 1) =
      Some (Inr True, leave 0 2 ?s)"
      using tangle_compare[of 2 "deep tangle k", OF _ same] same by simp
    then show ?thesis unfolding run using assms by (simp add: leave_def fun_upd_idem)
  qed
qed simp

lemma tangle_loop:
  assumes "m2 2 = None"
  shows "compare_in_progress tangle (deep tangle n) 0 1 True [KStr key_p, KStr key_q] (m1, m2, p) = None"
  using assms
proof (induction n arbitrary: m1 m2 p)
  case 0
  show ?case by (rule plain_compare_stuck) (simp_all add: tangled_objects)
next
  case (Suc n)
  let ?s = "Some (m1(0 \<mapsto> p), m2(1 \<mapsto> p), p)"
  let ?t = "Some ((m1(0 \<mapsto> p))(0 := None), m2(1 \<mapsto> p), p + 1)"
  have first: "deep tangle (Suc n) True (VObj 0) (VObj 2) ?s \<in> {None, Some (Inr True, ?t)}"
    by (rule tangle_inner) (simp add: Suc.prems)
  have again: "deep tangle (Suc n) True (VObj 0) (VObj 1) ?t = None"
  proof -
    have "deep tangle (Suc n) True (VObj 0) (VObj 1) ?t =
        compare_in_progress tangle (deep tangle n) 0 1 True [KStr key_p, KStr key_q]
          ((m1(0 \<mapsto> p))(0 := None), m2(1 \<mapsto> p), p + 1 + 1)"
      unfolding tangled_objects(5)[symmetric]
      by (subst plain_inner, simp, rule plain_enter) (simp_all add: tangled_simps)
    moreover have "(m2(1 \<mapsto> p)) 2 = None" using Suc.prems by simp
    ultimately show ?thesis by (simp only: Suc.IH)
  qed
  show ?case
  proof (cases "deep tangle (Suc n) True (VObj 0) (VObj 2) ?s")
    case None
    then show ?thesis using tangle_stuck[of 1 "deep tangle (Suc n)"] by simp
  next
    case (Some r)
    then have same: "deep tangle (Suc n) True (VObj 0) (VObj 2) ?s = Some (Inr True, ?t)" using first by simp
    show ?thesis using tangle_compare[of 1 "deep tangle (Suc n)", OF _ same] again by simp
  qed
qed

lemma tangle_alike:
  assumes "a < 3" "b < 3"
  shows "alike tangle {} (VObj a) (VObj b)"
  using assms
proof (coinduction arbitrary: a b rule: alike.coinduct)
  case alike
  have keys: "string_keys (plain_object (tangled ! c)) = [KStr key_p, KStr key_q]"
    "symbol_keys (plain_object (tangled ! c)) = []"
    "\<exists>d < 3. get (plain_object (tangled ! c)) (KStr key_p) = VObj d"
    "\<exists>d < 3. get (plain_object (tangled ! c)) (KStr key_q) = VObj d"
    "d_tag (plain_object (tangled ! c)) = js ''[object Object]''" "d_proto (plain_object (tangled ! c)) = Some 0"
    if "c < 3" for c
  proof -
    have "c = 0 \<or> c = 1 \<or> c = 2" using that by auto
    then show "string_keys (plain_object (tangled ! c)) = [KStr key_p, KStr key_q]"
      "\<exists>d < 3. get (plain_object (tangled ! c)) (KStr key_p) = VObj d"
      "\<exists>d < 3. get (plain_object (tangled ! c)) (KStr key_q) = VObj d"
      by (auto simp: tangled_def string_keys_def plain_object_def get_def)
  qed (simp_all add: plain_object_def symbol_keys_def enumerable_symbols_def)
  have "shallow tangle a b"
    using alike keys by (simp add: shallow_def Let_def tangled_objects(1))
  moreover have "\<exists>c d. v = VObj c \<and> w = VObj d \<and> c < 3 \<and> d < 3" if "(v, w) \<in> inside tangle a b" for v w
  proof -
    have "\<exists>k. (k = KStr key_p \<or> k = KStr key_q) \<and>
      v = get (plain_object (tangled ! a)) k \<and> w = get (plain_object (tangled ! b)) k"
      using that alike keys(1,2)[of a] by (auto simp: inside_def keys_inside_def tangled_objects(1))
    then show ?thesis using keys(3,4)[of a] keys(3,4)[of b] alike by metis
  qed
  ultimately show ?case using alike by blast
qed

text \<open>
  C26. The strict comparison of \<^verbatim>\<open>a\<close> with \<^verbatim>\<open>x\<close> never ends, although the two are alike.
\<close>

theorem cycle_never_ends:
  "isDeepStrictEqual tangle n (VObj 0) (VObj 1) = None \<and> alike tangle {} (VObj 0) (VObj 1)"
proof
  show "isDeepStrictEqual tangle n (VObj 0) (VObj 1) = None"
  proof (cases n)
    case (Suc k)
    have "keyCheck tangle (deep tangle k) 0 1 True None None =
        map_option (\<lambda>(r, s). (r, None))
          (compare_in_progress tangle (deep tangle k) 0 1 True [KStr key_p, KStr key_q] (Map.empty, Map.empty, 0))"
      by (simp add: tangled_def keyCheck_def keys_to_check_def plain_object_def enumerable_symbols_def same_keys_def Let_def)
    then show ?thesis unfolding Suc using tangle_loop[of Map.empty k Map.empty 0]
      by (simp add: isDeepStrictEqual_def plain_inner del: deep.simps)
  qed (simp add: isDeepStrictEqual_def)
qed (rule tangle_alike; simp)

end
