(* ===== verification/Http_Agent.thy ===== *)
theory Http_Agent
  imports Util_Core "HOL-Library.AList"
begin

text \<open>
  The class \<^verbatim>\<open>Agent\<close> of \<^verbatim>\<open>lib_js/http.js\<close>: the pool of connections under the name of a host.  Sockets
  and requests are numbers; what the agent does to them (connecting, giving a socket to a request,
  destroying it) is logged.  The code that owns the sockets calls \<^verbatim>\<open>freeSocket\<close> and \<^verbatim>\<open>removeSocket\<close>.
\<close>

section \<open>State\<close>

datatype agent_call =
    CreateConnection nat jsstr
  | OnSocket nat nat
  | DestroySocket nat
  | KeepSocketAlive nat
  | ReuseSocket nat

datatype agent_error = PushToUndefined | SocketClosed

text \<open>
  Requests, sockets and free sockets are objects with an array for every name.  \<open>ag_maxSockets\<close> is
  \<open>None\<close> for \<^verbatim>\<open>Infinity\<close>.  \<open>ag_dead\<close>: the sockets that are destroyed.  The log has the last call first.
\<close>

record agent =
  ag_requests :: "(jsstr \<times> nat list) list"
  ag_sockets :: "(jsstr \<times> nat list) list"
  ag_free :: "(jsstr \<times> nat list) list"
  ag_keepAlive :: bool
  ag_maxSockets :: "nat option"
  ag_maxFreeSockets :: nat
  ag_next :: nat
  ag_dead :: "nat set"
  ag_log :: "agent_call list"

record agent_options =
  ao_keepAlive :: "bool option"
  ao_maxSockets :: "nat option"
  ao_maxFreeSockets :: "nat option"

definition new_Agent :: "agent_options \<Rightarrow> agent" where
  "new_Agent options =
     \<lparr>ag_requests = [], ag_sockets = [], ag_free = [],
      ag_keepAlive = (case ao_keepAlive options of Some b \<Rightarrow> b | None \<Rightarrow> False),
      ag_maxSockets = ao_maxSockets options,
      ag_maxFreeSockets = (case ao_maxFreeSockets options of Some n \<Rightarrow> n | None \<Rightarrow> 256),
      ag_next = 0, ag_dead = {}, ag_log = []\<rparr>"

text \<open>The array under a name, empty when there is none.\<close>

definition under :: "(jsstr \<times> nat list) list \<Rightarrow> jsstr \<Rightarrow> nat list" where
  "under ob name = (case map_of ob name of Some xs \<Rightarrow> xs | None \<Rightarrow> [])"

definition agent_logs :: "agent_call \<Rightarrow> agent \<Rightarrow> agent" where
  "agent_logs c st = st\<lparr>ag_log := c # ag_log st\<rparr>"

section \<open>Names\<close>

record connect_options =
  co_host :: jsstr
  co_port :: "nat option"
  co_localAddress :: jsstr
  co_family :: "nat option"
  co_socketPath :: jsstr

definition getName :: "connect_options \<Rightarrow> jsstr" where
  "getName options =
     (if co_host options \<noteq> [] then co_host options else js ''localhost'') @ js '':'' @
     (case co_port options of Some p \<Rightarrow> if p \<noteq> 0 then nat_to_js p else [] | None \<Rightarrow> []) @ js '':'' @
     co_localAddress options @
     (case co_family options of
        Some f \<Rightarrow> if f = 4 \<or> f = 6 then js '':'' @ nat_to_js f else []
      | None \<Rightarrow> []) @
     (if co_socketPath options \<noteq> [] then js '':'' @ co_socketPath options else [])"

section \<open>Operations\<close>

definition destroySocket :: "nat \<Rightarrow> agent \<Rightarrow> agent" where
  "destroySocket s st = (agent_logs (DestroySocket s) st)\<lparr>ag_dead := insert s (ag_dead st)\<rparr>"

text \<open>\<^verbatim>\<open>createConnection\<close>: a new socket to the host that the options, here their name, stand for.\<close>

definition createConnection :: "jsstr \<Rightarrow> agent \<Rightarrow> nat \<times> agent" where
  "createConnection name st =
     (ag_next st, (agent_logs (CreateConnection (ag_next st) name) st)\<lparr>ag_next := ag_next st + 1\<rparr>)"

definition keepSocketAlive :: "nat \<Rightarrow> agent \<Rightarrow> bool \<times> agent" where
  "keepSocketAlive s st = (True, agent_logs (KeepSocketAlive s) st)"

definition reuseSocket :: "nat \<Rightarrow> agent \<Rightarrow> agent" where
  "reuseSocket s st = agent_logs (ReuseSocket s) st"

text \<open>Removal from the array under a name; an array that becomes empty is deleted.\<close>

definition remove_from :: "nat \<Rightarrow> jsstr \<Rightarrow> (jsstr \<times> nat list) list \<Rightarrow> (jsstr \<times> nat list) list" where
  "remove_from s name ob =
     (if s \<in> set (under ob name)
      then (let rest = remove1 s (under ob name) in
            if rest = [] then AList.delete name ob else AList.update name rest ob)
      else ob)"

definition removeSocket :: "nat \<Rightarrow> jsstr \<Rightarrow> agent \<Rightarrow> agent_error option \<times> agent" where
  "removeSocket s name st =
     (let st1 = st\<lparr>ag_sockets := remove_from s name (ag_sockets st), ag_free := remove_from s name (ag_free st)\<rparr> in
      case under (ag_requests st1) name of
        [] \<Rightarrow> (None, st1)
      | req # _ \<Rightarrow>
          (case createConnection name st1 of
             (socket, st2) \<Rightarrow>
               let st3 = agent_logs (OnSocket req socket) st2 in
               (case map_of (ag_sockets st3) name of
                  None \<Rightarrow> (Some PushToUndefined, st3)
                | Some xs \<Rightarrow> (None, st3\<lparr>ag_sockets := AList.update name (xs @ [socket]) (ag_sockets st3)\<rparr>))))"

definition within_limit :: "nat option \<Rightarrow> nat \<Rightarrow> bool" where
  "within_limit limit n = (case limit of None \<Rightarrow> True | Some m \<Rightarrow> n \<le> m)"

definition freeSocket :: "nat \<Rightarrow> jsstr \<Rightarrow> agent \<Rightarrow> agent_error option \<times> agent" where
  "freeSocket s name st =
     (if s \<in> ag_dead st then (Some SocketClosed, st)
      else
        (case under (ag_requests st) name of
           req # rest \<Rightarrow>
             (None, (agent_logs (OnSocket req s) st)
                \<lparr>ag_requests := (if rest = [] then AList.delete name (ag_requests st)
                                else AList.update name rest (ag_requests st))\<rparr>)
         | [] \<Rightarrow>
             if \<not> ag_keepAlive st then (None, destroySocket s st)
             else
               (let free = under (ag_free st) name; count = length free + length (under (ag_sockets st) name) in
                if \<not> within_limit (ag_maxSockets st) count \<or> length free \<ge> ag_maxFreeSockets st
                then (None, destroySocket s st)
                else
                  (case keepSocketAlive s st of
                     (keep, st1) \<Rightarrow>
                       if keep then (None, st1\<lparr>ag_free := AList.update name (free @ [s]) (ag_free st1)\<rparr>)
                       else (None, destroySocket s st1)))))"

definition addRequest :: "nat \<Rightarrow> jsstr \<Rightarrow> agent \<Rightarrow> agent" where
  "addRequest req name st0 =
     (let st = (if map_of (ag_sockets st0) name = None
                then st0\<lparr>ag_sockets := AList.update name [] (ag_sockets st0)\<rparr> else st0);
          free = under (ag_free st) name;
          sockets = under (ag_sockets st) name;
          sockLen = length free + length sockets
      in case free of
           socket # rest \<Rightarrow>
             (let st1 = st\<lparr>ag_free := (if rest = [] then AList.delete name (ag_free st)
                                      else AList.update name rest (ag_free st))\<rparr>;
                  st2 = agent_logs (OnSocket req socket) (reuseSocket socket st1)
              in st2\<lparr>ag_sockets := AList.update name (sockets @ [socket]) (ag_sockets st2)\<rparr>)
         | [] \<Rightarrow>
             if within_limit (ag_maxSockets st) (sockLen + 1) then
               (case createConnection name st of
                  (socket, st1) \<Rightarrow>
                    let st2 = agent_logs (OnSocket req socket) st1
                    in st2\<lparr>ag_sockets := AList.update name (sockets @ [socket]) (ag_sockets st2)\<rparr>)
             else
               st\<lparr>ag_requests := AList.update name (under (ag_requests st) name @ [req]) (ag_requests st)\<rparr>)"

definition destroy_all :: "(jsstr \<times> nat list) list \<Rightarrow> agent \<Rightarrow> agent" where
  "destroy_all ob st = fold destroySocket (concat (map (under ob) (own_keys ob))) st"

definition destroyAgent :: "agent \<Rightarrow> agent" where
  "destroyAgent st = destroy_all (ag_sockets st) (destroy_all (ag_free st) st)"

end
