(* ===== verification/Http_Agent_Props.thy ===== *)
theory Http_Agent_Props
  imports Http_Agent
begin

text \<open>
  The connection pool of \<^verbatim>\<open>lib_js/http.js\<close> under any sequence of requests and of sockets that become
  free, are lost or die: the limit it keeps, and the slots it loses.
\<close>

section \<open>Runs\<close>

text \<open>
  A request; a socket that has answered its request and may be used again; a socket that closes while
  it serves a request, or must not be used again; a socket that closes while nothing looks after it;
  \<^verbatim>\<open>destroy\<close>.
\<close>

datatype agent_op = Add nat jsstr | Free nat jsstr | Lose nat jsstr | Die nat | DestroyAll

fun agent_do :: "agent_op \<Rightarrow> agent \<Rightarrow> agent_error option \<times> agent" where
  "agent_do (Add r name) st = (None, addRequest r name st)"
| "agent_do (Free s name) st = freeSocket s name st"
| "agent_do (Lose s name) st = removeSocket s name (st\<lparr>ag_dead := insert s (ag_dead st)\<rparr>)"
| "agent_do (Die s) st = (None, st\<lparr>ag_dead := insert s (ag_dead st)\<rparr>)"
| "agent_do DestroyAll st = (None, destroyAgent st)"

text \<open>
  The connections made for a name, and those of them that are still open: on the books of the agent
  or not.
\<close>

definition connections :: "agent \<Rightarrow> jsstr \<Rightarrow> nat set" where
  "connections st name =
     set (List.map_filter (\<lambda>c. case c of CreateConnection s n \<Rightarrow> if n = name then Some s else None | _ \<Rightarrow> None)
       (ag_log st))"

definition open_connections :: "agent \<Rightarrow> jsstr \<Rightarrow> nat set" where
  "open_connections st name = connections st name - ag_dead st"

text \<open>
  Every connection is made for a request.  A socket is freed or lost while it serves one: it is open,
  belongs to the name and does not wait among the free sockets.
\<close>

definition in_use :: "agent \<Rightarrow> nat \<Rightarrow> jsstr \<Rightarrow> bool" where
  "in_use st s name \<longleftrightarrow> s \<in> open_connections st name \<and> s \<notin> set (under (ag_free st) name)"

fun op_ok :: "agent \<Rightarrow> agent_op \<Rightarrow> bool" where
  "op_ok st (Add r name) = True"
| "op_ok st (Free s name) = in_use st s name"
| "op_ok st (Lose s name) = in_use st s name"
| "op_ok st (Die s) = (s < ag_next st)"
| "op_ok st DestroyAll = True"

fun allowed_run :: "agent \<Rightarrow> agent_op list \<Rightarrow> bool" where
  "allowed_run st [] = True"
| "allowed_run st (op # ops) = (op_ok st op \<and> allowed_run (snd (agent_do op st)) ops)"

fun after :: "agent_op list \<Rightarrow> agent \<Rightarrow> agent" where
  "after [] st = st"
| "after (op # ops) st = after ops (snd (agent_do op st))"

text \<open>The operations of one name.\<close>

fun about :: "jsstr \<Rightarrow> agent_op \<Rightarrow> bool" where
  "about name (Add r n) = (n = name)"
| "about name (Free s n) = (n = name)"
| "about name (Lose s n) = (n = name)"
| "about name (Die s) = True"
| "about name DestroyAll = True"

text \<open>
  How often the replacement of a lost socket of the name ended in the \<^verbatim>\<open>TypeError\<close> of a \<^verbatim>\<open>push\<close> on
  \<^verbatim>\<open>undefined\<close>.
\<close>

fun failed_replacements :: "jsstr \<Rightarrow> agent_op list \<Rightarrow> agent \<Rightarrow> nat" where
  "failed_replacements name [] st = 0"
| "failed_replacements name (op # ops) st =
     (if fst (agent_do op st) = Some PushToUndefined \<and> about name op then 1 else 0) +
     failed_replacements name ops (snd (agent_do op st))"

section \<open>Arrays under names\<close>





lemma agent_logs_simps [simp]:
  "ag_requests (agent_logs c st) = ag_requests st" "ag_sockets (agent_logs c st) = ag_sockets st"
  "ag_free (agent_logs c st) = ag_free st" "ag_dead (agent_logs c st) = ag_dead st"
  "ag_maxSockets (agent_logs c st) = ag_maxSockets st" "ag_next (agent_logs c st) = ag_next st"
  "ag_keepAlive (agent_logs c st) = ag_keepAlive st"
  by (simp_all add: agent_logs_def)

lemma connections_log:
  "connections (agent_logs c st) name =
     (case c of CreateConnection s n \<Rightarrow> (if n = name then {s} else {}) | _ \<Rightarrow> {}) \<union> connections st name"
  by (auto simp: connections_def agent_logs_def map_filter_simps split: agent_call.split)

lemma connections_cong: "ag_log st' = ag_log st \<Longrightarrow> connections st' name = connections st name"
  by (simp add: connections_def)

lemma connections_update [simp]:
  "connections (st\<lparr>ag_requests := rs\<rparr>) name = connections st name"
  "connections (st\<lparr>ag_sockets := ob\<rparr>) name = connections st name"
  "connections (st\<lparr>ag_free := ob\<rparr>) name = connections st name"
  "connections (st\<lparr>ag_next := n\<rparr>) name = connections st name"
  "connections (st\<lparr>ag_dead := d\<rparr>) name = connections st name"
  by (simp_all add: connections_def)


section \<open>The limit\<close>












lemma destroyed:
  "fold destroySocket ss st =
     st\<lparr>ag_log := rev (map DestroySocket ss) @ ag_log st, ag_dead := set ss \<union> ag_dead st\<rparr>"
  by (induction ss arbitrary: st) (simp_all add: destroySocket_def agent_logs_def)

lemma connections_destroyed [simp]:
  "connections (st\<lparr>ag_log := map DestroySocket ss @ ag_log st\<rparr>) name = connections st name"
  by (induction ss) (simp_all add: connections_def map_filter_simps)

lemma destroyAgent_shape:
  "\<exists>ss. destroyAgent st = st\<lparr>ag_log := map DestroySocket ss @ ag_log st, ag_dead := set ss \<union> ag_dead st\<rparr>"
  by (rule exI[of _ "rev (concat (map (under (ag_free st)) (own_keys (ag_free st))) @
      concat (map (under (ag_sockets st)) (own_keys (ag_sockets st))))"])
    (simp add: destroyAgent_def destroy_all_def destroyed Un_ac rev_map)






definition one_socket :: agent_options where
  "one_socket = \<lparr>ao_keepAlive = None, ao_maxSockets = Some 1, ao_maxFreeSockets = None\<rparr>"

abbreviation local_name :: jsstr where
  "local_name \<equiv> js ''localhost:80:''"


text \<open>
  The exception happens: the only socket is lost while a request waits, the connection that replaces
  it is on no books, and the next request opens another one.
\<close>

lemma limit_exceeded:
  "let ops = [Add 1 local_name, Add 2 local_name, Lose 0 local_name, Add 3 local_name]
   in allowed_run (new_Agent one_socket) ops \<and>
      open_connections (after ops (new_Agent one_socket)) local_name = {1, 2} \<and>
      failed_replacements local_name ops (new_Agent one_socket) = 1"
  by code_simp

section \<open>Slots that are lost\<close>

text \<open>The requests that were given a socket, the last first.\<close>

definition served :: "agent \<Rightarrow> nat list" where
  "served st = List.map_filter (\<lambda>c. case c of OnSocket r s \<Rightarrow> Some r | _ \<Rightarrow> None) (ag_log st)"

text \<open>A pool of one socket that is dead and still on the books; no other connection is open.\<close>

definition stuck :: "jsstr \<Rightarrow> agent \<Rightarrow> bool" where
  "stuck name st \<longleftrightarrow> ag_maxSockets st = Some 1 \<and> open_connections st name = {} \<and>
     (\<exists>s. map_of (ag_sockets st) name = Some [s]) \<and> under (ag_free st) name = []"

lemma stuck_step:
  assumes "stuck name st" "op_ok st op" "about name op"
  shows "stuck name (snd (agent_do op st)) \<and> served (snd (agent_do op st)) = served st"
proof -
  have none: "\<not> in_use st s name" for s using assms(1) by (simp add: stuck_def in_use_def)
  then consider q where "op = Add q name" | s where "op = Die s" | "op = DestroyAll"
    using assms(2,3) by (cases op) auto
  then show ?thesis
  proof cases
    case 1
    then show ?thesis using assms(1)
      by (auto simp: addRequest_def stuck_def under_def within_limit_def served_def Let_def open_connections_def)
  next
    case 2
    then show ?thesis using assms(1) by (auto simp: stuck_def served_def open_connections_def)
  next
    case 3
    obtain ss where ss: "destroyAgent st = st\<lparr>ag_log := map DestroySocket ss @ ag_log st, ag_dead := set ss \<union> ag_dead st\<rparr>"
      using destroyAgent_shape by blast
    have "List.map_filter (\<lambda>c. case c of OnSocket r s \<Rightarrow> Some r | _ \<Rightarrow> None) (map DestroySocket ss) = []"
      by (induction ss) (simp_all add: map_filter_simps)
    then have "served (destroyAgent st) = served st" by (simp add: ss served_def map_filter_def)
    moreover have "connections (destroyAgent st) name = connections st name" "ag_dead st \<subseteq> ag_dead (destroyAgent st)"
      "ag_maxSockets (destroyAgent st) = ag_maxSockets st" "ag_sockets (destroyAgent st) = ag_sockets st"
      "ag_free (destroyAgent st) = ag_free st"
      unfolding ss by (auto simp: connections_destroyed)
    ultimately show ?thesis using assms(1) 3 by (auto simp: stuck_def open_connections_def)
  qed
qed

text \<open>
  C38. The slot of a socket that is freed is lost.  With \<^verbatim>\<open>maxSockets\<close> 1 and without \<^verbatim>\<open>keepAlive\<close>, when the
  only open connection to a host, which is the only one on the books, has answered its request and no
  other request waits for that host, then it is closed and stays on the books: whatever follows for this
  host, no further request is ever given a socket.
\<close>

theorem slots_leak:
  assumes "ag_maxSockets st = Some 1" "\<not> ag_keepAlive st" "under (ag_requests st) name = []"
    "open_connections st name = {s}" "map_of (ag_sockets st) name = Some [s]" "under (ag_free st) name = []"
    "allowed_run (snd (freeSocket s name st)) ops" "list_all (about name) ops"
  shows "served (after ops (snd (freeSocket s name st))) = served st"
proof -
  have "s \<notin> ag_dead st" using assms(4) by (auto simp: open_connections_def)
  then have start: "snd (freeSocket s name st) = destroySocket s st"
    using assms(2,3) by (simp add: freeSocket_def)
  have "stuck name (destroySocket s st)" "served (destroySocket s st) = served st"
  proof -
    have "open_connections (destroySocket s st) name = open_connections st name - {s}"
      by (auto simp: open_connections_def destroySocket_def connections_log)
    then show "stuck name (destroySocket s st)" using assms(1,4-6) by (simp add: stuck_def destroySocket_def)
    show "served (destroySocket s st) = served st"
      by (simp add: served_def destroySocket_def agent_logs_def map_filter_simps)
  qed
  moreover have "stuck name st' \<Longrightarrow> allowed_run st' ops \<Longrightarrow> served (after ops st') = served st'" for st'
    using assms(8)
  proof (induction ops arbitrary: st')
    case (Cons op ops)
    then show ?case using stuck_step[of name st' op] by simp
  qed simp
  ultimately show ?thesis using assms(7) start by simp
qed

theorem slots_leak_witness:
  "served (after [Add 2 local_name, Die 0, DestroyAll, Add 3 local_name]
     (snd (freeSocket 0 local_name (addRequest 1 local_name (new_Agent one_socket))))) = [1]"
proof -
  let ?st = "addRequest 1 local_name (new_Agent one_socket)"
  let ?ops = "[Add 2 local_name, Die 0, DestroyAll, Add 3 local_name]"
  have "ag_maxSockets ?st = Some 1" "\<not> ag_keepAlive ?st" "under (ag_requests ?st) local_name = []"
    "open_connections ?st local_name = {0}" "map_of (ag_sockets ?st) local_name = Some [0]"
    "under (ag_free ?st) local_name = []" "allowed_run (snd (freeSocket 0 local_name ?st)) ?ops"
    "list_all (about local_name) ?ops" "served ?st = [1]"
    by code_simp+
  with slots_leak[of ?st local_name 0 ?ops] show ?thesis by simp
qed

text \<open>
  A kept socket that closes while it waits stays among the free ones; the next request gets the dead
  socket.
\<close>

definition keeping :: agent_options where
  "keeping = \<lparr>ao_keepAlive = Some True, ao_maxSockets = Some 2, ao_maxFreeSockets = None\<rparr>"

lemma dead_socket_reused:
  "(let st = after [Add 1 local_name, Free 0 local_name, Die 0, Add 2 local_name] (new_Agent keeping)
    in allowed_run (new_Agent keeping) [Add 1 local_name, Free 0 local_name, Die 0, Add 2 local_name] \<and>
       hd (ag_log st) = OnSocket 2 0 \<and> 0 \<in> ag_dead st)"
  by code_simp

text \<open>
  A request that waits is not taken off the queue when a lost socket is replaced: the next socket
  that is freed is given to it as well.
\<close>

lemma served_twice:
  "served (after [Add 1 local_name, Add 2 local_name, Add 3 local_name, Lose 0 local_name, Free 1 local_name]
     (new_Agent keeping)) = [3, 3, 2, 1]"
  by code_simp

text \<open>
  When the lost socket is the only one of its name, the array that should take the new socket has been
  deleted: a \<^verbatim>\<open>TypeError\<close>, with the new connection on no books.
\<close>

lemma replacing_throws:
  "fst (agent_do (Lose 0 local_name) (after [Add 1 local_name, Add 2 local_name] (new_Agent one_socket))) =
     Some PushToUndefined"
  by code_simp

end
