(* ===== verification/Http_Headers.thy ===== *)
theory Http_Headers
  imports Arrays "HOL-Library.AList"
begin

text \<open>
  \<^verbatim>\<open>lib_js/internal/http.js\<close>: the tables, the headers of a received message, the table of headers to
  send, and the text of a request and of a response head.  The wire format is read and written by native
  code; \<^verbatim>\<open>native.httpWriteHead\<close> gets the text made here.
\<close>

section \<open>Values and objects\<close>

text \<open>
  Header values are strings or numbers; those of received cookies are arrays of strings.  What the
  engine knows: \<^verbatim>\<open>toLowerCase\<close>, the properties of \<^verbatim>\<open>Object.prototype\<close> (as strings), the numbers that
  strings stand for, and the native base 64 encoding.
\<close>

datatype hval = HText jsstr | HNumber int | HCookies "jsstr list"

record engine =
  e_lower :: "jsstr \<Rightarrow> jsstr"
  e_inherited :: "jsstr \<Rightarrow> jsstr option"
  e_int32 :: "jsstr \<Rightarrow> int"
  e_number :: "jsstr \<Rightarrow> int option"
  e_base64 :: "jsstr \<Rightarrow> jsstr"

definition text_of :: "hval \<Rightarrow> jsstr" where
  "text_of v = (case v of HText s \<Rightarrow> s | HNumber n \<Rightarrow> int_to_js n | HCookies xs \<Rightarrow> joinOn 44 xs)"

definition header_truthy :: "hval \<Rightarrow> bool" where
  "header_truthy v = (case v of HText s \<Rightarrow> s \<noteq> [] | HNumber n \<Rightarrow> n \<noteq> 0 | HCookies xs \<Rightarrow> True)"

text \<open>\<^verbatim>\<open>v | 0\<close>.\<close>

definition to_int :: "engine \<Rightarrow> hval \<Rightarrow> int" where
  "to_int e v = (case v of HNumber n \<Rightarrow> toInt32 n | _ \<Rightarrow> e_int32 e (text_of v))"

text \<open>
  An object literal as a dictionary: a lookup sees the properties of \<^verbatim>\<open>Object.prototype\<close> too, and
  \<^verbatim>\<open>__proto__\<close> takes no strings.
\<close>

definition lookup :: "engine \<Rightarrow> (jsstr \<times> hval) list \<Rightarrow> jsstr \<Rightarrow> hval option" where
  "lookup e ob k = (case map_of ob k of Some v \<Rightarrow> Some v | None \<Rightarrow> map_option HText (e_inherited e k))"

definition put :: "jsstr \<Rightarrow> 'v \<Rightarrow> (jsstr \<times> 'v) list \<Rightarrow> (jsstr \<times> 'v) list" where
  "put k v ob = (if k = js ''__proto__'' then ob else AList.update k v ob)"

section \<open>Tables\<close>

definition METHODS :: "jsstr list" where
  "METHODS = map js [''ACL'', ''BIND'', ''CHECKOUT'', ''CONNECT'', ''COPY'', ''DELETE'',
     ''GET'', ''HEAD'', ''LINK'', ''LOCK'', ''M-SEARCH'', ''MERGE'',
     ''MKACTIVITY'', ''MKCALENDAR'', ''MKCOL'', ''MOVE'', ''NOTIFY'', ''OPTIONS'',
     ''PATCH'', ''POST'', ''PROPFIND'', ''PROPPATCH'', ''PURGE'', ''PUT'',
     ''REBIND'', ''REPORT'', ''SEARCH'', ''SUBSCRIBE'', ''TRACE'', ''UNBIND'',
     ''UNLINK'', ''UNLOCK'', ''UNSUBSCRIBE'']"

definition STATUS_CODES :: "(jsstr \<times> jsstr) list" where
  "STATUS_CODES =
    [(js ''100'', js ''Continue''),
     (js ''101'', js ''Switching Protocols''),
     (js ''102'', js ''Processing''),
     (js ''103'', js ''Early Hints''),
     (js ''200'', js ''OK''),
     (js ''201'', js ''Created''),
     (js ''202'', js ''Accepted''),
     (js ''203'', js ''Non-Authoritative Information''),
     (js ''204'', js ''No Content''),
     (js ''205'', js ''Reset Content''),
     (js ''206'', js ''Partial Content''),
     (js ''207'', js ''Multi-Status''),
     (js ''208'', js ''Already Reported''),
     (js ''226'', js ''IM Used''),
     (js ''300'', js ''Multiple Choices''),
     (js ''301'', js ''Moved Permanently''),
     (js ''302'', js ''Found''),
     (js ''303'', js ''See Other''),
     (js ''304'', js ''Not Modified''),
     (js ''305'', js ''Use Proxy''),
     (js ''307'', js ''Temporary Redirect''),
     (js ''308'', js ''Permanent Redirect''),
     (js ''400'', js ''Bad Request''),
     (js ''401'', js ''Unauthorized''),
     (js ''402'', js ''Payment Required''),
     (js ''403'', js ''Forbidden''),
     (js ''404'', js ''Not Found''),
     (js ''405'', js ''Method Not Allowed''),
     (js ''406'', js ''Not Acceptable''),
     (js ''407'', js ''Proxy Authentication Required''),
     (js ''408'', js ''Request Timeout''),
     (js ''409'', js ''Conflict''),
     (js ''410'', js ''Gone''),
     (js ''411'', js ''Length Required''),
     (js ''412'', js ''Precondition Failed''),
     (js ''413'', js ''Payload Too Large''),
     (js ''414'', js ''URI Too Long''),
     (js ''415'', js ''Unsupported Media Type''),
     (js ''416'', js ''Range Not Satisfiable''),
     (js ''417'', js ''Expectation Failed''),
     (js ''418'', js ''I'' @ [39] @ js ''m a Teapot''),
     (js ''421'', js ''Misdirected Request''),
     (js ''422'', js ''Unprocessable Entity''),
     (js ''423'', js ''Locked''),
     (js ''424'', js ''Failed Dependency''),
     (js ''425'', js ''Unordered Collection''),
     (js ''426'', js ''Upgrade Required''),
     (js ''428'', js ''Precondition Required''),
     (js ''429'', js ''Too Many Requests''),
     (js ''431'', js ''Request Header Fields Too Large''),
     (js ''451'', js ''Unavailable For Legal Reasons''),
     (js ''500'', js ''Internal Server Error''),
     (js ''501'', js ''Not Implemented''),
     (js ''502'', js ''Bad Gateway''),
     (js ''503'', js ''Service Unavailable''),
     (js ''504'', js ''Gateway Timeout''),
     (js ''505'', js ''HTTP Version Not Supported''),
     (js ''506'', js ''Variant Also Negotiates''),
     (js ''507'', js ''Insufficient Storage''),
     (js ''508'', js ''Loop Detected''),
     (js ''509'', js ''Bandwidth Limit Exceeded''),
     (js ''510'', js ''Not Extended''),
     (js ''511'', js ''Network Authentication Required'')]"

definition discard2headers :: "jsstr list" where
  "discard2headers = map js [''age'', ''authorization'', ''content-length'', ''content-type'',
     ''etag'', ''expires'', ''from'', ''host'',
     ''if-modified-since'', ''if-unmodified-since'', ''last-modified'', ''location'',
     ''max-forwards'', ''proxy-authorization'', ''referer'', ''retry-after'',
     ''user-agent'']"

section \<open>Received headers\<close>

definition discarded :: "engine \<Rightarrow> jsstr \<Rightarrow> bool" where
  "discarded e key \<longleftrightarrow> key \<in> set discard2headers \<or> e_inherited e key \<noteq> None"

text \<open>One round of the loop over the raw headers.\<close>

definition collect_header :: "engine \<Rightarrow> jsstr \<times> jsstr \<Rightarrow> (jsstr \<times> hval) list \<Rightarrow> (jsstr \<times> hval) list" where
  "collect_header e raw headers =
     (let key = e_lower e (fst raw); value = snd raw in
      case lookup e headers key of
        Some old \<Rightarrow>
          if header_truthy old then
            (if key = js ''set-cookie'' then put key (HCookies [value]) headers
             else if \<not> discarded e key then put key (HText (text_of old @ 44 # value)) headers
             else headers)
          else if key = js ''set-cookie'' then put key (HCookies [value]) headers
          else put key (HText value) headers
      | None \<Rightarrow>
          if key = js ''set-cookie'' then put key (HCookies [value]) headers
          else put key (HText value) headers)"

text \<open>The names and values of the flat array; a name without a value at the end is left out.\<close>

fun raw_pairs :: "jsstr list \<Rightarrow> (jsstr \<times> jsstr) list" where
  "raw_pairs (k # v # r) = (k, v) # raw_pairs r"
| "raw_pairs r = []"

definition collect_headers :: "engine \<Rightarrow> jsstr list \<Rightarrow> (jsstr \<times> hval) list" where
  "collect_headers e raw = fold (collect_header e) (raw_pairs raw) []"

definition asks_upgrade :: "engine \<Rightarrow> jsstr list \<Rightarrow> bool" where
  "asks_upgrade e raw = list_ex (\<lambda>(k, v). e_lower e k = js ''upgrade'') (raw_pairs raw)"

section \<open>Headers to send\<close>

text \<open>
  The fields of \<^verbatim>\<open>ServerResponse\<close>: the names as given and the values, both under the lower case name.
\<close>

record response_head =
  h_names :: "(jsstr \<times> jsstr) list"
  h_values :: "(jsstr \<times> hval) list"
  h_sent :: bool
  h_statusCode :: hval
  h_statusMessage :: "jsstr option"

definition new_head :: response_head where
  "new_head = \<lparr>h_names = [], h_values = [], h_sent = False, h_statusCode = HText (js ''200''),
     h_statusMessage = None\<rparr>"

definition setHeader :: "engine \<Rightarrow> jsstr \<Rightarrow> hval \<Rightarrow> response_head \<Rightarrow> response_head" where
  "setHeader e name v st =
     (if h_sent st then st
      else (let lower = e_lower e name in
            st\<lparr>h_names := put lower name (h_names st), h_values := put lower v (h_values st)\<rparr>))"

definition hasHeader :: "engine \<Rightarrow> jsstr \<Rightarrow> response_head \<Rightarrow> bool" where
  "hasHeader e name st \<longleftrightarrow> lookup e (h_values st) (e_lower e name) \<noteq> None"

definition removeHeader :: "engine \<Rightarrow> jsstr \<Rightarrow> response_head \<Rightarrow> response_head" where
  "removeHeader e name st =
     (if h_sent st then st
      else (let lower = e_lower e name in
            st\<lparr>h_names := AList.delete lower (h_names st), h_values := AList.delete lower (h_values st)\<rparr>))"

definition getHeader :: "engine \<Rightarrow> jsstr \<Rightarrow> response_head \<Rightarrow> hval option" where
  "getHeader e name st = lookup e (h_values st) (e_lower e name)"

definition getHeaders :: "response_head \<Rightarrow> (jsstr \<times> hval) list" where
  "getHeaders st = h_values st"

definition getHeaderNames :: "response_head \<Rightarrow> jsstr list" where
  "getHeaderNames st = own_keys (h_values st)"

text \<open>The second and third argument of \<^verbatim>\<open>writeHead\<close>; headers are an object.\<close>

datatype head_arg = NoArg | Message jsstr | Headers "(jsstr \<times> hval) list"

definition set_headers :: "engine \<Rightarrow> (jsstr \<times> hval) list \<Rightarrow> response_head \<Rightarrow> response_head" where
  "set_headers e headers st = fold (\<lambda>(name, v). setHeader e name v) (own_entries headers) st"

definition writeHead ::
  "engine \<Rightarrow> hval option \<Rightarrow> head_arg \<Rightarrow> (jsstr \<times> hval) list option \<Rightarrow> response_head \<Rightarrow> response_head"
where
  "writeHead e statusCode message headers st =
     (if h_sent st then st
      else
        (let shifted = (headers = None \<and> (case message of Message s \<Rightarrow> False | _ \<Rightarrow> True));
             text = (if shifted then None
                     else (case message of Message s \<Rightarrow> Some s | Headers h \<Rightarrow> Some (js ''[object Object]'') | NoArg \<Rightarrow> None));
             given = (if shifted then (case message of Headers h \<Rightarrow> Some h | _ \<Rightarrow> None) else headers);
             st1 = (case statusCode of
                      Some c \<Rightarrow> if header_truthy c then st\<lparr>h_statusCode := c\<rparr> else st
                    | None \<Rightarrow> st);
             st2 = (case text of Some s \<Rightarrow> if s \<noteq> [] then st1\<lparr>h_statusMessage := Some s\<rparr> else st1 | None \<Rightarrow> st1)
         in (case given of None \<Rightarrow> st2 | Some h \<Rightarrow> set_headers e h st2)))"

definition implicitHeader :: "engine \<Rightarrow> response_head \<Rightarrow> response_head" where
  "implicitHeader e st = writeHead e (Some (h_statusCode st)) NoArg None st"

section \<open>The text of a head\<close>

definition CRLF :: jsstr where
  "CRLF = [13, 10]"

definition name_of :: "engine \<Rightarrow> (jsstr \<times> jsstr) list \<Rightarrow> jsstr \<Rightarrow> jsstr option" where
  "name_of e names k = (case map_of names k of Some n \<Rightarrow> Some n | None \<Rightarrow> e_inherited e k)"

definition header_line :: "engine \<Rightarrow> (jsstr \<times> jsstr) list \<Rightarrow> jsstr \<times> hval \<Rightarrow> jsstr" where
  "header_line e names kv =
     (case name_of e names (fst kv) of Some n \<Rightarrow> n | None \<Rightarrow> js ''undefined'') @
     js '': '' @ text_of (snd kv) @ CRLF"

definition header_lines :: "engine \<Rightarrow> (jsstr \<times> jsstr) list \<Rightarrow> (jsstr \<times> hval) list \<Rightarrow> jsstr" where
  "header_lines e names vals = concat (map (header_line e names) (own_entries vals))"

definition table_message :: "engine \<Rightarrow> response_head \<Rightarrow> jsstr" where
  "table_message e st =
     (let code = text_of (h_statusCode st) in
      case map_of STATUS_CODES code of
        Some s \<Rightarrow> s
      | None \<Rightarrow> (case e_inherited e code of Some s \<Rightarrow> s | None \<Rightarrow> js ''unknown''))"

text \<open>The message: given, by the table, or unknown.\<close>

definition status_message :: "engine \<Rightarrow> response_head \<Rightarrow> jsstr" where
  "status_message e st =
     (case h_statusMessage st of
        Some s \<Rightarrow> if s \<noteq> [] then s else table_message e st
      | None \<Rightarrow> table_message e st)"

text \<open>
  \<^verbatim>\<open>ServerResponse._sendHeaders\<close>: the arguments of \<^verbatim>\<open>native.httpWriteHead\<close> (the text, the length or -1,
  whether the body is sent in chunks) and the new state.
\<close>

definition response_sendHeaders ::
  "engine \<Rightarrow> jsstr \<Rightarrow> response_head \<Rightarrow> (jsstr \<times> int \<times> bool) \<times> response_head"
where
  "response_sendHeaders e httpVersion st =
     (let message = status_message e st;
          st1 = st\<lparr>h_sent := True, h_statusMessage := Some message\<rparr>;
          contentLen = lookup e (h_values st1) (js ''content-length'');
          unset = (case name_of e (h_names st1) (js ''connection'') of None \<Rightarrow> True | Some n \<Rightarrow> n = []);
          st2 = (if unset
                 then st1\<lparr>h_names := put (js ''connection'') (js ''Connection'') (h_names st1),
                          h_values := put (js ''connection'') (HText (js ''close'')) (h_values st1)\<rparr>
                 else st1);
          chunked = (contentLen = None \<and> httpVersion = js ''1.1'');
          st3 = (if chunked
                 then st2\<lparr>h_names := put (js ''transfer-encoding'') (js ''Transfer-Encoding'') (h_names st2),
                          h_values := put (js ''transfer-encoding'') (HText (js ''chunked'')) (h_values st2)\<rparr>
                 else st2);
          len = (case contentLen of Some v \<Rightarrow> to_int e v | None \<Rightarrow> -1);
          text = js ''HTTP/1.1 '' @ text_of (h_statusCode st3) @ 32 # message @ CRLF @
                 header_lines e (h_names st3) (h_values st3) @ CRLF
      in ((text, len, chunked), st3))"

section \<open>Requests\<close>

text \<open>The checks of the constructor of \<^verbatim>\<open>ClientRequest\<close>.\<close>

datatype herr = ReferenceError | ERR_UNESCAPED_CHARACTERS jsstr

datatype harg = Undefined | Null | Text jsstr | Other

text \<open>\<^verbatim>\<open>ERR_INVALID_ARG_TYPE\<close> is not imported in this file.\<close>

definition validateHost :: "harg \<Rightarrow> herr + jsstr option" where
  "validateHost host = (case host of Text s \<Rightarrow> Inr (Some s) | Other \<Rightarrow> Inl ReferenceError | _ \<Rightarrow> Inr None)"

definition token_char :: "nat \<Rightarrow> bool" where
  "token_char c \<longleftrightarrow> (97 \<le> c \<and> c \<le> 122) \<or> (65 \<le> c \<and> c \<le> 90) \<or> (48 \<le> c \<and> c \<le> 57) \<or>
     c \<in> set (js ''^_`-!#$%&*+.|~'') \<or> c = 39"

definition checkIsHttpToken :: "jsstr \<Rightarrow> bool" where
  "checkIsHttpToken s \<longleftrightarrow> s \<noteq> [] \<and> list_all token_char s"

definition path_char :: "nat \<Rightarrow> bool" where
  "path_char c \<longleftrightarrow> 0x21 \<le> c \<and> c \<le> 0xff"

text \<open>\<^verbatim>\<open>toUpperCase\<close> of a token.\<close>

definition upper_token :: "jsstr \<Rightarrow> jsstr" where
  "upper_token s = map (\<lambda>c. if 97 \<le> c \<and> c \<le> 122 then c - 32 else c) s"

text \<open>The options that matter for the head; an agent has a default port and may keep sockets alive.\<close>

record agent_view =
  a_defaultPort :: int
  a_keepAlive :: bool
  a_limited :: bool

text \<open>
  \<^verbatim>\<open>options.path\<close>: a falsy value that is not a string, a string, or any other value with the text that
  \<^verbatim>\<open>String\<close> makes of it.
\<close>

datatype path_option = NoPath | PathText jsstr | PathOther jsstr

record request_options =
  q_hostname :: harg
  q_host :: harg
  q_port :: "hval option"
  q_setHost :: "bool option"
  q_method :: harg
  q_path :: path_option
  q_headers :: "(jsstr \<times> hval) list option"
  q_auth :: "jsstr option"
  q_agent :: "agent_view option"

record request_head =
  rq_method :: jsstr
  rq_path :: jsstr
  rq_names :: "(jsstr \<times> jsstr) list"
  rq_values :: "(jsstr \<times> hval) list"
  rq_sent :: bool
  rq_shouldKeepAlive :: bool

definition or_text :: "jsstr option \<Rightarrow> jsstr option \<Rightarrow> jsstr option" where
  "or_text a b = (case a of Some s \<Rightarrow> if s \<noteq> [] then a else b | None \<Rightarrow> b)"

definition request_method :: "harg \<Rightarrow> herr + jsstr" where
  "request_method method =
     (case method of
        Other \<Rightarrow> Inl ReferenceError
      | Text s \<Rightarrow>
          if s = [] then Inr (js ''GET'')
          else if \<not> checkIsHttpToken s then Inl ReferenceError
          else Inr (upper_token s)
      | _ \<Rightarrow> Inr (js ''GET''))"

definition checked_path :: "jsstr \<Rightarrow> herr + jsstr" where
  "checked_path p =
     (if list_all path_char p then Inr p else Inl (ERR_UNESCAPED_CHARACTERS (js ''Request path'')))"

definition request_path :: "path_option \<Rightarrow> herr + jsstr" where
  "request_path path =
     (case path of
        PathText p \<Rightarrow> if p = [] then Inr (js ''/'') else checked_path p
      | PathOther p \<Rightarrow> checked_path p
      | NoPath \<Rightarrow> Inr (js ''/''))"

text \<open>The value of the \<^verbatim>\<open>Host\<close> header: IPv6 addresses in brackets, and the port unless it is the default.\<close>

definition bracketed :: "jsstr \<Rightarrow> jsstr" where
  "bracketed host =
     (if length (filter (\<lambda>c. c = 58) host) \<ge> 2 \<and> charCodeAt host 0 \<noteq> Some 91
      then 91 # host @ [93] else host)"

definition host_header :: "engine \<Rightarrow> jsstr \<Rightarrow> hval option \<Rightarrow> agent_view option \<Rightarrow> jsstr" where
  "host_header e host port agent =
     (case port of
        Some p \<Rightarrow>
          if header_truthy p \<and>
             (case agent of
                None \<Rightarrow> True
              | Some a \<Rightarrow> (case p of HNumber n \<Rightarrow> Some n | _ \<Rightarrow> e_number e (text_of p)) \<noteq> Some (a_defaultPort a))
          then bracketed host @ 58 # text_of p else bracketed host
      | None \<Rightarrow> bracketed host)"

definition put_header :: "jsstr \<Rightarrow> jsstr \<Rightarrow> hval \<Rightarrow> request_head \<Rightarrow> request_head" where
  "put_header lower name v st =
     st\<lparr>rq_names := put lower name (rq_names st), rq_values := put lower v (rq_values st)\<rparr>"

definition no_value :: "engine \<Rightarrow> request_head \<Rightarrow> jsstr \<Rightarrow> bool" where
  "no_value e st k \<longleftrightarrow> (case lookup e (rq_values st) k of Some v \<Rightarrow> \<not> header_truthy v | None \<Rightarrow> True)"

definition no_name :: "engine \<Rightarrow> request_head \<Rightarrow> jsstr \<Rightarrow> bool" where
  "no_name e st k \<longleftrightarrow> (case name_of e (rq_names st) k of Some n \<Rightarrow> n = [] | None \<Rightarrow> True)"

text \<open>The headers that the constructor adds to the given ones.\<close>

definition default_headers ::
  "engine \<Rightarrow> request_options \<Rightarrow> jsstr \<Rightarrow> hval option \<Rightarrow> request_head \<Rightarrow> request_head"
where
  "default_headers e opts host port st0 =
     (let st1 = (if host \<noteq> [] \<and> no_value e st0 (js ''host'') \<and> q_setHost opts \<noteq> Some False
                 then put_header (js ''host'') (js ''Host'') (HText (host_header e host port (q_agent opts))) st0
                 else st0);
          st2 = (if \<not> rq_shouldKeepAlive st1 \<and> no_name e st1 (js ''connection'')
                 then put_header (js ''connection'') (js ''Connection'') (HText (js ''close'')) st1 else st1)
      in (case q_auth opts of
            Some auth \<Rightarrow>
              if auth \<noteq> [] \<and> no_value e st2 (js ''authorization'')
              then put_header (js ''authorization'') (js ''Authorization'')
                     (HText (js ''Basic '' @ e_base64 e auth)) st2
              else st2
          | None \<Rightarrow> st2))"

definition new_request :: "engine \<Rightarrow> request_options \<Rightarrow> herr + request_head" where
  "new_request e opts =
     (case validateHost (q_hostname opts) of
        Inl err \<Rightarrow> Inl err
      | Inr hostname \<Rightarrow>
     (case (if or_text hostname None = None then validateHost (q_host opts) else Inr None) of
        Inl err \<Rightarrow> Inl err
      | Inr host2 \<Rightarrow>
     (case request_method (q_method opts) of
        Inl err \<Rightarrow> Inl err
      | Inr method \<Rightarrow>
     (case request_path (q_path opts) of
        Inl err \<Rightarrow> Inl err
      | Inr path \<Rightarrow>
          (let host = the (or_text hostname (or_text host2 (Some (js ''localhost''))));
               port = (case q_port opts of
                         Some p \<Rightarrow> if header_truthy p then Some p else map_option (HNumber \<circ> a_defaultPort) (q_agent opts)
                       | None \<Rightarrow> map_option (HNumber \<circ> a_defaultPort) (q_agent opts));
               keep = (case q_agent opts of Some a \<Rightarrow> a_keepAlive a \<or> a_limited a | None \<Rightarrow> False);
               st0 = \<lparr>rq_method = method, rq_path = path, rq_names = [], rq_values = [], rq_sent = False,
                      rq_shouldKeepAlive = keep\<rparr>;
               st1 = (case q_headers opts of
                        Some hs \<Rightarrow> fold (\<lambda>(n, v). put_header (e_lower e n) n v) (own_entries hs) st0
                      | None \<Rightarrow> st0)
           in Inr (default_headers e opts host port st1))))))"

text \<open>\<^verbatim>\<open>ClientRequest._sendHeaders\<close>.\<close>

definition bodiless :: "jsstr list" where
  "bodiless = map js [''GET'', ''HEAD'', ''DELETE'', ''OPTIONS'', ''CONNECT'']"

definition request_sendHeaders ::
  "engine \<Rightarrow> request_head \<Rightarrow> (jsstr \<times> int \<times> bool) \<times> request_head"
where
  "request_sendHeaders e st =
     (let contentLen = (case lookup e (rq_values st) (js ''content-length'') of
                          Some v \<Rightarrow> Some v
                        | None \<Rightarrow> if rq_method st \<in> set bodiless then Some (HNumber 0) else None);
          chunked = (contentLen = None);
          st1 = (if chunked
                 then put_header (js ''transfer-encoding'') (js ''Transfer-Encoding'') (HText (js ''chunked'')) st
                 else st)\<lparr>rq_sent := True\<rparr>;
          len = (case contentLen of Some v \<Rightarrow> to_int e v | None \<Rightarrow> -1);
          text = rq_method st1 @ 32 # rq_path st1 @ js '' HTTP/1.1'' @ CRLF @
                 header_lines e (rq_names st1) (rq_values st1) @ CRLF
      in ((text, len, chunked), st1))"

end
