(* ===== verification/Http_Props.thy ===== *)
theory Http_Props
  imports Http_Headers
begin

text \<open>
  What the header code of \<^verbatim>\<open>lib_js/internal/http.js\<close> guarantees: how repeated headers of a message are
  merged, that the table of headers to send is a map from lower case names, that a head can be read
  back, and what the missing checks allow.
\<close>

section \<open>Dictionaries\<close>

lemma map_of_put: "map_of (put k v ob) = (if k = js ''__proto__'' then map_of ob else (map_of ob)(k \<mapsto> v))"
  by (simp add: put_def update_conv')

lemma put_keys: "distinct (map fst ob) \<Longrightarrow> distinct (map fst (put k v ob))"
  by (simp add: put_def distinct_update)

lemma lookup_own: "e_inherited e k = None \<Longrightarrow> lookup e ob k = map_of ob k"
  by (simp add: lookup_def split: option.split)

section \<open>Received headers\<close>

text \<open>The values of the headers with this name, in order, and what becomes of them.\<close>

definition values_for :: "engine \<Rightarrow> jsstr \<Rightarrow> (jsstr \<times> jsstr) list \<Rightarrow> jsstr list" where
  "values_for e k raw = map snd (filter (\<lambda>(n, v). e_lower e n = k) raw)"

definition merged :: "jsstr \<Rightarrow> jsstr list \<Rightarrow> hval option" where
  "merged k vs =
     (if vs = [] then None
      else if k = js ''set-cookie'' then Some (HCookies [last vs])
      else
        (case dropWhile (\<lambda>v. v = []) vs of
           [] \<Rightarrow> Some (HText [])
         | w # ws \<Rightarrow> Some (HText (if k \<in> set discard2headers then w else joinOn 44 (w # ws)))))"

lemma values_for_snoc:
  "values_for e k (raw @ [(n, v)]) = values_for e k raw @ (if e_lower e n = k then [v] else [])"
  by (simp add: values_for_def)

lemma dropWhile_snoc:
  "dropWhile P (xs @ [x]) =
     (if dropWhile P xs = [] then (if P x then [] else [x]) else dropWhile P xs @ [x])"
  by (induction xs) auto

lemma joinOn_nonempty: "w \<noteq> [] \<Longrightarrow> joinOn c (w # ws) \<noteq> []"
  by (cases ws) auto

lemma merged_snoc:
  "merged k (vs @ [v]) =
     (case merged k vs of
        Some old \<Rightarrow>
          if header_truthy old then
            (if k = js ''set-cookie'' then Some (HCookies [v])
             else if k \<notin> set discard2headers then Some (HText (text_of old @ 44 # v)) else Some old)
          else if k = js ''set-cookie'' then Some (HCookies [v]) else Some (HText v)
      | None \<Rightarrow> if k = js ''set-cookie'' then Some (HCookies [v]) else Some (HText v))"
proof (cases "k = js ''set-cookie''")
  case False
  show ?thesis
  proof (cases "dropWhile (\<lambda>v. v = []) vs")
    case Nil
    then have "merged k vs = (if vs = [] then None else Some (HText []))"
      "merged k (vs @ [v]) = Some (HText v)"
      using False unfolding merged_def dropWhile_snoc Nil by simp_all
    then show ?thesis using False by (simp add: header_truthy_def)
  next
    case (Cons w ws)
    then have "w \<noteq> []" "vs \<noteq> []" using hd_dropWhile[of "\<lambda>v. v = []" vs] by auto
    then show ?thesis using False Cons joinOn_nonempty[of w 44 ws] joinOn_snoc[of 44 "w # ws" v]
      by (simp add: merged_def dropWhile_snoc header_truthy_def text_of_def)
  qed
qed (simp add: merged_def header_truthy_def)

lemma map_of_collect_other:
  "e_lower e (fst raw) \<noteq> k \<Longrightarrow> map_of (collect_header e raw ob) k = map_of ob k"
  by (auto simp: collect_header_def map_of_put Let_def simp del: js_Cons split: option.split)

lemma map_of_collect_same:
  assumes "e_lower e n = k" "k \<noteq> js ''__proto__''" "e_inherited e k = None"
  shows "map_of (collect_header e (n, v) ob) k =
    (case map_of ob k of
        Some old \<Rightarrow>
          if header_truthy old then
            (if k = js ''set-cookie'' then Some (HCookies [v])
             else if k \<notin> set discard2headers then Some (HText (text_of old @ 44 # v)) else Some old)
          else if k = js ''set-cookie'' then Some (HCookies [v]) else Some (HText (v))
      | None \<Rightarrow> if k = js ''set-cookie'' then Some (HCookies [v]) else Some (HText (v)))"
  using assms
  by (auto simp: collect_header_def map_of_put lookup_own discarded_def Let_def simp del: js_Cons split: option.split)

lemma map_of_collected:
  assumes "k \<noteq> js ''__proto__''" "e_inherited e k = None"
  shows "map_of (fold (collect_header e) raw []) k = merged k (values_for e k raw)"
proof (induction raw rule: rev_induct)
  case (snoc nv raw)
  obtain n v where nv: "nv = (n, v)" by fastforce
  show ?case
  proof (cases "e_lower e n = k")
    case True
    then show ?thesis using snoc map_of_collect_same[of e n k v, OF _ assms]
      unfolding nv values_for_snoc by (simp add: merged_snoc del: js_Cons)
  next
    case False
    then show ?thesis using snoc map_of_collect_other[of e "(n, v)" k] by (simp add: nv values_for_snoc)
  qed
qed (simp add: merged_def values_for_def)

text \<open>
  C11. The headers of a received message: under a lower case name stand the values of the headers with
  that name, in order and joined with commas, leaving out the empty values before the first other one;
  for the seventeen names of \<^verbatim>\<open>discard2headers\<close> only the first value that is not empty; the empty text
  when all values are empty, and nothing when no header has the name.  This is for the names other than
  \<^verbatim>\<open>set-cookie\<close>, \<^verbatim>\<open>__proto__\<close> and those that \<^verbatim>\<open>Object.prototype\<close> has as well.
\<close>

theorem headers_collected:
  assumes "k \<noteq> js ''__proto__''" "k \<noteq> js ''set-cookie''" "e_inherited e k = None"
    "vs = values_for e k (raw_pairs raw)"
  shows "lookup e (collect_headers e raw) k =
    (if vs = [] then None
     else (case dropWhile (\<lambda>v. v = []) vs of
             [] \<Rightarrow> Some (HText [])
           | w # ws \<Rightarrow> Some (HText (if k \<in> set discard2headers then w else joinOn 44 (w # ws)))))"
  using map_of_collected[OF assms(1,3)] assms(2,3)
  by (simp add: collect_headers_def lookup_own merged_def assms(4) del: js_Cons)

text \<open>Of the cookies only the last is kept.\<close>

lemma last_cookie_kept:
  assumes "e_inherited e (js ''set-cookie'') = None" "values_for e (js ''set-cookie'') (raw_pairs raw) \<noteq> []"
  shows "lookup e (collect_headers e raw) (js ''set-cookie'') =
    Some (HCookies [last (values_for e (js ''set-cookie'') (raw_pairs raw))])"
proof -
  have "js ''set-cookie'' \<noteq> js ''__proto__''" by simp
  from map_of_collected[OF this assms(1)] show ?thesis using assms
    by (simp add: collect_headers_def lookup_own merged_def del: js_Cons)
qed

definition plain_engine :: engine where
  "plain_engine =
     \<lparr>e_lower = toLowerCase,
      e_inherited = (\<lambda>k. if k = js ''constructor'' then Some (js ''function Object() { [native code] }'') else None),
      e_int32 = (\<lambda>s. 0), e_number = (\<lambda>s. None), e_base64 = (\<lambda>s. s)\<rparr>"

theorem headers_collected_witness:
  "lookup plain_engine (collect_headers plain_engine
     (map js [''Accept'', '''', ''Host'', ''x'', ''Accept'', ''a'', ''ACCEPT'', ''b'', ''Host'', ''y''])) (js ''accept'') =
   Some (HText (js ''a,b''))"
proof -
  let ?raw = "map js [''Accept'', '''', ''Host'', ''x'', ''Accept'', ''a'', ''ACCEPT'', ''b'', ''Host'', ''y'']"
  have "js ''accept'' \<noteq> js ''__proto__''" "js ''accept'' \<noteq> js ''set-cookie''"
    "e_inherited plain_engine (js ''accept'') = None"
    by (simp_all add: plain_engine_def)
  note * = headers_collected[OF this refl, of ?raw]
  have vs: "values_for plain_engine (js ''accept'') (raw_pairs ?raw) = [[], js ''a'', js ''b'']"
    "js ''accept'' \<notin> set discard2headers" "joinOn 44 [js ''a'', js ''b''] = js ''a,b''" by code_simp+
  show ?thesis unfolding * vs(1) using vs(2,3) by simp
qed

text \<open>A header named like a property of \<^verbatim>\<open>Object.prototype\<close> is lost.\<close>

lemma inherited_header_lost:
  "map_of (collect_headers plain_engine (map js [''Constructor'', ''x''])) (js ''constructor'') = None"
  by code_simp

section \<open>The table of headers to send\<close>

text \<open>The two objects have the same keys.\<close>

definition in_step :: "(jsstr \<times> jsstr) list \<Rightarrow> (jsstr \<times> hval) list \<Rightarrow> bool" where
  "in_step names vals \<longleftrightarrow> map fst names = map fst vals \<and> distinct (map fst vals)"

lemma in_step_put: "in_step names vals \<Longrightarrow> in_step (put k n names) (put k v vals)"
  by (auto simp: in_step_def put_def update_keys distinct_update)

lemma in_step_delete: "in_step names vals \<Longrightarrow> in_step (AList.delete k names) (AList.delete k vals)"
  by (simp add: in_step_def delete_keys distinct_removeAll)

lemma in_step_Nil [simp]: "in_step [] []"
  by (simp add: in_step_def)

text \<open>The table as a map from the lower case name to the name as given and the value.\<close>

definition table :: "(jsstr \<times> jsstr) list \<Rightarrow> (jsstr \<times> hval) list \<Rightarrow> jsstr \<Rightarrow> (jsstr \<times> hval) option" where
  "table names vals k = (case (map_of names k, map_of vals k) of (Some n, Some v) \<Rightarrow> Some (n, v) | _ \<Rightarrow> None)"

lemma table_put:
  "k \<noteq> js ''__proto__'' \<Longrightarrow> table (put k n names) (put k v vals) = (table names vals)(k \<mapsto> (n, v))"
  by (auto simp: table_def map_of_put fun_eq_iff)

lemma table_proto: "table (put (js ''__proto__'') n names) (put (js ''__proto__'') v vals) = table names vals"
  by (simp add: put_def)

lemma table_delete:
  "table (AList.delete k names) (AList.delete k vals) = (table names vals)(k := None)"
  by (auto simp: table_def delete_conv' fun_eq_iff)

datatype head_call =
    SetHeader jsstr hval
  | RemoveHeader jsstr
  | WriteHead "hval option" head_arg "(jsstr \<times> hval) list option"

fun head_op :: "engine \<Rightarrow> head_call \<Rightarrow> response_head \<Rightarrow> response_head" where
  "head_op e (SetHeader n v) st = setHeader e n v st"
| "head_op e (RemoveHeader n) st = removeHeader e n st"
| "head_op e (WriteHead c m h) st = writeHead e c m h st"

definition put_entry ::
  "engine \<Rightarrow> jsstr \<times> hval \<Rightarrow> (jsstr \<Rightarrow> (jsstr \<times> hval) option) \<Rightarrow> jsstr \<Rightarrow> (jsstr \<times> hval) option"
where
  "put_entry e nv m =
     (if e_lower e (fst nv) = js ''__proto__'' then m else m(e_lower e (fst nv) \<mapsto> nv))"

text \<open>The headers that \<^verbatim>\<open>writeHead\<close> is given as its second or third argument.\<close>

fun given_headers :: "head_arg \<Rightarrow> (jsstr \<times> hval) list option \<Rightarrow> (jsstr \<times> hval) list" where
  "given_headers m (Some h) = h"
| "given_headers (Headers h) None = h"
| "given_headers m None = []"

fun spec_op ::
  "engine \<Rightarrow> head_call \<Rightarrow> (jsstr \<Rightarrow> (jsstr \<times> hval) option) \<Rightarrow> jsstr \<Rightarrow> (jsstr \<times> hval) option"
where
  "spec_op e (SetHeader n v) m = put_entry e (n, v) m"
| "spec_op e (RemoveHeader n) m = m(e_lower e n := None)"
| "spec_op e (WriteHead c a h) m = fold (put_entry e) (own_entries (given_headers a h)) m"

abbreviation head_table :: "response_head \<Rightarrow> jsstr \<Rightarrow> (jsstr \<times> hval) option" where
  "head_table st \<equiv> table (h_names st) (h_values st)"

abbreviation head_in_step :: "response_head \<Rightarrow> bool" where
  "head_in_step st \<equiv> in_step (h_names st) (h_values st)"

lemma setHeader_table:
  assumes "\<not> h_sent st"
  shows "head_table (setHeader e n v st) = put_entry e (n, v) (head_table st)"
    "\<not> h_sent (setHeader e n v st)" "head_in_step st \<Longrightarrow> head_in_step (setHeader e n v st)"
  using assms
  by (auto simp: setHeader_def put_entry_def table_put table_proto in_step_put Let_def simp del: js_Cons)

lemma set_headers_table:
  assumes "\<not> h_sent st"
  shows "head_table (fold (\<lambda>(n, v). setHeader e n v) hs st) = fold (put_entry e) hs (head_table st)"
    "\<not> h_sent (fold (\<lambda>(n, v). setHeader e n v) hs st)"
    "head_in_step st \<Longrightarrow> head_in_step (fold (\<lambda>(n, v). setHeader e n v) hs st)"
  using assms
proof (induction hs arbitrary: st)
  case (Cons nv hs)
  { case 1 then show ?case using Cons setHeader_table[of st e "fst nv" "snd nv"] by (simp add: split_beta) }
  { case 2 then show ?case using Cons setHeader_table[of st e "fst nv" "snd nv"] by (simp add: split_beta) }
  { case 3 then show ?case using Cons setHeader_table[of st e "fst nv" "snd nv"] by (simp add: split_beta) }
qed simp_all

lemma writeHead_given:
  assumes "\<not> h_sent st"
  obtains st1 where "writeHead e c m h st = set_headers e (given_headers m h) st1"
    "h_names st1 = h_names st" "h_values st1 = h_values st" "\<not> h_sent st1"
proof -
  have empty: "set_headers e [] st1 = st1" for st1
    by (simp add: set_headers_def own_entries_def own_keys_def)
  have "\<exists>st1. writeHead e c m h st = set_headers e (given_headers m h) st1 \<and>
    h_names st1 = h_names st \<and> h_values st1 = h_values st \<and> \<not> h_sent st1"
    using assms by (cases h; cases m) (auto simp: writeHead_def Let_def empty split: option.splits)
  then show thesis using that by blast
qed

lemma head_op_table:
  assumes "\<not> h_sent st"
  shows "head_table (head_op e op st) = spec_op e op (head_table st) \<and>
    \<not> h_sent (head_op e op st) \<and> (head_in_step st \<longrightarrow> head_in_step (head_op e op st))"
proof (cases op)
  case (WriteHead c m h)
  obtain st1 where st1: "writeHead e c m h st = set_headers e (given_headers m h) st1"
    "h_names st1 = h_names st" "h_values st1 = h_values st" "\<not> h_sent st1"
    using writeHead_given[OF assms] by blast
  show ?thesis using set_headers_table[OF st1(4), of e "own_entries (given_headers m h)"] WriteHead st1
    by (simp add: set_headers_def)
next
  case (RemoveHeader n)
  then show ?thesis using assms by (simp add: removeHeader_def table_delete in_step_delete Let_def)
qed (use assms setHeader_table in simp)

text \<open>
  C12. The two objects of a response are one map from lower case names: \<^verbatim>\<open>setHeader\<close>, \<^verbatim>\<open>removeHeader\<close> and
  \<^verbatim>\<open>writeHead\<close> in any order put and remove entries of the map, and after the head is sent nothing
  changes any more.
\<close>

theorem header_table_refines:
  "head_table (fold (head_op e) ops new_head) = fold (spec_op e) ops Map.empty \<and>
   head_in_step (fold (head_op e) ops new_head) \<and>
   fold (head_op e) ops (snd (response_sendHeaders e version st)) = snd (response_sendHeaders e version st)"
proof (intro conjI)
  have "head_table (fold (head_op e) ops st) = fold (spec_op e) ops (head_table st) \<and>
    head_in_step (fold (head_op e) ops st)" if "\<not> h_sent st" "head_in_step st" for st
    using that
  proof (induction ops arbitrary: st)
    case (Cons op ops)
    then show ?case using head_op_table[OF Cons.prems(1), of e op] by simp
  qed simp
  moreover have "head_table new_head = Map.empty" by (auto simp: new_head_def table_def)
  ultimately show "head_table (fold (head_op e) ops new_head) = fold (spec_op e) ops Map.empty"
    "head_in_step (fold (head_op e) ops new_head)" by (simp_all add: new_head_def)
  have "head_op e op st = st" if "h_sent st" for op st
    using that by (cases op) (simp_all add: setHeader_def removeHeader_def writeHead_def)
  then have "fold (head_op e) ops st = st" if "h_sent st" for st
    using that by (induction ops) simp_all
  moreover have "h_sent (snd (response_sendHeaders e version st))"
    by (simp add: response_sendHeaders_def Let_def)
  ultimately show "fold (head_op e) ops (snd (response_sendHeaders e version st)) =
    snd (response_sendHeaders e version st)" by blast
qed

section \<open>Reading a head back\<close>

text \<open>The lines of a head, the last of which is empty, and the name and value in a line.\<close>

definition read_field :: "jsstr \<Rightarrow> jsstr \<times> jsstr" where
  "read_field line = (takeWhile (\<lambda>c. c \<noteq> 58) line, drop 2 (dropWhile (\<lambda>c. c \<noteq> 58) line))"

definition read_head :: "jsstr \<Rightarrow> jsstr \<times> (jsstr \<times> jsstr) list" where
  "read_head text =
     (let ls = map butlast (butlast (splitOn (\<lambda>c. c = 10) text)) in (hd ls, map read_field (butlast (tl ls))))"

definition one_line :: "jsstr \<Rightarrow> bool" where
  "one_line s \<longleftrightarrow> 10 \<notin> set s"

lemma split_lines:
  assumes "\<forall>l \<in> set ls. one_line l"
  shows "splitOn (\<lambda>c. c = 10) (concat (map (\<lambda>l. l @ CRLF) ls)) = map (\<lambda>l. l @ [13]) ls @ [[]]"
  using assms
proof (induction ls)
  case (Cons l ls)
  have "splitOn (\<lambda>c. c = 10) ((l @ [13]) @ 10 # concat (map (\<lambda>l. l @ CRLF) ls)) =
      splitOn (\<lambda>c. c = 10) (l @ [13]) @ splitOn (\<lambda>c. c = 10) (concat (map (\<lambda>l. l @ CRLF) ls))"
    by (rule splitOn_append_sep) simp
  moreover have "splitOn (\<lambda>c. c = 10) (l @ [13]) = [l @ [13]]"
    using Cons.prems by (intro splitOn_free) (auto simp: one_line_def)
  ultimately show ?case using Cons by (simp add: CRLF_def)
qed simp

definition field_line :: "jsstr \<times> jsstr \<Rightarrow> jsstr" where
  "field_line nv = fst nv @ js '': '' @ snd nv"

lemma read_field_line: "58 \<notin> set (fst nv) \<Longrightarrow> read_field (field_line nv) = nv"
proof -
  assume "58 \<notin> set (fst nv)"
  then have all: "\<And>c. c \<in> set (fst nv) \<Longrightarrow> c \<noteq> 58" by metis
  have "takeWhile (\<lambda>c. c \<noteq> 58) (field_line nv) = fst nv"
    "dropWhile (\<lambda>c. c \<noteq> 58) (field_line nv) = js '': '' @ snd nv"
    using all unfolding field_line_def by (subst takeWhile_append2 dropWhile_append2; simp)+
  then show ?thesis by (simp add: read_field_def)
qed

lemma read_head_text:
  assumes "one_line start" "\<forall>nv \<in> set fs. one_line (fst nv) \<and> 58 \<notin> set (fst nv) \<and> one_line (snd nv)"
  shows "read_head (start @ CRLF @ concat (map (\<lambda>nv. field_line nv @ CRLF) fs) @ CRLF) = (start, fs)"
proof -
  let ?ls = "start # map field_line fs @ [[]]"
  have "start @ CRLF @ concat (map (\<lambda>nv. field_line nv @ CRLF) fs) @ CRLF =
      concat (map (\<lambda>l. l @ CRLF) ?ls)" by (simp add: comp_def)
  moreover have "\<forall>l \<in> set ?ls. one_line l" using assms by (auto simp: one_line_def field_line_def)
  ultimately have "splitOn (\<lambda>c. c = 10) (start @ CRLF @ concat (map (\<lambda>nv. field_line nv @ CRLF) fs) @ CRLF) =
      map (\<lambda>l. l @ [13]) ?ls @ [[]]" by (simp only: split_lines)
  moreover have "map read_field (map field_line fs) = fs"
    unfolding map_map by (rule map_idI) (simp add: read_field_line assms(2))
  ultimately show ?thesis by (simp add: read_head_def comp_def butlast_append map_butlast[symmetric])
qed

text \<open>The fields of a table, in the order of the object's properties.\<close>

definition shown_fields :: "(jsstr \<times> jsstr) list \<Rightarrow> (jsstr \<times> hval) list \<Rightarrow> (jsstr \<times> jsstr) list" where
  "shown_fields names vals = map (\<lambda>k. let (n, v) = the (table names vals k) in (n, text_of v)) (own_keys vals)"

text \<open>Names and values that may stand in a head.\<close>

definition clean :: "(jsstr \<times> jsstr) list \<Rightarrow> (jsstr \<times> hval) list \<Rightarrow> bool" where
  "clean names vals \<longleftrightarrow> in_step names vals \<and>
     (\<forall>k n v. table names vals k = Some (n, v) \<longrightarrow> one_line n \<and> 58 \<notin> set n \<and> one_line (text_of v))"

lemma in_step_dom: "in_step names vals \<Longrightarrow> dom (map_of names) = dom (map_of vals)"
  unfolding in_step_def dom_map_of_conv_image_fst by (metis set_map)

lemma table_key:
  assumes "in_step names vals" "k \<in> set (own_keys vals)"
  obtains n v where "map_of names k = Some n" "map_of vals k = Some v" "table names vals k = Some (n, v)"
proof -
  have "k \<in> dom (map_of vals)" "k \<in> dom (map_of names)" using assms(2) in_step_dom[OF assms(1)] by simp_all
  then obtain n v where "map_of names k = Some n" "map_of vals k = Some v" by blast
  then show thesis by (intro that[of n v]) (simp_all add: table_def)
qed

lemma header_lines_fields:
  assumes "in_step names vals"
  shows "header_lines e names vals = concat (map (\<lambda>nv. field_line nv @ CRLF) (shown_fields names vals))"
proof -
  have "header_line e names (k, the (map_of vals k)) =
      field_line (let (n, v) = the (table names vals k) in (n, text_of v)) @ CRLF" if k: "k \<in> set (own_keys vals)" for k
  proof -
    obtain n v where "map_of names k = Some n" "map_of vals k = Some v" "table names vals k = Some (n, v)"
      using table_key[OF assms k] by blast
    then show ?thesis by (simp add: header_line_def name_of_def field_line_def)
  qed
  then have "map (header_line e names) (own_entries vals) =
      map (\<lambda>k. field_line (let (n, v) = the (table names vals k) in (n, text_of v)) @ CRLF) (own_keys vals)"
    unfolding own_entries_def map_map by (intro map_cong) simp_all
  then show ?thesis by (simp add: header_lines_def shown_fields_def comp_def)
qed

lemma clean_fields:
  assumes "clean names vals"
  shows "\<forall>nv \<in> set (shown_fields names vals). one_line (fst nv) \<and> 58 \<notin> set (fst nv) \<and> one_line (snd nv)"
proof
  fix nv assume "nv \<in> set (shown_fields names vals)"
  then obtain k where k: "k \<in> set (own_keys vals)" "nv = (let (n, v) = the (table names vals k) in (n, text_of v))"
    by (auto simp: shown_fields_def)
  have "in_step names vals" using assms by (simp add: clean_def)
  from table_key[OF this k(1)] obtain n v where "table names vals k = Some (n, v)" by blast
  then show "one_line (fst nv) \<and> 58 \<notin> set (fst nv) \<and> one_line (snd nv)"
    using assms k(2) by (auto simp: clean_def)
qed

lemma read_head_table:
  assumes "one_line start" "clean names vals"
  shows "read_head (start @ CRLF @ header_lines e names vals @ CRLF) = (start, shown_fields names vals)"
proof -
  have "in_step names vals" using assms(2) by (simp add: clean_def)
  from header_lines_fields[OF this] show ?thesis
    using read_head_text[OF assms(1) clean_fields[OF assms(2)]] by simp
qed

lemma clean_put:
  assumes "clean names vals" "one_line n" "58 \<notin> set n" "one_line (text_of v)" "k \<noteq> js ''__proto__''"
  shows "clean (put k n names) (put k v vals)"
  using assms by (auto simp: clean_def in_step_put table_put)

text \<open>The head that \<^verbatim>\<open>ServerResponse._sendHeaders\<close> prints.\<close>

lemma response_text:
  fixes e version st
  defines "st' \<equiv> snd (response_sendHeaders e version st)"
  shows "fst (fst (response_sendHeaders e version st)) =
    (js ''HTTP/1.1 '' @ text_of (h_statusCode st) @ 32 # status_message e st) @ CRLF @
    header_lines e (h_names st') (h_values st') @ CRLF"
  unfolding st'_def response_sendHeaders_def by (simp add: Let_def split: if_splits)

lemma response_clean:
  assumes "clean (h_names st) (h_values st)"
  shows "clean (h_names (snd (response_sendHeaders e version st))) (h_values (snd (response_sendHeaders e version st)))"
proof -
  have step: "clean (put k n names) (put k (HText s) vals)"
    if "clean names vals" "one_line n" "58 \<notin> set n" "one_line s" "k \<noteq> js ''__proto__''" for k n s names vals
    using clean_put[OF that(1-3), of "HText s" k] that(4,5) by (simp add: text_of_def)
  note put1 = step[OF _ _ _ _ _, of _ _ "js ''Connection''" "js ''close''" "js ''connection''"]
  note put2 = step[OF _ _ _ _ _, of _ _ "js ''Transfer-Encoding''" "js ''chunked''" "js ''transfer-encoding''"]
  show ?thesis using assms put1 put2
    by (auto simp: response_sendHeaders_def Let_def one_line_def)
qed

text \<open>
  C13. What a response head says can be read back from its text: the lines of the text are the status
  line and one line for every entry of the table, those added by default included, in the order of the
  object's properties, and an empty line.  This is for a status code and message, names and values
  without line feeds and names without colons; the code does not check this, and \<open>header_injection\<close> shows
  what a line end in a value does.
\<close>

theorem response_head_read:
  assumes "clean (h_names st) (h_values st)" "one_line (text_of (h_statusCode st))"
    "one_line (status_message e st)"
  shows "read_head (fst (fst (response_sendHeaders e version st))) =
    (js ''HTTP/1.1 '' @ text_of (h_statusCode st) @ 32 # status_message e st,
     shown_fields (h_names (snd (response_sendHeaders e version st)))
       (h_values (snd (response_sendHeaders e version st))))"
  unfolding response_text
  by (rule read_head_table[OF _ response_clean[OF assms(1)]]) (use assms(2,3) in \<open>simp add: one_line_def\<close>)

definition two_headers :: response_head where
  "two_headers = fold (head_op plain_engine)
     [SetHeader (js ''Content-Length'') (HNumber 5), WriteHead (Some (HNumber 404)) NoArg None,
      SetHeader (js ''X-Id'') (HText (js ''a: b''))] new_head"

lemma two_headers_clean:
  "clean (h_names two_headers) (h_values two_headers)" "one_line (text_of (h_statusCode two_headers))"
  "one_line (status_message plain_engine two_headers)"
proof -
  have st: "h_names two_headers = [(js ''content-length'', js ''Content-Length''), (js ''x-id'', js ''X-Id'')]"
    "h_values two_headers = [(js ''content-length'', HNumber 5), (js ''x-id'', HText (js ''a: b''))]"
    "h_statusCode two_headers = HNumber 404" "status_message plain_engine two_headers = js ''Not Found''"
    by code_simp+
  have n: "int_to_js 5 = [53]" "int_to_js 404 = [52, 48, 52]" by code_simp+
  show "clean (h_names two_headers) (h_values two_headers)" unfolding st
    by (auto simp: clean_def in_step_def table_def one_line_def text_of_def n split: if_splits)
  show "one_line (text_of (h_statusCode two_headers))" "one_line (status_message plain_engine two_headers)"
    unfolding st by (simp_all add: text_of_def n one_line_def)
qed

theorem response_head_read_witness:
  "\<exists>start. read_head (fst (fst (response_sendHeaders plain_engine (js ''1.1'') two_headers))) =
     (start, [(js ''Content-Length'', js ''5''), (js ''X-Id'', js ''a: b''), (js ''Connection'', js ''close'')])"
proof -
  have "shown_fields (h_names (snd (response_sendHeaders plain_engine (js ''1.1'') two_headers)))
      (h_values (snd (response_sendHeaders plain_engine (js ''1.1'') two_headers))) =
    [(js ''Content-Length'', js ''5''), (js ''X-Id'', js ''a: b''), (js ''Connection'', js ''close'')]"
    by code_simp
  with response_head_read[OF two_headers_clean, of "js ''1.1''"] show ?thesis by metis
qed

section \<open>Requests\<close>

lemma token_char_upper: "token_char c \<Longrightarrow> token_char (if 97 \<le> c \<and> c \<le> 122 then c - 32 else c)"
proof (cases "97 \<le> c \<and> c \<le> 122")
  case True
  then have "65 \<le> c - 32 \<and> c - 32 \<le> 90" by arith
  then show ?thesis using True unfolding token_char_def by presburger
qed (simp only: if_False)

lemma upper_token_chars: "checkIsHttpToken s \<Longrightarrow> checkIsHttpToken (upper_token s)"
  by (simp add: checkIsHttpToken_def upper_token_def list_all_length token_char_upper)

lemma token_chars_large: "checkIsHttpToken s \<Longrightarrow> c \<in> set s \<Longrightarrow> 32 < c"
  by (auto simp: checkIsHttpToken_def list_all_iff token_char_def dest!: bspec)

lemma request_method_token: "request_method m = Inr s \<Longrightarrow> checkIsHttpToken s"
proof -
  have get: "checkIsHttpToken (js ''GET'')" by code_simp
  show "request_method m = Inr s \<Longrightarrow> checkIsHttpToken s"
    using get upper_token_chars by (auto simp: request_method_def simp del: js_Cons split: harg.splits if_splits)
qed

lemma token_nonempty: "checkIsHttpToken s \<Longrightarrow> s \<noteq> []"
  by (auto simp: checkIsHttpToken_def)

lemma request_path_chars: "request_path p = Inr s \<Longrightarrow> list_all path_char s"
  by (auto simp: request_path_def checked_path_def path_char_def split: path_option.splits if_splits)

text \<open>The text that the path of the options stands for.\<close>

definition path_meant :: "path_option \<Rightarrow> jsstr" where
  "path_meant path =
     (case path of NoPath \<Rightarrow> js ''/'' | PathText p \<Rightarrow> if p = [] then js ''/'' else p | PathOther p \<Rightarrow> p)"

lemma request_path_meant: "request_path p = Inr s \<Longrightarrow> s = path_meant p"
  by (auto simp: request_path_def checked_path_def path_meant_def split: path_option.splits if_splits)

lemma put_header_head [simp]:
  "rq_method (put_header k n v st) = rq_method st" "rq_path (put_header k n v st) = rq_path st"
  by (simp_all add: put_header_def)

lemma default_headers_head [simp]:
  "rq_method (default_headers e opts host port st) = rq_method st"
  "rq_path (default_headers e opts host port st) = rq_path st"
  by (auto simp: default_headers_def Let_def split: option.split)

lemma fold_put_header_head [simp]:
  "rq_method (fold (\<lambda>(n, v). put_header (f n) n v) hs st) = rq_method st"
  "rq_path (fold (\<lambda>(n, v). put_header (f n) n v) hs st) = rq_path st"
  by (induction hs arbitrary: st) (auto split: prod.split)

lemma new_request_head:
  assumes "new_request e opts = Inr st"
  shows "request_method (q_method opts) = Inr (rq_method st) \<and> request_path (q_path opts) = Inr (rq_path st)"
  using assms by (auto simp: new_request_def Let_def split: sum.splits option.splits)

text \<open>
  C14. The request line cannot be broken by the options.  When the constructor of \<^verbatim>\<open>ClientRequest\<close> accepts
  them, and the path is absent, a string or a value that \<^verbatim>\<open>String\<close> does not print as the empty string, then
  the first line of the head splits at its blanks and control characters into exactly three words, none of
  them empty: the method, the given path or \<^verbatim>\<open>/\<close>, and the version.
\<close>

theorem request_line_safe:
  assumes "new_request e opts = Inr st" "q_path opts \<noteq> PathOther []"
  shows "\<exists>rest. fst (fst (request_sendHeaders e st)) = rq_method st @ 32 # rq_path st @ js '' HTTP/1.1'' @ CRLF @ rest \<and>
    splitOn (\<lambda>c. c \<le> 32) (rq_method st @ 32 # rq_path st @ js '' HTTP/1.1'') =
      [rq_method st, path_meant (q_path opts), js ''HTTP/1.1''] \<and>
    rq_method st \<noteq> [] \<and> path_meant (q_path opts) \<noteq> []"
proof -
  note head = new_request_head[OF assms(1)]
  have path: "rq_path st = path_meant (q_path opts)" using head request_path_meant by blast
  have chars: "\<forall>c \<in> set (rq_method st). 32 < c" "\<forall>c \<in> set (rq_path st). 32 < c"
    using head request_method_token token_chars_large request_path_chars
    by (blast, fastforce simp: path_char_def list_all_iff)
  have "splitOn (\<lambda>c. c \<le> 32) (rq_method st @ 32 # rq_path st @ 32 # js ''HTTP/1.1'') =
      [rq_method st, rq_path st, js ''HTTP/1.1'']"
    using chars by (simp add: splitOn_append_sep splitOn_free not_le)
  then have "splitOn (\<lambda>c. c \<le> 32) (rq_method st @ 32 # rq_path st @ js '' HTTP/1.1'') =
      [rq_method st, rq_path st, js ''HTTP/1.1'']" by simp
  moreover have "rq_method st \<noteq> []" using head request_method_token token_nonempty by blast
  moreover have "path_meant (q_path opts) \<noteq> []"
    using assms(2) by (auto simp: path_meant_def split: path_option.split)
  ultimately show ?thesis using path by (auto simp: request_sendHeaders_def Let_def)
qed

text \<open>A path such as an empty array, which is truthy and prints as nothing, leaves two words.\<close>

lemma empty_path_accepted: "request_path (PathOther []) = Inr []"
  by (simp add: request_path_def checked_path_def)

end
