(* ===== verification/Http_Exchange.thy ===== *)
theory Http_Exchange
  imports Http_Props
begin

text \<open>
  \<^verbatim>\<open>lib_js/internal/http.js\<close>: the two ends of an exchange.  A response and a request are written with
  native calls that get the head, parts of the body and the end (\<^verbatim>\<open>httpWriteHead\<close>, \<^verbatim>\<open>httpWrite\<close>); a
  received message is made from the array that \<^verbatim>\<open>httpGetRequest\<close> gives, and read with \<^verbatim>\<open>httpRead\<close>.
\<close>

section \<open>Received messages\<close>

text \<open>\<^verbatim>\<open>s.charAt(i) | 0\<close>.\<close>

definition digit_at :: "jsstr \<Rightarrow> nat \<Rightarrow> nat" where
  "digit_at s i = (case charCodeAt s i of Some c \<Rightarrow> if 48 \<le> c \<and> c \<le> 57 then c - 48 else 0 | None \<Rightarrow> 0)"

record message =
  m_first :: jsstr
  m_second :: jsstr
  m_version :: jsstr
  m_versionMajor :: nat
  m_versionMinor :: nat
  m_rawHeaders :: "jsstr list"
  m_headers :: "(jsstr \<times> hval) list"
  m_upgrade :: bool

text \<open>
  Of a request: method, url and version.  Of a response: the status (as the number it stands for) and
  its message, and the version first.
\<close>

definition request_message :: "engine \<Rightarrow> jsstr \<Rightarrow> jsstr \<Rightarrow> jsstr \<Rightarrow> jsstr list \<Rightarrow> message" where
  "request_message e method url version raw =
     \<lparr>m_first = method, m_second = url, m_version = version, m_versionMajor = digit_at version 0,
      m_versionMinor = digit_at version 2, m_rawHeaders = raw, m_headers = collect_headers e raw,
      m_upgrade = asks_upgrade e raw\<rparr>"

definition response_message :: "engine \<Rightarrow> jsstr \<Rightarrow> jsstr \<Rightarrow> jsstr \<Rightarrow> jsstr list \<Rightarrow> message" where
  "response_message e version status text raw =
     \<lparr>m_first = int_to_js (e_int32 e status), m_second = text, m_version = version,
      m_versionMajor = digit_at version 0, m_versionMinor = digit_at version 2, m_rawHeaders = raw,
      m_headers = collect_headers e raw, m_upgrade = asks_upgrade e raw\<rparr>"

text \<open>
  The callback of \<^verbatim>\<open>httpRead\<close>: what it does with the connection, the stream and the agent.
  \<open>connected\<close>: the message still has a connection; \<open>size\<close>: of the buffer.
\<close>

datatype read_effect =
    NotReading
  | EmitError
  | RefreshTimeout
  | Trailers "(jsstr \<times> hval) list"
  | PushEnd
  | PushPart nat
  | FreeToAgent
  | RemoveFromAgent
  | DestroyConnection
  | DestroyMain

definition httpRead_done ::
  "engine \<Rightarrow> bool \<Rightarrow> bool \<Rightarrow> bool \<Rightarrow> bool \<Rightarrow> nat \<Rightarrow> bool \<Rightarrow> jsstr list \<Rightarrow> bool \<Rightarrow> read_effect list"
where
  "httpRead_done e connected hasTimeout isServer hasAgent bytesRead err trailers reuse =
     (if \<not> connected then []
      else if err then [NotReading, EmitError]
      else
        [NotReading] @ (if hasTimeout then [RefreshTimeout] else []) @
        (if bytesRead = 0 then
           [Trailers (collect_headers e trailers), PushEnd] @
           (if isServer then []
            else
              (if hasAgent then (if reuse then [FreeToAgent] else [RemoveFromAgent, DestroyConnection]) else []) @
              [DestroyMain])
         else [PushPart bytesRead]))"

section \<open>Sending a response\<close>

text \<open>The native calls, the events and the callbacks of the stream, the last first.\<close>

datatype send_call =
    WriteHeadCall jsstr int bool
  | WriteCall nat
  | EndCall
  | ResumeMessage
  | ErrorEvent
  | CallBack
  | DestroyCall

record response =
  rs_head :: response_head
  rs_version :: jsstr
  rs_connection :: bool
  rs_destroyed :: bool
  rs_writing :: bool
  rs_log :: "send_call list"

definition sendHead :: "engine \<Rightarrow> response \<Rightarrow> response" where
  "sendHead e st =
     (case response_sendHeaders e (rs_version st) (rs_head st) of
        ((text, len, chunked), h) \<Rightarrow> st\<lparr>rs_head := h, rs_log := WriteHeadCall text len chunked # rs_log st\<rparr>)"

definition sent_call :: "send_call \<Rightarrow> response \<Rightarrow> response" where
  "sent_call c st = st\<lparr>rs_log := c # rs_log st\<rparr>"

definition response_write :: "engine \<Rightarrow> nat \<Rightarrow> response \<Rightarrow> response" where
  "response_write e chunk st =
     (if \<not> rs_connection st \<or> rs_destroyed st then st
      else
        (let st1 = st\<lparr>rs_writing := True\<rparr>; st2 = (if \<not> h_sent (rs_head st1) then sendHead e st1 else st1)
         in sent_call (WriteCall chunk) st2))"

definition response_write_done :: "bool \<Rightarrow> response \<Rightarrow> response" where
  "response_write_done err st =
     (if \<not> rs_connection st then st
      else sent_call (if err then ErrorEvent else CallBack) (st\<lparr>rs_writing := False\<rparr>))"

text \<open>Without a body the length is given as 0, unless the head was sent.\<close>

definition response_final :: "engine \<Rightarrow> response \<Rightarrow> response" where
  "response_final e st =
     (if \<not> rs_connection st \<or> rs_destroyed st then st
      else
        (let st1 =
           (if \<not> h_sent (rs_head st) then
              sendHead e (st\<lparr>rs_head := (rs_head st)
                \<lparr>h_names := put (js ''content-length'') (js ''Content-Length'') (h_names (rs_head st)),
                 h_values := put (js ''content-length'') (HText (js ''0'')) (h_values (rs_head st))\<rparr>\<rparr>)
            else st)
         in sent_call EndCall (sent_call ResumeMessage st1)))"

definition response_final_done :: "bool \<Rightarrow> response \<Rightarrow> response" where
  "response_final_done err st = sent_call CallBack (if err then sent_call ErrorEvent st else st)"

definition response_destroy :: "response \<Rightarrow> response" where
  "response_destroy st =
     sent_call CallBack (if rs_connection st then sent_call DestroyCall (st\<lparr>rs_destroyed := True\<rparr>) else st)"

section \<open>A connection of the server\<close>

datatype exchange_call = GetRequest | ClientError | EndBadRequest | DestroyByError | EmitRequest | EmitUpgrade

record server_conn =
  sc_reading :: bool
  sc_wrapped :: bool
  sc_inError :: bool
  sc_log :: "exchange_call list"

text \<open>\<open>None\<close>: an \<^verbatim>\<open>Error\<close>, the socket is read or wrapped already.\<close>

definition handleServerConn :: "server_conn \<Rightarrow> server_conn option" where
  "handleServerConn st =
     (if sc_reading st \<or> sc_wrapped st then None
      else Some (st\<lparr>sc_reading := True, sc_wrapped := True, sc_inError := False, sc_log := GetRequest # sc_log st\<rparr>))"

text \<open>\<^verbatim>\<open>handleError\<close>; \<open>listened\<close>: \<^verbatim>\<open>clientError\<close> has a listener.\<close>

definition handleError :: "bool \<Rightarrow> server_conn \<Rightarrow> server_conn" where
  "handleError listened st =
     (let st1 = st\<lparr>sc_wrapped := False\<rparr> in
      if sc_inError st1 then st1\<lparr>sc_log := DestroyByError # sc_log st1\<rparr>
      else
        (let st2 = st1\<lparr>sc_inError := True, sc_log := ClientError # sc_log st1\<rparr>
         in if listened then st2 else st2\<lparr>sc_log := EndBadRequest # sc_log st2\<rparr>))"

text \<open>The callback of \<^verbatim>\<open>httpGetRequest\<close> without an error; \<open>taken\<close>: \<^verbatim>\<open>emit('upgrade')\<close> returned true.\<close>

definition got_request :: "message \<Rightarrow> bool \<Rightarrow> bool \<Rightarrow> server_conn \<Rightarrow> server_conn" where
  "got_request m upgradeListened taken st =
     (let st1 = st\<lparr>sc_reading := False\<rparr> in
      if m_upgrade m \<and> upgradeListened then
        (let st2 = st1\<lparr>sc_wrapped := False, sc_log := EmitUpgrade # sc_log st1\<rparr>
         in if taken then st2 else st2\<lparr>sc_log := EmitRequest # sc_log st2\<rparr>)
      else st1\<lparr>sc_log := EmitRequest # sc_log st1\<rparr>)"

section \<open>Sending a request\<close>

record client_request =
  cr_head :: request_head
  cr_connection :: bool
  cr_destroyed :: bool
  cr_corked :: bool
  cr_delayedEOF :: bool
  cr_log :: "send_call list"

definition request_call :: "send_call \<Rightarrow> client_request \<Rightarrow> client_request" where
  "request_call c st = st\<lparr>cr_log := c # cr_log st\<rparr>"

definition sendRequestHead :: "engine \<Rightarrow> client_request \<Rightarrow> client_request" where
  "sendRequestHead e st =
     (case request_sendHeaders e (cr_head st) of
        ((text, len, chunked), h) \<Rightarrow> st\<lparr>cr_head := h, cr_log := WriteHeadCall text len chunked # cr_log st\<rparr>)"

definition head_if_needed :: "engine \<Rightarrow> client_request \<Rightarrow> client_request" where
  "head_if_needed e st = (if \<not> rq_sent (cr_head st) then sendRequestHead e st else st)"

definition request_write :: "engine \<Rightarrow> nat \<Rightarrow> client_request \<Rightarrow> client_request" where
  "request_write e chunk st =
     (if \<not> cr_connection st \<or> cr_destroyed st then st
      else request_call (WriteCall chunk) (head_if_needed e st))"

definition request_final :: "engine \<Rightarrow> client_request \<Rightarrow> client_request" where
  "request_final e st =
     (if \<not> cr_connection st then st\<lparr>cr_delayedEOF := True\<rparr>
      else if cr_destroyed st then st
      else request_call EndCall (head_if_needed e st))"

text \<open>
  \<^verbatim>\<open>_onSocket\<close>: \<open>None\<close> is an \<^verbatim>\<open>Error\<close>.  A socket that is connecting is waited for.  \<^verbatim>\<open>uncork\<close> gives
  \<^verbatim>\<open>_write\<close> the first chunk that waits, if there is one.
\<close>

definition onSocket ::
  "engine \<Rightarrow> bool \<Rightarrow> bool \<Rightarrow> bool \<Rightarrow> nat option \<Rightarrow> client_request \<Rightarrow> client_request option"
where
  "onSocket e connecting reading wrapped waiting st =
     (if connecting then Some st
      else if reading \<or> wrapped then None
      else
        (let st1 = st\<lparr>cr_connection := True, cr_corked := False\<rparr>;
             st2 = (case waiting of Some chunk \<Rightarrow> request_write e chunk st1 | None \<Rightarrow> st1)
         in Some (if cr_delayedEOF st2 then request_call EndCall (head_if_needed e st2) else st2)))"

section \<open>The head comes first, and once\<close>

definition on_wire :: "send_call \<Rightarrow> bool" where
  "on_wire c = (case c of WriteHeadCall t l k \<Rightarrow> True | WriteCall n \<Rightarrow> True | EndCall \<Rightarrow> True | _ \<Rightarrow> False)"

definition is_head :: "send_call \<Rightarrow> bool" where
  "is_head c = (case c of WriteHeadCall t l k \<Rightarrow> True | _ \<Rightarrow> False)"

text \<open>What was sent, in order: nothing, or one head and then the body.\<close>

definition head_first :: "send_call list \<Rightarrow> bool" where
  "head_first calls =
     (case filter on_wire (rev calls) of [] \<Rightarrow> True | c # cs \<Rightarrow> is_head c \<and> (\<forall>d \<in> set cs. \<not> is_head d))"

definition nothing_sent :: "send_call list \<Rightarrow> bool" where
  "nothing_sent calls \<longleftrightarrow> (\<forall>c \<in> set calls. \<not> on_wire c)"

lemma head_first_off_wire: "\<not> on_wire c \<Longrightarrow> head_first (c # calls) = head_first calls"
  by (simp add: head_first_def)

lemma head_first_head: "nothing_sent calls \<Longrightarrow> head_first (WriteHeadCall t l k # calls)"
  by (simp add: head_first_def nothing_sent_def filter_empty_conv[THEN iffD2] on_wire_def is_head_def)

lemma head_first_body:
  "head_first calls \<Longrightarrow> \<not> nothing_sent calls \<Longrightarrow> \<not> is_head c \<Longrightarrow> head_first (c # calls)"
  by (auto simp: head_first_def nothing_sent_def filter_empty_conv split: list.splits)

text \<open>The log agrees with the flag.\<close>

definition sends_ok :: "bool \<Rightarrow> send_call list \<Rightarrow> bool" where
  "sends_ok sent calls \<longleftrightarrow> head_first calls \<and> nothing_sent calls = (\<not> sent)"

lemma sends_ok_off_wire: "\<not> on_wire c \<Longrightarrow> sends_ok sent (c # calls) = sends_ok sent calls"
  by (simp add: sends_ok_def head_first_off_wire nothing_sent_def)

lemma sends_ok_head: "sends_ok False calls \<Longrightarrow> sends_ok True (WriteHeadCall t l k # calls)"
  by (auto simp: sends_ok_def head_first_head nothing_sent_def on_wire_def)

lemma sends_ok_body: "sends_ok True calls \<Longrightarrow> on_wire c \<Longrightarrow> \<not> is_head c \<Longrightarrow> sends_ok True (c # calls)"
  by (simp add: sends_ok_def head_first_body nothing_sent_def)

lemmas off_wire [simp] = sends_ok_off_wire[of ResumeMessage] sends_ok_off_wire[of ErrorEvent]
  sends_ok_off_wire[of CallBack] sends_ok_off_wire[of DestroyCall]

abbreviation response_ok :: "response \<Rightarrow> bool" where
  "response_ok st \<equiv> sends_ok (h_sent (rs_head st)) (rs_log st)"

lemma sendHead_ok:
  assumes "response_ok st" "\<not> h_sent (rs_head st)"
  shows "response_ok (sendHead e st) \<and> h_sent (rs_head (sendHead e st))"
proof -
  obtain s len chunked h where h: "response_sendHeaders e (rs_version st) (rs_head st) = ((s, len, chunked), h)"
    by (cases "response_sendHeaders e (rs_version st) (rs_head st)") auto
  have "h_sent (snd (response_sendHeaders e (rs_version st) (rs_head st)))"
    by (simp add: response_sendHeaders_def Let_def)
  then show ?thesis using assms h by (simp add: sendHead_def sends_ok_head)
qed

datatype response_op =
    HeadOp head_call
  | WriteOp nat
  | WriteDone bool
  | FinalOp
  | FinalDone bool
  | DestroyOp

fun response_do :: "engine \<Rightarrow> response_op \<Rightarrow> response \<Rightarrow> response" where
  "response_do e (HeadOp c) st = st\<lparr>rs_head := head_op e c (rs_head st)\<rparr>"
| "response_do e (WriteOp chunk) st = response_write e chunk st"
| "response_do e (WriteDone err) st = response_write_done err st"
| "response_do e FinalOp st = response_final e st"
| "response_do e (FinalDone err) st = response_final_done err st"
| "response_do e DestroyOp st = response_destroy st"

lemma head_op_sent: "h_sent (head_op e c h) = h_sent h"
proof (cases "h_sent h")
  case True
  then show ?thesis by (cases c) (simp_all add: setHeader_def removeHeader_def writeHead_def)
qed (use head_op_table in blast)

lemma response_do_ok: "response_ok st \<Longrightarrow> response_ok (response_do e op st)"
proof (cases op)
  case (WriteOp chunk)
  assume st: "response_ok st"
  define st1 where "st1 = st\<lparr>rs_writing := True\<rparr>"
  have "response_ok st1" using st by (simp add: st1_def)
  then have "response_ok (sent_call (WriteCall chunk) (if \<not> h_sent (rs_head st1) then sendHead e st1 else st1))"
    using sendHead_ok[of st1 e]
    by (auto simp: sent_call_def on_wire_def is_head_def intro!: sends_ok_body)
  then show ?thesis using st WriteOp unfolding st1_def by (auto simp: response_write_def Let_def)
next
  case FinalOp
  assume st: "response_ok st"
  define st1 where "st1 = st\<lparr>rs_head := (rs_head st)
                \<lparr>h_names := put (js ''content-length'') (js ''Content-Length'') (h_names (rs_head st)),
                 h_values := put (js ''content-length'') (HText (js ''0'')) (h_values (rs_head st))\<rparr>\<rparr>"
  have "response_ok st1" "h_sent (rs_head st1) = h_sent (rs_head st)" using st by (simp_all add: st1_def)
  then have "response_ok (sent_call EndCall (sent_call ResumeMessage (if \<not> h_sent (rs_head st) then sendHead e st1 else st)))"
    using sendHead_ok[of st1 e] st
    by (auto simp: sent_call_def on_wire_def is_head_def intro!: sends_ok_body[of _ EndCall])
  then show ?thesis using st FinalOp unfolding st1_def by (auto simp: response_final_def Let_def)
qed (auto simp: head_op_sent response_write_done_def response_final_done_def response_destroy_def sent_call_def
    on_wire_def)

definition new_response :: "jsstr \<Rightarrow> response" where
  "new_response version =
     \<lparr>rs_head = new_head, rs_version = version, rs_connection = True, rs_destroyed = False,
      rs_writing = False, rs_log = []\<rparr>"

text \<open>
  C10. Whatever a server does with a response (headers, writes, the end, errors, in any order), what
  goes to the connection is one head and then the body: the head is sent once, before anything else.
\<close>

theorem response_head_first:
  "head_first (rs_log (fold (response_do e) ops (new_response version)))"
proof -
  have "response_ok st \<Longrightarrow> response_ok (fold (response_do e) ops st)" for st
    using response_do_ok by (induction ops arbitrary: st) simp_all
  moreover have "response_ok (new_response version)"
    by (simp add: new_response_def new_head_def sends_ok_def head_first_def nothing_sent_def)
  ultimately show ?thesis by (auto simp: sends_ok_def)
qed

section \<open>The same for a request\<close>

abbreviation request_ok :: "client_request \<Rightarrow> bool" where
  "request_ok st \<equiv> sends_ok (rq_sent (cr_head st)) (cr_log st)"

lemma head_if_needed_ok:
  assumes "request_ok st"
  shows "request_ok (head_if_needed e st) \<and> rq_sent (cr_head (head_if_needed e st))"
proof (cases "rq_sent (cr_head st)")
  case False
  obtain s len chunked h where h: "request_sendHeaders e (cr_head st) = ((s, len, chunked), h)"
    by (cases "request_sendHeaders e (cr_head st)") auto
  have "rq_sent (snd (request_sendHeaders e (cr_head st)))" by (simp add: request_sendHeaders_def Let_def)
  then show ?thesis using assms h False by (simp add: head_if_needed_def sendRequestHead_def sends_ok_head)
qed (use assms in \<open>simp add: head_if_needed_def\<close>)

lemma request_body_ok:
  "request_ok st \<Longrightarrow> on_wire c \<Longrightarrow> \<not> is_head c \<Longrightarrow> request_ok (request_call c (head_if_needed e st))"
  using head_if_needed_ok[of st e] sends_ok_body[of "cr_log (head_if_needed e st)" c]
  by (auto simp: request_call_def)

datatype request_op = RWrite nat | RFinal | RSocket bool bool bool "nat option"

fun request_do :: "engine \<Rightarrow> request_op \<Rightarrow> client_request \<Rightarrow> client_request" where
  "request_do e (RWrite chunk) st = request_write e chunk st"
| "request_do e RFinal st = request_final e st"
| "request_do e (RSocket c r w chunk) st = (case onSocket e c r w chunk st of Some st1 \<Rightarrow> st1 | None \<Rightarrow> st)"

lemma request_write_ok: "request_ok st \<Longrightarrow> request_ok (request_write e chunk st)"
  using request_body_ok[of st "WriteCall chunk" e] by (simp add: request_write_def on_wire_def is_head_def)

lemma request_do_ok: "request_ok st \<Longrightarrow> request_ok (request_do e op st)"
proof (cases op)
  case RFinal
  assume st: "request_ok st"
  then show ?thesis using RFinal request_body_ok[of st EndCall e]
    by (simp add: request_final_def on_wire_def is_head_def)
next
  case (RSocket c r w chunk)
  assume st: "request_ok st"
  define st2 where "st2 = (case chunk of
      Some chunk \<Rightarrow> request_write e chunk (st\<lparr>cr_connection := True, cr_corked := False\<rparr>)
    | None \<Rightarrow> st\<lparr>cr_connection := True, cr_corked := False\<rparr>)"
  have "request_ok st2" using st request_write_ok[of "st\<lparr>cr_connection := True, cr_corked := False\<rparr>" e]
    by (simp add: st2_def split: option.split)
  then show ?thesis using RSocket st request_body_ok[of st2 EndCall e]
    by (simp add: onSocket_def st2_def[symmetric] on_wire_def is_head_def Let_def)
qed (use request_write_ok in simp)

text \<open>
  Whatever is written to a request, before or after it gets its socket, one head goes to the
  connection and then the body.
\<close>

theorem request_head_first:
  assumes "\<not> rq_sent (cr_head st)" "cr_log st = []"
  shows "head_first (cr_log (fold (request_do e) ops st))"
proof -
  have "request_ok st \<Longrightarrow> request_ok (fold (request_do e) ops st)" for st
    using request_do_ok by (induction ops arbitrary: st) simp_all
  moreover have "request_ok st" using assms by (simp add: sends_ok_def head_first_def nothing_sent_def)
  ultimately show ?thesis by (auto simp: sends_ok_def)
qed

definition plain_options :: request_options where
  "plain_options =
     \<lparr>q_hostname = Undefined, q_host = Text (js ''::1''), q_port = Some (HNumber 81), q_setHost = None,
      q_method = Text (js ''post''), q_path = PathText (js ''/a?b''), q_headers = None, q_auth = None,
      q_agent = None\<rparr>"

text \<open>A request that has just been made.\<close>

definition unsent :: "request_head \<Rightarrow> client_request" where
  "unsent head =
     \<lparr>cr_head = head, cr_connection = False, cr_destroyed = False, cr_corked = True, cr_delayedEOF = False,
      cr_log = []\<rparr>"

theorem request_line_safe_witness:
  "\<exists>st rest. new_request plain_engine plain_options = Inr st \<and>
     fst (fst (request_sendHeaders plain_engine st)) = js ''POST /a?b HTTP/1.1'' @ CRLF @ rest"
proof -
  have "map_sum id (\<lambda>st. (rq_method st, rq_path st)) (new_request plain_engine plain_options) =
      Inr (js ''POST'', js ''/a?b'')" by code_simp
  then obtain st where st: "new_request plain_engine plain_options = Inr st"
    "rq_method st = js ''POST''" "rq_path st = js ''/a?b''"
    by (cases "new_request plain_engine plain_options") auto
  have "q_path plain_options \<noteq> PathOther []" by (simp add: plain_options_def)
  from request_line_safe[OF st(1) this] st show ?thesis by auto
qed

theorem request_head_first_witness:
  "\<exists>st. new_request plain_engine plain_options = Inr st \<and>
     head_first (cr_log (fold (request_do plain_engine)
       [RWrite 1, RFinal, RSocket False False False (Some 2)] (unsent st)))"
proof -
  have "map_sum id rq_sent (new_request plain_engine plain_options) = Inr False" by code_simp
  then obtain st where st: "new_request plain_engine plain_options = Inr st" "\<not> rq_sent st"
    by (cases "new_request plain_engine plain_options") auto
  have "\<not> rq_sent (cr_head (unsent st))" "cr_log (unsent st) = []" using st(2) by (simp_all add: unsent_def)
  from request_head_first[OF this] st(1) show ?thesis by blast
qed

text \<open>The head of this request.\<close>

lemma plain_request_head:
  "map_sum id (\<lambda>st. read_head (fst (fst (request_sendHeaders plain_engine st)))) (new_request plain_engine plain_options) =
     Inr (js ''POST /a?b HTTP/1.1'',
       [(js ''Host'', js ''[::1]:81''), (js ''Connection'', js ''close''), (js ''Transfer-Encoding'', js ''chunked'')])"
  by code_simp

text \<open>
  Header values are not checked: a value with a line end is read as two headers, in a response as in
  a request.
\<close>

lemma header_injection:
  "snd (read_head (fst (fst (response_sendHeaders plain_engine (js ''1.0'')
     (setHeader plain_engine (js ''X-Name'') (HText (js ''a'' @ CRLF @ js ''Set-Cookie: b'')) new_head))))) =
   [(js ''X-Name'', js ''a''), (js ''Set-Cookie'', js ''b''), (js ''Connection'', js ''close'')]"
  by code_simp

text \<open>
  An error is answered with status 400 once, unless \<^verbatim>\<open>clientError\<close> is listened to; a second error
  destroys the socket.
\<close>

lemma error_answered_once:
  assumes "handleServerConn st0 = Some st"
  shows "sc_log (fold handleError (listened # rest) st) =
    replicate (length rest) DestroyByError @ (if listened then [] else [EndBadRequest]) @ ClientError # sc_log st"
proof -
  have start: "\<not> sc_inError st" using assms by (auto simp: handleServerConn_def split: if_splits)
  have "sc_log (fold handleError ls st1) = replicate (length ls) DestroyByError @ sc_log st1"
    if "sc_inError st1" for ls st1
    using that
    by (induction ls arbitrary: st1) (simp_all add: handleError_def Let_def replicate_append_same flip: append_Cons)
  then show ?thesis using start by (simp add: handleError_def Let_def)
qed

end
