(* ===== verification/Net_Socket.thy ===== *)
theory Net_Socket
  imports Arrays
begin

text \<open>
  \<^verbatim>\<open>lib_js/net.js\<close>, the class \<^verbatim>\<open>Socket\<close>: the functions it gives to its stream (\<^verbatim>\<open>read\<close>, \<^verbatim>\<open>write\<close>,
  \<^verbatim>\<open>final\<close>, \<^verbatim>\<open>destroy\<close>), connecting, and the reference that keeps the process alive.  The native calls,
  what is given to the stream and the events are logged; the callbacks of native calls are operations
  of their own.
\<close>

section \<open>State\<close>

text \<open>\<^verbatim>\<open>_waitConnect\<close>: \<^verbatim>\<open>undefined\<close>, the size of a read that waits for the connection, or \<^verbatim>\<open>null\<close> for the end.\<close>

datatype waiting = NoWait | WaitRead nat | WaitEnd

datatype net_call =
    RunRef int
  | NativeRead nat
  | NativeWrite "nat list"
  | NativeClose nat
  | NativeShutdown nat
  | NativeConnect
  | NativeLookup
  | SetSockOpt
  | Push nat
  | PushEnd
  | WriteCallback
  | FinalCallback
  | ConnectCallback
  | DestroyCallback
  | EmitEvent jsstr
  | StartTimeout
  | ClearTimeout
  | RefreshTimeout
  | ServerConnectionClosed
  | ThrowTypeError

record socket =
  k_fd :: "nat option"
  k_connecting :: bool
  k_destroyed :: bool
  k_ref :: bool
  k_refSet :: bool
  k_reading :: bool
  k_writing :: bool
  k_httpWrapped :: bool
  k_wait :: waiting
  k_readableEOF :: bool
  k_writableEOF :: bool
  k_timeout :: bool
  k_hasServer :: bool
  k_bytesRead :: nat
  k_bytesWritten :: nat
  k_keepAliveEnabled :: "bool option"
  k_keepAliveSecs :: "int option"
  k_noDelay :: "bool option"
  k_log :: "net_call list"

definition new_Socket :: "nat option \<Rightarrow> socket" where
  "new_Socket fd =
     \<lparr>k_fd = fd, k_connecting = False, k_destroyed = False, k_ref = True, k_refSet = False,
      k_reading = False, k_writing = False, k_httpWrapped = False, k_wait = NoWait,
      k_readableEOF = False, k_writableEOF = False, k_timeout = False, k_hasServer = False,
      k_bytesRead = 0, k_bytesWritten = 0, k_keepAliveEnabled = None, k_keepAliveSecs = None,
      k_noDelay = None, k_log = []\<rparr>"

definition calls :: "net_call \<Rightarrow> socket \<Rightarrow> socket" where
  "calls c st = st\<lparr>k_log := c # k_log st\<rparr>"

section \<open>The reference\<close>

definition wants_ref :: "socket \<Rightarrow> bool" where
  "wants_ref st \<longleftrightarrow> k_ref st \<and> \<not> k_destroyed st \<and>
     (k_connecting st \<or> k_wait st \<noteq> NoWait \<or> k_reading st \<or> k_writing st)"

definition updateRef :: "socket \<Rightarrow> socket" where
  "updateRef st =
     (if wants_ref st then (if \<not> k_refSet st then (calls (RunRef 1) st)\<lparr>k_refSet := True\<rparr> else st)
      else (if k_refSet st then (calls (RunRef (-1)) st)\<lparr>k_refSet := False\<rparr> else st))"

definition sock_ref :: "socket \<Rightarrow> socket" where
  "sock_ref st = updateRef (st\<lparr>k_ref := True\<rparr>)"

definition sock_unref :: "socket \<Rightarrow> socket" where
  "sock_unref st = updateRef (st\<lparr>k_ref := False\<rparr>)"

section \<open>Destroying\<close>

text \<open>A file descriptor as a condition: 0 counts as none.\<close>

definition has_fd :: "socket \<Rightarrow> bool" where
  "has_fd st = (case k_fd st of Some n \<Rightarrow> n \<noteq> 0 | None \<Rightarrow> False)"

definition sock_destroy :: "socket \<Rightarrow> socket" where
  "sock_destroy st =
     (let st1 = (if k_timeout st then (calls ClearTimeout st)\<lparr>k_timeout := False\<rparr> else st)
      in if has_fd st1 then calls (NativeClose (the (k_fd st1))) st1 else calls DestroyCallback st1)"

text \<open>\<^verbatim>\<open>Duplex.prototype.destroy\<close>.\<close>

definition duplex_destroy :: "socket \<Rightarrow> socket" where
  "duplex_destroy st =
     (if k_destroyed st then st
      else sock_destroy (st\<lparr>k_destroyed := True, k_readableEOF := True, k_writableEOF := True\<rparr>))"

text \<open>The callback of \<^verbatim>\<open>native.close\<close>; the callback of \<^verbatim>\<open>_destroy\<close> emits \<^verbatim>\<open>error\<close> and \<^verbatim>\<open>close\<close>.\<close>

definition close_done :: "bool \<Rightarrow> socket \<Rightarrow> socket" where
  "close_done err st =
     (if err then calls DestroyCallback st
      else
        (let st1 = sock_unref st
         in calls DestroyCallback (if k_hasServer st1 then calls ServerConnectionClosed st1 else st1)))"

definition on_close :: "socket \<Rightarrow> socket" where
  "on_close st = updateRef (calls (EmitEvent (js ''close'')) st)"

section \<open>Reading\<close>

text \<open>\<open>None\<close>: an \<^verbatim>\<open>Error\<close>, the socket is an HTTP stream.\<close>

definition sock_read :: "nat \<Rightarrow> socket \<Rightarrow> socket option" where
  "sock_read len st =
     (if k_httpWrapped st then None
      else if k_fd st = None \<or> k_connecting st then Some (updateRef (st\<lparr>k_wait := WaitRead len\<rparr>))
      else Some (calls (NativeRead len) (updateRef (st\<lparr>k_reading := True\<rparr>))))"

definition sock_read_done :: "bool \<Rightarrow> nat \<Rightarrow> socket \<Rightarrow> socket" where
  "sock_read_done err bytesRead st =
     (let st1 = updateRef (st\<lparr>k_reading := False\<rparr>) in
      if err then duplex_destroy st1
      else
        (let st2 = (if k_timeout st1 then calls RefreshTimeout st1 else st1) in
         if bytesRead = 0 then (if k_writableEOF st2 then duplex_destroy st2 else calls PushEnd st2)
         else calls (Push bytesRead) (st2\<lparr>k_bytesRead := k_bytesRead st2 + bytesRead\<rparr>)))"

section \<open>Writing\<close>

definition sock_write :: "nat list \<Rightarrow> socket \<Rightarrow> socket option" where
  "sock_write chunk st =
     (if k_httpWrapped st then None
      else Some (calls (NativeWrite chunk) (updateRef (st\<lparr>k_writing := True\<rparr>))))"

text \<open>The callback of \<^verbatim>\<open>native.write\<close>: what was not written is written again.\<close>

definition write_done :: "bool \<Rightarrow> nat \<Rightarrow> nat list \<Rightarrow> socket \<Rightarrow> socket option" where
  "write_done err bytesWritten chunk st =
     (let st1 = updateRef (st\<lparr>k_writing := False\<rparr>) in
      if err then Some (duplex_destroy st1)
      else
        (let st2 = st1\<lparr>k_bytesWritten := k_bytesWritten st1 + bytesWritten\<rparr> in
         if length chunk \<noteq> bytesWritten then sock_write (drop bytesWritten chunk) st2
         else Some (calls WriteCallback st2)))"

definition sock_final :: "socket \<Rightarrow> socket" where
  "sock_final st =
     (if k_fd st = None \<or> k_connecting st then updateRef (st\<lparr>k_wait := WaitEnd\<rparr>)
      else if k_readableEOF st then calls FinalCallback (duplex_destroy st)
      else if has_fd st then calls (NativeShutdown (the (k_fd st))) st
      else st)"

section \<open>Connecting\<close>

datatype connect_error = AlreadyClosed | AlreadyConnected

text \<open>
  \<^verbatim>\<open>_connect\<close>: \<open>fd\<close> is what \<^verbatim>\<open>native.connect\<close> returns.  \<open>direct\<close>: no name has to be looked up.
\<close>

definition start_connect :: "nat \<Rightarrow> socket \<Rightarrow> socket" where
  "start_connect fd st = (calls NativeConnect (updateRef st))\<lparr>k_fd := Some fd\<rparr>"

definition sock_connect :: "bool \<Rightarrow> nat \<Rightarrow> socket \<Rightarrow> connect_error + socket" where
  "sock_connect direct fd st =
     (if k_destroyed st then Inl AlreadyClosed
      else if k_fd st \<noteq> None \<or> k_connecting st then Inl AlreadyConnected
      else
        (let st1 = st\<lparr>k_connecting := True\<rparr>
         in Inr (if direct then start_connect fd st1 else calls NativeLookup st1)))"

definition lookup_done :: "bool \<Rightarrow> nat \<Rightarrow> socket \<Rightarrow> socket" where
  "lookup_done err fd st =
     (let st1 = calls (EmitEvent (js ''lookup'')) st in
      if err then calls (EmitEvent (js ''error'')) (updateRef (st1\<lparr>k_connecting := False\<rparr>))
      else if k_destroyed st1 then updateRef (st1\<lparr>k_connecting := False\<rparr>)
      else start_connect fd st1)"

text \<open>
  The read or the end that waited for the connection; the end calls the callback of \<^verbatim>\<open>connect\<close>, a
  \<^verbatim>\<open>TypeError\<close> when there is none.
\<close>

definition run_waiting :: "bool \<Rightarrow> socket \<Rightarrow> bool \<times> socket" where
  "run_waiting hasCallback st =
     (case k_wait st of
        NoWait \<Rightarrow> (True, st)
      | WaitEnd \<Rightarrow>
          (let st1 = st\<lparr>k_wait := NoWait\<rparr> in
           if k_readableEOF st1 then
             (hasCallback, calls (if hasCallback then ConnectCallback else ThrowTypeError) (duplex_destroy st1))
           else if has_fd st1 then (True, calls (NativeShutdown (the (k_fd st1))) st1)
           else (True, st1))
      | WaitRead len \<Rightarrow> (True, calls (NativeRead len) (st\<lparr>k_wait := NoWait, k_reading := True\<rparr>)))"

text \<open>The callback of \<^verbatim>\<open>native.connect\<close>.\<close>

definition connect_done :: "bool \<Rightarrow> nat \<Rightarrow> bool \<Rightarrow> socket \<Rightarrow> socket" where
  "connect_done err fd hasCallback st =
     (if err then
        calls (EmitEvent (js ''error'')) (updateRef (st\<lparr>k_fd := None, k_connecting := False\<rparr>))
      else if k_destroyed st then calls (NativeClose fd) st
      else
        (let st1 = updateRef ((calls SetSockOpt st)\<lparr>k_connecting := False\<rparr>);
             (goes_on, st2) = run_waiting hasCallback st1;
             st3 = calls (EmitEvent (js ''ready'')) (calls (EmitEvent (js ''connect'')) st2);
             st4 = (if k_timeout st3 then calls RefreshTimeout st3 else st3)
         in if \<not> goes_on then st2 else if hasCallback then calls ConnectCallback st4 else st4))"

text \<open>The callback of \<^verbatim>\<open>native.close\<close> in there.\<close>

definition late_close_done :: "bool \<Rightarrow> socket \<Rightarrow> socket" where
  "late_close_done err st =
     (let st1 = updateRef (st\<lparr>k_connecting := False\<rparr>)
      in if err then calls (EmitEvent (js ''error'')) st1 else st1)"

text \<open>
  The callback of the read that waited: \<^verbatim>\<open>buf.slice(0, bytesRead)\<close>, where \<open>bytesRead\<close> is \<^verbatim>\<open>undefined\<close>
  (\<open>None\<close>) after an error.
\<close>

definition waited_read_done :: "nat option \<Rightarrow> nat \<Rightarrow> socket \<Rightarrow> socket" where
  "waited_read_done bytesRead len st =
     (case bytesRead of
        None \<Rightarrow> calls (Push len) st
      | Some n \<Rightarrow> calls (Push n) st)"

section \<open>Options\<close>

definition option_now :: "socket \<Rightarrow> socket" where
  "option_now st =
     (if \<not> k_connecting st \<and> \<not> k_destroyed st \<and> k_fd st \<noteq> None then calls SetSockOpt st else st)"

text \<open>\<^verbatim>\<open>~~(msecs / 1000)\<close> of a whole number.\<close>

definition setKeepAlive :: "bool \<Rightarrow> int option \<Rightarrow> socket \<Rightarrow> socket" where
  "setKeepAlive setting msecs st =
     (let st1 = st\<lparr>k_keepAliveEnabled := Some setting\<rparr>;
          st2 = (case msecs of
                   Some n \<Rightarrow> if n \<noteq> 0 then st1\<lparr>k_keepAliveSecs := Some (toInt32 (sgn n * (\<bar>n\<bar> div 1000)))\<rparr> else st1
                 | None \<Rightarrow> st1)
      in option_now st2)"

definition setNoDelay :: "bool option \<Rightarrow> socket \<Rightarrow> socket" where
  "setNoDelay enable st =
     option_now (st\<lparr>k_noDelay := Some (case enable of None \<Rightarrow> True | Some b \<Rightarrow> b)\<rparr>)"

definition setTimeout :: "nat \<Rightarrow> socket \<Rightarrow> socket option" where
  "setTimeout timeout st =
     (if k_destroyed st then None
      else
        (let st1 = (if k_timeout st then calls ClearTimeout st else st)
         in Some (if timeout \<noteq> 0 then (calls StartTimeout st1)\<lparr>k_timeout := True\<rparr> else st1)))"

definition timeout_fires :: "socket \<Rightarrow> socket" where
  "timeout_fires st = calls (EmitEvent (js ''timeout'')) (st\<lparr>k_timeout := False\<rparr>)"

definition readyState :: "socket \<Rightarrow> jsstr" where
  "readyState st =
     (if k_fd st \<noteq> None \<and> \<not> k_connecting st then
        (if k_destroyed st \<or> k_writableEOF st \<and> k_readableEOF st then js ''closed''
         else if k_writableEOF st then js ''readOnly''
         else if k_readableEOF st then js ''writeOnly''
         else js ''open'')
      else if k_connecting st then js ''opening''
      else js ''closed'')"

section \<open>Runs\<close>

datatype net_op =
    Ref | Unref | Destroy | CloseDone bool | Closed
  | Read nat | ReadDone bool nat
  | Write "nat list" | WriteDone bool nat "nat list" | Final
  | Connect bool nat | LookupDone bool nat | ConnectDone bool nat bool | LateCloseDone bool
  | WaitedReadDone "nat option" nat
  | KeepAlive bool "int option" | NoDelay "bool option" | Timeout nat | TimeoutFires

definition kept :: "socket \<Rightarrow> socket option \<Rightarrow> socket" where
  "kept st r = (case r of Some st1 \<Rightarrow> st1 | None \<Rightarrow> st)"

fun net_do :: "net_op \<Rightarrow> socket \<Rightarrow> socket" where
  "net_do Ref st = sock_ref st"
| "net_do Unref st = sock_unref st"
| "net_do Destroy st = duplex_destroy st"
| "net_do (CloseDone err) st = close_done err st"
| "net_do Closed st = on_close st"
| "net_do (Read len) st = kept st (sock_read len st)"
| "net_do (ReadDone err n) st = sock_read_done err n st"
| "net_do (Write chunk) st = kept st (sock_write chunk st)"
| "net_do (WriteDone err n chunk) st = kept st (write_done err n chunk st)"
| "net_do Final st = sock_final st"
| "net_do (Connect direct fd) st = (case sock_connect direct fd st of Inl e \<Rightarrow> st | Inr st1 \<Rightarrow> st1)"
| "net_do (LookupDone err fd) st = lookup_done err fd st"
| "net_do (ConnectDone err fd cb) st = connect_done err fd cb st"
| "net_do (LateCloseDone err) st = late_close_done err st"
| "net_do (WaitedReadDone n len) st = waited_read_done n len st"
| "net_do (KeepAlive b n) st = setKeepAlive b n st"
| "net_do (NoDelay b) st = setNoDelay b st"
| "net_do (Timeout n) st = kept st (setTimeout n st)"
| "net_do TimeoutFires st = timeout_fires st"

end
