(* ===== verification/Net_Props.thy ===== *)
theory Net_Props
  imports Net_Socket
begin

text \<open>
  The sockets of \<^verbatim>\<open>lib_js/net.js\<close>: the reference that keeps the process alive is taken and given back
  in turn and not held by a destroyed socket, and a chunk is written completely.
\<close>

section \<open>The reference\<close>

definition refs :: "net_call list \<Rightarrow> int" where
  "refs log = sum_list (map (\<lambda>c. case c of RunRef n \<Rightarrow> n | _ \<Rightarrow> 0) log)"

definition balanced :: "socket \<Rightarrow> bool" where
  "balanced st \<longleftrightarrow> refs (k_log st) = (if k_refSet st then 1 else 0)"

definition no_ref :: "net_call \<Rightarrow> bool" where
  "no_ref c = (case c of RunRef n \<Rightarrow> False | _ \<Rightarrow> True)"

lemma balanced_calls [simp]: "no_ref c \<Longrightarrow> balanced (calls c st) = balanced st"
  by (cases c) (simp_all add: balanced_def calls_def refs_def no_ref_def)

lemma no_ref_simps [simp]:
  "no_ref (NativeRead n)" "no_ref (NativeWrite bs)" "no_ref (NativeClose n)" "no_ref (NativeShutdown n)"
  "no_ref NativeConnect" "no_ref NativeLookup" "no_ref SetSockOpt" "no_ref (Push n)" "no_ref PushEnd"
  "no_ref WriteCallback" "no_ref FinalCallback" "no_ref ConnectCallback" "no_ref DestroyCallback"
  "no_ref (EmitEvent e)" "no_ref StartTimeout" "no_ref ClearTimeout" "no_ref RefreshTimeout"
  "no_ref ServerConnectionClosed" "no_ref ThrowTypeError"
  by (simp_all add: no_ref_def)

lemma balanced_fields [simp]:
  "balanced (st\<lparr>k_fd := a\<rparr>) = balanced st" "balanced (st\<lparr>k_connecting := b\<rparr>) = balanced st"
  "balanced (st\<lparr>k_destroyed := b\<rparr>) = balanced st" "balanced (st\<lparr>k_ref := b\<rparr>) = balanced st"
  "balanced (st\<lparr>k_reading := b\<rparr>) = balanced st" "balanced (st\<lparr>k_writing := b\<rparr>) = balanced st"
  "balanced (st\<lparr>k_wait := w\<rparr>) = balanced st" "balanced (st\<lparr>k_readableEOF := b\<rparr>) = balanced st"
  "balanced (st\<lparr>k_writableEOF := b\<rparr>) = balanced st" "balanced (st\<lparr>k_timeout := b\<rparr>) = balanced st"
  "balanced (st\<lparr>k_bytesRead := n\<rparr>) = balanced st" "balanced (st\<lparr>k_bytesWritten := n\<rparr>) = balanced st"
  "balanced (st\<lparr>k_keepAliveEnabled := c\<rparr>) = balanced st" "balanced (st\<lparr>k_keepAliveSecs := d\<rparr>) = balanced st"
  "balanced (st\<lparr>k_noDelay := c\<rparr>) = balanced st"
  by (simp_all add: balanced_def)

lemma balanced_updateRef [simp]: "balanced st \<Longrightarrow> balanced (updateRef st)"
  by (auto simp: updateRef_def balanced_def calls_def refs_def)

lemma balanced_destroy [simp]: "balanced st \<Longrightarrow> balanced (duplex_destroy st)"
  by (simp add: duplex_destroy_def sock_destroy_def Let_def)

lemma balanced_waiting: "balanced st \<Longrightarrow> balanced (snd (run_waiting cb st))"
  by (simp add: run_waiting_def Let_def split: waiting.split)

lemma balanced_do: "balanced st \<Longrightarrow> balanced (net_do op st)"
proof (cases op)
  case (ConnectDone err fd cb)
  assume st: "balanced st"
  define st1 where "st1 = updateRef ((calls SetSockOpt st)\<lparr>k_connecting := False\<rparr>)"
  obtain b st2 where st2: "run_waiting cb st1 = (b, st2)" by fastforce
  have "balanced st1" using st by (simp add: st1_def)
  then have "balanced st2" using balanced_waiting[of st1 cb] st2 by simp
  then show ?thesis using st ConnectDone st2 by (simp add: connect_done_def st1_def[symmetric] Let_def)
qed (auto simp: sock_ref_def sock_unref_def close_done_def on_close_def sock_read_def sock_read_done_def sock_write_def
    write_done_def sock_final_def sock_connect_def start_connect_def lookup_done_def late_close_done_def
    waited_read_done_def setKeepAlive_def setNoDelay_def option_now_def setTimeout_def timeout_fires_def
    kept_def Let_def split: option.splits)

text \<open>
  C17. The reference that keeps the process alive is never taken twice nor given back twice, whatever
  is done with a socket and in whatever order the native calls answer: the calls of \<^verbatim>\<open>runRef\<close> add up
  to 1 while the socket holds it and to 0 otherwise.
\<close>

theorem socket_ref_balanced:
  "refs (k_log (fold net_do ops (new_Socket fd))) = (if k_refSet (fold net_do ops (new_Socket fd)) then 1 else 0)"
proof -
  have "balanced st \<Longrightarrow> balanced (fold net_do ops st)" for st
    using balanced_do by (induction ops arbitrary: st) simp_all
  moreover have "balanced (new_Socket fd)" by (simp add: balanced_def new_Socket_def refs_def)
  ultimately show ?thesis by (simp add: balanced_def)
qed

section \<open>Destroyed sockets\<close>

text \<open>A destroyed socket that has given the reference back.\<close>

definition gone :: "socket \<Rightarrow> bool" where
  "gone st \<longleftrightarrow> k_destroyed st \<and> \<not> k_refSet st"

lemma gone_simps [simp]:
  "gone (calls c st) = gone st"
  "gone (st\<lparr>k_fd := a\<rparr>) = gone st" "gone (st\<lparr>k_connecting := b\<rparr>) = gone st"
  "gone (st\<lparr>k_ref := b\<rparr>) = gone st"
  "gone (st\<lparr>k_reading := b\<rparr>) = gone st" "gone (st\<lparr>k_writing := b\<rparr>) = gone st"
  "gone (st\<lparr>k_wait := w\<rparr>) = gone st" "gone (st\<lparr>k_timeout := b\<rparr>) = gone st"
  "gone (st\<lparr>k_bytesRead := n\<rparr>) = gone st" "gone (st\<lparr>k_bytesWritten := n\<rparr>) = gone st"
  "gone (st\<lparr>k_keepAliveEnabled := f\<rparr>) = gone st" "gone (st\<lparr>k_keepAliveSecs := d\<rparr>) = gone st"
  "gone (st\<lparr>k_noDelay := e\<rparr>) = gone st"
  by (simp_all add: gone_def calls_def)

lemma gone_updateRef [simp]: "k_destroyed st \<Longrightarrow> gone (updateRef st)"
  by (simp add: gone_def updateRef_def wants_ref_def calls_def)

lemma gone_destroyed: "gone st \<Longrightarrow> k_destroyed st"
  by (simp add: gone_def)

lemma gone_updateRef2 [simp]: "gone st \<Longrightarrow> gone (updateRef st)"
  by (simp add: gone_destroyed)

lemma gone_destroy [simp]: "gone st \<Longrightarrow> gone (duplex_destroy st)"
  by (simp add: duplex_destroy_def gone_destroyed)

lemma gone_do: "gone st \<Longrightarrow> gone (net_do op st)"
  by (cases op)
    (auto simp: sock_ref_def sock_unref_def close_done_def on_close_def sock_read_def sock_read_done_def sock_write_def
      write_done_def sock_final_def sock_connect_def connect_done_def start_connect_def lookup_done_def late_close_done_def
      waited_read_done_def setKeepAlive_def setNoDelay_def option_now_def setTimeout_def timeout_fires_def
      kept_def Let_def gone_destroyed split: option.splits)

text \<open>
  Once the \<^verbatim>\<open>close\<close> event of a destroyed socket was emitted it never keeps the process alive
  again, whatever is called and whichever native call answers late.
\<close>

theorem destroyed_lets_go:
  assumes "k_destroyed st"
  shows "\<not> k_refSet (fold net_do ops (on_close st))"
proof -
  have "gone st \<Longrightarrow> gone (fold net_do ops st)" for st
    using gone_do by (induction ops arbitrary: st) simp_all
  moreover have "gone (on_close st)"
    unfolding on_close_def by (rule gone_updateRef) (use assms in \<open>simp add: calls_def\<close>)
  ultimately have "gone (fold net_do ops (on_close st))" by blast
  then show ?thesis by (simp add: gone_def)
qed

theorem destroyed_lets_go_witness:
  "\<not> k_refSet (fold net_do [Ref, Read 5, WriteDone False 1 [1, 2]] (on_close (duplex_destroy (new_Socket (Some 3)))))"
  by (rule destroyed_lets_go) (simp add: duplex_destroy_def sock_destroy_def new_Socket_def has_fd_def calls_def)

section \<open>Writing a chunk\<close>

text \<open>The native calls of a write, and its end.\<close>

definition write_calls :: "socket \<Rightarrow> net_call list" where
  "write_calls st =
     filter (\<lambda>c. case c of NativeWrite bs \<Rightarrow> True | WriteCallback \<Rightarrow> True | _ \<Rightarrow> False) (rev (k_log st))"

text \<open>The answers of the native calls: how many bytes each one has written.\<close>

fun answers :: "nat list \<Rightarrow> nat list \<Rightarrow> socket \<Rightarrow> socket option" where
  "answers [] chunk st = Some st"
| "answers (n # ns) chunk st =
     (case write_done False n chunk st of None \<Rightarrow> None | Some st1 \<Rightarrow> answers ns (drop n chunk) st1)"

lemma write_calls_simps [simp]:
  "write_calls (updateRef st) = write_calls st"
  "write_calls (st\<lparr>k_writing := b\<rparr>) = write_calls st" "write_calls (st\<lparr>k_bytesWritten := n\<rparr>) = write_calls st"
  "write_calls (calls (NativeWrite bs) st) = write_calls st @ [NativeWrite bs]"
  "write_calls (calls WriteCallback st) = write_calls st @ [WriteCallback]"
  by (simp_all add: write_calls_def updateRef_def calls_def)

lemma updateRef_kept [simp]:
  "k_bytesWritten (updateRef st) = k_bytesWritten st" "k_httpWrapped (updateRef st) = k_httpWrapped st"
  by (simp_all add: updateRef_def calls_def)

lemma calls_kept [simp]:
  "k_bytesWritten (calls c st) = k_bytesWritten st" "k_httpWrapped (calls c st) = k_httpWrapped st"
  by (simp_all add: calls_def)

text \<open>What is still to be written before every answer but the first.\<close>

fun rests :: "nat list \<Rightarrow> nat list \<Rightarrow> nat list list" where
  "rests [] chunk = []"
| "rests [n] chunk = []"
| "rests (n # m # ns) chunk = drop n chunk # rests (m # ns) (drop n chunk)"

lemma answers_write:
  assumes "\<not> k_httpWrapped st" "ns \<noteq> []" "sum_list ns = length chunk" "\<forall>n \<in> set ns. 0 < n"
  shows "\<exists>st1. answers ns chunk st = Some st1 \<and>
    write_calls st1 = write_calls st @ map NativeWrite (rests ns chunk) @ [WriteCallback] \<and>
    k_bytesWritten st1 = k_bytesWritten st + length chunk"
  using assms
proof (induction ns chunk arbitrary: st rule: rests.induct)
  case (2 n chunk)
  then show ?case by (simp add: write_done_def Let_def)
next
  case (3 n m ns chunk)
  let ?st = "calls (NativeWrite (drop n chunk)) (updateRef ((updateRef (st\<lparr>k_writing := False\<rparr>))
      \<lparr>k_bytesWritten := k_bytesWritten st + n, k_writing := True\<rparr>))"
  have short: "n < length chunk" using 3(4,5) by auto
  have "write_done False n chunk st = Some ?st"
    using short 3(2) by (simp add: write_done_def sock_write_def Let_def)
  moreover have "\<exists>st1. answers (m # ns) (drop n chunk) ?st = Some st1 \<and>
    write_calls st1 = write_calls ?st @ map NativeWrite (rests (m # ns) (drop n chunk)) @ [WriteCallback] \<and>
    k_bytesWritten st1 = k_bytesWritten ?st + length (drop n chunk)"
    by (rule 3(1)) (use 3 short in auto)
  ultimately show ?case using short by auto
qed simp

text \<open>What the native calls have taken, put together.\<close>

lemma rests_complete:
  assumes "ns \<noteq> []" "sum_list ns = length chunk"
  shows "concat (map2 take ns (chunk # rests ns chunk)) = chunk"
  using assms
proof (induction ns chunk rule: rests.induct)
  case (3 n m ns chunk)
  have "concat (map2 take (m # ns) (drop n chunk # rests (m # ns) (drop n chunk))) = drop n chunk"
    by (rule 3(1)) (use 3 in auto)
  then show ?case by simp
qed auto

text \<open>
  C15. A chunk is written completely: however many bytes the native calls write each time, as long as
  each writes some, the rest is written again until nothing is left; then, and only then, the
  callback is called, once.  What the calls have taken is the chunk.
\<close>

theorem write_completes:
  assumes "sock_write chunk st = Some st0" "ns \<noteq> []" "sum_list ns = length chunk" "\<forall>n \<in> set ns. 0 < n"
  shows "\<exists>st1. answers ns chunk st0 = Some st1 \<and>
    write_calls st1 = write_calls st @ map NativeWrite (chunk # rests ns chunk) @ [WriteCallback] \<and>
    concat (map2 take ns (chunk # rests ns chunk)) = chunk \<and>
    k_bytesWritten st1 = k_bytesWritten st + length chunk"
proof -
  have http: "\<not> k_httpWrapped st" using assms(1) by (auto simp: sock_write_def split: if_splits)
  then have st0: "st0 = calls (NativeWrite chunk) (updateRef (st\<lparr>k_writing := True\<rparr>))"
    using assms(1) by (simp add: sock_write_def)
  have "\<not> k_httpWrapped st0" using http st0 by simp
  from answers_write[OF this assms(2-4)] st0 rests_complete[OF assms(2,3)] show ?thesis by auto
qed

theorem write_completes_witness:
  "\<exists>st0 st1. sock_write [7, 8, 9] (new_Socket (Some 3)) = Some st0 \<and> answers [1, 2] [7, 8, 9] st0 = Some st1 \<and>
     write_calls st1 = [NativeWrite [7, 8, 9], NativeWrite [8, 9], WriteCallback]"
proof -
  obtain st0 where st0: "sock_write [7, 8, 9] (new_Socket (Some 3)) = Some st0"
    by (simp add: sock_write_def new_Socket_def)
  from write_completes[OF this, of "[1, 2]"] st0 show ?thesis
    by (auto simp: write_calls_def new_Socket_def)
qed

section \<open>What waits for the connection\<close>

text \<open>\<^verbatim>\<open>end\<close> before the connection is there forgets a read that waits: it is never started.\<close>

lemma end_forgets_read:
  assumes "k_connecting st" "\<not> k_httpWrapped st" "sock_read len st = Some st1" "k_fd (sock_final st1) = Some fd"
    "\<not> k_readableEOF st" "\<not> k_destroyed st"
  shows "\<forall>n. NativeRead n \<in> set (k_log (connect_done False fd cb (sock_final st1))) \<longrightarrow> NativeRead n \<in> set (k_log st)"
proof -
  have st1: "st1 = updateRef (st\<lparr>k_wait := WaitRead len\<rparr>)" using assms(1-3) by (simp add: sock_read_def)
  have k: "k_connecting (updateRef s) = k_connecting s" "k_wait (updateRef s) = k_wait s"
    "k_readableEOF (updateRef s) = k_readableEOF s" "k_destroyed (updateRef s) = k_destroyed s"
    "k_fd (updateRef s) = k_fd s" "(NativeRead n \<in> set (k_log (updateRef s))) = (NativeRead n \<in> set (k_log s))" for s n
    by (simp_all add: updateRef_def calls_def)
  show ?thesis using assms(1,5,6) unfolding st1
    by (auto simp: sock_final_def k connect_done_def run_waiting_def Let_def calls_def has_fd_def)
qed

text \<open>
  A read that waited and fails is answered like one that filled the buffer: all of it, which nothing
  was read into, is pushed as data.
\<close>

lemma failed_read_pushes_buffer: "k_log (waited_read_done None len st) = Push len # k_log st"
  by (simp add: waited_read_done_def calls_def)

text \<open>After a read that waited the socket still counts as reading and holds the reference.\<close>

lemma waited_read_keeps_ref:
  "k_refSet (fold net_do [Read 5, Connect True 3, ConnectDone False 3 False, WaitedReadDone (Some 2) 5]
     (new_Socket None))"
  by code_simp

end
