(* ===== verification/Net_Server.thy ===== *)
theory Net_Server
  imports Js_Prelude
begin

text \<open>
  \<^verbatim>\<open>lib_js/net.js\<close>, the class \<^verbatim>\<open>Server\<close> and the arguments of \<^verbatim>\<open>listen\<close> and \<^verbatim>\<open>connect\<close>: listening, accepting,
  the count of connections, and closing.  Native calls, events and callbacks are logged, the last first.
\<close>

section \<open>State\<close>

datatype server_call =
    RunRef int
  | NativeListen
  | NativeLookup
  | NativeClose
  | NetConnections nat
  | EmitClose
  | EmitError
  | EmitListening
  | EmitConnection
  | CloseCallback
  | ListenCallback

record server =
  sv_listening :: bool
  sv_destroyed :: bool
  sv_tryListen :: bool
  sv_ref :: bool
  sv_connections :: nat
  sv_maxConnections :: "nat option"
  sv_log :: "server_call list"

definition new_Server :: server where
  "new_Server =
     \<lparr>sv_listening = False, sv_destroyed = False, sv_tryListen = False, sv_ref = False,
      sv_connections = 0, sv_maxConnections = None, sv_log = []\<rparr>"

definition server_calls :: "server_call \<Rightarrow> server \<Rightarrow> server" where
  "server_calls c st = st\<lparr>sv_log := c # sv_log st\<rparr>"

section \<open>Operations\<close>

datatype server_error = ServerClosed | ServerListening

definition server_ref :: "server \<Rightarrow> server_error + server" where
  "server_ref st =
     (if sv_destroyed st then Inl ServerClosed
      else Inr ((if \<not> sv_ref st then server_calls (RunRef 1) st else st)\<lparr>sv_ref := True\<rparr>))"

definition server_unref :: "server \<Rightarrow> server" where
  "server_unref st = (if sv_ref st then server_calls (RunRef (-1)) st else st)\<lparr>sv_ref := False\<rparr>"

text \<open>\<^verbatim>\<open>_listen\<close>.\<close>

definition start_listen :: "server \<Rightarrow> server_error + server" where
  "start_listen st = (case server_ref st of Inl e \<Rightarrow> Inl e | Inr st1 \<Rightarrow> Inr (server_calls NativeListen st1))"

definition listen :: "bool \<Rightarrow> server \<Rightarrow> server_error + server" where
  "listen direct st =
     (if sv_destroyed st then Inl ServerClosed
      else if sv_listening st \<or> sv_tryListen st then Inl ServerListening
      else
        (let st1 = st\<lparr>sv_tryListen := True\<rparr>
         in if direct then start_listen st1 else Inr (server_calls NativeLookup st1)))"

definition listen_lookup_done :: "bool \<Rightarrow> server \<Rightarrow> server_error + server" where
  "listen_lookup_done err st =
     (if err then Inr (server_calls EmitError (st\<lparr>sv_tryListen := False\<rparr>)) else start_listen st)"

definition listen_done :: "bool \<Rightarrow> server \<Rightarrow> server" where
  "listen_done err st =
     (let st1 = st\<lparr>sv_tryListen := False\<rparr> in
      if err then server_calls EmitError (server_unref st1)
      else if sv_destroyed st1 then server_calls NativeClose st1
      else st1\<lparr>sv_listening := True\<rparr>)"

text \<open>The \<^verbatim>\<open>setImmediate\<close> in there.\<close>

definition listening_event :: "bool \<Rightarrow> server \<Rightarrow> server" where
  "listening_event hasCallback st =
     (let st1 = server_calls EmitListening st in if hasCallback then server_calls ListenCallback st1 else st1)"

text \<open>The second callback of \<^verbatim>\<open>native.listen\<close>, for every connection.\<close>

definition on_accept :: "bool \<Rightarrow> server \<Rightarrow> server" where
  "on_accept err st =
     (if err then server_calls (NetConnections (sv_connections st)) st
      else if sv_destroyed st \<or> (case sv_maxConnections st of Some m \<Rightarrow> sv_connections st \<ge> m | None \<Rightarrow> False)
      then server_calls (NetConnections (sv_connections st)) (server_calls NativeClose st)
      else
        (let st1 = st\<lparr>sv_connections := sv_connections st + 1\<rparr>
         in server_calls EmitConnection (server_calls (NetConnections (sv_connections st1)) st1)))"

text \<open>What a socket of the server does when it is closed.\<close>

definition connection_closed :: "server \<Rightarrow> server" where
  "connection_closed st =
     (if sv_connections st = 0 then st
      else
        (let st1 = st\<lparr>sv_connections := sv_connections st - 1\<rparr>
         in if sv_connections st1 = 0 \<and> \<not> sv_listening st1 then server_calls EmitClose st1
            else if sv_listening st1 then server_calls (NetConnections (sv_connections st1)) st1
            else st1))"

definition server_close :: "bool \<Rightarrow> server \<Rightarrow> server" where
  "server_close hasCallback st =
     (if sv_destroyed st then st
      else
        (let st1 = (if sv_listening st then server_calls NativeClose st else st);
             st2 = (server_unref st1)\<lparr>sv_destroyed := True, sv_listening := False\<rparr>
         in if sv_connections st2 = 0 then
              (let st3 = server_calls EmitClose st2
               in if hasCallback then server_calls CloseCallback st3 else st3)
            else st2))"

text \<open>The callback of \<^verbatim>\<open>native.close\<close> in there.\<close>

definition server_close_done :: "bool \<Rightarrow> bool \<Rightarrow> server \<Rightarrow> server" where
  "server_close_done err hasCallback st =
     (let st1 = (if err then server_calls EmitError st else st)
      in if hasCallback then server_calls CloseCallback st1 else st1)"

section \<open>Arguments\<close>

text \<open>Arguments: an object, a string, a number, a function, anything else.\<close>

datatype net_arg = ArgObject nat | ArgString jsstr | ArgNumber nat | ArgFunction nat | ArgOther

datatype net_options = GivenOptions nat | PortOptions net_arg "jsstr option" | NoOptions

text \<open>\<^verbatim>\<open>isPipeName\<close> calls \<^verbatim>\<open>toNumber\<close>, which is not defined: \<open>None\<close> is the \<^verbatim>\<open>ReferenceError\<close>.\<close>

definition isPipeName :: "net_arg \<Rightarrow> bool option" where
  "isPipeName s = (case s of ArgString t \<Rightarrow> None | _ \<Rightarrow> Some False)"

definition normalizeArgs :: "net_arg list \<Rightarrow> (net_options \<times> nat option) option" where
  "normalizeArgs args =
     (case args of
        [] \<Rightarrow> Some (NoOptions, None)
      | arg0 # rest \<Rightarrow>
          (let cb = (case last args of ArgFunction f \<Rightarrow> Some f | _ \<Rightarrow> None) in
           case arg0 of
             ArgObject ob \<Rightarrow> Some (GivenOptions ob, cb)
           | _ \<Rightarrow>
               (case isPipeName arg0 of
                  None \<Rightarrow> None
                | Some b \<Rightarrow>
                    Some (PortOptions arg0 (case rest of ArgString h # _ \<Rightarrow> Some h | _ \<Rightarrow> None), cb))))"

section \<open>Runs\<close>

datatype server_op =
    Listen bool | ListenLookup bool | ListenDone bool | ListeningEvent bool
  | Accept bool | ConnectionClosed | Close bool | CloseDone bool bool | ServerRef | ServerUnref

definition or_same :: "server \<Rightarrow> server_error + server \<Rightarrow> server" where
  "or_same st r = (case r of Inl e \<Rightarrow> st | Inr st1 \<Rightarrow> st1)"

fun server_do :: "server_op \<Rightarrow> server \<Rightarrow> server" where
  "server_do (Listen direct) st =
     (case listen direct st of Inr st1 \<Rightarrow> st1 | Inl e \<Rightarrow> st)"
| "server_do (ListenLookup err) st = or_same st (listen_lookup_done err st)"
| "server_do (ListenDone err) st = listen_done err st"
| "server_do (ListeningEvent cb) st = listening_event cb st"
| "server_do (Accept err) st = on_accept err st"
| "server_do ConnectionClosed st = connection_closed st"
| "server_do (Close cb) st = server_close cb st"
| "server_do (CloseDone err cb) st = server_close_done err cb st"
| "server_do ServerRef st = or_same st (server_ref st)"
| "server_do ServerUnref st = server_unref st"

text \<open>The connections that were handed out with the event \<^verbatim>\<open>connection\<close>.\<close>

definition handed_out :: "server \<Rightarrow> nat" where
  "handed_out st = length (filter (\<lambda>c. c = EmitConnection) (sv_log st))"

text \<open>
  Connections come only to a server that listens or has listened, and only connections that were handed
  out are closed, each once: \<open>closed\<close> counts them.
\<close>

fun server_allowed :: "nat \<Rightarrow> server \<Rightarrow> server_op list \<Rightarrow> bool" where
  "server_allowed closed st [] = True"
| "server_allowed closed st (op # ops) =
     ((case op of Accept err \<Rightarrow> sv_listening st \<or> sv_destroyed st | ConnectionClosed \<Rightarrow> closed < handed_out st | _ \<Rightarrow> True) \<and>
      server_allowed (if op = ConnectionClosed then closed + 1 else closed) (server_do op st) ops)"

section \<open>The close event\<close>

definition close_events :: "server \<Rightarrow> nat" where
  "close_events st = length (filter (\<lambda>c. c = EmitClose) (sv_log st))"

definition server_refs :: "server \<Rightarrow> int" where
  "server_refs st = sum_list (map (\<lambda>c. case c of RunRef n \<Rightarrow> n | _ \<Rightarrow> 0) (sv_log st))"

definition server_ok :: "nat \<Rightarrow> server \<Rightarrow> bool" where
  "server_ok closed st \<longleftrightarrow>
     sv_connections st + closed = handed_out st \<and>
     close_events st = (if sv_destroyed st \<and> sv_connections st = 0 then 1 else 0) \<and>
     (sv_destroyed st \<longrightarrow> \<not> sv_listening st) \<and>
     (\<not> sv_listening st \<and> \<not> sv_destroyed st \<longrightarrow> sv_connections st = 0) \<and>
     (case sv_maxConnections st of Some m \<Rightarrow> sv_connections st \<le> m | None \<Rightarrow> True) \<and>
     server_refs st = (if sv_ref st then 1 else 0)"

lemma server_do_ok:
  assumes "server_ok closed st"
    "case op of Accept err \<Rightarrow> sv_listening st \<or> sv_destroyed st | ConnectionClosed \<Rightarrow> closed < handed_out st | _ \<Rightarrow> True"
  shows "server_ok (if op = ConnectionClosed then closed + 1 else closed) (server_do op st) \<and>
    sv_maxConnections (server_do op st) = sv_maxConnections st"
  using assms
  by (cases op)
    (auto simp: server_ok_def listen_def start_listen_def server_ref_def server_unref_def listen_lookup_done_def
      listen_done_def listening_event_def on_accept_def connection_closed_def server_close_def server_close_done_def
      or_same_def close_events_def handed_out_def server_refs_def server_calls_def Let_def split: option.splits if_splits)

text \<open>
  C16. A server emits \<^verbatim>\<open>close\<close> exactly once: when it has been closed and as many of its connections are
  closed as it ever handed out with \<^verbatim>\<open>connection\<close>, in whatever order this happens, and not before; it never
  has more than \<^verbatim>\<open>maxConnections\<close> handed out and not closed, and the reference that keeps the process
  alive is taken and given back in turn.  This is for a new server whose \<^verbatim>\<open>maxConnections\<close> is not changed;
  connections come when it listens or has been closed, and each that was handed out is closed at most once.
\<close>

theorem server_closes_once:
  assumes "server_allowed 0 (new_Server\<lparr>sv_maxConnections := m\<rparr>) ops"
    "st = fold server_do ops (new_Server\<lparr>sv_maxConnections := m\<rparr>)"
    "closed = count_list ops ConnectionClosed"
  shows "close_events st = (if sv_destroyed st \<and> handed_out st = closed then 1 else 0) \<and>
    closed \<le> handed_out st \<and> (case m of Some k \<Rightarrow> handed_out st - closed \<le> k | None \<Rightarrow> True) \<and>
    server_refs st = (if sv_ref st then 1 else 0)"
proof -
  have "server_ok n st1 \<Longrightarrow> server_allowed n st1 ops \<Longrightarrow>
    server_ok (n + count_list ops ConnectionClosed) (fold server_do ops st1) \<and>
    sv_maxConnections (fold server_do ops st1) = sv_maxConnections st1" for n st1
  proof (induction ops arbitrary: n st1)
    case (Cons op ops)
    have "server_ok (if op = ConnectionClosed then n + 1 else n) (server_do op st1)"
      "sv_maxConnections (server_do op st1) = sv_maxConnections st1"
      using server_do_ok[OF Cons.prems(1), of op] Cons.prems(2) by simp_all
    with Cons.IH[of "if op = ConnectionClosed then n + 1 else n" "server_do op st1"] Cons.prems(2)
    show ?case by (simp split: if_splits)
  qed simp
  moreover have "server_ok 0 (new_Server\<lparr>sv_maxConnections := m\<rparr>)"
    by (simp add: server_ok_def new_Server_def close_events_def handed_out_def server_refs_def split: option.split)
  ultimately have "server_ok closed st" "sv_maxConnections st = m" using assms by force+
  then show ?thesis by (auto simp: server_ok_def split: option.splits)
qed

theorem server_closes_once_witness:
  "close_events (fold server_do [Listen True, ListenDone False, Accept False, Accept False, Close True,
     ConnectionClosed, CloseDone False True] (new_Server\<lparr>sv_maxConnections := Some 1\<rparr>)) = 1"
proof -
  let ?ops = "[Listen True, ListenDone False, Accept False, Accept False, Close True, ConnectionClosed, CloseDone False True]"
  let ?st = "fold server_do ?ops (new_Server\<lparr>sv_maxConnections := Some 1\<rparr>)"
  have "server_allowed 0 (new_Server\<lparr>sv_maxConnections := Some 1\<rparr>) ?ops" by code_simp
  moreover have "sv_destroyed ?st \<and> handed_out ?st = count_list ?ops ConnectionClosed" by code_simp
  ultimately show ?thesis using server_closes_once[OF _ refl refl] by metis
qed

text \<open>The callback of \<^verbatim>\<open>close\<close> is called twice when a listening server has no connections.\<close>

lemma close_callback_twice:
  "length (filter (\<lambda>c. c = CloseCallback) (sv_log (fold server_do
     [Listen True, ListenDone False, Close True, CloseDone False True] new_Server))) = 2"
  by code_simp

end
