(* ===== verification/Util_Text.thy ===== *)
theory Util_Text
  imports Js_Prelude
begin

text \<open>
  The text helpers of \<^verbatim>\<open>lib_js/util.js\<close> and \<^verbatim>\<open>lib_js/internal/util.js\<close>: the escaping of strings for
  the output of \<^verbatim>\<open>inspect\<close>, its colours, \<^verbatim>\<open>join\<close>, \<^verbatim>\<open>removeColors\<close> and the names of encodings.
\<close>

section \<open>Escaping\<close>

text \<open>The table \<^verbatim>\<open>meta\<close>; the backslash of an entry is its first character.\<close>

definition meta :: "jsstr list" where
  "meta =
     map (\<lambda>s. CHAR_BACKWARD_SLASH # js s)
       [''u0000'', ''u0001'', ''u0002'', ''u0003'', ''u0004'', ''u0005'', ''u0006'', ''u0007'', ''b'', ''t'',
        ''n'', ''u000b'', ''f'', ''r'', ''u000e'', ''u000f'', ''u0010'', ''u0011'', ''u0012'', ''u0013'',
        ''u0014'', ''u0015'', ''u0016'', ''u0017'', ''u0018'', ''u0019'', ''u001a'', ''u001b'', ''u001c'', ''u001d'',
        ''u001e'', ''u001f''] @
     replicate 7 [] @ [[CHAR_BACKWARD_SLASH, 39]] @ replicate 52 [] @ [[CHAR_BACKWARD_SLASH, CHAR_BACKWARD_SLASH]]"

text \<open>The class of \<^verbatim>\<open>strEscapeSequencesRegExp\<close>.\<close>

definition escaped_char :: "nat \<Rightarrow> bool" where
  "escaped_char point \<longleftrightarrow> point = 39 \<or> point = 92 \<or> point < 32"

definition quoted :: "jsstr \<Rightarrow> jsstr" where
  "quoted s = [39] @ s @ [39]"

text \<open>\<^verbatim>\<open>str.replace(strEscapeSequencesReplacer, escapeFn)\<close>.\<close>

definition escape_all :: "jsstr \<Rightarrow> jsstr" where
  "escape_all str = concat (map (\<lambda>c. if escaped_char c then meta ! c else [c]) str)"

text \<open>The loop for short strings, which copies the text between the escapes in one piece.\<close>

function strEscape_loop :: "jsstr \<Rightarrow> nat \<Rightarrow> nat \<Rightarrow> jsstr \<Rightarrow> jsstr \<times> nat" where
  "strEscape_loop str i prev result =
     (if i < length str then
        (let point = str ! i in
         if escaped_char point then
           strEscape_loop str (i + 1) (i + 1)
             (if prev = i then result @ meta ! point else result @ slice str prev i @ meta ! point)
         else strEscape_loop str (i + 1) prev result)
      else (result, prev))"
  by pat_completeness auto
termination
  by (relation "measure (\<lambda>(str, i, _). length str - i)") auto

declare strEscape_loop.simps [simp del]

definition strEscape :: "jsstr \<Rightarrow> jsstr" where
  "strEscape str =
     (if length str < 5000 \<and> \<not> list_ex escaped_char str then quoted str
      else if length str > 100 then quoted (escape_all str)
      else
        (case strEscape_loop str 0 0 [] of
           (result, prev) \<Rightarrow>
             quoted (if prev = 0 then str
                     else if prev \<noteq> length str then result @ sliceFrom str prev
                     else result)))"

section \<open>Text with colours\<close>

text \<open>The table \<^verbatim>\<open>inspect.colors\<close>.\<close>

definition color_codes :: "(string \<times> nat \<times> nat) list" where
  "color_codes =
     [(''bold'', 1, 22), (''italic'', 3, 23), (''underline'', 4, 24), (''inverse'', 7, 27), (''white'', 37, 39),
      (''grey'', 90, 39), (''black'', 30, 39), (''blue'', 34, 39), (''cyan'', 36, 39), (''green'', 32, 39),
      (''magenta'', 35, 39), (''red'', 31, 39), (''yellow'', 33, 39)]"

text \<open>The table \<^verbatim>\<open>inspect.styles\<close>.\<close>

definition style_colors :: "(string \<times> string) list" where
  "style_colors =
     [(''special'', ''cyan''), (''number'', ''yellow''), (''bigint'', ''yellow''), (''boolean'', ''yellow''),
      (''undefined'', ''grey''), (''null'', ''bold''), (''string'', ''green''), (''symbol'', ''green''),
      (''date'', ''magenta''), (''regexp'', ''red'')]"

definition escape_code :: "nat \<Rightarrow> jsstr" where
  "escape_code n = [27, CHAR_LEFT_SQUARE_BRACKET] @ nat_to_js n @ js ''m''"

definition stylizeWithColor :: "jsstr \<Rightarrow> string \<Rightarrow> jsstr" where
  "stylizeWithColor str styleType =
     (case map_of style_colors styleType of
        None \<Rightarrow> str
      | Some style \<Rightarrow>
          (case map_of color_codes style of
             None \<Rightarrow> str
           | Some (on, off) \<Rightarrow> escape_code on @ str @ escape_code off))"

definition stylizeNoColor :: "jsstr \<Rightarrow> string \<Rightarrow> jsstr" where
  "stylizeNoColor str styleType = str"

text \<open>\<^verbatim>\<open>str.replace(colorRegExp, '')\<close>: the escape codes with one or two digits.\<close>

definition code_digit :: "nat \<Rightarrow> bool" where
  "code_digit c \<longleftrightarrow> CHAR_0 \<le> c \<and> c \<le> CHAR_9"

fun removeColors :: "jsstr \<Rightarrow> jsstr" where
  "removeColors (a # b # c # d # e # s) =
     (if a = 27 \<and> b = 91 \<and> code_digit c \<and> code_digit d \<and> e = 109 then removeColors s
      else if a = 27 \<and> b = 91 \<and> code_digit c \<and> d = 109 then removeColors (e # s)
      else a # removeColors (b # c # d # e # s))"
| "removeColors [a, b, c, d] =
     (if a = 27 \<and> b = 91 \<and> code_digit c \<and> d = 109 then [] else [a, b, c, d])"
| "removeColors s = s"

text \<open>\<^verbatim>\<open>join\<close>: the loop that appends every piece but the last with the separator.\<close>

fun join_loop :: "jsstr list \<Rightarrow> jsstr \<Rightarrow> jsstr \<Rightarrow> jsstr" where
  "join_loop (x # y # r) separator str = join_loop (y # r) separator (str @ x @ separator)"
| "join_loop [x] separator str = str @ x"
| "join_loop [] separator str = str"

definition join :: "jsstr list \<Rightarrow> jsstr \<Rightarrow> jsstr" where
  "join output separator = (if length output \<noteq> 0 then join_loop output separator [] else [])"

section \<open>Encodings\<close>

text \<open>
  The names of encodings, with \<^verbatim>\<open>toLowerCase\<close> as a parameter; \<open>None\<close> as an argument is null or
  undefined, as the result it is undefined.
\<close>

definition slowCases :: "(jsstr \<Rightarrow> jsstr) \<Rightarrow> jsstr \<Rightarrow> string option" where
  "slowCases lower enc =
     (let n = length enc; low = lower enc in
      if n = 4 then
        (if enc = js ''UTF8'' then Some ''utf8''
         else if enc = js ''ucs2'' \<or> enc = js ''UCS2'' then Some ''utf16le''
         else if low = js ''utf8'' then Some ''utf8''
         else if low = js ''ucs2'' \<or> low = js ''UCS2'' then Some ''utf16le''
         else None)
      else if n = 3 then
        (if enc = js ''hex'' \<or> enc = js ''HEX'' \<or> low = js ''hex'' then Some ''hex'' else None)
      else if n = 5 then
        (if enc = js ''ascii'' then Some ''ascii''
         else if enc = js ''ucs-2'' then Some ''utf16le''
         else if enc = js ''UTF-8'' then Some ''utf8''
         else if enc = js ''ASCII'' then Some ''ascii''
         else if enc = js ''UCS-2'' then Some ''utf16le''
         else if low = js ''utf-8'' then Some ''utf8''
         else if low = js ''ascii'' then Some ''ascii''
         else if low = js ''usc-2'' then Some ''utf16le''
         else None)
      else if n = 6 then
        (if enc = js ''base64'' then Some ''base64''
         else if enc = js ''latin1'' \<or> enc = js ''binary'' then Some ''latin1''
         else if enc = js ''BASE64'' then Some ''base64''
         else if enc = js ''LATIN1'' \<or> enc = js ''BINARY'' then Some ''latin1''
         else if low = js ''base64'' then Some ''base64''
         else if low = js ''latin1'' \<or> low = js ''binary'' then Some ''latin1''
         else None)
      else if n = 7 then
        (if enc = js ''utf16le'' \<or> enc = js ''UTF16LE'' \<or> low = js ''utf16le'' then Some ''utf16le'' else None)
      else if n = 8 then
        (if enc = js ''utf-16le'' \<or> enc = js ''UTF-16LE'' \<or> low = js ''utf-16le'' then Some ''utf16le'' else None)
      else if enc = [] then Some ''utf8''
      else None)"

definition normalizeEncoding :: "(jsstr \<Rightarrow> jsstr) \<Rightarrow> jsstr option \<Rightarrow> string option" where
  "normalizeEncoding lower enc =
     (case enc of
        None \<Rightarrow> Some ''utf8''
      | Some e \<Rightarrow> if e = js ''utf8'' \<or> e = js ''utf-8'' then Some ''utf8'' else slowCases lower e)"

section \<open>What the helpers compute\<close>

lemma join_loop_spec: "join_loop (x # r) sep str = str @ x @ concat (map (\<lambda>y. sep @ y) r)"
  by (induction r arbitrary: x str) simp_all

lemma join_Cons: "join (x # r) sep = x @ concat (map (\<lambda>y. sep @ y) r)"
  by (simp add: join_def join_loop_spec)

lemma join_Nil [simp]: "join [] sep = []" by (simp add: join_def)

lemma escape_all_id: "\<not> list_ex escaped_char s \<Longrightarrow> escape_all s = s"
  by (induction s) (auto simp: escape_all_def)

lemma escape_all_append: "escape_all (s @ t) = escape_all s @ escape_all t"
  by (simp add: escape_all_def)

text \<open>The loop keeps the text before \<open>prev\<close> escaped in \<open>result\<close> and none to escape after it.\<close>

lemma strEscape_loop_spec:
  assumes "prev \<le> i" "i \<le> length str" "result = escape_all (take prev str)"
    "\<not> list_ex escaped_char (slice str prev i)"
  shows "\<exists>q. strEscape_loop str i prev result = (escape_all (take q str), q) \<and> q \<le> length str \<and>
    \<not> list_ex escaped_char (drop q str)"
  using assms
proof (induction str i prev result rule: strEscape_loop.induct)
  case (1 str i prev result)
  show ?case
  proof (cases "i < length str")
    case True
    have mid: "slice str prev (i + 1) = slice str prev i @ [str ! i]"
      using True 1(3) slice_Suc[of prev i str] by simp
    have upto: "take (i + 1) str = take prev str @ slice str prev i @ [str ! i]"
      using True 1(3) mid by (metis append_take_drop_id le_add1 le_trans slice_def take_add le_add_diff_inverse)
    show ?thesis
    proof (cases "escaped_char (str ! i)")
      case esc: True
      let ?r = "if prev = i then result @ meta ! (str ! i) else result @ slice str prev i @ meta ! (str ! i)"
      have r: "?r = escape_all (take (i + 1) str)"
        unfolding upto 1(5) escape_all_append escape_all_id[OF 1(6)] using esc by (auto simp: escape_all_def)
      show ?thesis
        using 1(1)[OF True refl esc] True esc r by (subst strEscape_loop.simps) (simp add: Let_def)
    next
      case False
      then show ?thesis
        using 1(2)[OF True refl False] True 1(3-6) mid by (subst strEscape_loop.simps) (simp add: Let_def)
    qed
  next
    case False
    then have "i = length str" using 1(4) by simp
    then show ?thesis
      using 1(3-6) by (subst strEscape_loop.simps) (auto simp: slice_def)
  qed
qed

lemma strEscape_spec: "strEscape str = quoted (escape_all str)"
proof -
  obtain q where q: "strEscape_loop str 0 0 [] = (escape_all (take q str), q)" "q \<le> length str"
    "\<not> list_ex escaped_char (drop q str)"
    using strEscape_loop_spec[of 0 0 str "[]"] by (auto simp: escape_all_def)
  have "escape_all str = escape_all (take q str) @ drop q str"
    by (metis append_take_drop_id escape_all_append escape_all_id q(3))
  moreover have "escape_all str = str" if "q = 0" using that q(3) escape_all_id by simp
  moreover have "escape_all str = escape_all (take q str)" if "q = length str" using that by simp
  ultimately have r: "(if q = 0 then str else if q \<noteq> length str then escape_all (take q str) @ drop q str
      else escape_all (take q str)) = escape_all str" by presburger
  then show ?thesis
    using escape_all_id[of str] by (simp only: strEscape_def q(1) prod.case sliceFrom_def r) auto
qed

text \<open>
  What a JavaScript string literal in single quotes denotes; \<open>None\<close> when the text is not one such
  literal.
\<close>

definition hex_value :: "nat \<Rightarrow> nat option" where
  "hex_value c =
     (if 48 \<le> c \<and> c \<le> 57 then Some (c - 48)
      else if 97 \<le> c \<and> c \<le> 102 then Some (c - 87)
      else if 65 \<le> c \<and> c \<le> 70 then Some (c - 55)
      else None)"

definition single_escape :: "nat \<Rightarrow> nat" where
  "single_escape c =
     (if c = 98 then 8 else if c = 116 then 9 else if c = 110 then 10 else if c = 102 then 12
      else if c = 114 then 13 else c)"

fun read_body :: "jsstr \<Rightarrow> jsstr option" where
  "read_body [] = None"
| "read_body (c # s) =
     (if c = 39 then (if s = [] then Some [] else None)
      else if c = 92 then
        (case s of
           [] \<Rightarrow> None
         | d # t \<Rightarrow>
             if d = 117 then
               (case t of
                  h1 # h2 # h3 # h4 # u \<Rightarrow>
                    (case (hex_value h1, hex_value h2, hex_value h3, hex_value h4) of
                       (Some a, Some b, Some e, Some f) \<Rightarrow>
                         map_option (\<lambda>r. (((a * 16 + b) * 16 + e) * 16 + f) # r) (read_body u)
                     | _ \<Rightarrow> None)
                | _ \<Rightarrow> None)
             else map_option (\<lambda>r. single_escape d # r) (read_body t))
      else if c < 32 then None
      else map_option (\<lambda>r. c # r) (read_body s))"

definition read_literal :: "jsstr \<Rightarrow> jsstr option" where
  "read_literal s = (case s of [] \<Rightarrow> None | c # t \<Rightarrow> if c = 39 then read_body t else None)"

definition entry_ok :: "nat \<Rightarrow> bool" where
  "entry_ok c =
     (let m = meta ! c in
      m = [92, m ! 1] \<and> m ! 1 \<noteq> 117 \<and> single_escape (m ! 1) = c \<or>
      m = [92, 117, m ! 2, m ! 3, m ! 4, m ! 5] \<and> hex_value (m ! 2) = Some 0 \<and> hex_value (m ! 3) = Some 0 \<and>
        (case (hex_value (m ! 4), hex_value (m ! 5)) of (Some e, Some f) \<Rightarrow> e * 16 + f = c | _ \<Rightarrow> False))"

lemma meta_entries: "list_all entry_ok ([0..<32] @ [39, 92])"
  by code_simp

lemma read_escape:
  assumes "escaped_char c"
  shows "read_body (meta ! c @ s) = map_option (\<lambda>r. c # r) (read_body s)"
proof -
  have "c \<in> set ([0..<32] @ [39, 92])" using assms by (auto simp: escaped_char_def)
  then have "entry_ok c" using meta_entries unfolding list_all_iff by blast
  then consider d where "meta ! c = [92, d]" "d \<noteq> 117" "single_escape d = c"
    | h3 h4 e f h1 h2 where "meta ! c = [92, 117, h1, h2, h3, h4]" "hex_value h1 = Some 0" "hex_value h2 = Some 0"
        "hex_value h3 = Some e" "hex_value h4 = Some f" "e * 16 + f = c"
    unfolding entry_ok_def Let_def by (auto split: option.splits)
  then show ?thesis by cases simp_all
qed

lemma read_body_escape_all: "read_body (escape_all s @ [39]) = Some s"
proof (induction s)
  case (Cons c s)
  have plain: "read_body (c # escape_all s @ [39]) = Some (c # s)" if "\<not> escaped_char c"
    using that Cons by (simp add: escaped_char_def)
  have "escape_all (c # s) = (if escaped_char c then meta ! c else [c]) @ escape_all s" by (simp add: escape_all_def)
  then show ?case using read_escape[of c] Cons plain by auto
qed (simp add: escape_all_def)


text \<open>
  \<^verbatim>\<open>strEscape\<close> quotes a string so that it reads back: whatever way it takes (nothing to escape,
  one replacement, the loop), the result is a JavaScript string literal that denotes the string,
  and it has no control character in it.
\<close>

theorem strEscape_literal:
  "read_literal (strEscape str) = Some str \<and> list_all (\<lambda>c. 32 \<le> c) (strEscape str)"
proof
  show "read_literal (strEscape str) = Some str"
    by (simp add: strEscape_spec quoted_def read_literal_def read_body_escape_all)
  have "list_all (\<lambda>c. list_all (\<lambda>d. 32 \<le> d) (meta ! c)) ([0..<32] @ [39, 92])" by code_simp
  then have "list_all (\<lambda>d. 32 \<le> d) (meta ! c)" if "escaped_char c" for c
    using that unfolding list_all_iff escaped_char_def by auto
  then have "list_all (\<lambda>d. 32 \<le> d) (escape_all str)"
    by (auto simp: escape_all_def list_all_iff escaped_char_def)
  then show "list_all (\<lambda>c. 32 \<le> c) (strEscape str)" by (simp add: strEscape_spec quoted_def)
qed

text \<open>
  A name of an encoding in any case means what it means in lower case, with one exception: the
  lower case name \<^verbatim>\<open>ucs-2\<close> is misspelled as \<^verbatim>\<open>usc-2\<close>, so mixed case is not recognised.
\<close>

lemma ucs2_misspelled:
  "normalizeEncoding toLowerCase (Some (js ''ucs-2'')) = Some ''utf16le''"
  "normalizeEncoding toLowerCase (Some (js ''UCS-2'')) = Some ''utf16le''"
  "normalizeEncoding toLowerCase (Some (js ''Ucs-2'')) = None"
  "normalizeEncoding toLowerCase (Some (js ''Usc-2'')) = Some ''utf16le''"
  by code_simp+

text \<open>Taking the colours off gives the text that was coloured, when that has no escape character.\<close>

lemma removeColors_other: "c \<noteq> 27 \<Longrightarrow> removeColors (c # r) = c # removeColors r"
  by (cases "c # r" rule: removeColors.cases) auto

lemma removeColors_plain: "27 \<notin> set s \<Longrightarrow> removeColors (s @ t) = s @ removeColors t"
  by (induction s) (auto simp: removeColors_other)

lemma removeColors_Nil [simp]: "removeColors [] = []" by simp

lemma removeColors_code:
  assumes "n \<in> {0..<100}"
  shows "removeColors (escape_code n @ t) = removeColors t"
proof (cases "n < 10")
  case True
  then have "escape_code n @ t = 27 # 91 # (48 + n) # 109 # t"
    by (simp add: escape_code_def nat_to_js.simps)
  moreover have "removeColors (27 # 91 # (48 + n) # 109 # t) = removeColors t"
    using True by (cases t) (simp_all add: code_digit_def)
  ultimately show ?thesis by simp
next
  case False
  then have "escape_code n @ t = 27 # 91 # (48 + n div 10) # (48 + n mod 10) # 109 # t"
    using assms by (simp add: escape_code_def nat_to_js.simps[of n] nat_to_js.simps[of "n div 10"])
  moreover have "n div 10 \<le> 9" "n mod 10 \<le> 9" using assms by auto
  ultimately show ?thesis by (simp add: code_digit_def)
qed

lemma removeColors_stylize:
  assumes "27 \<notin> set str"
  shows "removeColors (stylizeWithColor str styleType) = str"
proof -
  have codes: "on < 100 \<and> off < 100" if "map_of color_codes style = Some (on, off)" for style on off
    using map_of_SomeD[OF that] by (auto simp: color_codes_def)
  show ?thesis
    using assms removeColors_plain[OF assms, of "[]"] removeColors_plain[OF assms] removeColors_code[of _ "[]"]
    by (auto simp: stylizeWithColor_def removeColors_code dest: codes split: option.split)
qed

end
