(* ===== verification/Inspect.thy ===== *)
theory Inspect
  imports Util_Text "HOL-Library.List_Lexorder"
begin

text \<open>
  \<^verbatim>\<open>inspect\<close> of \<^verbatim>\<open>lib_js/util.js\<close>: the text that shows a value.  Objects are addresses in a heap; an
  object holds what \<^verbatim>\<open>inspect\<close> reads of it.  \<^verbatim>\<open>ctx\<close> is a state that the calls thread; a call of
  \<^verbatim>\<open>formatValue\<close> that calls itself goes through the parameter \<open>rec\<close>, and \<open>formatValue\<close> ties the knot
  with fuel.

  The type tests \<^verbatim>\<open>isTypedArray\<close>, \<^verbatim>\<open>isMapIterator\<close>, \<^verbatim>\<open>isSetIterator\<close>, \<^verbatim>\<open>isArgumentsObject\<close>,
  \<^verbatim>\<open>isAnyArrayBuffer\<close>, \<^verbatim>\<open>isExternal\<close> and \<^verbatim>\<open>isModuleNamespaceObject\<close> of \<^verbatim>\<open>lib_js/internal/util/types.js\<close>
  are always false, so the branches behind them are not in the model: such objects are shown as
  what the remaining tests say, mostly as plain objects.
\<close>

section \<open>Values and objects\<close>

datatype ival =
    IUndef
  | INull
  | IBool bool
  | INum jsnum
  | INegZero
  | IBigInt int
  | IStr jsstr
  | ISym jsstr
  | IObj nat

datatype ikey = NameKey jsstr | SymKey jsstr

text \<open>A property descriptor: a value, or whether there are a getter and a setter.\<close>

datatype idesc = DataDesc ival | AccessorDesc bool bool

datatype iclass =
    CPlain
  | CArray nat
  | CSet "ival list"
  | CMap "(ival \<times> ival) list"
  | CPromise int ival
  | CFunction jsstr
  | CRegExp jsstr
  | CDate "jsstr option" jsstr
  | CError jsstr jsstr
  | CDataView
  | CWeakSet
  | CWeakMap

text \<open>
  \<open>CArray\<close> has the length, \<open>CFunction\<close> the name, \<open>CRegExp\<close> the source text, \<open>CDate\<close> the ISO text (none
  when the time is NaN) and the text of \<^verbatim>\<open>toString\<close>, \<open>CError\<close> the stack and the text of
  \<^verbatim>\<open>Error.prototype.toString\<close>.
\<close>

record ictx =
  i_seen :: "nat list"
  i_indentationLvl :: nat
  i_showHidden :: bool
  i_colors :: bool
  i_customInspect :: bool
  i_maxArrayLength :: "int option"
  i_breakLength :: "int option"
  i_compact :: bool

text \<open>
  An absent maximal or break length is \<^verbatim>\<open>Infinity\<close>.  \<open>o_props\<close>, \<open>o_syms\<close>: the own properties with the
  keys the engine lists, in order, whether they are enumerable, and their descriptors.  \<open>o_chain\<close>:
  for the object and its prototypes the name of the function that is their own \<^verbatim>\<open>constructor\<close>.
  \<open>o_custom\<close>: the own or inherited function under the inspection symbol, if it is not \<^verbatim>\<open>inspect\<close> itself.
  \<open>o_valueOf\<close>: the result of \<^verbatim>\<open>valueOf\<close>, if it does not throw.  \<open>o_text\<close>: the value converted to a
  string.  \<open>o_other\<close>: the value a lookup of a key gives that is not an own one.
\<close>

record iobj =
  o_class :: iclass
  o_props :: "(jsstr \<times> bool \<times> idesc) list"
  o_syms :: "(ikey \<times> bool \<times> idesc) list"
  o_chain :: "jsstr option list"
  o_tag :: ival
  o_iterator :: bool
  o_isPrototype :: bool
  o_custom :: "(int option \<Rightarrow> ictx \<Rightarrow> jserr + ival) option"
  o_valueOf :: "ival option"
  o_text :: jsstr
  o_other :: "ikey \<Rightarrow> ival"

text \<open>The heap, and the number an array key has that is not a canonical one, when it is an integer.\<close>

record ienv =
  n_heap :: "nat \<Rightarrow> iobj"
  n_toNumber :: "jsstr \<Rightarrow> int option"

section \<open>Calls that thread the context\<close>

type_synonym 'a irun = "ictx \<Rightarrow> ((jserr + 'a) \<times> ictx) option"
type_synonym irec = "ival \<Rightarrow> int option \<Rightarrow> jsstr irun"

definition ret :: "'a \<Rightarrow> 'a irun" where
  "ret x ctx = Some (Inr x, ctx)"

definition lift :: "jserr + 'a \<Rightarrow> 'a irun" where
  "lift r ctx = Some (r, ctx)"

definition bnd :: "'a irun \<Rightarrow> ('a \<Rightarrow> 'b irun) \<Rightarrow> 'b irun" where
  "bnd m f ctx =
     (case m ctx of
        None \<Rightarrow> None
      | Some (Inl e, ctx1) \<Rightarrow> Some (Inl e, ctx1)
      | Some (Inr x, ctx1) \<Rightarrow> f x ctx1)"

definition ask :: "(ictx \<Rightarrow> 'a irun) \<Rightarrow> 'a irun" where
  "ask f ctx = f ctx ctx"

definition modify :: "(ictx \<Rightarrow> ictx) \<Rightarrow> unit irun" where
  "modify f ctx = Some (Inr (), f ctx)"

fun for_each :: "('x \<Rightarrow> 'a irun) \<Rightarrow> 'x list \<Rightarrow> 'a list irun" where
  "for_each f [] = ret []"
| "for_each f (x # xs) = bnd (f x) (\<lambda>y. bnd (for_each f xs) (\<lambda>ys. ret (y # ys)))"

section \<open>Primitive values\<close>

definition stylize :: "ictx \<Rightarrow> jsstr \<Rightarrow> string \<Rightarrow> jsstr" where
  "stylize ctx = (if i_colors ctx then stylizeWithColor else stylizeNoColor)"

definition over_limit :: "int \<Rightarrow> int option \<Rightarrow> bool" where
  "over_limit n limit = (case limit of Some k \<Rightarrow> n > k | None \<Rightarrow> False)"

definition spaces :: "nat \<Rightarrow> jsstr" where
  "spaces n = replicate n 32"

fun num_text :: "jsnum \<Rightarrow> jsstr" where
  "num_text (Fin i) = int_to_js i"
| "num_text PosInf = js ''Infinity''"
| "num_text NegInf = js ''-Infinity''"
| "num_text NotANumber = js ''NaN''"

definition formatNumber :: "(jsstr \<Rightarrow> string \<Rightarrow> jsstr) \<Rightarrow> ival \<Rightarrow> jsstr" where
  "formatNumber fn v =
     (case v of INum n \<Rightarrow> fn (num_text n) ''number'' | _ \<Rightarrow> fn (js ''-0'') ''number'')"

text \<open>
  The regular expression that breaks text into lines, at the start of \<open>s\<close>: \<^verbatim>\<open>(.|\n)\<close> repeated \<open>k\<close> times
  and then \<^verbatim>\<open>(\s|$)\<close>.  The first alternative takes the largest \<open>k\<close> up to the divisor, the second the
  least one.
\<close>

definition any_char :: "nat \<Rightarrow> bool" where
  "any_char c \<longleftrightarrow> c \<notin> {13, 0x2028, 0x2029}"

definition break_after :: "jsstr \<Rightarrow> nat \<Rightarrow> nat option" where
  "break_after s k = (case drop k s of [] \<Rightarrow> Some k | c # _ \<Rightarrow> if isSpaceClass c then Some (k + 1) else None)"

fun greedy_break :: "jsstr \<Rightarrow> nat \<Rightarrow> nat option" where
  "greedy_break s 0 = None"
| "greedy_break s (Suc k) = (case break_after s (Suc k) of Some n \<Rightarrow> Some n | None \<Rightarrow> greedy_break s k)"

definition lazy_break :: "jsstr \<Rightarrow> nat \<Rightarrow> nat option" where
  "lazy_break s m =
     (case filter (\<lambda>k. break_after s k \<noteq> None) [1..<Suc m] of [] \<Rightarrow> None | k # _ \<Rightarrow> break_after s k)"

definition line_match :: "nat \<Rightarrow> jsstr \<Rightarrow> nat option" where
  "line_match divisor s =
     (let m = length (takeWhile any_char s) in
      case greedy_break s (min divisor m) of Some n \<Rightarrow> Some n | None \<Rightarrow> lazy_break s m)"

lemma greedy_break_pos: "greedy_break s k = Some n \<Longrightarrow> 0 < n"
  by (induction k) (auto simp: break_after_def split: option.splits list.splits if_splits)

lemma break_after_ge: "break_after s k = Some n \<Longrightarrow> k \<le> n"
  by (auto simp: break_after_def split: list.splits if_splits)

lemma lazy_break_Some:
  assumes "lazy_break s m = Some n"
  shows "\<exists>k. 1 \<le> k \<and> k \<le> m \<and> break_after s k = Some n"
proof -
  obtain k ks where k: "filter (\<lambda>k. break_after s k \<noteq> None) [1..<Suc m] = k # ks" "break_after s k = Some n"
    using assms by (auto simp: lazy_break_def split: list.splits)
  have "k \<in> set (filter (\<lambda>k. break_after s k \<noteq> None) [1..<Suc m])" unfolding k(1) by simp
  then show ?thesis using k(2) by auto
qed

lemma line_match_pos: "line_match divisor s = Some n \<Longrightarrow> 0 < n"
  using greedy_break_pos lazy_break_Some break_after_ge
  by (fastforce simp: line_match_def Let_def split: option.splits)

text \<open>\<^verbatim>\<open>value.match(regexp)\<close> with the flag \<^verbatim>\<open>g\<close>: all matches; no match gives null, here the empty list.\<close>

function line_matches :: "nat \<Rightarrow> jsstr \<Rightarrow> jsstr list" where
  "line_matches divisor s =
     (if s = [] then []
      else
        (case line_match divisor s of
           Some n \<Rightarrow> take n s # line_matches divisor (drop n s)
         | None \<Rightarrow> line_matches divisor (tl s)))"
  by pat_completeness auto
termination
  by (relation "measure (\<lambda>(_, s). length s)") (auto dest: line_match_pos)

declare line_matches.simps [simp del]

definition ceil_div :: "nat \<Rightarrow> nat \<Rightarrow> nat" where
  "ceil_div a b = (a + b - 1) div b"

definition line_divisor :: "nat \<Rightarrow> int \<Rightarrow> nat \<Rightarrow> nat" where
  "line_divisor len breakLength indentationLvl =
     (let minLineLength = nat (max (breakLength - int indentationLvl) 16);
          averageLineLength = ceil_div len (ceil_div len minLineLength)
      in max averageLineLength 16)"

fun rest_lines :: "(jsstr \<Rightarrow> string \<Rightarrow> jsstr) \<Rightarrow> jsstr \<Rightarrow> jsstr list \<Rightarrow> jsstr" where
  "rest_lines fn indent [] = []"
| "rest_lines fn indent [m] = indent @ js ''  '' @ fn (strEscape m) ''string''"
| "rest_lines fn indent (m # r) =
     indent @ js ''  '' @ fn (strEscape m) ''string'' @ js '' +'' @ [10] @ rest_lines fn indent r"

definition formatString :: "(jsstr \<Rightarrow> string \<Rightarrow> jsstr) \<Rightarrow> jsstr \<Rightarrow> ictx \<Rightarrow> jserr + jsstr" where
  "formatString fn s ctx =
     (case i_breakLength ctx of
        Some b \<Rightarrow>
          if \<not> i_compact ctx \<and> int (i_indentationLvl ctx + length s) > b \<and> length s > 16 then
            (case line_matches (line_divisor (length s) b (i_indentationLvl ctx)) s of
               [] \<Rightarrow> Inl TypeError
             | [m] \<Rightarrow> Inr (fn (strEscape s) ''string'')
             | m # ms \<Rightarrow>
                 Inr (fn (strEscape m) ''string'' @ js '' +'' @ [10] @ rest_lines fn (spaces (i_indentationLvl ctx)) ms))
          else Inr (fn (strEscape s) ''string'')
      | None \<Rightarrow> Inr (fn (strEscape s) ''string''))"

definition formatPrimitive :: "(jsstr \<Rightarrow> string \<Rightarrow> jsstr) \<Rightarrow> ival \<Rightarrow> ictx \<Rightarrow> jserr + jsstr" where
  "formatPrimitive fn v ctx =
     (case v of
        IStr s \<Rightarrow> formatString fn s ctx
      | INum n \<Rightarrow> Inr (formatNumber fn v)
      | INegZero \<Rightarrow> Inr (formatNumber fn v)
      | IBigInt i \<Rightarrow> Inr (fn (int_to_js i @ js ''n'') ''bigint'')
      | IBool b \<Rightarrow> Inr (fn (js (if b then ''true'' else ''false'')) ''boolean'')
      | IUndef \<Rightarrow> Inr (fn (js ''undefined'') ''undefined'')
      | ISym s \<Rightarrow> Inr (fn s ''symbol'')
      | _ \<Rightarrow> Inl TypeError)"

section \<open>Properties of objects\<close>

definition getConstructorName :: "jsstr option list \<Rightarrow> jsstr" where
  "getConstructorName chain =
     (case filter (\<lambda>c. c \<noteq> None \<and> c \<noteq> Some []) chain of Some name # _ \<Rightarrow> name | _ \<Rightarrow> [])"

definition bracketed_tag :: "jsstr \<Rightarrow> jsstr" where
  "bracketed_tag tag = js ''['' @ tag @ js ''] ''"

definition getPrefix :: "jsstr \<Rightarrow> jsstr \<Rightarrow> jsstr" where
  "getPrefix constructor tag =
     (if constructor \<noteq> [] then
        (if tag \<noteq> [] \<and> constructor \<noteq> tag then constructor @ js '' '' @ bracketed_tag tag else constructor @ js '' '')
      else if tag \<noteq> [] then bracketed_tag tag
      else [])"

definition own_desc :: "iobj \<Rightarrow> ikey \<Rightarrow> (bool \<times> idesc) option" where
  "own_desc ob key =
     (case key of
        NameKey s \<Rightarrow> (case map_of (o_props ob) s of Some d \<Rightarrow> Some d | None \<Rightarrow> map_of (o_syms ob) key)
      | SymKey s \<Rightarrow> map_of (o_syms ob) key)"

definition ident_start :: "nat \<Rightarrow> bool" where
  "ident_start c \<longleftrightarrow> 97 \<le> c \<and> c \<le> 122 \<or> 65 \<le> c \<and> c \<le> 90 \<or> c = 95"

text \<open>\<^verbatim>\<open>keyStrRegExp\<close> and \<^verbatim>\<open>numberRegExp\<close>.\<close>

definition key_like :: "jsstr \<Rightarrow> bool" where
  "key_like s = (case s of [] \<Rightarrow> False | c # r \<Rightarrow> ident_start c \<and> list_all (\<lambda>d. ident_start d \<or> code_digit d) r)"

definition number_like :: "jsstr \<Rightarrow> bool" where
  "number_like s =
     (s = [48] \<or> (case s of [] \<Rightarrow> False | c # r \<Rightarrow> code_digit c \<and> c \<noteq> 48 \<and> list_all code_digit r))"

text \<open>\<^verbatim>\<open>+key\<close>, when it is an integer.\<close>

definition to_number :: "ienv \<Rightarrow> jsstr \<Rightarrow> int option" where
  "to_number env s =
     (if number_like s then Some (int (foldl (\<lambda>n d. n * 10 + (d - 48)) 0 s)) else n_toNumber env s)"

definition indent_by :: "nat \<Rightarrow> ictx \<Rightarrow> ictx" where
  "indent_by n ctx = ctx\<lparr>i_indentationLvl := i_indentationLvl ctx + n\<rparr>"

definition outdent_by :: "nat \<Rightarrow> ictx \<Rightarrow> ictx" where
  "outdent_by n ctx = ctx\<lparr>i_indentationLvl := i_indentationLvl ctx - n\<rparr>"

definition shown_length :: "ictx \<Rightarrow> jsstr \<Rightarrow> nat" where
  "shown_length ctx s = (if i_colors ctx then length (removeColors s) else length s)"

text \<open>The text before the value: a new line when the value is wide and the output is compact.\<close>

definition value_gap :: "nat \<Rightarrow> jsstr \<Rightarrow> ictx \<Rightarrow> jsstr" where
  "value_gap diff str ctx =
     (if diff = 3 \<and> over_limit (int (shown_length ctx str)) (i_breakLength ctx)
      then [10] @ spaces (i_indentationLvl ctx) else [32])"

definition property_name :: "ikey \<Rightarrow> bool \<Rightarrow> ictx \<Rightarrow> jsstr" where
  "property_name key enumerable ctx =
     (case key of
        SymKey s \<Rightarrow> js ''['' @ stylize ctx s ''symbol'' @ js '']''
      | NameKey s \<Rightarrow>
          if \<not> enumerable then js ''['' @ s @ js '']''
          else if key_like s then stylize ctx s ''name''
          else stylize ctx (strEscape s) ''string'')"

definition property_text :: "ikey \<Rightarrow> bool \<Rightarrow> nat \<Rightarrow> jsstr \<Rightarrow> jsstr \<Rightarrow> jsstr irun" where
  "property_text key enumerable array extra str =
     ask (\<lambda>ctx. ret (if array = 1 then str else property_name key enumerable ctx @ js '':'' @ extra @ str))"

definition accessor_text :: "bool \<Rightarrow> bool \<Rightarrow> ictx \<Rightarrow> jsstr" where
  "accessor_text getter setter ctx =
     (if getter then
        (if setter then stylize ctx (js ''[Getter/Setter]'') ''special'' else stylize ctx (js ''[Getter]'') ''special'')
      else if setter then stylize ctx (js ''[Setter]'') ''special''
      else stylize ctx (js ''undefined'') ''undefined'')"

definition formatProperty :: "irec \<Rightarrow> iobj \<Rightarrow> int option \<Rightarrow> ikey \<Rightarrow> nat \<Rightarrow> jsstr irun" where
  "formatProperty rec ob recurseTimes key array =
     (case (case own_desc ob key of Some d \<Rightarrow> d | None \<Rightarrow> (True, DataDesc (o_other ob key))) of
        (enumerable, desc) \<Rightarrow>
          (case desc of
             DataDesc v \<Rightarrow>
               if v \<noteq> IUndef then
                 ask (\<lambda>ctx0.
                   let diff = (if array \<noteq> 0 \<or> \<not> i_compact ctx0 then 2 else 3)
                   in bnd (modify (indent_by diff)) (\<lambda>_.
                      bnd (rec v recurseTimes) (\<lambda>str.
                      ask (\<lambda>ctx.
                      bnd (modify (outdent_by diff)) (\<lambda>_.
                      property_text key enumerable array (value_gap diff str ctx) str)))))
               else ask (\<lambda>ctx. property_text key enumerable array [32] (accessor_text False False ctx))
           | AccessorDesc getter setter \<Rightarrow>
               ask (\<lambda>ctx. property_text key enumerable array [32] (accessor_text getter setter ctx))))"

section \<open>The formatters\<close>

definition plural :: "int \<Rightarrow> jsstr" where
  "plural n = (if n > 1 then js ''s'' else [])"

definition more_items :: "int \<Rightarrow> jsstr" where
  "more_items remaining = js ''... '' @ int_to_js remaining @ js '' more item'' @ plural remaining"

definition empty_items :: "int \<Rightarrow> jsstr" where
  "empty_items n = js ''<'' @ int_to_js n @ js '' empty item'' @ plural n @ js ''>''"

definition formatObject :: "irec \<Rightarrow> iobj \<Rightarrow> int option \<Rightarrow> jsstr list \<Rightarrow> jsstr list irun" where
  "formatObject rec ob recurseTimes keys =
     for_each (\<lambda>key. formatProperty rec ob recurseTimes (NameKey key) 0) keys"

text \<open>\<^verbatim>\<open>Math.min(Math.max(0, ctx.maxArrayLength), len)\<close>.\<close>

definition shown_items :: "ictx \<Rightarrow> nat \<Rightarrow> nat" where
  "shown_items ctx len = (case i_maxArrayLength ctx of Some m \<Rightarrow> min (nat (max 0 m)) len | None \<Rightarrow> len)"

text \<open>
  The loop of \<^verbatim>\<open>formatSpecialArray\<close> over the keys that are indices; the result is the output, the
  index \<^verbatim>\<open>i\<close> behind the last item and \<^verbatim>\<open>visibleLength\<close>.
\<close>

fun index_loop ::
  "irec \<Rightarrow> ienv \<Rightarrow> iobj \<Rightarrow> int option \<Rightarrow> nat \<Rightarrow> jsstr list \<Rightarrow> int \<Rightarrow> nat \<Rightarrow> jsstr list \<Rightarrow>
     (jsstr list \<times> int \<times> nat) irun"
  where
  "index_loop rec env ob rt maxLength [] i visibleLength output = ret (output, i, visibleLength)"
| "index_loop rec env ob rt maxLength (key # keys) i visibleLength output =
     (if visibleLength = maxLength then ret (output, i, visibleLength)
      else
        (case to_number env key of
           None \<Rightarrow> ret (output, i, visibleLength)
         | Some index \<Rightarrow>
             if index > 4294967294 \<or> (i \<noteq> index \<and> \<not> number_like key) then ret (output, i, visibleLength)
             else
               ask (\<lambda>ctx.
                 let skipped = i \<noteq> index;
                     output1 = (if skipped then output @ [stylize ctx (empty_items (index - i)) ''undefined''] else output);
                     visible1 = (if skipped then visibleLength + 1 else visibleLength)
                 in if skipped \<and> visible1 = maxLength then ret (output1, index, visible1)
                    else bnd (formatProperty rec ob rt (NameKey key) 1)
                           (\<lambda>str. index_loop rec env ob rt maxLength keys (index + 1) (visible1 + 1) (output1 @ [str])))))"

text \<open>What follows the items: the hidden length, or the keys that are not indices.\<close>

definition extra_keys ::
  "irec \<Rightarrow> ienv \<Rightarrow> iobj \<Rightarrow> int option \<Rightarrow> jsstr list \<Rightarrow> nat \<Rightarrow> jsstr list \<Rightarrow> jsstr list irun"
  where
  "extra_keys rec env ob rt keys valLen output =
     ask (\<lambda>ctx.
       let keyLen = length keys;
           final = (if keyLen = 0 then None else Some (keys ! (keyLen - 1)));
           property = (\<lambda>key. formatProperty rec ob rt (NameKey key) 2)
       in if i_showHidden ctx \<and> final = Some (js ''length'') then
            bnd (property (js ''length'')) (\<lambda>str. ret (output @ [str]))
          else if valLen = 0 \<or> (keyLen > valLen \<and> keys ! (valLen - 1) = nat_to_js (valLen - 1)) then
            bnd (for_each property (drop valLen keys)) (\<lambda>strs. ret (output @ strs))
          else if final \<noteq> Some (nat_to_js (valLen - 1)) then
            bnd (for_each property
                   (takeWhile (\<lambda>key. \<not> (number_like key \<and>
                      (case to_number env key of Some n \<Rightarrow> n < 4294967295 | None \<Rightarrow> False))) (rev keys)))
              (\<lambda>extra. ret (output @ rev extra))
          else ret output)"

definition formatSpecialArray ::
  "irec \<Rightarrow> ienv \<Rightarrow> iobj \<Rightarrow> int option \<Rightarrow> jsstr list \<Rightarrow> nat \<Rightarrow> nat \<Rightarrow> jsstr list irun"
  where
  "formatSpecialArray rec env ob rt keys maxLength valLen =
     bnd (if keys \<noteq> [] \<and> number_like (keys ! 0) then index_loop rec env ob rt maxLength keys 0 0 [] else ret ([], 0, 0))
       (\<lambda>(output, i, visibleLength).
         ask (\<lambda>ctx.
           let tail = i < int valLen \<and> visibleLength \<noteq> maxLength;
               output1 = (if tail then output @ [stylize ctx (empty_items (int valLen - i)) ''undefined''] else output);
               i1 = (if tail then int valLen else i);
               remaining = int valLen - i1;
               output2 = (if remaining > 0 then output1 @ [more_items remaining] else output1)
           in if tail \<and> keys = [] then ret output1 else extra_keys rec env ob rt keys valLen output2))"

definition formatArray :: "irec \<Rightarrow> ienv \<Rightarrow> iobj \<Rightarrow> int option \<Rightarrow> nat \<Rightarrow> jsstr list \<Rightarrow> jsstr list irun" where
  "formatArray rec env ob rt valLen keys =
     ask (\<lambda>ctx.
       let len = shown_items ctx valLen;
           keyLen = int (length keys) - (if i_showHidden ctx then 1 else 0);
           remaining = int valLen - int len
       in if keyLen \<noteq> int valLen \<or> keyLen < 1 \<or> keys ! (nat keyLen - 1) \<noteq> nat_to_js (valLen - 1) then
            formatSpecialArray rec env ob rt keys len valLen
          else
            bnd (for_each (\<lambda>key. formatProperty rec ob rt (NameKey key) 1) (take len keys))
              (\<lambda>items.
                let output = (if remaining > 0 then items @ [more_items remaining] else items)
                in if i_showHidden ctx then
                     bnd (formatProperty rec ob rt (NameKey (js ''length'')) 2) (\<lambda>str. ret (output @ [str]))
                   else ret output))"

definition hidden_size :: "ictx \<Rightarrow> nat \<Rightarrow> jsstr list" where
  "hidden_size ctx n =
     (if i_showHidden ctx then [js ''[size]: '' @ stylize ctx (nat_to_js n) ''number''] else [])"

text \<open>The end of the formatters that list the items first.\<close>

definition then_properties :: "irec \<Rightarrow> iobj \<Rightarrow> int option \<Rightarrow> jsstr list \<Rightarrow> jsstr list \<Rightarrow> jsstr list irun" where
  "then_properties rec ob rt keys output =
     bnd (for_each (\<lambda>key. formatProperty rec ob rt (NameKey key) 0) keys) (\<lambda>strs. ret (output @ strs))"

definition formatSet :: "irec \<Rightarrow> iobj \<Rightarrow> int option \<Rightarrow> ival list \<Rightarrow> jsstr list \<Rightarrow> jsstr list irun" where
  "formatSet rec ob rt items keys =
     bnd (for_each (\<lambda>v. rec v rt) items)
       (\<lambda>strs. ask (\<lambda>ctx. then_properties rec ob rt keys (strs @ hidden_size ctx (length items))))"

definition map_entry :: "irec \<Rightarrow> int option \<Rightarrow> ival \<times> ival \<Rightarrow> jsstr irun" where
  "map_entry rec rt entry =
     bnd (rec (fst entry) rt) (\<lambda>k. bnd (rec (snd entry) rt) (\<lambda>v. ret (k @ js '' => '' @ v)))"

definition formatMap :: "irec \<Rightarrow> iobj \<Rightarrow> int option \<Rightarrow> (ival \<times> ival) list \<Rightarrow> jsstr list \<Rightarrow> jsstr list irun" where
  "formatMap rec ob rt items keys =
     bnd (for_each (map_entry rec rt) items)
       (\<lambda>strs. ask (\<lambda>ctx. then_properties rec ob rt keys (strs @ hidden_size ctx (length items))))"

text \<open>\<^verbatim>\<open>previewEntries\<close> gives the value as a string, in a list.\<close>

definition previewEntries :: "iobj \<Rightarrow> jsstr list" where
  "previewEntries ob = [o_text ob]"

text \<open>\<^verbatim>\<open>Math.max(ctx.maxArrayLength, 0)\<close>, and the entries up to one more than that.\<close>

definition max_entries :: "ictx \<Rightarrow> nat option" where
  "max_entries ctx = map_option (\<lambda>m. nat (max m 0)) (i_maxArrayLength ctx)"

definition some_entries :: "ictx \<Rightarrow> iobj \<Rightarrow> jsstr list" where
  "some_entries ctx ob =
     (case max_entries ctx of Some m \<Rightarrow> take (m + 1) (previewEntries ob) | None \<Rightarrow> previewEntries ob)"

definition too_many :: "ictx \<Rightarrow> jsstr list \<Rightarrow> bool" where
  "too_many ctx entries = (case max_entries ctx of Some m \<Rightarrow> length entries > m | None \<Rightarrow> False)"

definition more_marker :: "bool \<Rightarrow> jsstr list" where
  "more_marker isMore = (if isMore then [js ''... more items''] else [])"

definition formatWeakSet :: "irec \<Rightarrow> iobj \<Rightarrow> int option \<Rightarrow> jsstr list \<Rightarrow> jsstr list irun" where
  "formatWeakSet rec ob rt keys =
     ask (\<lambda>ctx.
       let entries = some_entries ctx ob;
           maxLength = (case max_entries ctx of Some m \<Rightarrow> min m (length entries) | None \<Rightarrow> length entries)
       in bnd (for_each (\<lambda>e. rec (IStr e) rt) (take maxLength entries))
            (\<lambda>output. then_properties rec ob rt keys (sort output @ more_marker (too_many ctx entries))))"

text \<open>\<^verbatim>\<open>entry[i]\<close> of a string.\<close>

definition char_at :: "jsstr \<Rightarrow> nat \<Rightarrow> ival" where
  "char_at s i = (if i < length s then IStr [s ! i] else IUndef)"

definition formatWeakMap :: "irec \<Rightarrow> iobj \<Rightarrow> int option \<Rightarrow> jsstr list \<Rightarrow> jsstr list irun" where
  "formatWeakMap rec ob rt keys =
     ask (\<lambda>ctx.
       let entries = some_entries ctx ob;
           remainder = too_many ctx entries;
           len = length entries - (if remainder then 1 else 0)
       in bnd (for_each (\<lambda>e. map_entry rec rt (char_at e 0, char_at e 1)) (take len entries))
            (\<lambda>output. then_properties rec ob rt keys (sort output @ more_marker remainder)))"

definition kPending :: int where "kPending = 0"
definition kRejected :: int where "kRejected = 2"

definition formatPromise :: "irec \<Rightarrow> int \<Rightarrow> ival \<Rightarrow> int option \<Rightarrow> jsstr list irun" where
  "formatPromise rec state result rt =
     (if state = kPending then ret [js ''<pending>'']
      else bnd (rec result rt) (\<lambda>str. ret [if state = kRejected then js ''<rejected> '' @ str else str]))"

section \<open>One line or several\<close>

text \<open>\<^verbatim>\<open>output[i]\<close> in a template string; out of range it is \<^verbatim>\<open>undefined\<close>.\<close>

definition item_text :: "jsstr list \<Rightarrow> nat \<Rightarrow> jsstr" where
  "item_text output i = (if i < length output then output ! i else js ''undefined'')"

definition base_gap :: "jsstr \<Rightarrow> jsstr" where
  "base_gap base = (if base \<noteq> [] then [32] @ base else [])"

text \<open>The loop that adds up the lengths until they exceed the limit; the result is the length.\<close>

fun total_length :: "ictx \<Rightarrow> jsstr list \<Rightarrow> nat \<Rightarrow> nat" where
  "total_length ctx [] len = len"
| "total_length ctx (s # r) len =
     (if over_limit (int len) (i_breakLength ctx) then len
      else total_length ctx r (len + (shown_length ctx s + 1)))"

definition reduceToSingleString :: "ictx \<Rightarrow> jsstr list \<Rightarrow> jsstr \<Rightarrow> jsstr \<Rightarrow> jsstr \<Rightarrow> jsstr" where
  "reduceToSingleString ctx output base brace0 brace1 =
     (let indentation = spaces (i_indentationLvl ctx) in
      if \<not> i_compact ctx then
        (let before_last = concat (map (\<lambda>s. s @ js '','' @ [10] @ indentation @ js ''  '') (butlast output))
         in (if base \<noteq> [] then base @ [32] else []) @ brace0 @ [10] @ indentation @ js ''  '' @ before_last @
            item_text output (length output - 1) @ [10] @ indentation @ brace1)
      else if \<not> over_limit (int (length output * 2)) (i_breakLength ctx) \<and>
              \<not> over_limit (int (total_length ctx output 0)) (i_breakLength ctx) then
        brace0 @ base_gap base @ [32] @ join output (js '', '') @ [32] @ brace1
      else
        (let ln = (if base = [] \<and> length brace0 = 1 then [32]
                   else base_gap base @ [10] @ indentation @ js ''  '')
         in brace0 @ ln @ join output (js '','' @ [10] @ indentation @ js ''  '') @ [32] @ brace1))"

section \<open>The shape of a value\<close>

datatype formatter =
    FObject
  | FArray nat
  | FSet "ival list"
  | FMap "(ival \<times> ival) list"
  | FPromise int ival
  | FWeakSet
  | FWeakMap

text \<open>
  What the chain of type tests of \<^verbatim>\<open>formatValue\<close> decides: the whole text, or the base, the opening
  and the closing brace, the formatter, the keys and an item before the others.
\<close>

datatype shape =
    Whole jsstr
  | Parts jsstr jsstr jsstr formatter "jsstr list" "jsstr option"

definition find_text :: "jsstr \<Rightarrow> jsstr \<Rightarrow> nat option" where
  "find_text s pat = find (\<lambda>i. take (length pat) (drop i s) = pat) [0..<Suc (length s)]"

definition formatError :: "jsstr \<Rightarrow> jsstr \<Rightarrow> jsstr" where
  "formatError stack text1 = (if stack \<noteq> [] then stack else text1)"

text \<open>\<^verbatim>\<open>s.replace(/\n/g, '\n' + indentation)\<close>.\<close>

definition indent_lines :: "jsstr \<Rightarrow> jsstr \<Rightarrow> jsstr" where
  "indent_lines indentation s = concat (map (\<lambda>c. if c = 10 then [10] @ indentation else [c]) s)"

definition error_shape :: "ictx \<Rightarrow> jsstr \<Rightarrow> jsstr \<Rightarrow> nat \<Rightarrow> jsstr list \<Rightarrow> shape" where
  "error_shape ctx stack text1 keyLength keys =
     (let error = formatError stack text1;
          stackStart = find_text error ([10] @ js ''    at'');
          base0 = (if stackStart = None then js ''['' @ error @ js '']'' else error);
          base = (if i_indentationLvl ctx \<noteq> 0 then indent_lines (spaces (i_indentationLvl ctx)) error else base0)
      in if keyLength = 0 then Whole base
         else
           (case stackStart of
              Some start \<Rightarrow>
                if \<not> i_compact ctx then
                  Parts (js ''['' @ take start base @ js '']'') (js ''{'' @ drop start base) (js ''}'') FObject keys None
                else Parts base (js ''{'') (js ''}'') FObject keys None
            | None \<Rightarrow> Parts base (js ''{'') (js ''}'') FObject keys None))"

text \<open>The boxed primitives, and objects that no test knows.\<close>

definition boxed_shape ::
  "ictx \<Rightarrow> jsstr \<Rightarrow> jsstr \<Rightarrow> ival option \<Rightarrow> nat \<Rightarrow> jsstr list \<Rightarrow> shape"
  where
  "boxed_shape ctx constructor tag raw keyLength keys =
     (let boxed = (\<lambda>name fm style.
            let text1 = js ''['' @ name @ js '': '' @ fm @ js '']''
            in if keyLength = 0 then Whole (stylize ctx text1 style)
               else Parts text1 (js ''{'') (js ''}'') FObject keys None);
          other = (if keyLength = 0 then Whole (getPrefix constructor tag @ js ''{}'')
                   else Parts [] (getPrefix constructor tag @ js ''{'') (js ''}'') FObject keys None)
      in case raw of
           Some (INum n) \<Rightarrow> boxed (js ''Number'') (formatNumber stylizeNoColor (INum n)) ''number''
         | Some INegZero \<Rightarrow> boxed (js ''Number'') (formatNumber stylizeNoColor INegZero) ''number''
         | Some (IBool b) \<Rightarrow> boxed (js ''Boolean'') (js (if b then ''true'' else ''false'')) ''boolean''
         | Some (IBigInt i) \<Rightarrow> boxed (js ''BigInt'') (int_to_js i @ js ''n'') ''bigint''
         | Some (ISym s) \<Rightarrow> Whole (stylize ctx (js ''[Symbol: '' @ s @ js '']'') ''symbol'')
         | _ \<Rightarrow> other)"

text \<open>
  \<^verbatim>\<open>keyLength\<close> counts the keys and the symbols that are shown; \<open>recurseTimes\<close> is needed for regular
  expressions only.  \<^verbatim>\<open>toISOString\<close> of an invalid date throws a RangeError, which is the error
  \<open>ERR_OUT_OF_RANGE\<close> here.
\<close>

definition class_shape ::
  "ictx \<Rightarrow> iobj \<Rightarrow> int option \<Rightarrow> jsstr list \<Rightarrow> nat \<Rightarrow> jsstr \<Rightarrow> jsstr \<Rightarrow> jserr + shape"
  where
  "class_shape ctx ob recurseTimes keys keyLength constructor tag =
     (let prefix = getPrefix constructor tag;
          plain = (\<lambda>brace0. Inr (Parts [] brace0 (js ''}'') FObject keys None))
      in
         (case o_class ob of
            CPromise state result \<Rightarrow>
              Inr (Parts [] (prefix @ js ''{'') (js ''}'') (FPromise state result) keys None)
          | _ \<Rightarrow>
              if constructor = js ''Object'' then
                (if tag \<noteq> [] then
                   (if keyLength = 0 then Inr (Whole (prefix @ js ''{}'')) else plain (prefix @ js ''{''))
                 else if keyLength = 0 then Inr (Whole (js ''{}''))
                 else plain (js ''{''))
              else
                (case o_class ob of
                   CFunction name \<Rightarrow>
                     (let shown = (if constructor \<noteq> [] then constructor else tag) @
                            (if name \<noteq> [] then js '': '' @ name else [])
                      in if keyLength = 0 then Inr (Whole (stylize ctx (js ''['' @ shown @ js '']'') ''special''))
                         else Inr (Parts (js ''['' @ shown @ js '']'') (js ''{'') (js ''}'') FObject keys None))
                 | CRegExp source \<Rightarrow>
                     if keyLength = 0 \<or> (case recurseTimes of Some n \<Rightarrow> n < 0 | None \<Rightarrow> False)
                     then Inr (Whole (stylize ctx source ''regexp''))
                     else Inr (Parts source (js ''{'') (js ''}'') FObject keys None)
                 | CDate isoText text1 \<Rightarrow>
                     (case isoText of
                        None \<Rightarrow>
                          if keyLength = 0 then Inr (Whole (stylize ctx text1 ''date''))
                          else Inl (ERR_OUT_OF_RANGE (js ''Invalid time value''))
                      | Some t \<Rightarrow>
                          if keyLength = 0 then Inr (Whole (stylize ctx t ''date''))
                          else Inr (Parts t (js ''{'') (js ''}'') FObject keys None))
                 | CError stack text1 \<Rightarrow> Inr (error_shape ctx stack text1 keyLength keys)
                 | CDataView \<Rightarrow>
                     Inr (Parts [] (prefix @ js ''{'') (js ''}'') FObject
                       (map js [''byteLength'', ''byteOffset'', ''buffer''] @ keys) None)
                 | CWeakSet \<Rightarrow>
                     if i_showHidden ctx then Inr (Parts [] (prefix @ js ''{'') (js ''}'') FWeakSet keys None)
                     else Inr (Parts [] (prefix @ js ''{'') (js ''}'') FObject keys (Some (js ''<items unknown>'')))
                 | CWeakMap \<Rightarrow>
                     if i_showHidden ctx then Inr (Parts [] (prefix @ js ''{'') (js ''}'') FWeakMap keys None)
                     else Inr (Parts [] (prefix @ js ''{'') (js ''}'') FObject keys (Some (js ''<items unknown>'')))
                 | _ \<Rightarrow> Inr (boxed_shape ctx constructor tag (o_valueOf ob) keyLength keys))))"

text \<open>Arrays, sets, maps and boxed strings, before the others.\<close>

definition value_shape ::
  "ictx \<Rightarrow> iobj \<Rightarrow> int option \<Rightarrow> jsstr list \<Rightarrow> nat \<Rightarrow> jsstr \<Rightarrow> jsstr \<Rightarrow> jserr + shape"
  where
  "value_shape ctx ob recurseTimes keys keyLength constructor tag =
     (let prefix = getPrefix constructor tag;
          no_iterator = class_shape ctx ob recurseTimes keys keyLength constructor tag
      in case o_class ob of
           CArray len \<Rightarrow>
             (let brace0 = (if prefix = js ''Array '' then [] else prefix) @ js ''[''
              in if len = 0 \<and> keyLength = 0 then Inr (Whole (brace0 @ js '']''))
                 else Inr (Parts [] brace0 (js '']'') (FArray len) keys None))
         | CSet items \<Rightarrow>
             if items = [] \<and> keyLength = 0 then Inr (Whole (prefix @ js ''{}''))
             else Inr (Parts [] (prefix @ js ''{'') (js ''}'') (FSet items) keys None)
         | CMap items \<Rightarrow>
             if items = [] \<and> keyLength = 0 then Inr (Whole (prefix @ js ''{}''))
             else Inr (Parts [] (prefix @ js ''{'') (js ''}'') (FMap items) keys None)
         | _ \<Rightarrow>
             if o_iterator ob then
               (case o_valueOf ob of
                  Some (IStr raw) \<Rightarrow>
                    (case formatPrimitive stylizeNoColor (IStr raw) ctx of
                       Inl e \<Rightarrow> Inl e
                     | Inr formatted \<Rightarrow>
                         let text1 = js ''[String: '' @ formatted @ js '']''
                         in if keyLength = length raw then Inr (Whole (stylize ctx text1 ''string''))
                            else Inr (Parts text1 (js ''{'') (js ''}'') FObject (drop (length raw) keys) None))
                | _ \<Rightarrow> no_iterator)
             else no_iterator)"

section \<open>formatValue\<close>

text \<open>
  The keys of the symbols: for an array the engine lists its indices and its length there too,
  which are taken out (the text of an integer below \<^verbatim>\<open>2 ** 31\<close>); \<^verbatim>\<open>symbol | 0\<close> throws for a symbol.
\<close>

definition item_key :: "nat \<Rightarrow> jsstr \<Rightarrow> bool" where
  "item_key len s \<longleftrightarrow> s = js ''length'' \<or> list_ex (\<lambda>i. s = nat_to_js i) [0..<min len 2147483648]"

fun array_symbols :: "nat \<Rightarrow> (ikey \<times> bool \<times> idesc) list \<Rightarrow> jserr + (ikey \<times> bool \<times> idesc) list" where
  "array_symbols len [] = Inr []"
| "array_symbols len ((SymKey s, d) # r) = Inl TypeError"
| "array_symbols len ((NameKey s, d) # r) =
     ebind (array_symbols len r) (\<lambda>rs. Inr (if item_key len s then rs else (NameKey s, d) # rs))"

definition shown_symbols :: "ictx \<Rightarrow> iobj \<Rightarrow> jserr + ikey list" where
  "shown_symbols ctx ob =
     ebind (case o_class ob of CArray len \<Rightarrow> array_symbols len (o_syms ob) | _ \<Rightarrow> Inr (o_syms ob))
       (\<lambda>symbols. Inr (map fst (if i_showHidden ctx then symbols
                                else filter (\<lambda>(key, enumerable, d). enumerable) symbols)))"

definition shown_keys :: "ictx \<Rightarrow> iobj \<Rightarrow> jsstr list" where
  "shown_keys ctx ob =
     map fst (if i_showHidden ctx then o_props ob else filter (\<lambda>(key, enumerable, d). enumerable) (o_props ob))"

definition run_formatter ::
  "irec \<Rightarrow> ienv \<Rightarrow> iobj \<Rightarrow> int option \<Rightarrow> formatter \<Rightarrow> jsstr list \<Rightarrow> jsstr list irun"
  where
  "run_formatter rec env ob rt fm keys =
     (case fm of
        FObject \<Rightarrow> formatObject rec ob rt keys
      | FArray len \<Rightarrow> formatArray rec env ob rt len keys
      | FSet items \<Rightarrow> formatSet rec ob rt items keys
      | FMap items \<Rightarrow> formatMap rec ob rt items keys
      | FPromise state result \<Rightarrow> formatPromise rec state result rt
      | FWeakSet \<Rightarrow> formatWeakSet rec ob rt keys
      | FWeakMap \<Rightarrow> formatWeakMap rec ob rt keys)"

definition or_name :: "jsstr \<Rightarrow> jsstr \<Rightarrow> jsstr" where
  "or_name constructor tag =
     (if constructor \<noteq> [] then constructor else if tag \<noteq> [] then tag else js ''Object'')"

text \<open>The end of \<^verbatim>\<open>formatValue\<close>, for the object at address \<open>a\<close>.\<close>

definition format_parts ::
  "irec \<Rightarrow> ienv \<Rightarrow> nat \<Rightarrow> int option \<Rightarrow> ikey list \<Rightarrow> jsstr \<Rightarrow> jsstr \<Rightarrow>
     jsstr \<Rightarrow> jsstr \<Rightarrow> jsstr \<Rightarrow> formatter \<Rightarrow> jsstr list \<Rightarrow> jsstr option \<Rightarrow> jsstr irun"
  where
  "format_parts rec env a recurseTimes symbols constructor tag base brace0 brace1 fm keys extra =
     (if (case recurseTimes of Some n \<Rightarrow> n < 0 | None \<Rightarrow> False) then
        ask (\<lambda>ctx. ret (stylize ctx (js ''['' @ or_name constructor tag @ js '']'') ''special''))
      else
        (let ob = n_heap env a; rt = map_option (\<lambda>n. n - 1) recurseTimes in
         bnd (modify (\<lambda>ctx. ctx\<lparr>i_seen := i_seen ctx @ [a]\<rparr>)) (\<lambda>_.
         bnd (run_formatter rec env ob rt fm keys) (\<lambda>output0.
         bnd (for_each (\<lambda>key. formatProperty rec ob rt key 0) symbols) (\<lambda>strs.
         bnd (modify (\<lambda>ctx. ctx\<lparr>i_seen := butlast (i_seen ctx)\<rparr>)) (\<lambda>_.
         ask (\<lambda>ctx.
           ret (reduceToSingleString ctx ((case extra of Some e \<Rightarrow> [e] | None \<Rightarrow> []) @ output0 @ strs)
             base brace0 brace1))))))))"

definition format_object :: "irec \<Rightarrow> ienv \<Rightarrow> nat \<Rightarrow> int option \<Rightarrow> jsstr irun" where
  "format_object rec env a recurseTimes =
     ask (\<lambda>ctx.
       let ob = n_heap env a in
       if a \<in> set (i_seen ctx) then ret (stylize ctx (js ''[Circular]'') ''special'')
       else
         bnd (lift (shown_symbols ctx ob)) (\<lambda>symbols.
           let keys = shown_keys ctx ob;
               constructor = getConstructorName (o_chain ob);
               tag = (case o_tag ob of IStr s \<Rightarrow> s | _ \<Rightarrow> [])
           in bnd (lift (value_shape ctx ob recurseTimes keys (length keys + length symbols) constructor tag))
                (\<lambda>sh. case sh of
                   Whole s \<Rightarrow> ret s
                 | Parts base brace0 brace1 fm keys1 extra \<Rightarrow>
                     format_parts rec env a recurseTimes symbols constructor tag base brace0 brace1 fm keys1 extra)))"

text \<open>The hook of the user: a string is the text, the object itself means none, another value is shown.\<close>

definition format_step :: "ienv \<Rightarrow> irec \<Rightarrow> irec" where
  "format_step env rec v recurseTimes =
     (case v of
        IObj a \<Rightarrow>
          ask (\<lambda>ctx.
            let ob = n_heap env a in
            case o_custom ob of
              Some hook \<Rightarrow>
                if i_customInspect ctx \<and> \<not> o_isPrototype ob then
                  bnd (lift (hook recurseTimes ctx)) (\<lambda>r.
                    if r \<noteq> v then (case r of IStr s \<Rightarrow> ret s | _ \<Rightarrow> rec r recurseTimes)
                    else format_object rec env a recurseTimes)
                else format_object rec env a recurseTimes
            | None \<Rightarrow> format_object rec env a recurseTimes)
      | INull \<Rightarrow> ask (\<lambda>ctx. ret (stylize ctx (js ''null'') ''null''))
      | _ \<Rightarrow> ask (\<lambda>ctx. lift (formatPrimitive (stylize ctx) v ctx)))"

fun formatValue :: "ienv \<Rightarrow> nat \<Rightarrow> irec" where
  "formatValue env 0 = (\<lambda>v rt ctx. None)"
| "formatValue env (Suc n) = format_step env (formatValue env n)"

section \<open>inspect\<close>

text \<open>The options a caller may give; \<open>None\<close> is an option that is not given.\<close>

record iopts =
  p_showHidden :: "bool option"
  p_depth :: "int option option"
  p_colors :: "bool option"
  p_customInspect :: "bool option"
  p_maxArrayLength :: "int option option"
  p_breakLength :: "int option option"
  p_compact :: "bool option"

definition no_options :: iopts where
  "no_options = \<lparr>p_showHidden = None, p_depth = None, p_colors = None, p_customInspect = None,
     p_maxArrayLength = None, p_breakLength = None, p_compact = None\<rparr>"

definition option_or :: "'a \<Rightarrow> 'a option \<Rightarrow> 'a" where
  "option_or usual opt = (case opt of Some x \<Rightarrow> x | None \<Rightarrow> usual)"

definition inspect_ctx :: "iopts \<Rightarrow> ictx" where
  "inspect_ctx opts =
     \<lparr>i_seen = [], i_indentationLvl = 0, i_showHidden = option_or False (p_showHidden opts),
      i_colors = option_or False (p_colors opts), i_customInspect = option_or True (p_customInspect opts),
      i_maxArrayLength = option_or (Some 100) (p_maxArrayLength opts),
      i_breakLength = option_or (Some 60) (p_breakLength opts), i_compact = option_or True (p_compact opts)\<rparr>"

definition inspect :: "ienv \<Rightarrow> nat \<Rightarrow> iopts \<Rightarrow> ival \<Rightarrow> (jserr + jsstr) option" where
  "inspect env fuel opts v = map_option fst (formatValue env fuel v (option_or (Some 2) (p_depth opts)) (inspect_ctx opts))"

end
