(* ===== verification/Inspect_Props.thy ===== *)
theory Inspect_Props
  imports Inspect
begin

text \<open>
  \<^verbatim>\<open>inspect\<close> ends on every finite heap, also on one with cycles and without a limit of the depth, and
  every call leaves \<^verbatim>\<open>ctx\<close> as it found it.  Both are shown at once: with enough fuel two runs
  agree, which also says that the fuel does not matter.
\<close>

section \<open>Runs that agree\<close>

text \<open>
  Both calls end with the same result in the same context, which is \<open>c1\<close> when nothing is thrown.
\<close>

definition agree :: "'a irun \<Rightarrow> 'a irun \<Rightarrow> ictx \<Rightarrow> ictx \<Rightarrow> bool" where
  "agree m m' c c1 \<longleftrightarrow> (\<exists>r c2. m c = Some (r, c2) \<and> m' c = Some (r, c2) \<and> (isl r \<or> c2 = c1))"

named_theorems agree_intros "rules for runs that agree"

lemma agree_ret [agree_intros]: "agree (ret x) (ret x) c c"
  by (simp add: agree_def ret_def)

lemma agree_lift [agree_intros]: "agree (lift r) (lift r) c c"
  by (simp add: agree_def lift_def)

lemma agree_modify [agree_intros]: "agree (modify g) (modify g) c (g c)"
  by (simp add: agree_def modify_def)

lemma agree_ask [agree_intros]: "agree (f c) (f' c) c c1 \<Longrightarrow> agree (ask f) (ask f') c c1"
  by (simp add: agree_def ask_def)

lemma agree_bnd:
  assumes "agree m m' c c1" "\<And>x. agree (f x) (f' x) c1 c2"
  shows "agree (bnd m f) (bnd m' f') c c2"
proof -
  obtain r d where r: "m c = Some (r, d)" "m' c = Some (r, d)" "isl r \<or> d = c1"
    using assms(1) by (auto simp: agree_def)
  show ?thesis
  proof (cases r)
    case (Inl e)
    then show ?thesis using r by (simp add: agree_def bnd_def)
  next
    case (Inr x)
    then show ?thesis using r assms(2)[of x] by (auto simp: agree_def bnd_def)
  qed
qed

lemma agree_then [agree_intros]:
  "agree m m' c c \<Longrightarrow> (\<And>x. agree (f x) (f' x) c c2) \<Longrightarrow> agree (bnd m f) (bnd m' f') c c2"
  by (rule agree_bnd)

lemma agree_if [agree_intros]:
  "(b \<Longrightarrow> agree m m' c c1) \<Longrightarrow> (\<not> b \<Longrightarrow> agree n n' c c1) \<Longrightarrow>
   agree (if b then m else n) (if b then m' else n') c c1"
  by simp

lemma agree_for_each [agree_intros]:
  "(\<And>x. x \<in> set xs \<Longrightarrow> agree (f x) (f' x) c c) \<Longrightarrow> agree (for_each f xs) (for_each f' xs) c c"
  by (induction xs) (auto intro!: agree_intros)

section \<open>The values an object holds\<close>

definition holds :: "iobj \<Rightarrow> ival set" where
  "holds ob =
     {v. \<exists>k e. (k, e, DataDesc v) \<in> set (o_props ob)} \<union> {v. \<exists>k e. (k, e, DataDesc v) \<in> set (o_syms ob)} \<union>
     range (o_other ob) \<union>
     (case o_class ob of
        CSet items \<Rightarrow> set items
      | CMap items \<Rightarrow> fst ` set items \<union> snd ` set items
      | CPromise state v \<Rightarrow> {v}
      | _ \<Rightarrow> {})"

definition inside :: "nat set \<Rightarrow> ival \<Rightarrow> bool" where
  "inside A v \<longleftrightarrow> (case v of IObj a \<Rightarrow> a \<in> A | _ \<Rightarrow> True)"

text \<open>The objects of \<open>A\<close> hold only objects of \<open>A\<close>.\<close>

definition closed_heap :: "ienv \<Rightarrow> nat set \<Rightarrow> bool" where
  "closed_heap env A \<longleftrightarrow> (\<forall>a \<in> A. \<forall>v \<in> holds (n_heap env a). inside A v)"

text \<open>The hooks of the objects give no other object to be shown instead.\<close>

definition hooks_settle :: "ienv \<Rightarrow> nat set \<Rightarrow> bool" where
  "hooks_settle env A \<longleftrightarrow>
     (\<forall>a \<in> A. \<forall>hook rt ctx b. o_custom (n_heap env a) = Some hook \<and> hook rt ctx = Inr (IObj b) \<longrightarrow> b = a)"

text \<open>The two ways to call \<^verbatim>\<open>formatValue\<close> again agree, for values inside \<open>A\<close> and objects seen \<open>S\<close>.\<close>

definition calls_agree :: "nat set \<Rightarrow> nat list \<Rightarrow> irec \<Rightarrow> irec \<Rightarrow> bool" where
  "calls_agree A S rec rec' \<longleftrightarrow>
     (\<forall>v rt c. inside A v \<and> i_seen c = S \<longrightarrow> agree (rec v rt) (rec' v rt) c c)"

lemma calls_agreeD [agree_intros]:
  "calls_agree A S rec rec' \<Longrightarrow> inside A v \<Longrightarrow> i_seen c = S \<Longrightarrow> agree (rec v rt) (rec' v rt) c c"
  by (simp add: calls_agree_def)

lemma desc_holds:
  assumes "(case own_desc ob key of Some d \<Rightarrow> d | None \<Rightarrow> (True, DataDesc (o_other ob key))) = (e, DataDesc v)"
  shows "v \<in> holds ob"
  using assms
  by (auto simp: own_desc_def holds_def split: ikey.splits option.splits dest!: map_of_SomeD)

lemma outdent_indent [simp]: "outdent_by d (indent_by d c) = c"
  by (simp add: outdent_by_def indent_by_def)

lemma seen_indent [simp]: "i_seen (indent_by d c) = i_seen c"
  by (simp add: indent_by_def)

lemma agree_property_text [agree_intros]:
  "agree (property_text key e n extra str) (property_text key e n extra str) c c"
  unfolding property_text_def by (intro agree_intros)

lemma agree_property [agree_intros]:
  assumes "calls_agree A S rec rec'" "\<forall>v \<in> holds ob. inside A v" "i_seen c = S"
  shows "agree (formatProperty rec ob rt key n) (formatProperty rec' ob rt key n) c c"
proof -
  obtain e desc where d: "(case own_desc ob key of Some d \<Rightarrow> d | None \<Rightarrow> (True, DataDesc (o_other ob key))) = (e, desc)"
    by (cases "case own_desc ob key of Some d \<Rightarrow> d | None \<Rightarrow> (True, DataDesc (o_other ob key))")
  have body: "agree
      (bnd (modify (indent_by k)) (\<lambda>_. bnd (rec v rt) (\<lambda>str. ask (\<lambda>ctx.
         bnd (modify (outdent_by k)) (\<lambda>_. property_text key e n (value_gap k str ctx) str)))))
      (bnd (modify (indent_by k)) (\<lambda>_. bnd (rec' v rt) (\<lambda>str. ask (\<lambda>ctx.
         bnd (modify (outdent_by k)) (\<lambda>_. property_text key e n (value_gap k str ctx) str)))))
      c (outdent_by k (indent_by k c))" if "inside A v" for v k
    by (rule agree_bnd[OF agree_modify] agree_then agree_ask agree_property_text
          calls_agreeD[OF assms(1) that] | simp add: assms(3))+
  show ?thesis
  proof (cases desc)
    case (DataDesc v)
    have "inside A v" using desc_holds d DataDesc assms(2) by blast
    note step = body[OF this, unfolded outdent_indent]
    show ?thesis
      unfolding formatProperty_def d prod.case DataDesc idesc.case Let_def
      by (intro agree_if agree_ask step agree_property_text)
  next
    case AccessorDesc
    show ?thesis
      unfolding formatProperty_def d prod.case AccessorDesc idesc.case
      by (intro agree_ask agree_property_text)
  qed
qed

section \<open>The formatters\<close>

lemma agree_index_loop [agree_intros]:
  assumes "calls_agree A S rec rec'" "\<forall>v \<in> holds ob. inside A v" "i_seen c = S"
  shows "agree (index_loop rec env ob rt maxLength keys i vis shown)
    (index_loop rec' env ob rt maxLength keys i vis shown) c c"
proof (induction keys arbitrary: i vis shown)
  case Nil
  show ?case by (simp add: agree_ret)
next
  case (Cons key keys)
  show ?case
    by (cases "to_number env key")
      (auto simp: Let_def intro!: agree_if agree_ret agree_ask agree_then agree_property[OF assms] Cons)
qed

lemma agree_extra_keys [agree_intros]:
  assumes "calls_agree A S rec rec'" "\<forall>v \<in> holds ob. inside A v" "i_seen c = S"
  shows "agree (extra_keys rec env ob rt keys valLen output) (extra_keys rec' env ob rt keys valLen output) c c"
  unfolding extra_keys_def Let_def
  by (intro agree_ask agree_if agree_then agree_ret agree_for_each agree_property[OF assms])

lemma agree_special_array [agree_intros]:
  assumes "calls_agree A S rec rec'" "\<forall>v \<in> holds ob. inside A v" "i_seen c = S"
  shows "agree (formatSpecialArray rec env ob rt keys maxLength valLen)
    (formatSpecialArray rec' env ob rt keys maxLength valLen) c c"
  unfolding formatSpecialArray_def Let_def
proof (rule agree_then)
  show "agree (if keys \<noteq> [] \<and> number_like (keys ! 0) then index_loop rec env ob rt maxLength keys 0 0 []
      else ret ([], 0, 0))
    (if keys \<noteq> [] \<and> number_like (keys ! 0) then index_loop rec' env ob rt maxLength keys 0 0 []
      else ret ([], 0, 0)) c c"
    by (intro agree_if agree_index_loop[OF assms] agree_ret)
qed (auto split: prod.split intro!: agree_ask agree_ret agree_extra_keys[OF assms])

lemma agree_array [agree_intros]:
  assumes "calls_agree A S rec rec'" "\<forall>v \<in> holds ob. inside A v" "i_seen c = S"
  shows "agree (formatArray rec env ob rt valLen keys) (formatArray rec' env ob rt valLen keys) c c"
  unfolding formatArray_def Let_def
  by (intro agree_ask agree_if agree_special_array[OF assms] agree_then agree_ret agree_for_each agree_property[OF assms])

lemma agree_then_properties [agree_intros]:
  assumes "calls_agree A S rec rec'" "\<forall>v \<in> holds ob. inside A v" "i_seen c = S"
  shows "agree (then_properties rec ob rt keys output) (then_properties rec' ob rt keys output) c c"
  unfolding then_properties_def by (intro agree_then agree_ret agree_for_each agree_property[OF assms])

lemma agree_map_entry:
  assumes "calls_agree A S rec rec'" "inside A (fst entry)" "inside A (snd entry)" "i_seen c = S"
  shows "agree (map_entry rec rt entry) (map_entry rec' rt entry) c c"
  unfolding map_entry_def by (intro agree_then agree_ret calls_agreeD[OF assms(1)] assms)

lemma inside_char [simp]: "inside A (char_at s i)" "inside A (IStr s)"
  by (simp_all add: inside_def char_at_def)

lemma agree_formatter:
  assumes calls: "calls_agree A S rec rec'" "\<forall>v \<in> holds ob. inside A v" "i_seen c = S"
    and fm: "case fm of FSet items \<Rightarrow> \<forall>v \<in> set items. inside A v
        | FMap items \<Rightarrow> \<forall>(k, v) \<in> set items. inside A k \<and> inside A v
        | FPromise state v \<Rightarrow> inside A v | _ \<Rightarrow> True"
  shows "agree (run_formatter rec env ob rt fm keys) (run_formatter rec' env ob rt fm keys) c c"
proof (cases fm)
  case FObject
  show ?thesis unfolding run_formatter_def FObject formatter.case formatObject_def
    by (intro agree_for_each agree_property[OF calls])
next
  case (FArray n)
  show ?thesis unfolding run_formatter_def FArray formatter.case by (rule agree_array[OF calls])
next
  case (FSet items)
  show ?thesis unfolding run_formatter_def FSet formatter.case formatSet_def
    by (intro agree_then agree_ask agree_for_each agree_then_properties[OF calls] calls_agreeD[OF calls(1)] calls(3))
      (use fm FSet in auto)
next
  case (FMap items)
  show ?thesis unfolding run_formatter_def FMap formatter.case formatMap_def
    by (intro agree_then agree_ask agree_for_each agree_then_properties[OF calls] agree_map_entry[OF calls(1)] calls(3))
      (use fm FMap in auto)
next
  case (FPromise state v)
  show ?thesis unfolding run_formatter_def FPromise formatter.case formatPromise_def
    by (intro agree_if agree_ret agree_then calls_agreeD[OF calls(1)] calls(3)) (use fm FPromise in auto)
next
  case FWeakSet
  show ?thesis unfolding run_formatter_def FWeakSet formatter.case formatWeakSet_def Let_def
    by (intro agree_ask agree_then agree_for_each agree_then_properties[OF calls] calls_agreeD[OF calls(1)] calls(3)) simp
next
  case FWeakMap
  show ?thesis unfolding run_formatter_def FWeakMap formatter.case formatWeakMap_def Let_def
    by (intro agree_ask agree_then agree_for_each agree_then_properties[OF calls] agree_map_entry[OF calls(1)] calls(3))
      simp_all
qed

section \<open>formatValue\<close>

definition formatter_inside :: "nat set \<Rightarrow> formatter \<Rightarrow> bool" where
  "formatter_inside A fm \<longleftrightarrow>
     (case fm of FSet items \<Rightarrow> \<forall>v \<in> set items. inside A v
      | FMap items \<Rightarrow> \<forall>(k, v) \<in> set items. inside A k \<and> inside A v
      | FPromise state v \<Rightarrow> inside A v | _ \<Rightarrow> True)"

lemma boxed_formatter: "boxed_shape ctx cn tag raw n keys = Parts b b0 b1 fm ks ex \<Longrightarrow> fm = FObject"
  by (auto simp: boxed_shape_def Let_def split: option.splits ival.splits if_splits)

lemma error_formatter: "error_shape ctx stack t n keys = Parts b b0 b1 fm ks ex \<Longrightarrow> fm = FObject"
  by (auto simp: error_shape_def Let_def split: option.splits if_splits)

lemma class_formatter:
  assumes "class_shape ctx ob rt keys n cn tag = Inr (Parts b b0 b1 fm ks ex)"
  shows "fm \<in> {FObject, FWeakSet, FWeakMap} \<or> (\<exists>state v. o_class ob = CPromise state v \<and> fm = FPromise state v)"
  using assms
  by (auto simp: class_shape_def Let_def simp del: js_Cons dest: boxed_formatter error_formatter
      split: iclass.splits option.splits if_splits)

lemma shape_formatter:
  assumes "value_shape ctx ob rt keys n cn tag = Inr (Parts b b0 b1 fm ks ex)" "\<forall>v \<in> holds ob. inside A v"
  shows "formatter_inside A fm"
proof -
  have rest: "formatter_inside A fm" if "class_shape ctx ob rt keys n cn tag = Inr (Parts b b0 b1 fm ks ex)"
    using class_formatter[OF that] assms(2) by (auto simp: formatter_inside_def holds_def)
  show ?thesis
  proof (cases "o_class ob")
    case (CSet items)
    then show ?thesis using assms
      by (auto simp: value_shape_def Let_def formatter_inside_def holds_def simp del: js_Cons split: if_splits)
  next
    case (CMap items)
    then have "fm = FMap items" using assms(1)
      by (auto simp: value_shape_def Let_def simp del: js_Cons split: if_splits)
    moreover have "fst x \<in> holds ob" "snd x \<in> holds ob" if "x \<in> set items" for x
      using CMap that by (simp_all add: holds_def)
    ultimately show ?thesis using assms(2) by (simp add: formatter_inside_def case_prod_beta)
  next
    case (CArray len)
    then show ?thesis using assms
      by (auto simp: value_shape_def Let_def formatter_inside_def simp del: js_Cons split: if_splits)
  qed (use assms(1) rest in \<open>auto simp: value_shape_def Let_def formatter_inside_def simp del: js_Cons
      split: if_splits option.splits ival.splits sum.splits\<close>)
qed

lemma agree_format_parts:
  assumes "calls_agree A (i_seen c @ [a]) rec rec'" "\<forall>v \<in> holds (n_heap env a). inside A v" "formatter_inside A fm"
  shows "agree (format_parts rec env a rt symbols cn tag b b0 b1 fm keys ex)
    (format_parts rec' env a rt symbols cn tag b b0 b1 fm keys ex) c c"
proof -
  let ?c = "c\<lparr>i_seen := i_seen c @ [a]\<rparr>"
  have seen: "i_seen ?c = i_seen c @ [a]" by simp
  have pop: "(\<lambda>ctx. ctx\<lparr>i_seen := butlast (i_seen ctx)\<rparr>) ?c = c" by simp
  have popped: "agree (modify (\<lambda>ctx. ctx\<lparr>i_seen := butlast (i_seen ctx)\<rparr>))
      (modify (\<lambda>ctx. ctx\<lparr>i_seen := butlast (i_seen ctx)\<rparr>)) ?c c"
    using agree_modify[of "\<lambda>ctx. ctx\<lparr>i_seen := butlast (i_seen ctx)\<rparr>" ?c] unfolding pop .
  have fmt: "agree (run_formatter rec env (n_heap env a) r fm keys)
      (run_formatter rec' env (n_heap env a) r fm keys) ?c ?c" for r
    by (rule agree_formatter[OF assms(1,2) seen]) (use assms(3) in \<open>simp add: formatter_inside_def\<close>)
  have push: "agree (modify (\<lambda>ctx. ctx\<lparr>i_seen := i_seen ctx @ [a]\<rparr>))
      (modify (\<lambda>ctx. ctx\<lparr>i_seen := i_seen ctx @ [a]\<rparr>)) c ?c"
    by (rule agree_modify)
  show ?thesis
    unfolding format_parts_def Let_def
    by (intro agree_if agree_ask agree_ret agree_bnd[OF push] agree_then[OF fmt] agree_bnd[OF popped]
        agree_then agree_for_each agree_property[OF assms(1,2) seen])
qed

lemma agree_lifted:
  "(\<And>x. r = Inr x \<Longrightarrow> agree (f x) (f' x) c c1) \<Longrightarrow> c1 = c \<Longrightarrow> agree (bnd (lift r) f) (bnd (lift r) f') c c1"
  by (cases r) (simp_all add: agree_def bnd_def lift_def)

lemma agree_object:
  assumes "\<forall>v \<in> holds (n_heap env a). inside A v" "a \<notin> set (i_seen c) \<Longrightarrow> calls_agree A (i_seen c @ [a]) rec rec'"
  shows "agree (format_object rec env a rt) (format_object rec' env a rt) c c"
proof (cases "a \<in> set (i_seen c)")
  case True
  then show ?thesis unfolding format_object_def Let_def by (intro agree_ask agree_if agree_ret) simp
next
  case False
  have parts: "agree (case sh of Whole s \<Rightarrow> ret s | Parts b b0 b1 fm ks ex \<Rightarrow> format_parts rec env a rt sy cn tag b b0 b1 fm ks ex)
      (case sh of Whole s \<Rightarrow> ret s | Parts b b0 b1 fm ks ex \<Rightarrow> format_parts rec' env a rt sy cn tag b b0 b1 fm ks ex) c c"
    if "value_shape ctx (n_heap env a) rt keys n cn tag = Inr sh" for sh sy cn tag ctx keys n
    using agree_format_parts[OF assms(2)[OF False] assms(1)] shape_formatter[OF _ assms(1)] that
    by (cases sh) (auto intro: agree_ret)
  show ?thesis
    unfolding format_object_def Let_def by (intro agree_ask agree_if agree_ret agree_lifted parts refl)
qed

lemma agree_primitive:
  "\<forall>a. v \<noteq> IObj a \<Longrightarrow> agree (format_step env rec v rt) (format_step env rec' v rt) c c"
  by (cases v) (auto simp: format_step_def intro!: agree_intros)

text \<open>
  The number of objects not seen yet bounds the depth of the recursion; one call more shows what a
  hook returned.
\<close>

lemma format_agree:
  assumes "finite A" "closed_heap env A" "hooks_settle env A" "inside A v"
    "card (A - set (i_seen c)) + 2 \<le> n" "card (A - set (i_seen c)) + 2 \<le> m"
  shows "agree (formatValue env n v rt) (formatValue env m v rt) c c"
  using assms(4-6)
proof (induction n arbitrary: m v rt c)
  case (Suc n)
  obtain m' where m: "m = Suc m'" using Suc.prems(3) by (cases m) auto
  show ?case
  proof (cases "\<exists>a. v = IObj a")
    case False
    then show ?thesis unfolding m formatValue.simps by (intro agree_primitive) auto
  next
    case True
    then obtain a where v: "v = IObj a" "a \<in> A" using Suc.prems(1) by (auto simp: inside_def)
    have calls: "calls_agree A (i_seen c @ [a]) (formatValue env n) (formatValue env m')" if "a \<notin> set (i_seen c)"
    proof -
      have "A - set (i_seen c) = insert a (A - set (i_seen c @ [a]))" using v(2) that by auto
      then have "card (A - set (i_seen c)) = Suc (card (A - set (i_seen c @ [a])))"
        using assms(1) by (metis Diff_iff card_insert_disjoint finite_Diff in_set_conv_decomp)
      then show ?thesis using Suc.IH Suc.prems(2,3) m by (auto simp: calls_agree_def)
    qed
    have ob: "agree (format_object (formatValue env n) env a rt) (format_object (formatValue env m') env a rt) c c"
      using agree_object[of env a A c] calls assms(2) v(2) by (auto simp: closed_heap_def)
    obtain n1 m1 where n1: "n = Suc n1" "m' = Suc m1" using Suc.prems(2,3) m by (cases n; cases m') auto
    have shown: "agree (case r of IStr s \<Rightarrow> ret s | _ \<Rightarrow> formatValue env n r rt)
        (case r of IStr s \<Rightarrow> ret s | _ \<Rightarrow> formatValue env m' r rt) c c" if "\<forall>b. r \<noteq> IObj b" for r
      using agree_primitive[OF that, of env "formatValue env n1" rt "formatValue env m1" c] that n1
      by (cases r) (auto intro: agree_ret)
    have same: "b = a" if "o_custom (n_heap env a) = Some hook" "hook rt c = Inr (IObj b)" for hook b
      using assms(3) v(2) that unfolding hooks_settle_def by blast
    have hook: "agree
        (bnd (lift (hook rt c)) (\<lambda>r. if r \<noteq> v then (case r of IStr s \<Rightarrow> ret s | _ \<Rightarrow> formatValue env n r rt)
           else format_object (formatValue env n) env a rt))
        (bnd (lift (hook rt c)) (\<lambda>r. if r \<noteq> v then (case r of IStr s \<Rightarrow> ret s | _ \<Rightarrow> formatValue env m' r rt)
           else format_object (formatValue env m') env a rt)) c c"
      if h: "o_custom (n_heap env a) = Some hook" for hook
    proof (rule agree_lifted)
      fix r
      assume "hook rt c = Inr r"
      then have "\<forall>b. r \<noteq> IObj b" if "r \<noteq> v" using same[OF h] v(1) that by blast
      then show "agree (if r \<noteq> v then (case r of IStr s \<Rightarrow> ret s | _ \<Rightarrow> formatValue env n r rt)
           else format_object (formatValue env n) env a rt)
         (if r \<noteq> v then (case r of IStr s \<Rightarrow> ret s | _ \<Rightarrow> formatValue env m' r rt)
           else format_object (formatValue env m') env a rt) c c"
        by (intro agree_if shown ob)
    qed simp
    show ?thesis
      unfolding m formatValue.simps format_step_def v(1) ival.case Let_def
      using hook[unfolded v(1)] ob
      by (cases "o_custom (n_heap env a)") (simp_all only: option.case, (intro agree_ask agree_if; simp)+)
  qed
qed simp

text \<open>
  C39. \<^verbatim>\<open>inspect\<close> always comes to an end and gives one result: for every value whose objects, and all that
  they refer to, are in a finite set, with cycles or without, with any options, also without a limit of the
  depth; two calls more than there are objects are deep enough.  When nothing is thrown, \<^verbatim>\<open>formatValue\<close> leaves
  the context (the objects seen and the indentation) as it was.  The \<^verbatim>\<open>inspect\<close> hooks of the objects may return
  anything but another object, which would be shown in turn.
\<close>

theorem inspect_ends:
  assumes "finite A" "closed_heap env A" "hooks_settle env A" "inside A v"
  shows "(\<exists>r. \<forall>n \<ge> card A + 2. inspect env n opts v = Some r) \<and>
    (\<forall>n \<ge> card A + 2. \<forall>rt c s c1. formatValue env n v rt c = Some (Inr s, c1) \<longrightarrow> c1 = c)"
proof (intro conjI allI impI)
  let ?c = "inspect_ctx opts" and ?rt = "option_or (Some 2) (p_depth opts)"
  have ag: "agree (formatValue env n v rt) (formatValue env m v rt) c c"
    if "card A + 2 \<le> n" "card A + 2 \<le> m" for n m rt c
    using card_mono[of A "A - set (i_seen c)"] assms(1) that by (intro format_agree[OF assms]) auto
  obtain r c1 where r: "formatValue env (card A + 2) v ?rt ?c = Some (r, c1)"
    using ag[of "card A + 2" "card A + 2" ?rt ?c] by (auto simp: agree_def)
  have "inspect env n opts v = Some r" if "card A + 2 \<le> n" for n
    using ag[OF that le_refl, of ?rt ?c] r by (auto simp: agree_def inspect_def)
  then show "\<exists>r. \<forall>n \<ge> card A + 2. inspect env n opts v = Some r" by blast
  show "c1 = c" if "card A + 2 \<le> n" "formatValue env n v rt c = Some (Inr s, c1)" for n rt c s c1
    using ag[OF that(1,1), of rt c] that(2) by (auto simp: agree_def)
qed

text \<open>A plain object, and a heap of two objects that refer to each other.\<close>

definition plain_iobj :: "(jsstr \<times> bool \<times> idesc) list \<Rightarrow> iobj" where
  "plain_iobj props =
     \<lparr>o_class = CPlain, o_props = props, o_syms = [], o_chain = [None, Some (js ''Object'')], o_tag = IUndef,
      o_iterator = False, o_isPrototype = False, o_custom = None, o_valueOf = None,
      o_text = js ''[object Object]'', o_other = (\<lambda>_. IUndef)\<rparr>"

definition two_iobjs :: ienv where
  "two_iobjs =
     \<lparr>n_heap = (\<lambda>a. if a = 0 then plain_iobj [(js ''a b'', True, DataDesc (IObj 1)), (js ''self'', True, DataDesc (IObj 0))]
                    else plain_iobj [(js ''up'', True, DataDesc (IObj 0))]),
      n_toNumber = (\<lambda>_. None)\<rparr>"

theorem inspect_ends_witness:
  "\<exists>r. inspect two_iobjs 4 no_options (IObj 0) = Some r \<and> inspect two_iobjs 50 no_options (IObj 0) = Some r"
proof -
  have "finite {0::nat, 1}" "closed_heap two_iobjs {0, 1}" "hooks_settle two_iobjs {0, 1}" "inside {0, 1} (IObj 0)"
    by (auto simp: closed_heap_def hooks_settle_def inside_def holds_def two_iobjs_def plain_iobj_def)
  from inspect_ends[OF this, of no_options] obtain r where
    "\<forall>n \<ge> card {0::nat, 1} + 2. inspect two_iobjs n no_options (IObj 0) = Some r" by blast
  then show ?thesis by (intro exI[of _ r]) simp
qed

lemma two_iobjs_shown:
  "inspect two_iobjs 4 no_options (IObj 0) = Some (Inr (js ''{ '' @ [39] @ js ''a b'' @ [39] @ js '': { up: [Circular] }, self: [Circular] }''))"
  by code_simp

end
