(* ===== verification/Inspect_Lines.thy ===== *)
theory Inspect_Lines
  imports Inspect_Props
begin

text \<open>
  Long strings are shown as several literals, one a line; and cases in which \<^verbatim>\<open>inspect\<close> does
  something that its comments do not say.
\<close>

section \<open>Long strings\<close>

text \<open>The second alternative of the pattern always finds the end of the string.\<close>

lemma line_match_Some:
  assumes "s \<noteq> []" "list_all any_char s"
  shows "\<exists>n. line_match divisor s = Some n"
proof -
  have all: "takeWhile any_char s = s" using assms(2) by (simp add: takeWhile_eq_all_conv list_all_iff)
  have "length s \<in> set (filter (\<lambda>k. break_after s k \<noteq> None) [1..<Suc (length s)])"
    using assms(1) by (auto simp: break_after_def Suc_le_eq)
  then obtain k ks where k: "filter (\<lambda>k. break_after s k \<noteq> None) [1..<Suc (length s)] = k # ks"
    by (metis list.exhaust list.set_cases list.discI)
  then have "break_after s k \<noteq> None" using filter_eq_ConsD[OF k] by blast
  then have "\<exists>n. lazy_break s (length s) = Some n" unfolding lazy_break_def k by auto
  then show ?thesis unfolding line_match_def Let_def all by (cases "greedy_break s (min divisor (length s))") simp_all
qed

lemma line_matches_lossless:
  "list_all any_char s \<Longrightarrow> concat (line_matches divisor s) = s"
proof (induction divisor s rule: line_matches.induct)
  case (1 divisor s)
  show ?case
  proof (cases "s = []")
    case False
    then obtain n where n: "line_match divisor s = Some n" using line_match_Some 1(3) by blast
    have "list_all any_char (drop n s)" using 1(3) by (auto simp: list_all_iff dest: in_set_dropD)
    then show ?thesis using 1(2)[OF False n] n False by (subst line_matches.simps) simp
  qed (simp add: line_matches.simps)
qed

lemma rest_lines_join:
  "ms \<noteq> [] \<Longrightarrow> rest_lines stylizeNoColor ind ms =
     ind @ js ''  '' @ join (map strEscape ms) (js '' +'' @ [10] @ ind @ js ''  '')"
proof (induction stylizeNoColor ind ms rule: rest_lines.induct)
  case (3 ind m v va)
  then show ?case by (simp add: join_Cons stylizeNoColor_def)
qed (simp_all add: join_Cons stylizeNoColor_def)

text \<open>
  However \<^verbatim>\<open>inspect\<close> breaks a string into lines, it shows an expression for the string: literals
  joined with \<^verbatim>\<open>+\<close> whose values, put together, are the string.  (The characters that the pattern
  \<^verbatim>\<open>.|\n\<close> does not match, a carriage return and the two Unicode separators, are excluded.)
\<close>

theorem string_shown:
  assumes "list_all any_char s"
  shows "\<exists>parts. parts \<noteq> [] \<and>
    formatString stylizeNoColor s ctx =
      Inr (join (map strEscape parts) (js '' +'' @ [10] @ spaces (i_indentationLvl ctx) @ js ''  '')) \<and>
    map read_literal (map strEscape parts) = map Some parts \<and> concat parts = s"
proof -
  let ?join = "\<lambda>parts. join (map strEscape parts) (js '' +'' @ [10] @ spaces (i_indentationLvl ctx) @ js ''  '')"
  have read: "map read_literal (map strEscape parts) = map Some parts" for parts
    by (simp add: strEscape_spec quoted_def read_literal_def read_body_escape_all)
  have one: ?thesis if "formatString stylizeNoColor s ctx = Inr (strEscape s)"
    using that read[of "[s]"] by (intro exI[of _ "[s]"]) (simp add: join_Cons)
  show ?thesis
  proof (cases "i_breakLength ctx")
    case None
    then show ?thesis by (intro one) (simp add: formatString_def stylizeNoColor_def)
  next
    case (Some b)
    let ?ms = "line_matches (line_divisor (length s) b (i_indentationLvl ctx)) s"
    have lossless: "concat ?ms = s" using assms by (rule line_matches_lossless)
    consider "\<not> (\<not> i_compact ctx \<and> int (i_indentationLvl ctx + length s) > b \<and> length s > 16)"
      | "length s > 16" "?ms = []" | m where "?ms = [m]"
      | m m' ms where "\<not> i_compact ctx \<and> int (i_indentationLvl ctx + length s) > b \<and> length s > 16" "?ms = m # m' # ms"
      by (metis remdups_adj.cases)
    then show ?thesis
    proof cases
      case 1
      then show ?thesis by (intro one) (simp only: formatString_def Some option.case if_False stylizeNoColor_def)
    next
      case 2
      then show ?thesis using lossless by simp
    next
      case 3
      then show ?thesis by (intro one) (simp add: formatString_def Some stylizeNoColor_def)
    next
      case (4 m m' ms)
      then have "formatString stylizeNoColor s ctx = Inr (?join (m # m' # ms))"
        by (simp add: formatString_def Some stylizeNoColor_def rest_lines_join join_Cons del: js_Cons)
      then show ?thesis using lossless[unfolded 4(2)] read[of "m # m' # ms"]
        by (intro exI[of _ "m # m' # ms"] conjI) (simp_all del: js_Cons)
    qed
  qed
qed

definition narrow_ctx :: ictx where
  "narrow_ctx = (inspect_ctx no_options)\<lparr>i_compact := False, i_breakLength := Some 20\<rparr>"

theorem string_shown_witness:
  "\<exists>parts. parts \<noteq> [] \<and>
    formatString stylizeNoColor (js ''a string of several words'' @ [10] @ js ''and lines'') narrow_ctx =
      Inr (join (map strEscape parts) (js '' +'' @ [10] @ spaces (i_indentationLvl narrow_ctx) @ js ''  '')) \<and>
    map read_literal (map strEscape parts) = map Some parts \<and>
    concat parts = js ''a string of several words'' @ [10] @ js ''and lines''"
  by (rule string_shown) (simp add: any_char_def)

lemma no_matches: "list_all (\<lambda>c. \<not> any_char c) s \<Longrightarrow> line_matches divisor s = []"
proof (induction divisor s rule: line_matches.induct)
  case (1 divisor s)
  show ?case
  proof (cases "s = []")
    case False
    then have "takeWhile any_char s = []" using 1(3) by (cases s) auto
    then have none: "line_match divisor s = None" by (simp add: line_match_def lazy_break_def)
    moreover have "list_all (\<lambda>c. \<not> any_char c) (tl s)" using 1(3) False by (cases s) auto
    ultimately show ?thesis using 1(1)[OF False none] by (subst line_matches.simps) simp
  qed (simp add: line_matches.simps)
qed

text \<open>A string without any character that the pattern matches makes \<^verbatim>\<open>inspect\<close> throw.\<close>

lemma carriage_returns_throw:
  "formatString stylizeNoColor (replicate 21 13) narrow_ctx = Inl TypeError"
proof -
  have "line_matches d (replicate 21 13) = []" for d by (rule no_matches) (simp add: any_char_def list_all_iff)
  then show ?thesis by (simp add: formatString_def narrow_ctx_def inspect_ctx_def)
qed

section \<open>Other cases\<close>

definition one_env :: "iobj \<Rightarrow> ienv" where
  "one_env ob =
     \<lparr>n_heap = (\<lambda>a. if a = 0 then ob else plain_iobj [(js ''e'', True, DataDesc (IObj 0))]),
      n_toNumber = (\<lambda>s. if s = js ''01'' then Some 1 else None)\<rparr>"

text \<open>An array with a symbol among its keys: \<^verbatim>\<open>symbols[i] | 0\<close> throws.\<close>

lemma array_with_symbol_throws:
  "inspect (one_env ((plain_iobj [])\<lparr>o_class := CArray 0, o_syms := [(SymKey (js ''Symbol(s)''), True, DataDesc IUndef)]\<rparr>))
     3 no_options (IObj 0) = Some (Inl TypeError)"
  by code_simp

text \<open>An error without a stack is shown in brackets, but not when it is indented.\<close>

lemma nested_error_bare:
  "inspect (one_env ((plain_iobj [])\<lparr>o_class := CError [] (js ''Error: no''), o_chain := [Some (js ''Error'')]\<rparr>))
     3 no_options (IObj 0) = Some (Inr (js ''[Error: no]''))"
  "inspect (one_env ((plain_iobj [])\<lparr>o_class := CError [] (js ''Error: no''), o_chain := [Some (js ''Error'')]\<rparr>))
     3 no_options (IObj 1) = Some (Inr (js ''{ e: Error: no }''))"
  by code_simp+

text \<open>The hidden entry of a weak map is made of the first two characters of its text.\<close>

lemma weak_map_letters:
  "inspect (one_env ((plain_iobj [])\<lparr>o_class := CWeakMap, o_chain := [Some (js ''WeakMap'')], o_text := js ''[object WeakMap]''\<rparr>))
     3 (no_options\<lparr>p_showHidden := Some True\<rparr>) (IObj 0) =
   Some (Inr (js ''WeakMap { '' @ [39] @ js ''['' @ [39] @ js '' => '' @ [39] @ js ''o'' @ [39] @ js '' }''))"
  by code_simp

text \<open>A key that converts to the next index is shown as if it were the item (two are empty here).\<close>

lemma key_shown_as_item:
  "inspect (one_env ((plain_iobj [(js ''0'', True, DataDesc (IBool True)), (js ''01'', True, DataDesc (IBool False))])
       \<lparr>o_class := CArray 3, o_chain := [None, Some (js ''Array'')]\<rparr>))
     3 no_options (IObj 0) = Some (Inr (js ''[ true, false, <1 empty item>, '' @ [39] @ js ''01'' @ [39] @ js '': false ]''))"
  by code_simp

end
