(* ===== verification/Util_Format.thy ===== *)
theory Util_Format
  imports Inspect
begin

text \<open>
  \<^verbatim>\<open>format\<close> and \<^verbatim>\<open>formatWithOptions\<close> of \<^verbatim>\<open>lib_js/util.js\<close>.  The conversions of an argument to text are
  parameters: those of the language, and \<^verbatim>\<open>inspect\<close> with the options of the caller or of \<^verbatim>\<open>%o\<close>.
\<close>

text \<open>What \<^verbatim>\<open>JSON.stringify\<close> does: a text, undefined, the error about a cycle, or another one.\<close>

datatype json_result = JsonText jsstr | JsonUndefined | JsonCircular | JsonThrows jserr

record conversions =
  v_String :: "ival \<Rightarrow> jserr + jsstr"
  v_stringify :: "ival \<Rightarrow> json_result"
  v_Number :: "ival \<Rightarrow> jserr + jsstr"
  v_parseInt :: "ival \<Rightarrow> jserr + jsstr"
  v_parseFloat :: "ival \<Rightarrow> jserr + jsstr"
  v_inspect :: "ival \<Rightarrow> jserr + jsstr"
  v_inspectHidden :: "ival \<Rightarrow> jserr + jsstr"
  v_template :: "ival \<Rightarrow> jserr + jsstr"
  v_isFunction :: "ival \<Rightarrow> bool"

definition tryStringify :: "conversions \<Rightarrow> ival \<Rightarrow> jserr + jsstr" where
  "tryStringify cv arg =
     (case v_stringify cv arg of
        JsonText s \<Rightarrow> Inr s
      | JsonUndefined \<Rightarrow> Inr (js ''undefined'')
      | JsonCircular \<Rightarrow> Inr (js ''[Circular]'')
      | JsonThrows e \<Rightarrow> Inl e)"

text \<open>The text for one of the placeholders, \<open>None\<close> for another character.\<close>

definition placeholder :: "conversions \<Rightarrow> nat \<Rightarrow> ival \<Rightarrow> (jserr + jsstr) option" where
  "placeholder cv nextChar arg =
     (if nextChar = 115 then Some (v_String cv arg)
      else if nextChar = 106 then Some (tryStringify cv arg)
      else if nextChar = 100 then Some (v_Number cv arg)
      else if nextChar = 79 then Some (v_inspect cv arg)
      else if nextChar = 111 then Some (v_inspectHidden cv arg)
      else if nextChar = 105 then Some (v_parseInt cv arg)
      else if nextChar = 102 then Some (v_parseFloat cv arg)
      else None)"

text \<open>The loop over the format string; \<open>args\<close> are the arguments not used yet.\<close>

function format_loop ::
  "conversions \<Rightarrow> jsstr \<Rightarrow> nat \<Rightarrow> ival list \<Rightarrow> jsstr \<Rightarrow> nat \<Rightarrow> jserr + (jsstr \<times> nat \<times> ival list)"
  where
  "format_loop cv f i args str lastPos =
     (if i + 1 < length f then
        (if f ! i = 37 then
           (let j = i + 1; nextChar = f ! j in
            case args of
              arg # rest \<Rightarrow>
                if nextChar = 37 then format_loop cv f (j + 1) args (str @ slice f lastPos j) (j + 1)
                else
                  (case placeholder cv nextChar arg of
                     Some r \<Rightarrow>
                       ebind r (\<lambda>tempStr.
                         format_loop cv f (j + 1) rest
                           ((if lastPos \<noteq> j - 1 then str @ slice f lastPos (j - 1) else str) @ tempStr) (j + 1))
                   | None \<Rightarrow> format_loop cv f (j + 1) args str lastPos)
            | [] \<Rightarrow>
                if nextChar = 37 then format_loop cv f (j + 1) args (str @ slice f lastPos j) (j + 1)
                else format_loop cv f (j + 1) args str lastPos)
         else format_loop cv f (i + 1) args str lastPos)
      else Inr (str, lastPos, args))"
  by pat_completeness auto
termination
  by (relation "measure (\<lambda>(_, f, i, _). length f - i)") auto

declare format_loop.simps [simp del]

text \<open>The arguments that are left over.\<close>

definition rest_text :: "conversions \<Rightarrow> ival \<Rightarrow> jserr + jsstr" where
  "rest_text cv x =
     (case x of
        IObj a \<Rightarrow> if v_isFunction cv x then v_template cv x else v_inspect cv x
      | ISym s \<Rightarrow> v_inspect cv x
      | _ \<Rightarrow> v_template cv x)"

fun append_rest :: "conversions \<Rightarrow> jsstr \<Rightarrow> ival list \<Rightarrow> jserr + jsstr" where
  "append_rest cv str [] = Inr str"
| "append_rest cv str (x # xs) = ebind (rest_text cv x) (\<lambda>t. append_rest cv (str @ [32] @ t) xs)"

text \<open>Without a format string: all arguments inspected, with spaces between them.\<close>

fun inspect_all :: "conversions \<Rightarrow> jsstr \<Rightarrow> ival list \<Rightarrow> jserr + jsstr" where
  "inspect_all cv res [] = Inr res"
| "inspect_all cv res [x] = ebind (v_inspect cv x) (\<lambda>t. Inr (res @ t))"
| "inspect_all cv res (x # xs) = ebind (v_inspect cv x) (\<lambda>t. inspect_all cv (res @ t @ [32]) xs)"

definition formatWithOptions :: "conversions \<Rightarrow> ival list \<Rightarrow> jserr + jsstr" where
  "formatWithOptions cv arguments =
     (case arguments of
        [] \<Rightarrow> Inr []
      | f # args \<Rightarrow>
          (case f of
             IStr fs \<Rightarrow>
               if args = [] then Inr fs
               else
                 ebind (format_loop cv fs 0 args [] 0) (\<lambda>(str, lastPos, rest).
                   append_rest cv
                     (if lastPos = 0 then fs else if lastPos < length fs then str @ sliceFrom fs lastPos else str)
                     rest)
           | _ \<Rightarrow> inspect_all cv [] arguments))"

section \<open>What it computes\<close>

text \<open>The format string read from left to right, character by character.\<close>

fun format_spec :: "conversions \<Rightarrow> jsstr \<Rightarrow> ival list \<Rightarrow> jserr + (jsstr \<times> ival list)" where
  "format_spec cv (c # d # s) args =
     (if c \<noteq> 37 then ebind (format_spec cv (d # s) args) (\<lambda>(t, rest). Inr (c # t, rest))
      else if d = 37 then ebind (format_spec cv s args) (\<lambda>(t, rest). Inr (37 # t, rest))
      else
        (case args of
           arg # more_args \<Rightarrow>
             (case placeholder cv d arg of
                Some r \<Rightarrow>
                  ebind r (\<lambda>text1. ebind (format_spec cv s more_args) (\<lambda>(t, rest). Inr (text1 @ t, rest)))
              | None \<Rightarrow> ebind (format_spec cv s args) (\<lambda>(t, rest). Inr (c # d # t, rest)))
         | [] \<Rightarrow> ebind (format_spec cv s args) (\<lambda>(t, rest). Inr (c # d # t, rest))))"
| "format_spec cv s args = Inr (s, args)"

lemma ebind_assoc: "ebind (ebind m f) g = ebind m (\<lambda>x. ebind (f x) g)"
  by (cases m) simp_all

lemma ebind_Inr [simp]: "ebind m Inr = m"
  by (cases m) simp_all

lemma ebind_cong: "(\<And>x. m = Inr x \<Longrightarrow> f x = g x) \<Longrightarrow> ebind m f = ebind m g"
  by (cases m) simp_all

lemma ebind_map:
  "ebind (ebind m (\<lambda>(t, rest). Inr (g t, rest))) (\<lambda>(t, rest). Inr (h t, rest)) =
   ebind m (\<lambda>(t, rest). Inr (h (g t), rest))"
  by (cases m) auto

text \<open>The text the loop stands for at its end.\<close>

definition finish_format :: "jsstr \<Rightarrow> jsstr \<times> nat \<times> ival list \<Rightarrow> jsstr \<times> ival list" where
  "finish_format f st = (case st of (str, lastPos, rest) \<Rightarrow> (str @ drop lastPos f, rest))"

lemma format_loop_spec:
  assumes "lastPos \<le> i" "i \<le> length f"
  shows "ebind (format_loop cv f i args str lastPos) (\<lambda>st. Inr (finish_format f st)) =
    ebind (format_spec cv (drop i f) args) (\<lambda>(t, rest). Inr (str @ slice f lastPos i @ t, rest))"
  using assms
proof (induction cv f i args str lastPos rule: format_loop.induct)
  case (1 cv f i args str lastPos)
  show ?case
  proof (cases "i + 1 < length f")
    case False
    then have d: "length (drop i f) \<le> 1" by simp
    then have "format_spec cv (drop i f) args = Inr (drop i f, args)"
      by (cases "drop i f" rule: list.exhaust; cases "tl (drop i f)") auto
    moreover have "slice f lastPos i @ drop i f = drop lastPos f"
      using 1 by (metis append_take_drop_id drop_drop le_add_diff_inverse2 slice_def)
    ultimately show ?thesis
      using False by (subst format_loop.simps) (simp add: finish_format_def)
  next
    case True
    let ?j = "i + 1"
    have dr: "drop i f = f ! i # f ! ?j # drop (?j + 1) f"
      using True by (metis Cons_nth_drop_Suc Suc_eq_plus1 add_lessD1)
    have dr1: "drop ?j f = f ! ?j # drop (?j + 1) f"
      using True by (metis Cons_nth_drop_Suc Suc_eq_plus1)
    have sl: "slice f lastPos ?j = slice f lastPos i @ [f ! i]"
      using slice_Suc[of lastPos i f] 1(7) True by simp
    have sl2: "slice f lastPos (?j + 1) = slice f lastPos i @ [f ! i, f ! ?j]"
      using slice_Suc[of lastPos ?j f] 1(7) True sl by simp
    note step = format_loop.simps[of cv f i args str lastPos]
    note IH = 1(1-6)
    show ?thesis
    proof (cases "f ! i = 37")
      case False
      have spec: "format_spec cv (drop i f) args =
          ebind (format_spec cv (drop ?j f) args) (\<lambda>(t, rest). Inr (f ! i # t, rest))"
        unfolding dr dr1 using False by simp
      show ?thesis
        unfolding spec ebind_map using IH(6)[OF True False] 1(7) True sl False by (subst step) simp
    next
      case pc: True
      show ?thesis
      proof (cases "f ! ?j = 37")
        case nx: True
        have "ebind (format_loop cv f (?j + 1) args (str @ slice f lastPos ?j) (?j + 1)) (\<lambda>st. Inr (finish_format f st)) =
            ebind (format_spec cv (drop (?j + 1) f) args) (\<lambda>(t, rest). Inr ((str @ slice f lastPos ?j) @ t, rest))"
          using IH(1)[OF True pc refl refl _ nx] IH(3)[OF True pc refl refl _ nx] True by (cases args) simp_all
        then show ?thesis
          using True pc nx sl by (subst step) (cases args; simp add: dr ebind_map Let_def)
      next
        case nx: False
        show ?thesis
        proof (cases "\<exists>arg rest r. args = arg # rest \<and> placeholder cv (f ! ?j) arg = Some r")
          case True': True
          then obtain arg rest r where a: "args = arg # rest" "placeholder cv (f ! ?j) arg = Some r" by blast
          have loop: "ebind (format_loop cv f (?j + 1) rest
                (if lastPos \<noteq> i then str @ slice f lastPos i @ tempStr else str @ tempStr) (?j + 1))
              (\<lambda>st. Inr (finish_format f st)) =
            ebind (format_spec cv (drop (?j + 1) f) rest)
              (\<lambda>(t, rest). Inr (str @ slice f lastPos i @ tempStr @ t, rest))" for tempStr
            using IH(5)[OF True pc refl refl a(1) nx a(2), of tempStr] True by (cases "lastPos = i") simp_all
          show ?thesis
          proof (cases r)
            case (Inr t)
            then show ?thesis
              using True pc nx a loop[of t] by (subst step) (cases "lastPos = i"; simp add: dr ebind_map Let_def)
          qed (use True pc nx a in \<open>subst step, simp add: dr Let_def\<close>)
        next
          case None: False
          have "ebind (format_loop cv f (?j + 1) args str lastPos) (\<lambda>st. Inr (finish_format f st)) =
            ebind (format_spec cv (drop (?j + 1) f) args) (\<lambda>(t, rest). Inr (str @ slice f lastPos (?j + 1) @ t, rest))"
            using IH(2)[OF True pc refl refl _ nx] IH(4)[OF True pc refl refl _ nx] True 1(7) None
            by (cases args) auto
          then show ?thesis
            using True pc nx None sl2 by (subst step) (cases args; simp add: dr ebind_map Let_def split: option.splits)
        qed
      qed
    qed
  qed
qed

lemma format_loop_start:
  assumes "format_loop cv f i args str lastPos = Inr (str', lastPos', rest)" "lastPos = 0 \<Longrightarrow> str = []" "lastPos' = 0"
  shows "str' = []"
  using assms
proof (induction cv f i args str lastPos rule: format_loop.induct)
  case (1 cv f i args str lastPos)
  note eq = 1(7)[unfolded format_loop.simps[of cv f i]] and IH = 1(1-6)
  show ?case
  proof (cases "i + 1 < length f")
    case False
    then show ?thesis using eq 1(8,9) by simp
  next
    case len: True
    show ?thesis
    proof (cases "f ! i = 37")
      case False
      then show ?thesis using IH(6)[OF len False] eq 1(8,9) len by simp
    next
      case pc: True
      show ?thesis
      proof (cases args)
        case Nil
        then show ?thesis
          using IH(1,2)[OF len pc refl refl Nil] eq 1(8,9) len pc by (auto simp: Let_def split: if_splits)
      next
        case (Cons arg more)
        show ?thesis
          using IH(3-5)[OF len pc refl refl Cons] eq 1(8,9) len pc Cons
          by (cases "f ! (i + 1) = 37"; cases "placeholder cv (f ! (i + 1)) arg")
            (auto simp: Let_def ebind_Inr_iff cong: if_cong)
      qed
    qed
  qed
qed

text \<open>
  C40. \<^verbatim>\<open>formatWithOptions\<close>, which copies the text between the placeholders in one piece, is the reading of
  the format string from left to right: \<^verbatim>\<open>%%\<close> is a percent sign, a placeholder takes the next
  argument, one without an argument and any other character after a percent sign stay, and the
  arguments left over follow, each after a space.  The first conversion that throws ends it.  A format
  string alone is not read at all.
\<close>

theorem format_correct:
  "formatWithOptions cv (IStr f # args) =
     (if args = [] then Inr f
      else ebind (format_spec cv f args) (\<lambda>(str, rest). append_rest cv str rest))"
proof (cases "args = []")
  case False
  have "ebind (format_loop cv f 0 args [] 0) (\<lambda>st. Inr (finish_format f st)) = format_spec cv f args"
    using format_loop_spec[of 0 0 f cv args "[]"] by (cases "format_spec cv f args") auto
  moreover have "ebind (format_loop cv f 0 args [] 0) (\<lambda>(str, lastPos, rest). append_rest cv
        (if lastPos = 0 then f else if lastPos < length f then str @ sliceFrom f lastPos else str) rest) =
      ebind (ebind (format_loop cv f 0 args [] 0) (\<lambda>st. Inr (finish_format f st)))
        (\<lambda>(str, rest). append_rest cv str rest)"
    unfolding ebind_assoc
  proof (rule ebind_cong)
    fix x
    assume x: "format_loop cv f 0 args [] 0 = Inr x"
    obtain str lastPos rest where st: "x = (str, lastPos, rest)" by (cases x)
    have "lastPos = 0 \<Longrightarrow> str = []" using format_loop_start[OF x[unfolded st]] by simp
    then show "(case x of (str, lastPos, rest) \<Rightarrow> append_rest cv
          (if lastPos = 0 then f else if lastPos < length f then str @ sliceFrom f lastPos else str) rest) =
        ebind (Inr (finish_format f x)) (\<lambda>(str, rest). append_rest cv str rest)"
      by (auto simp: st finish_format_def sliceFrom_def)
  qed
  ultimately show ?thesis using False by (simp add: formatWithOptions_def)
qed (simp add: formatWithOptions_def)

end
