(* ===== verification/Console.thy ===== *)
theory Console
  imports Util_Format "HOL-Library.AList"
begin

text \<open>
  \<^verbatim>\<open>lib_js/console.js\<close>: the class \<^verbatim>\<open>Console\<close> over two different streams.  The conversions of the arguments are those of
  \<^verbatim>\<open>formatWithOptions\<close>; what \<^verbatim>\<open>stream.write\<close> does is an argument of every operation, as are the time
  and the text of a stack.  The writes and the warnings are logged.
\<close>

section \<open>The state\<close>

datatype cstream = Stdout | Stderr

text \<open>The listeners of \<^verbatim>\<open>'error'\<close> of a stream: \<^verbatim>\<open>noop\<close> added with \<^verbatim>\<open>once\<close> or with \<^verbatim>\<open>on\<close>, and others.\<close>

datatype elistener = NoopOnce | NoopOn | OtherListener

datatype cevent = WriteText cstream jsstr | EmitWarning jsstr

text \<open>\<^verbatim>\<open>stream.write\<close> returns, emits \<^verbatim>\<open>'error'\<close> before it returns, or throws.\<close>

datatype write_answer = WriteReturns | WriteEmits jserr | WriteThrows jserr

record console =
  c_ignoreErrors :: bool
  c_groupIndent :: jsstr
  c_counts :: "(jsstr \<times> nat) list"
  c_times :: "(jsstr \<times> nat) list"
  c_hadError :: "cstream \<Rightarrow> bool"
  c_errorListeners :: "cstream \<Rightarrow> elistener list"
  c_log :: "cevent list"

definition new_Console :: "bool \<Rightarrow> console" where
  "new_Console ignoreErrors =
     \<lparr>c_ignoreErrors = ignoreErrors, c_groupIndent = [], c_counts = [], c_times = [], c_hadError = (\<lambda>_. False),
      c_errorListeners = (\<lambda>_. []), c_log = []\<rparr>"

text \<open>A call that may throw, with the state it leaves.\<close>

type_synonym cresult = "jserr option \<times> console"

definition cthen :: "cresult \<Rightarrow> (console \<Rightarrow> cresult) \<Rightarrow> cresult" where
  "cthen r f = (case r of (None, st) \<Rightarrow> f st | (Some e, st) \<Rightarrow> (Some e, st))"

section \<open>Writing\<close>

definition set_errorListeners :: "cstream \<Rightarrow> elistener list \<Rightarrow> console \<Rightarrow> console" where
  "set_errorListeners stream ls st = st\<lparr>c_errorListeners := (c_errorListeners st)(stream := ls)\<rparr>"

text \<open>
  The callback of \<^verbatim>\<open>stream.write\<close>; its argument is null, undefined or an error, and only null counts
  as no error.
\<close>

definition writeErrorHandler :: "cstream \<Rightarrow> bool \<Rightarrow> console \<Rightarrow> console" where
  "writeErrorHandler stream errIsNull st =
     (if \<not> errIsNull \<and> \<not> c_hadError st stream then
        (let st1 = st\<lparr>c_hadError := (c_hadError st)(stream := True)\<rparr>
         in if c_errorListeners st1 stream = [] then set_errorListeners stream [NoopOn] st1 else st1)
      else st)"

text \<open>\<^verbatim>\<open>stream.removeListener('error', noop)\<close> takes the last one off.\<close>

definition remove_noop :: "elistener list \<Rightarrow> elistener list" where
  "remove_noop ls = rev (let r = rev ls in takeWhile ((=) OtherListener) r @ drop 1 (dropWhile ((=) OtherListener) r))"

text \<open>The event \<^verbatim>\<open>'error'\<close>: without a listener it throws, \<^verbatim>\<open>once\<close> listeners are taken off.\<close>

definition emit_write_error :: "cstream \<Rightarrow> jserr \<Rightarrow> console \<Rightarrow> cresult" where
  "emit_write_error stream e st =
     (if c_errorListeners st stream = [] then (Some e, st)
      else (None, set_errorListeners stream (filter ((\<noteq>) NoopOnce) (c_errorListeners st stream)) st))"

definition stream_write :: "write_answer \<Rightarrow> cstream \<Rightarrow> jsstr \<Rightarrow> console \<Rightarrow> cresult" where
  "stream_write answer stream string st =
     (let st1 = st\<lparr>c_log := c_log st @ [WriteText stream string]\<rparr> in
      case answer of
        WriteReturns \<Rightarrow> (None, st1)
      | WriteEmits e \<Rightarrow> emit_write_error stream e st1
      | WriteThrows e \<Rightarrow> (Some e, st1))"

definition indented :: "jsstr \<Rightarrow> jsstr \<Rightarrow> jsstr" where
  "indented groupIndent string =
     (if length groupIndent \<noteq> 0 then
        groupIndent @ (if 10 \<in> set string then indent_lines groupIndent string else string)
      else string) @ [10]"

definition console_write :: "write_answer \<Rightarrow> cstream \<Rightarrow> jsstr \<Rightarrow> console \<Rightarrow> cresult" where
  "console_write answer stream string st =
     (let text1 = indented (c_groupIndent st) string in
      if \<not> c_ignoreErrors st then stream_write answer stream text1 st
      else
        (case stream_write answer stream text1
                (set_errorListeners stream (c_errorListeners st stream @ [NoopOnce]) st) of
           (r, st1) \<Rightarrow> (r, set_errorListeners stream (remove_noop (c_errorListeners st1 stream)) st1)))"

section \<open>The methods\<close>

definition formatted :: "conversions \<Rightarrow> ival list \<Rightarrow> (jsstr \<Rightarrow> console \<Rightarrow> cresult) \<Rightarrow> console \<Rightarrow> cresult" where
  "formatted cv args f st = (case formatWithOptions cv args of Inl e \<Rightarrow> (Some e, st) | Inr s \<Rightarrow> f s st)"

definition console_log :: "conversions \<Rightarrow> write_answer \<Rightarrow> ival list \<Rightarrow> console \<Rightarrow> cresult" where
  "console_log cv answer args = formatted cv args (console_write answer Stdout)"

definition console_warn :: "conversions \<Rightarrow> write_answer \<Rightarrow> ival list \<Rightarrow> console \<Rightarrow> cresult" where
  "console_warn cv answer args = formatted cv args (console_write answer Stderr)"

definition warning :: "jsstr \<Rightarrow> console \<Rightarrow> cresult" where
  "warning message st = (None, st\<lparr>c_log := c_log st @ [EmitWarning message]\<rparr>)"

definition console_time :: "jsstr \<Rightarrow> nat \<Rightarrow> console \<Rightarrow> cresult" where
  "console_time label now st =
     (if map_of (c_times st) label \<noteq> None then
        warning (js ''Label '' @ [39] @ label @ [39] @ js '' already exists for console.time()'') st
      else (None, st\<lparr>c_times := AList.update label now (c_times st)\<rparr>))"

text \<open>\<open>fixed\<close> prints a duration in nanoseconds as milliseconds with three digits.\<close>

definition console_timeEnd ::
  "conversions \<Rightarrow> write_answer \<Rightarrow> (nat \<Rightarrow> jsstr) \<Rightarrow> jsstr \<Rightarrow> nat \<Rightarrow> console \<Rightarrow> cresult" where
  "console_timeEnd cv answer fixed label now st =
     (case map_of (c_times st) label of
        None \<Rightarrow> warning (js ''No such label '' @ [39] @ label @ [39] @ js '' for console.timeEnd()'') st
      | Some start \<Rightarrow>
          cthen (console_log cv answer [IStr (js ''%s: %sms''), IStr label, IStr (fixed (now - start))] st)
            (\<lambda>st1. (None, st1\<lparr>c_times := AList.delete label (c_times st1)\<rparr>)))"

definition console_trace :: "conversions \<Rightarrow> write_answer \<Rightarrow> (jsstr \<Rightarrow> jsstr) \<Rightarrow> ival list \<Rightarrow> console \<Rightarrow> cresult" where
  "console_trace cv answer stack args = formatted cv args (\<lambda>message. console_warn cv answer [IStr (stack message)])"

text \<open>\<open>first\<close>: the first argument in a template string.\<close>

definition console_assert ::
  "conversions \<Rightarrow> write_answer \<Rightarrow> bool \<Rightarrow> ival list \<Rightarrow> console \<Rightarrow> cresult" where
  "console_assert cv answer expression args st =
     (if \<not> expression then
        (case args of
           [] \<Rightarrow> formatted cv [IStr (js ''Assertion failed'')] (\<lambda>s. console_warn cv answer [IStr s]) st
         | arg # rest \<Rightarrow>
             (case v_template cv arg of
                Inl e \<Rightarrow> (Some e, st)
              | Inr t \<Rightarrow>
                  formatted cv (IStr (js ''Assertion failed: '' @ t) # rest) (\<lambda>s. console_warn cv answer [IStr s]) st))
      else (None, st))"

definition console_count :: "conversions \<Rightarrow> write_answer \<Rightarrow> jsstr \<Rightarrow> console \<Rightarrow> cresult" where
  "console_count cv answer label st =
     (let count = (case map_of (c_counts st) label of None \<Rightarrow> 1 | Some n \<Rightarrow> n + 1)
      in console_log cv answer [IStr (label @ js '': '' @ nat_to_js count)]
           (st\<lparr>c_counts := AList.update label count (c_counts st)\<rparr>))"

definition console_countReset :: "jsstr \<Rightarrow> console \<Rightarrow> cresult" where
  "console_countReset label st = (None, st\<lparr>c_counts := AList.delete label (c_counts st)\<rparr>)"

definition console_group :: "conversions \<Rightarrow> write_answer \<Rightarrow> ival list \<Rightarrow> console \<Rightarrow> cresult" where
  "console_group cv answer data st =
     cthen (if data \<noteq> [] then console_log cv answer data st else (None, st))
       (\<lambda>st1. (None, st1\<lparr>c_groupIndent := c_groupIndent st1 @ js ''  ''\<rparr>))"

definition console_groupEnd :: "console \<Rightarrow> cresult" where
  "console_groupEnd st = (None, st\<lparr>c_groupIndent := take (length (c_groupIndent st) - 2) (c_groupIndent st)\<rparr>)"

section \<open>Sequences of calls\<close>

datatype cop =
    Log write_answer "ival list"
  | Warn write_answer "ival list"
  | Time jsstr nat
  | TimeEnd write_answer jsstr nat
  | Trace write_answer "ival list"
  | Assert write_answer bool "ival list"
  | Count write_answer jsstr
  | CountReset jsstr
  | Group write_answer "ival list"
  | GroupEnd
  | WriteCallback cstream bool

text \<open>The surroundings of a console: the conversions, the printing of durations and of stacks.\<close>

record csurroundings =
  s_conversions :: conversions
  s_fixed :: "nat \<Rightarrow> jsstr"
  s_stack :: "jsstr \<Rightarrow> jsstr"

fun console_do :: "csurroundings \<Rightarrow> cop \<Rightarrow> console \<Rightarrow> cresult" where
  "console_do s (Log a args) st = console_log (s_conversions s) a args st"
| "console_do s (Warn a args) st = console_warn (s_conversions s) a args st"
| "console_do s (Time label now) st = console_time label now st"
| "console_do s (TimeEnd a label now) st = console_timeEnd (s_conversions s) a (s_fixed s) label now st"
| "console_do s (Trace a args) st = console_trace (s_conversions s) a (s_stack s) args st"
| "console_do s (Assert a b args) st = console_assert (s_conversions s) a b args st"
| "console_do s (Count a label) st = console_count (s_conversions s) a label st"
| "console_do s (CountReset label) st = console_countReset label st"
| "console_do s (Group a args) st = console_group (s_conversions s) a args st"
| "console_do s GroupEnd st = console_groupEnd st"
| "console_do s (WriteCallback stream errIsNull) st = (None, writeErrorHandler stream errIsNull st)"

text \<open>
  What the calls should keep track of: the number of open groups, and for every label how often it
  was counted since it was reset.  A group whose text cannot be written does not open.
\<close>

fun console_spec :: "cop \<Rightarrow> bool \<Rightarrow> nat \<times> (jsstr \<Rightarrow> nat) \<Rightarrow> nat \<times> (jsstr \<Rightarrow> nat)" where
  "console_spec (Group a args) ok (depth, counts) = (if ok then depth + 1 else depth, counts)"
| "console_spec GroupEnd ok (depth, counts) = (depth - 1, counts)"
| "console_spec (Count a label) ok (depth, counts) = (depth, counts(label := counts label + 1))"
| "console_spec (CountReset label) ok (depth, counts) = (depth, counts(label := 0))"
| "console_spec op ok s = s"

definition console_step ::
  "csurroundings \<Rightarrow> cop \<Rightarrow> console \<times> nat \<times> (jsstr \<Rightarrow> nat) \<Rightarrow> console \<times> nat \<times> (jsstr \<Rightarrow> nat)" where
  "console_step s op x =
     (case x of (st, spec) \<Rightarrow> (snd (console_do s op st), console_spec op (fst (console_do s op st) = None) spec))"

definition console_matches :: "console \<times> nat \<times> (jsstr \<Rightarrow> nat) \<Rightarrow> bool" where
  "console_matches x \<longleftrightarrow>
     (case x of (st, depth, counts) \<Rightarrow>
        c_groupIndent st = replicate (2 * depth) 32 \<and>
        (\<forall>label. map_of (c_counts st) label = (if counts label = 0 then None else Some (counts label))))"

text \<open>A call that changes neither the indentation nor the counts.\<close>

definition keeps :: "console \<Rightarrow> cresult \<Rightarrow> bool" where
  "keeps st r \<longleftrightarrow> c_groupIndent (snd r) = c_groupIndent st \<and> c_counts (snd r) = c_counts st"

lemma keeps_write: "keeps st (console_write a stream s st)"
  by (auto simp: keeps_def console_write_def stream_write_def emit_write_error_def set_errorListeners_def Let_def
      split: write_answer.split prod.split)

lemma keeps_formatted: "(\<And>s. keeps st (f s st)) \<Longrightarrow> keeps st (formatted cv args f st)"
  by (auto simp: formatted_def keeps_def split: sum.split)

lemma keeps_log: "keeps st (console_log cv a args st)" "keeps st (console_warn cv a args st)"
  unfolding console_log_def console_warn_def by (rule keeps_formatted, rule keeps_write)+

lemma keeps_same: "c_groupIndent st1 = c_groupIndent st \<Longrightarrow> c_counts st1 = c_counts st \<Longrightarrow> keeps st (r, st1)"
  by (simp add: keeps_def)

lemma keeps_then:
  assumes "keeps st r" "\<And>st1. c_groupIndent (snd (f st1)) = c_groupIndent st1 \<and> c_counts (snd (f st1)) = c_counts st1"
  shows "keeps st (cthen r f)"
  using assms by (auto simp: keeps_def cthen_def split: option.split prod.split)

lemma keeps_others:
  "keeps st (console_time label now st)"
  "keeps st (console_timeEnd cv a fixed label now st)"
  "keeps st (console_trace cv a stack args st)"
  "keeps st (console_assert cv a b args st)"
  "keeps st (None, writeErrorHandler stream errIsNull st)"
proof -
  show "keeps st (console_time label now st)"
    by (simp add: console_time_def warning_def keeps_def)
  show "keeps st (console_timeEnd cv a fixed label now st)"
    unfolding console_timeEnd_def
    by (cases "map_of (c_times st) label")
      (simp_all only: option.case, simp add: warning_def keeps_def, rule keeps_then[OF keeps_log(1)], simp)
  show "keeps st (console_trace cv a stack args st)"
    unfolding console_trace_def by (intro keeps_formatted keeps_log)
  show "keeps st (console_assert cv a b args st)"
    unfolding console_assert_def
    by (auto intro!: keeps_formatted keeps_log keeps_same split: list.split sum.split)
  show "keeps st (None, writeErrorHandler stream errIsNull st)"
    by (simp add: keeps_def writeErrorHandler_def set_errorListeners_def Let_def)
qed

lemma console_step_matches:
  assumes "console_matches (st, depth, counts)"
  shows "console_matches (console_step s op (st, depth, counts))"
proof -
  have kept: "console_matches (snd r, depth, counts)" if "keeps st r" for r
    using that assms by (simp add: console_matches_def keeps_def)
  show ?thesis
  proof (cases op)
    case (Count a label)
    let ?n = "counts label + 1" and ?st = "\<lambda>n. st\<lparr>c_counts := AList.update label n (c_counts st)\<rparr>"
    have n: "(case map_of (c_counts st) label of None \<Rightarrow> 1 | Some n \<Rightarrow> n + 1) = ?n"
      using assms by (simp add: console_matches_def)
    have "console_matches (?st ?n, depth, counts(label := ?n))"
      using assms by (simp add: console_matches_def update_conv')
    then show ?thesis
      using keeps_log(1)[of "?st ?n" "s_conversions s" a "[IStr (label @ js '': '' @ nat_to_js ?n)]"]
      unfolding Count console_step_def prod.case console_do.simps console_spec.simps console_count_def Let_def n
      by (simp add: console_matches_def keeps_def)
  next
    case (CountReset label)
    then show ?thesis using assms
      by (simp add: console_step_def console_countReset_def console_matches_def delete_conv')
  next
    case (Group a args)
    let ?r = "if args \<noteq> [] then console_log (s_conversions s) a args st else (None, st)"
    have r: "keeps st ?r" using keeps_log by (simp add: keeps_def)
    then show ?thesis
      unfolding Group console_step_def prod.case console_do.simps console_spec.simps console_group_def
      using assms
      by (cases ?r; cases "fst ?r")
        (auto simp: cthen_def console_matches_def keeps_def replicate_add numeral_2_eq_2 simp flip: replicate_append_same)
  next
    case GroupEnd
    have "2 * depth - 2 = 2 * (depth - 1)" by simp
    then show ?thesis using assms GroupEnd
      by (simp add: console_step_def console_groupEnd_def console_matches_def)
  next
    case (WriteCallback stream errIsNull)
    then show ?thesis using kept[OF keeps_others(5)] by (simp add: console_step_def)
  qed (use kept keeps_log keeps_others in \<open>simp_all add: console_step_def\<close>)
qed

lemma console_run_matches: "console_matches x \<Longrightarrow> console_matches (fold (console_step s) ops x)"
proof (induction ops arbitrary: x)
  case (Cons op ops)
  then show ?case using console_step_matches by (cases x) simp
qed simp

section \<open>What is written\<close>

lemma indent_lines_split:
  assumes "10 \<notin> set ind"
  shows "splitOn (\<lambda>c. c = 10) (ind @ indent_lines ind s) = map (\<lambda>l. ind @ l) (splitOn (\<lambda>c. c = 10) s)"
proof (induction s)
  case Nil
  have "list_all (\<lambda>c. c \<noteq> 10) ind" using assms by (auto simp: list_all_iff)
  then show ?case by (simp add: indent_lines_def splitOn_free list_all_iff)
next
  case (Cons c s)
  have app: "splitOn (\<lambda>c. c = 10) (ind @ t) =
      (case splitOn (\<lambda>c. c = 10) t of [] \<Rightarrow> [ind] | h # r \<Rightarrow> (ind @ h) # r)" for t
    using assms by (induction ind) (auto split: list.splits)
  show ?case
  proof (cases "c = 10")
    case True
    have "indent_lines ind (c # s) = 10 # ind @ indent_lines ind s" using True by (simp add: indent_lines_def)
    then show ?thesis using True Cons app[of "10 # ind @ indent_lines ind s"] by simp
  next
    case False
    have "indent_lines ind (c # s) = c # indent_lines ind s" using False by (simp add: indent_lines_def)
    moreover have "\<exists>h r. splitOn (\<lambda>c. c = 10) t = h # r" for t
      by (cases "splitOn (\<lambda>c. c = 10) t") auto
    ultimately show ?thesis using False Cons app[of "indent_lines ind s"] app[of "c # indent_lines ind s"]
      by (auto split: list.splits)
  qed
qed

lemma indented_lines:
  assumes "10 \<notin> set ind"
  shows "splitOn (\<lambda>c. c = 10) (indented ind s) = map (\<lambda>l. ind @ l) (splitOn (\<lambda>c. c = 10) s) @ [[]]"
proof -
  have same: "indent_lines ind s = s" if "10 \<notin> set s" using that by (induction s) (auto simp: indent_lines_def)
  have "indented ind s = (ind @ indent_lines ind s) @ 10 # []"
  proof (cases "ind = []")
    case True
    have "concat (map (\<lambda>c. if c = 10 then [10] else [c]) s) = s" by (induction s) auto
    then show ?thesis by (simp add: True indented_def indent_lines_def cong: if_cong)
  qed (use same in \<open>auto simp: indented_def\<close>)
  then show ?thesis
    using splitOn_append_sep[of "\<lambda>c. c = 10" 10 "ind @ indent_lines ind s" "[]"] indent_lines_split[OF assms] by simp
qed

lemma write_logged:
  "c_log (snd (console_write a stream string st)) = c_log st @ [WriteText stream (indented (c_groupIndent st) string)]"
  by (auto simp: console_write_def stream_write_def emit_write_error_def set_errorListeners_def Let_def
      split: write_answer.split prod.split)

text \<open>A text as only argument is written as it is, every line after the indentation.\<close>

lemma log_lines:
  assumes "c_groupIndent st = replicate n 32"
  shows "\<exists>line. c_log (snd (console_log cv a [IStr string] st)) = c_log st @ [WriteText Stdout line] \<and>
    splitOn (\<lambda>c. c = 10) line = map (\<lambda>l. replicate n 32 @ l) (splitOn (\<lambda>c. c = 10) string) @ [[]]"
  using indented_lines[of "c_groupIndent st" string]
  by (auto simp: assms console_log_def formatted_def formatWithOptions_def write_logged)

text \<open>
  Whatever was called before on a new console, with whatever conversions that threw and streams that
  failed, \<^verbatim>\<open>console.log\<close> of one text writes to stdout exactly its lines, every line after two spaces for every
  open group, and \<^verbatim>\<open>console.count\<close> writes in the same way the label and how often it was counted since it
  was last reset.  A group is open from \<^verbatim>\<open>console.group\<close>, unless that call threw, to its \<^verbatim>\<open>console.groupEnd\<close>.
\<close>

theorem console_writes:
  assumes "(st, depth, counts) = fold (console_step s) ops (new_Console ignore, 0, \<lambda>_. 0)"
  shows "(\<exists>line. c_log (snd (console_do s (Log a [IStr string]) st)) = c_log st @ [WriteText Stdout line] \<and>
      splitOn (\<lambda>c. c = 10) line =
        map (\<lambda>l. replicate (2 * depth) 32 @ l) (splitOn (\<lambda>c. c = 10) string) @ [[]]) \<and>
    (\<exists>line. c_log (snd (console_do s (Count a label) st)) = c_log st @ [WriteText Stdout line] \<and>
      splitOn (\<lambda>c. c = 10) line =
        map (\<lambda>l. replicate (2 * depth) 32 @ l)
          (splitOn (\<lambda>c. c = 10) (label @ js '': '' @ nat_to_js (counts label + 1))) @ [[]])"
proof -
  have start: "console_matches (new_Console ignore, 0, \<lambda>_. 0)" by (simp add: console_matches_def new_Console_def)
  have m: "console_matches (st, depth, counts)" unfolding assms by (rule console_run_matches[OF start])
  then have ind: "c_groupIndent st = replicate (2 * depth) 32" by (simp add: console_matches_def)
  have n: "(case map_of (c_counts st) label of None \<Rightarrow> 1 | Some n \<Rightarrow> n + 1) = counts label + 1"
    using m by (simp add: console_matches_def)
  show ?thesis
    unfolding console_do.simps console_count_def n Let_def
    using log_lines[OF ind]
      log_lines[of "st\<lparr>c_counts := AList.update label (counts label + 1) (c_counts st)\<rparr>" "2 * depth"] ind
    by simp
qed

text \<open>Two groups, one of them closed, and a label counted twice.\<close>

definition no_conversions :: conversions where
  "no_conversions =
     \<lparr>v_String = (\<lambda>v. Inr []), v_stringify = (\<lambda>v. JsonUndefined), v_Number = (\<lambda>v. Inr []),
      v_parseInt = (\<lambda>v. Inr []), v_parseFloat = (\<lambda>v. Inr []), v_inspect = (\<lambda>v. Inr []),
      v_inspectHidden = (\<lambda>v. Inr []), v_template = (\<lambda>v. Inr []), v_isFunction = (\<lambda>v. False)\<rparr>"

definition no_surroundings :: csurroundings where
  "no_surroundings = \<lparr>s_conversions = no_conversions, s_fixed = nat_to_js, s_stack = id\<rparr>"

definition grouped :: "console \<times> nat \<times> (jsstr \<Rightarrow> nat)" where
  "grouped = fold (console_step no_surroundings)
     [Group WriteReturns [IStr (js ''g'')], Group WriteReturns [], Count WriteReturns (js ''a''), GroupEnd]
     (new_Console True, 0, \<lambda>_. 0)"

theorem console_writes_witness:
  "\<exists>line. c_log (snd (console_do no_surroundings (Count WriteReturns (js ''a'')) (fst grouped))) =
     [WriteText Stdout (js ''g'' @ [10]), WriteText Stdout (js ''    a: 1'' @ [10]), WriteText Stdout line] \<and>
     splitOn (\<lambda>c. c = 10) line = [js ''  a: 2'', []]"
proof -
  obtain st depth counts where g: "grouped = (st, depth, counts)" by (cases grouped)
  have "fst (snd grouped) = 1" "snd (snd grouped) (js ''a'') = 1"
    "c_log (fst grouped) = [WriteText Stdout (js ''g'' @ [10]), WriteText Stdout (js ''    a: 1'' @ [10])]"
    by code_simp+
  then have st: "depth = 1" "counts (js ''a'') = 1"
    "c_log st = [WriteText Stdout (js ''g'' @ [10]), WriteText Stdout (js ''    a: 1'' @ [10])]"
    by (simp_all only: g fst_conv snd_conv)
  have text1: "map (\<lambda>l. replicate (2 * 1) 32 @ l) (splitOn (\<lambda>c. c = 10) (js ''a'' @ js '': '' @ nat_to_js (1 + 1))) @ [[]] =
      [js ''  a: 2'', []]" by code_simp
  from console_writes[OF g[symmetric, unfolded grouped_def], of WriteReturns "[]" "js ''a''", unfolded st text1]
  show ?thesis by (simp only: g fst_conv) auto
qed

end
