(* ===== verification/Spec2Isabelle.thy ===== *)
theory Spec2Isabelle
  imports Path_Relative Path_Win32_Props Querystring_Roundtrip Events_Spec Events_Once Url_Props Url_Dots Collections_Props Writable_Runs Arrays_Props Keypress_Props Readline_History Pipes Stream_Ends Deep_Equal_Cycles
    Http_Agent_Props Http_Exchange Net_Props Net_Server Inspect_Lines Console
begin

text \<open>
  A model of the JavaScript library of low.js (the files under \<^verbatim>\<open>lib_js/\<close>), an implementation of the
  Node.js API for small machines on the Duktape engine.  All file names below are relative to \<^verbatim>\<open>lib_js/\<close>.

  \<^bold>\<open>Parts and how they interact.\<close>  Pure functions on strings: \<^verbatim>\<open>path.js\<close>, \<^verbatim>\<open>querystring.js\<close> with
  \<^verbatim>\<open>internal/querystring.js\<close>, \<^verbatim>\<open>url.js\<close> (which uses the query strings), \<^verbatim>\<open>util.js\<close> with \<^verbatim>\<open>internal/util.js\<close>.
  Pure functions on a heap of objects: \<^verbatim>\<open>internal/util/comparisons.js\<close>, and \<^verbatim>\<open>inspect\<close> of \<^verbatim>\<open>util.js\<close>.
  Objects with state that call the user's code, which calls them back: the emitter of \<^verbatim>\<open>events.js\<close>, the
  streams of \<^verbatim>\<open>stream.js\<close>, which are emitters, and the line editor of \<^verbatim>\<open>readline.js\<close>, fed by the key decoder
  of \<^verbatim>\<open>internal/readline.js\<close>.  Over the streams: the sockets and servers of \<^verbatim>\<open>net.js\<close>, the messages of
  \<^verbatim>\<open>internal/http.js\<close> and the pool of connections of \<^verbatim>\<open>http.js\<close>.  \<^verbatim>\<open>init.js\<close> adds to the engine what it
  lacks (maps, sets, array methods), \<^verbatim>\<open>console.js\<close> writes what \<^verbatim>\<open>util.js\<close> formats.

  \<^bold>\<open>Conventions\<close> (\<^verbatim>\<open>Js_Prelude\<close>, \<^verbatim>\<open>Util_Core\<close>, \<^verbatim>\<open>Js_Effects\<close>).  A string is a list of UTF-16 code units, a
  list of natural numbers; \<^verbatim>\<open>js\<close> makes one of a literal.  What is thrown is the left side of a sum, \<^verbatim>\<open>ebind\<close>
  goes on after a call that may throw.  Objects used as dictionaries are association lists in the order of
  their properties; \<^verbatim>\<open>own_keys\<close> puts integer keys first.  A class is a record, its methods are functions on
  the record, named as in the code, with a prefix where a name is taken.  User code is a parameter: what a
  handler or a callback does is a list of calls of the object's own methods, or a throw.  A function that runs
  user code takes the function that runs its calls, and an outermost function ties the knot with fuel
  (\<^verbatim>\<open>exec\<close> for emitters, \<^verbatim>\<open>wexec\<close> and \<^verbatim>\<open>rexec\<close> for streams, \<^verbatim>\<open>deep\<close> for the comparison, \<^verbatim>\<open>formatValue\<close> for
  \<^verbatim>\<open>inspect\<close>); \<^verbatim>\<open>None\<close> is a run that is not over.  Natural numbers stand for addresses, listeners, sockets.

  \<^bold>\<open>Theories and code.\<close>
  \<^item> \<^verbatim>\<open>Path_Common\<close>, \<^verbatim>\<open>Path_Posix\<close>, \<^verbatim>\<open>Path_Win32\<close>, \<^verbatim>\<open>Path_Scan\<close>, \<^verbatim>\<open>Path_Names\<close>, \<^verbatim>\<open>Path_Relative\<close>,
    \<^verbatim>\<open>Path_Win32_Props\<close>: \<^verbatim>\<open>path.js\<close>, both flavours.  The character loops compute the resolution of segments,
    \<^verbatim>\<open>relative\<close> leads where it should, \<^verbatim>\<open>join\<close> makes no UNC path, parts fit together.
  \<^item> \<^verbatim>\<open>Querystring\<close>, \<^verbatim>\<open>Querystring_Codec\<close>, \<^verbatim>\<open>Querystring_Roundtrip\<close>: the encoding loops, and \<^verbatim>\<open>parse\<close> as
    inverse of \<^verbatim>\<open>stringify\<close>.
  \<^item> \<^verbatim>\<open>Url\<close>, \<^verbatim>\<open>Url_Resolve\<close>, \<^verbatim>\<open>Url_Trim\<close>, \<^verbatim>\<open>Url_Host\<close>, \<^verbatim>\<open>Url_Props\<close>, \<^verbatim>\<open>Url_Dots\<close>: \<^verbatim>\<open>Url.prototype.parse\<close>,
    \<^verbatim>\<open>format\<close>, \<^verbatim>\<open>resolveObject\<close>; host names, the cuts of the text, dot segments.
  \<^item> \<^verbatim>\<open>Events\<close>, \<^verbatim>\<open>Events_Props\<close>, \<^verbatim>\<open>Events_Once\<close>, \<^verbatim>\<open>Events_Spec\<close>: every method of the emitter; invariant of the
    state, once-listeners, order of the calls of \<^verbatim>\<open>emit\<close>.
  \<^item> \<^verbatim>\<open>Collections\<close>, \<^verbatim>\<open>Collections_Props\<close>, \<^verbatim>\<open>Arrays\<close>, \<^verbatim>\<open>Arrays_Props\<close>: Map, Set and their weak forms, iterators,
    array and buffer methods of \<^verbatim>\<open>init.js\<close>.
  \<^item> \<^verbatim>\<open>Writable\<close>, \<^verbatim>\<open>Writable_Props\<close>, \<^verbatim>\<open>Writable_Runs\<close>, \<^verbatim>\<open>Readable\<close>, \<^verbatim>\<open>Readable_Props\<close>, \<^verbatim>\<open>Pipes\<close>, \<^verbatim>\<open>Stream_Ends\<close>:
    the classes of \<^verbatim>\<open>stream.js\<close>; order and completeness of the chunks, the end, the listeners of pipes,
    \<^verbatim>\<open>Transform\<close> and \<^verbatim>\<open>finished\<close> as transitions.
  \<^item> \<^verbatim>\<open>Keypress\<close>, \<^verbatim>\<open>Keypress_Props\<close>, \<^verbatim>\<open>Text_Width\<close>, \<^verbatim>\<open>Readline\<close>, \<^verbatim>\<open>Readline_Props\<close>, \<^verbatim>\<open>Readline_Spec\<close>,
    \<^verbatim>\<open>Readline_History\<close>: the key decoder as a machine with a state for every \<^verbatim>\<open>yield\<close>, the line editor, its
    refinement by two texts left and right of the cursor, lines, history.
  \<^item> \<^verbatim>\<open>Constants\<close>, \<^verbatim>\<open>Deep_Equal\<close>, \<^verbatim>\<open>Deep_Equal_Props\<close>, \<^verbatim>\<open>Deep_Equal_Cycles\<close>: the deep comparison with its memos;
    the specification is the largest relation that agrees on the surface and under every key.
  \<^item> \<^verbatim>\<open>Http_Headers\<close>, \<^verbatim>\<open>Http_Props\<close>, \<^verbatim>\<open>Http_Exchange\<close>, \<^verbatim>\<open>Http_Agent\<close>, \<^verbatim>\<open>Http_Agent_Props\<close>: header tables, heads of
    messages, the order of what goes to the native layer, the pool of connections.
  \<^item> \<^verbatim>\<open>Net_Socket\<close>, \<^verbatim>\<open>Net_Props\<close>, \<^verbatim>\<open>Net_Server\<close>: sockets and servers over the native calls.
  \<^item> \<^verbatim>\<open>Util_Text\<close>, \<^verbatim>\<open>Inspect\<close>, \<^verbatim>\<open>Inspect_Props\<close>, \<^verbatim>\<open>Inspect_Lines\<close>, \<^verbatim>\<open>Util_Format\<close>, \<^verbatim>\<open>Console\<close>: quoting and colours,
    \<^verbatim>\<open>inspect\<close> with a formatter for every class, format strings, the console.

  \<^bold>\<open>Groups of lemmas.\<close>  Every stateful part has an invariant kept by every operation under arbitrary user
  code (\<^verbatim>\<open>ev_ok\<close>, \<^verbatim>\<open>winv\<close>, \<^verbatim>\<open>rinv\<close>, \<^verbatim>\<open>books\<close>, \<^verbatim>\<open>server_ok\<close> and others), and properties of whole runs
  from it.  Loops over strings have a reference function and an equation between both.  Where the code is wrong
  the lemma says what it does, and the property says for which inputs the intended statement holds.

  \<^bold>\<open>Interfaces.\<close>  The locales state what a part needs of another: \<^verbatim>\<open>path_flavour\<close> (separators), \<^verbatim>\<open>key_store\<close> (a
  store of keys), \<^verbatim>\<open>ok_runner\<close>, \<^verbatim>\<open>once_runner\<close>, \<^verbatim>\<open>more_runner\<close> (what runs a handler keeps the invariant, never
  runs a once-listener twice, agrees with more fuel), \<^verbatim>\<open>safe_runner\<close>, \<^verbatim>\<open>calm_runner\<close> (the same for the two kinds
  of streams), \<^verbatim>\<open>careful_listeners\<close>, \<^verbatim>\<open>passive_listeners\<close> (listeners of the editor).  They are interpreted on the
  model's own runners \<^verbatim>\<open>exec h n\<close>, \<^verbatim>\<open>wexec h n\<close>, \<^verbatim>\<open>rexec\<close>, on \<^verbatim>\<open>sharedSet\<close> and \<^verbatim>\<open>sharedDelete\<close>, on both sets of
  separators and on listeners that do nothing or prompt.

  \<^bold>\<open>Bounds and fuel.\<close>  The fuel counts nested calls.  Runs with fuel \<open>n\<close> that end are the runs with any
  larger fuel (\<open>more_runner\<close> for emitters).  A stream with a \<^verbatim>\<open>_write\<close> that calls back at once needs the number of
  chunks plus 4 (\<open>writable_finishes\<close>); the comparison needs more than the rank of an acyclic left value
  (\<open>strict_decides\<close>) and never ends on some cyclic ones (\<open>cycle_never_ends\<close>); \<^verbatim>\<open>formatValue\<close> needs two
  more than there are objects (\<open>inspect_ends\<close>).  \<^verbatim>\<open>search_loop\<close>, which may not end, is a partial function, and
  \<open>indexOf_returns_iff\<close> says when it does.  The other loops end by measures.

  \<^bold>\<open>Parameters.\<close>  What is not JavaScript of this library is an argument: the answers of native calls (as
  operations or hooks), the current directory and drive variables, the time, the engine's conversions of
  numbers, \<^verbatim>\<open>toLowerCase\<close> of hosts and headers, base64, \<^verbatim>\<open>Buffer.concat\<close>, decoding of bytes, contents of
  uninitialised memory, the comparison of byte arrays, \<^verbatim>\<open>JSON.stringify\<close>.  The properties name what they
  need of them.  Ghost fields record what happened and are read by no operation: \<^verbatim>\<open>ev_fired\<close>, \<^verbatim>\<open>w_log\<close>,
  \<^verbatim>\<open>r_log\<close>, \<^verbatim>\<open>p_calls\<close>, \<^verbatim>\<open>ag_log\<close>, \<^verbatim>\<open>k_log\<close>, \<^verbatim>\<open>sv_log\<close>, \<^verbatim>\<open>rs_log\<close>, \<^verbatim>\<open>cr_log\<close>, \<^verbatim>\<open>sc_log\<close>, \<^verbatim>\<open>c_log\<close>.

  \<^bold>\<open>Not modelled.\<close>  The rest of \<^verbatim>\<open>init.js\<close> (patches of the interpreter, the loader), \<^verbatim>\<open>wrap\<close> and
  \<^verbatim>\<open>pipeline\<close> of \<^verbatim>\<open>stream.js\<close> (the second always throws), the rest of \<^verbatim>\<open>util.js\<close> (wrappers of functions),
  \<^verbatim>\<open>internal/errors.js\<close> (a registry of messages), \<^verbatim>\<open>assert.js\<close>, \<^verbatim>\<open>repl.js\<close>, \<^verbatim>\<open>console.table\<close>, \<^verbatim>\<open>clear\<close> and \<^verbatim>\<open>dir\<close>,
  \<^verbatim>\<open>https.js\<close>, \<^verbatim>\<open>tls.js\<close>, \<^verbatim>\<open>dgram.js\<close>, \<^verbatim>\<open>dns.js\<close>, \<^verbatim>\<open>fs.js\<close>, \<^verbatim>\<open>tty.js\<close>, \<^verbatim>\<open>crypto.js\<close> and the other thin layers over
  native calls, and the C++ runtime.  Getters, proxies and prototypes changed by the user are not objects of the
  models; numbers are integers, the infinities and NaN where a fraction does not matter.
\<close>

end
